(* ===== verification/Prelude.thy ===== *)
theory Prelude
  imports Main "HOL-Library.AList" "HOL-Library.Multiset"
begin

text \<open>
  Shared vocabulary of the development.

  \<^item> JavaScript \<open>Map\<close> objects iterate in insertion order, and writing an existing key
    keeps its position.  They are modelled as association lists with
    \<^const>\<open>map_of\<close>, \<^const>\<open>AList.update\<close> and \<^const>\<open>AList.delete\<close>, which have exactly that
    behaviour.
  \<^item> JavaScript \<open>Set\<close> objects iterate in insertion order as well; they are lists built
    with \<open>set_add\<close>.
  \<^item> A string is a \<^typ>\<open>string\<close>, one \<^typ>\<open>char\<close> per UTF-16 code unit; the model covers the
    code units below 256.  \<open>trim\<close>, \<open>split\<close> and \<open>join\<close> are the methods of
    \<open>String.prototype\<close> and \<open>Array.prototype\<close>.
  \<^item> An exception is the \<^const>\<open>Inl\<close> of a sum type.
\<close>

named_theorems map_laws "lookup after update or delete, for every kind of map in the model"
named_theorems step_defs "definitions that a state-invariant proof unfolds"

section \<open>The interface of a keyed store\<close>

text \<open>
  What a client of a \<open>Map\<close> relies on: reading after a write and after a deletion.
\<close>

locale keyed_store =
  fixes get :: "'m \<Rightarrow> 'k \<Rightarrow> 'v option"
    and put :: "'k \<Rightarrow> 'v \<Rightarrow> 'm \<Rightarrow> 'm"
    and del :: "'k \<Rightarrow> 'm \<Rightarrow> 'm"
  assumes get_put: "get (put k v m) j = (if j = k then Some v else get m j)"
    and get_del: "get (del k m) j = (if j = k then None else get m j)"
begin

lemma get_put_same: "get (put k v m) k = Some v"
  by (simp add: get_put)

lemma get_put_other: "j \<noteq> k \<Longrightarrow> get (put k v m) j = get m j"
  by (simp add: get_put)

lemma get_del_same: "get (del k m) k = None"
  by (simp add: get_del)

lemma get_del_other: "j \<noteq> k \<Longrightarrow> get (del k m) j = get m j"
  by (simp add: get_del)

lemma put_dom: "{j. get (put k v m) j \<noteq> None} = insert k {j. get m j \<noteq> None}"
  by (auto simp: get_put)

lemma del_dom: "{j. get (del k m) j \<noteq> None} = {j. get m j \<noteq> None} - {k}"
  by (auto simp: get_del)

lemma fold_del:
  "get (fold del ks m) j = (if j \<in> set ks then None else get m j)"
  by (induction ks arbitrary: m) (auto simp: get_del)

end

interpretation alist: keyed_store map_of AList.update AList.delete
  by unfold_locales (simp_all add: update_conv' delete_conv')

lemmas alist_get_put [map_laws] = alist.get_put
lemmas alist_get_del [map_laws] = alist.get_del

lemma map_of_update_self [simp]: "map_of (AList.update k v m) k = Some v"
  by (rule alist.get_put_same)

lemma map_of_delete_self [simp]: "map_of (AList.delete k m) k = None"
  by (rule alist.get_del_same)

lemma map_of_eq_None_keys: "map_of m k = None \<longleftrightarrow> k \<notin> fst ` set m"
  by (rule map_of_eq_None_iff)

lemma fst_set_delete [simp]: "fst ` set (AList.delete k m) = fst ` set m - {k}"
  by (auto simp: AList.delete_eq image_iff)

lemma set_delete_conv: "set (AList.delete k m) = {p \<in> set m. fst p \<noteq> k}"
  by (auto simp: AList.delete_eq)

lemma set_update_subset: "set (AList.update k v m) \<subseteq> insert (k, v) (set m)"
  by (induction m) auto

section \<open>Ordered sets\<close>

definition set_add :: "'a \<Rightarrow> 'a list \<Rightarrow> 'a list" where
  "set_add x xs = (if x \<in> set xs then xs else xs @ [x])"

lemma set_set_add [simp]: "set (set_add x xs) = insert x (set xs)"
  by (auto simp: set_add_def)

lemma distinct_set_add [simp]: "distinct (set_add x xs) = distinct xs"
  by (auto simp: set_add_def)

definition set_add_all :: "'a list \<Rightarrow> 'a list \<Rightarrow> 'a list" where
  "set_add_all ys xs = fold set_add ys xs"

lemma set_set_add_all [simp]: "set (set_add_all ys xs) = set ys \<union> set xs"
  unfolding set_add_all_def by (induction ys arbitrary: xs) auto

lemma distinct_set_add_all [simp]: "distinct (set_add_all ys xs) = distinct xs"
  unfolding set_add_all_def by (induction ys arbitrary: xs) auto

text \<open>\<open>new Map(xs.map((x) => [key(x), x]))\<close>: the last element with a key wins.\<close>

definition index_by :: "('a \<Rightarrow> 'k) \<Rightarrow> 'a list \<Rightarrow> ('k \<times> 'a) list" where
  "index_by key xs = fold (\<lambda>x. AList.update (key x) x) xs []"

lemma index_by_snoc: "index_by key (xs @ [x]) = AList.update (key x) x (index_by key xs)"
  by (simp add: index_by_def)

lemma index_by_Nil [simp]: "index_by key [] = []"
  by (simp add: index_by_def)

lemma fst_set_index_by [simp]: "fst ` set (index_by key xs) = key ` set xs"
  by (induction xs rule: rev_induct) (auto simp: index_by_snoc dom_update[symmetric] simp flip: dom_map_of_conv_image_fst simp: update_conv')

lemma distinct_index_by [simp]: "distinct (map fst (index_by key xs))"
  by (induction xs rule: rev_induct) (auto simp: index_by_snoc distinct_update)

lemma index_by_sound: "(k, x) \<in> set (index_by key xs) \<Longrightarrow> x \<in> set xs \<and> k = key x"
proof (induction xs rule: rev_induct)
  case (snoc y ys)
  then show ?case using set_update_subset[of "key y" y "index_by key ys"]
    by (auto simp: index_by_snoc)
qed simp

lemma index_by_keys_filtered:
  "key ` snd ` {p \<in> set (index_by key xs). Q (fst p)} = {k \<in> key ` set xs. Q k}"
proof -
  have "key ` snd ` {p \<in> set (index_by key xs). Q (fst p)} = fst ` {p \<in> set (index_by key xs). Q (fst p)}"
    unfolding image_image by (rule image_cong) (auto dest: index_by_sound)
  also have "\<dots> = {k \<in> fst ` set (index_by key xs). Q k}" by (auto simp: image_iff simp del: fst_set_index_by)
  finally show ?thesis by simp
qed

lemma map_of_index_by_None: "map_of (index_by key xs) k = None \<longleftrightarrow> k \<notin> key ` set xs"
  by (simp add: map_of_eq_None_keys)

lemma map_of_index_by_Some: "map_of (index_by key xs) k = Some x \<Longrightarrow> x \<in> set xs \<and> key x = k"
  using index_by_sound by (metis map_of_SomeD)

lemma map_of_index_by_distinct:
  "distinct (map key xs) \<Longrightarrow> x \<in> set xs \<Longrightarrow> map_of (index_by key xs) (key x) = Some x"
proof -
  assume d: "distinct (map key xs)" and x: "x \<in> set xs"
  have "map_of (index_by key xs) (key x) \<noteq> None" using x by (simp add: map_of_index_by_None)
  then obtain y where y: "map_of (index_by key xs) (key x) = Some y" by blast
  with map_of_index_by_Some[OF y] d x show ?thesis by (metis distinct_map inj_onD)
qed

text \<open>A stable sort by a comparison, as \<open>Array.prototype.sort\<close> with a comparator.\<close>

fun insert_by :: "('a \<Rightarrow> 'a \<Rightarrow> bool) \<Rightarrow> 'a \<Rightarrow> 'a list \<Rightarrow> 'a list" where
  "insert_by le x [] = [x]"
| "insert_by le x (y # ys) = (if le x y then x # y # ys else y # insert_by le x ys)"

definition sort_by :: "('a \<Rightarrow> 'a \<Rightarrow> bool) \<Rightarrow> 'a list \<Rightarrow> 'a list" where
  "sort_by le xs = foldr (insert_by le) xs []"

lemma mset_insert_by [simp]: "mset (insert_by le x xs) = add_mset x (mset xs)"
  by (induction xs) auto

lemma mset_sort_by [simp]: "mset (sort_by le xs) = mset xs"
  by (induction xs) (auto simp: sort_by_def)

lemma set_sort_by [simp]: "set (sort_by le xs) = set xs"
  by (metis mset_sort_by set_mset_mset)

lemma length_sort_by [simp]: "length (sort_by le xs) = length xs"
  by (metis mset_sort_by size_mset)

text \<open>\<open>findIndex\<close>\<close>

fun find_index_of :: "('a \<Rightarrow> bool) \<Rightarrow> 'a list \<Rightarrow> nat option" where
  "find_index_of p [] = None"
| "find_index_of p (x # xs) = (if p x then Some 0 else map_option Suc (find_index_of p xs))"

lemma find_index_of_Some: "find_index_of p xs = Some i \<Longrightarrow> i < length xs \<and> p (xs ! i)"
  by (induction xs arbitrary: i) (auto split: if_splits)

lemma find_index_of_None: "find_index_of p xs = None \<longleftrightarrow> (\<forall>x \<in> set xs. \<not> p x)"
  by (induction xs) auto

section \<open>Loops over a list that may throw\<close>

text \<open>
  \<open>for (const x of xs) { ... }\<close> whose body may throw: the state reached so far is kept, the
  remaining elements are skipped.
\<close>

fun for_each :: "('s \<Rightarrow> 'a \<Rightarrow> 's \<times> ('e + unit)) \<Rightarrow> 's \<Rightarrow> 'a list \<Rightarrow> 's \<times> ('e + unit)" where
  "for_each f s [] = (s, Inr ())"
| "for_each f s (x # xs) =
     (case f s x of
        (s', Inl e) \<Rightarrow> (s', Inl e)
      | (s', Inr _) \<Rightarrow> for_each f s' xs)"

lemma for_each_invariant:
  assumes "P s"
    and step: "\<And>s x s' r. P s \<Longrightarrow> x \<in> set xs \<Longrightarrow> f s x = (s', r) \<Longrightarrow> P s'"
    and run: "for_each f s xs = (s', r)"
  shows "P s'"
  using assms
proof (induction xs arbitrary: s)
  case Nil
  then show ?case by simp
next
  case (Cons x xs)
  obtain s1 r1 where s1: "f s x = (s1, r1)" by (cases "f s x")
  have P1: "P s1" using Cons.prems(1,2) s1 by (meson list.set_intros(1))
  show ?case
  proof (cases r1)
    case (Inl e)
    then show ?thesis using Cons.prems(3) s1 P1 by simp
  next
    case (Inr u)
    then show ?thesis
      using Cons.prems s1 P1 Cons.IH[of s1] by (metis (no_types, lifting) case_prod_conv
          for_each.simps(2) list.set_intros(2) sum.simps(6))
  qed
qed

lemma for_each_append:
  "for_each f s (xs @ ys) =
     (case for_each f s xs of
        (s', Inl e) \<Rightarrow> (s', Inl e)
      | (s', Inr _) \<Rightarrow> for_each f s' ys)"
  by (induction xs arbitrary: s) (auto split: prod.splits sum.splits)

end
