(* ===== verification/JsString.thy ===== *)
theory JsString
  imports Prelude "HOL-Library.Sublist"
begin

text \<open>
  The string methods the code uses: \<open>trim\<close>, \<open>startsWith\<close>, \<open>endsWith\<close>, \<open>includes\<close>,
  \<open>split\<close>, \<open>join\<close> and the byte length of the UTF-8 encoding, with the lemmas that the
  components share.
\<close>

section \<open>White space and trim\<close>

text \<open>The ECMAScript white space and line terminators below code unit 256.\<close>

definition js_space :: "char \<Rightarrow> bool" where
  "js_space c \<longleftrightarrow> c = CHR 0x09 \<or> c = CHR 0x0A \<or> c = CHR 0x0B \<or> c = CHR 0x0C
     \<or> c = CHR 0x0D \<or> c = CHR 0x20 \<or> c = CHR 0xA0"

definition js_trim_end :: "string \<Rightarrow> string" where
  "js_trim_end s = rev (dropWhile js_space (rev s))"

definition js_trim :: "string \<Rightarrow> string" where
  "js_trim s = js_trim_end (dropWhile js_space s)"

lemma js_trim_end_last: "js_trim_end s \<noteq> [] \<Longrightarrow> \<not> js_space (last (js_trim_end s))"
proof -
  assume "js_trim_end s \<noteq> []"
  then have ne: "dropWhile js_space (rev s) \<noteq> []" by (simp add: js_trim_end_def)
  then have "\<not> js_space (hd (dropWhile js_space (rev s)))" by (rule hd_dropWhile)
  with ne show ?thesis by (simp add: js_trim_end_def last_rev)
qed

lemma js_trim_end_id: "s = [] \<or> \<not> js_space (last s) \<Longrightarrow> js_trim_end s = s"
  by (cases s rule: rev_cases) (auto simp: js_trim_end_def)

lemma js_trim_end_prefix: "prefix (js_trim_end s) s"
  unfolding js_trim_end_def prefix_def
  by (metis rev_append rev_rev_ident takeWhile_dropWhile_id)

lemma js_trim_hd: "js_trim s \<noteq> [] \<Longrightarrow> \<not> js_space (hd (js_trim s))"
proof -
  assume ne: "js_trim s \<noteq> []"
  let ?d = "dropWhile js_space s"
  have p: "prefix (js_trim s) ?d" unfolding js_trim_def by (rule js_trim_end_prefix)
  from p ne have dne: "?d \<noteq> []" by (metis prefix_Nil)
  from p ne have "hd (js_trim s) = hd ?d" by (auto simp: prefix_def)
  with hd_dropWhile[OF dne] show ?thesis by simp
qed

lemma js_trim_last: "js_trim s \<noteq> [] \<Longrightarrow> \<not> js_space (last (js_trim s))"
  unfolding js_trim_def by (rule js_trim_end_last)

lemma js_trim_idem [simp]: "js_trim (js_trim s) = js_trim s"
proof (cases "js_trim s = []")
  case True
  have "js_trim [] = []" by (simp add: js_trim_def js_trim_end_def)
  with True show ?thesis by simp
next
  case False
  have "dropWhile js_space (js_trim s) = js_trim s"
    using js_trim_hd[OF False] False by (cases "js_trim s") auto
  then have "js_trim (js_trim s) = js_trim_end (js_trim s)" by (simp only: js_trim_def)
  also have "\<dots> = js_trim s" using js_trim_last[OF False] by (simp add: js_trim_end_id)
  finally show ?thesis .
qed

lemma set_js_trim: "set (js_trim s) \<subseteq> set s"
proof -
  have "set (js_trim_end t) \<subseteq> set t" for t
    using js_trim_end_prefix[of t] by (rule set_mono_prefix)
  then show ?thesis unfolding js_trim_def using set_dropWhileD by fastforce
qed

section \<open>Prefixes, suffixes and occurrences\<close>

abbreviation js_starts_with :: "string \<Rightarrow> string \<Rightarrow> bool" where
  "js_starts_with s p \<equiv> prefix p s"

abbreviation js_ends_with :: "string \<Rightarrow> string \<Rightarrow> bool" where
  "js_ends_with s p \<equiv> suffix p s"

fun js_includes :: "string \<Rightarrow> string \<Rightarrow> bool" where
  "js_includes [] p = (p = [])"
| "js_includes (c # s) p = (prefix p (c # s) \<or> js_includes s p)"

lemma js_includes_sublist: "js_includes s p \<longleftrightarrow> sublist p s"
  by (induction s) (auto simp: sublist_Cons_right)

section \<open>split and join\<close>

text \<open>
  \<open>s.split(sep)\<close> for a non-empty separator: scan from the left, cut at every occurrence of
  \<open>sep\<close> that does not overlap the previous one.  The accumulator holds the current piece
  reversed.  An empty separator cuts between all characters.
\<close>

function js_split_acc :: "string \<Rightarrow> string \<Rightarrow> string \<Rightarrow> string list" where
  "js_split_acc sep cur s =
     (if s = [] then [rev cur]
      else if sep \<noteq> [] \<and> prefix sep s
      then rev cur # js_split_acc sep [] (drop (length sep) s)
      else js_split_acc sep (hd s # cur) (tl s))"
  by pat_completeness auto
termination
  by (relation "measure (\<lambda>(sep, cur, s). length s)") (auto simp: neq_Nil_conv)

declare js_split_acc.simps [simp del]

lemma js_split_acc_Nil [simp]: "js_split_acc sep cur [] = [rev cur]"
  by (subst js_split_acc.simps) simp

lemma js_split_acc_cut:
  "sep \<noteq> [] \<Longrightarrow> js_split_acc sep cur (sep @ t) = rev cur # js_split_acc sep [] t"
  by (subst js_split_acc.simps) simp

lemma js_split_acc_step:
  "\<not> (sep \<noteq> [] \<and> prefix sep (c # s)) \<Longrightarrow>
   js_split_acc sep cur (c # s) = js_split_acc sep (c # cur) s"
  by (subst js_split_acc.simps) (simp only: list.sel list.simps if_False simp_thms)

definition js_split :: "string \<Rightarrow> string \<Rightarrow> string list" where
  "js_split sep s = (if sep = [] then map (\<lambda>c. [c]) s else js_split_acc sep [] s)"

fun js_join :: "string \<Rightarrow> string list \<Rightarrow> string" where
  "js_join sep [] = []"
| "js_join sep [p] = p"
| "js_join sep (p # q # ps) = p @ sep @ js_join sep (q # ps)"

lemma js_join_Cons: "ps \<noteq> [] \<Longrightarrow> js_join sep (p # ps) = p @ sep @ js_join sep ps"
  by (cases ps) auto

lemma js_split_acc_nonempty: "js_split_acc sep cur s \<noteq> []"
  by (induction sep cur s rule: js_split_acc.induct) (subst js_split_acc.simps, auto)

lemma js_join_split_acc: "sep \<noteq> [] \<Longrightarrow> js_join sep (js_split_acc sep cur s) = rev cur @ s"
proof (induction sep cur s rule: js_split_acc.induct)
  case (1 sep cur s)
  show ?case
  proof (cases "s = []")
    case True
    then show ?thesis by simp
  next
    case ne: False
    show ?thesis
    proof (cases "sep \<noteq> [] \<and> prefix sep s")
      case True
      then obtain t where t: "s = sep @ t" by (auto simp: prefix_def)
      have "js_join sep (js_split_acc sep [] t) = t"
        using "1.IH"(1)[OF ne True "1.prems"] t by simp
      then show ?thesis using "1.prems" t
        by (simp add: js_split_acc_cut js_join_Cons js_split_acc_nonempty)
    next
      case False
      from ne obtain c s' where s: "s = c # s'" by (cases s) auto
      show ?thesis using "1.IH"(2)[OF ne False "1.prems"] False s
        by (simp add: js_split_acc_step)
    qed
  qed
qed

lemma js_join_split: "sep \<noteq> [] \<Longrightarrow> js_join sep (js_split sep s) = s"
  by (simp add: js_split_def js_join_split_acc)

lemma js_split_nonempty: "sep \<noteq> [] \<Longrightarrow> js_split sep s \<noteq> []"
  by (simp add: js_split_def js_split_acc_nonempty)

lemma js_split_acc_no_occurrence:
  "\<not> sublist sep s \<Longrightarrow> js_split_acc sep cur s = [rev cur @ s]"
proof (induction sep cur s rule: js_split_acc.induct)
  case (1 sep cur s)
  show ?case
  proof (cases "s = []")
    case True
    then show ?thesis by simp
  next
    case ne: False
    then obtain c s' where s: "s = c # s'" by (cases s) auto
    have np: "\<not> prefix sep s" using "1.prems" by blast
    moreover have "\<not> sublist sep s'" using "1.prems" s by (auto simp: sublist_Cons_right)
    ultimately have "js_split_acc sep (c # cur) s' = [rev (c # cur) @ s']"
      using "1.IH"(2)[OF ne] s by simp
    then show ?thesis using np s by (simp add: js_split_acc_step)
  qed
qed

lemma js_split_acc_occurrence:
  "sep \<noteq> [] \<Longrightarrow> sublist sep s \<Longrightarrow> 2 \<le> length (js_split_acc sep cur s)"
proof (induction sep cur s rule: js_split_acc.induct)
  case (1 sep cur s)
  have ne: "s \<noteq> []" using "1.prems" by auto
  then obtain c s' where s: "s = c # s'" by (cases s) auto
  show ?case
  proof (cases "sep \<noteq> [] \<and> prefix sep s")
    case True
    then obtain t where t: "s = sep @ t" by (auto simp: prefix_def)
    have "1 \<le> length (js_split_acc sep [] t)"
      using js_split_acc_nonempty[of sep "[]" t] by (cases "js_split_acc sep [] t") auto
    then show ?thesis using "1.prems"(1) t by (simp add: js_split_acc_cut)
  next
    case False
    then have "sublist sep s'" using "1.prems" s by (auto simp: sublist_Cons_right)
    then show ?thesis using False s "1.IH"(2)[OF ne False] "1.prems"(1)
      by (simp add: js_split_acc_step)
  qed
qed

lemma js_split_length_1_iff:
  "sep \<noteq> [] \<Longrightarrow> length (js_split sep s) = 1 \<longleftrightarrow> \<not> js_includes s sep"
  using js_split_acc_occurrence[of sep s "[]"] js_split_acc_no_occurrence[of sep s "[]"]
  by (auto simp: js_split_def js_includes_sublist)

section \<open>UTF-8 length\<close>

text \<open>\<open>Buffer.byteLength\<close>: a code unit below 128 takes one byte, one from 128 to 255 two.\<close>

definition utf8_length :: "string \<Rightarrow> nat" where
  "utf8_length s = (\<Sum>c\<leftarrow>s. if of_char c < (128::nat) then 1 else 2)"

lemma utf8_length_Nil [simp]: "utf8_length [] = 0"
  by (simp add: utf8_length_def)

lemma utf8_length_append: "utf8_length (s @ t) = utf8_length s + utf8_length t"
  by (simp add: utf8_length_def)

lemma utf8_length_ge: "length s \<le> utf8_length s"
  unfolding utf8_length_def by (induction s) auto

section \<open>Numbers as text\<close>

text \<open>\<open>String(n)\<close> of a whole number.\<close>

fun digits :: "nat \<Rightarrow> string" where
  "digits n = (if n < 10 then [char_of (48 + n)] else digits (n div 10) @ [char_of (48 + n mod 10)])"

definition int_digits :: "int \<Rightarrow> string" where
  "int_digits n = (if n < 0 then CHR ''-'' # digits (nat (- n)) else digits (nat n))"

definition digits_value :: "string \<Rightarrow> nat" where
  "digits_value s = foldl (\<lambda>n c. 10 * n + (of_char c - 48)) 0 s"

lemma digits_value_digits [simp]: "digits_value (digits n) = n"
proof (induction n rule: digits.induct)
  case (1 n)
  show ?case
  proof (cases "n < 10")
    case True
    then show ?thesis by (simp add: digits_value_def)
  next
    case False
    then have "digits_value (digits (n div 10)) = n div 10" using 1 by blast
    with False show ?thesis by (subst digits.simps) (simp add: digits_value_def)
  qed
qed

lemma digits_inject [simp]: "digits m = digits n \<longleftrightarrow> m = n"
  by (metis digits_value_digits)

declare digits.simps [simp del]

end
