(* ===== verification/MessagesBuffer.thy ===== *)
theory MessagesBuffer
  imports Prelude "HOL-Library.Sublist"
begin

text \<open>
  The pull-based message buffer of an agent,
  \<^verbatim>\<open>packages/platform-server/src/nodes/agent/messagesBuffer.ts\<close>: one queue per thread,
  a debounce window, draining one message or all of them, and the removal of messages by the
  token they were enqueued with.

  The state is \<open>messages_buffer\<close>; every method of the class is a definition that takes it and
  returns the new one.  \<open>Date.now()\<close> is the argument \<open>now\<close>.  \<open>randomUUID()\<close> is a counter:
  the code only relies on identifiers being fresh.
\<close>

section \<open>State\<close>

datatype buffer_message = HumanMessage string | AIMessage string | SystemMessage string

datatype process_buffer = OneByOne | AllTogether

record queued_item =
  qi_id :: nat
  qi_msg :: buffer_message
  qi_token :: "string option"
  qi_ts :: int

record thread_state =
  ts_queue :: "queued_item list"
  ts_last_enqueue_at :: int

record messages_buffer =
  mb_debounce_ms :: int
  mb_threads :: "(string \<times> thread_state) list"
  mb_next_id :: nat

section \<open>Operations\<close>

definition new_buffer :: "int option \<Rightarrow> messages_buffer" where
  "new_buffer opt_debounce =
     \<lparr>mb_debounce_ms = max 0 (case opt_debounce of None \<Rightarrow> 0 | Some d \<Rightarrow> d),
      mb_threads = [], mb_next_id = 0\<rparr>"

definition set_debounce_ms :: "int \<Rightarrow> messages_buffer \<Rightarrow> messages_buffer" where
  "set_debounce_ms ms b = b\<lparr>mb_debounce_ms := max 0 ms\<rparr>"

definition to_queued_item :: "nat \<Rightarrow> int \<Rightarrow> string option \<Rightarrow> buffer_message \<Rightarrow> queued_item" where
  "to_queued_item uid now tok m = \<lparr>qi_id = uid, qi_msg = m, qi_token = tok, qi_ts = now\<rparr>"

definition ensure_thread :: "string \<Rightarrow> messages_buffer \<Rightarrow> messages_buffer \<times> thread_state" where
  "ensure_thread thread b =
     (case map_of (mb_threads b) thread of
        Some s \<Rightarrow> (b, s)
      | None \<Rightarrow>
          (let s = \<lparr>ts_queue = [], ts_last_enqueue_at = 0\<rparr>
           in (b\<lparr>mb_threads := AList.update thread s (mb_threads b)\<rparr>, s)))"

definition put_thread :: "string \<Rightarrow> thread_state \<Rightarrow> messages_buffer \<Rightarrow> messages_buffer" where
  "put_thread thread s b = b\<lparr>mb_threads := AList.update thread s (mb_threads b)\<rparr>"

fun queued_items :: "nat \<Rightarrow> int \<Rightarrow> string option \<Rightarrow> buffer_message list \<Rightarrow> queued_item list" where
  "queued_items uid now tok [] = []"
| "queued_items uid now tok (m # ms) =
     to_queued_item uid now tok m # queued_items (Suc uid) now tok ms"

definition enqueue_tok ::
  "string \<Rightarrow> string option \<Rightarrow> buffer_message list \<Rightarrow> int \<Rightarrow> messages_buffer \<Rightarrow> messages_buffer" where
  "enqueue_tok thread tok batch now b =
     (if batch = [] then b
      else
        let (b1, s) = ensure_thread thread b;
            items = queued_items (mb_next_id b1) now tok batch
        in (put_thread thread \<lparr>ts_queue = ts_queue s @ items, ts_last_enqueue_at = now\<rparr> b1)
             \<lparr>mb_next_id := mb_next_id b1 + length batch\<rparr>)"

definition enqueue :: "string \<Rightarrow> buffer_message list \<Rightarrow> int \<Rightarrow> messages_buffer \<Rightarrow> messages_buffer" where
  "enqueue thread msgs now b = enqueue_tok thread None msgs now b"

definition enqueue_with_token ::
  "string \<Rightarrow> string \<Rightarrow> buffer_message list \<Rightarrow> int \<Rightarrow> messages_buffer \<Rightarrow> messages_buffer" where
  "enqueue_with_token thread token msgs now b = enqueue_tok thread (Some token) msgs now b"

definition debounced :: "messages_buffer \<Rightarrow> thread_state \<Rightarrow> int \<Rightarrow> bool" where
  "debounced b s now \<longleftrightarrow> mb_debounce_ms b > 0 \<and> now - ts_last_enqueue_at s < mb_debounce_ms b"

definition try_drain ::
  "string \<Rightarrow> process_buffer \<Rightarrow> int \<Rightarrow> messages_buffer \<Rightarrow> messages_buffer \<times> buffer_message list" where
  "try_drain thread mode now b =
     (case map_of (mb_threads b) thread of
        None \<Rightarrow> (b, [])
      | Some s \<Rightarrow>
          if ts_queue s = [] then (b, [])
          else if debounced b s now then (b, [])
          else (case mode of
                  AllTogether \<Rightarrow>
                    (put_thread thread (s\<lparr>ts_queue := []\<rparr>) b, map qi_msg (ts_queue s))
                | OneByOne \<Rightarrow>
                    (put_thread thread (s\<lparr>ts_queue := tl (ts_queue s)\<rparr>) b,
                     [qi_msg (hd (ts_queue s))])))"

text \<open>An absent token and the empty string are both falsy.\<close>

definition truthy_token :: "string option \<Rightarrow> bool" where
  "truthy_token t \<longleftrightarrow> t \<noteq> None \<and> t \<noteq> Some []"

definition nat_at :: "(string \<times> nat) list \<Rightarrow> string \<Rightarrow> nat" where
  "nat_at parts t = (case map_of parts t of None \<Rightarrow> 0 | Some n \<Rightarrow> n)"

fun count_tokens :: "(string \<times> nat) list \<Rightarrow> queued_item list \<Rightarrow> (string \<times> nat) list" where
  "count_tokens parts [] = parts"
| "count_tokens parts (q # qs) =
     (case qi_token q of
        None \<Rightarrow> count_tokens parts qs
      | Some t \<Rightarrow>
          if t = [] then count_tokens parts qs
          else count_tokens
                 (AList.update t (nat_at parts t + 1) parts) qs)"

record drain_descriptor =
  dd_messages :: "buffer_message list"
  dd_token_parts :: "(string \<times> nat) list"

definition try_drain_descriptor ::
  "string \<Rightarrow> process_buffer \<Rightarrow> int \<Rightarrow> messages_buffer \<Rightarrow> messages_buffer \<times> drain_descriptor" where
  "try_drain_descriptor thread mode now b =
     (case map_of (mb_threads b) thread of
        None \<Rightarrow> (b, \<lparr>dd_messages = [], dd_token_parts = []\<rparr>)
      | Some s \<Rightarrow>
          if ts_queue s = [] then (b, \<lparr>dd_messages = [], dd_token_parts = []\<rparr>)
          else if debounced b s now then (b, \<lparr>dd_messages = [], dd_token_parts = []\<rparr>)
          else
            let (consumed, rest) =
                  (case mode of
                     AllTogether \<Rightarrow> (ts_queue s, [])
                   | OneByOne \<Rightarrow> ([hd (ts_queue s)], tl (ts_queue s)))
            in (put_thread thread (s\<lparr>ts_queue := rest\<rparr>) b,
                \<lparr>dd_messages = map qi_msg consumed, dd_token_parts = count_tokens [] consumed\<rparr>))"

definition next_ready_at :: "string \<Rightarrow> int \<Rightarrow> messages_buffer \<Rightarrow> int option" where
  "next_ready_at thread now b =
     (case map_of (mb_threads b) thread of
        None \<Rightarrow> None
      | Some s \<Rightarrow>
          if ts_queue s = [] then None
          else if mb_debounce_ms b = 0 then Some now
          else Some (ts_last_enqueue_at s + mb_debounce_ms b))"

definition clear_thread :: "string \<Rightarrow> messages_buffer \<Rightarrow> messages_buffer \<times> nat" where
  "clear_thread thread b =
     (case map_of (mb_threads b) thread of
        None \<Rightarrow> (b, 0)
      | Some s \<Rightarrow>
          if length (ts_queue s) = 0 then (b, 0)
          else (put_thread thread \<lparr>ts_queue = [], ts_last_enqueue_at = 0\<rparr> b, length (ts_queue s)))"

definition destroy_buffer :: "messages_buffer \<Rightarrow> messages_buffer" where
  "destroy_buffer b = b\<lparr>mb_threads := []\<rparr>"

definition keep_item :: "string list \<Rightarrow> queued_item \<Rightarrow> bool" where
  "keep_item drop_ids q \<longleftrightarrow> \<not> truthy_token (qi_token q) \<or> the (qi_token q) \<notin> set drop_ids"

definition drop_tokens :: "string \<Rightarrow> string list \<Rightarrow> messages_buffer \<Rightarrow> messages_buffer" where
  "drop_tokens thread token_ids b =
     (case map_of (mb_threads b) thread of
        None \<Rightarrow> b
      | Some s \<Rightarrow>
          if ts_queue s = [] then b
          else put_thread thread (s\<lparr>ts_queue := filter (keep_item token_ids) (ts_queue s)\<rparr>) b)"

fun describe_message :: "buffer_message \<Rightarrow> string" where
  "describe_message (HumanMessage t) = t"
| "describe_message _ = []"

definition snapshot :: "string \<Rightarrow> messages_buffer \<Rightarrow> (nat \<times> string \<times> int) list" where
  "snapshot thread b =
     (case map_of (mb_threads b) thread of
        None \<Rightarrow> []
      | Some s \<Rightarrow> map (\<lambda>q. (qi_id q, describe_message (qi_msg q), qi_ts q)) (ts_queue s))"

section \<open>The queue of a thread\<close>

definition thread_items :: "messages_buffer \<Rightarrow> string \<Rightarrow> queued_item list" where
  "thread_items b thread =
     (case map_of (mb_threads b) thread of None \<Rightarrow> [] | Some s \<Rightarrow> ts_queue s)"

definition thread_messages :: "messages_buffer \<Rightarrow> string \<Rightarrow> buffer_message list" where
  "thread_messages b thread = map qi_msg (thread_items b thread)"

lemma subseq_set_subset: "subseq xs ys \<Longrightarrow> set xs \<subseteq> set ys"
  by (auto simp: subseq_conv_nths dest: in_set_nthsD)

lemma subseq_distinct: "subseq xs ys \<Longrightarrow> distinct ys \<Longrightarrow> distinct xs"
  by (auto simp: subseq_conv_nths)

lemma subseq_sorted: "subseq xs ys \<Longrightarrow> sorted ys \<Longrightarrow> sorted xs"
  by (induction rule: list_emb.induct) (auto dest: subseq_set_subset)

lemma map_qi_msg_queued_items [simp]: "map qi_msg (queued_items uid now tok ms) = ms"
  by (induction ms arbitrary: uid) (simp_all add: to_queued_item_def)

lemma qi_id_queued_items: "map qi_id (queued_items uid now tok ms) = [uid ..< uid + length ms]"
  by (induction ms arbitrary: uid) (simp_all add: to_queued_item_def upt_rec)

lemma thread_items_put_thread [simp]:
  "thread_items (put_thread t s b) t' = (if t' = t then ts_queue s else thread_items b t')"
  by (simp add: thread_items_def put_thread_def map_laws)

lemma put_thread_fields [simp]:
  "mb_debounce_ms (put_thread t s b) = mb_debounce_ms b"
  "mb_next_id (put_thread t s b) = mb_next_id b"
  by (simp_all add: put_thread_def)

lemma thread_items_next_id [simp]: "thread_items (b\<lparr>mb_next_id := n\<rparr>) t = thread_items b t"
  by (simp add: thread_items_def)

lemma ensure_thread_props:
  assumes "ensure_thread thread b = (b1, s)"
  shows "thread_items b1 t = thread_items b t" and "ts_queue s = thread_items b thread"
    and "mb_next_id b1 = mb_next_id b" and "mb_debounce_ms b1 = mb_debounce_ms b"
  using assms
  by (auto simp: ensure_thread_def thread_items_def map_laws Let_def split: option.splits if_splits)

lemma thread_items_enqueue_tok:
  "thread_items (enqueue_tok thread tok ms now b) t =
     (if t = thread then thread_items b t @ queued_items (mb_next_id b) now tok ms
      else thread_items b t)"
proof (cases "ms = []")
  case True
  then show ?thesis by (simp add: enqueue_tok_def)
next
  case False
  obtain b1 s where e: "ensure_thread thread b = (b1, s)" by (cases "ensure_thread thread b")
  show ?thesis using False ensure_thread_props[OF e] by (simp add: enqueue_tok_def e Let_def)
qed

lemma thread_messages_enqueue_tok:
  "thread_messages (enqueue_tok thread tok ms now b) t =
     (if t = thread then thread_messages b t @ ms else thread_messages b t)"
  by (simp add: thread_messages_def thread_items_enqueue_tok)

text \<open>What one drain does to the queues: it takes a prefix of its own thread's queue.\<close>

lemma try_drain_splits:
  assumes "try_drain thread mode now b = (b', out)"
  shows "thread_messages b thread = out @ thread_messages b' thread"
    and "t \<noteq> thread \<Longrightarrow> thread_messages b' t = thread_messages b t"
  using assms
  by (auto simp: try_drain_def thread_messages_def thread_items_def put_thread_def map_laws
      neq_Nil_conv split: option.splits if_splits process_buffer.splits)

lemma try_drain_descriptor_messages:
  "fst (try_drain_descriptor thread mode now b) = fst (try_drain thread mode now b)"
  "dd_messages (snd (try_drain_descriptor thread mode now b)) = snd (try_drain thread mode now b)"
  by (auto simp: try_drain_descriptor_def try_drain_def split: option.splits process_buffer.splits)

section \<open>The interface the agent uses: one FIFO queue per key\<close>

text \<open>
  A run of puts and takes over several keys, and the messages each key was sent and has
  delivered.  The operations are arguments, so that the same run is over the buffer's model.
\<close>

datatype ('k, 'p, 'q, 'm) queue_op = Put 'k 'p "'m list" | Take 'k 'q

fun run_queue ::
  "('k \<Rightarrow> 'p \<Rightarrow> 'm list \<Rightarrow> 's \<Rightarrow> 's) \<Rightarrow> ('k \<Rightarrow> 'q \<Rightarrow> 's \<Rightarrow> 's \<times> 'm list) \<Rightarrow> 's \<Rightarrow>
   ('k, 'p, 'q, 'm) queue_op list \<Rightarrow> 's \<times> ('k \<times> 'm list) list" where
  "run_queue put take_one s [] = (s, [])"
| "run_queue put take_one s (Put k p ms # ops) = run_queue put take_one (put k p ms s) ops"
| "run_queue put take_one s (Take k q # ops) =
     (let (s1, out) = take_one k q s; (s2, outs) = run_queue put take_one s1 ops
      in (s2, (k, out) # outs))"

fun sent_to :: "'k \<Rightarrow> ('k, 'p, 'q, 'm) queue_op list \<Rightarrow> 'm list" where
  "sent_to k [] = []"
| "sent_to k (Put k' p ms # ops) = (if k' = k then ms else []) @ sent_to k ops"
| "sent_to k (Take k' q # ops) = sent_to k ops"

fun delivered_to :: "'k \<Rightarrow> ('k \<times> 'm list) list \<Rightarrow> 'm list" where
  "delivered_to k [] = []"
| "delivered_to k ((k', ms) # outs) = (if k' = k then ms else []) @ delivered_to k outs"

locale keyed_fifo =
  fixes items :: "'s \<Rightarrow> 'k \<Rightarrow> 'm list"
    and put :: "'k \<Rightarrow> 'p \<Rightarrow> 'm list \<Rightarrow> 's \<Rightarrow> 's"
    and take_one :: "'k \<Rightarrow> 'q \<Rightarrow> 's \<Rightarrow> 's \<times> 'm list"
  assumes items_put: "items (put k p ms s) j = (if j = k then items s j @ ms else items s j)"
    and items_take: "take_one k q s = (s', out) \<Longrightarrow> items s k = out @ items s' k"
    and items_take_other: "take_one k q s = (s', out) \<Longrightarrow> j \<noteq> k \<Longrightarrow> items s' j = items s j"
begin

lemma run_conserves:
  "run_queue put take_one s ops = (s', outs) \<Longrightarrow>
   delivered_to k outs @ items s' k = items s k @ sent_to k ops"
proof (induction ops arbitrary: s outs)
  case Nil
  then show ?case by simp
next
  case (Cons op ops)
  show ?case
  proof (cases op)
    case (Put k' p ms)
    then show ?thesis using Cons.prems Cons.IH[of "put k' p ms s" outs] by (simp add: items_put)
  next
    case (Take k' q)
    obtain s1 out where t: "take_one k' q s = (s1, out)" by (cases "take_one k' q s")
    obtain s2 outs2 where r: "run_queue put take_one s1 ops = (s2, outs2)"
      by (cases "run_queue put take_one s1 ops")
    have outs: "s' = s2" "outs = (k', out) # outs2" using Cons.prems by (simp_all add: Take t r)
    have "delivered_to k outs2 @ items s' k = items s1 k @ sent_to k ops"
      using Cons.IH[of s1 outs2] r outs by simp
    then show ?thesis using items_take[OF t] items_take_other[OF t, of k] outs
      by (cases "k' = k") (simp_all add: outs Take)
  qed
qed

end

abbreviation buffer_put ::
  "string \<Rightarrow> string option \<times> int \<Rightarrow> buffer_message list \<Rightarrow> messages_buffer \<Rightarrow> messages_buffer" where
  "buffer_put k p ms b \<equiv> enqueue_tok k (fst p) ms (snd p) b"

abbreviation buffer_take ::
  "string \<Rightarrow> process_buffer \<times> int \<Rightarrow> messages_buffer \<Rightarrow> messages_buffer \<times> buffer_message list" where
  "buffer_take k q b \<equiv> try_drain k (fst q) (snd q) b"

interpretation buffer: keyed_fifo thread_messages buffer_put buffer_take
  by unfold_locales (simp_all add: thread_messages_enqueue_tok try_drain_splits)

text \<open>
  C22. Messages are neither lost, duplicated, reordered nor moved to another thread: whatever the
  sequence of enqueues and drains (in either mode, at any times, with any debounce window), the
  messages handed to the agent for a thread, followed by those still queued, are the messages
  queued before followed by those enqueued for that thread, in order.
\<close>

theorem buffer_fifo:
  "delivered_to thread (snd (run_queue buffer_put buffer_take b ops))
     @ thread_messages (fst (run_queue buffer_put buffer_take b ops)) thread
   = thread_messages b thread @ sent_to thread ops"
  by (cases "run_queue buffer_put buffer_take b ops") (simp add: buffer.run_conserves)

section \<open>The debounce window\<close>

text \<open>
  The debounce contract: \<open>nextReadyAt\<close> answers exactly when a drain delivers.  When it is
  undefined, no drain at any time returns a message or changes the buffer; when it is a time
  \<open>r\<close>, a drain at \<open>now'\<close> comes back empty, leaving the buffer as it was, only inside the
  debounce window before \<open>r\<close>, and otherwise delivers the head of the queue first.
\<close>

theorem next_ready_at_exact:
  "case next_ready_at thread now b of
     None \<Rightarrow> try_drain thread mode now' b = (b, [])
   | Some r \<Rightarrow>
       (if mb_debounce_ms b > 0 \<and> now' < r then try_drain thread mode now' b = (b, [])
        else \<exists>ms. snd (try_drain thread mode now' b) = hd (thread_messages b thread) # ms)"
  by (auto simp: next_ready_at_def try_drain_def debounced_def thread_messages_def
      thread_items_def neq_Nil_conv split: option.splits process_buffer.splits)

section \<open>Tokens\<close>

definition token_count :: "string \<Rightarrow> queued_item list \<Rightarrow> nat" where
  "token_count t qs = length (filter (\<lambda>q. qi_token q = Some t) qs)"

lemma token_count_simps [simp]:
  "token_count t [] = 0"
  "token_count t (q # qs) = (if qi_token q = Some t then 1 else 0) + token_count t qs"
  by (simp_all add: token_count_def)

lemma nat_at_update [simp]: "nat_at (AList.update k n parts) t = (if t = k then n else nat_at parts t)"
  by (simp add: nat_at_def map_laws)

lemma count_tokens_nat_at:
  "nat_at (count_tokens parts qs) t = nat_at parts t + (if t = [] then 0 else token_count t qs)"
proof (induction qs arbitrary: parts)
  case (Cons q qs)
  then show ?case by (cases "qi_token q") auto
qed simp

lemma count_tokens_positive:
  "0 \<notin> snd ` set parts \<Longrightarrow> 0 \<notin> snd ` set (count_tokens parts qs)"
proof (induction qs arbitrary: parts)
  case (Cons q qs)
  have "0 \<notin> snd ` set (AList.update k (Suc m) parts)" for k m
    using set_update_subset[of k "Suc m" parts] Cons.prems by auto
  then show ?case using Cons by (cases "qi_token q") auto
qed simp

lemma count_tokens_distinct:
  "distinct (map fst parts) \<Longrightarrow> distinct (map fst (count_tokens parts qs))"
proof (induction qs arbitrary: parts)
  case (Cons q qs)
  then show ?case by (cases "qi_token q") (simp_all add: distinct_update)
qed simp

lemma count_tokens_set:
  "(t, n) \<in> set (count_tokens [] qs) \<longleftrightarrow> t \<noteq> [] \<and> n = token_count t qs \<and> n \<noteq> 0"
proof -
  let ?c = "count_tokens [] qs"
  have dist: "distinct (map fst ?c)" by (simp add: count_tokens_distinct)
  have pos: "(t, n) \<in> set ?c \<Longrightarrow> 0 < n" using count_tokens_positive[of "[]" qs] by (auto simp: image_iff intro: gr0I)
  have at: "nat_at ?c t = (if t = [] then 0 else token_count t qs)"
    by (simp add: count_tokens_nat_at) (simp add: nat_at_def)
  have "(t, n) \<in> set ?c \<longleftrightarrow> map_of ?c t = Some n" using dist by simp
  also have "\<dots> \<longleftrightarrow> n \<noteq> 0 \<and> nat_at ?c t = n"
    using pos map_of_eq_Some_iff[OF dist, of t n]
    by (cases "map_of ?c t") (auto simp: nat_at_def)
  finally show ?thesis using at by auto
qed

text \<open>
  \<open>tryDrainDescriptor\<close> attributes what it drains: it drains what \<open>tryDrain\<close> drains, the
  items it takes are a prefix of the queue, and \<open>tokenParts\<close> lists every non-empty token once,
  with the number of drained messages that carry it; tokens of no drained message do not appear.
\<close>

theorem drain_descriptor_counts:
  "let d = snd (try_drain_descriptor thread mode now b);
       b' = fst (try_drain_descriptor thread mode now b);
       taken = take (length (dd_messages d)) (thread_items b thread)
   in thread_items b thread = taken @ thread_items b' thread
      \<and> dd_messages d = map qi_msg taken
      \<and> (\<forall>t n. (t, n) \<in> set (dd_token_parts d) \<longleftrightarrow> t \<noteq> [] \<and> n = token_count t taken \<and> n \<noteq> 0)
      \<and> distinct (map fst (dd_token_parts d))"
proof -
  have parts: "(t, n) \<in> set (count_tokens [] qs) \<longleftrightarrow> t \<noteq> [] \<and> n = token_count t qs \<and> n \<noteq> 0"
    for t n qs
    by (rule count_tokens_set)
  show ?thesis
    unfolding Let_def
    by (auto simp: try_drain_descriptor_def thread_items_def put_thread_def map_laws parts
        count_tokens_distinct simp del: count_tokens.simps simp: neq_Nil_conv split: option.splits process_buffer.splits)
qed

lemma thread_items_drop_tokens:
  "thread_items (drop_tokens thread toks b) t =
     (if t = thread then filter (keep_item toks) (thread_items b t) else thread_items b t)"
  by (auto simp: drop_tokens_def thread_items_def put_thread_def map_laws split: option.splits)

text \<open>
  Withdrawing an enqueue undoes it: dropping the token of a batch removes that batch from
  its thread and nothing else, as long as no queued item carried the token before, and every
  other thread keeps its queue.
\<close>

theorem drop_tokens_undoes_enqueue:
  assumes "tok \<noteq> []"
    and "\<forall>q \<in> set (thread_items b thread). qi_token q \<noteq> Some tok"
  shows "thread_items (drop_tokens thread [tok] (enqueue_with_token thread tok ms now b)) t
         = thread_items b t"
proof -
  have new: "filter (keep_item [tok]) (queued_items uid now (Some tok) ms) = []" for uid
    using assms(1)
    by (induction ms arbitrary: uid) (auto simp: to_queued_item_def keep_item_def truthy_token_def)
  have old: "filter (keep_item [tok]) (thread_items b thread) = thread_items b thread"
    using assms(2) by (auto simp: filter_id_conv keep_item_def truthy_token_def)
  show ?thesis
    by (simp add: thread_items_drop_tokens enqueue_with_token_def thread_items_enqueue_tok new old)
qed

theorem drop_tokens_undoes_enqueue_witness:
  "thread_items (drop_tokens ''t'' [''k'']
     (enqueue_with_token ''t'' ''k'' [HumanMessage ''a''] 5 (new_buffer None))) ''t''
   = thread_items (new_buffer None) ''t''"
  by (rule drop_tokens_undoes_enqueue) (simp_all add: thread_items_def new_buffer_def)

section \<open>Every operation keeps the buffer well formed\<close>

inductive buffer_step :: "messages_buffer \<Rightarrow> messages_buffer \<Rightarrow> bool" where
  step_debounce: "buffer_step b (set_debounce_ms ms b)"
| step_enqueue: "buffer_step b (enqueue thread msgs now b)"
| step_enqueue_token: "buffer_step b (enqueue_with_token thread tok msgs now b)"
| step_drain: "buffer_step b (fst (try_drain thread mode now b))"
| step_drain_descriptor: "buffer_step b (fst (try_drain_descriptor thread mode now b))"
| step_clear: "buffer_step b (fst (clear_thread thread b))"
| step_drop: "buffer_step b (drop_tokens thread toks b)"
| step_destroy: "buffer_step b (destroy_buffer b)"

definition all_ids :: "messages_buffer \<Rightarrow> nat list" where
  "all_ids b = concat (map (\<lambda>(_, s). map qi_id (ts_queue s)) (mb_threads b))"

text \<open>
  A thread has at most one state, identifiers are handed out once over all threads, in
  increasing order within a queue, and the debounce window is never negative.
\<close>

definition buffer_ok :: "messages_buffer \<Rightarrow> bool" where
  "buffer_ok b \<longleftrightarrow>
     0 \<le> mb_debounce_ms b \<and> distinct (map fst (mb_threads b))
     \<and> (\<forall>t. sorted (map qi_id (thread_items b t)) \<and> distinct (map qi_id (thread_items b t)))
     \<and> (\<forall>t. \<forall>q \<in> set (thread_items b t). qi_id q < mb_next_id b)
     \<and> (\<forall>t u. t \<noteq> u \<longrightarrow> qi_id ` set (thread_items b t) \<inter> qi_id ` set (thread_items b u) = {})"

text \<open>
  A step that only removes items from queues keeps \<^const>\<open>buffer_ok\<close>.
\<close>

lemma buffer_ok_shrink:
  assumes ok: "buffer_ok b"
    and sub: "\<And>t. subseq (thread_items b' t) (thread_items b t)"
    and "0 \<le> mb_debounce_ms b'" "mb_next_id b' = mb_next_id b"
    and "distinct (map fst (mb_threads b'))"
  shows "buffer_ok b'"
proof -
  have set: "set (thread_items b' t) \<subseteq> set (thread_items b t)" for t
    using sub[of t] by (rule subseq_set_subset)
  have ids: "subseq (map qi_id (thread_items b' t)) (map qi_id (thread_items b t))" for t
    using sub[of t] by (rule subseq_map)
  have "sorted (map qi_id (thread_items b' t)) \<and> distinct (map qi_id (thread_items b' t))" for t
    using ok ids[of t] unfolding buffer_ok_def by (metis subseq_sorted subseq_distinct)
  moreover have "qi_id ` set (thread_items b' t) \<inter> qi_id ` set (thread_items b' u) = {}"
    if "t \<noteq> u" for t u
    using ok that set[of t] set[of u] unfolding buffer_ok_def by blast
  moreover have "qi_id q < mb_next_id b'" if "q \<in> set (thread_items b' t)" for t q
    using ok that set[of t] assms(4) unfolding buffer_ok_def by auto
  ultimately show ?thesis using assms(3,5) unfolding buffer_ok_def by blast
qed

lemma buffer_ok_enqueue: "buffer_ok b \<Longrightarrow> buffer_ok (enqueue_tok thread tok ms now b)"
proof (cases "ms = []")
  case True
  then show "buffer_ok b \<Longrightarrow> ?thesis" by (simp add: enqueue_tok_def)
next
  case False
  assume ok: "buffer_ok b"
  let ?b = "enqueue_tok thread tok ms now b"
  let ?new = "queued_items (mb_next_id b) now tok ms"
  obtain b1 s where e: "ensure_thread thread b = (b1, s)" by (cases "ensure_thread thread b")
  have d1: "distinct (map fst (mb_threads b1))"
    using ok e by (auto simp: buffer_ok_def ensure_thread_def Let_def distinct_update
        split: option.splits)
  have next': "mb_next_id ?b = mb_next_id b + length ms" and deb: "mb_debounce_ms ?b = mb_debounce_ms b"
    and dist: "distinct (map fst (mb_threads ?b))"
    using False ensure_thread_props[OF e] d1
    by (simp_all add: enqueue_tok_def e put_thread_def distinct_update)
  have new_ids: "qi_id ` set ?new = {mb_next_id b ..< mb_next_id b + length ms}"
    using qi_id_queued_items[of "mb_next_id b" now tok ms] by (metis list.set_map set_upt)
  have old_ids: "qi_id ` set (thread_items b t) \<subseteq> {..< mb_next_id b}" for t
    using ok by (auto simp: buffer_ok_def)
  have ids: "map qi_id (thread_items ?b t) =
      map qi_id (thread_items b t) @ (if t = thread then [mb_next_id b ..< mb_next_id b + length ms] else [])"
    for t by (simp add: thread_items_enqueue_tok qi_id_queued_items)
  have "sorted (map qi_id (thread_items ?b t)) \<and> distinct (map qi_id (thread_items ?b t))" for t
    using ok old_ids[of t] unfolding ids by (fastforce simp: sorted_append buffer_ok_def)
  moreover have "qi_id q < mb_next_id ?b" if "q \<in> set (thread_items ?b t)" for t q
  proof -
    have "qi_id q \<in> set (map qi_id (thread_items ?b t))" using that by simp
    then show ?thesis using old_ids[of t] unfolding ids next' by (auto split: if_splits)
  qed
  moreover have "qi_id ` set (thread_items ?b t) \<inter> qi_id ` set (thread_items ?b u) = {}"
    if "t \<noteq> u" for t u
  proof -
    have "qi_id ` set (thread_items b t) \<inter> qi_id ` set (thread_items b u) = {}"
      using ok that by (simp add: buffer_ok_def)
    then show ?thesis
      using that old_ids[of t] old_ids[of u]
      by (auto simp: thread_items_enqueue_tok image_Un new_ids Int_Un_distrib Int_Un_distrib2)
  qed
  ultimately show ?thesis using deb dist ok unfolding buffer_ok_def by simp
qed

lemma put_thread_distinct:
  "distinct (map fst (mb_threads b)) \<Longrightarrow> distinct (map fst (mb_threads (put_thread t s b)))"
  by (simp add: put_thread_def distinct_update)

lemma buffer_ok_put_thread:
  assumes "buffer_ok b" and "subseq (ts_queue s) (thread_items b thread)"
  shows "buffer_ok (put_thread thread s b)"
  by (rule buffer_ok_shrink[OF assms(1)])
    (use assms in \<open>simp_all add: put_thread_distinct buffer_ok_def\<close>)

lemma subseq_tl: "subseq (tl xs) xs"
  by (cases xs) auto

lemma buffer_ok_try_drain: "buffer_ok b \<Longrightarrow> buffer_ok (fst (try_drain thread mode now b))"
  by (auto simp: try_drain_def thread_items_def subseq_tl intro!: buffer_ok_put_thread
      split: option.splits process_buffer.splits)

lemma buffer_step_ok: "buffer_step b b' \<Longrightarrow> buffer_ok b \<Longrightarrow> buffer_ok b'"
proof (induction rule: buffer_step.induct)
  case (step_debounce b ms)
  have items: "thread_items (set_debounce_ms ms b) t = thread_items b t" for t
    by (simp add: set_debounce_ms_def thread_items_def)
  have threads: "mb_threads (set_debounce_ms ms b) = mb_threads b"
    "mb_next_id (set_debounce_ms ms b) = mb_next_id b" "0 \<le> mb_debounce_ms (set_debounce_ms ms b)"
    by (simp_all add: set_debounce_ms_def)
  show ?case using step_debounce by (simp add: buffer_ok_def items threads)
next
  case (step_clear b thread)
  then show ?case
    by (cases "map_of (mb_threads b) thread") (simp_all add: clear_thread_def buffer_ok_put_thread)
next
  case (step_drop b thread toks)
  then show ?case
    by (cases "map_of (mb_threads b) thread")
      (simp_all add: drop_tokens_def thread_items_def buffer_ok_put_thread)
next
  case (step_destroy b)
  then show ?case by (simp add: destroy_buffer_def buffer_ok_def thread_items_def)
qed (simp_all add: enqueue_def enqueue_with_token_def buffer_ok_enqueue buffer_ok_try_drain
    try_drain_descriptor_messages)

text \<open>
  However the buffer is used, it stays well formed: starting from the constructor, after any
  sequence of its operations every thread has one state, the debounce window is not negative, and
  the identifiers of the queued messages are distinct over all threads and increase within each.
\<close>

theorem buffer_always_ok: "buffer_step\<^sup>*\<^sup>* (new_buffer opt) b \<Longrightarrow> buffer_ok b"
proof (induction rule: rtranclp_induct)
  case base
  show ?case by (simp add: buffer_ok_def new_buffer_def thread_items_def)
next
  case (step b b')
  then show ?case by (blast intro: buffer_step_ok)
qed

theorem buffer_always_ok_witness:
  "buffer_ok (fst (try_drain ''t'' OneByOne 9
     (enqueue ''t'' [HumanMessage ''a'', AIMessage ''b''] 5 (new_buffer (Some 2)))))"
proof (rule buffer_always_ok)
  show "buffer_step\<^sup>*\<^sup>* (new_buffer (Some 2)) (fst (try_drain ''t'' OneByOne 9
     (enqueue ''t'' [HumanMessage ''a'', AIMessage ''b''] 5 (new_buffer (Some 2)))))"
    by (meson r_into_rtranclp rtranclp.rtrancl_into_rtrancl step_drain step_enqueue)
qed

end
