(* ===== verification/Json.thy ===== *)
theory Json
  imports JsString
begin

text \<open>
  JSON values, as configurations, persisted state, context items and tool arguments use them, and
  the operators of the language the code applies to them.  An object keeps its properties in
  insertion order.  Numbers are integers: the modelled code only compares, counts and stores them.
  JavaScript's \<open>undefined\<close> is \<^const>\<open>None\<close> where a value may be absent.
\<close>

datatype json =
    JNull
  | JBool bool
  | JNum int
  | JStr string
  | JArr "json list"
  | JObj "(string \<times> json) list"

definition is_record :: "json \<Rightarrow> bool" where
  "is_record v = (case v of JObj _ \<Rightarrow> True | _ \<Rightarrow> False)"

text \<open>\<open>typeof v === 'object'\<close> with \<open>v\<close> truthy: objects and arrays.\<close>

definition is_object_like :: "json \<Rightarrow> bool" where
  "is_object_like v = (case v of JObj _ \<Rightarrow> True | JArr _ \<Rightarrow> True | _ \<Rightarrow> False)"

fun truthy :: "json \<Rightarrow> bool" where
  "truthy JNull = False"
| "truthy (JBool b) = b"
| "truthy (JNum n) = (n \<noteq> 0)"
| "truthy (JStr s) = (s \<noteq> [])"
| "truthy (JArr _) = True"
| "truthy (JObj _) = True"

text \<open>\<open>v[key]\<close>: absent on anything that is not an object.\<close>

fun jget :: "json \<Rightarrow> string \<Rightarrow> json option" where
  "jget (JObj ps) k = map_of ps k"
| "jget _ k = None"

fun jset :: "string \<Rightarrow> json \<Rightarrow> json \<Rightarrow> json" where
  "jset k v (JObj ps) = JObj (AList.update k v ps)"
| "jset k v j = j"

fun jdelete :: "string \<Rightarrow> json \<Rightarrow> json" where
  "jdelete k (JObj ps) = JObj (AList.delete k ps)"
| "jdelete k j = j"

text \<open>\<open>typeof v === 'string' ? v : undefined\<close> and its relatives.\<close>

definition as_string :: "json option \<Rightarrow> string option" where
  "as_string v = (case v of Some (JStr s) \<Rightarrow> Some s | _ \<Rightarrow> None)"

definition as_int :: "json option \<Rightarrow> int option" where
  "as_int v = (case v of Some (JNum n) \<Rightarrow> Some n | _ \<Rightarrow> None)"

definition as_list :: "json option \<Rightarrow> json list" where
  "as_list v = (case v of Some (JArr xs) \<Rightarrow> xs | _ \<Rightarrow> [])"

lemma jget_jset [map_laws]:
  "is_record j \<Longrightarrow> jget (jset k v j) k' = (if k' = k then Some v else jget j k')"
  by (cases j) (simp_all add: is_record_def map_laws)

lemma jget_jdelete [map_laws]: "jget (jdelete k j) k' = (if k' = k then None else jget j k')"
  by (cases j) (simp_all add: map_laws)

lemma is_record_jset [simp]: "is_record (jset k v j) = is_record j"
  by (cases j) (simp_all add: is_record_def)

text \<open>Spreading \<open>{...a, ...b}\<close>: the properties of \<open>b\<close> override those of \<open>a\<close>, in place.\<close>

definition spread :: "(string \<times> 'v) list \<Rightarrow> (string \<times> 'v) list \<Rightarrow> (string \<times> 'v) list" where
  "spread a b = fold (\<lambda>(k, v). AList.update k v) b a"

lemma spread_Nil [simp]: "spread a [] = a"
  by (simp add: spread_def)

lemma spread_snoc [simp]: "spread a (b @ [(k, v)]) = AList.update k v (spread a b)"
  by (simp add: spread_def)

lemma map_of_spread:
  "distinct (map fst b) \<Longrightarrow>
   map_of (spread a b) k = (case map_of b k of Some v \<Rightarrow> Some v | None \<Rightarrow> map_of a k)"
proof (induction b rule: rev_induct)
  case Nil
  then show ?case by simp
next
  case (snoc p b)
  obtain k' v where p: "p = (k', v)" by (cases p)
  have "map_of b k' = None" using snoc.prems p by (auto simp: map_of_eq_None_keys)
  then show ?case using snoc p by (auto simp: map_laws map_add_def split: option.splits)
qed

end
