(* ===== verification/Ports.thy ===== *)
theory Ports
  imports Json
begin

text \<open>
  Templates and their ports: \<^verbatim>\<open>graph/ports.registry.ts\<close> and \<^verbatim>\<open>graph/ports.types.ts\<close> (which
  handles a template has, and how the two ports of an edge are resolved to the side that is called
  and the side that is passed) and \<^verbatim>\<open>graph-core/templateRegistry.ts\<close> (templates and their
  classes).

  A class is an abstract identifier.  Whether an instance of it has a method is the argument
  \<open>has_method\<close>: \<open>typeof instance[name] === 'function'\<close>.
\<close>

section \<open>Ports\<close>

record edge_def =
  ed_source :: string
  ed_source_handle :: string
  ed_target :: string
  ed_target_handle :: string

datatype port_config = Method_port (port_create: string) (port_destroy: "string option") | Instance_port

definition is_method :: "port_config \<Rightarrow> bool" where
  "is_method p = (case p of Method_port _ _ \<Rightarrow> True | Instance_port \<Rightarrow> False)"

record template_port_config =
  tp_source :: "(string \<times> port_config) list option"
  tp_target :: "(string \<times> port_config) list option"

type_synonym ports_registry = "(string \<times> template_port_config) list"

datatype port_role = Source | Target

record resolved_port =
  rp_role :: port_role
  rp_handle :: string
  rp_config :: port_config

record resolved_edge =
  re_source :: resolved_port
  re_target :: resolved_port
  re_callable_side :: port_role
  re_method :: resolved_port
  re_instance :: resolved_port

datatype port_error =
    No_source_ports string
  | No_target_ports string
  | Unknown_source_handle string string
  | Unknown_target_handle string string
  | Both_methods
  | Neither_method

definition register_template_ports ::
  "string \<Rightarrow> template_port_config \<Rightarrow> ports_registry \<Rightarrow> ports_registry" where
  "register_template_ports template cfg reg = AList.update template cfg reg"

definition get_template_config :: "string \<Rightarrow> ports_registry \<Rightarrow> template_port_config option" where
  "get_template_config template reg = map_of reg template"

text \<open>The error of \<open>validateTemplateInstance\<close> is the handle and the missing method.\<close>

fun check_ports ::
  "(string \<Rightarrow> bool) \<Rightarrow> (string \<times> port_config) list \<Rightarrow> (string \<times> string) + unit" where
  "check_ports has_method [] = Inr ()"
| "check_ports has_method ((handle, Instance_port) # ps) = check_ports has_method ps"
| "check_ports has_method ((handle, Method_port create destroy) # ps) =
     (if \<not> has_method create then Inl (handle, create)
      else case destroy of
             None \<Rightarrow> check_ports has_method ps
           | Some d \<Rightarrow>
               if d \<noteq> [] \<and> \<not> has_method d then Inl (handle, d)
               else check_ports has_method ps)"

definition validate_template_instance ::
  "string \<Rightarrow> (string \<Rightarrow> bool) \<Rightarrow> ports_registry \<Rightarrow> (string \<times> string) + unit" where
  "validate_template_instance template has_method reg =
     (case map_of reg template of
        None \<Rightarrow> Inr ()
      | Some cfg \<Rightarrow>
          (case check_ports has_method (case tp_source cfg of None \<Rightarrow> [] | Some ps \<Rightarrow> ps) of
             Inl e \<Rightarrow> Inl e
           | Inr _ \<Rightarrow> check_ports has_method (case tp_target cfg of None \<Rightarrow> [] | Some ps \<Rightarrow> ps)))"

definition port_at :: "(string \<times> port_config) list option \<Rightarrow> string \<Rightarrow> port_config option" where
  "port_at ports handle = (case ports of None \<Rightarrow> None | Some ps \<Rightarrow> map_of ps handle)"

definition resolve_edge ::
  "ports_registry \<Rightarrow> edge_def \<Rightarrow> string \<Rightarrow> string \<Rightarrow> port_error + resolved_edge" where
  "resolve_edge reg e source_template target_template =
     (case map_of reg source_template of
        None \<Rightarrow> Inl (No_source_ports source_template)
      | Some source_cfg \<Rightarrow>
     (case map_of reg target_template of
        None \<Rightarrow> Inl (No_target_ports target_template)
      | Some target_cfg \<Rightarrow>
     (case port_at (tp_source source_cfg) (ed_source_handle e) of
        None \<Rightarrow> Inl (Unknown_source_handle (ed_source_handle e) source_template)
      | Some source_port \<Rightarrow>
     (case port_at (tp_target target_cfg) (ed_target_handle e) of
        None \<Rightarrow> Inl (Unknown_target_handle (ed_target_handle e) target_template)
      | Some target_port \<Rightarrow>
          if is_method source_port \<and> is_method target_port then Inl Both_methods
          else if \<not> is_method source_port \<and> \<not> is_method target_port then Inl Neither_method
          else
            let s = \<lparr>rp_role = Source, rp_handle = ed_source_handle e, rp_config = source_port\<rparr>;
                t = \<lparr>rp_role = Target, rp_handle = ed_target_handle e, rp_config = target_port\<rparr>;
                side = (if is_method source_port then Source else Target)
            in Inr \<lparr>re_source = s, re_target = t, re_callable_side = side,
                     re_method = (if side = Source then s else t),
                     re_instance = (if side = Source then t else s)\<rparr>))))"

text \<open>
  An edge resolves exactly when both templates are registered, both handles exist and exactly
  one of the two ports is a method; then the method port, on the callable side, is the one of kind
  method and the other is the instance port.
\<close>

theorem resolve_edge_exact:
  "resolve_edge reg e st tt = Inr r \<longleftrightarrow>
     (\<exists>sc tc sp tp.
        map_of reg st = Some sc \<and> map_of reg tt = Some tc
        \<and> port_at (tp_source sc) (ed_source_handle e) = Some sp
        \<and> port_at (tp_target tc) (ed_target_handle e) = Some tp
        \<and> is_method sp \<noteq> is_method tp
        \<and> re_source r = \<lparr>rp_role = Source, rp_handle = ed_source_handle e, rp_config = sp\<rparr>
        \<and> re_target r = \<lparr>rp_role = Target, rp_handle = ed_target_handle e, rp_config = tp\<rparr>
        \<and> is_method (rp_config (re_method r)) \<and> \<not> is_method (rp_config (re_instance r))
        \<and> rp_role (re_method r) = re_callable_side r
        \<and> {re_method r, re_instance r} = {re_source r, re_target r})"
  (is "?l \<longleftrightarrow> ?r")
proof
  show "?l \<Longrightarrow> ?r"
    by (auto simp: resolve_edge_def Let_def split: option.splits if_splits)
next
  assume ?r
  then obtain sc tc sp tp where
    cfgs: "map_of reg st = Some sc" "map_of reg tt = Some tc"
      "port_at (tp_source sc) (ed_source_handle e) = Some sp"
      "port_at (tp_target tc) (ed_target_handle e) = Some tp" and
    ports: "is_method sp \<noteq> is_method tp"
      "re_source r = \<lparr>rp_role = Source, rp_handle = ed_source_handle e, rp_config = sp\<rparr>"
      "re_target r = \<lparr>rp_role = Target, rp_handle = ed_target_handle e, rp_config = tp\<rparr>"
      "is_method (rp_config (re_method r))" "\<not> is_method (rp_config (re_instance r))"
      "rp_role (re_method r) = re_callable_side r"
      "{re_method r, re_instance r} = {re_source r, re_target r}"
    by blast
  show ?l
  proof (cases "is_method sp")
    case True
    then have "re_method r = re_source r" "re_instance r = re_target r"
      using ports by (auto simp: doubleton_eq_iff)
    then show ?thesis using True cfgs ports by (cases r) (auto simp: resolve_edge_def Let_def)
  next
    case False
    then have "re_method r = re_target r" "re_instance r = re_source r"
      using ports by (auto simp: doubleton_eq_iff)
    then show ?thesis using False cfgs ports by (cases r) (auto simp: resolve_edge_def Let_def)
  qed
qed

lemma check_ports_ok:
  "check_ports has_method ps = Inr () \<Longrightarrow> (h, Method_port c d) \<in> set ps \<Longrightarrow> has_method c"
  by (induction has_method ps rule: check_ports.induct) (auto split: if_splits option.splits)

section \<open>Templates\<close>

datatype template_kind = Kind_trigger | Kind_agent | Kind_tool | Kind_mcp | Kind_service

record template_meta =
  tm_title :: string
  tm_kind :: template_kind
  tm_description :: "string option"

record template_registry =
  tr_classes :: "(string \<times> nat) list"
  tr_meta :: "(string \<times> template_meta) list"

record template_schema =
  sc_name :: string
  sc_title :: string
  sc_kind :: template_kind
  sc_source_ports :: "string list"
  sc_target_ports :: "string list"

definition register_template ::
  "string \<Rightarrow> template_meta option \<Rightarrow> nat \<Rightarrow> template_registry \<Rightarrow> template_registry" where
  "register_template template meta cls tr =
     (let tr1 = tr\<lparr>tr_classes := AList.update template cls (tr_classes tr)\<rparr>
      in case meta of
           None \<Rightarrow> tr1
         | Some m \<Rightarrow> tr1\<lparr>tr_meta := AList.update template m (tr_meta tr1)\<rparr>)"

definition get_class :: "string \<Rightarrow> template_registry \<Rightarrow> nat option" where
  "get_class template tr = map_of (tr_classes tr) template"

definition get_meta :: "string \<Rightarrow> template_registry \<Rightarrow> template_meta option" where
  "get_meta template tr = map_of (tr_meta tr) template"

definition find_template_by_ctor :: "nat \<Rightarrow> template_registry \<Rightarrow> string option" where
  "find_template_by_ctor ctor tr =
     map_option fst (find (\<lambda>(template, c). c = ctor) (tr_classes tr))"

text \<open>
  \<open>toSchema\<close>: the class's instance answers \<open>getPortConfig\<close> (the argument \<open>ports_of\<close>, nothing when
  no instance comes back); the result is sorted by name with the locale's order, \<open>name_le\<close>.
\<close>

definition port_names :: "(string \<times> port_config) list option \<Rightarrow> string list" where
  "port_names ps = (case ps of None \<Rightarrow> [] | Some qs \<Rightarrow> map fst qs)"

definition schema_entry ::
  "(nat \<Rightarrow> template_port_config option) \<Rightarrow> template_registry \<Rightarrow> string \<times> nat \<Rightarrow> template_schema" where
  "schema_entry ports_of tr entry =
     (let (name, cls) = entry;
          cfg = ports_of cls;
          meta = (case map_of (tr_meta tr) name of
                    None \<Rightarrow> \<lparr>tm_title = name, tm_kind = Kind_tool, tm_description = None\<rparr>
                  | Some m \<Rightarrow> m)
      in \<lparr>sc_name = name, sc_title = tm_title meta, sc_kind = tm_kind meta,
           sc_source_ports = (case cfg of None \<Rightarrow> [] | Some c \<Rightarrow> port_names (tp_source c)),
           sc_target_ports = (case cfg of None \<Rightarrow> [] | Some c \<Rightarrow> port_names (tp_target c))\<rparr>)"

definition to_schema ::
  "(string \<Rightarrow> string \<Rightarrow> bool) \<Rightarrow> (nat \<Rightarrow> template_port_config option) \<Rightarrow> template_registry \<Rightarrow>
   template_schema list" where
  "to_schema name_le ports_of tr =
     sort_by (\<lambda>a b. name_le (sc_name a) (sc_name b)) (map (schema_entry ports_of tr) (tr_classes tr))"

lemma find_template_registered:
  "find_template_by_ctor c tr = Some t \<Longrightarrow> (t, c) \<in> set (tr_classes tr)"
  by (auto simp: find_template_by_ctor_def find_Some_iff) (metis nth_mem)

end
