(* ===== verification/NodeLifecycle.thy ===== *)
theory NodeLifecycle
  imports Json
begin

text \<open>
  The life cycle of a graph node, \<^verbatim>\<open>packages/platform-server/src/nodes/base/Node.ts\<close>:
  the status field and its events, the \<open>_pending\<close> guard, \<open>provision\<close>, \<open>deprovision\<close>,
  \<open>reprovision\<close>, \<open>setConfig\<close> and \<open>Node.wait\<close>.

  \<open>provision\<close> and \<open>deprovision\<close> suspend at the \<open>await\<close> of the subclass's hook.  Each is two
  definitions, the part before the suspension (\<open>\<dots>_start\<close>, which returns nothing when a guard
  returns early) and the part after it (\<open>\<dots>_finish\<close>, given whether the hook threw), and their
  composition is the undisturbed call.  \<open>node_step\<close> interleaves the parts of any number of calls.
\<close>

section \<open>State\<close>

datatype node_status =
    Not_ready | Provisioning | Ready | Deprovisioning | Provisioning_error | Deprovisioning_error

datatype node_pending = Pending_provision | Pending_deprovision

datatype node_event = Status_changed node_status node_status | Config_changed json

text \<open>\<open>nd_events\<close> is what the listeners of the emitter have been sent, oldest first.\<close>

record node =
  nd_status :: node_status
  nd_pending :: "node_pending option"
  nd_config :: json
  nd_node_id :: "string option"
  nd_events :: "node_event list"

definition new_node :: node where
  "new_node = \<lparr>nd_status = Not_ready, nd_pending = None, nd_config = JObj [], nd_node_id = None,
               nd_events = []\<rparr>"

section \<open>Operations\<close>

definition init_node :: "string \<Rightarrow> node \<Rightarrow> node" where
  "init_node i n = n\<lparr>nd_node_id := Some i\<rparr>"

text \<open>The getter throws when the identifier is undefined or the empty string.\<close>

definition node_id :: "node \<Rightarrow> string + string" where
  "node_id n = (case nd_node_id n of
       Some (c # cs) \<Rightarrow> Inr (c # cs)
     | _ \<Rightarrow> Inl ''Node not initialized'')"

definition emit :: "node_event \<Rightarrow> node \<Rightarrow> node" where
  "emit e n = n\<lparr>nd_events := nd_events n @ [e]\<rparr>"

definition set_status :: "node_status \<Rightarrow> node \<Rightarrow> node" where
  "set_status nxt n =
     (if nd_status n = nxt then n
      else emit (Status_changed (nd_status n) nxt) (n\<lparr>nd_status := nxt\<rparr>))"

definition emit_config_changed :: "node \<Rightarrow> node" where
  "emit_config_changed n = emit (Config_changed (nd_config n)) n"

text \<open>\<open>cfg ?? {}\<close>\<close>

definition set_config :: "json option \<Rightarrow> node \<Rightarrow> node" where
  "set_config cfg n =
     emit_config_changed
       (n\<lparr>nd_config := (case cfg of None \<Rightarrow> JObj [] | Some JNull \<Rightarrow> JObj [] | Some c \<Rightarrow> c)\<rparr>)"

definition in_flight :: "node \<Rightarrow> bool" where
  "in_flight n \<longleftrightarrow>
     nd_pending n \<noteq> None \<or> nd_status n = Provisioning \<or> nd_status n = Deprovisioning"

definition provision_start :: "node \<Rightarrow> node option" where
  "provision_start n =
     (if in_flight n then None
      else if nd_status n = Ready then None
      else Some (set_status Provisioning (n\<lparr>nd_pending := Some Pending_provision\<rparr>)))"

definition provision_finish :: "bool \<Rightarrow> node \<Rightarrow> node" where
  "provision_finish ok n =
     (set_status (if ok then Ready else Provisioning_error) n)\<lparr>nd_pending := None\<rparr>"

definition provision :: "bool \<Rightarrow> node \<Rightarrow> node" where
  "provision ok n = (case provision_start n of None \<Rightarrow> n | Some n' \<Rightarrow> provision_finish ok n')"

definition deprovision_start :: "node \<Rightarrow> node option" where
  "deprovision_start n =
     (if in_flight n then None
      else if nd_status n = Not_ready then None
      else Some (set_status Deprovisioning (n\<lparr>nd_pending := Some Pending_deprovision\<rparr>)))"

definition deprovision_finish :: "bool \<Rightarrow> node \<Rightarrow> node" where
  "deprovision_finish ok n =
     (set_status (if ok then Not_ready else Deprovisioning_error) n)\<lparr>nd_pending := None\<rparr>"

definition deprovision :: "bool \<Rightarrow> node \<Rightarrow> node" where
  "deprovision ok n = (case deprovision_start n of None \<Rightarrow> n | Some n' \<Rightarrow> deprovision_finish ok n')"

text \<open>
  The mutator may change the configuration object in place (the first component of its result),
  and may throw (\<^const>\<open>Inl\<close>), return nothing, or return a value, which replaces the
  configuration when it is an object or an array.
\<close>

definition mutate_config :: "(json \<Rightarrow> json \<times> (unit + json option)) \<Rightarrow> node \<Rightarrow> node" where
  "mutate_config mutator n =
     (case mutator (nd_config n) of
        (left, Inl _) \<Rightarrow> n\<lparr>nd_config := left\<rparr>
      | (left, Inr res) \<Rightarrow>
          emit_config_changed
            (case res of
               None \<Rightarrow> n\<lparr>nd_config := left\<rparr>
             | Some c \<Rightarrow> n\<lparr>nd_config := (if is_object_like c then c else left)\<rparr>))"

definition reprovision :: "(json \<Rightarrow> json \<times> (unit + json option)) \<Rightarrow> bool \<Rightarrow> bool \<Rightarrow> node \<Rightarrow> node" where
  "reprovision mutator deprovision_ok provision_ok n =
     (if in_flight n then n
      else provision provision_ok (mutate_config mutator (deprovision deprovision_ok n)))"

text \<open>
  \<open>Node.wait\<close>: resolve at once when the status is already there, otherwise at the first event
  that reaches it; the timer rejects when none of the events before the timeout does.
\<close>

fun await_event :: "node_status \<Rightarrow> node_event list \<Rightarrow> string + unit" where
  "await_event st [] = Inl ''TimeoutError''"
| "await_event st (Status_changed prev nxt # evs) =
     (if nxt = st then Inr () else await_event st evs)"
| "await_event st (Config_changed c # evs) = await_event st evs"

definition wait_status :: "node_status \<Rightarrow> node \<Rightarrow> node_event list \<Rightarrow> string + unit" where
  "wait_status st n evs_before_timeout =
     (if nd_status n = st then Inr () else await_event st evs_before_timeout)"

section \<open>Interleaved calls\<close>

datatype node_label = Hook_called node_pending | Hook_returned node_pending | Silent

inductive node_step :: "node \<Rightarrow> node_label \<Rightarrow> node \<Rightarrow> bool" where
  init: "node_step n Silent (init_node i n)"
| config: "node_step n Silent (set_config c n)"
| mutate: "node_step n Silent (mutate_config f n)"
| provision_call:
    "provision_start n = Some n' \<Longrightarrow> node_step n (Hook_called Pending_provision) n'"
| provision_noop: "provision_start n = None \<Longrightarrow> node_step n Silent n"
| provision_done:
    "nd_pending n = Some Pending_provision \<Longrightarrow>
     node_step n (Hook_returned Pending_provision) (provision_finish ok n)"
| deprovision_call:
    "deprovision_start n = Some n' \<Longrightarrow> node_step n (Hook_called Pending_deprovision) n'"
| deprovision_noop: "deprovision_start n = None \<Longrightarrow> node_step n Silent n"
| deprovision_done:
    "nd_pending n = Some Pending_deprovision \<Longrightarrow>
     node_step n (Hook_returned Pending_deprovision) (deprovision_finish ok n)"

inductive_cases node_step_called: "node_step n (Hook_called p) n'"
inductive_cases node_step_returned: "node_step n (Hook_returned p) n'"

inductive node_run :: "node \<Rightarrow> node_label list \<Rightarrow> node \<Rightarrow> bool" where
  run_nil: "node_run n [] n"
| run_step: "node_run n ls n' \<Longrightarrow> node_step n' l n'' \<Longrightarrow> node_run n (ls @ [l]) n''"

section \<open>The life cycle as a state machine\<close>

text \<open>The transitions listeners may observe.\<close>

fun status_edge :: "node_status \<Rightarrow> node_status \<Rightarrow> bool" where
  "status_edge Not_ready Provisioning = True"
| "status_edge Provisioning_error Provisioning = True"
| "status_edge Deprovisioning_error Provisioning = True"
| "status_edge Provisioning Ready = True"
| "status_edge Provisioning Provisioning_error = True"
| "status_edge Ready Deprovisioning = True"
| "status_edge Provisioning_error Deprovisioning = True"
| "status_edge Deprovisioning_error Deprovisioning = True"
| "status_edge Deprovisioning Not_ready = True"
| "status_edge Deprovisioning Deprovisioning_error = True"
| "status_edge _ _ = False"

text \<open>A list of events is a path of the machine between two statuses.\<close>

fun status_path :: "node_status \<Rightarrow> node_event list \<Rightarrow> node_status \<Rightarrow> bool" where
  "status_path s [] t = (s = t)"
| "status_path s (Status_changed p q # evs) t = (p = s \<and> status_edge p q \<and> status_path q evs t)"
| "status_path s (Config_changed c # evs) t = status_path s evs t"

lemma status_path_append:
  "status_path s (xs @ ys) t \<longleftrightarrow> (\<exists>u. status_path s xs u \<and> status_path u ys t)"
  by (induction s xs t rule: status_path.induct) auto

definition node_ok :: "node \<Rightarrow> bool" where
  "node_ok n \<longleftrightarrow>
     (nd_pending n = Some Pending_provision \<longleftrightarrow> nd_status n = Provisioning)
     \<and> (nd_pending n = Some Pending_deprovision \<longleftrightarrow> nd_status n = Deprovisioning)
     \<and> status_path Not_ready (nd_events n) (nd_status n)"

lemmas node_defs = emit_def set_status_def emit_config_changed_def in_flight_def
lemmas lifecycle_defs = provision_start_def provision_finish_def deprovision_start_def
  deprovision_finish_def

lemma node_ok_set_config: "node_ok n \<Longrightarrow> node_ok (set_config c n)"
  by (auto simp: node_ok_def set_config_def node_defs status_path_append)

lemma node_ok_mutate: "node_ok n \<Longrightarrow> node_ok (mutate_config f n)"
  by (auto simp: node_ok_def mutate_config_def node_defs status_path_append
      split: sum.split option.split prod.split)

lemma node_ok_init: "node_ok n \<Longrightarrow> node_ok (init_node i n)"
  by (simp add: node_ok_def init_node_def)

lemma node_ok_start:
  "node_ok n \<Longrightarrow> provision_start n = Some n' \<Longrightarrow> node_ok n'"
  "node_ok n \<Longrightarrow> deprovision_start n = Some n' \<Longrightarrow> node_ok n'"
  by (cases "nd_status n";
      auto simp: node_ok_def lifecycle_defs node_defs status_path_append split: if_splits)+

lemma node_ok_finish:
  "node_ok n \<Longrightarrow> nd_pending n = Some Pending_provision \<Longrightarrow> node_ok (provision_finish ok n)"
  "node_ok n \<Longrightarrow> nd_pending n = Some Pending_deprovision \<Longrightarrow> node_ok (deprovision_finish ok n)"
  by (auto simp: node_ok_def lifecycle_defs node_defs status_path_append)

lemma node_ok_step: "node_step n l n' \<Longrightarrow> node_ok n \<Longrightarrow> node_ok n'"
  by (induction rule: node_step.induct)
    (auto intro: node_ok_set_config node_ok_mutate node_ok_init node_ok_start node_ok_finish)

lemma node_ok_run: "node_run n ls n' \<Longrightarrow> node_ok n \<Longrightarrow> node_ok n'"
  by (induction rule: node_run.induct) (auto intro: node_ok_step)

lemma node_ok_new: "node_ok new_node"
  by (simp add: node_ok_def new_node_def)

text \<open>
  C9. Under any interleaving of \<open>provision\<close>, \<open>deprovision\<close>, \<open>setConfig\<close> and the steps of
  \<open>reprovision\<close>, with hooks that succeed or throw, the pending guard agrees with the status, and the
  \<open>status_changed\<close> events sent so far are a path of the life-cycle machine from \<open>not_ready\<close> to the
  current status: no event is skipped, repeated or out of order.
\<close>

theorem node_lifecycle:
  assumes "node_run new_node ls n"
  shows "(nd_pending n = Some Pending_provision \<longleftrightarrow> nd_status n = Provisioning)
    \<and> (nd_pending n = Some Pending_deprovision \<longleftrightarrow> nd_status n = Deprovisioning)
    \<and> status_path Not_ready (nd_events n) (nd_status n)"
  using node_ok_run[OF assms node_ok_new] by (simp add: node_ok_def)

lemma run_two: "node_step n l n1 \<Longrightarrow> node_step n1 m n2 \<Longrightarrow> node_run n [l, m] n2"
  using run_step[OF run_step[OF run_nil]] by fastforce

theorem node_lifecycle_witness:
  "status_path Not_ready (nd_events (provision False new_node)) Provisioning_error"
proof -
  let ?n = "set_status Provisioning (new_node\<lparr>nd_pending := Some Pending_provision\<rparr>)"
  have start: "provision_start new_node = Some ?n"
    by (simp add: provision_start_def new_node_def in_flight_def)
  have "node_step ?n (Hook_returned Pending_provision) (provision_finish False ?n)"
    by (rule provision_done) (simp add: node_defs new_node_def)
  from node_lifecycle[OF run_two[OF provision_call[OF start] this]]
  show ?thesis
    by (simp add: provision_def start) (simp add: provision_finish_def node_defs new_node_def)
qed

section \<open>Hooks never overlap\<close>

text \<open>The hook activity of a run: at most one hook is open, and only its own return closes it.\<close>

fun hooks_ok :: "node_pending option \<Rightarrow> node_label list \<Rightarrow> node_pending option \<Rightarrow> bool" where
  "hooks_ok p [] q = (p = q)"
| "hooks_ok p (Silent # ls) q = hooks_ok p ls q"
| "hooks_ok None (Hook_called k # ls) q = hooks_ok (Some k) ls q"
| "hooks_ok (Some j) (Hook_called k # ls) q = False"
| "hooks_ok None (Hook_returned k # ls) q = False"
| "hooks_ok (Some j) (Hook_returned k # ls) q = (j = k \<and> hooks_ok None ls q)"

lemma hooks_ok_append:
  "hooks_ok p (xs @ ys) q \<longleftrightarrow> (\<exists>r. hooks_ok p xs r \<and> hooks_ok r ys q)"
  by (induction p xs q rule: hooks_ok.induct) auto

lemma step_hooks: "node_step n l n' \<Longrightarrow> hooks_ok (nd_pending n) [l] (nd_pending n')"
  by (induction rule: node_step.induct)
    (auto simp: init_node_def set_config_def mutate_config_def lifecycle_defs node_defs
      split: if_splits sum.splits option.splits prod.splits)

text \<open>
  Hooks never overlap: in any interleaving, \<open>doProvision\<close> and \<open>doDeprovision\<close> are called only
  when no hook of the node is running, so calls and returns alternate and match.
\<close>

theorem hooks_never_overlap:
  assumes "node_run new_node ls n"
  shows "hooks_ok None ls (nd_pending n)"
proof -
  have "node_run m ls n \<Longrightarrow> hooks_ok (nd_pending m) ls (nd_pending n)" for m
    by (induction rule: node_run.induct) (auto simp: hooks_ok_append dest: step_hooks)
  from this[OF assms] show ?thesis by (simp add: new_node_def)
qed

theorem hooks_never_overlap_witness:
  "hooks_ok None [Silent, Hook_called Pending_provision]
     (nd_pending (the (provision_start (set_config None new_node))))"
proof -
  have s: "provision_start (set_config None new_node)
      = Some (the (provision_start (set_config None new_node)))"
    by (simp add: provision_start_def set_config_def new_node_def node_defs)
  show ?thesis by (rule hooks_never_overlap[OF run_two[OF config provision_call[OF s]]])
qed

section \<open>Reprovisioning\<close>

lemma provision_status:
  "node_ok n \<Longrightarrow> \<not> in_flight n \<Longrightarrow>
   nd_status (provision ok n) =
     (if nd_status n = Ready then Ready else if ok then Ready else Provisioning_error)"
  by (auto simp: provision_def lifecycle_defs node_defs split: if_splits)

text \<open>
  \<open>reprovision\<close> on a node that is at rest always ends at rest: with a hook that succeeds the
  node is ready again, whatever status it started from and even if deprovisioning failed; the
  configuration is the mutator's result when that is an object, and otherwise (it threw, or returned
  anything else) the old object as the mutator left it.  A call while a hook is running changes nothing.
\<close>

theorem reprovision_result:
  "if in_flight n then reprovision f de_ok pr_ok n = n
   else nd_status (reprovision f de_ok pr_ok n) = (if pr_ok then Ready else Provisioning_error)
     \<and> nd_pending (reprovision f de_ok pr_ok n) = None
     \<and> nd_config (reprovision f de_ok pr_ok n) =
         (case f (nd_config n) of
            (left, Inr (Some c)) \<Rightarrow> if is_object_like c then c else left
          | (left, _) \<Rightarrow> left)"
  by (auto simp: reprovision_def mutate_config_def provision_def deprovision_def lifecycle_defs
      node_defs split: if_splits sum.splits option.splits prod.splits)

end
