(* ===== verification/LiveGraph.thy ===== *)
theory LiveGraph
  imports Ports NodeLifecycle "HOL-Library.List_Lexorder" "HOL-Library.Char_ord"
begin

text \<open>
  The live graph runtime, \<^verbatim>\<open>graph-core/liveGraph.manager.ts\<close>: the difference between the
  last applied graph and the next one, instantiation and disposal of nodes, configuration with
  stripping of unknown keys, the registry of executed edges, applying a graph and the queue of
  applications.

  Everything a node's class or another service does is outside this file.  The code calls it through
  \<open>ext_call\<close>s; \<open>ev_reply\<close> gives the outcome of a call from the calls made before it, so that an
  outcome may differ from one call to the next.  The runtime keeps the trace of its calls in
  \<open>rt_calls\<close>.  \<open>provision\<close> and \<open>deprovision\<close> act on the instance's life cycle
  (theory \<open>NodeLifecycle\<close>), the reply is whether the hook throws.
\<close>

section \<open>Data\<close>

record node_def =
  df_id :: string
  df_template :: string
  df_config :: "(string \<times> json) list option"
  df_state :: "(string \<times> json) list option"

record graph_def =
  g_nodes :: "node_def list"
  g_edges :: "edge_def list"

definition edge_key :: "edge_def \<Rightarrow> string" where
  "edge_key e = ed_source e @ '':'' @ ed_source_handle e @ ''->'' @ ed_target e @ '':'' @ ed_target_handle e"

record live_node =
  ln_id :: string
  ln_template :: string
  ln_instance :: nat
  ln_config :: "(string \<times> json) list option"

text \<open>The closure \<open>reversal\<close>: what it captures.\<close>

record reversal =
  rv_instance :: nat
  rv_template :: string
  rv_create :: string
  rv_destroy :: "string option"
  rv_argument :: nat

record edge_record =
  er_key :: string
  er_source :: string
  er_target :: string
  er_source_handle :: string
  er_target_handle :: string
  er_reversible :: bool
  er_reversal :: "reversal option"

datatype graph_error =
    Unknown_template string string
  | Node_init_error string
  | Config_apply_error string
  | Reference_resolution_error string "string option"
  | Port_resolution_error port_error
  | Call_error string

text \<open>The calls to code outside the runtime.\<close>

datatype ext_call =
    Create_instance string string
  | Init_instance nat string
  | Resolve_references string "(string \<times> json) list"
  | Set_config nat "(string \<times> json) list"
  | Set_state nat "(string \<times> json) list"
  | Call_method nat string "nat option"
  | Provision_hook nat
  | Deprovision_hook nat

record zod_issue =
  zi_code :: string
  zi_path_length :: "nat option"
  zi_keys :: "string list option"

text \<open>
  An external call returns, perhaps with a configuration, or throws.  For the reference resolver,
  \<open>Returns\<close> is an output equal to its input.
\<close>

datatype reply =
    Returns
  | Returns_config "(string \<times> json) list"
  | Throws_zod "zod_issue list"
  | Throws_resolve "string option"
  | Throws_graph graph_error
  | Throws_other string

record env =
  ev_templates :: template_registry
  ev_ports :: "nat \<Rightarrow> template_port_config option"
  ev_has_method :: "string \<Rightarrow> string \<Rightarrow> bool"
  ev_reply :: "ext_call list \<Rightarrow> ext_call \<Rightarrow> reply"

record runtime =
  rt_nodes :: "(string \<times> live_node) list"
  rt_edges :: "(string \<times> edge_record) list"
  rt_inbound :: "(string \<times> string list) list"
  rt_outbound :: "(string \<times> string list) list"
  rt_version :: nat
  rt_last_graph :: "graph_def option"
  rt_ports :: ports_registry
  rt_handlers :: "(string \<times> nat) list"
  rt_instances :: "(nat \<times> node) list"
  rt_next_instance :: nat
  rt_calls :: "ext_call list"

definition new_runtime :: runtime where
  "new_runtime = \<lparr>rt_nodes = [], rt_edges = [], rt_inbound = [], rt_outbound = [], rt_version = 0,
     rt_last_graph = None, rt_ports = [], rt_handlers = [], rt_instances = [], rt_next_instance = 0,
     rt_calls = []\<rparr>"

definition ask :: "env \<Rightarrow> ext_call \<Rightarrow> runtime \<Rightarrow> runtime \<times> reply" where
  "ask ev c rt = (rt\<lparr>rt_calls := rt_calls rt @ [c]\<rparr>, ev_reply ev (rt_calls rt) c)"

definition throws :: "reply \<Rightarrow> bool" where
  "throws r \<longleftrightarrow> (case r of Returns \<Rightarrow> False | Returns_config _ \<Rightarrow> False | _ \<Rightarrow> True)"

section \<open>The difference between two graphs\<close>

record graph_diff =
  gd_added_nodes :: "node_def list"
  gd_removed :: "string list"
  gd_recreated :: "string list"
  gd_config_updates :: "string list"
  gd_added_edges :: "edge_def list"
  gd_removed_edges :: "edge_def list"

text \<open>\<open>n.data.config || {}\<close>; \<open>JSON.stringify\<close> tells two JSON values apart.\<close>

definition config_or_empty :: "node_def \<Rightarrow> (string \<times> json) list" where
  "config_or_empty n = (case df_config n of None \<Rightarrow> [] | Some c \<Rightarrow> c)"

definition configs_equal :: "(string \<times> json) list \<Rightarrow> (string \<times> json) list \<Rightarrow> bool" where
  "configs_equal a b \<longleftrightarrow> a = b"

datatype node_change = Added | Recreated | Config_updated | Unchanged

definition classify_node :: "(string \<times> node_def) list \<Rightarrow> node_def \<Rightarrow> node_change" where
  "classify_node prev_nodes n =
     (case map_of prev_nodes (df_id n) of
        None \<Rightarrow> Added
      | Some p \<Rightarrow>
          if df_template p \<noteq> df_template n then Recreated
          else if \<not> configs_equal (config_or_empty p) (config_or_empty n) then Config_updated
          else Unchanged)"

definition compute_diff :: "graph_def \<Rightarrow> graph_def \<Rightarrow> graph_diff" where
  "compute_diff prev nxt =
     (let prev_nodes = index_by df_id (g_nodes prev);
          next_nodes = index_by df_id (g_nodes nxt);
          of_kind = (\<lambda>k. filter (\<lambda>n. classify_node prev_nodes n = k) (g_nodes nxt));
          prev_edges = index_by edge_key (g_edges prev);
          next_edges = index_by edge_key (g_edges nxt)
      in \<lparr>gd_added_nodes = of_kind Added,
          gd_removed = map df_id (filter (\<lambda>n. map_of next_nodes (df_id n) = None) (g_nodes prev)),
          gd_recreated = map df_id (of_kind Recreated),
          gd_config_updates = map df_id (of_kind Config_updated),
          gd_added_edges = map snd (filter (\<lambda>(k, e). map_of prev_edges k = None) next_edges),
          gd_removed_edges = map snd (filter (\<lambda>(k, e). map_of next_edges k = None) prev_edges)\<rparr>)"

section \<open>Configuration with unknown keys stripped\<close>

text \<open>The top-level keys that \<open>unrecognized_keys\<close> issues name.\<close>

definition issue_root_keys :: "zod_issue \<Rightarrow> string list" where
  "issue_root_keys i =
     (if zi_code i \<noteq> ''unrecognized_keys'' then []
      else if (case zi_path_length i of None \<Rightarrow> True | Some l \<Rightarrow> l = 0)
      then (case zi_keys i of None \<Rightarrow> [] | Some ks \<Rightarrow> ks)
      else [])"

definition extract_unknown_root_keys :: "zod_issue list \<Rightarrow> string list" where
  "extract_unknown_root_keys issues = set_add_all (concat (map issue_root_keys issues)) []"

definition prune_keys :: "(string \<times> json) list \<Rightarrow> string list \<Rightarrow> (string \<times> json) list" where
  "prune_keys obj keys = filter (\<lambda>(k, v). k \<notin> set keys) obj"

definition max_retries :: nat where
  "max_retries = 3"

text \<open>The loop: \<open>attempt\<close> counts the retries already made.\<close>

function config_loop ::
  "env \<Rightarrow> nat \<Rightarrow> string \<Rightarrow> nat \<Rightarrow> (string \<times> json) list \<Rightarrow> runtime \<Rightarrow>
   runtime \<times> (graph_error + (string \<times> json) list)" where
  "config_loop ev inst nid attempt current rt =
     (case ask ev (Set_config inst current) rt of
        (rt1, Throws_zod issues) \<Rightarrow>
          (let keys = extract_unknown_root_keys issues
           in if keys = [] then (rt1, Inl (Config_apply_error nid))
              else if attempt \<ge> max_retries then (rt1, Inl (Config_apply_error nid))
              else config_loop ev inst nid (Suc attempt) (prune_keys current keys) rt1)
      | (rt1, r) \<Rightarrow>
          if throws r then (rt1, Inl (Config_apply_error nid)) else (rt1, Inr current))"
  by pat_completeness auto
termination
  by (relation "measure (\<lambda>(ev, inst, nid, attempt, current, rt). max_retries - attempt)") auto

declare config_loop.simps [simp del]

text \<open>Every \<open>Node\<close> has \<open>setConfig\<close>, so the guard on its absence never returns.\<close>

definition apply_config ::
  "env \<Rightarrow> nat \<Rightarrow> (string \<times> json) list \<Rightarrow> string \<Rightarrow> runtime \<Rightarrow>
   runtime \<times> (graph_error + (string \<times> json) list)" where
  "apply_config ev inst cfg nid rt = config_loop ev inst nid 0 cfg rt"

definition resolve_node_config ::
  "env \<Rightarrow> string \<Rightarrow> (string \<times> json) list \<Rightarrow> runtime \<Rightarrow>
   runtime \<times> (graph_error + (string \<times> json) list)" where
  "resolve_node_config ev nid cfg rt =
     (case ask ev (Resolve_references nid cfg) rt of
        (rt1, Returns_config out) \<Rightarrow> (rt1, Inr out)
      | (rt1, Throws_resolve path) \<Rightarrow> (rt1, Inl (Reference_resolution_error nid path))
      | (rt1, Throws_graph e) \<Rightarrow> (rt1, Inl e)
      | (rt1, Throws_other m) \<Rightarrow> (rt1, Inl (Call_error m))
      | (rt1, Throws_zod is) \<Rightarrow> (rt1, Inl (Call_error ''ZodError''))
      | (rt1, Returns) \<Rightarrow> (rt1, Inr cfg))"

section \<open>Instantiating a node\<close>

definition is_graph_error :: "graph_error \<Rightarrow> bool" where
  "is_graph_error e \<longleftrightarrow>
     (case e of Call_error _ \<Rightarrow> False | Port_resolution_error _ \<Rightarrow> False | _ \<Rightarrow> True)"

text \<open>The outer \<open>catch\<close>: an error that is not a \<open>GraphError\<close> is wrapped.\<close>

definition enrich :: "string \<Rightarrow> graph_error \<Rightarrow> graph_error" where
  "enrich nid e = (if is_graph_error e then e else Node_init_error nid)"

definition reply_error :: "reply \<Rightarrow> graph_error" where
  "reply_error r = (case r of Throws_graph e \<Rightarrow> e | _ \<Rightarrow> Call_error [])"

definition put_live :: "live_node \<Rightarrow> runtime \<Rightarrow> runtime" where
  "put_live live rt = rt\<lparr>rt_nodes := AList.update (ln_id live) live (rt_nodes rt)\<rparr>"

definition configure_new_node ::
  "env \<Rightarrow> node_def \<Rightarrow> live_node \<Rightarrow> runtime \<Rightarrow> runtime \<times> (graph_error + unit)" where
  "configure_new_node ev n live rt =
     (case df_config n of
        None \<Rightarrow> (rt, Inr ())
      | Some cfg \<Rightarrow>
          (case resolve_node_config ev (df_id n) cfg rt of
             (rt1, Inl e) \<Rightarrow> (rt1, Inl e)
           | (rt1, Inr resolved) \<Rightarrow>
               (case apply_config ev (ln_instance live) resolved (df_id n) rt1 of
                  (rt2, Inl e) \<Rightarrow> (rt2, Inl e)
                | (rt2, Inr cleaned) \<Rightarrow>
                    (put_live (live\<lparr>ln_config := Some cleaned\<rparr>) rt2, Inr ()))))"

definition register_instance :: "env \<Rightarrow> node_def \<Rightarrow> nat \<Rightarrow> runtime \<Rightarrow> runtime \<times> live_node" where
  "register_instance ev n inst rt =
     (let live = \<lparr>ln_id = df_id n, ln_template = df_template n, ln_instance = inst,
                  ln_config = df_config n\<rparr>;
          rt1 = put_live live rt;
          (rt2, _) = ask ev (Init_instance inst (df_id n)) rt1
      in (rt2\<lparr>rt_handlers := AList.update (df_id n) inst (rt_handlers rt2)\<rparr>, live))"

definition allocate_instance :: "runtime \<Rightarrow> runtime \<times> nat" where
  "allocate_instance rt =
     (rt\<lparr>rt_next_instance := Suc (rt_next_instance rt),
         rt_instances := AList.update (rt_next_instance rt) new_node (rt_instances rt)\<rparr>,
      rt_next_instance rt)"

definition register_ports ::
  "env \<Rightarrow> node_def \<Rightarrow> nat \<Rightarrow> runtime \<Rightarrow> runtime \<times> (graph_error + unit)" where
  "register_ports ev n cls rt =
     (case ev_ports ev cls of
        None \<Rightarrow> (rt, Inr ())
      | Some cfg \<Rightarrow>
          (let rt1 = rt\<lparr>rt_ports := register_template_ports (df_template n) cfg (rt_ports rt)\<rparr>
           in case validate_template_instance (df_template n) (ev_has_method ev (df_template n))
                     (rt_ports rt1) of
                Inl (handle, m) \<Rightarrow> (rt1, Inl (Call_error m))
              | Inr _ \<Rightarrow> (rt1, Inr ())))"

definition instantiate_body ::
  "env \<Rightarrow> node_def \<Rightarrow> runtime \<Rightarrow> runtime \<times> (graph_error + unit)" where
  "instantiate_body ev n rt =
     (case get_class (df_template n) (ev_templates ev) of
        None \<Rightarrow> (rt, Inl (Unknown_template (df_template n) (df_id n)))
      | Some cls \<Rightarrow>
     (case ask ev (Create_instance (df_template n) (df_id n)) rt of (rt1, created) \<Rightarrow>
      if throws created then (rt1, Inl (reply_error created))
      else (case allocate_instance rt1 of (rt2, inst) \<Rightarrow>
     (case register_ports ev n cls rt2 of
        (rt3, Inl e) \<Rightarrow> (rt3, Inl e)
      | (rt3, Inr _) \<Rightarrow>
     (case register_instance ev n inst rt3 of (rt4, live) \<Rightarrow>
     (case configure_new_node ev n live rt4 of
        (rt5, Inl e) \<Rightarrow> (rt5, Inl e)
      | (rt5, Inr _) \<Rightarrow>
     (case ask ev (Set_state inst (case df_state n of None \<Rightarrow> [] | Some s \<Rightarrow> s)) rt5 of (rt6, r) \<Rightarrow>
      if throws r then (rt6, Inl (reply_error r)) else (rt6, Inr ()))))))))"

definition instantiate_node :: "env \<Rightarrow> node_def \<Rightarrow> runtime \<Rightarrow> runtime \<times> (graph_error + unit)" where
  "instantiate_node ev n rt =
     (case instantiate_body ev n rt of
        (rt', Inl e) \<Rightarrow> (rt', Inl (enrich (df_id n) e))
      | (rt', Inr u) \<Rightarrow> (rt', Inr u))"

section \<open>Executed edges\<close>

definition keys_of :: "(string \<times> string list) list \<Rightarrow> string \<Rightarrow> string list" where
  "keys_of index n = (case map_of index n of None \<Rightarrow> [] | Some ks \<Rightarrow> ks)"

text \<open>\<open>if (!index.has(n)) index.set(n, new Set()); index.get(n)!.add(key)\<close>\<close>

definition index_add :: "string \<Rightarrow> string \<Rightarrow> (string \<times> string list) list \<Rightarrow> (string \<times> string list) list" where
  "index_add n key index = AList.update n (set_add key (keys_of index n)) index"

text \<open>\<open>index.get(n)?.delete(key)\<close>\<close>

definition index_remove ::
  "string \<Rightarrow> string \<Rightarrow> (string \<times> string list) list \<Rightarrow> (string \<times> string list) list" where
  "index_remove n key index =
     (case map_of index n of
        None \<Rightarrow> index
      | Some ks \<Rightarrow> AList.update n (filter (\<lambda>k. k \<noteq> key) ks) index)"

definition register_edge_record :: "edge_record \<Rightarrow> runtime \<Rightarrow> runtime" where
  "register_edge_record r rt =
     rt\<lparr>rt_edges := AList.update (er_key r) r (rt_edges rt),
        rt_outbound := index_add (er_source r) (er_key r) (rt_outbound rt),
        rt_inbound := index_add (er_target r) (er_key r) (rt_inbound rt)\<rparr>"

definition unregister_edge_record :: "edge_record \<Rightarrow> runtime \<Rightarrow> runtime" where
  "unregister_edge_record r rt =
     rt\<lparr>rt_edges := AList.delete (er_key r) (rt_edges rt),
        rt_outbound := index_remove (er_source r) (er_key r) (rt_outbound rt),
        rt_inbound := index_remove (er_target r) (er_key r) (rt_inbound rt)\<rparr>"

text \<open>\<open>getMethod\<close>: an empty name and a member that is not a function give nothing.\<close>

definition get_method :: "env \<Rightarrow> string \<Rightarrow> string option \<Rightarrow> string option" where
  "get_method ev template name =
     (case name of
        None \<Rightarrow> None
      | Some m \<Rightarrow> if m \<noteq> [] \<and> ev_has_method ev template m then Some m else None)"

definition call_if_present ::
  "env \<Rightarrow> nat \<Rightarrow> string option \<Rightarrow> nat option \<Rightarrow> runtime \<Rightarrow> runtime \<times> (graph_error + unit)" where
  "call_if_present ev inst m arg rt =
     (case m of
        None \<Rightarrow> (rt, Inr ())
      | Some name \<Rightarrow>
          (case ask ev (Call_method inst name arg) rt of (rt1, r) \<Rightarrow>
           if throws r then (rt1, Inl (reply_error r)) else (rt1, Inr ())))"

definition run_reversal :: "env \<Rightarrow> reversal \<Rightarrow> runtime \<Rightarrow> runtime \<times> (graph_error + unit)" where
  "run_reversal ev rv rt =
     (case get_method ev (rv_template rv) (rv_destroy rv) of
        Some d \<Rightarrow> call_if_present ev (rv_instance rv) (Some d) (Some (rv_argument rv)) rt
      | None \<Rightarrow>
          call_if_present ev (rv_instance rv) (get_method ev (rv_template rv) (Some (rv_create rv)))
            None rt)"

definition try_reverse_and_unregister ::
  "env \<Rightarrow> edge_record \<Rightarrow> runtime \<Rightarrow> runtime \<times> (graph_error + unit)" where
  "try_reverse_and_unregister ev r rt =
     (case (if er_reversible r then er_reversal r else None) of
        None \<Rightarrow> (unregister_edge_record r rt, Inr ())
      | Some rv \<Rightarrow>
          (case run_reversal ev rv rt of
             (rt1, Inl e) \<Rightarrow> (rt1, Inl e)
           | (rt1, Inr _) \<Rightarrow> (unregister_edge_record r rt1, Inr ())))"

definition execute_edge :: "env \<Rightarrow> edge_def \<Rightarrow> runtime \<Rightarrow> runtime \<times> (graph_error + unit)" where
  "execute_edge ev e rt =
     (case (map_of (rt_nodes rt) (ed_source e), map_of (rt_nodes rt) (ed_target e)) of
        (Some source_live, Some target_live) \<Rightarrow>
          (case resolve_edge (rt_ports rt) e (ln_template source_live) (ln_template target_live) of
             Inl pe \<Rightarrow> (rt, Inl (Port_resolution_error pe))
           | Inr resolved \<Rightarrow>
               (let method_side = (if re_callable_side resolved = Source then source_live else target_live);
                    instance_side = (if re_callable_side resolved = Source then target_live else source_live)
                in case rp_config (re_method resolved) of
                     Instance_port \<Rightarrow> (rt, Inr ())
                   | Method_port create destroy \<Rightarrow>
                       (case call_if_present ev (ln_instance method_side)
                               (get_method ev (ln_template method_side) (Some create))
                               (Some (ln_instance instance_side)) rt of
                          (rt1, Inl err) \<Rightarrow> (rt1, Inl err)
                        | (rt1, Inr _) \<Rightarrow>
                            (register_edge_record
                               \<lparr>er_key = edge_key e, er_source = ed_source e, er_target = ed_target e,
                                er_source_handle = ed_source_handle e,
                                er_target_handle = ed_target_handle e, er_reversible = True,
                                er_reversal = Some \<lparr>rv_instance = ln_instance method_side,
                                  rv_template = ln_template method_side, rv_create = create,
                                  rv_destroy = destroy, rv_argument = ln_instance instance_side\<rparr>\<rparr> rt1,
                             Inr ()))))
      | _ \<Rightarrow> (rt, Inr ()))"

section \<open>Disposing of a node\<close>

definition put_instance :: "nat \<Rightarrow> node \<Rightarrow> runtime \<Rightarrow> runtime" where
  "put_instance inst n rt = rt\<lparr>rt_instances := AList.update inst n (rt_instances rt)\<rparr>"

text \<open>\<open>await instance.deprovision()\<close>: the hook is called when no guard returns early.\<close>

definition deprovision_instance :: "env \<Rightarrow> nat \<Rightarrow> runtime \<Rightarrow> runtime" where
  "deprovision_instance ev inst rt =
     (case Option.bind (map_of (rt_instances rt) inst) deprovision_start of
        None \<Rightarrow> rt
      | Some n \<Rightarrow>
          (case ask ev (Deprovision_hook inst) (put_instance inst n rt) of (rt1, r) \<Rightarrow>
           put_instance inst (deprovision_finish (\<not> throws r) n) rt1))"

definition provision_instance :: "env \<Rightarrow> nat \<Rightarrow> runtime \<Rightarrow> runtime" where
  "provision_instance ev inst rt =
     (case Option.bind (map_of (rt_instances rt) inst) provision_start of
        None \<Rightarrow> rt
      | Some n \<Rightarrow>
          (case ask ev (Provision_hook inst) (put_instance inst n rt) of (rt1, r) \<Rightarrow>
           put_instance inst (provision_finish (\<not> throws r) n) rt1))"

text \<open>One key of the loop in \<open>disposeNode\<close> and of the loop over removed edges: a failure is logged.\<close>

definition drop_edge :: "env \<Rightarrow> string \<Rightarrow> runtime \<Rightarrow> runtime" where
  "drop_edge ev key rt =
     (case map_of (rt_edges rt) key of
        None \<Rightarrow> rt
      | Some r \<Rightarrow> fst (try_reverse_and_unregister ev r rt))"

definition node_edge_keys :: "runtime \<Rightarrow> string \<Rightarrow> string list" where
  "node_edge_keys rt n = set_add_all (keys_of (rt_inbound rt) n @ keys_of (rt_outbound rt) n) []"

definition dispose_node :: "env \<Rightarrow> string \<Rightarrow> runtime \<Rightarrow> runtime" where
  "dispose_node ev n rt =
     (case map_of (rt_nodes rt) n of
        None \<Rightarrow> rt
      | Some live \<Rightarrow>
          (let rt1 = rt\<lparr>rt_handlers := AList.delete n (rt_handlers rt)\<rparr>;
               rt2 = fold (drop_edge ev) (node_edge_keys rt1 n) rt1;
               rt3 = deprovision_instance ev (ln_instance live) rt2
           in rt3\<lparr>rt_nodes := AList.delete n (rt_nodes rt3),
                  rt_inbound := AList.delete n (rt_inbound rt3),
                  rt_outbound := AList.delete n (rt_outbound rt3)\<rparr>))"

section \<open>Applying a graph\<close>

record diff_result =
  dr_added_nodes :: "string list"
  dr_removed_nodes :: "string list"
  dr_recreated_nodes :: "string list"
  dr_updated_config :: "string list"
  dr_added_edges :: "string list"
  dr_removed_edges :: "string list"
  dr_version :: nat

definition recreate_node ::
  "env \<Rightarrow> graph_def \<Rightarrow> runtime \<Rightarrow> string \<Rightarrow> runtime \<times> (graph_error + unit)" where
  "recreate_node ev nxt rt n =
     (let rt1 = dispose_node ev n rt
      in case find (\<lambda>d. df_id d = n) (g_nodes nxt) of
           None \<Rightarrow> (rt1, Inl (Call_error n))
         | Some d \<Rightarrow> instantiate_node ev d rt1)"

text \<open>A configuration update that fails is logged and leaves \<open>live.config\<close> as it was.\<close>

definition update_config :: "env \<Rightarrow> graph_def \<Rightarrow> string \<Rightarrow> runtime \<Rightarrow> runtime" where
  "update_config ev nxt n rt =
     (case (find (\<lambda>d. df_id d = n) (g_nodes nxt), map_of (rt_nodes rt) n) of
        (Some d, Some live) \<Rightarrow>
          (case resolve_node_config ev n (config_or_empty d) rt of
             (rt1, Inl e) \<Rightarrow> rt1
           | (rt1, Inr resolved) \<Rightarrow>
               (case apply_config ev (ln_instance live) resolved n rt1 of
                  (rt2, Inl e) \<Rightarrow> rt2
                | (rt2, Inr cleaned) \<Rightarrow> put_live (live\<lparr>ln_config := Some cleaned\<rparr>) rt2))
      | _ \<Rightarrow> rt)"

definition provision_all :: "env \<Rightarrow> runtime \<Rightarrow> runtime" where
  "provision_all ev rt = fold (\<lambda>(_, live). provision_instance ev (ln_instance live)) (rt_nodes rt) rt"

definition apply_graph_internal ::
  "env \<Rightarrow> graph_def \<Rightarrow> runtime \<Rightarrow> runtime \<times> (graph_error + diff_result)" where
  "apply_graph_internal ev nxt rt =
     (let prev = (case rt_last_graph rt of None \<Rightarrow> \<lparr>g_nodes = [], g_edges = []\<rparr> | Some g \<Rightarrow> g);
          diff = compute_diff prev nxt
      in case for_each (\<lambda>s d. instantiate_node ev d s) rt (gd_added_nodes diff) of
           (rt1, Inl e) \<Rightarrow> (rt1, Inl e)
         | (rt1, Inr _) \<Rightarrow>
         (case for_each (recreate_node ev nxt) rt1 (gd_recreated diff) of
            (rt2, Inl e) \<Rightarrow> (rt2, Inl e)
          | (rt2, Inr _) \<Rightarrow>
          (let rt3 = fold (update_config ev nxt) (gd_config_updates diff) rt2;
               rt4 = fold (\<lambda>e. drop_edge ev (edge_key e)) (gd_removed_edges diff) rt3;
               rt5 = fold (dispose_node ev) (gd_removed diff) rt4;
               rt6 = rt5\<lparr>rt_last_graph := Some nxt\<rparr>
           in case for_each (\<lambda>s e. execute_edge ev e s) rt6 (gd_added_edges diff) of
                (rt7, Inl e) \<Rightarrow> (rt7, Inl e)
              | (rt7, Inr _) \<Rightarrow>
                  (let rt8 = provision_all ev rt7;
                       rt9 = rt8\<lparr>rt_version := rt_version rt8 + 1\<rparr>
                   in (rt9, Inr \<lparr>dr_added_nodes = map df_id (gd_added_nodes diff),
                                dr_removed_nodes = gd_removed diff,
                                dr_recreated_nodes = gd_recreated diff,
                                dr_updated_config = gd_config_updates diff,
                                dr_added_edges = map edge_key (gd_added_edges diff),
                                dr_removed_edges = map edge_key (gd_removed_edges diff),
                                dr_version = rt_version rt9\<rparr>)))))"

text \<open>
  \<open>apply\<close> chains on the promise of the previous application: \<open>then\<close> with one argument runs only
  after success, and a rejected promise passes its reason on.
\<close>

record live_graph =
  lg_runtime :: runtime
  lg_applying :: "graph_error option"

definition apply_graph ::
  "env \<Rightarrow> graph_def \<Rightarrow> live_graph \<Rightarrow> live_graph \<times> (graph_error + diff_result)" where
  "apply_graph ev nxt lg =
     (case lg_applying lg of
        Some e \<Rightarrow> (lg, Inl e)
      | None \<Rightarrow>
          (case apply_graph_internal ev nxt (lg_runtime lg) of
             (rt, Inl e) \<Rightarrow> (\<lparr>lg_runtime = rt, lg_applying = Some e\<rparr>, Inl e)
           | (rt, Inr res) \<Rightarrow> (\<lparr>lg_runtime = rt, lg_applying = None\<rparr>, Inr res)))"

section \<open>Queries and single-node operations\<close>

definition get_outbound_node_ids :: "string \<Rightarrow> runtime \<Rightarrow> string list" where
  "get_outbound_node_ids n rt =
     (case map_of (rt_outbound rt) n of
        None \<Rightarrow> []
      | Some ks \<Rightarrow>
          sort (set_add_all (map er_target (List.map_filter (map_of (rt_edges rt)) ks)) []))"

definition update_first_node :: "string \<Rightarrow> (node_def \<Rightarrow> node_def) \<Rightarrow> graph_def \<Rightarrow> graph_def" where
  "update_first_node n f g =
     (case find_index_of (\<lambda>d. df_id d = n) (g_nodes g) of
        None \<Rightarrow> g
      | Some i \<Rightarrow> g\<lparr>g_nodes := (g_nodes g)[i := f (g_nodes g ! i)]\<rparr>)"

definition update_node_config :: "string \<Rightarrow> (string \<times> json) list \<Rightarrow> runtime \<Rightarrow> runtime" where
  "update_node_config n cfg rt =
     (let rt1 = (case map_of (rt_nodes rt) n of
                   None \<Rightarrow> rt
                 | Some live \<Rightarrow> put_live (live\<lparr>ln_config := Some cfg\<rparr>) rt)
      in rt1\<lparr>rt_last_graph :=
               map_option (update_first_node n (\<lambda>d. d\<lparr>df_config := Some cfg\<rparr>)) (rt_last_graph rt1)\<rparr>)"

definition update_node_state :: "string \<Rightarrow> (string \<times> json) list \<Rightarrow> runtime \<Rightarrow> runtime" where
  "update_node_state n st rt =
     rt\<lparr>rt_last_graph :=
          map_option (update_first_node n (\<lambda>d. d\<lparr>df_state := Some st\<rparr>)) (rt_last_graph rt)\<rparr>"

definition get_node_state_snapshot :: "string \<Rightarrow> runtime \<Rightarrow> (string \<times> json) list option" where
  "get_node_state_snapshot n rt =
     (case rt_last_graph rt of
        None \<Rightarrow> None
      | Some g \<Rightarrow> Option.bind (find (\<lambda>d. df_id d = n) (g_nodes g)) df_state)"

definition get_node_status :: "string \<Rightarrow> runtime \<Rightarrow> node_status option" where
  "get_node_status n rt =
     Option.bind (map_of (rt_nodes rt) n)
       (\<lambda>live. map_option nd_status (map_of (rt_instances rt) (ln_instance live)))"

definition shutdown_node :: "env \<Rightarrow> string \<times> live_node \<Rightarrow> runtime \<Rightarrow> runtime" where
  "shutdown_node ev entry rt =
     (let live = snd entry;
          rt1 = deprovision_instance ev (ln_instance live) rt;
          rt2 = fold (\<lambda>k s. case map_of (rt_edges s) k of
                              None \<Rightarrow> s | Some r \<Rightarrow> unregister_edge_record r s)
                  (node_edge_keys rt1 (ln_id live)) rt1
      in rt2\<lparr>rt_nodes := AList.delete (ln_id live) (rt_nodes rt2),
             rt_inbound := AList.delete (ln_id live) (rt_inbound rt2),
             rt_outbound := AList.delete (ln_id live) (rt_outbound rt2)\<rparr>)"

definition shutdown :: "env \<Rightarrow> runtime \<Rightarrow> runtime" where
  "shutdown ev rt = (fold (shutdown_node ev) (rt_nodes rt) rt)\<lparr>rt_edges := []\<rparr>"

end
