(* ===== verification/LiveGraph_Sync.thy ===== *)
theory LiveGraph_Sync
  imports LiveGraph
begin

text \<open>
  What the live graph runtime guarantees: the bound on configuration retries, the consistency of the
  edge registry with its two indexes, the difference computed between graphs, and that a successful
  application leaves the runtime in step with the graph it applied.
\<close>

section \<open>Configuration retries\<close>

lemma ask_eq: "ask ev c rt = (rt1, r) \<longleftrightarrow> rt1 = rt\<lparr>rt_calls := rt_calls rt @ [c]\<rparr> \<and> r = ev_reply ev (rt_calls rt) c"
  by (auto simp: ask_def)

text \<open>The keys that the replies to a stretch of calls named as unknown.\<close>

definition rejected_keys :: "env \<Rightarrow> ext_call list \<Rightarrow> ext_call list \<Rightarrow> string set" where
  "rejected_keys ev before calls =
     {k. \<exists>i < length calls. \<exists>issues.
           ev_reply ev (before @ take i calls) (calls ! i) = Throws_zod issues
           \<and> k \<in> set (extract_unknown_root_keys issues)}"

lemma rejected_keys_Cons:
  "rejected_keys ev before (c # calls) =
     {k. \<exists>issues. ev_reply ev before c = Throws_zod issues \<and> k \<in> set (extract_unknown_root_keys issues)}
     \<union> rejected_keys ev (before @ [c]) calls"
  (is "?l = ?a \<union> ?b")
proof
  show "?l \<subseteq> ?a \<union> ?b"
  proof
    fix k assume "k \<in> ?l"
    then obtain i issues where i: "i < length (c # calls)"
      "ev_reply ev (before @ take i (c # calls)) ((c # calls) ! i) = Throws_zod issues"
      "k \<in> set (extract_unknown_root_keys issues)"
      by (auto simp: rejected_keys_def)
    then show "k \<in> ?a \<union> ?b" by (cases i) (auto simp: rejected_keys_def)
  qed
next
  show "?a \<union> ?b \<subseteq> ?l"
  proof
    fix k assume "k \<in> ?a \<union> ?b"
    then consider (a) "k \<in> ?a" | (b) "k \<in> ?b" by blast
    then show "k \<in> ?l"
    proof cases
      case a
      then show ?thesis by (auto simp: rejected_keys_def intro!: exI[of _ 0])
    next
      case b
      then obtain i issues where "i < length calls"
        "ev_reply ev (before @ [c] @ take i calls) (calls ! i) = Throws_zod issues"
        "k \<in> set (extract_unknown_root_keys issues)"
        by (auto simp: rejected_keys_def)
      then show ?thesis by (auto simp: rejected_keys_def intro!: exI[of _ "Suc i"])
    qed
  qed
qed

lemma prune_keys_subseq: "subseq (prune_keys obj ks) obj"
  by (simp add: prune_keys_def)

lemma config_loop_cases:
  assumes "config_loop ev inst nid attempt current rt = (rt', res)"
  obtains
    (ok) "\<not> throws (ev_reply ev (rt_calls rt) (Set_config inst current))"
      "rt' = rt\<lparr>rt_calls := rt_calls rt @ [Set_config inst current]\<rparr>" "res = Inr current"
  | (fail) "rt' = rt\<lparr>rt_calls := rt_calls rt @ [Set_config inst current]\<rparr>"
      "res = Inl (Config_apply_error nid)"
  | (retry) issues where
      "ev_reply ev (rt_calls rt) (Set_config inst current) = Throws_zod issues"
      "attempt < max_retries" "extract_unknown_root_keys issues \<noteq> []"
      "config_loop ev inst nid (Suc attempt)
         (prune_keys current (extract_unknown_root_keys issues))
         (rt\<lparr>rt_calls := rt_calls rt @ [Set_config inst current]\<rparr>) = (rt', res)"
  using assms
  by (subst (asm) config_loop.simps)
    (cases "ev_reply ev (rt_calls rt) (Set_config inst current)";
      auto simp: ask_def Let_def throws_def split: if_splits)

text \<open>What a run of the loop leaves behind, with \<open>calls\<close> the setter calls it made.\<close>

definition config_run ::
  "env \<Rightarrow> nat \<Rightarrow> string \<Rightarrow> nat \<Rightarrow> (string \<times> json) list \<Rightarrow> runtime \<Rightarrow> runtime \<Rightarrow>
   graph_error + (string \<times> json) list \<Rightarrow> (string \<times> json) list list \<Rightarrow> bool" where
  "config_run ev inst nid attempts current rt rt' res sent \<longleftrightarrow>
     sent \<noteq> [] \<and> hd sent = current \<and> length sent \<le> attempts
     \<and> rt' = rt\<lparr>rt_calls := rt_calls rt @ map (Set_config inst) sent\<rparr>
     \<and> (\<forall>c \<in> set sent. subseq c current)
     \<and> (case res of
          Inl e \<Rightarrow> e = Config_apply_error nid
        | Inr out \<Rightarrow> out = last sent
            \<and> set current - set out
                \<subseteq> {(k, v). k \<in> rejected_keys ev (rt_calls rt) (map (Set_config inst) sent)})"

lemma config_loop_run:
  assumes "config_loop ev inst nid attempt current rt = (rt', res)" and "attempt \<le> max_retries"
  shows "\<exists>sent. config_run ev inst nid (Suc max_retries - attempt) current rt rt' res sent"
  using assms
proof (induction "max_retries - attempt" arbitrary: attempt current rt)
  case (0 attempt current rt)
  from 0(2) show ?case
  proof (cases rule: config_loop_cases)
    case (retry issues)
    then show ?thesis using 0 by simp
  qed (use 0 in \<open>auto simp: config_run_def intro!: exI[of _ "[current]"]\<close>)
next
  case (Suc n attempt current rt)
  from Suc(3) show ?case
  proof (cases rule: config_loop_cases)
    case (retry issues)
    let ?keys = "extract_unknown_root_keys issues"
    let ?c = "Set_config inst current"
    let ?rt1 = "rt\<lparr>rt_calls := rt_calls rt @ [?c]\<rparr>"
    have "n = max_retries - Suc attempt" using Suc(2) by simp
    then obtain sent where sent: "config_run ev inst nid (Suc max_retries - Suc attempt)
        (prune_keys current ?keys) ?rt1 rt' res sent"
      using Suc(1)[OF _ retry(4)] Suc(2) retry(2) by auto
    have keys: "rejected_keys ev (rt_calls rt) (?c # map (Set_config inst) sent)
        = set ?keys \<union> rejected_keys ev (rt_calls rt @ [?c]) (map (Set_config inst) sent)"
      using retry(1) by (auto simp: rejected_keys_Cons)
    have pruned: "set current - set out \<subseteq> {(k, v). k \<in> set ?keys} \<union> (set (prune_keys current ?keys) - set out)" for out
      by (auto simp: prune_keys_def)
    have parts: "\<forall>c \<in> set (current # sent). subseq c current"
      "rt' = rt\<lparr>rt_calls := rt_calls rt @ map (Set_config inst) (current # sent)\<rparr>"
      "length (current # sent) \<le> Suc max_retries - attempt"
      using sent retry(2) subseq_order.trans[OF _ prune_keys_subseq]
      by (auto simp: config_run_def)
    have "case res of
          Inl e \<Rightarrow> e = Config_apply_error nid
        | Inr out \<Rightarrow> out = last (current # sent)
            \<and> set current - set out
                \<subseteq> {(k, v). k \<in> rejected_keys ev (rt_calls rt) (?c # map (Set_config inst) sent)}"
    proof (cases res)
      case (Inl e)
      then show ?thesis using sent by (simp add: config_run_def)
    next
      case (Inr out)
      then show ?thesis using sent pruned[of out] unfolding keys
        by (auto simp: config_run_def)
    qed
    with parts have "config_run ev inst nid (Suc max_retries - attempt) current rt rt' res (current # sent)"
      by (cases res) (simp_all add: config_run_def)
    then show ?thesis ..
  qed (use Suc in \<open>auto simp: config_run_def intro!: exI[of _ "[current]"]\<close>)
qed

text \<open>
  Configuring a node calls its setter at least once and at most four times, always returns, and
  touches nothing else.  The first call gets the whole configuration and each later one a part of it.
  On success the result is what the setter accepted, and every entry of the original that it lacks
  has a key the setter itself reported as unknown at the top level; any failure is
  \<open>CONFIG_APPLY_ERROR\<close> for the node.
\<close>

theorem config_retry_bound:
  "\<exists>sent. let (rt', res) = apply_config ev inst cfg nid rt in
     1 \<le> length sent \<and> length sent \<le> 4 \<and> hd sent = cfg
     \<and> rt' = rt\<lparr>rt_calls := rt_calls rt @ map (Set_config inst) sent\<rparr>
     \<and> list_all (\<lambda>c. subseq c cfg) sent
     \<and> (case res of
          Inl e \<Rightarrow> e = Config_apply_error nid
        | Inr out \<Rightarrow> out = last sent
            \<and> set cfg - set out
                \<subseteq> {(k, v). k \<in> rejected_keys ev (rt_calls rt) (map (Set_config inst) sent)})"
proof -
  obtain rt' res where r: "apply_config ev inst cfg nid rt = (rt', res)"
    by (cases "apply_config ev inst cfg nid rt")
  then have "config_loop ev inst nid 0 cfg rt = (rt', res)" by (simp add: apply_config_def)
  from config_loop_run[OF this] obtain sent where
    sent: "config_run ev inst nid (Suc max_retries) cfg rt rt' res sent" by auto
  then have "1 \<le> length sent" by (cases sent) (auto simp: config_run_def)
  with sent show ?thesis
    unfolding r config_run_def by (intro exI[of _ sent]) (simp add: max_retries_def list_all_iff)
qed

section \<open>Frames: what the operations leave alone\<close>

text \<open>The identifiers and templates of the live nodes, and the part of the state that is about edges.\<close>

definition live_view :: "runtime \<Rightarrow> string \<Rightarrow> (string \<times> string) option" where
  "live_view rt n = map_option (\<lambda>l. (ln_id l, ln_template l)) (map_of (rt_nodes rt) n)"

definition edge_view ::
  "runtime \<Rightarrow> (string \<times> edge_record) list \<times> (string \<times> string list) list \<times> (string \<times> string list) list
     \<times> graph_def option \<times> nat" where
  "edge_view rt = (rt_edges rt, rt_outbound rt, rt_inbound rt, rt_last_graph rt, rt_version rt)"

abbreviation same_view :: "runtime \<Rightarrow> runtime \<Rightarrow> bool" where
  "same_view rt rt' \<equiv> live_view rt' = live_view rt \<and> edge_view rt' = edge_view rt"

lemma view_updates [simp]:
  "live_view (rt\<lparr>rt_calls := cs\<rparr>) = live_view rt" "edge_view (rt\<lparr>rt_calls := cs\<rparr>) = edge_view rt"
  "live_view (rt\<lparr>rt_handlers := hs\<rparr>) = live_view rt" "edge_view (rt\<lparr>rt_handlers := hs\<rparr>) = edge_view rt"
  "live_view (put_instance i n rt) = live_view rt" "edge_view (put_instance i n rt) = edge_view rt"
  "live_view (rt\<lparr>rt_ports := ps\<rparr>) = live_view rt" "edge_view (rt\<lparr>rt_ports := ps\<rparr>) = edge_view rt"
  "live_view (rt\<lparr>rt_last_graph := g\<rparr>) = live_view rt"
  "live_view (rt\<lparr>rt_version := v\<rparr>) = live_view rt"
  "edge_view (put_live l rt) = edge_view rt"
  by (simp_all add: live_view_def edge_view_def put_instance_def put_live_def fun_eq_iff)

lemma live_view_put_live:
  "live_view (put_live l rt) n =
     (if n = ln_id l then Some (ln_id l, ln_template l) else live_view rt n)"
  by (simp add: live_view_def put_live_def map_laws)

lemma apply_config_calls:
  "apply_config ev inst cfg nid rt = (rt', res) \<Longrightarrow> \<exists>cs. rt' = rt\<lparr>rt_calls := cs\<rparr>"
  using config_loop_run[of ev inst nid 0 cfg rt rt' res]
  by (auto simp: apply_config_def config_run_def)

lemma resolve_node_config_calls:
  "resolve_node_config ev nid cfg rt = (rt', res) \<Longrightarrow> \<exists>cs. rt' = rt\<lparr>rt_calls := cs\<rparr>"
  by (auto simp: resolve_node_config_def ask_def split: reply.splits)

lemma configure_new_node_view:
  assumes "configure_new_node ev n live rt = (rt', res)"
    and "live_view rt (ln_id live) = Some (ln_id live, ln_template live)"
  shows "same_view rt rt'"
proof -
  have put: "same_view rt (put_live (live\<lparr>ln_config := c\<rparr>) (rt\<lparr>rt_calls := cs\<rparr>))" for c cs
    using assms(2) by (auto simp: live_view_put_live fun_eq_iff)
  show ?thesis
    using assms(1) put
    by (auto simp: configure_new_node_def split: option.splits prod.splits sum.splits
        dest!: apply_config_calls resolve_node_config_calls)
qed

lemma register_ports_view: "register_ports ev n cls rt = (rt', res) \<Longrightarrow> same_view rt rt'"
  by (auto simp: register_ports_def Let_def split: option.splits sum.splits)

lemma allocate_instance_view: "allocate_instance rt = (rt', i) \<Longrightarrow> same_view rt rt'"
  by (auto simp: allocate_instance_def live_view_def edge_view_def fun_eq_iff)

lemma register_instance_view:
  assumes "register_instance ev n inst rt = (rt', live)"
  shows "edge_view rt' = edge_view rt"
    and "live_view rt' = (live_view rt)(df_id n \<mapsto> (df_id n, df_template n))"
    and "ln_id live = df_id n" "ln_template live = df_template n" "ln_instance live = inst"
  using assms by (auto simp: register_instance_def ask_def Let_def live_view_put_live fun_eq_iff)

lemma register_configure_view:
  assumes "register_instance ev n inst rt = (rt1, live)"
    and "configure_new_node ev n live rt1 = (rt2, res)"
  shows "edge_view rt2 = edge_view rt
    \<and> live_view rt2 = (live_view rt)(df_id n \<mapsto> (df_id n, df_template n))"
proof -
  note r = register_instance_view[OF assms(1)]
  have "same_view rt1 rt2" using configure_new_node_view[OF assms(2)] r by simp
  with r show ?thesis by simp
qed

text \<open>
  A failed instantiation leaves either nothing or the half-configured node behind; a successful one
  adds the node.
\<close>

lemma instantiate_body_view:
  assumes "instantiate_body ev n rt = (rt', res)"
  shows "edge_view rt' = edge_view rt \<and>
      (live_view rt' = live_view rt \<and> res \<noteq> Inr ()
       \<or> live_view rt' = (live_view rt)(df_id n \<mapsto> (df_id n, df_template n)))"
proof (cases "get_class (df_template n) (ev_templates ev)")
  case None
  then show ?thesis using assms by (auto simp: instantiate_body_def)
next
  case (Some cls)
  let ?c = "Create_instance (df_template n) (df_id n)"
  let ?rt1 = "rt\<lparr>rt_calls := rt_calls rt @ [?c]\<rparr>"
  have ask: "ask ev ?c rt = (?rt1, ev_reply ev (rt_calls rt) ?c)" by (simp add: ask_def)
  show ?thesis
  proof (cases "throws (ev_reply ev (rt_calls rt) ?c)")
    case True
    then show ?thesis using assms Some by (auto simp: instantiate_body_def ask)
  next
    case False
    obtain rt2 inst where a: "allocate_instance ?rt1 = (rt2, inst)" by (cases "allocate_instance ?rt1")
    obtain rt3 r3 where p: "register_ports ev n cls rt2 = (rt3, r3)" by (cases "register_ports ev n cls rt2")
    have v3: "same_view rt rt3"
      using allocate_instance_view[OF a] register_ports_view[OF p] by simp
    obtain rt4 live where r: "register_instance ev n inst rt3 = (rt4, live)"
      by (cases "register_instance ev n inst rt3")
    obtain rt5 r5 where c: "configure_new_node ev n live rt4 = (rt5, r5)"
      by (cases "configure_new_node ev n live rt4")
    note v5 = register_configure_view[OF r c]
    show ?thesis using assms Some False v3 v5
      by (auto simp: instantiate_body_def ask a p r c ask_eq split: sum.splits prod.splits if_splits)
  qed
qed

lemma instantiate_node_view:
  assumes "instantiate_node ev n rt = (rt', res)"
  shows "edge_view rt' = edge_view rt"
    and "res = Inr () \<Longrightarrow> live_view rt' = (live_view rt)(df_id n \<mapsto> (df_id n, df_template n))"
  using assms instantiate_body_view[of ev n rt]
  by (fastforce simp: instantiate_node_def split: prod.splits sum.splits)+

lemma update_config_view:
  assumes "\<And>n l. live_view rt n = Some l \<Longrightarrow> fst l = n"
  shows "same_view rt (update_config ev g n rt)"
proof -
  have put: "same_view rt (put_live (live\<lparr>ln_config := c\<rparr>) (rt\<lparr>rt_calls := cs\<rparr>))"
    if "map_of (rt_nodes rt) n = Some live" for live c cs
  proof -
    have "ln_id live = n" using assms[of n] that by (simp add: live_view_def)
    moreover have "live_view rt n = Some (ln_id live, ln_template live)"
      using that by (simp add: live_view_def)
    ultimately show ?thesis by (auto simp: live_view_put_live fun_eq_iff)
  qed
  show ?thesis
    using put
    by (auto simp: update_config_def split: option.splits prod.splits sum.splits
        dest!: apply_config_calls resolve_node_config_calls)
qed

lemma provision_all_view: "same_view rt (provision_all ev rt)"
proof -
  have one: "same_view r (provision_instance ev i r)" for i r
    by (auto simp: provision_instance_def ask_def split: option.splits)
  have "same_view r (fold (\<lambda>(_, live). provision_instance ev (ln_instance live)) ls r)" for ls r
    by (induction ls arbitrary: r) (auto simp: one)
  then show ?thesis by (simp add: provision_all_def)
qed

lemma deprovision_instance_view: "same_view rt (deprovision_instance ev i rt)"
  by (auto simp: deprovision_instance_def ask_def split: option.splits)

section \<open>Edge keys\<close>

text \<open>
  Keys of different edges can coincide when identifiers contain the separators; node identifiers are
  UUIDs and handles are identifiers, for which the key determines the edge.
\<close>

definition key_safe :: "edge_def \<Rightarrow> bool" where
  "key_safe e \<longleftrightarrow> CHR '':'' \<notin> set (ed_source e) \<and> CHR ''>'' \<notin> set (ed_source_handle e)
     \<and> CHR '':'' \<notin> set (ed_target e)"

lemma split_at_char:
  assumes "c \<notin> set xs" "c \<notin> set xs'" "xs @ c # ys = xs' @ c # ys'"
  shows "xs = xs' \<and> ys = ys'"
  using assms
proof (induction xs arbitrary: xs')
  case Nil
  then show ?case by (cases xs') auto
next
  case (Cons x xs)
  then show ?case by (cases xs') auto
qed

lemma edge_key_inj:
  assumes "key_safe e" "key_safe e'" "edge_key e = edge_key e'"
  shows "e = e'"
proof -
  have k: "edge_key e = ed_source e @ CHR '':'' # ((ed_source_handle e @ ''-'') @ CHR ''>'' #
      (ed_target e @ CHR '':'' # ed_target_handle e))" for e :: edge_def
    by (simp add: edge_key_def)
  have 1: "ed_source e = ed_source e'"
    "(ed_source_handle e @ ''-'') @ CHR ''>'' # (ed_target e @ CHR '':'' # ed_target_handle e)
     = (ed_source_handle e' @ ''-'') @ CHR ''>'' # (ed_target e' @ CHR '':'' # ed_target_handle e')"
    using split_at_char[OF _ _ assms(3)[unfolded k]] assms(1,2) by (auto simp: key_safe_def)
  have 2: "ed_source_handle e @ ''-'' = ed_source_handle e' @ ''-''"
    "ed_target e @ CHR '':'' # ed_target_handle e = ed_target e' @ CHR '':'' # ed_target_handle e'"
    using split_at_char[OF _ _ 1(2)] assms(1,2) by (auto simp: key_safe_def)
  have 3: "ed_target e = ed_target e'" "ed_target_handle e = ed_target_handle e'"
    using split_at_char[OF _ _ 2(2)] assms(1,2) by (auto simp: key_safe_def)
  show ?thesis using 1(1) 2(1) 3 by (cases e; cases e') simp
qed

section \<open>The edge registry and its indexes\<close>

definition record_edge :: "edge_record \<Rightarrow> edge_def" where
  "record_edge r = \<lparr>ed_source = er_source r, ed_source_handle = er_source_handle r,
                    ed_target = er_target r, ed_target_handle = er_target_handle r\<rparr>"

text \<open>A record sits under its own key, and an indexed key has a record that ends at the node.\<close>

definition edges_ok :: "runtime \<Rightarrow> bool" where
  "edges_ok rt \<longleftrightarrow>
     (\<forall>k r. map_of (rt_edges rt) k = Some r \<longrightarrow>
        er_key r = k \<and> edge_key (record_edge r) = k \<and> key_safe (record_edge r))
     \<and> (\<forall>n. \<forall>k \<in> set (keys_of (rt_outbound rt) n).
          \<exists>r. map_of (rt_edges rt) k = Some r \<and> er_source r = n)
     \<and> (\<forall>n. \<forall>k \<in> set (keys_of (rt_inbound rt) n).
          \<exists>r. map_of (rt_edges rt) k = Some r \<and> er_target r = n)"

text \<open>Every executed edge is in the index of both its ends.\<close>

definition edges_indexed :: "runtime \<Rightarrow> bool" where
  "edges_indexed rt \<longleftrightarrow>
     (\<forall>k r. map_of (rt_edges rt) k = Some r \<longrightarrow>
        k \<in> set (keys_of (rt_outbound rt) (er_source r)) \<and> k \<in> set (keys_of (rt_inbound rt) (er_target r)))"

lemma edge_view_fields:
  assumes "edge_view rt' = edge_view rt"
  shows "rt_edges rt' = rt_edges rt" "rt_outbound rt' = rt_outbound rt" "rt_inbound rt' = rt_inbound rt"
    "rt_last_graph rt' = rt_last_graph rt" "rt_version rt' = rt_version rt"
  using assms by (simp_all add: edge_view_def)

lemma edges_okI:
  assumes "\<And>k r. map_of (rt_edges rt) k = Some r \<Longrightarrow>
      er_key r = k \<and> edge_key (record_edge r) = k \<and> key_safe (record_edge r)"
    and "\<And>n k. k \<in> set (keys_of (rt_outbound rt) n) \<Longrightarrow>
      \<exists>r. map_of (rt_edges rt) k = Some r \<and> er_source r = n"
    and "\<And>n k. k \<in> set (keys_of (rt_inbound rt) n) \<Longrightarrow>
      \<exists>r. map_of (rt_edges rt) k = Some r \<and> er_target r = n"
  shows "edges_ok rt"
  using assms unfolding edges_ok_def by blast

lemma edges_okD:
  assumes "edges_ok rt"
  shows "map_of (rt_edges rt) k = Some r \<Longrightarrow>
      er_key r = k \<and> edge_key (record_edge r) = k \<and> key_safe (record_edge r)"
    and "k \<in> set (keys_of (rt_outbound rt) n) \<Longrightarrow>
      \<exists>r. map_of (rt_edges rt) k = Some r \<and> er_source r = n"
    and "k \<in> set (keys_of (rt_inbound rt) n) \<Longrightarrow>
      \<exists>r. map_of (rt_edges rt) k = Some r \<and> er_target r = n"
  using assms unfolding edges_ok_def by blast+

lemma edges_ok_view: "edge_view rt' = edge_view rt \<Longrightarrow> edges_ok rt' = edges_ok rt"
  by (simp add: edges_ok_def edge_view_def)

lemma edges_indexed_view: "edge_view rt' = edge_view rt \<Longrightarrow> edges_indexed rt' = edges_indexed rt"
  by (simp add: edges_indexed_def edge_view_def)

lemma keys_of_update [simp]:
  "keys_of (AList.update n ks index) m = (if m = n then ks else keys_of index m)"
  "keys_of (AList.delete n index) m = (if m = n then [] else keys_of index m)"
  by (simp_all add: keys_of_def map_laws)

lemma set_keys_of_add [simp]:
  "set (keys_of (index_add n k index) m) =
     (if m = n then insert k (set (keys_of index m)) else set (keys_of index m))"
  by (simp add: index_add_def)

lemma keys_of_remove [simp]:
  "keys_of (index_remove n k index) m =
     (if m = n then filter (\<lambda>j. j \<noteq> k) (keys_of index m) else keys_of index m)"
  by (auto simp: index_remove_def keys_of_def map_laws split: option.splits)

lemma register_fields [simp]:
  "rt_edges (register_edge_record r rt) = AList.update (er_key r) r (rt_edges rt)"
  "rt_outbound (register_edge_record r rt) = index_add (er_source r) (er_key r) (rt_outbound rt)"
  "rt_inbound (register_edge_record r rt) = index_add (er_target r) (er_key r) (rt_inbound rt)"
  "live_view (register_edge_record r rt) = live_view rt"
  "rt_last_graph (register_edge_record r rt) = rt_last_graph rt"
  "rt_version (register_edge_record r rt) = rt_version rt"
  by (simp_all add: register_edge_record_def live_view_def fun_eq_iff)

lemma unregister_fields [simp]:
  "rt_edges (unregister_edge_record r rt) = AList.delete (er_key r) (rt_edges rt)"
  "rt_outbound (unregister_edge_record r rt) = index_remove (er_source r) (er_key r) (rt_outbound rt)"
  "rt_inbound (unregister_edge_record r rt) = index_remove (er_target r) (er_key r) (rt_inbound rt)"
  "live_view (unregister_edge_record r rt) = live_view rt"
  "rt_last_graph (unregister_edge_record r rt) = rt_last_graph rt"
  "rt_version (unregister_edge_record r rt) = rt_version rt"
  by (simp_all add: unregister_edge_record_def live_view_def fun_eq_iff)

lemma edges_ok_register:
  assumes "edges_ok rt" "er_key r = edge_key (record_edge r)" "key_safe (record_edge r)"
  shows "edges_ok (register_edge_record r rt)"
proof -
  have same: "er_source r' = er_source r \<and> er_target r' = er_target r"
    if "map_of (rt_edges rt) (er_key r) = Some r'" for r'
  proof -
    have "edge_key (record_edge r') = edge_key (record_edge r)" "key_safe (record_edge r')"
      using assms that by (auto simp: edges_ok_def)
    with assms(3) have "record_edge r' = record_edge r" by (metis edge_key_inj)
    then show ?thesis by (simp add: record_edge_def)
  qed
  show ?thesis
  proof (rule edges_okI)
    fix k r' assume "map_of (rt_edges (register_edge_record r rt)) k = Some r'"
    then show "er_key r' = k \<and> edge_key (record_edge r') = k \<and> key_safe (record_edge r')"
      using assms(2,3) edges_okD(1)[OF assms(1), of k r'] by (auto simp: map_laws split: if_splits)
  next
    fix n k assume "k \<in> set (keys_of (rt_outbound (register_edge_record r rt)) n)"
    then show "\<exists>r'. map_of (rt_edges (register_edge_record r rt)) k = Some r' \<and> er_source r' = n"
      using same edges_okD(2)[OF assms(1), of k n] by (auto simp: map_laws split: if_splits)
  next
    fix n k assume "k \<in> set (keys_of (rt_inbound (register_edge_record r rt)) n)"
    then show "\<exists>r'. map_of (rt_edges (register_edge_record r rt)) k = Some r' \<and> er_target r' = n"
      using same edges_okD(3)[OF assms(1), of k n] by (auto simp: map_laws split: if_splits)
  qed
qed

lemma edges_indexed_register:
  "edges_indexed rt \<Longrightarrow> edges_indexed (register_edge_record r rt)"
  unfolding edges_indexed_def by (simp add: map_laws) (metis option.inject)

lemma edges_ok_unregister:
  assumes "edges_ok rt" "map_of (rt_edges rt) k = Some r"
  shows "edges_ok (unregister_edge_record r rt)"
proof -
  have "er_key r = k" using assms by (simp add: edges_ok_def)
  show ?thesis
  proof (rule edges_okI)
    fix j r' assume "map_of (rt_edges (unregister_edge_record r rt)) j = Some r'"
    then show "er_key r' = j \<and> edge_key (record_edge r') = j \<and> key_safe (record_edge r')"
      using edges_okD(1)[OF assms(1), of j r'] by (auto simp: map_laws split: if_splits)
  next
    fix n j assume "j \<in> set (keys_of (rt_outbound (unregister_edge_record r rt)) n)"
    then show "\<exists>r'. map_of (rt_edges (unregister_edge_record r rt)) j = Some r' \<and> er_source r' = n"
      using assms(2) \<open>er_key r = k\<close> edges_okD(2)[OF assms(1), of j n]
      by (auto simp: map_laws split: if_splits)
  next
    fix n j assume "j \<in> set (keys_of (rt_inbound (unregister_edge_record r rt)) n)"
    then show "\<exists>r'. map_of (rt_edges (unregister_edge_record r rt)) j = Some r' \<and> er_target r' = n"
      using assms(2) \<open>er_key r = k\<close> edges_okD(3)[OF assms(1), of j n]
      by (auto simp: map_laws split: if_splits)
  qed
qed

lemma edges_indexed_unregister:
  assumes "edges_indexed rt"
  shows "edges_indexed (unregister_edge_record r rt)"
  using assms unfolding edges_indexed_def by (simp add: map_laws) metis

section \<open>Dropping edges\<close>

text \<open>No callback of an edge throws.\<close>

definition methods_ok :: "env \<Rightarrow> bool" where
  "methods_ok ev \<longleftrightarrow> (\<forall>before inst m arg. \<not> throws (ev_reply ev before (Call_method inst m arg)))"

lemma call_if_present_view:
  "call_if_present ev inst m arg rt = (rt', res) \<Longrightarrow>
   same_view rt rt' \<and> (methods_ok ev \<longrightarrow> res = Inr ())"
  by (auto simp: call_if_present_def ask_def methods_ok_def split: option.splits if_splits)

lemma run_reversal_view:
  "run_reversal ev rv rt = (rt', res) \<Longrightarrow> same_view rt rt' \<and> (methods_ok ev \<longrightarrow> res = Inr ())"
  by (auto simp: run_reversal_def split: option.splits dest: call_if_present_view)

lemma unregister_view:
  "edge_view rt' = edge_view rt \<Longrightarrow>
   edge_view (unregister_edge_record r rt') = edge_view (unregister_edge_record r rt)"
  by (simp add: edge_view_def)

lemma try_reverse_view:
  assumes "try_reverse_and_unregister ev r rt = (rt', res)"
  shows "live_view rt' = live_view rt
    \<and> (edge_view rt' = edge_view rt \<and> \<not> methods_ok ev
       \<or> edge_view rt' = edge_view (unregister_edge_record r rt))"
proof (cases "if er_reversible r then er_reversal r else None")
  case None
  then show ?thesis using assms by (auto simp: try_reverse_and_unregister_def)
next
  case (Some rv)
  obtain rt1 res1 where run: "run_reversal ev rv rt = (rt1, res1)" by (cases "run_reversal ev rv rt")
  note v = run_reversal_view[OF run]
  show ?thesis
  proof (cases res1)
    case (Inl e)
    then show ?thesis using assms v by (auto simp: try_reverse_and_unregister_def Some run)
  next
    case (Inr u)
    then have "rt' = unregister_edge_record r rt1"
      using assms by (simp add: try_reverse_and_unregister_def Some run)
    then show ?thesis using v unregister_view[of rt1 rt r] by simp
  qed
qed

text \<open>Either the reversal failed and nothing happened to the registry, or the record is gone.\<close>

lemma drop_edge_None: "map_of (rt_edges rt) k = None \<Longrightarrow> drop_edge ev k rt = rt"
  by (simp add: drop_edge_def)

lemma drop_edge_Some:
  assumes "map_of (rt_edges rt) k = Some r"
  shows "live_view (drop_edge ev k rt) = live_view rt"
    and "edge_view (drop_edge ev k rt) = edge_view rt \<and> \<not> methods_ok ev
       \<or> edge_view (drop_edge ev k rt) = edge_view (unregister_edge_record r rt)"
proof -
  obtain rt' res where t: "try_reverse_and_unregister ev r rt = (rt', res)"
    by (cases "try_reverse_and_unregister ev r rt")
  then have "drop_edge ev k rt = rt'" using assms by (simp add: drop_edge_def)
  with try_reverse_view[OF t] show "live_view (drop_edge ev k rt) = live_view rt"
    and "edge_view (drop_edge ev k rt) = edge_view rt \<and> \<not> methods_ok ev
       \<or> edge_view (drop_edge ev k rt) = edge_view (unregister_edge_record r rt)"
    by simp_all
qed

lemma drop_edge_live: "live_view (drop_edge ev k rt) = live_view rt"
  by (cases "map_of (rt_edges rt) k") (simp_all add: drop_edge_None drop_edge_Some(1))

lemma drop_edge_view:
  "edge_view (drop_edge ev k rt) = edge_view rt
   \<or> (\<exists>r. map_of (rt_edges rt) k = Some r
          \<and> edge_view (drop_edge ev k rt) = edge_view (unregister_edge_record r rt))"
proof (cases "map_of (rt_edges rt) k")
  case None
  then show ?thesis by (simp add: drop_edge_None)
next
  case (Some r)
  then show ?thesis using drop_edge_Some(2)[OF Some, of ev] by auto
qed

lemma drop_edge_ok: "edges_ok rt \<Longrightarrow> edges_ok (drop_edge ev k rt)"
  using drop_edge_view[of ev k rt] edges_ok_view edges_ok_unregister by metis

lemma drop_edge_indexed: "edges_indexed rt \<Longrightarrow> edges_indexed (drop_edge ev k rt)"
  using drop_edge_view[of ev k rt] edges_indexed_view edges_indexed_unregister by metis

lemma drop_edge_lookup:
  assumes "edges_ok rt" "methods_ok ev"
  shows "map_of (rt_edges (drop_edge ev k rt)) j = (if j = k then None else map_of (rt_edges rt) j)"
proof (cases "map_of (rt_edges rt) k")
  case None
  then have "rt_edges (drop_edge ev k rt) = rt_edges rt"
    by (simp add: drop_edge_None)
  with None show ?thesis by simp
next
  case (Some r)
  then have "rt_edges (drop_edge ev k rt) = AList.delete k (rt_edges rt)"
    using drop_edge_Some(2)[OF Some, of ev] assms(2) edges_okD(1)[OF assms(1) Some]
    by (simp add: edge_view_def)
  then show ?thesis by (simp add: map_laws)
qed

lemma drop_edge_graph:
  "rt_last_graph (drop_edge ev k rt) = rt_last_graph rt" "rt_version (drop_edge ev k rt) = rt_version rt"
  using drop_edge_view[of ev k rt] by (auto simp: edge_view_def)

lemma drop_edges:
  shows "live_view (fold (drop_edge ev) ks rt) = live_view rt"
    and "rt_last_graph (fold (drop_edge ev) ks rt) = rt_last_graph rt"
    and "rt_version (fold (drop_edge ev) ks rt) = rt_version rt"
    and "edges_ok rt \<Longrightarrow> edges_ok (fold (drop_edge ev) ks rt)"
    and "edges_indexed rt \<Longrightarrow> edges_indexed (fold (drop_edge ev) ks rt)"
  by (induction ks arbitrary: rt)
    (simp_all add: drop_edge_live drop_edge_graph drop_edge_ok drop_edge_indexed)

lemma drop_edges_lookup:
  assumes "edges_ok rt" "methods_ok ev"
  shows "map_of (rt_edges (fold (drop_edge ev) ks rt)) j =
    (if j \<in> set ks then None else map_of (rt_edges rt) j)"
  using assms(1)
proof (induction ks arbitrary: rt)
  case (Cons k ks)
  then show ?case by (simp add: drop_edge_ok drop_edge_lookup[OF Cons.prems assms(2)])
qed simp

section \<open>Disposing of nodes\<close>

lemma forget_index_ok:
  "edges_ok rt \<Longrightarrow>
   edges_ok (rt\<lparr>rt_nodes := ns, rt_inbound := AList.delete n (rt_inbound rt),
               rt_outbound := AList.delete n (rt_outbound rt)\<rparr>)"
  by (auto simp: edges_ok_def split: if_splits)

lemma dispose_node_eq:
  "dispose_node ev n rt =
     (case map_of (rt_nodes rt) n of
        None \<Rightarrow> rt
      | Some live \<Rightarrow>
          (let rt3 = deprovision_instance ev (ln_instance live)
                 (fold (drop_edge ev) (node_edge_keys rt n)
                    (rt\<lparr>rt_handlers := AList.delete n (rt_handlers rt)\<rparr>))
           in rt3\<lparr>rt_nodes := AList.delete n (rt_nodes rt3),
                  rt_inbound := AList.delete n (rt_inbound rt3),
                  rt_outbound := AList.delete n (rt_outbound rt3)\<rparr>))"
  by (simp add: dispose_node_def node_edge_keys_def Let_def split: option.splits)

lemma dispose_node_live:
  "live_view (dispose_node ev n rt) = (live_view rt)(n := None)"
proof (cases "map_of (rt_nodes rt) n")
  case None
  then show ?thesis by (auto simp: dispose_node_def live_view_def)
next
  case (Some live)
  let ?rt3 = "deprovision_instance ev (ln_instance live)
     (fold (drop_edge ev) (node_edge_keys rt n) (rt\<lparr>rt_handlers := AList.delete n (rt_handlers rt)\<rparr>))"
  have v: "live_view ?rt3 = live_view rt"
    by (simp add: deprovision_instance_view drop_edges)
  have "live_view (?rt3\<lparr>rt_nodes := AList.delete n (rt_nodes ?rt3), rt_inbound := i, rt_outbound := j\<rparr>)
      = (live_view ?rt3)(n := None)" for i j
    by (simp add: live_view_def fun_eq_iff map_laws)
  with Some v show ?thesis by (simp add: dispose_node_eq Let_def)
qed

lemmas deprovision_instance_fields = edge_view_fields[OF conjunct2[OF deprovision_instance_view]]

lemma dispose_node_graph:
  "rt_last_graph (dispose_node ev n rt) = rt_last_graph rt"
  "rt_version (dispose_node ev n rt) = rt_version rt"
  by (auto simp: dispose_node_eq Let_def drop_edges deprovision_instance_fields split: option.splits)

lemma dispose_node_ok: "edges_ok rt \<Longrightarrow> edges_ok (dispose_node ev n rt)"
proof -
  assume ok: "edges_ok rt"
  have h: "edges_ok (rt\<lparr>rt_handlers := hs\<rparr>)" for hs
    using ok edges_ok_view[of "rt\<lparr>rt_handlers := hs\<rparr>" rt] by simp
  have d: "edges_ok (deprovision_instance ev i r) = edges_ok r" for i r
    by (rule edges_ok_view) (simp add: deprovision_instance_view)
  show ?thesis
    by (auto simp: dispose_node_eq Let_def ok d drop_edges(4)[OF h] intro!: forget_index_ok
        split: option.splits)
qed

text \<open>With reversals that succeed, exactly the edges at the node go.\<close>

definition touches :: "string \<Rightarrow> edge_record \<Rightarrow> bool" where
  "touches n r \<longleftrightarrow> er_source r = n \<or> er_target r = n"

lemma node_edge_keys_touching:
  assumes "edges_ok rt" "edges_indexed rt" "map_of (rt_edges rt) k = Some r"
  shows "k \<in> set (node_edge_keys rt n) \<longleftrightarrow> touches n r"
proof
  assume "k \<in> set (node_edge_keys rt n)"
  then show "touches n r"
    using edges_okD(2,3)[OF assms(1), of k n] assms(3) by (auto simp: node_edge_keys_def touches_def)
next
  assume "touches n r"
  then show "k \<in> set (node_edge_keys rt n)"
    using assms(2,3) by (auto simp: node_edge_keys_def touches_def edges_indexed_def)
qed

lemma dispose_node_edges:
  assumes "edges_ok rt" "edges_indexed rt" "methods_ok ev" "map_of (rt_nodes rt) n \<noteq> None"
  shows "map_of (rt_edges (dispose_node ev n rt)) k =
      (case map_of (rt_edges rt) k of
         None \<Rightarrow> None | Some r \<Rightarrow> if touches n r then None else Some r)"
    and "edges_indexed (dispose_node ev n rt)"
proof -
  obtain live where live: "map_of (rt_nodes rt) n = Some live" using assms(4) by blast
  let ?rt1 = "rt\<lparr>rt_handlers := AList.delete n (rt_handlers rt)\<rparr>"
  let ?rt2 = "fold (drop_edge ev) (node_edge_keys rt n) ?rt1"
  let ?rt3 = "deprovision_instance ev (ln_instance live) ?rt2"
  have ok1: "edges_ok ?rt1" using assms(1) edges_ok_view[of ?rt1 rt] by simp
  have ix1: "edges_indexed ?rt1" using assms(2) edges_indexed_view[of ?rt1 rt] by simp
  have v3: "edge_view ?rt3 = edge_view ?rt2" by (simp add: deprovision_instance_view)
  have e3: "map_of (rt_edges ?rt3) k = (if k \<in> set (node_edge_keys rt n) then None else map_of (rt_edges rt) k)"
    for k using drop_edges_lookup[OF ok1 assms(3)] edge_view_fields(1)[OF v3] by simp
  have e4: "map_of (rt_edges ?rt3) k = (case map_of (rt_edges rt) k of
         None \<Rightarrow> None | Some r \<Rightarrow> if touches n r then None else Some r)" for k
    using e3[of k] node_edge_keys_touching[OF assms(1,2), of k _ n]
    by (cases "map_of (rt_edges rt) k") auto
  then show "map_of (rt_edges (dispose_node ev n rt)) k =
      (case map_of (rt_edges rt) k of
         None \<Rightarrow> None | Some r \<Rightarrow> if touches n r then None else Some r)"
    by (simp add: dispose_node_eq live Let_def)
  have "edges_indexed ?rt3"
    using drop_edges(5)[OF ix1, of ev "node_edge_keys rt n"] edges_indexed_view[OF v3] by simp
  moreover have "er_source r \<noteq> n \<and> er_target r \<noteq> n" if "map_of (rt_edges ?rt3) k = Some r" for k r
    using that e4[of k] by (auto simp: touches_def split: option.splits if_splits)
  ultimately show "edges_indexed (dispose_node ev n rt)"
    by (simp add: dispose_node_eq live Let_def edges_indexed_def)
qed

section \<open>Executing edges\<close>

lemma resolved_method: "resolve_edge reg e st tt = Inr r \<Longrightarrow> is_method (rp_config (re_method r))"
  by (auto simp: resolve_edge_def Let_def split: option.splits if_splits)

text \<open>What one execution does to the registry: nothing, or one new record for the edge.\<close>

lemma execute_edge_view:
  assumes "execute_edge ev e rt = (rt', res)"
  shows "live_view rt' = live_view rt"
    and "edge_view rt' = edge_view rt
         \<or> (\<exists>r. record_edge r = e \<and> er_key r = edge_key e
              \<and> edge_view rt' = edge_view (register_edge_record r rt))"
    and "res = Inr () \<Longrightarrow> live_view rt (ed_source e) \<noteq> None \<Longrightarrow> live_view rt (ed_target e) \<noteq> None \<Longrightarrow>
         \<exists>r. record_edge r = e \<and> er_key r = edge_key e
              \<and> edge_view rt' = edge_view (register_edge_record r rt)"
proof -
  let ?s = "map_of (rt_nodes rt) (ed_source e)" and ?t = "map_of (rt_nodes rt) (ed_target e)"
  have "live_view rt' = live_view rt \<and>
      (edge_view rt' = edge_view rt \<and> (res \<noteq> Inr () \<or> ?s = None \<or> ?t = None)
       \<or> (\<exists>r. record_edge r = e \<and> er_key r = edge_key e
              \<and> edge_view rt' = edge_view (register_edge_record r rt)))"
  proof (cases "?s = None \<or> ?t = None")
    case True
    then show ?thesis using assms by (auto simp: execute_edge_def split: option.splits)
  next
    case False
    then obtain s t where st: "?s = Some s" "?t = Some t" by auto
    show ?thesis
    proof (cases "resolve_edge (rt_ports rt) e (ln_template s) (ln_template t)")
      case (Inl pe)
      then show ?thesis using assms by (auto simp: execute_edge_def st)
    next
      case (Inr r)
      obtain create destroy where m: "rp_config (re_method r) = Method_port create destroy"
        using resolved_method[OF Inr] by (auto simp: is_method_def split: port_config.splits)
      define ms where "ms = (if re_callable_side r = Source then s else t)"
      define ins where "ins = (if re_callable_side r = Source then t else s)"
      obtain rt1 res1 where c: "call_if_present ev (ln_instance ms)
          (get_method ev (ln_template ms) (Some create)) (Some (ln_instance ins)) rt = (rt1, res1)"
        by (cases "call_if_present ev (ln_instance ms)
          (get_method ev (ln_template ms) (Some create)) (Some (ln_instance ins)) rt")
      note v = conjunct1[OF call_if_present_view[OF c]]
      show ?thesis
      proof (cases res1)
        case (Inl err)
        then show ?thesis using assms v
          by (auto simp: execute_edge_def st Inr m c[unfolded ms_def ins_def] Let_def)
      next
        case (Inr u)
        let ?r = "\<lparr>er_key = edge_key e, er_source = ed_source e, er_target = ed_target e,
            er_source_handle = ed_source_handle e, er_target_handle = ed_target_handle e,
            er_reversible = True, er_reversal = Some \<lparr>rv_instance = ln_instance ms,
              rv_template = ln_template ms, rv_create = create, rv_destroy = destroy,
              rv_argument = ln_instance ins\<rparr>\<rparr>"
        have "rt' = register_edge_record ?r rt1"
          using assms \<open>resolve_edge _ _ _ _ = Inr r\<close> Inr
          by (simp add: execute_edge_def st m c[unfolded ms_def ins_def] Let_def ms_def ins_def)
        moreover have "record_edge ?r = e" by (cases e) (simp add: record_edge_def)
        moreover have "edge_view (register_edge_record ?r rt1) = edge_view (register_edge_record ?r rt)"
          using v by (simp add: edge_view_def)
        moreover have "er_key ?r = edge_key e" by simp
        ultimately show ?thesis using v by (metis register_fields(4))
      qed
    qed
  qed
  then show "live_view rt' = live_view rt"
    and "edge_view rt' = edge_view rt
         \<or> (\<exists>r. record_edge r = e \<and> er_key r = edge_key e
              \<and> edge_view rt' = edge_view (register_edge_record r rt))"
    and "res = Inr () \<Longrightarrow> live_view rt (ed_source e) \<noteq> None \<Longrightarrow> live_view rt (ed_target e) \<noteq> None \<Longrightarrow>
         \<exists>r. record_edge r = e \<and> er_key r = edge_key e
              \<and> edge_view rt' = edge_view (register_edge_record r rt)"
    by (auto simp: live_view_def)
qed

lemma execute_edge_ok:
  assumes "execute_edge ev e rt = (rt', res)" "key_safe e"
  shows "edges_ok rt \<Longrightarrow> edges_ok rt'" and "edges_indexed rt \<Longrightarrow> edges_indexed rt'"
proof -
  have *: "edge_view rt' = edge_view rt
         \<or> (\<exists>r. record_edge r = e \<and> er_key r = edge_key e
              \<and> edge_view rt' = edge_view (register_edge_record r rt))"
    by (rule execute_edge_view(2)[OF assms(1)])
  show "edges_ok rt \<Longrightarrow> edges_ok rt'"
    using * assms(2) edges_ok_view edges_ok_register by metis
  show "edges_indexed rt \<Longrightarrow> edges_indexed rt'"
    using * edges_indexed_view edges_indexed_register by metis
qed

lemma execute_edge_graph:
  assumes "execute_edge ev e rt = (rt', res)"
  shows "rt_last_graph rt' = rt_last_graph rt" "rt_version rt' = rt_version rt"
  using execute_edge_view(2)[OF assms] by (auto simp: edge_view_def)

lemma execute_edges:
  assumes "for_each (\<lambda>s e. execute_edge ev e s) rt es = (rt', res)" "\<forall>e \<in> set es. key_safe e"
  shows "live_view rt' = live_view rt" "rt_last_graph rt' = rt_last_graph rt"
    "rt_version rt' = rt_version rt"
    "edges_ok rt \<Longrightarrow> edges_ok rt'" "edges_indexed rt \<Longrightarrow> edges_indexed rt'"
proof -
  let ?P = "\<lambda>s. live_view s = live_view rt \<and> rt_last_graph s = rt_last_graph rt
    \<and> rt_version s = rt_version rt \<and> (edges_ok rt \<longrightarrow> edges_ok s) \<and> (edges_indexed rt \<longrightarrow> edges_indexed s)"
  have "?P rt'"
  proof (rule for_each_invariant[where P = ?P, OF _ _ assms(1)])
    fix s e s' r assume "?P s" "e \<in> set es" "execute_edge ev e s = (s', r)"
    then show "?P s'"
      using execute_edge_view(1) execute_edge_graph execute_edge_ok assms(2) by metis
  qed simp
  then show "live_view rt' = live_view rt" "rt_last_graph rt' = rt_last_graph rt"
    "rt_version rt' = rt_version rt"
    "edges_ok rt \<Longrightarrow> edges_ok rt'" "edges_indexed rt \<Longrightarrow> edges_indexed rt'"
    by blast+
qed

lemma execute_edges_dom:
  assumes "for_each (\<lambda>s e. execute_edge ev e s) rt es = (rt', Inr ())"
    and "\<forall>e \<in> set es. live_view rt (ed_source e) \<noteq> None \<and> live_view rt (ed_target e) \<noteq> None"
  shows "dom (map_of (rt_edges rt')) = dom (map_of (rt_edges rt)) \<union> edge_key ` set es"
  using assms
proof (induction es arbitrary: rt)
  case Nil
  then show ?case by simp
next
  case (Cons e es)
  obtain rt1 r1 where x: "execute_edge ev e rt = (rt1, r1)" by (cases "execute_edge ev e rt")
  with Cons.prems(1) have ok: "r1 = Inr ()" "for_each (\<lambda>s e. execute_edge ev e s) rt1 es = (rt', Inr ())"
    by (auto split: sum.splits)
  obtain r where r: "er_key r = edge_key e" "edge_view rt1 = edge_view (register_edge_record r rt)"
    using execute_edge_view(3)[OF x ok(1)] Cons.prems(2) by auto
  have "dom (map_of (rt_edges rt1)) = insert (edge_key e) (dom (map_of (rt_edges rt)))"
    using r by (auto simp: edge_view_def map_laws split: if_splits)
  moreover have "dom (map_of (rt_edges rt')) = dom (map_of (rt_edges rt1)) \<union> edge_key ` set es"
    using Cons.IH[OF ok(2)] Cons.prems(2) execute_edge_view(1)[OF x] by simp
  ultimately show ?case by auto
qed

section \<open>The difference between two graphs\<close>

lemma diff_added:
  "n \<in> set (gd_added_nodes (compute_diff prev nxt)) \<longleftrightarrow>
     n \<in> set (g_nodes nxt) \<and> df_id n \<notin> df_id ` set (g_nodes prev)"
proof -
  have "classify_node (index_by df_id (g_nodes prev)) n = Added
      \<longleftrightarrow> map_of (index_by df_id (g_nodes prev)) (df_id n) = None"
    by (auto simp: classify_node_def split: option.splits)
  then show ?thesis by (simp add: compute_diff_def Let_def map_of_index_by_None)
qed

lemma diff_added_distinct:
  "distinct (map df_id (g_nodes nxt)) \<Longrightarrow> distinct (map df_id (gd_added_nodes (compute_diff prev nxt)))"
  by (simp add: compute_diff_def Let_def distinct_map_filter)

lemma diff_removed:
  "set (gd_removed (compute_diff prev nxt)) = df_id ` set (g_nodes prev) - df_id ` set (g_nodes nxt)"
  by (auto simp: compute_diff_def Let_def map_of_index_by_None)

lemma diff_added_edges:
  "edge_key ` set (gd_added_edges (compute_diff prev nxt))
     = edge_key ` set (g_edges nxt) - edge_key ` set (g_edges prev)"
  "set (gd_added_edges (compute_diff prev nxt)) \<subseteq> set (g_edges nxt)"
proof -
  let ?n = "index_by edge_key (g_edges nxt)" and ?p = "index_by edge_key (g_edges prev)"
  have s: "set (gd_added_edges (compute_diff prev nxt)) = snd ` {(k, e) \<in> set ?n. map_of ?p k = None}"
    by (auto simp: compute_diff_def Let_def)
  show sub: "set (gd_added_edges (compute_diff prev nxt)) \<subseteq> set (g_edges nxt)"
    unfolding s using index_by_sound by fastforce
  have "edge_key ` snd ` {p \<in> set ?n. map_of ?p (fst p) = None}
      = {k \<in> edge_key ` set (g_edges nxt). map_of ?p k = None}"
    by (rule index_by_keys_filtered)
  moreover have "{(k, e) \<in> set ?n. map_of ?p k = None} = {p \<in> set ?n. map_of ?p (fst p) = None}"
    by auto
  ultimately show "edge_key ` set (gd_added_edges (compute_diff prev nxt))
     = edge_key ` set (g_edges nxt) - edge_key ` set (g_edges prev)"
    unfolding s by (auto simp: map_of_index_by_None)
qed

lemma diff_removed_edges:
  "edge_key ` set (gd_removed_edges (compute_diff prev nxt))
     = edge_key ` set (g_edges prev) - edge_key ` set (g_edges nxt)"
proof -
  have "gd_removed_edges (compute_diff prev nxt) = gd_added_edges (compute_diff nxt prev)"
    by (simp add: compute_diff_def Let_def)
  then show ?thesis by (simp add: diff_added_edges)
qed

lemma diff_recreated:
  "set (gd_recreated (compute_diff prev nxt)) =
     {df_id d |d. d \<in> set (g_nodes nxt)
        \<and> (\<exists>p. map_of (index_by df_id (g_nodes prev)) (df_id d) = Some p \<and> df_template p \<noteq> df_template d)}"
proof -
  have "classify_node prevs d = Recreated \<longleftrightarrow>
      (\<exists>p. map_of prevs (df_id d) = Some p \<and> df_template p \<noteq> df_template d)" for prevs d
    by (auto simp: classify_node_def split: option.splits if_splits)
  then show ?thesis by (auto simp: compute_diff_def Let_def)
qed

lemma find_by_id:
  "distinct (map df_id ds) \<Longrightarrow> find (\<lambda>d. df_id d = n) ds = map_of (index_by df_id ds) n"
proof -
  assume dist: "distinct (map df_id ds)"
  show ?thesis
  proof (cases "find (\<lambda>d. df_id d = n) ds")
    case None
    then have "n \<notin> df_id ` set ds" by (auto simp: find_None_iff)
    with None show ?thesis by (metis map_of_index_by_None)
  next
    case (Some d)
    then have "d \<in> set ds" "df_id d = n" by (auto simp: find_Some_iff)
    with Some map_of_index_by_distinct[OF dist, of d] show ?thesis by simp
  qed
qed

section \<open>Staying in step with the graph\<close>

text \<open>A graph as the schema validator accepts it: distinct identifiers, no dangling edges.\<close>

definition graph_ok :: "graph_def \<Rightarrow> bool" where
  "graph_ok g \<longleftrightarrow> distinct (map df_id (g_nodes g))
     \<and> (\<forall>e \<in> set (g_edges g). key_safe e \<and> ed_source e \<in> df_id ` set (g_nodes g)
                              \<and> ed_target e \<in> df_id ` set (g_nodes g))"

text \<open>
  The runtime is in step with a graph: the live nodes are the graph's, with its templates, the
  executed edges are the graph's, and the registry and its indexes agree.
\<close>

definition in_sync :: "runtime \<Rightarrow> graph_def \<Rightarrow> bool" where
  "in_sync rt g \<longleftrightarrow>
     (\<forall>n. live_view rt n
          = map_option (\<lambda>d. (n, df_template d)) (map_of (index_by df_id (g_nodes g)) n))
     \<and> dom (map_of (rt_edges rt)) = edge_key ` set (g_edges g)
     \<and> edges_ok rt \<and> edges_indexed rt"

definition applied_graph :: "runtime \<Rightarrow> graph_def" where
  "applied_graph rt = (case rt_last_graph rt of None \<Rightarrow> \<lparr>g_nodes = [], g_edges = []\<rparr> | Some g \<Rightarrow> g)"

lemma instantiate_all_view:
  assumes "for_each (\<lambda>s d. instantiate_node ev d s) rt ds = (rt', Inr ())"
  shows "edge_view rt' = edge_view rt"
    and "live_view rt' n = (case map_of (index_by df_id ds) n of
           None \<Rightarrow> live_view rt n | Some d \<Rightarrow> Some (n, df_template d))"
proof -
  have "edge_view rt' = edge_view rt \<and> (\<forall>n. live_view rt' n = (case map_of (index_by df_id ds) n of
           None \<Rightarrow> live_view rt n | Some d \<Rightarrow> Some (n, df_template d)))"
    using assms
  proof (induction ds arbitrary: rt' rule: rev_induct)
    case Nil
    then show ?case by simp
  next
    case (snoc d ds)
    then obtain rt1 where 1: "for_each (\<lambda>s d. instantiate_node ev d s) rt ds = (rt1, Inr ())"
      and 2: "instantiate_node ev d rt1 = (rt', Inr ())"
      by (auto simp: for_each_append split: prod.splits sum.splits)
    show ?case
      using snoc.IH[OF 1] instantiate_node_view(1)[OF 2] instantiate_node_view(2)[OF 2]
      by (auto simp: index_by_snoc map_laws)
  qed
  then show "edge_view rt' = edge_view rt"
    and "live_view rt' n = (case map_of (index_by df_id ds) n of
           None \<Rightarrow> live_view rt n | Some d \<Rightarrow> Some (n, df_template d))" by blast+
qed

lemma update_configs_view:
  assumes "\<And>n l. live_view rt n = Some l \<Longrightarrow> fst l = n"
  shows "same_view rt (fold (update_config ev g) ns rt)"
  using assms
proof (induction ns arbitrary: rt)
  case (Cons n ns)
  note one = update_config_view[of rt ev g n, OF Cons.prems]
  have "same_view (update_config ev g n rt) (fold (update_config ev g) ns (update_config ev g n rt))"
    by (rule Cons.IH) (use one Cons.prems in simp)
  then show ?case using one by simp
qed simp

lemma dispose_nodes:
  assumes "edges_ok rt" "edges_indexed rt" "methods_ok ev"
    and "\<forall>n \<in> set ns. \<forall>k r. map_of (rt_edges rt) k = Some r \<longrightarrow> \<not> touches n r"
  shows "live_view (fold (dispose_node ev) ns rt) = (\<lambda>n. if n \<in> set ns then None else live_view rt n)"
    and "map_of (rt_edges (fold (dispose_node ev) ns rt)) = map_of (rt_edges rt)"
    and "edges_ok (fold (dispose_node ev) ns rt)" and "edges_indexed (fold (dispose_node ev) ns rt)"
    and "rt_last_graph (fold (dispose_node ev) ns rt) = rt_last_graph rt"
    and "rt_version (fold (dispose_node ev) ns rt) = rt_version rt"
proof -
  have "live_view (fold (dispose_node ev) ns rt) = (\<lambda>n. if n \<in> set ns then None else live_view rt n)
    \<and> map_of (rt_edges (fold (dispose_node ev) ns rt)) = map_of (rt_edges rt)
    \<and> edges_ok (fold (dispose_node ev) ns rt) \<and> edges_indexed (fold (dispose_node ev) ns rt)
    \<and> rt_last_graph (fold (dispose_node ev) ns rt) = rt_last_graph rt
    \<and> rt_version (fold (dispose_node ev) ns rt) = rt_version rt"
    using assms(1,2,4)
  proof (induction ns arbitrary: rt)
    case (Cons n ns)
    let ?rt1 = "dispose_node ev n rt"
    have e1: "map_of (rt_edges ?rt1) = map_of (rt_edges rt)" and i1: "edges_indexed ?rt1"
    proof -
      have "map_of (rt_edges ?rt1) k = map_of (rt_edges rt) k \<and> edges_indexed ?rt1" for k
      proof (cases "map_of (rt_nodes rt) n")
        case None
        then show ?thesis using Cons.prems by (simp add: dispose_node_def)
      next
        case (Some live)
        then show ?thesis
          using dispose_node_edges[OF Cons.prems(1,2) assms(3), of n] Cons.prems(3)
          by (auto split: option.splits)
      qed
      then show "map_of (rt_edges ?rt1) = map_of (rt_edges rt)" "edges_indexed ?rt1" by auto
    qed
    have "edges_ok ?rt1" using Cons.prems(1) by (rule dispose_node_ok)
    from Cons.IH[OF this i1] e1 Cons.prems(3)
    show ?case by (auto simp: dispose_node_live dispose_node_graph fun_eq_iff)
  qed simp
  then show "live_view (fold (dispose_node ev) ns rt) = (\<lambda>n. if n \<in> set ns then None else live_view rt n)"
    and "map_of (rt_edges (fold (dispose_node ev) ns rt)) = map_of (rt_edges rt)"
    and "edges_ok (fold (dispose_node ev) ns rt)" and "edges_indexed (fold (dispose_node ev) ns rt)"
    and "rt_last_graph (fold (dispose_node ev) ns rt) = rt_last_graph rt"
    and "rt_version (fold (dispose_node ev) ns rt) = rt_version rt"
    by blast+
qed

text \<open>Recreating nodes replaces their templates and takes the edges at them down.\<close>

lemma recreate_node_effect:
  assumes "recreate_node ev nxt rt n = (rt', Inr ())"
    and inv: "edges_ok rt" "edges_indexed rt" "methods_ok ev" and "live_view rt n \<noteq> None"
    and "graph_ok nxt"
  shows "live_view rt' = (live_view rt)(n := map_option (\<lambda>d. (n, df_template d)) (map_of (index_by df_id (g_nodes nxt)) n))"
    and "map_of (rt_edges rt') k = (case map_of (rt_edges rt) k of
           None \<Rightarrow> None | Some r \<Rightarrow> if touches n r then None else Some r)"
    and "edges_ok rt'" "edges_indexed rt'"
    and "rt_last_graph rt' = rt_last_graph rt" "rt_version rt' = rt_version rt"
proof -
  let ?rt1 = "dispose_node ev n rt"
  obtain d where d: "find (\<lambda>d. df_id d = n) (g_nodes nxt) = Some d"
    and i: "instantiate_node ev d ?rt1 = (rt', Inr ())"
    using assms(1) by (auto simp: recreate_node_def Let_def split: option.splits)
  have id: "df_id d = n" using d by (auto simp: find_Some_iff)
  have m: "map_of (index_by df_id (g_nodes nxt)) n = Some d"
    using d assms(6) by (simp add: find_by_id graph_ok_def)
  show "live_view rt' = (live_view rt)(n := map_option (\<lambda>d. (n, df_template d)) (map_of (index_by df_id (g_nodes nxt)) n))"
    using instantiate_node_view(2)[OF i] id m by (simp add: dispose_node_live)
  note v = instantiate_node_view(1)[OF i]
  have "map_of (rt_nodes rt) n \<noteq> None" using assms(5) by (simp add: live_view_def)
  note de = dispose_node_edges[OF inv this]
  show "map_of (rt_edges rt') k = (case map_of (rt_edges rt) k of
           None \<Rightarrow> None | Some r \<Rightarrow> if touches n r then None else Some r)"
    using de(1) edge_view_fields(1)[OF v] by simp
  show "edges_ok rt'" using dispose_node_ok[OF inv(1)] edges_ok_view[OF v] by simp
  show "edges_indexed rt'" using de(2) edges_indexed_view[OF v] by simp
  show "rt_last_graph rt' = rt_last_graph rt" "rt_version rt' = rt_version rt"
    using edge_view_fields(4,5)[OF v] by (simp_all add: dispose_node_graph)
qed

lemma recreate_nodes_effect:
  assumes "for_each (recreate_node ev nxt) rt ns = (rt', Inr ())"
    and "edges_ok rt" "edges_indexed rt" "methods_ok ev" "graph_ok nxt"
    and "\<forall>n \<in> set ns. live_view rt n \<noteq> None" and "set ns \<subseteq> df_id ` set (g_nodes nxt)"
  shows "(\<forall>n. live_view rt' n = (if n \<in> set ns
             then map_option (\<lambda>d. (n, df_template d)) (map_of (index_by df_id (g_nodes nxt)) n)
             else live_view rt n))
    \<and> (\<forall>k. map_of (rt_edges rt') k = (case map_of (rt_edges rt) k of
           None \<Rightarrow> None | Some r \<Rightarrow> if \<exists>n \<in> set ns. touches n r then None else Some r))
    \<and> edges_ok rt' \<and> edges_indexed rt'
    \<and> rt_last_graph rt' = rt_last_graph rt \<and> rt_version rt' = rt_version rt"
  using assms(1,2,3,6,7)
proof (induction ns arbitrary: rt)
  case Nil
  then show ?case by (simp split: option.splits)
next
  case (Cons n ns)
  obtain rt1 where 1: "recreate_node ev nxt rt n = (rt1, Inr ())"
    and rest: "for_each (recreate_node ev nxt) rt1 ns = (rt', Inr ())"
    using Cons.prems(1) by (auto split: prod.splits sum.splits)
  note e = recreate_node_effect[OF 1 Cons.prems(2,3) assms(4) _ assms(5)]
  have live: "live_view rt n \<noteq> None" using Cons.prems(4) by simp
  have "map_of (index_by df_id (g_nodes nxt)) n \<noteq> None"
    using Cons.prems(5) by (simp add: map_of_index_by_None)
  then have "\<forall>m \<in> set ns. live_view rt1 m \<noteq> None" using e(1)[OF live] Cons.prems(4) by auto
  from Cons.IH[OF rest e(3)[OF live] e(4)[OF live] this] Cons.prems(5)
  show ?case
    unfolding e(1)[OF live] e(2)[OF live] e(5)[OF live] e(6)[OF live]
    by (auto split: option.splits)
qed

text \<open>The states a successful application passes through.\<close>

lemma apply_graph_stages:
  assumes "apply_graph_internal ev nxt rt = (rt', Inr res)"
  obtains d rt1 rt2 rt3 rt4 rt5 rt7 where
    "d = compute_diff (applied_graph rt) nxt"
    "for_each (\<lambda>s n. instantiate_node ev n s) rt (gd_added_nodes d) = (rt1, Inr ())"
    "for_each (recreate_node ev nxt) rt1 (gd_recreated d) = (rt2, Inr ())"
    "rt3 = fold (update_config ev nxt) (gd_config_updates d) rt2"
    "rt4 = fold (drop_edge ev) (map edge_key (gd_removed_edges d)) rt3"
    "rt5 = fold (dispose_node ev) (gd_removed d) rt4"
    "for_each (\<lambda>s e. execute_edge ev e s) (rt5\<lparr>rt_last_graph := Some nxt\<rparr>) (gd_added_edges d) = (rt7, Inr ())"
    "rt' = (provision_all ev rt7)\<lparr>rt_version := rt_version (provision_all ev rt7) + 1\<rparr>"
    "dr_version res = rt_version rt'" "dr_recreated_nodes res = gd_recreated d"
proof -
  let ?d = "compute_diff (applied_graph rt) nxt"
  obtain rt1 r1 where 1: "for_each (\<lambda>s n. instantiate_node ev n s) rt (gd_added_nodes ?d) = (rt1, r1)"
    by (cases "for_each (\<lambda>s n. instantiate_node ev n s) rt (gd_added_nodes ?d)")
  note unf = assms(1)[unfolded apply_graph_internal_def Let_def, folded applied_graph_def]
  have r1: "r1 = Inr ()" using unf 1 by (auto split: sum.splits)
  obtain rt2 r2 where 2: "for_each (recreate_node ev nxt) rt1 (gd_recreated ?d) = (rt2, r2)"
    by (cases "for_each (recreate_node ev nxt) rt1 (gd_recreated ?d)")
  have r2: "r2 = Inr ()" using unf 1 r1 2 by (auto split: sum.splits)
  let ?rt3 = "fold (update_config ev nxt) (gd_config_updates ?d) rt2"
  let ?rt4 = "fold (drop_edge ev) (map edge_key (gd_removed_edges ?d)) ?rt3"
  let ?rt5 = "fold (dispose_node ev) (gd_removed ?d) ?rt4"
  obtain rt7 r7 where 7: "for_each (\<lambda>s e. execute_edge ev e s) (?rt5\<lparr>rt_last_graph := Some nxt\<rparr>)
      (gd_added_edges ?d) = (rt7, r7)"
    by (cases "for_each (\<lambda>s e. execute_edge ev e s) (?rt5\<lparr>rt_last_graph := Some nxt\<rparr>) (gd_added_edges ?d)")
  have 4: "fold (\<lambda>e. drop_edge ev (edge_key e)) (gd_removed_edges ?d) ?rt3 = ?rt4"
    by (simp add: fold_map comp_def)
  have r7: "r7 = Inr ()" and fin: "rt' = (provision_all ev rt7)\<lparr>rt_version := rt_version (provision_all ev rt7) + 1\<rparr>"
    "dr_version res = rt_version rt'" "dr_recreated_nodes res = gd_recreated ?d"
    using unf 1 r1 2 r2 7 4 by (auto split: sum.splits)
  show thesis
    by (rule that[OF refl 1[unfolded r1] 2[unfolded r2] refl refl refl 7[unfolded r7] fin])
qed

lemma live_after_instantiation:
  assumes sync: "in_sync rt prev" and ok: "graph_ok nxt"
    and run: "for_each (\<lambda>s n. instantiate_node ev n s) rt (gd_added_nodes (compute_diff prev nxt))
      = (rt1, Inr ())"
  shows "live_view rt1 n =
    (if n \<in> df_id ` set (g_nodes nxt) - df_id ` set (g_nodes prev)
     then map_option (\<lambda>d. (n, df_template d)) (map_of (index_by df_id (g_nodes nxt)) n)
     else live_view rt n)"
proof (cases "n \<in> df_id ` set (g_nodes nxt) - df_id ` set (g_nodes prev)")
  case False
  then have "n \<notin> df_id ` set (gd_added_nodes (compute_diff prev nxt))"
    using diff_added[of _ prev nxt] by (metis DiffI imageE image_eqI)
  then have "map_of (index_by df_id (gd_added_nodes (compute_diff prev nxt))) n = None"
    by (simp add: map_of_index_by_None)
  then show ?thesis unfolding if_not_P[OF False] using instantiate_all_view(2)[OF run, of n] by simp
next
  case True
  then obtain d where d: "d \<in> set (g_nodes nxt)" "df_id d = n" by auto
  have nd: "map_of (index_by df_id (g_nodes nxt)) n = Some d"
    using map_of_index_by_distinct[of df_id "g_nodes nxt" d] ok d by (simp add: graph_ok_def)
  have "d \<in> set (gd_added_nodes (compute_diff prev nxt))" using d True by (simp add: diff_added)
  then have "map_of (index_by df_id (gd_added_nodes (compute_diff prev nxt))) n = Some d"
    using map_of_index_by_distinct[OF diff_added_distinct] ok d by (auto simp: graph_ok_def)
  then show ?thesis using instantiate_all_view(2)[OF run, of n] nd True by simp
qed

text \<open>The edge behind a record, and the nodes it ends at.\<close>

lemma record_of_graph_edge:
  assumes "graph_ok g" "edges_ok rt" "map_of (rt_edges rt) k = Some r" "e \<in> set (g_edges g)" "edge_key e = k"
  shows "record_edge r = e" and "touches n r \<longleftrightarrow> ed_source e = n \<or> ed_target e = n"
proof -
  show eq: "record_edge r = e"
    using edges_okD(1)[OF assms(2,3)] assms(1,4,5) by (intro edge_key_inj) (auto simp: graph_ok_def)
  then show "touches n r \<longleftrightarrow> ed_source e = n \<or> ed_target e = n"
    by (auto simp: touches_def record_edge_def)
qed

text \<open>
  The edges of the next graph that are executed after the application: the new ones, and of the
  unchanged ones those that end at no recreated node.
\<close>

definition surviving_edges :: "graph_def \<Rightarrow> graph_def \<Rightarrow> edge_def list" where
  "surviving_edges prev nxt =
     (let recreated = gd_recreated (compute_diff prev nxt)
      in filter (\<lambda>e. edge_key e \<notin> edge_key ` set (g_edges prev)
             \<or> ed_source e \<notin> set recreated \<and> ed_target e \<notin> set recreated) (g_edges nxt))"

lemma stage_nodes:
  assumes sync: "in_sync rt prev" and ok: "graph_ok nxt" and m: "methods_ok ev"
    and s1: "for_each (\<lambda>s n. instantiate_node ev n s) rt (gd_added_nodes (compute_diff prev nxt)) = (rt1, Inr ())"
    and s2: "for_each (recreate_node ev nxt) rt1 (gd_recreated (compute_diff prev nxt)) = (rt2, Inr ())"
  shows "live_view rt2 n = (if n \<in> df_id ` set (g_nodes nxt)
      then map_option (\<lambda>d. (n, df_template d)) (map_of (index_by df_id (g_nodes nxt)) n) else live_view rt n)"
    and "map_of (rt_edges rt2) k = (case map_of (rt_edges rt) k of
           None \<Rightarrow> None
         | Some r \<Rightarrow> if \<exists>n \<in> set (gd_recreated (compute_diff prev nxt)). touches n r then None else Some r)"
    and "edges_ok rt2" "edges_indexed rt2" "rt_version rt2 = rt_version rt"
proof -
  let ?R = "set (gd_recreated (compute_diff prev nxt))"
  let ?N = "df_id ` set (g_nodes nxt)" and ?P = "df_id ` set (g_nodes prev)"
  note sy = sync[unfolded in_sync_def]
  note live1 = live_after_instantiation[OF sync ok s1]
  note v1 = instantiate_all_view(1)[OF s1]
  have R: "?R \<subseteq> ?N \<inter> ?P"
  proof
    fix n assume "n \<in> ?R"
    then obtain x p where x: "n = df_id x" "x \<in> set (g_nodes nxt)"
      "map_of (index_by df_id (g_nodes prev)) (df_id x) = Some p" by (auto simp: diff_recreated)
    then have "n \<in> ?P" by (metis map_of_index_by_None option.distinct(1))
    with x show "n \<in> ?N \<inter> ?P" by simp
  qed
  have prev_live: "live_view rt n \<noteq> None" if "n \<in> ?P" for n
    using sy that by (simp add: map_of_index_by_None)
  have alive: "\<forall>n \<in> ?R. live_view rt1 n \<noteq> None" using R prev_live live1 by auto
  have ok1: "edges_ok rt1" "edges_indexed rt1" using sy edges_ok_view[OF v1] edges_indexed_view[OF v1] by simp_all
  have "?R \<subseteq> ?N" using R by blast
  note r0 = recreate_nodes_effect[OF s2 ok1 m ok alive this]
  note r = r0[THEN conjunct1, THEN spec] r0[THEN conjunct2, THEN conjunct1, THEN spec]
    r0[THEN conjunct2, THEN conjunct2, THEN conjunct1]
    r0[THEN conjunct2, THEN conjunct2, THEN conjunct2, THEN conjunct1]
    r0[THEN conjunct2, THEN conjunct2, THEN conjunct2, THEN conjunct2, THEN conjunct2]
  show "edges_ok rt2" "edges_indexed rt2" "rt_version rt2 = rt_version rt"
    using r(3-5) edge_view_fields(5)[OF v1] by simp_all
  show "map_of (rt_edges rt2) k = (case map_of (rt_edges rt) k of
           None \<Rightarrow> None | Some r \<Rightarrow> if \<exists>n \<in> ?R. touches n r then None else Some r)"
    using r(2) edge_view_fields(1)[OF v1] by simp
  show "live_view rt2 n = (if n \<in> ?N
      then map_option (\<lambda>d. (n, df_template d)) (map_of (index_by df_id (g_nodes nxt)) n) else live_view rt n)"
  proof (cases "n \<in> ?R \<or> n \<notin> ?N \<or> n \<notin> ?P")
    case True
    then show ?thesis using r(1)[of n] live1[of n] R by auto
  next
    case False
    then obtain x where x: "x \<in> set (g_nodes nxt)" "df_id x = n" by auto
    have nx: "map_of (index_by df_id (g_nodes nxt)) n = Some x"
      using map_of_index_by_distinct[of df_id "g_nodes nxt" x] ok x by (simp add: graph_ok_def)
    obtain p where p: "map_of (index_by df_id (g_nodes prev)) n = Some p"
      using False map_of_index_by_None[of df_id "g_nodes prev" n] by auto
    have "df_template p = df_template x"
      using False x p by (auto simp: diff_recreated)
    then show ?thesis using r(1)[of n] live1[of n] False sy nx p by simp
  qed
qed

lemma stage_edges:
  assumes sync: "in_sync rt prev" and ok: "graph_ok nxt"
    and e2: "\<And>k. map_of (rt_edges rt2) k = (case map_of (rt_edges rt) k of
           None \<Rightarrow> None | Some r \<Rightarrow> if \<exists>n \<in> R. touches n r then None else Some r)"
    and e4: "\<And>k. map_of (rt_edges rt4) k =
      (if k \<in> edge_key ` set (gd_removed_edges (compute_diff prev nxt)) then None else map_of (rt_edges rt2) k)"
  shows "dom (map_of (rt_edges rt4)) = edge_key ` {e \<in> set (g_edges nxt).
      edge_key e \<in> edge_key ` set (g_edges prev) \<and> ed_source e \<notin> R \<and> ed_target e \<notin> R}"
proof -
  note sy = sync[unfolded in_sync_def]
  have eok: "edges_ok rt" using sy by simp
  have dom: "(\<exists>r. map_of (rt_edges rt) k = Some r) \<longleftrightarrow> k \<in> edge_key ` set (g_edges prev)" for k
    using sy by (metis domD domI)
  have "k \<in> dom (map_of (rt_edges rt4)) \<longleftrightarrow>
      k \<notin> edge_key ` set (gd_removed_edges (compute_diff prev nxt))
      \<and> (\<exists>r. map_of (rt_edges rt) k = Some r \<and> (\<forall>n \<in> R. \<not> touches n r))" for k
    by (cases "map_of (rt_edges rt) k") (auto simp: domIff e4 e2)
  also have "\<dots> k \<longleftrightarrow> k \<in> edge_key ` {e \<in> set (g_edges nxt).
      edge_key e \<in> edge_key ` set (g_edges prev) \<and> ed_source e \<notin> R \<and> ed_target e \<notin> R}" for k
  proof -
    have "(\<forall>n \<in> R. \<not> touches n r) \<longleftrightarrow> ed_source e \<notin> R \<and> ed_target e \<notin> R"
      if "map_of (rt_edges rt) k = Some r" "e \<in> set (g_edges nxt)" "edge_key e = k" for r e
      unfolding record_of_graph_edge(2)[OF ok eok that] by auto
    note ends = this
    show ?thesis
    proof
      assume l: "k \<notin> edge_key ` set (gd_removed_edges (compute_diff prev nxt))
        \<and> (\<exists>r. map_of (rt_edges rt) k = Some r \<and> (\<forall>n \<in> R. \<not> touches n r))"
      then obtain r where r: "map_of (rt_edges rt) k = Some r" "\<forall>n \<in> R. \<not> touches n r" by blast
      then have kp: "k \<in> edge_key ` set (g_edges prev)" using dom by blast
      then have "k \<in> edge_key ` set (g_edges nxt)" using l by (simp add: diff_removed_edges)
      then obtain e where e: "e \<in> set (g_edges nxt)" "edge_key e = k" by blast
      from ends[OF r(1) e] r(2) e kp
      show "k \<in> edge_key ` {e \<in> set (g_edges nxt).
          edge_key e \<in> edge_key ` set (g_edges prev) \<and> ed_source e \<notin> R \<and> ed_target e \<notin> R}" by blast
    next
      assume "k \<in> edge_key ` {e \<in> set (g_edges nxt).
          edge_key e \<in> edge_key ` set (g_edges prev) \<and> ed_source e \<notin> R \<and> ed_target e \<notin> R}"
      then obtain e where e: "e \<in> set (g_edges nxt)" "edge_key e = k" "k \<in> edge_key ` set (g_edges prev)"
        "ed_source e \<notin> R" "ed_target e \<notin> R" by blast
      then obtain r where r: "map_of (rt_edges rt) k = Some r" using dom by blast
      have "k \<notin> edge_key ` set (gd_removed_edges (compute_diff prev nxt))"
        using e(1,2) by (auto simp: diff_removed_edges)
      with ends[OF r e(1,2)] r e(4,5)
      show "k \<notin> edge_key ` set (gd_removed_edges (compute_diff prev nxt))
        \<and> (\<exists>r. map_of (rt_edges rt) k = Some r \<and> (\<forall>n \<in> R. \<not> touches n r))" by blast
    qed
  qed
  finally show ?thesis by blast
qed

lemma apply_graph_effect:
  assumes "in_sync rt (applied_graph rt)" and "graph_ok nxt" and "methods_ok ev"
    and "apply_graph_internal ev nxt rt = (rt', Inr res)"
  shows "(\<forall>n. live_view rt' n
       = map_option (\<lambda>d. (n, df_template d)) (map_of (index_by df_id (g_nodes nxt)) n))
    \<and> dom (map_of (rt_edges rt')) = edge_key ` set (surviving_edges (applied_graph rt) nxt)
    \<and> edges_ok rt' \<and> edges_indexed rt' \<and> rt_last_graph rt' = Some nxt
    \<and> rt_version rt' = rt_version rt + 1 \<and> dr_version res = rt_version rt'"
proof -
  let ?prev = "applied_graph rt" and ?N = "df_id ` set (g_nodes nxt)"
  obtain d rt1 rt2 rt3 rt4 rt5 rt7 where
    d: "d = compute_diff ?prev nxt" and
    s1: "for_each (\<lambda>s n. instantiate_node ev n s) rt (gd_added_nodes d) = (rt1, Inr ())" and
    s2: "for_each (recreate_node ev nxt) rt1 (gd_recreated d) = (rt2, Inr ())" and
    s3: "rt3 = fold (update_config ev nxt) (gd_config_updates d) rt2" and
    s4: "rt4 = fold (drop_edge ev) (map edge_key (gd_removed_edges d)) rt3" and
    s5: "rt5 = fold (dispose_node ev) (gd_removed d) rt4" and
    s7: "for_each (\<lambda>s e. execute_edge ev e s) (rt5\<lparr>rt_last_graph := Some nxt\<rparr>) (gd_added_edges d) = (rt7, Inr ())" and
    s8: "rt' = (provision_all ev rt7)\<lparr>rt_version := rt_version (provision_all ev rt7) + 1\<rparr>"
      "dr_version res = rt_version rt'" "dr_recreated_nodes res = gd_recreated d"
    by (rule apply_graph_stages[OF assms(4)])
  note sync = assms(1)[unfolded in_sync_def]
  let ?R = "set (gd_recreated d)"
  let ?nxt_view = "\<lambda>n. map_option (\<lambda>d. (n, df_template d)) (map_of (index_by df_id (g_nodes nxt)) n)"
  note st = stage_nodes[OF assms(1-3) s1[unfolded d] s2[unfolded d], folded d]
  have key: "fst l = n" if "live_view rt2 n = Some l" for n l
    using that sync st(1)[of n] by (auto split: if_splits)
  note up = update_configs_view[of rt2 ev nxt "gd_config_updates d", OF key, folded s3]
  note v3 = conjunct2[OF up]
  have ok3: "edges_ok rt3" and ix3: "edges_indexed rt3"
    using st(3,4) edges_ok_view[OF v3] edges_indexed_view[OF v3] by simp_all
  have e4: "map_of (rt_edges rt4) k = (if k \<in> edge_key ` set (gd_removed_edges d) then None
      else map_of (rt_edges rt2) k)" for k
    using drop_edges_lookup[OF ok3 assms(3)] edge_view_fields(1)[OF v3] by (simp add: s4)
  have ok4: "edges_ok rt4" and ix4: "edges_indexed rt4"
    using drop_edges(4)[OF ok3] drop_edges(5)[OF ix3] by (simp_all add: s4)
  have g4: "rt_version rt4 = rt_version rt" "live_view rt4 = live_view rt2"
    using edge_view_fields[OF v3] up st(5) by (simp_all add: s4 drop_edges)
  have dom4: "dom (map_of (rt_edges rt4)) = edge_key ` {e \<in> set (g_edges nxt).
      edge_key e \<in> edge_key ` set (g_edges ?prev) \<and> ed_source e \<notin> ?R \<and> ed_target e \<notin> ?R}"
    by (rule stage_edges[OF assms(1,2) st(2) e4[unfolded d]])
  have untouched: "\<forall>n \<in> set (gd_removed d). \<forall>k r. map_of (rt_edges rt4) k = Some r \<longrightarrow> \<not> touches n r"
  proof (intro ballI allI impI)
    fix n k r assume n: "n \<in> set (gd_removed d)" and r: "map_of (rt_edges rt4) k = Some r"
    have "k \<in> dom (map_of (rt_edges rt4))" using r by blast
    then obtain e where e: "e \<in> set (g_edges nxt)" "edge_key e = k" using dom4 by auto
    have "n \<notin> ?N" using n by (simp add: d diff_removed)
    then show "\<not> touches n r"
      using record_of_graph_edge(2)[OF assms(2) ok4 r e] assms(2) e(1) by (auto simp: graph_ok_def)
  qed
  note disp = dispose_nodes[OF ok4 ix4 assms(3) untouched, folded s5]
  have live5: "live_view rt5 n = ?nxt_view n" for n
  proof -
    have gone: "n \<in> set (gd_removed d) \<Longrightarrow> ?nxt_view n = None"
      by (simp add: d diff_removed map_of_index_by_None)
    have never: "live_view rt n = None \<and> ?nxt_view n = None" if "n \<notin> ?N" "n \<notin> set (gd_removed d)"
      using that sync by (simp add: d diff_removed map_of_index_by_None)
    show ?thesis
      using disp(1) g4(2) st(1)[of n] gone never by (cases "n \<in> set (gd_removed d)"; cases "n \<in> ?N") simp_all
  qed
  let ?rt6 = "rt5\<lparr>rt_last_graph := Some nxt\<rparr>"
  have added: "e \<in> set (gd_added_edges d) \<Longrightarrow> e \<in> set (g_edges nxt)" for e
    using diff_added_edges(2)[of ?prev nxt] by (auto simp: d)
  have safe: "\<forall>e \<in> set (gd_added_edges d). key_safe e" using added assms(2) by (auto simp: graph_ok_def)
  have ends: "\<forall>e \<in> set (gd_added_edges d).
      live_view ?rt6 (ed_source e) \<noteq> None \<and> live_view ?rt6 (ed_target e) \<noteq> None"
    using added assms(2) by (simp add: live5 graph_ok_def map_of_index_by_None)
  have ok6: "edges_ok ?rt6" "edges_indexed ?rt6"
    using disp(3,4) by (simp_all add: edges_ok_def edges_indexed_def)
  note ex = execute_edges[OF s7 safe]
  have dom7: "dom (map_of (rt_edges rt7)) = edge_key ` set (surviving_edges ?prev nxt)"
    using execute_edges_dom[OF s7 ends] disp(2) dom4
    by (auto simp: d diff_added_edges surviving_edges_def Let_def)
  note pf = edge_view_fields[OF conjunct2[OF provision_all_view[of ev rt7]]]
  have fields: "live_view rt' = live_view rt7" "rt_edges rt' = rt_edges rt7"
    "rt_last_graph rt' = Some nxt" "rt_version rt' = rt_version rt + 1"
    using provision_all_view[of ev rt7] pf ex(2,3) disp(5,6) g4 by (simp_all add: s8)
  have inv: "edges_ok rt'" "edges_indexed rt'"
    using ex(4)[OF ok6(1)] ex(5)[OF ok6(2)] pf by (simp_all add: s8 edges_ok_def edges_indexed_def)
  show ?thesis using fields inv ex(1) live5 dom7 s8(2) by simp
qed

lemma surviving_all: "gd_recreated (compute_diff prev nxt) = [] \<Longrightarrow> surviving_edges prev nxt = g_edges nxt"
  by (simp add: surviving_edges_def)

text \<open>
  C1. Applying a graph brings the runtime in step with it: from a state in step with the last applied
  graph (at first the empty one), a successful application of a well-formed graph that changes no
  node's template ends with exactly that graph's nodes alive under their templates, exactly its edges
  executed and indexed at both ends, the graph recorded as applied and the version one higher.  Edge
  callbacks are assumed not to throw; instantiation, configuration and provisioning may fail.
\<close>

theorem apply_keeps_in_step:
  assumes "in_sync rt (applied_graph rt)" and "graph_ok nxt" and "methods_ok ev"
    and "gd_recreated (compute_diff (applied_graph rt) nxt) = []"
    and "apply_graph_internal ev nxt rt = (rt', Inr res)"
  shows "in_sync rt' nxt \<and> rt_last_graph rt' = Some nxt
    \<and> rt_version rt' = rt_version rt + 1 \<and> dr_version res = rt_version rt'"
  using apply_graph_effect[OF assms(1-3,5)] surviving_all[OF assms(4)] by (simp add: in_sync_def)

text \<open>
  What a template change costs: when the application recreates nodes, the live nodes still become
  those of the next graph, but of the edges that both graphs share only those with no recreated end
  stay executed, because disposing of a node takes down all its edges and the difference between the
  graphs does not list them as added.
\<close>

theorem apply_with_recreation:
  assumes "in_sync rt (applied_graph rt)" and "graph_ok nxt" and "methods_ok ev"
    and "apply_graph_internal ev nxt rt = (rt', Inr res)"
  shows "(\<forall>n. live_view rt' n
        = map_option (\<lambda>d. (n, df_template d)) (map_of (index_by df_id (g_nodes nxt)) n))
     \<and> dom (map_of (rt_edges rt')) = edge_key ` set (surviving_edges (applied_graph rt) nxt)"
  using apply_graph_effect[OF assms] by blast

section \<open>A concrete environment\<close>

text \<open>An agent with a method port \<open>tools\<close> that takes tools, and two templates of tools.\<close>

definition demo_env :: env where
  "demo_env = \<lparr>
     ev_templates = \<lparr>tr_classes = [(''agent'', 0), (''shell'', 1), (''mcp'', 1)], tr_meta = []\<rparr>,
     ev_ports = (\<lambda>c. Some (if c = 0
        then \<lparr>tp_source = Some [(''tools'', Method_port ''addTool'' (Some ''removeTool''))], tp_target = None\<rparr>
        else \<lparr>tp_source = None, tp_target = Some [(''$self'', Instance_port)]\<rparr>)),
     ev_has_method = (\<lambda>t m. m = ''addTool'' \<or> m = ''removeTool''),
     ev_reply = (\<lambda>before c. Returns)\<rparr>"

definition demo_graph :: "string \<Rightarrow> graph_def" where
  "demo_graph tool = \<lparr>
     g_nodes = [\<lparr>df_id = ''a'', df_template = ''agent'', df_config = None, df_state = None\<rparr>,
                \<lparr>df_id = ''t'', df_template = tool, df_config = Some [], df_state = None\<rparr>],
     g_edges = [\<lparr>ed_source = ''a'', ed_source_handle = ''tools'', ed_target = ''t'', ed_target_handle = ''$self''\<rparr>]\<rparr>"

lemma demo_methods_ok: "methods_ok demo_env"
  by (simp add: methods_ok_def demo_env_def throws_def)

lemma demo_graph_ok: "graph_ok (demo_graph tool)"
  by (simp add: graph_ok_def demo_graph_def key_safe_def)

lemma new_runtime_in_sync: "in_sync new_runtime (applied_graph new_runtime)"
  by (simp add: in_sync_def new_runtime_def applied_graph_def live_view_def edges_ok_def
      edges_indexed_def keys_of_def)

definition demo_first :: "runtime \<times> (graph_error + diff_result)" where
  "demo_first = apply_graph_internal demo_env (demo_graph ''shell'') new_runtime"

lemma demo_first_result: "\<not> isl (snd demo_first)"
  unfolding demo_first_def by code_simp

lemma demo_first_recreated:
  "gd_recreated (compute_diff (applied_graph new_runtime) (demo_graph ''shell'')) = []"
  by code_simp

lemma demo_first_eq:
  "apply_graph_internal demo_env (demo_graph ''shell'') new_runtime
     = (fst demo_first, Inr (projr (snd demo_first)))"
  using demo_first_result by (cases "snd demo_first") (auto simp: demo_first_def prod_eq_iff)

theorem apply_keeps_in_step_witness:
  "in_sync (fst demo_first) (demo_graph ''shell'') \<and> rt_version (fst demo_first) = 1"
  using apply_keeps_in_step[OF new_runtime_in_sync demo_graph_ok demo_methods_ok
      demo_first_recreated demo_first_eq]
  by (simp add: new_runtime_def)

definition demo_second :: "runtime \<times> (graph_error + diff_result)" where
  "demo_second = apply_graph_internal demo_env (demo_graph ''mcp'') (fst demo_first)"

lemma demo_second_eq:
  "apply_graph_internal demo_env (demo_graph ''mcp'') (fst demo_first)
     = (fst demo_second, Inr (projr (snd demo_second)))"
proof -
  have "\<not> isl (snd demo_second)" unfolding demo_second_def demo_first_def by code_simp
  then show ?thesis by (cases "snd demo_second") (auto simp: demo_second_def prod_eq_iff)
qed

lemma demo_in_step: "in_sync (fst demo_first) (applied_graph (fst demo_first))"
  using apply_graph_effect[OF new_runtime_in_sync demo_graph_ok demo_methods_ok demo_first_eq]
    surviving_all[OF demo_first_recreated]
  by (simp add: in_sync_def applied_graph_def)

lemma demo_applied: "applied_graph (fst demo_first) = demo_graph ''shell''"
  using apply_graph_effect[OF new_runtime_in_sync demo_graph_ok demo_methods_ok demo_first_eq]
  by (simp add: applied_graph_def)

text \<open>Changing the tool's template leaves the agent without its tool.\<close>

theorem apply_with_recreation_witness:
  "live_view (fst demo_second) ''t'' = Some (''t'', ''mcp'') \<and> rt_edges (fst demo_second) = []
   \<and> length (g_edges (demo_graph ''mcp'')) = 1"
proof -
  note effect = apply_with_recreation[OF demo_in_step demo_graph_ok demo_methods_ok demo_second_eq,
      unfolded demo_applied]
  have "surviving_edges (demo_graph ''shell'') (demo_graph ''mcp'') = []" by code_simp
  then have "dom (map_of (rt_edges (fst demo_second))) = {}" using effect by simp
  then have "rt_edges (fst demo_second) = []" by (cases "rt_edges (fst demo_second)") auto
  moreover have "live_view (fst demo_second) ''t'' = Some (''t'', ''mcp'')"
    using effect by (simp add: demo_graph_def index_by_def)
  ultimately show ?thesis by (simp add: demo_graph_def)
qed

section \<open>Queries\<close>

lemma set_map_filter: "set (List.map_filter f xs) = {y. \<exists>x \<in> set xs. f x = Some y}"
  by (force simp: List.map_filter_def)

text \<open>
  In step with a graph, \<open>getOutboundNodeIds\<close> answers from the graph: the targets of the edges
  leaving the node, sorted and without duplicates.
\<close>

theorem outbound_ids_exact:
  assumes "in_sync rt g" and "graph_ok g"
  shows "set (get_outbound_node_ids n rt) = ed_target ` {e \<in> set (g_edges g). ed_source e = n}
    \<and> sorted (get_outbound_node_ids n rt) \<and> distinct (get_outbound_node_ids n rt)"
proof -
  have eok: "edges_ok rt" and ix: "edges_indexed rt"
    and dom: "dom (map_of (rt_edges rt)) = edge_key ` set (g_edges g)"
    using assms(1) by (simp_all add: in_sync_def)
  have q: "get_outbound_node_ids n rt = sort (set_add_all
      (map er_target (List.map_filter (map_of (rt_edges rt)) (keys_of (rt_outbound rt) n))) [])"
    by (simp add: get_outbound_node_ids_def keys_of_def List.map_filter_def set_add_all_def
        split: option.splits)
  have "set (get_outbound_node_ids n rt)
      = {er_target r |k r. k \<in> set (keys_of (rt_outbound rt) n) \<and> map_of (rt_edges rt) k = Some r}"
    by (auto simp: q set_map_filter)
  also have "\<dots> = {er_target r |k r. map_of (rt_edges rt) k = Some r \<and> er_source r = n}"
    using edges_okD(2)[OF eok] ix unfolding edges_indexed_def by fastforce
  also have "\<dots> = ed_target ` {e \<in> set (g_edges g). ed_source e = n}"
  proof (intro equalityI subsetI)
    fix t assume "t \<in> {er_target r |k r. map_of (rt_edges rt) k = Some r \<and> er_source r = n}"
    then obtain k r where r: "map_of (rt_edges rt) k = Some r" "er_source r = n" "t = er_target r" by blast
    then have "k \<in> edge_key ` set (g_edges g)" using dom by blast
    then obtain e where e: "e \<in> set (g_edges g)" "edge_key e = k" by blast
    from record_of_graph_edge(1)[OF assms(2) eok r(1) e] r(2,3)
    have "ed_source e = n" "ed_target e = t" by (auto simp: record_edge_def)
    with e(1) show "t \<in> ed_target ` {e \<in> set (g_edges g). ed_source e = n}" by blast
  next
    fix t assume "t \<in> ed_target ` {e \<in> set (g_edges g). ed_source e = n}"
    then obtain e where e: "e \<in> set (g_edges g)" "ed_source e = n" "t = ed_target e" by blast
    then obtain r where r: "map_of (rt_edges rt) (edge_key e) = Some r" using dom by blast
    from record_of_graph_edge(1)[OF assms(2) eok r e(1) refl]
    have "er_source r = n" "er_target r = t" using e by (auto simp: record_edge_def)
    with r show "t \<in> {er_target r |k r. map_of (rt_edges rt) k = Some r \<and> er_source r = n}" by blast
  qed
  finally show ?thesis by (simp add: q)
qed

lemma demo_first_in_sync: "in_sync (fst demo_first) (demo_graph ''shell'')"
  using demo_in_step by (simp add: demo_applied)

theorem outbound_ids_exact_witness: "set (get_outbound_node_ids ''a'' (fst demo_first)) = {''t''}"
proof -
  have "{e \<in> set (g_edges (demo_graph ''shell'')). ed_source e = ''a''} = set (g_edges (demo_graph ''shell''))"
    by (auto simp: demo_graph_def)
  then show ?thesis
    using outbound_ids_exact[OF demo_first_in_sync demo_graph_ok, of "''a''"] by (simp add: demo_graph_def)
qed

section \<open>Every operation keeps the registry sound\<close>

lemma for_each_edges_ok:
  assumes "\<And>s x s' r. x \<in> set xs \<Longrightarrow> edges_ok s \<Longrightarrow> f s x = (s', r) \<Longrightarrow> edges_ok s'"
    and "for_each f s xs = (s', r)" and "edges_ok s"
  shows "edges_ok s'"
  by (rule for_each_invariant[where P = edges_ok, OF assms(3) _ assms(2)]) (rule assms(1))

lemma fold_edges_ok:
  "(\<And>s x. edges_ok s \<Longrightarrow> edges_ok (f x s)) \<Longrightarrow> edges_ok s \<Longrightarrow> edges_ok (fold f xs s)"
  by (induction xs arbitrary: s) auto

lemma instantiate_edges_ok: "instantiate_node ev n s = (s', r) \<Longrightarrow> edges_ok s \<Longrightarrow> edges_ok s'"
  using instantiate_node_view(1) edges_ok_view by blast

lemma recreate_edges_ok: "recreate_node ev g s n = (s', r) \<Longrightarrow> edges_ok s \<Longrightarrow> edges_ok s'"
  by (auto simp: recreate_node_def Let_def dispose_node_ok split: option.splits
      intro: instantiate_edges_ok)

lemma update_config_edge_view: "edge_view (update_config ev g n rt) = edge_view rt"
  by (auto simp: update_config_def split: option.splits prod.splits sum.splits
      dest!: apply_config_calls resolve_node_config_calls)

lemma update_config_edges_ok: "edges_ok rt \<Longrightarrow> edges_ok (update_config ev g n rt)"
  using update_config_edge_view edges_ok_view by blast

lemma edges_ok_graph_version [simp]:
  "edges_ok (rt\<lparr>rt_last_graph := g\<rparr>) = edges_ok rt" "edges_ok (rt\<lparr>rt_version := v\<rparr>) = edges_ok rt"
  by (simp_all add: edges_ok_def)

lemma provision_all_edges_ok: "edges_ok (provision_all ev rt) = edges_ok rt"
  by (rule edges_ok_view) (simp add: provision_all_view)

lemma apply_edges_ok:
  assumes ok: "edges_ok rt" and safe: "\<forall>e \<in> set (g_edges nxt). key_safe e"
  shows "edges_ok (fst (apply_graph_internal ev nxt rt))"
proof -
  let ?d = "compute_diff (applied_graph rt) nxt"
  obtain rt1 r1 where 1: "for_each (\<lambda>s n. instantiate_node ev n s) rt (gd_added_nodes ?d) = (rt1, r1)"
    by (cases "for_each (\<lambda>s n. instantiate_node ev n s) rt (gd_added_nodes ?d)")
  obtain rt2 r2 where 2: "for_each (recreate_node ev nxt) rt1 (gd_recreated ?d) = (rt2, r2)"
    by (cases "for_each (recreate_node ev nxt) rt1 (gd_recreated ?d)")
  have ok1: "edges_ok rt1" by (rule for_each_edges_ok[OF _ 1 ok]) (rule instantiate_edges_ok)
  have ok2: "edges_ok rt2" by (rule for_each_edges_ok[OF _ 2 ok1]) (rule recreate_edges_ok)
  let ?rt3 = "fold (update_config ev nxt) (gd_config_updates ?d) rt2"
  let ?rt4 = "fold (\<lambda>e. drop_edge ev (edge_key e)) (gd_removed_edges ?d) ?rt3"
  let ?rt5 = "fold (dispose_node ev) (gd_removed ?d) ?rt4"
  have ok5: "edges_ok ?rt5"
    by (intro fold_edges_ok dispose_node_ok drop_edge_ok update_config_edges_ok ok2)
  obtain rt7 r7 where 7: "for_each (\<lambda>s e. execute_edge ev e s) (?rt5\<lparr>rt_last_graph := Some nxt\<rparr>)
      (gd_added_edges ?d) = (rt7, r7)"
    by (cases "for_each (\<lambda>s e. execute_edge ev e s) (?rt5\<lparr>rt_last_graph := Some nxt\<rparr>) (gd_added_edges ?d)")
  have "\<forall>e \<in> set (gd_added_edges ?d). key_safe e"
    using diff_added_edges(2)[of "applied_graph rt" nxt] safe by blast
  from execute_edges(4)[OF 7 this] ok5 have ok7: "edges_ok rt7" by simp
  show ?thesis
    using 1 2 7 ok1 ok2 ok7
    by (auto simp: apply_graph_internal_def Let_def provision_all_edges_ok
        simp flip: applied_graph_def split: sum.splits)
qed

lemma shutdown_edge_fold_nodes:
  "rt_nodes (fold (\<lambda>k s. case map_of (rt_edges s) k of
       None \<Rightarrow> s | Some r \<Rightarrow> unregister_edge_record r s) ks rt) = rt_nodes rt"
  by (induction ks arbitrary: rt) (simp_all add: unregister_edge_record_def split: option.split)

lemma deprovision_instance_nodes: "rt_nodes (deprovision_instance ev i rt) = rt_nodes rt"
  by (auto simp: deprovision_instance_def ask_def put_instance_def split: option.splits)

lemma shutdown_node_nodes:
  "rt_nodes (shutdown_node ev entry rt) = AList.delete (ln_id (snd entry)) (rt_nodes rt)"
  by (simp add: shutdown_node_def Let_def shutdown_edge_fold_nodes deprovision_instance_nodes)

lemma shutdown_fold_nodes:
  "rt_nodes (fold (shutdown_node ev) es rt)
     = filter (\<lambda>p. fst p \<notin> (\<lambda>e. ln_id (snd e)) ` set es) (rt_nodes rt)"
proof (induction es arbitrary: rt)
  case (Cons e es)
  have *: "filter P (AList.delete k xs) = filter (\<lambda>p. fst p \<noteq> k \<and> P p) xs" for P k and xs :: "(string \<times> live_node) list"
    by (simp add: AList.delete_eq) (rule filter_cong, auto)
  show ?case by (simp add: Cons.IH shutdown_node_nodes *)
qed simp

text \<open>
  The public operations, on graphs whose edge keys are safe.  \<open>apply_graph\<close> includes applications
  that fail half-way, and no callback is assumed to succeed.
\<close>

inductive live_step :: "env \<Rightarrow> runtime \<Rightarrow> runtime \<Rightarrow> bool" for ev where
  live_apply: "\<forall>e \<in> set (g_edges g). key_safe e \<Longrightarrow> live_step ev rt (fst (apply_graph_internal ev g rt))"
| live_config: "live_step ev rt (update_node_config n cfg rt)"
| live_state: "live_step ev rt (update_node_state n st rt)"
| live_provision: "live_step ev rt (provision_instance ev i rt)"
| live_deprovision: "live_step ev rt (deprovision_instance ev i rt)"

lemma update_first_fields [simp]:
  "live_view (update_node_state n st rt) = live_view rt"
  "edges_ok (update_node_state n st rt) = edges_ok rt"
  by (simp_all add: update_node_state_def)

lemma update_node_config_edges_ok: "edges_ok (update_node_config n cfg rt) = edges_ok rt"
proof -
  have "edges_ok (put_live l rt) = edges_ok rt" for l by (rule edges_ok_view) simp
  then show ?thesis by (auto simp: update_node_config_def Let_def split: option.split)
qed

lemma provision_instance_edges_ok: "edges_ok (provision_instance ev i rt) = edges_ok rt"
  by (rule edges_ok_view) (auto simp: provision_instance_def ask_def split: option.splits)

lemma deprovision_instance_edges_ok: "edges_ok (deprovision_instance ev i rt) = edges_ok rt"
  by (rule edges_ok_view) (simp add: deprovision_instance_view)

lemma live_step_edges_ok: "live_step ev rt rt' \<Longrightarrow> edges_ok rt \<Longrightarrow> edges_ok rt'"
  by (induction rule: live_step.induct)
    (simp_all add: apply_edges_ok update_node_config_edges_ok provision_instance_edges_ok
      deprovision_instance_edges_ok)

text \<open>
  The edge registry is never corrupted: after any sequence of applications (successful or failed
  at any point, with callbacks that may throw), configuration and state updates, and provisioning
  calls, every executed edge sits under its own key and every key in the inbound or outbound index of
  a node has an executed edge that ends at that node.
\<close>

theorem registry_always_sound:
  assumes "(live_step ev)\<^sup>*\<^sup>* new_runtime rt"
  shows "(\<forall>k r. map_of (rt_edges rt) k = Some r \<longrightarrow> er_key r = k \<and> edge_key (record_edge r) = k)
    \<and> (\<forall>n. \<forall>k \<in> set (keys_of (rt_outbound rt) n). \<exists>r. map_of (rt_edges rt) k = Some r \<and> er_source r = n)
    \<and> (\<forall>n. \<forall>k \<in> set (keys_of (rt_inbound rt) n). \<exists>r. map_of (rt_edges rt) k = Some r \<and> er_target r = n)"
proof -
  have "edges_ok rt"
    using assms
  proof (induction rule: rtranclp_induct)
    case base
    show ?case by (simp add: edges_ok_def new_runtime_def keys_of_def)
  next
    case (step rt rt')
    then show ?case by (blast intro: live_step_edges_ok)
  qed
  then show ?thesis unfolding edges_ok_def by blast
qed

theorem registry_always_sound_witness:
  "\<exists>r. map_of (rt_edges (fst demo_first)) ''a:tools->t:$self'' = Some r \<and> er_source r = ''a''"
proof -
  have "live_step demo_env new_runtime (fst demo_first)"
    unfolding demo_first_def by (rule live_apply) (simp add: demo_graph_def key_safe_def)
  then have "(live_step demo_env)\<^sup>*\<^sup>* new_runtime (fst demo_first)" by blast
  note sound = registry_always_sound[OF this]
  have "''a:tools->t:$self'' \<in> set (keys_of (rt_outbound (fst demo_first)) ''a'')"
    unfolding demo_first_def by code_simp
  with sound show ?thesis by blast
qed

section \<open>The chain of applications\<close>

fun run_applies ::
  "env \<Rightarrow> live_graph \<Rightarrow> graph_def list \<Rightarrow> live_graph \<times> (graph_error + diff_result) list" where
  "run_applies ev lg [] = (lg, [])"
| "run_applies ev lg (g # gs) =
     (let (lg1, r) = apply_graph ev g lg; (lg2, rs) = run_applies ev lg1 gs in (lg2, r # rs))"

lemma run_applies_rejected:
  "lg_applying lg = Some e \<Longrightarrow> run_applies ev lg gs = (lg, replicate (length gs) (Inl e))"
  by (induction gs) (simp_all add: apply_graph_def)

text \<open>
  Applications run one after another, and the first failure is final: of any sequence of graphs, a
  prefix is applied, and if one fails then every later one is rejected with that same error without
  being applied, the runtime staying as the failed one left it.
\<close>

theorem apply_chain:
  "\<exists>oks m e. let (lg, rs) = run_applies ev \<lparr>lg_runtime = rt, lg_applying = None\<rparr> gs in
     rs = map Inr oks @ replicate m (Inl e) \<and> length oks + m = length gs
     \<and> lg = fst (run_applies ev \<lparr>lg_runtime = rt, lg_applying = None\<rparr> (take (length oks + 1) gs))"
proof (induction gs arbitrary: rt)
  case Nil
  show ?case by (intro exI[of _ "[]"] exI[of _ 0]) simp
next
  case (Cons g gs)
  obtain rt1 r where a: "apply_graph_internal ev g rt = (rt1, r)" by (cases "apply_graph_internal ev g rt")
  show ?case
  proof (cases r)
    case (Inl e)
    then show ?thesis
      by (intro exI[of _ "[]"] exI[of _ "length (g # gs)"] exI[of _ e])
        (simp add: apply_graph_def a run_applies_rejected)
  next
    case (Inr res)
    let ?lg = "\<lparr>lg_runtime = rt1, lg_applying = None\<rparr>"
    obtain oks m e where n: "snd (run_applies ev ?lg gs) = map Inr oks @ replicate m (Inl e)"
      "length oks + m = length gs"
      "fst (run_applies ev ?lg gs) = fst (run_applies ev ?lg (take (length oks + 1) gs))"
      using Cons.IH[of rt1] by (auto simp: split_beta Let_def)
    have step: "run_applies ev \<lparr>lg_runtime = rt, lg_applying = None\<rparr> (g # hs)
        = (fst (run_applies ev ?lg hs), Inr res # snd (run_applies ev ?lg hs))" for hs
      by (simp add: apply_graph_def a Inr split_beta)
    show ?thesis using n
      by (intro exI[of _ "res # oks"] exI[of _ m] exI[of _ e]) (simp add: step del: run_applies.simps)
  qed
qed

section \<open>Applying the same graph again\<close>

text \<open>
  Applying the graph that is already applied does nothing but provision: with distinct node
  identifiers the difference is empty, so no node is created, configured or disposed of and no edge
  is executed or reversed.
\<close>

theorem reapply_changes_nothing:
  assumes "distinct (map df_id (g_nodes g))" and "rt_last_graph rt = Some g"
  shows "compute_diff g g = \<lparr>gd_added_nodes = [], gd_removed = [], gd_recreated = [],
           gd_config_updates = [], gd_added_edges = [], gd_removed_edges = []\<rparr>
    \<and> fst (apply_graph_internal ev g rt) = (provision_all ev rt)\<lparr>rt_version := rt_version rt + 1\<rparr>"
proof -
  have cl: "classify_node (index_by df_id (g_nodes g)) n = Unchanged" if "n \<in> set (g_nodes g)" for n
    using map_of_index_by_distinct[OF assms(1) that] by (simp add: classify_node_def configs_equal_def)
  have kind: "filter (\<lambda>n. classify_node (index_by df_id (g_nodes g)) n = k) (g_nodes g) = []"
    if "k \<noteq> Unchanged" for k
    using that cl by (auto simp: filter_empty_conv)
  have found: "map_of (index_by df_id (g_nodes g)) (df_id n) \<noteq> None" if "n \<in> set (g_nodes g)" for n
    using map_of_index_by_distinct[OF assms(1) that] by simp
  have edges: "filter (\<lambda>(k, e). map_of (index_by edge_key (g_edges g)) k = None)
      (index_by edge_key (g_edges g)) = []"
    by (auto simp: filter_empty_conv map_of_eq_None_iff simp del: fst_set_index_by)
      (metis fst_conv imageI)
  have diff: "compute_diff g g = \<lparr>gd_added_nodes = [], gd_removed = [], gd_recreated = [],
           gd_config_updates = [], gd_added_edges = [], gd_removed_edges = []\<rparr>"
    unfolding compute_diff_def Let_def edges
    using found by (simp add: kind filter_empty_conv)
  have same: "rt\<lparr>rt_last_graph := Some g\<rparr> = rt" using assms(2) by (cases rt) simp
  have "rt_version (provision_all ev rt) = rt_version rt"
    using provision_all_view[of ev rt] by (simp add: edge_view_def)
  then show ?thesis using diff by (simp add: apply_graph_internal_def Let_def assms(2) same)
qed

theorem reapply_changes_nothing_witness:
  "gd_added_nodes (compute_diff (demo_graph ''shell'') (demo_graph ''shell'')) = []"
proof -
  have "rt_last_graph (fst demo_first) = Some (demo_graph ''shell'')"
    using apply_graph_effect[OF new_runtime_in_sync demo_graph_ok demo_methods_ok demo_first_eq] by blast
  from reapply_changes_nothing[OF _ this, of demo_env] show ?thesis by (simp add: demo_graph_def)
qed

end
