(* ===== verification/Memory.thy ===== *)
theory Memory
  imports JsString
begin

text \<open>
  The hierarchical memory of agents: \<^verbatim>\<open>nodes/memory/memory.repository.ts\<close> (documents as
  rows with a parent, found and created one path segment at a time, deleted with their subtree) and
  \<^verbatim>\<open>nodes/memory/memory.service.ts\<close> (paths, scopes and the operations of the tools).

  The table is a list of rows in insertion order with a counter for fresh identifiers; a query
  filters the list, \<open>findFirst\<close> takes the first match.  The collation of the database and
  \<open>localeCompare\<close> are arguments.  Time stamps are left out.
\<close>

section \<open>Rows\<close>

record repo_filter =
  rf_node :: string
  rf_thread :: "string option"

record memory_entity =
  me_id :: nat
  me_node :: string
  me_thread :: "string option"
  me_parent :: "nat option"
  me_name :: string
  me_content :: "string option"

record memory_db =
  db_rows :: "memory_entity list"
  db_next :: nat

datatype memory_scope = Global | Per_thread

record stat_result =
  st_exists :: bool
  st_has_subdocs :: bool
  st_content_length :: nat

record list_entry =
  le_name :: string
  le_has_subdocs :: bool

definition in_filter :: "repo_filter \<Rightarrow> memory_entity \<Rightarrow> bool" where
  "in_filter f e \<longleftrightarrow> me_node e = rf_node f \<and> me_thread e = rf_thread f"

section \<open>The repository\<close>

definition find_child :: "memory_db \<Rightarrow> repo_filter \<Rightarrow> nat option \<Rightarrow> string \<Rightarrow> memory_entity option" where
  "find_child db f parent seg =
     find (\<lambda>e. in_filter f e \<and> me_parent e = parent \<and> me_name e = seg) (db_rows db)"

fun traverse_existing ::
  "memory_db \<Rightarrow> repo_filter \<Rightarrow> nat option \<Rightarrow> memory_entity option \<Rightarrow> string list \<Rightarrow> memory_entity option" where
  "traverse_existing db f parent current [] = current"
| "traverse_existing db f parent current (seg # segs) =
     (case find_child db f parent seg of
        None \<Rightarrow> None
      | Some e \<Rightarrow> traverse_existing db f (Some (me_id e)) (Some e) segs)"

definition create_entity ::
  "repo_filter \<Rightarrow> nat option \<Rightarrow> string \<Rightarrow> memory_db \<Rightarrow> memory_db \<times> memory_entity" where
  "create_entity f parent seg db =
     (let e = \<lparr>me_id = db_next db, me_node = rf_node f, me_thread = rf_thread f, me_parent = parent,
               me_name = seg, me_content = None\<rparr>
      in (db\<lparr>db_rows := db_rows db @ [e], db_next := Suc (db_next db)\<rparr>, e))"

fun traverse_creating ::
  "repo_filter \<Rightarrow> nat option \<Rightarrow> memory_entity option \<Rightarrow> string list \<Rightarrow> memory_db \<Rightarrow>
   memory_db \<times> memory_entity option" where
  "traverse_creating f parent current [] db = (db, current)"
| "traverse_creating f parent current (seg # segs) db =
     (case find_child db f parent seg of
        Some e \<Rightarrow> traverse_creating f (Some (me_id e)) (Some e) segs db
      | None \<Rightarrow>
          (let (db1, e) = create_entity f parent seg db
           in traverse_creating f (Some (me_id e)) (Some e) segs db1))"

definition resolve_path :: "memory_db \<Rightarrow> repo_filter \<Rightarrow> string list \<Rightarrow> memory_entity option" where
  "resolve_path db f segs = (if segs = [] then None else traverse_existing db f None None segs)"

definition ensure_path ::
  "repo_filter \<Rightarrow> string list \<Rightarrow> memory_db \<Rightarrow> memory_db \<times> memory_entity option" where
  "ensure_path f segs db = (if segs = [] then (db, None) else traverse_creating f None None segs db)"

definition entity_has_children :: "memory_db \<Rightarrow> nat \<Rightarrow> bool" where
  "entity_has_children db i \<longleftrightarrow> (\<exists>e \<in> set (db_rows db). me_parent e = Some i)"

definition list_children ::
  "(string \<Rightarrow> string \<Rightarrow> bool) \<Rightarrow> memory_db \<Rightarrow> repo_filter \<Rightarrow> nat option \<Rightarrow> (memory_entity \<times> bool) list" where
  "list_children name_le db f parent =
     map (\<lambda>e. (e, length (filter (\<lambda>c. me_parent c = Some (me_id e)) (db_rows db)) > 0))
       (sort_by (\<lambda>a b. name_le (me_name a) (me_name b))
         (filter (\<lambda>e. in_filter f e \<and> me_parent e = parent) (db_rows db)))"

definition update_content :: "nat \<Rightarrow> string \<Rightarrow> memory_db \<Rightarrow> memory_db" where
  "update_content i content db =
     db\<lparr>db_rows := map (\<lambda>e. if me_id e = i then e\<lparr>me_content := Some content\<rparr> else e) (db_rows db)\<rparr>"

definition list_all_entities ::
  "(memory_entity \<Rightarrow> memory_entity \<Rightarrow> bool) \<Rightarrow> memory_db \<Rightarrow> repo_filter \<Rightarrow> memory_entity list" where
  "list_all_entities row_le db f = sort_by row_le (filter (in_filter f) (db_rows db))"

definition list_distinct_node_threads :: "memory_db \<Rightarrow> (string \<times> string option) list" where
  "list_distinct_node_threads db = remdups (map (\<lambda>e. (me_node e, me_thread e)) (db_rows db))"

text \<open>\<open>childrenByParent[id]\<close>\<close>

definition children_of :: "memory_entity list \<Rightarrow> nat \<Rightarrow> nat list" where
  "children_of rows i = map me_id (filter (\<lambda>e. me_parent e = Some i) rows)"

text \<open>
  The worklist of \<open>deleteSubtree\<close>: \<open>pop\<close> takes the last element pushed, which is the head here.
\<close>

function collect_subtree :: "memory_entity list \<Rightarrow> nat list \<Rightarrow> nat list \<Rightarrow> nat list" where
  "collect_subtree rows [] seen = seen"
| "collect_subtree rows (cur # stack) seen =
     (if cur \<in> set seen then collect_subtree rows stack seen
      else collect_subtree rows (rev (children_of rows cur) @ stack) (seen @ [cur]))"
  by pat_completeness auto

definition subtree_budget :: "memory_entity list \<Rightarrow> nat list \<Rightarrow> nat" where
  "subtree_budget rows seen =
     (\<Sum>x \<in> (the \<circ> me_parent) ` set rows - set seen. length (children_of rows x))"

lemma children_of_nonparent: "i \<notin> (the \<circ> me_parent) ` set rows \<Longrightarrow> children_of rows i = []"
  by (auto simp: children_of_def filter_empty_conv image_iff)

lemma subtree_budget_step:
  assumes "cur \<notin> set seen"
  shows "length (children_of rows cur) + subtree_budget rows (seen @ [cur]) = subtree_budget rows seen"
proof (cases "cur \<in> (the \<circ> me_parent) ` set rows")
  case True
  let ?A = "(the \<circ> me_parent) ` set rows - set seen"
  let ?B = "(the \<circ> me_parent) ` set rows - set (seen @ [cur])"
  have A: "?A = insert cur ?B" using True assms by auto
  have "(\<Sum>x \<in> ?A. length (children_of rows x)) =
      length (children_of rows cur) + (\<Sum>x \<in> ?B. length (children_of rows x))"
    unfolding A by (rule sum.insert) auto
  then show ?thesis by (simp add: subtree_budget_def)
next
  case False
  then have "(the \<circ> me_parent) ` set rows - set (seen @ [cur]) = (the \<circ> me_parent) ` set rows - set seen"
    by auto
  with False show ?thesis by (simp add: subtree_budget_def children_of_nonparent)
qed

termination collect_subtree
proof (relation "measure (\<lambda>(rows, stack, seen). length stack + subtree_budget rows seen)")
  fix rows cur stack and seen :: "nat list"
  assume "cur \<notin> set seen"
  from subtree_budget_step[OF this, of rows]
  show "((rows, rev (children_of rows cur) @ stack, seen @ [cur]), rows, cur # stack, seen)
      \<in> measure (\<lambda>(rows, stack, seen). length stack + subtree_budget rows seen)"
    by simp
qed auto

definition delete_subtree ::
  "repo_filter \<Rightarrow> nat option \<Rightarrow> memory_db \<Rightarrow> memory_db \<times> nat" where
  "delete_subtree f entity db =
     (case entity of
        None \<Rightarrow>
          (db\<lparr>db_rows := filter (\<lambda>e. \<not> in_filter f e) (db_rows db)\<rparr>,
           length (filter (in_filter f) (db_rows db)))
      | Some i \<Rightarrow>
          (let nodes = filter (in_filter f) (db_rows db)
           in if nodes = [] then (db, 0)
              else let gone = collect_subtree nodes [i] []
                   in if gone = [] then (db, 0)
                      else (db\<lparr>db_rows := filter (\<lambda>e. me_id e \<notin> set gone) (db_rows db)\<rparr>,
                            length (filter (\<lambda>e. me_id e \<in> set gone) (db_rows db)))))"

section \<open>Paths\<close>

datatype memory_error =
    Path_required
  | Dotdot_not_allowed
  | Dollar_not_allowed
  | Invalid_segment string
  | Thread_id_required
  | Document_not_found
  | Append_requires_path

text \<open>\<open>s.replace(/c+/g, r)\<close>\<close>

fun collapse_runs :: "char \<Rightarrow> char \<Rightarrow> string \<Rightarrow> string" where
  "collapse_runs c r [] = []"
| "collapse_runs c r [x] = [if x = c then r else x]"
| "collapse_runs c r (x # y # s) =
     (if x = c \<and> y = c then collapse_runs c r (y # s)
      else (if x = c then r else x) # collapse_runs c r (y # s))"

definition strip_trailing :: "char \<Rightarrow> string \<Rightarrow> string" where
  "strip_trailing c s = rev (dropWhile (\<lambda>x. x = c) (rev s))"

definition valid_char :: "char \<Rightarrow> bool" where
  "valid_char c \<longleftrightarrow> c \<in> set ''ABCDEFGHIJKLMNOPQRSTUVWXYZabcdefghijklmnopqrstuvwxyz0123456789_. -''"

definition valid_segment :: "string \<Rightarrow> bool" where
  "valid_segment s \<longleftrightarrow> s \<noteq> [] \<and> list_all valid_char s"

definition get_segments :: "string \<Rightarrow> string list" where
  "get_segments path = (if path = ''/'' then [] else js_split ''/'' (tl path))"

definition slash :: char where
  "slash = CHR ''/''"

text \<open>The rewriting of a non-empty path: one slash between segments, one in front, none at the end.\<close>

definition canonical_slashes :: "string \<Rightarrow> string" where
  "canonical_slashes p1 =
     (let p2 = collapse_runs slash slash p1;
          p3 = collapse_runs slash slash (if js_starts_with p2 ''/'' then p2 else slash # p2);
          p4 = (if length p3 > 1 \<and> js_ends_with p3 ''/'' then strip_trailing slash p3 else p3)
      in if p4 = [] then ''/'' else p4)"

definition check_path :: "bool \<Rightarrow> string \<Rightarrow> memory_error + string" where
  "check_path allow_root p =
     (if p = ''/'' \<and> allow_root then Inr ''/''
      else if p = ''/'' then Inl Path_required
      else if js_includes p ''..'' then Inl Dotdot_not_allowed
      else if js_includes p ''$'' then Inl Dollar_not_allowed
      else case find (\<lambda>seg. \<not> valid_segment seg) (get_segments p) of
             Some seg \<Rightarrow> Inl (Invalid_segment seg)
           | None \<Rightarrow> Inr p)"

definition normalize_path :: "bool \<Rightarrow> string option \<Rightarrow> memory_error + string" where
  "normalize_path allow_root raw =
     (case raw of
        None \<Rightarrow> Inl Path_required
      | Some p0 \<Rightarrow>
          if length p0 = 0 then (if allow_root then Inr ''/'' else Inl Path_required)
          else
            (let p1 = js_trim (collapse_runs (CHR 0x5C) slash p0)
             in if length p1 = 0 then (if allow_root then Inr ''/'' else Inl Path_required)
                else check_path allow_root (canonical_slashes p1)))"

definition build_filter :: "string \<Rightarrow> memory_scope \<Rightarrow> string option \<Rightarrow> memory_error + repo_filter" where
  "build_filter node scope thread =
     (case scope of
        Per_thread \<Rightarrow>
          (case thread of
             None \<Rightarrow> Inl Thread_id_required
           | Some t \<Rightarrow>
               if length (js_trim t) = 0 then Inl Thread_id_required
               else Inr \<lparr>rf_node = node, rf_thread = Some (js_trim t)\<rparr>)
      | Global \<Rightarrow> Inr \<lparr>rf_node = node, rf_thread = None\<rparr>)"

section \<open>The service\<close>

text \<open>
  Every operation first builds the filter and then normalises the path; \<open>with_path\<close> is that
  beginning.
\<close>

definition with_path ::
  "string \<Rightarrow> memory_scope \<Rightarrow> string option \<Rightarrow> bool \<Rightarrow> string option \<Rightarrow>
   (repo_filter \<Rightarrow> string \<Rightarrow> memory_error + 'a) \<Rightarrow> memory_error + 'a" where
  "with_path node scope thread allow_root path k =
     (case build_filter node scope thread of
        Inl e \<Rightarrow> Inl e
      | Inr f \<Rightarrow>
          (case normalize_path allow_root path of
             Inl e \<Rightarrow> Inl e
           | Inr p \<Rightarrow> k f p))"

definition memory_ensure_dir ::
  "string \<Rightarrow> memory_scope \<Rightarrow> string option \<Rightarrow> string \<Rightarrow> memory_db \<Rightarrow> memory_error + memory_db" where
  "memory_ensure_dir node scope thread path db =
     with_path node scope thread True (Some path)
       (\<lambda>f p. if p = ''/'' then Inr db else Inr (fst (ensure_path f (get_segments p) db)))"

definition memory_stat ::
  "(string \<Rightarrow> string \<Rightarrow> bool) \<Rightarrow> string \<Rightarrow> memory_scope \<Rightarrow> string option \<Rightarrow> string \<Rightarrow> memory_db \<Rightarrow>
   memory_error + stat_result" where
  "memory_stat name_le node scope thread path db =
     with_path node scope thread True (Some path)
       (\<lambda>f p.
          if p = ''/'' then
            Inr \<lparr>st_exists = True, st_has_subdocs = length (list_children name_le db f None) > 0,
                 st_content_length = 0\<rparr>
          else
            (case resolve_path db f (get_segments p) of
               None \<Rightarrow> Inr \<lparr>st_exists = False, st_has_subdocs = False, st_content_length = 0\<rparr>
             | Some e \<Rightarrow>
                 Inr \<lparr>st_exists = True, st_has_subdocs = entity_has_children db (me_id e),
                      st_content_length = (case me_content e of None \<Rightarrow> 0 | Some c \<Rightarrow> utf8_length c)\<rparr>))"

definition memory_list ::
  "(string \<Rightarrow> string \<Rightarrow> bool) \<Rightarrow> string \<Rightarrow> memory_scope \<Rightarrow> string option \<Rightarrow> string \<Rightarrow> memory_db \<Rightarrow>
   memory_error + list_entry list" where
  "memory_list name_le node scope thread raw db =
     with_path node scope thread True (Some (if raw = [] then ''/'' else raw))
       (\<lambda>f p.
          let segs = get_segments p;
              entries = (\<lambda>parent. map (\<lambda>(e, subs). \<lparr>le_name = me_name e, le_has_subdocs = subs\<rparr>)
                           (list_children name_le db f parent))
          in if segs = [] then Inr (entries None)
             else (case resolve_path db f segs of
                     None \<Rightarrow> Inr []
                   | Some e \<Rightarrow> Inr (entries (Some (me_id e)))))"

definition content_or_empty :: "memory_entity \<Rightarrow> string" where
  "content_or_empty e = (case me_content e of None \<Rightarrow> [] | Some c \<Rightarrow> c)"

definition memory_read ::
  "string \<Rightarrow> memory_scope \<Rightarrow> string option \<Rightarrow> string \<Rightarrow> memory_db \<Rightarrow> memory_error + string" where
  "memory_read node scope thread path db =
     with_path node scope thread True (Some path)
       (\<lambda>f p.
          if p = ''/'' then Inr []
          else (case resolve_path db f (get_segments p) of
                  None \<Rightarrow> Inl Document_not_found
                | Some e \<Rightarrow> Inr (content_or_empty e)))"

definition newline :: string where
  "newline = [CHR 0x0A]"

definition appended :: "string \<Rightarrow> string \<Rightarrow> string" where
  "appended base data =
     (if length base = 0 then data
      else base @ (if length base > 0 \<and> \<not> js_ends_with base newline \<and> \<not> js_starts_with data newline
                   then newline else []) @ data)"

definition memory_append ::
  "string \<Rightarrow> memory_scope \<Rightarrow> string option \<Rightarrow> string \<Rightarrow> string \<Rightarrow> memory_db \<Rightarrow> memory_error + memory_db" where
  "memory_append node scope thread path data db =
     with_path node scope thread False (Some path)
       (\<lambda>f p.
          let segs = get_segments p
          in if segs = [] then Inl Append_requires_path
             else (case ensure_path f segs db of
                     (db1, None) \<Rightarrow> Inl Append_requires_path
                   | (db1, Some e) \<Rightarrow>
                       Inr (update_content (me_id e) (appended (content_or_empty e) data) db1)))"

definition memory_update ::
  "string \<Rightarrow> memory_scope \<Rightarrow> string option \<Rightarrow> string \<Rightarrow> string \<Rightarrow> string \<Rightarrow> memory_db \<Rightarrow>
   memory_error + memory_db \<times> nat" where
  "memory_update node scope thread path old_str new_str db =
     with_path node scope thread False (Some path)
       (\<lambda>f p.
          case resolve_path db f (get_segments p) of
            None \<Rightarrow> Inl Document_not_found
          | Some e \<Rightarrow>
              if length old_str = 0 then Inr (db, 0)
              else
                let parts = js_split old_str (content_or_empty e);
                    count = length parts - 1
                in if count = 0 then Inr (db, 0)
                   else Inr (update_content (me_id e) (js_join new_str parts) db, count))"

definition memory_delete ::
  "string \<Rightarrow> memory_scope \<Rightarrow> string option \<Rightarrow> string option \<Rightarrow> memory_db \<Rightarrow>
   memory_error + memory_db \<times> nat" where
  "memory_delete node scope thread raw db =
     with_path node scope thread True (Some (case raw of None \<Rightarrow> ''/'' | Some p \<Rightarrow> p))
       (\<lambda>f p.
          if p = ''/'' then Inr (delete_subtree f None db)
          else
            let segs = get_segments p
            in if segs = [] then Inr (db, 0)
               else (case resolve_path db f segs of
                       None \<Rightarrow> Inr (db, 0)
                     | Some e \<Rightarrow> Inr (delete_subtree f (Some (me_id e)) db)))"

section \<open>Listing a whole memory\<close>

text \<open>
  The memoised recursion over parents.  The code recurses without a bound; \<open>fuel\<close> is the depth of
  recursion, and running out of it is the value \<^const>\<open>None\<close>.
\<close>

fun entity_path ::
  "nat \<Rightarrow> (nat \<times> memory_entity) list \<Rightarrow> (nat \<times> string) list \<Rightarrow> memory_entity \<Rightarrow>
   ((nat \<times> string) list \<times> string) option" where
  "entity_path 0 by_id cache e = None"
| "entity_path (Suc fuel) by_id cache e =
     (case map_of cache (me_id e) of
        Some (c # cs) \<Rightarrow> Some (cache, c # cs)
      | _ \<Rightarrow>
          (case Option.bind (me_parent e) (map_of by_id) of
             None \<Rightarrow>
               (let path = slash # me_name e in Some (AList.update (me_id e) path cache, path))
           | Some parent \<Rightarrow>
               (case entity_path fuel by_id cache parent of
                  None \<Rightarrow> None
                | Some (cache1, parent_path) \<Rightarrow>
                    (let path = (if parent_path \<noteq> [] then parent_path @ slash # me_name e
                                 else slash # me_name e)
                     in Some (AList.update (me_id e) path cache1, path)))))"

fun path_map_loop ::
  "nat \<Rightarrow> (nat \<times> memory_entity) list \<Rightarrow> (nat \<times> string) list \<Rightarrow> memory_entity list \<Rightarrow>
   (nat \<times> string) list option" where
  "path_map_loop fuel by_id cache [] = Some cache"
| "path_map_loop fuel by_id cache (e # es) =
     (case entity_path fuel by_id cache e of
        None \<Rightarrow> None
      | Some (cache1, _) \<Rightarrow> path_map_loop fuel by_id cache1 es)"

definition build_path_map :: "memory_entity list \<Rightarrow> (nat \<times> string) list option" where
  "build_path_map es = path_map_loop (Suc (length es)) (index_by me_id es) [] es"

definition memory_get_all ::
  "(memory_entity \<Rightarrow> memory_entity \<Rightarrow> bool) \<Rightarrow> string \<Rightarrow> memory_scope \<Rightarrow> string option \<Rightarrow> memory_db \<Rightarrow>
   (memory_error + (string \<times> string) list) option" where
  "memory_get_all row_le node scope thread db =
     (case build_filter node scope thread of
        Inl e \<Rightarrow> Some (Inl e)
      | Inr f \<Rightarrow>
          (let es = list_all_entities row_le db f
           in if length es = 0 then Some (Inr [])
              else map_option (\<lambda>paths. Inr (fold (\<lambda>e out.
                       case me_content e of
                         None \<Rightarrow> out
                       | Some c \<Rightarrow> AList.update (the (map_of paths (me_id e))) c out) es []))
                     (build_path_map es)))"

definition memory_dump ::
  "(memory_entity \<Rightarrow> memory_entity \<Rightarrow> bool) \<Rightarrow> string \<Rightarrow> memory_scope \<Rightarrow> string option \<Rightarrow> memory_db \<Rightarrow>
   (memory_error + (string \<times> string) list \<times> string list) option" where
  "memory_dump row_le node scope thread db =
     (case build_filter node scope thread of
        Inl e \<Rightarrow> Some (Inl e)
      | Inr f \<Rightarrow>
          (let es = list_all_entities row_le db f
           in if length es = 0 then Some (Inr ([], []))
              else map_option (\<lambda>paths. Inr (fold (\<lambda>e (data, dirs).
                       (let path = the (map_of paths (me_id e))
                        in ((case me_content e of None \<Rightarrow> data | Some c \<Rightarrow> AList.update path c data),
                            (if \<exists>c \<in> set es. me_parent c = Some (me_id e) then set_add path dirs else dirs))))
                       es ([], [])))
                     (build_path_map es)))"

section \<open>Listing the documents\<close>

definition normalize_thread_id :: "string option \<Rightarrow> string option" where
  "normalize_thread_id t =
     (case t of None \<Rightarrow> None | Some s \<Rightarrow> (if length (js_trim s) > 0 then Some (js_trim s) else None))"

definition threads_add ::
  "string \<Rightarrow> string \<Rightarrow> (string \<times> string list) list \<Rightarrow> (string \<times> string list) list" where
  "threads_add node t m =
     AList.update node (set_add t (case map_of m node of None \<Rightarrow> [] | Some ts \<Rightarrow> ts)) m"

definition build_docs_response ::
  "(string \<Rightarrow> string \<Rightarrow> bool) \<Rightarrow> (string \<times> memory_scope) list \<Rightarrow> (string \<times> string list) list \<Rightarrow>
   (string \<times> memory_scope \<times> string option) list" where
  "build_docs_response le scopes threads =
     concat (map (\<lambda>(node, scope).
         (node, scope, None) #
         (if scope \<noteq> Per_thread then []
          else map (\<lambda>t. (node, scope, Some t))
                 (sort_by le (case map_of threads node of None \<Rightarrow> [] | Some ts \<Rightarrow> ts))))
       (sort_by (\<lambda>a b. le (fst a) (fst b)) scopes))"

fun docs_from_rows ::
  "(string \<times> string option) list \<Rightarrow> (string \<times> memory_scope) list \<Rightarrow> (string \<times> string list) list \<Rightarrow>
   (string \<times> memory_scope) list \<times> (string \<times> string list) list" where
  "docs_from_rows [] scopes threads = (scopes, threads)"
| "docs_from_rows ((node, thread) # rows) scopes threads =
     (let t = normalize_thread_id thread;
          current = map_of scopes node;
          scopes1 = (if current = None \<or> current = Some Global
                     then AList.update node
                            (if t \<noteq> None then Per_thread
                             else case current of None \<Rightarrow> Global | Some s \<Rightarrow> s) scopes
                     else scopes);
          threads1 = (case t of None \<Rightarrow> threads | Some x \<Rightarrow> threads_add node x threads)
      in docs_from_rows rows scopes1 threads1)"

definition build_docs_from_persistence ::
  "(string \<Rightarrow> string \<Rightarrow> bool) \<Rightarrow> (string \<times> string option) list \<Rightarrow>
   (string \<times> memory_scope \<times> string option) list" where
  "build_docs_from_persistence le rows =
     (let (scopes, threads) = docs_from_rows rows [] [] in build_docs_response le scopes threads)"

fun graph_scopes ::
  "(string \<times> string \<times> bool) list \<Rightarrow> (string \<times> memory_scope) list \<Rightarrow> (string \<times> memory_scope) list" where
  "graph_scopes [] scopes = scopes"
| "graph_scopes ((node, template, per_thread) # ns) scopes =
     graph_scopes ns
       (if template \<noteq> ''memory'' \<or> map_of scopes node \<noteq> None then scopes
        else AList.update node (if per_thread then Per_thread else Global) scopes)"

fun graph_threads ::
  "(string \<times> memory_scope) list \<Rightarrow> (string \<times> string option) list \<Rightarrow> (string \<times> string list) list \<Rightarrow>
   (string \<times> string list) list" where
  "graph_threads scopes [] threads = threads"
| "graph_threads scopes ((node, thread) # rows) threads =
     graph_threads scopes rows
       (if map_of scopes node \<noteq> Some Per_thread then threads
        else case normalize_thread_id thread of
               None \<Rightarrow> threads
             | Some t \<Rightarrow> threads_add node t threads)"

text \<open>A graph node is its identifier, template and whether its configured scope is \<open>perThread\<close>.\<close>

definition build_docs_from_graph ::
  "(string \<Rightarrow> string \<Rightarrow> bool) \<Rightarrow> (string \<times> string \<times> bool) list \<Rightarrow> (string \<times> string option) list \<Rightarrow>
   (string \<times> memory_scope \<times> string option) list" where
  "build_docs_from_graph le nodes rows =
     (let scopes = graph_scopes nodes []
      in build_docs_response le scopes (graph_threads scopes rows []))"

definition list_docs ::
  "(string \<Rightarrow> string \<Rightarrow> bool) \<Rightarrow> (string \<times> string \<times> bool) list option \<Rightarrow> memory_db \<Rightarrow>
   (string \<times> memory_scope \<times> string option) list" where
  "list_docs le graph_nodes db =
     (case graph_nodes of
        None \<Rightarrow> build_docs_from_persistence le (list_distinct_node_threads db)
      | Some ns \<Rightarrow> build_docs_from_graph le ns (list_distinct_node_threads db))"

end
