(* ===== verification/Memory_Paths.thy ===== *)
theory Memory_Paths
  imports Memory
begin

text \<open>
  The laws of the memory: rows form a forest per node and thread, a path resolves to at most one row
  and a row to one path, writing a document changes that document only, and deleting a path removes
  exactly what lies below it.
\<close>

section \<open>A store of documents under paths\<close>

text \<open>What the service relies on in the repository, for documents of any kind of path.\<close>

locale path_store =
  fixes inv :: "'s \<Rightarrow> bool"
    and lookup :: "'s \<Rightarrow> 'f \<Rightarrow> 'p list \<Rightarrow> 'i option"
    and content :: "'s \<Rightarrow> 'i \<Rightarrow> string"
    and ensure :: "'f \<Rightarrow> 'p list \<Rightarrow> 's \<Rightarrow> 's \<times> 'i option"
    and put_doc :: "'i \<Rightarrow> string \<Rightarrow> 's \<Rightarrow> 's"
  assumes ensure_inv: "inv s \<Longrightarrow> inv (fst (ensure f p s))"
    and ensure_found: "inv s \<Longrightarrow> p \<noteq> [] \<Longrightarrow>
      \<exists>i. snd (ensure f p s) = Some i \<and> lookup (fst (ensure f p s)) f p = Some i
          \<and> content (fst (ensure f p s)) i
              = (case lookup s f p of None \<Rightarrow> [] | Some j \<Rightarrow> content s j)"
    and ensure_keeps: "inv s \<Longrightarrow> lookup s g q = Some j \<Longrightarrow>
      lookup (fst (ensure f p s)) g q = Some j \<and> content (fst (ensure f p s)) j = content s j"
    and lookup_inj: "inv s \<Longrightarrow> lookup s f p = Some i \<Longrightarrow> lookup s g q = Some i \<Longrightarrow> f = g \<and> p = q"
    and write_inv: "inv s \<Longrightarrow> inv (put_doc i c s)"
    and lookup_write: "lookup (put_doc i c s) g q = lookup s g q"
    and content_write: "inv s \<Longrightarrow> lookup s f p = Some i \<Longrightarrow>
      content (put_doc i c s) j = (if j = i then c else content s j)"
begin

definition read :: "'s \<Rightarrow> 'f \<Rightarrow> 'p list \<Rightarrow> string option" where
  "read s f p = map_option (content s) (lookup s f p)"

definition modify :: "'f \<Rightarrow> 'p list \<Rightarrow> (string \<Rightarrow> string) \<Rightarrow> 's \<Rightarrow> 's" where
  "modify f p h s =
     (let (s1, r) = ensure f p s
      in case r of None \<Rightarrow> s1 | Some i \<Rightarrow> put_doc i (h (content s1 i)) s1)"

lemma modify_inv: "inv s \<Longrightarrow> inv (modify f p h s)"
  using ensure_inv[of s f p] by (auto simp: modify_def split_beta write_inv split: option.split)

lemma read_modify_same:
  assumes "inv s" "p \<noteq> []"
  shows "read (modify f p h s) f p = Some (h (case read s f p of None \<Rightarrow> [] | Some c \<Rightarrow> c))"
proof -
  obtain i where i: "snd (ensure f p s) = Some i" "lookup (fst (ensure f p s)) f p = Some i"
    "content (fst (ensure f p s)) i = (case lookup s f p of None \<Rightarrow> [] | Some j \<Rightarrow> content s j)"
    using ensure_found[OF assms] by blast
  have m: "modify f p h s = put_doc i (h (content (fst (ensure f p s)) i)) (fst (ensure f p s))"
    by (simp add: modify_def split_beta i(1))
  show ?thesis
    by (simp add: m read_def lookup_write i(2) content_write[OF ensure_inv[OF assms(1)] i(2)] i(3)
        split: option.split)
qed

lemma read_modify_other:
  assumes "inv s" "p \<noteq> []" "read s g q = Some c" "(g, q) \<noteq> (f, p)"
  shows "read (modify f p h s) g q = Some c"
proof -
  obtain i where i: "snd (ensure f p s) = Some i" "lookup (fst (ensure f p s)) f p = Some i"
    using ensure_found[OF assms(1,2)] by blast
  obtain j where j: "lookup s g q = Some j" "content s j = c" using assms(3) by (auto simp: read_def)
  note k = ensure_keeps[OF assms(1) j(1), of f p]
  have "i \<noteq> j" using lookup_inj[OF ensure_inv[OF assms(1)] i(2)] k assms(4) by blast
  then show ?thesis
    by (simp add: modify_def split_beta i(1) read_def lookup_write k j(2)
        content_write[OF ensure_inv[OF assms(1)] i(2)])
qed

end

section \<open>Rows form a forest\<close>

definition db_ok :: "memory_db \<Rightarrow> bool" where
  "db_ok db \<longleftrightarrow>
     distinct (map me_id (db_rows db))
     \<and> (\<forall>e \<in> set (db_rows db). me_id e < db_next db)
     \<and> (\<forall>e \<in> set (db_rows db). \<forall>i. me_parent e = Some i \<longrightarrow>
          (\<exists>p \<in> set (db_rows db). me_id p = i \<and> i < me_id e
             \<and> me_node p = me_node e \<and> me_thread p = me_thread e))
     \<and> (\<forall>a \<in> set (db_rows db). \<forall>b \<in> set (db_rows db).
          me_node a = me_node b \<and> me_thread a = me_thread b \<and> me_parent a = me_parent b
          \<and> me_name a = me_name b \<longrightarrow> a = b)"

lemma db_okI:
  assumes "distinct (map me_id (db_rows db))"
    and "\<And>e. e \<in> set (db_rows db) \<Longrightarrow> me_id e < db_next db"
    and "\<And>e i. e \<in> set (db_rows db) \<Longrightarrow> me_parent e = Some i \<Longrightarrow>
      \<exists>p \<in> set (db_rows db). me_id p = i \<and> i < me_id e \<and> me_node p = me_node e \<and> me_thread p = me_thread e"
    and "\<And>a b. a \<in> set (db_rows db) \<Longrightarrow> b \<in> set (db_rows db) \<Longrightarrow> me_node a = me_node b \<Longrightarrow>
      me_thread a = me_thread b \<Longrightarrow> me_parent a = me_parent b \<Longrightarrow> me_name a = me_name b \<Longrightarrow> a = b"
  shows "db_ok db"
  unfolding db_ok_def
  by (intro conjI ballI allI impI; (elim conjE)?) (rule assms; assumption)+

lemma siblings_distinct:
  "db_ok db \<Longrightarrow> a \<in> set (db_rows db) \<Longrightarrow> b \<in> set (db_rows db) \<Longrightarrow> me_node a = me_node b \<Longrightarrow>
   me_thread a = me_thread b \<Longrightarrow> me_parent a = me_parent b \<Longrightarrow> me_name a = me_name b \<Longrightarrow> a = b"
  unfolding db_ok_def by blast

lemma find_append: "find P (xs @ ys) = (case find P xs of None \<Rightarrow> find P ys | Some x \<Rightarrow> Some x)"
  by (induction xs) auto

lemma find_map: "find P (map f xs) = map_option f (find (P \<circ> f) xs)"
  by (induction xs) auto

lemma find_SomeD: "find P xs = Some x \<Longrightarrow> x \<in> set xs \<and> P x"
  by (metis find_Some_iff nth_mem)

lemma find_child_SomeD:
  assumes "find_child db f par s = Some e"
  shows "e \<in> set (db_rows db)" "in_filter f e" "me_parent e = par" "me_name e = s"
  using find_SomeD[OF assms[unfolded find_child_def]] by auto

lemma traverse_existing_append:
  "traverse_existing db f par cur (p @ q) =
     (if p = [] then traverse_existing db f par cur q
      else case traverse_existing db f par cur p of
             None \<Rightarrow> None
           | Some e \<Rightarrow> traverse_existing db f (Some (me_id e)) (Some e) q)"
  by (induction p arbitrary: par cur) (auto split: option.split)

definition parent_of_path :: "memory_db \<Rightarrow> repo_filter \<Rightarrow> string list \<Rightarrow> nat option option" where
  "parent_of_path db f p =
     (if p = [] then Some None else map_option (\<lambda>e. Some (me_id e)) (resolve_path db f p))"

lemma resolve_path_snoc:
  "resolve_path db f (p @ [s]) = Option.bind (parent_of_path db f p) (\<lambda>par. find_child db f par s)"
  by (auto simp: resolve_path_def parent_of_path_def traverse_existing_append split: option.split)

lemma resolve_path_Nil [simp]: "resolve_path db f [] = None"
  by (simp add: resolve_path_def)

lemma resolve_path_in: "resolve_path db f p = Some e \<Longrightarrow> e \<in> set (db_rows db) \<and> in_filter f e"
  by (cases p rule: rev_cases)
    (auto simp: resolve_path_snoc dest: find_child_SomeD split: bind_splits)

lemma same_id: "db_ok db \<Longrightarrow> a \<in> set (db_rows db) \<Longrightarrow> b \<in> set (db_rows db) \<Longrightarrow> me_id a = me_id b \<Longrightarrow> a = b"
  by (auto simp: db_ok_def distinct_map inj_on_def)

lemma resolve_path_inj:
  "db_ok db \<Longrightarrow> resolve_path db f p = Some a \<Longrightarrow> resolve_path db g q = Some b \<Longrightarrow> me_id a = me_id b \<Longrightarrow>
   f = g \<and> p = q"
proof (induction p arbitrary: q a b rule: rev_induct)
  case Nil
  then show ?case by simp
next
  case (snoc s p)
  then obtain t q' where q: "q = q' @ [t]" by (cases q rule: rev_cases) auto
  have ab: "a = b" using snoc.prems same_id resolve_path_in by metis
  have filt: "f = g" using resolve_path_in[OF snoc.prems(2)] resolve_path_in[OF snoc.prems(3)] ab
    by (cases f; cases g) (simp add: in_filter_def)
  obtain par where par: "parent_of_path db f p = Some par" "find_child db f par s = Some a"
    using snoc.prems(2) by (auto simp: resolve_path_snoc split: bind_splits)
  obtain par' where par': "parent_of_path db g q' = Some par'" "find_child db g par' t = Some b"
    using snoc.prems(3) by (auto simp: q resolve_path_snoc split: bind_splits)
  have eq: "par = par'" "s = t" using find_child_SomeD[OF par(2)] find_child_SomeD[OF par'(2)] ab by auto
  have "p = q'"
  proof (cases "p = []")
    case True
    then show ?thesis using par(1) par'(1) eq by (auto simp: parent_of_path_def split: if_splits)
  next
    case False
    then obtain a' where a': "resolve_path db f p = Some a'" "par = Some (me_id a')"
      using par(1) by (auto simp: parent_of_path_def)
    then obtain b' where "resolve_path db g q' = Some b'" "par' = Some (me_id b')"
      using par'(1) eq by (auto simp: parent_of_path_def split: if_splits)
    with snoc.IH[OF snoc.prems(1) a'(1)] a'(2) eq show ?thesis by simp
  qed
  with filt eq q show ?case by simp
qed

lemma parent_less:
  "db_ok db \<Longrightarrow> e \<in> set (db_rows db) \<Longrightarrow> me_parent e = Some i \<Longrightarrow> i < me_id e \<and> i < db_next db"
  unfolding db_ok_def by (meson less_trans)

lemma row_parent:
  "db_ok db \<Longrightarrow> e \<in> set (db_rows db) \<Longrightarrow> me_parent e = Some i \<Longrightarrow>
   \<exists>p \<in> set (db_rows db). me_id p = i \<and> me_node p = me_node e \<and> me_thread p = me_thread e"
  unfolding db_ok_def by blast

section \<open>Creating and writing\<close>

definition db_extends :: "memory_db \<Rightarrow> memory_db \<Rightarrow> bool" where
  "db_extends db db' \<longleftrightarrow>
     (\<exists>new. db_rows db' = db_rows db @ new \<and> (\<forall>e \<in> set new. db_next db \<le> me_id e))
     \<and> db_next db \<le> db_next db'"

lemma db_extends_refl [simp]: "db_extends db db"
  by (simp add: db_extends_def)

lemma db_extends_trans: "db_extends a b \<Longrightarrow> db_extends b c \<Longrightarrow> db_extends a c"
  by (fastforce simp: db_extends_def)

lemma find_child_extends:
  "db_extends db db' \<Longrightarrow> find_child db f par s = Some e \<Longrightarrow> find_child db' f par s = Some e"
  by (auto simp: db_extends_def find_child_def find_append)

lemma traverse_extends:
  "db_extends db db' \<Longrightarrow> traverse_existing db f par cur p = Some e \<Longrightarrow>
   traverse_existing db' f par cur p = Some e"
  by (induction p arbitrary: par cur) (auto dest: find_child_extends split: option.splits)

lemma resolve_extends:
  "db_extends db db' \<Longrightarrow> resolve_path db f p = Some e \<Longrightarrow> resolve_path db' f p = Some e"
  by (auto simp: resolve_path_def dest: traverse_extends split: if_splits)

definition parent_ok :: "memory_db \<Rightarrow> repo_filter \<Rightarrow> nat option \<Rightarrow> bool" where
  "parent_ok db f par \<longleftrightarrow>
     (\<forall>i. par = Some i \<longrightarrow> (\<exists>p \<in> set (db_rows db). me_id p = i \<and> in_filter f p))"

lemma create_entity_ok:
  assumes "db_ok db" "parent_ok db f par" "find_child db f par s = None"
    and "create_entity f par s db = (db1, e)"
  shows "db_ok db1" "db_extends db db1" "find_child db1 f par s = Some e" "me_content e = None"
    "in_filter f e" "e \<in> set (db_rows db1)" "me_id e = db_next db"
proof -
  have e: "e = \<lparr>me_id = db_next db, me_node = rf_node f, me_thread = rf_thread f, me_parent = par,
               me_name = s, me_content = None\<rparr>"
    and db1: "db1 = db\<lparr>db_rows := db_rows db @ [e], db_next := Suc (db_next db)\<rparr>"
    using assms(4) by (auto simp: create_entity_def Let_def)
  show "db_extends db db1" by (auto simp: db1 db_extends_def e)
  show "find_child db1 f par s = Some e"
    using assms(3) by (simp add: db1 find_child_def find_append) (simp add: e in_filter_def)
  show "me_content e = None" "in_filter f e" "me_id e = db_next db" by (simp_all add: e in_filter_def)
  show "e \<in> set (db_rows db1)" by (simp add: db1)
  have lt: "\<forall>x \<in> set (db_rows db). me_id x < db_next db" using assms(1) by (simp add: db_ok_def)
  have none: "\<not> (in_filter f x \<and> me_parent x = par \<and> me_name x = s)" if "x \<in> set (db_rows db)" for x
    using assms(3) that by (auto simp: find_child_def find_None_iff)
  have d: "distinct (map me_id (db_rows db1))" "\<forall>x \<in> set (db_rows db1). me_id x < db_next db1"
    using assms(1) lt by (auto simp: db_ok_def db1 e)
  have par: "\<exists>p \<in> set (db_rows db1). me_id p = i \<and> i < me_id x
      \<and> me_node p = me_node x \<and> me_thread p = me_thread x"
    if x: "x \<in> set (db_rows db1)" "me_parent x = Some i" for x i
  proof (cases "x = e")
    case True
    then obtain p where "p \<in> set (db_rows db)" "me_id p = i" "in_filter f p"
      using assms(2) x(2) by (auto simp: parent_ok_def e)
    with lt True show ?thesis by (auto simp: db1 e in_filter_def)
  next
    case False
    then have old: "x \<in> set (db_rows db)" using x(1) by (simp add: db1)
    from row_parent[OF assms(1) old x(2)] parent_less[OF assms(1) old x(2)]
    show ?thesis by (auto simp: db1)
  qed
  have sib: "a = b"
    if ab: "a \<in> set (db_rows db1)" "b \<in> set (db_rows db1)" "me_node a = me_node b" "me_thread a = me_thread b"
      "me_parent a = me_parent b" "me_name a = me_name b" for a b
  proof -
    have fe: "me_node e = rf_node f" "me_thread e = rf_thread f" "me_parent e = par" "me_name e = s"
      unfolding e by simp_all
    have new: "x \<notin> set (db_rows db)"
      if "me_node x = me_node e" "me_thread x = me_thread e" "me_parent x = me_parent e" "me_name x = me_name e"
      for x using none[of x] that fe by (auto simp: in_filter_def)
    have rows: "set (db_rows db1) = insert e (set (db_rows db))" by (simp add: db1)
    consider "a = e" | "b = e" | "a \<in> set (db_rows db)" "b \<in> set (db_rows db)" using ab(1,2) rows by blast
    then show ?thesis
    proof cases
      case 1
      then show ?thesis using new[of b] ab rows by auto
    next
      case 2
      then show ?thesis using new[of a] ab rows by auto
    next
      case 3
      then show ?thesis using siblings_distinct[OF assms(1)] ab by blast
    qed
  qed
  show "db_ok db1"
    by (rule db_okI) (rule d(1) d(2)[rule_format] par sib; assumption?)+
qed

lemma parent_ok_found:
  "find_child db f par s = Some e \<Longrightarrow> parent_ok db f (Some (me_id e))"
  using find_child_SomeD[of db f par s e] by (auto simp: parent_ok_def)

lemma traverse_creating_ok:
  assumes "db_ok db" "parent_ok db f par" "traverse_creating f par cur p db = (db', r)"
  shows "db_ok db' \<and> db_extends db db' \<and> traverse_existing db' f par cur p = r
    \<and> (p \<noteq> [] \<longrightarrow> r \<noteq> None)
    \<and> (\<forall>e. r = Some e \<longrightarrow> me_content e = None \<or> traverse_existing db f par cur p = Some e)
    \<and> (\<forall>e. p \<noteq> [] \<longrightarrow> traverse_existing db f par cur p = Some e \<longrightarrow> db' = db)"
  using assms
proof (induction p arbitrary: par cur db)
  case Nil
  then show ?case by simp
next
  case (Cons s p)
  show ?case
  proof (cases "find_child db f par s")
    case (Some e)
    then have run: "traverse_creating f (Some (me_id e)) (Some e) p db = (db', r)"
      using Cons.prems(3) by simp
    note ih = Cons.IH[OF Cons.prems(1) parent_ok_found[OF Some] run]
    have "find_child db' f par s = Some e" using ih find_child_extends[OF _ Some] by blast
    moreover have "p = [] \<Longrightarrow> r = Some e \<and> db' = db" using run by simp
    ultimately show ?thesis using ih Some by (cases "p = []") auto
  next
    case None
    obtain db1 e where c: "create_entity f par s db = (db1, e)" by (cases "create_entity f par s db")
    note ce = create_entity_ok[OF Cons.prems(1,2) None c]
    have run: "traverse_creating f (Some (me_id e)) (Some e) p db1 = (db', r)"
      using Cons.prems(3) None c by simp
    have par1: "parent_ok db1 f (Some (me_id e))" using ce(5,6) by (auto simp: parent_ok_def)
    note ih = Cons.IH[OF ce(1) par1 run]
    have ext: "db_extends db db'" using ih ce(2) db_extends_trans by blast
    have found: "find_child db' f par s = Some e" using ih find_child_extends[OF _ ce(3)] by blast
    have fresh: "find_child db1 f (Some (me_id e)) t = None" for t
    proof (rule ccontr)
      assume "find_child db1 f (Some (me_id e)) t \<noteq> None"
      then obtain x where x: "find_child db1 f (Some (me_id e)) t = Some x" by blast
      note m = find_child_SomeD[OF x]
      have lt: "me_id e < me_id x" using parent_less[OF ce(1) m(1,3)] by simp
      then have "x \<noteq> e" by auto
      then have "x \<in> set (db_rows db)" using m(1) c by (auto simp: create_entity_def Let_def)
      then have "me_id x < db_next db" using Cons.prems(1) by (simp add: db_ok_def)
      with lt ce(7) show False by simp
    qed
    have "me_content x = None" if "r = Some x" for x
    proof (cases p)
      case Nil
      then show ?thesis using run that ce(4) by simp
    next
      case (Cons t p')
      then have "traverse_existing db1 f (Some (me_id e)) (Some e) p = None" using fresh by simp
      then show ?thesis using ih that by auto
    qed
    moreover have "p = [] \<Longrightarrow> r \<noteq> None" using run by auto
    ultimately show ?thesis using ih ext found None by auto
  qed
qed

definition row_content :: "memory_db \<Rightarrow> nat \<Rightarrow> string" where
  "row_content db i =
     (case find (\<lambda>e. me_id e = i) (db_rows db) of None \<Rightarrow> [] | Some e \<Rightarrow> content_or_empty e)"

definition path_id :: "memory_db \<Rightarrow> repo_filter \<Rightarrow> string list \<Rightarrow> nat option" where
  "path_id db f p = map_option me_id (resolve_path db f p)"

definition ensure_id :: "repo_filter \<Rightarrow> string list \<Rightarrow> memory_db \<Rightarrow> memory_db \<times> nat option" where
  "ensure_id f p db = (let (db1, r) = ensure_path f p db in (db1, map_option me_id r))"

lemma row_content_of:
  assumes "db_ok db" "e \<in> set (db_rows db)"
  shows "row_content db (me_id e) = content_or_empty e"
proof -
  have "find (\<lambda>x. me_id x = me_id e) (db_rows db) \<noteq> None"
    using assms(2) by (auto simp: find_None_iff)
  then obtain x where x: "find (\<lambda>x. me_id x = me_id e) (db_rows db) = Some x" by blast
  then have "x = e" using find_SomeD[OF x] same_id[OF assms(1)] assms(2) by blast
  with x show ?thesis by (simp add: row_content_def)
qed

lemma row_content_extends:
  assumes "db_extends db db'" "e \<in> set (db_rows db)"
  shows "row_content db' (me_id e) = row_content db (me_id e)"
proof -
  have "find (\<lambda>x. me_id x = me_id e) (db_rows db) \<noteq> None" using assms(2) by (auto simp: find_None_iff)
  with assms(1) show ?thesis by (auto simp: row_content_def db_extends_def find_append)
qed

lemma ensure_path_ok:
  assumes "db_ok db" "ensure_path f p db = (db', r)"
  shows "db_ok db'" "db_extends db db'" "p \<noteq> [] \<Longrightarrow> resolve_path db' f p = r \<and> r \<noteq> None"
    and "r = Some e \<Longrightarrow> me_content e = None \<or> resolve_path db f p = Some e"
    and "resolve_path db f p = Some e \<Longrightarrow> db' = db"
proof -
  have par: "parent_ok db f None" by (simp add: parent_ok_def)
  have "p = [] \<Longrightarrow> db' = db \<and> r = None" using assms(2) by (simp add: ensure_path_def)
  moreover have "p \<noteq> [] \<Longrightarrow> traverse_creating f None None p db = (db', r)"
    using assms(2) by (simp add: ensure_path_def)
  ultimately show "db_ok db'" "db_extends db db'" "p \<noteq> [] \<Longrightarrow> resolve_path db' f p = r \<and> r \<noteq> None"
    and "r = Some e \<Longrightarrow> me_content e = None \<or> resolve_path db f p = Some e"
    and "resolve_path db f p = Some e \<Longrightarrow> db' = db"
    using traverse_creating_ok[OF assms(1) par, of None p db' r] assms(1)
    by (cases "p = []"; auto simp: resolve_path_def)+
qed

text \<open>What \<open>update_content\<close> does to a row.\<close>

definition rewrite_row :: "nat \<Rightarrow> string \<Rightarrow> memory_entity \<Rightarrow> memory_entity" where
  "rewrite_row i c e = (if me_id e = i then e\<lparr>me_content := Some c\<rparr> else e)"

lemma rewrite_row_fields [simp]:
  "me_id (rewrite_row i c e) = me_id e" "me_parent (rewrite_row i c e) = me_parent e"
  "me_node (rewrite_row i c e) = me_node e" "me_thread (rewrite_row i c e) = me_thread e"
  "me_name (rewrite_row i c e) = me_name e" "in_filter f (rewrite_row i c e) = in_filter f e"
  by (simp_all add: rewrite_row_def in_filter_def)

lemma update_content_fields [simp]:
  "db_rows (update_content i c db) = map (rewrite_row i c) (db_rows db)"
  "db_next (update_content i c db) = db_next db"
  by (simp_all add: update_content_def rewrite_row_def)

lemma find_child_update:
  "find_child (update_content i c db) f par s = map_option (rewrite_row i c) (find_child db f par s)"
  by (simp add: find_child_def find_map comp_def)

lemma traverse_update:
  "traverse_existing (update_content i c db) f par (map_option (rewrite_row i c) cur) p
     = map_option (rewrite_row i c) (traverse_existing db f par cur p)"
proof (induction p arbitrary: par cur)
  case (Cons s p)
  show ?case
  proof (cases "find_child db f par s")
    case None
    then show ?thesis by (simp add: find_child_update)
  next
    case (Some e)
    then show ?thesis using Cons.IH[of "Some (me_id e)" "Some e"] by (simp add: find_child_update)
  qed
qed simp

lemma resolve_update:
  "resolve_path (update_content i c db) f p = map_option (rewrite_row i c) (resolve_path db f p)"
  using traverse_update[of i c db f None None p] by (simp add: resolve_path_def)

lemma path_id_update: "path_id (update_content i c db) f p = path_id db f p"
  by (simp add: path_id_def resolve_update option.map_comp comp_def)

lemma db_ok_update:
  assumes ok: "db_ok db"
  shows "db_ok (update_content i c db)"
proof (rule db_okI)
  show "distinct (map me_id (db_rows (update_content i c db)))"
    using ok by (simp add: db_ok_def comp_def)
next
  fix e assume "e \<in> set (db_rows (update_content i c db))"
  then show "me_id e < db_next (update_content i c db)" using ok by (auto simp: db_ok_def)
next
  fix e j assume "e \<in> set (db_rows (update_content i c db))" "me_parent e = Some j"
  then obtain x where "x \<in> set (db_rows db)" "e = rewrite_row i c x" "me_parent x = Some j" by auto
  with row_parent[OF ok, of x j] parent_less[OF ok, of x j]
  show "\<exists>p \<in> set (db_rows (update_content i c db)). me_id p = j \<and> j < me_id e
      \<and> me_node p = me_node e \<and> me_thread p = me_thread e" by auto
next
  fix a b assume "a \<in> set (db_rows (update_content i c db))" "b \<in> set (db_rows (update_content i c db))"
    "me_node a = me_node b" "me_thread a = me_thread b" "me_parent a = me_parent b" "me_name a = me_name b"
  then obtain x y where xy: "x \<in> set (db_rows db)" "a = rewrite_row i c x" "y \<in> set (db_rows db)"
    "b = rewrite_row i c y" "me_node x = me_node y" "me_thread x = me_thread y"
    "me_parent x = me_parent y" "me_name x = me_name y" by auto
  then have "x = y" using siblings_distinct[OF ok] by blast
  with xy show "a = b" by simp
qed

lemma row_content_update:
  assumes "db_ok db" "e \<in> set (db_rows db)"
  shows "row_content (update_content (me_id e) c db) j = (if j = me_id e then c else row_content db j)"
proof -
  have "find (\<lambda>x. me_id x = me_id e) (db_rows db) \<noteq> None" using assms(2) by (auto simp: find_None_iff)
  then obtain x where x: "find (\<lambda>x. me_id x = me_id e) (db_rows db) = Some x" by blast
  have f: "find (\<lambda>x. me_id x = j) (map (rewrite_row (me_id e) c) (db_rows db))
      = map_option (rewrite_row (me_id e) c) (find (\<lambda>x. me_id x = j) (db_rows db))"
    by (simp add: find_map comp_def)
  show ?thesis
  proof (cases "j = me_id e")
    case True
    then show ?thesis using x find_SomeD[OF x]
      by (simp add: row_content_def f[unfolded True] content_or_empty_def rewrite_row_def)
  next
    case False
    then show ?thesis
      by (auto simp: row_content_def f content_or_empty_def rewrite_row_def split: option.split
          dest: find_SomeD)
  qed
qed

interpretation memory: path_store db_ok path_id row_content ensure_id update_content
proof
  fix db f p
  assume ok: "db_ok db"
  obtain db' r where e: "ensure_path f p db = (db', r)" by (cases "ensure_path f p db")
  note eo = ensure_path_ok[OF ok e]
  show "db_ok (fst (ensure_id f p db))" using eo(1) by (simp add: ensure_id_def e)
  show "\<exists>i. snd (ensure_id f p db) = Some i \<and> path_id (fst (ensure_id f p db)) f p = Some i
          \<and> row_content (fst (ensure_id f p db)) i
              = (case path_id db f p of None \<Rightarrow> [] | Some j \<Rightarrow> row_content db j)" if nonempty: "p \<noteq> []"
  proof -
    obtain x where x: "r = Some x" "resolve_path db' f p = Some x"
      using ensure_path_ok(3)[OF ok e nonempty] by auto
    have "row_content db' (me_id x) = content_or_empty x"
      using row_content_of[OF eo(1)] resolve_path_in[OF x(2)] by blast
    moreover have "content_or_empty x = (case path_id db f p of None \<Rightarrow> [] | Some j \<Rightarrow> row_content db j)"
    proof (cases "resolve_path db f p")
      case None
      then show ?thesis using eo(4)[OF x(1)] by (simp add: path_id_def content_or_empty_def)
    next
      case (Some y)
      then have "y = x" using eo(5)[OF Some] x(2) by simp
      with Some row_content_of[OF ok] resolve_path_in[OF Some] show ?thesis by (simp add: path_id_def)
    qed
    ultimately show ?thesis by (simp add: ensure_id_def e path_id_def x)
  qed
  show "path_id (fst (ensure_id f p db)) g q = Some j
      \<and> row_content (fst (ensure_id f p db)) j = row_content db j" if found: "path_id db g q = Some j" for g q j
  proof -
    obtain x where x: "resolve_path db g q = Some x" "j = me_id x" using found by (auto simp: path_id_def)
    then show ?thesis
      using resolve_extends[OF eo(2) x(1)] row_content_extends[OF eo(2)] resolve_path_in[OF x(1)]
      by (simp add: ensure_id_def e path_id_def)
  qed
next
  fix db f p i g q
  assume "db_ok db" "path_id db f p = Some i" "path_id db g q = Some i"
  then show "f = g \<and> p = q" using resolve_path_inj by (auto simp: path_id_def)
next
  fix db i c
  show "db_ok db \<Longrightarrow> db_ok (update_content i c db)" by (rule db_ok_update)
next
  fix i c db g q
  show "path_id (update_content i c db) g q = path_id db g q" by (rule path_id_update)
next
  fix db f p i c j
  assume "db_ok db" "path_id db f p = Some i"
  then show "row_content (update_content i c db) j = (if j = i then c else row_content db j)"
    using row_content_update resolve_path_in by (auto simp: path_id_def)
qed

end
