(* ===== verification/Memory_Service.thy ===== *)
theory Memory_Service
  imports Memory_Paths
begin

text \<open>
  What the memory tools promise: reading back what was appended or replaced, leaving every other
  document alone, deleting a path with exactly what lies below it, and paths in a normal form.
\<close>

section \<open>Normal paths\<close>

lemma normalize_non_root:
  "normalize_path False r = Inr p \<Longrightarrow> normalize_path True r = Inr p \<and> p \<noteq> ''/''"
proof -
  have "check_path False q = Inr p \<Longrightarrow> check_path True q = Inr p \<and> p \<noteq> ''/''" for q
    by (simp add: check_path_def split: if_splits option.splits)
  then show "normalize_path False r = Inr p \<Longrightarrow> normalize_path True r = Inr p \<and> p \<noteq> ''/''"
    by (cases r) (simp_all add: normalize_path_def Let_def split: if_splits)
qed

lemma get_segments_nonempty: "p \<noteq> ''/'' \<Longrightarrow> get_segments p \<noteq> []"
  by (simp add: get_segments_def js_split_nonempty)

text \<open>Where a call of the service points: the filter and the path segments.\<close>

definition locate ::
  "string \<Rightarrow> memory_scope \<Rightarrow> string option \<Rightarrow> string \<Rightarrow> memory_error + repo_filter \<times> string list" where
  "locate node scope thread path =
     with_path node scope thread True (Some path) (\<lambda>f p. Inr (f, get_segments p))"

lemma memory_read_locate:
  assumes "db_ok db"
  shows "memory_read node scope thread path db =
    (case locate node scope thread path of
       Inl e \<Rightarrow> Inl e
     | Inr (f, segs) \<Rightarrow>
         if segs = [] then Inr []
         else (case memory.read db f segs of None \<Rightarrow> Inl Document_not_found | Some c \<Rightarrow> Inr c))"
proof -
  have "memory.read db f segs = map_option content_or_empty (resolve_path db f segs)" for f segs
    using row_content_of[OF assms] resolve_path_in[of db f segs]
    by (cases "resolve_path db f segs") (simp_all add: memory.read_def path_id_def)
  moreover have "get_segments ''/'' = []" by (simp add: get_segments_def)
  ultimately show ?thesis
    using get_segments_nonempty
    by (auto simp: memory_read_def locate_def with_path_def split: sum.split option.split)
qed

lemma located:
  assumes "with_path node scope thread False (Some path) k = Inr x"
  obtains f p where "locate node scope thread path = Inr (f, get_segments p)" "get_segments p \<noteq> []"
    "k f p = Inr x"
  using assms normalize_non_root[of "Some path"] get_segments_nonempty
  by (auto simp: with_path_def locate_def split: sum.splits)

lemma located_any:
  assumes "with_path node scope thread True (Some path) k = Inr x"
  obtains f p where "locate node scope thread path = Inr (f, get_segments p)" "k f p = Inr x"
  using assms by (auto simp: with_path_def locate_def split: sum.splits)

text \<open>A change of the document at one place, seen through the read operation.\<close>

definition changes_only ::
  "memory_db \<Rightarrow> memory_db \<Rightarrow> (memory_error + repo_filter \<times> string list) \<Rightarrow> bool" where
  "changes_only db db' place \<longleftrightarrow>
     (\<forall>node scope thread path c.
        locate node scope thread path \<noteq> place \<longrightarrow> memory_read node scope thread path db = Inr c \<longrightarrow>
        memory_read node scope thread path db' = Inr c)"

lemma changes_only_modify:
  assumes "db_ok db" "segs \<noteq> []"
  shows "changes_only db (memory.modify f segs h db) (Inr (f, segs))"
proof -
  note inv = memory.modify_inv[OF assms(1), of f segs h]
  show ?thesis
    unfolding changes_only_def memory_read_locate[OF assms(1)] memory_read_locate[OF inv]
    using memory.read_modify_other[OF assms]
    by (fastforce split: sum.splits prod.splits option.splits if_splits)
qed

lemma append_step:
  assumes "db_ok db" "segs \<noteq> []" "ensure_path f segs db = (db1, Some e)"
  shows "update_content (me_id e) (h (content_or_empty e)) db1 = memory.modify f segs h db"
proof -
  note eo = ensure_path_ok[OF assms(1,3)]
  have "resolve_path db1 f segs = Some e" using eo(3)[OF assms(2)] by simp
  then have "row_content db1 (me_id e) = content_or_empty e"
    using row_content_of[OF eo(1)] resolve_path_in by blast
  then show ?thesis by (simp add: memory.modify_def ensure_id_def assms(3))
qed

text \<open>
  What is appended can be read back: after a successful append, reading the same path returns the
  old text (nothing, if there was no document) followed by the data, with one newline between them
  exactly when neither side brings one; every other document reads as before.
\<close>

theorem append_then_read:
  assumes "db_ok db" and "memory_append node scope thread path data db = Inr db'"
  shows "memory_read node scope thread path db'
      = Inr (appended (case memory_read node scope thread path db of Inl _ \<Rightarrow> [] | Inr c \<Rightarrow> c) data)
    \<and> changes_only db db' (locate node scope thread path) \<and> db_ok db'"
proof -
  obtain f p where loc: "locate node scope thread path = Inr (f, get_segments p)"
    and ne: "get_segments p \<noteq> []"
    and k: "(let segs = get_segments p
          in if segs = [] then Inl Append_requires_path
             else (case ensure_path f segs db of
                     (db1, None) \<Rightarrow> Inl Append_requires_path
                   | (db1, Some e) \<Rightarrow>
                       Inr (update_content (me_id e) (appended (content_or_empty e) data) db1))) = Inr db'"
    using located[OF assms(2)[unfolded memory_append_def]] by blast
  let ?segs = "get_segments p" and ?h = "\<lambda>c. appended c data"
  obtain db1 e where en: "ensure_path f ?segs db = (db1, Some e)"
    and db': "db' = update_content (me_id e) (?h (content_or_empty e)) db1"
    using k ne by (auto simp: Let_def split: prod.splits option.splits)
  have m: "db' = memory.modify f ?segs ?h db" using append_step[OF assms(1) ne en, of ?h] db' by simp
  have inv: "db_ok db'" unfolding m by (rule memory.modify_inv[OF assms(1)])
  have "memory.read db' f ?segs = Some (?h (case memory.read db f ?segs of None \<Rightarrow> [] | Some c \<Rightarrow> c))"
    unfolding m by (rule memory.read_modify_same[OF assms(1) ne])
  then have "memory_read node scope thread path db'
      = Inr (appended (case memory_read node scope thread path db of Inl _ \<Rightarrow> [] | Inr c \<Rightarrow> c) data)"
    using ne by (simp add: memory_read_locate[OF inv] memory_read_locate[OF assms(1)] loc split: option.split)
  with inv changes_only_modify[OF assms(1) ne, of f ?h] loc m show ?thesis by simp
qed

definition empty_memory :: memory_db where
  "empty_memory = \<lparr>db_rows = [], db_next = 0\<rparr>"

lemma empty_memory_ok: "db_ok empty_memory"
  by (simp add: db_ok_def empty_memory_def)

lemma append_ok:
  assumes "db_ok db" "memory_append node scope thread path data db = Inr db'"
  shows "db_ok db'"
  using assms(2)[unfolded memory_append_def]
proof (rule located)
  fix f p
  assume ne: "get_segments p \<noteq> []"
    and k: "(let segs = get_segments p
          in if segs = [] then Inl Append_requires_path
             else (case ensure_path f segs db of
                     (db1, None) \<Rightarrow> Inl Append_requires_path
                   | (db1, Some e) \<Rightarrow>
                       Inr (update_content (me_id e) (appended (content_or_empty e) data) db1))) = Inr db'"
  then obtain db1 e where "ensure_path f (get_segments p) db = (db1, Some e)"
    "db' = update_content (me_id e) (appended (content_or_empty e) data) db1"
    by (auto simp: Let_def split: prod.splits option.splits)
  then show "db_ok db'" using ensure_path_ok(1)[OF assms(1)] db_ok_update by blast
qed

text \<open>A memory with one document \<open>/notes/a\<close> that reads \<open>x x\<close>.\<close>

definition demo_memory :: memory_db where
  "demo_memory = projr (memory_append ''n'' Global None ''/notes/a'' ''x x'' empty_memory)"

lemma demo_memory_eq:
  "memory_append ''n'' Global None ''/notes/a'' ''x x'' empty_memory = Inr demo_memory"
proof -
  have "\<not> isl (memory_append ''n'' Global None ''/notes/a'' ''x x'' empty_memory)" by code_simp
  then show ?thesis
    by (cases "memory_append ''n'' Global None ''/notes/a'' ''x x'' empty_memory")
      (auto simp: demo_memory_def)
qed

theorem append_then_read_witness:
  "memory_read ''n'' Global None ''notes//a/'' demo_memory = Inr ''x x''"
proof -
  have "memory_read ''n'' Global None ''/notes/a'' empty_memory = Inl Document_not_found" by code_simp
  then have "memory_read ''n'' Global None ''/notes/a'' demo_memory = Inr ''x x''"
    using append_then_read[OF empty_memory_ok demo_memory_eq] by (simp add: appended_def)
  moreover have "locate ''n'' Global None ''notes//a/'' = locate ''n'' Global None ''/notes/a''" by code_simp
  moreover have "db_ok demo_memory" using append_then_read[OF empty_memory_ok demo_memory_eq] by blast
  ultimately show ?thesis by (simp add: memory_read_locate)
qed

section \<open>Replacing text\<close>

lemma resolve_content:
  assumes "db_ok db" "resolve_path db f segs = Some e"
  shows "memory.read db f segs = Some (content_or_empty e)"
  using row_content_of[OF assms(1)] resolve_path_in[OF assms(2)]
  by (simp add: memory.read_def path_id_def assms(2))

lemma update_is_modify:
  assumes "db_ok db" "resolve_path db f segs = Some e" "segs \<noteq> []"
  shows "update_content (me_id e) (h (content_or_empty e)) db = memory.modify f segs h db"
proof -
  obtain db1 r where en: "ensure_path f segs db = (db1, r)" by (cases "ensure_path f segs db")
  note eo = ensure_path_ok[OF assms(1) en]
  have "db1 = db" using eo(5)[OF assms(2)] .
  then have "r = Some e" using eo(3)[OF assms(3)] assms(2) by simp
  with append_step[OF assms(1,3), of f db e h] en \<open>db1 = db\<close> show ?thesis by simp
qed

text \<open>
  \<open>update\<close> replaces every occurrence, scanning from the left without overlap, and its result is
  how many it replaced: afterwards the document reads as the pieces between the occurrences joined
  with the new text, the count is 0 exactly when the searched text is empty or does not occur, in
  which case nothing changes, and no other document changes.
\<close>

theorem update_replaces_all:
  assumes "db_ok db" and "memory_update node scope thread path old_str new_str db = Inr (db', n)"
  shows "(\<exists>c. memory_read node scope thread path db = Inr c
       \<and> (if old_str = [] then n = 0
          else n = length (js_split old_str c) - 1
             \<and> memory_read node scope thread path db' = Inr (js_join new_str (js_split old_str c)))
       \<and> (n = 0 \<longleftrightarrow> old_str = [] \<or> \<not> js_includes c old_str))
    \<and> (n = 0 \<longrightarrow> db' = db) \<and> changes_only db db' (locate node scope thread path) \<and> db_ok db'"
proof -
  obtain f p where loc: "locate node scope thread path = Inr (f, get_segments p)"
    and ne: "get_segments p \<noteq> []"
    and k: "(case resolve_path db f (get_segments p) of
            None \<Rightarrow> Inl Document_not_found
          | Some e \<Rightarrow>
              if length old_str = 0 then Inr (db, 0)
              else
                let parts = js_split old_str (content_or_empty e);
                    count = length parts - 1
                in if count = 0 then Inr (db, 0)
                   else Inr (update_content (me_id e) (js_join new_str parts) db, count)) = Inr (db', n)"
    using located[OF assms(2)[unfolded memory_update_def]] by blast
  let ?segs = "get_segments p"
  obtain e where e: "resolve_path db f ?segs = Some e" using k by (auto split: option.splits)
  let ?c = "content_or_empty e"
  have rd: "memory_read node scope thread path db = Inr ?c"
    using ne by (simp add: memory_read_locate[OF assms(1)] loc resolve_content[OF assms(1) e])
  have len: "old_str \<noteq> [] \<Longrightarrow> length (js_split old_str ?c) - 1 = 0 \<longleftrightarrow> \<not> js_includes ?c old_str"
    using js_split_length_1_iff[of old_str ?c] js_split_nonempty[of old_str ?c]
    by (cases "js_split old_str ?c") auto
  have refl_only: "changes_only db db (locate node scope thread path)" by (simp add: changes_only_def)
  show ?thesis
  proof (cases "old_str = [] \<or> \<not> js_includes ?c old_str")
    case True
    then have r: "db' = db" "n = 0" using k e len by (auto simp: Let_def split: if_splits)
    have "old_str \<noteq> [] \<Longrightarrow> js_split old_str ?c = [?c]"
      using True js_split_acc_no_occurrence[of old_str ?c "[]"]
      by (auto simp: js_split_def js_includes_sublist)
    with r True len rd assms(1) refl_only show ?thesis
      by (intro conjI exI[of _ ?c]) auto
  next
    case False
    let ?h = "\<lambda>c. js_join new_str (js_split old_str c)"
    have r: "db' = update_content (me_id e) (?h ?c) db" "n = length (js_split old_str ?c) - 1" "n \<noteq> 0"
      using k e False len by (auto simp: Let_def split: if_splits)
    have m: "db' = memory.modify f ?segs ?h db" using update_is_modify[OF assms(1) e ne, of ?h] r(1) by simp
    have inv: "db_ok db'" unfolding m by (rule memory.modify_inv[OF assms(1)])
    have "memory.read db' f ?segs = Some (?h ?c)"
      unfolding m using memory.read_modify_same[OF assms(1) ne, of f ?h] resolve_content[OF assms(1) e] by simp
    then have "memory_read node scope thread path db' = Inr (?h ?c)"
      using ne by (simp add: memory_read_locate[OF inv] loc)
    with r(2,3) False rd inv changes_only_modify[OF assms(1) ne, of f ?h] loc m show ?thesis
      by (intro conjI exI[of _ ?c]) auto
  qed
qed

theorem update_replaces_all_witness:
  "memory_read ''n'' Global None ''/notes/a''
     (fst (projr (memory_update ''n'' Global None ''/notes/a'' ''x'' ''yy'' demo_memory))) = Inr ''yy yy''"
proof -
  have ok: "db_ok demo_memory" by (rule append_ok[OF empty_memory_ok demo_memory_eq])
  let ?u = "memory_update ''n'' Global None ''/notes/a'' ''x'' ''yy'' demo_memory"
  have "\<not> isl ?u" unfolding demo_memory_def by code_simp
  then have u: "?u = Inr (fst (projr ?u), snd (projr ?u))" by (cases ?u) auto
  have "memory_read ''n'' Global None ''/notes/a'' demo_memory = Inr ''x x''"
    unfolding demo_memory_def by code_simp
  moreover have "js_join ''yy'' (js_split ''x'' ''x x'') = ''yy yy''" by code_simp
  ultimately show ?thesis using update_replaces_all[OF ok u] by auto
qed

section \<open>Deleting\<close>

text \<open>The relation from a row to its children.\<close>

definition child_rel :: "memory_entity list \<Rightarrow> (nat \<times> nat) set" where
  "child_rel rows = {(a, b). b \<in> set (children_of rows a)}"

lemma child_rel_row: "(a, b) \<in> child_rel rows \<longleftrightarrow> (\<exists>e \<in> set rows. me_id e = b \<and> me_parent e = Some a)"
  by (auto simp: child_rel_def children_of_def)

lemma image_closed:
  assumes "A \<subseteq> C" "E `` C \<subseteq> C"
  shows "E\<^sup>* `` A \<subseteq> C"
proof
  fix y assume "y \<in> E\<^sup>* `` A"
  then obtain x where "(x, y) \<in> E\<^sup>*" "x \<in> A" by blast
  then show "y \<in> C" by (induction rule: rtrancl_induct) (use assms in auto)
qed

lemma collect_subtree_set:
  "(\<And>v. v \<in> set seen \<Longrightarrow> set (children_of rows v) \<subseteq> set seen \<union> set stack) \<Longrightarrow>
   set (collect_subtree rows stack seen) = set seen \<union> (child_rel rows)\<^sup>* `` set stack"
proof (induction rows stack seen rule: collect_subtree.induct)
  case (1 rows seen)
  then show ?case by simp
next
  case (2 rows cur stack seen)
  let ?E = "child_rel rows"
  show ?case
  proof (cases "cur \<in> set seen")
    case True
    let ?C = "set seen \<union> ?E\<^sup>* `` set stack"
    have ih: "set (collect_subtree rows stack seen) = ?C"
      using "2.IH"(1)[OF True] "2.prems" True by fastforce
    have "?E `` ?C \<subseteq> ?C"
    proof
      fix y assume "y \<in> ?E `` ?C"
      then obtain x where x: "x \<in> ?C" "(x, y) \<in> ?E" by blast
      show "y \<in> ?C"
      proof (cases "x \<in> set seen")
        case seen: True
        have "y \<in> set (children_of rows x)" using x(2) by (simp add: child_rel_def)
        then show ?thesis using "2.prems"[OF seen] True by auto
      next
        case False
        then show ?thesis using x by (auto intro: rtrancl_into_rtrancl)
      qed
    qed
    then have "?E\<^sup>* `` {cur} \<subseteq> ?C" using True by (intro image_closed) auto
    then show ?thesis using ih True by auto
  next
    case False
    have ih: "set (collect_subtree rows (rev (children_of rows cur) @ stack) (seen @ [cur]))
        = set (seen @ [cur]) \<union> ?E\<^sup>* `` set (rev (children_of rows cur) @ stack)"
      by (rule "2.IH"(2)[OF False]) (use "2.prems" in fastforce)
    have "?E\<^sup>* `` {cur} = {cur} \<union> ?E\<^sup>* `` set (children_of rows cur)"
      by (auto simp: child_rel_def elim: converse_rtranclE intro: converse_rtrancl_into_rtrancl)
    then show ?thesis using ih False by auto
  qed
qed

declare collect_subtree.simps [simp del]

text \<open>Removing rows such that what hangs below a removed row is removed too.\<close>

definition keep_rows :: "(memory_entity \<Rightarrow> bool) \<Rightarrow> memory_db \<Rightarrow> memory_db" where
  "keep_rows K db = db\<lparr>db_rows := filter K (db_rows db)\<rparr>"

definition upward_closed :: "(memory_entity \<Rightarrow> bool) \<Rightarrow> memory_db \<Rightarrow> bool" where
  "upward_closed K db \<longleftrightarrow> (\<forall>e \<in> set (db_rows db). \<forall>p \<in> set (db_rows db).
     K e \<longrightarrow> me_parent e = Some (me_id p) \<longrightarrow> K p)"

lemma keep_rows_ok:
  assumes ok: "db_ok db" and up: "upward_closed K db"
  shows "db_ok (keep_rows K db)"
proof (rule db_okI)
  show "distinct (map me_id (db_rows (keep_rows K db)))"
    using ok by (simp add: keep_rows_def db_ok_def distinct_map_filter)
next
  fix e assume "e \<in> set (db_rows (keep_rows K db))"
  then show "me_id e < db_next (keep_rows K db)" using ok by (simp add: keep_rows_def db_ok_def)
next
  fix e i assume "e \<in> set (db_rows (keep_rows K db))" "me_parent e = Some i"
  then have e: "e \<in> set (db_rows db)" "K e" "me_parent e = Some i" by (simp_all add: keep_rows_def)
  from row_parent[OF ok e(1,3)] obtain p where p: "p \<in> set (db_rows db)" "me_id p = i"
    "me_node p = me_node e" "me_thread p = me_thread e" by blast
  have "K p" using up[unfolded upward_closed_def, rule_format, OF e(1) p(1) e(2)] e(3) p(2) by simp
  then have "p \<in> set (db_rows (keep_rows K db))" using p(1) by (simp add: keep_rows_def)
  moreover have "i < me_id e" using parent_less[OF ok e(1,3)] by simp
  ultimately show "\<exists>p \<in> set (db_rows (keep_rows K db)). me_id p = i \<and> i < me_id e
      \<and> me_node p = me_node e \<and> me_thread p = me_thread e"
    using p(2-4) by blast
next
  fix a b assume "a \<in> set (db_rows (keep_rows K db))" "b \<in> set (db_rows (keep_rows K db))"
    "me_node a = me_node b" "me_thread a = me_thread b" "me_parent a = me_parent b" "me_name a = me_name b"
  then show "a = b" using siblings_distinct[OF ok, of a b] by (simp add: keep_rows_def)
qed

lemma find_filter_unique:
  assumes "\<And>x y. x \<in> set xs \<Longrightarrow> y \<in> set xs \<Longrightarrow> P x \<Longrightarrow> P y \<Longrightarrow> x = y"
  shows "find P (filter K xs) = (case find P xs of None \<Rightarrow> None | Some x \<Rightarrow> if K x then Some x else None)"
proof (cases "find P xs")
  case None
  then have "find P (filter K xs) = None" by (auto simp: find_None_iff)
  with None show ?thesis by simp
next
  case (Some x)
  then have x: "x \<in> set xs" "P x" using find_SomeD[OF Some] by auto
  show ?thesis
  proof (cases "find P (filter K xs)")
    case None
    then have "\<not> K x" using x by (auto simp: find_None_iff)
    with None Some show ?thesis by simp
  next
    case (Some y)
    then have "y \<in> set xs" "K y" "P y" using find_SomeD[OF Some] by auto
    with assms[OF x(1) _ x(2)] have "y = x" "K x" by auto
    with Some \<open>find P xs = Some x\<close> show ?thesis by simp
  qed
qed

lemma find_child_keep:
  assumes "db_ok db"
  shows "find_child (keep_rows K db) f par s =
    (case find_child db f par s of None \<Rightarrow> None | Some e \<Rightarrow> if K e then Some e else None)"
proof -
  have "find (\<lambda>e. in_filter f e \<and> me_parent e = par \<and> me_name e = s) (filter K (db_rows db))
      = (case find (\<lambda>e. in_filter f e \<and> me_parent e = par \<and> me_name e = s) (db_rows db) of
           None \<Rightarrow> None | Some e \<Rightarrow> if K e then Some e else None)"
    by (rule find_filter_unique) (use siblings_distinct[OF assms] in \<open>auto simp: in_filter_def\<close>)
  then show ?thesis by (simp add: find_child_def keep_rows_def)
qed

lemma resolve_keep:
  assumes ok: "db_ok db" and up: "upward_closed K db"
  shows "resolve_path (keep_rows K db) f p =
    (case resolve_path db f p of None \<Rightarrow> None | Some e \<Rightarrow> if K e then Some e else None)"
proof (induction p rule: rev_induct)
  case Nil
  show ?case by simp
next
  case (snoc s p)
  show ?case
  proof (cases "p = []")
    case True
    have "resolve_path d f [s] = find_child d f None s" for d
      using resolve_path_snoc[of d f "[]" s] by (simp add: parent_of_path_def)
    then show ?thesis using True find_child_keep[OF ok, of K f None s] by simp
  next
    case False
    show ?thesis
    proof (cases "resolve_path db f p")
      case None
      then show ?thesis using snoc.IH False by (simp add: resolve_path_snoc parent_of_path_def)
    next
      case (Some e)
      have "\<not> K x" if "\<not> K e" "find_child db f (Some (me_id e)) s = Some x" for x
        using up that find_child_SomeD[OF that(2)] resolve_path_in[OF Some]
        by (auto simp: upward_closed_def)
      then show ?thesis
        using snoc.IH False Some find_child_keep[OF ok, of K f "Some (me_id e)" s]
        by (auto simp: resolve_path_snoc parent_of_path_def split: option.split)
    qed
  qed
qed

lemma snoc_resolved:
  assumes "resolve_path db f (q @ [s]) = Some e"
  shows "if q = [] then me_parent e = None
     else \<exists>x. resolve_path db f q = Some x \<and> me_parent e = Some (me_id x)"
  using assms find_child_SomeD[of db f _ s e]
  by (auto simp: resolve_path_snoc parent_of_path_def split: if_splits bind_splits)

text \<open>A row lies below another exactly when its path goes on from the other's.\<close>

lemma below_iff_prefix:
  assumes ok: "db_ok db" and root: "resolve_path db f segs = Some r"
  shows "resolve_path db f q = Some e \<Longrightarrow>
    (me_id r, me_id e) \<in> (child_rel (filter (in_filter f) (db_rows db)))\<^sup>* \<longleftrightarrow> prefix segs q"
proof (induction q arbitrary: e rule: rev_induct)
  case Nil
  then show ?case by simp
next
  case (snoc s q)
  let ?E = "child_rel (filter (in_filter f) (db_rows db))"
  note e = resolve_path_in[OF snoc.prems]
  have same: "me_id r = me_id e \<longleftrightarrow> segs = q @ [s]"
    using resolve_path_inj[OF ok root snoc.prems] root snoc.prems by auto
  have step: "(p, me_id e) \<in> ?E \<longleftrightarrow> me_parent e = Some p" for p
    using e same_id[OF ok] by (auto simp: child_rel_row)
  have "(me_id r, me_id e) \<in> ?E\<^sup>* \<longleftrightarrow> me_id r = me_id e \<or> (\<exists>p. (me_id r, p) \<in> ?E\<^sup>* \<and> me_parent e = Some p)"
    by (metis rtranclE rtrancl.rtrancl_refl rtrancl.rtrancl_into_rtrancl step)
  also have "(\<exists>p. (me_id r, p) \<in> ?E\<^sup>* \<and> me_parent e = Some p) \<longleftrightarrow> prefix segs q"
  proof (cases "q = []")
    case True
    have "segs \<noteq> []" using root by auto
    then show ?thesis using snoc_resolved[OF snoc.prems] True by simp
  next
    case False
    then obtain x where x: "resolve_path db f q = Some x" "me_parent e = Some (me_id x)"
      using snoc_resolved[OF snoc.prems] by auto
    then show ?thesis using snoc.IH[OF x(1)] by simp
  qed
  finally show ?case using same by auto
qed

lemma resolve_below_missing:
  "resolve_path db f segs = None \<Longrightarrow> segs \<noteq> [] \<Longrightarrow> prefix segs q \<Longrightarrow> resolve_path db f q = None"
  by (auto simp: resolve_path_def prefix_def traverse_existing_append)

lemma in_filter_inj: "in_filter f e \<Longrightarrow> in_filter g e \<Longrightarrow> f = g"
  by (cases f; cases g) (simp add: in_filter_def)

lemma length_filter_split: "length (filter P xs) + length (filter (\<lambda>x. \<not> P x) xs) = length xs"
  by (induction xs) auto

lemma delete_all_effect:
  assumes ok: "db_ok db" and del: "delete_subtree f None db = (db', n)"
  shows "resolve_path db' g q = (if g = f then None else resolve_path db g q)"
    and "n + length (db_rows db') = length (db_rows db)" and "db_ok db'"
proof -
  let ?K = "\<lambda>e. \<not> in_filter f e"
  have db': "db' = keep_rows ?K db" and n: "n = length (filter (in_filter f) (db_rows db))"
    using del by (auto simp: delete_subtree_def keep_rows_def)
  have up: "upward_closed ?K db"
    unfolding upward_closed_def
  proof (intro ballI impI)
    fix e p assume a: "e \<in> set (db_rows db)" "p \<in> set (db_rows db)" "?K e" "me_parent e = Some (me_id p)"
    from row_parent[OF ok a(1,4)] obtain x where x: "x \<in> set (db_rows db)" "me_id x = me_id p"
      "me_node x = me_node e" "me_thread x = me_thread e" by blast
    with same_id[OF ok x(1) a(2)] a(3) show "?K p" by (auto simp: in_filter_def)
  qed
  show "db_ok db'" unfolding db' by (rule keep_rows_ok[OF ok up])
  show "resolve_path db' g q = (if g = f then None else resolve_path db g q)"
    using resolve_path_in[of db g q] in_filter_inj[of f _ g]
    by (auto simp: db' resolve_keep[OF ok up] split: option.split)
  show "n + length (db_rows db') = length (db_rows db)"
    by (simp add: n db' keep_rows_def length_filter_split)
qed

lemma delete_one_effect:
  assumes ok: "db_ok db" and r: "resolve_path db f segs = Some r"
    and del: "delete_subtree f (Some (me_id r)) db = (db', n)"
  shows "resolve_path db' g q = (if g = f \<and> prefix segs q then None else resolve_path db g q)"
    and "n + length (db_rows db') = length (db_rows db)" and "db_ok db'"
proof -
  let ?nodes = "filter (in_filter f) (db_rows db)"
  let ?E = "child_rel ?nodes"
  let ?gone = "collect_subtree ?nodes [me_id r] []"
  let ?K = "\<lambda>e. me_id e \<notin> set ?gone"
  have gone: "set ?gone = ?E\<^sup>* `` {me_id r}" using collect_subtree_set[of "[]" ?nodes "[me_id r]"] by simp
  have rn: "r \<in> set ?nodes" using resolve_path_in[OF r] by simp
  then have "?nodes \<noteq> []" by (metis list.set(1) empty_iff)
  moreover have "?gone \<noteq> []" using gone by (metis Image_singleton_iff list.set(1) empty_iff rtrancl.rtrancl_refl)
  ultimately have db': "db' = keep_rows ?K db" and n: "n = length (filter (\<lambda>e. \<not> ?K e) (db_rows db))"
    using del by (auto simp: delete_subtree_def keep_rows_def Let_def)
  have member: "\<exists>e \<in> set ?nodes. me_id e = i" if "i \<in> set ?gone" for i
  proof -
    have "(me_id r, i) \<in> ?E\<^sup>*" using that gone by simp
    then show ?thesis by (cases rule: rtranclE) (use rn in \<open>auto simp: child_rel_row\<close>)
  qed
  have up: "upward_closed ?K db"
    unfolding upward_closed_def
  proof (intro ballI impI notI)
    fix e p assume a: "e \<in> set (db_rows db)" "p \<in> set (db_rows db)" "?K e" "me_parent e = Some (me_id p)"
      "me_id p \<in> set ?gone"
    from member[OF a(5)] have pf: "in_filter f p" using same_id[OF ok _ a(2)] by auto
    from row_parent[OF ok a(1,4)] obtain x where x: "x \<in> set (db_rows db)" "me_id x = me_id p"
      "me_node x = me_node e" "me_thread x = me_thread e" by blast
    then have "in_filter f e" using same_id[OF ok x(1) a(2)] pf by (auto simp: in_filter_def)
    then have "(me_id p, me_id e) \<in> ?E" using a(1,4) by (auto simp: child_rel_row)
    then have "me_id e \<in> set ?gone" using a(5) unfolding gone by (auto intro: rtrancl_into_rtrancl)
    with a(3) show False by simp
  qed
  show "db_ok db'" unfolding db' by (rule keep_rows_ok[OF ok up])
  show "resolve_path db' g q = (if g = f \<and> prefix segs q then None else resolve_path db g q)"
  proof (cases "resolve_path db g q")
    case None
    then show ?thesis by (simp add: db' resolve_keep[OF ok up])
  next
    case (Some e)
    have "g = f" if "me_id e \<in> set ?gone"
    proof -
      from member[OF that] obtain x where x: "x \<in> set (db_rows db)" "in_filter f x" "me_id x = me_id e"
        by auto
      have "x = e" using same_id[OF ok x(1) _ x(3)] resolve_path_in[OF Some] by blast
      with x(2) resolve_path_in[OF Some] in_filter_inj show "g = f" by blast
    qed
    moreover have "me_id e \<in> set ?gone \<longleftrightarrow> prefix segs q" if "g = f"
      using below_iff_prefix[OF ok r, of q e] Some that unfolding gone by simp
    moreover have "resolve_path db' g q = (if ?K e then Some e else None)"
      by (simp only: db' resolve_keep[OF ok up] Some option.case)
    ultimately show ?thesis unfolding Some by (cases "g = f") auto
  qed
  show "n + length (db_rows db') = length (db_rows db)"
    using length_filter_split[of ?K "db_rows db"] by (simp add: n db' keep_rows_def)
qed

text \<open>
  Deleting a path removes the document and exactly the documents below it: afterwards a path of the
  same memory resolves to nothing if it continues the deleted one and to what it resolved to before
  otherwise, other memories are untouched, the result counts the removed rows, and a missing path is
  no error.  The worklist needs no bound: it ends because every row is expanded at most once.
\<close>

theorem delete_removes_subtree:
  assumes "db_ok db" and "memory_delete node scope thread raw db = Inr (db', n)"
  shows "\<exists>f segs. locate node scope thread (case raw of None \<Rightarrow> ''/'' | Some p \<Rightarrow> p) = Inr (f, segs)
    \<and> (\<forall>g q. resolve_path db' g q = (if g = f \<and> prefix segs q then None else resolve_path db g q))
    \<and> n + length (db_rows db') = length (db_rows db) \<and> db_ok db'"
proof -
  let ?path = "case raw of None \<Rightarrow> ''/'' | Some p \<Rightarrow> p"
  obtain f p where loc: "locate node scope thread ?path = Inr (f, get_segments p)"
    and k: "(if p = ''/'' then Inr (delete_subtree f None db)
          else
            let segs = get_segments p
            in if segs = [] then Inr (db, 0)
               else (case resolve_path db f segs of
                       None \<Rightarrow> Inr (db, 0)
                     | Some e \<Rightarrow> Inr (delete_subtree f (Some (me_id e)) db))) = (Inr (db', n) :: memory_error + memory_db \<times> nat)"
    by (rule located_any[OF assms(2)[unfolded memory_delete_def]]) (rule that)
  show ?thesis
  proof (cases "p = ''/''")
    case True
    then have "delete_subtree f None db = (db', n)" using k by simp
    note eff = delete_all_effect[OF assms(1) this]
    have "get_segments p = []" using True by (simp add: get_segments_def)
    then show ?thesis using loc eff by auto
  next
    case False
    then have ne: "get_segments p \<noteq> []" by (rule get_segments_nonempty)
    show ?thesis
    proof (cases "resolve_path db f (get_segments p)")
      case None
      then have "db' = db" "n = 0" using k ne False by auto
      then show ?thesis using loc assms(1) resolve_below_missing[OF None ne] by auto
    next
      case (Some e)
      then have "delete_subtree f (Some (me_id e)) db = (db', n)" using k ne False by simp
      note eff = delete_one_effect[OF assms(1) Some this]
      then show ?thesis using loc by auto
    qed
  qed
qed

lemma demo_memory_ok: "db_ok demo_memory"
  by (rule append_ok[OF empty_memory_ok demo_memory_eq])

theorem delete_removes_subtree_witness:
  "resolve_path (fst (projr (memory_delete ''n'' Global None (Some ''/notes'') demo_memory)))
     \<lparr>rf_node = ''n'', rf_thread = None\<rparr> [''notes'', ''a''] = None"
proof -
  let ?d = "memory_delete ''n'' Global None (Some ''/notes'') demo_memory"
  have "\<not> isl ?d" unfolding demo_memory_def by code_simp
  then have d: "?d = Inr (fst (projr ?d), snd (projr ?d))" by (cases ?d) auto
  have "locate ''n'' Global None ''/notes'' = Inr (\<lparr>rf_node = ''n'', rf_thread = None\<rparr>, [''notes''])"
    by code_simp
  then show ?thesis using delete_removes_subtree[OF demo_memory_ok d] by auto
qed

section \<open>Every operation keeps the forest\<close>

inductive memory_step :: "memory_db \<Rightarrow> memory_db \<Rightarrow> bool" where
  mem_ensure: "memory_ensure_dir node scope thread path db = Inr db' \<Longrightarrow> memory_step db db'"
| mem_append: "memory_append node scope thread path data db = Inr db' \<Longrightarrow> memory_step db db'"
| mem_update: "memory_update node scope thread path old_str new_str db = Inr (db', n) \<Longrightarrow> memory_step db db'"
| mem_delete: "memory_delete node scope thread raw db = Inr (db', n) \<Longrightarrow> memory_step db db'"

lemma delete_ok:
  assumes "db_ok db" "memory_delete node scope thread raw db = Inr (db', n)"
  shows "db_ok db'"
  using assms delete_all_effect(3)[OF assms(1)] delete_one_effect(3)[OF assms(1)]
  by (auto simp: memory_delete_def with_path_def Let_def split: sum.splits if_splits option.splits)

lemma memory_step_ok: "memory_step db db' \<Longrightarrow> db_ok db \<Longrightarrow> db_ok db'"
proof (induction rule: memory_step.induct)
  case (mem_ensure node scope thread path db db')
  obtain db1 r where "ensure_path f segs db = (db1, r) \<Longrightarrow> db_ok db1" for f segs
    using ensure_path_ok(1)[OF mem_ensure.prems] by blast
  moreover have "db_ok (fst (ensure_path f segs db))" for f segs
    using ensure_path_ok(1)[OF mem_ensure.prems, of f segs] by (cases "ensure_path f segs db") auto
  ultimately show ?case using mem_ensure
    by (auto simp: memory_ensure_dir_def with_path_def split: sum.splits if_splits)
next
  case (mem_append node scope thread path data db db')
  then show ?case by (blast intro: append_ok)
next
  case (mem_update node scope thread path old_str new_str db db' n)
  then show ?case
    by (auto simp: memory_update_def with_path_def Let_def db_ok_update
        split: sum.splits if_splits option.splits)
next
  case (mem_delete node scope thread raw db db' n)
  then show ?case by (blast intro: delete_ok)
qed

text \<open>
  C36. The rows always form a forest with unique names: after any sequence of service operations
  starting from an empty table, identifiers are unique, every parent exists, belongs to the same node
  and thread and is older than its child, and no two siblings share a name.
\<close>

theorem memory_forest:
  assumes "memory_step\<^sup>*\<^sup>* empty_memory db"
  shows "distinct (map me_id (db_rows db))
    \<and> (\<forall>e \<in> set (db_rows db). \<forall>i. me_parent e = Some i \<longrightarrow>
         (\<exists>p \<in> set (db_rows db). me_id p = i \<and> i < me_id e \<and> me_node p = me_node e \<and> me_thread p = me_thread e))
    \<and> distinct (map (\<lambda>e. (me_node e, me_thread e, me_parent e, me_name e)) (db_rows db))"
proof -
  have ok: "db_ok db"
    using assms by (induction rule: rtranclp_induct) (blast intro: empty_memory_ok memory_step_ok)+
  then have "distinct (map me_id (db_rows db))" by (simp add: db_ok_def)
  then have "distinct (db_rows db)" by (simp add: distinct_map)
  moreover have "inj_on (\<lambda>e. (me_node e, me_thread e, me_parent e, me_name e)) (set (db_rows db))"
    using siblings_distinct[OF ok] by (auto simp: inj_on_def)
  ultimately have "distinct (map (\<lambda>e. (me_node e, me_thread e, me_parent e, me_name e)) (db_rows db))"
    by (simp add: distinct_map)
  with ok show ?thesis unfolding db_ok_def by blast
qed

theorem memory_forest_witness: "map me_parent (db_rows demo_memory) = [None, Some 0] \<and> distinct (map me_id (db_rows demo_memory))"
proof -
  have "memory_step empty_memory demo_memory" by (rule mem_append[OF demo_memory_eq])
  then have "memory_step\<^sup>*\<^sup>* empty_memory demo_memory" by blast
  from memory_forest[OF this] have "distinct (map me_id (db_rows demo_memory))" by blast
  moreover have "map me_parent (db_rows demo_memory) = [None, Some 0]"
    unfolding demo_memory_def by code_simp
  ultimately show ?thesis by blast
qed

section \<open>The normal form of paths\<close>

lemma collapse_runs_hd: "\<exists>t. collapse_runs c c (c # s) = c # t"
  by (induction s) auto

lemma strip_trailing_prefix: "prefix (strip_trailing c s) s"
  unfolding strip_trailing_def prefix_def by (metis rev_append rev_rev_ident takeWhile_dropWhile_id)

lemma starts_with_slash: "js_starts_with q ''/'' \<Longrightarrow> \<exists>t. q = slash # t"
  by (auto simp: prefix_def slash_def)

lemma collapse_starts_with_slash:
  "\<exists>t. collapse_runs slash slash (if js_starts_with q ''/'' then q else slash # q) = slash # t"
proof (cases "js_starts_with q ''/''")
  case True
  then obtain u where u: "q = slash # u" using starts_with_slash by blast
  show ?thesis unfolding if_P[OF True] unfolding u by (rule collapse_runs_hd)
next
  case False
  show ?thesis unfolding if_not_P[OF False] by (rule collapse_runs_hd)
qed

lemma stripped_starts_with_slash:
  assumes "p = slash # t"
  shows "\<exists>u. (let q = (if length p > 1 \<and> js_ends_with p ''/'' then strip_trailing slash p else p)
      in if q = [] then ''/'' else q) = slash # u"
proof -
  have "strip_trailing slash p = [] \<or> (\<exists>u. strip_trailing slash p = slash # u)"
    using strip_trailing_prefix[of slash p] assms by (cases "strip_trailing slash p") auto
  then show ?thesis using assms by (auto simp: Let_def slash_def)
qed

lemma canonical_slashes_hd: "\<exists>t. canonical_slashes s = slash # t"
proof -
  obtain t where "collapse_runs slash slash
      (if js_starts_with (collapse_runs slash slash s) ''/'' then collapse_runs slash slash s
       else slash # collapse_runs slash slash s) = slash # t"
    using collapse_starts_with_slash by blast
  from stripped_starts_with_slash[OF this] show ?thesis
    unfolding canonical_slashes_def Let_def .
qed

text \<open>
  A path that passes normalisation is the root or one slash in front of non-empty segments joined
  by single slashes, each of only letters, digits, underscore, dot, space and hyphen, without two dots
  in a row; the root passes only where it is allowed.
\<close>

theorem normal_path_form:
  assumes "normalize_path allow_root raw = Inr p"
  shows "(p = ''/'' \<and> allow_root)
    \<or> (p = slash # js_join ''/'' (get_segments p) \<and> get_segments p \<noteq> []
       \<and> list_all valid_segment (get_segments p) \<and> \<not> js_includes p ''..'' \<and> \<not> js_includes p ''$'')"
proof -
  have checked: "(q = ''/'' \<and> allow_root)
    \<or> (q = slash # js_join ''/'' (get_segments q) \<and> get_segments q \<noteq> []
       \<and> list_all valid_segment (get_segments q) \<and> \<not> js_includes q ''..'' \<and> \<not> js_includes q ''$'')"
    if "check_path allow_root (slash # t) = Inr q" for q t
  proof (cases "slash # t = ''/''")
    case True
    then show ?thesis using that by (auto simp: check_path_def split: if_splits)
  next
    case False
    then have q: "q = slash # t" "\<not> js_includes q ''..''" "\<not> js_includes q ''$''"
      "find (\<lambda>seg. \<not> valid_segment seg) (get_segments q) = None"
      using that by (auto simp: check_path_def split: if_splits option.splits)
    have segs: "get_segments q = js_split ''/'' t"
      using False unfolding q(1) get_segments_def by (simp only: if_False list.sel)
    have "js_join ''/'' (js_split ''/'' t) = t" by (simp add: js_join_split)
    moreover have "list_all valid_segment (get_segments q)"
      using q(4) by (auto simp: find_None_iff list_all_iff)
    ultimately show ?thesis using q segs js_split_nonempty[of "''/''" t] by simp
  qed
  show ?thesis
  proof (cases raw)
    case None
    then show ?thesis using assms by (simp add: normalize_path_def)
  next
    case (Some p0)
    let ?p1 = "js_trim (collapse_runs (CHR 0x5C) slash p0)"
    show ?thesis
    proof (cases "p0 = [] \<or> ?p1 = []")
      case True
      then show ?thesis using assms by (auto simp: normalize_path_def Some Let_def split: if_splits)
    next
      case False
      obtain t where "canonical_slashes ?p1 = slash # t" using canonical_slashes_hd by blast
      then show ?thesis using assms False checked[of t p] by (simp add: normalize_path_def Some Let_def)
    qed
  qed
qed

theorem normal_path_form_witness:
  "list_all valid_segment (get_segments ''/a b/c.txt'')"
proof -
  have "normalize_path False (Some ''a b//c.txt/'') = Inr ''/a b/c.txt''" by code_simp
  from normal_path_form[OF this] show ?thesis by blast
qed

text \<open>
  The normal form is not always stable: a trailing slash hides a trailing space from \<open>trim\<close>, so a
  path can normalise to one that normalises to something else.  A document appended under \<open>/a /\<close> is
  listed as \<open>a \<close> and not found under that name.
\<close>

theorem trailing_space_path_lost:
  "normalize_path True (Some ''/a /'') = Inr ''/a '' \<and> normalize_path True (Some ''/a '') = Inr ''/a''
   \<and> memory_read ''n'' Global None ''/a ''
       (projr (memory_append ''n'' Global None ''/a /'' ''text'' empty_memory)) = Inl Document_not_found"
  by (intro conjI; code_simp)

end
