(* ===== verification/References.thy ===== *)
theory References
  imports JsString
begin

text \<open>
  Resolution of secret and variable references inside a configuration,
  \<^verbatim>\<open>utils/references.ts\<close>: recognition of references, the two caches, strict and lenient
  handling of failures, the report, and the traversal with its depth bound and cycle detection.

  The input lives in a heap, because cycle detection is about the identity of objects: a value is a
  primitive or the address of an array or object.  The output is a fresh tree; \<open>Clone a\<close> is the copy
  \<open>JSON.parse(JSON.stringify(ref))\<close> of the reference object at \<open>a\<close>.  A provider is a function of the
  calls made to it before, so it may answer differently each time.
\<close>

section \<open>Values\<close>

datatype rvalue = Undefined | Null | Bool bool | Num int | Str string | Addr nat

datatype heap_object = Array "rvalue list" | Object "(string \<times> rvalue) list"

type_synonym heap = "nat \<Rightarrow> heap_object"

datatype out_value =
    OUndefined | ONull | OBool bool | ONum int | OStr string
  | OArray "out_value list" | OObject "(string \<times> out_value) list" | Clone nat

record secret_ref =
  sr_path :: string
  sr_key :: string
  sr_mount :: "string option"

text \<open>\<open>default\<close>: absent, \<open>null\<close> or a text.\<close>

record variable_ref =
  vr_name :: string
  vr_default :: "string option option"

datatype ref_source = Secret | Variable

datatype resolution_code =
    Unresolved_reference | Provider_missing | Permission_denied | Invalid_reference | Type_mismatch
  | Max_depth_exceeded | Cycle_detected

record resolve_error =
  rse_code :: resolution_code
  rse_path :: string
  rse_source :: ref_source

record resolution_event =
  ev_path :: string
  ev_source :: ref_source
  ev_cache_hit :: bool
  ev_resolved :: bool
  ev_error :: "resolution_code option"

text \<open>What awaiting a provider gives.\<close>

datatype provider_reply =
    Value string
  | Missing
  | Throws_resolve_error resolve_error
  | Throws_status int
  | Throws_error

datatype lenient_value = Keep | Null_value | Default_value

record resolve_options =
  ro_strict :: bool
  ro_memoize :: bool
  ro_cycle_detection :: bool
  ro_max_depth :: nat
  ro_report :: bool
  ro_lenient :: lenient_value
  ro_base_path :: "string option"

definition default_options :: resolve_options where
  "default_options = \<lparr>ro_strict = True, ro_memoize = True, ro_cycle_detection = True,
     ro_max_depth = 100, ro_report = True, ro_lenient = Keep, ro_base_path = None\<rparr>"

record providers =
  pv_secret :: "(secret_ref list \<Rightarrow> secret_ref \<Rightarrow> provider_reply) option"
  pv_variable :: "(variable_ref list \<Rightarrow> variable_ref \<Rightarrow> provider_reply) option"

text \<open>
  The state of a traversal.  A cached \<^const>\<open>None\<close> is the symbol for a missing value; the caches are
  absent without memoisation, the ancestors without cycle detection.
\<close>

record traverse_state =
  ts_secret_cache :: "(string \<times> string option) list option"
  ts_variable_cache :: "(string \<times> string option) list option"
  ts_events :: "resolution_event list"
  ts_total :: nat
  ts_resolved :: nat
  ts_unresolved :: nat
  ts_cache_hits :: nat
  ts_errors :: nat
  ts_ancestors :: "nat list option"
  ts_secret_calls :: "secret_ref list"
  ts_variable_calls :: "variable_ref list"

section \<open>Recognising references\<close>

definition property_of :: "heap_object \<Rightarrow> string \<Rightarrow> rvalue" where
  "property_of ob k =
     (case ob of
        Array _ \<Rightarrow> Undefined
      | Object ps \<Rightarrow> (case map_of ps k of None \<Rightarrow> Undefined | Some v \<Rightarrow> v))"

definition nonempty_string :: "rvalue \<Rightarrow> bool" where
  "nonempty_string v = (case v of Str s \<Rightarrow> length s > 0 | _ \<Rightarrow> False)"

definition text_of :: "rvalue \<Rightarrow> string" where
  "text_of v = (case v of Str s \<Rightarrow> s | _ \<Rightarrow> [])"

definition is_secret_ref :: "heap_object \<Rightarrow> bool" where
  "is_secret_ref ob \<longleftrightarrow>
     property_of ob ''kind'' = Str ''vault''
     \<and> nonempty_string (property_of ob ''path'') \<and> nonempty_string (property_of ob ''key'')"

definition is_variable_ref :: "heap_object \<Rightarrow> bool" where
  "is_variable_ref ob \<longleftrightarrow>
     property_of ob ''kind'' = Str ''var'' \<and> nonempty_string (property_of ob ''name'')"

text \<open>\<open>normalizeSecretRef\<close>: a mount that is not a non-empty text is left out.\<close>

definition normalize_secret_ref :: "heap_object \<Rightarrow> secret_ref" where
  "normalize_secret_ref ob =
     \<lparr>sr_path = text_of (property_of ob ''path''), sr_key = text_of (property_of ob ''key''),
      sr_mount = (if nonempty_string (property_of ob ''mount'')
                  then Some (text_of (property_of ob ''mount'')) else None)\<rparr>"

definition normalize_variable_ref :: "heap_object \<Rightarrow> variable_ref" where
  "normalize_variable_ref ob =
     \<lparr>vr_name = text_of (property_of ob ''name''),
      vr_default = (case property_of ob ''default'' of
                      Undefined \<Rightarrow> None | Null \<Rightarrow> Some None | Str s \<Rightarrow> Some (Some s) | _ \<Rightarrow> None)\<rparr>"

definition secret_cache_key :: "secret_ref \<Rightarrow> string" where
  "secret_cache_key r =
     (case sr_mount r of None \<Rightarrow> [] | Some m \<Rightarrow> m) @ '':'' @ sr_path r @ '':'' @ sr_key r"

section \<open>Pointers\<close>

text \<open>\<open>replace(/~/g, '~0').replace(/\/ /g, '~1')\<close>\<close>

definition encode_pointer_segment :: "string \<Rightarrow> string" where
  "encode_pointer_segment seg =
     concat (map (\<lambda>c. if c = CHR ''/'' then ''~1'' else [c])
       (concat (map (\<lambda>c. if c = CHR ''~'' then ''~0'' else [c]) seg)))"

definition build_pointer :: "string option \<Rightarrow> string list \<Rightarrow> string" where
  "build_pointer base segments =
     (let pointer = (if segments \<noteq> [] then ''/'' @ js_join ''/'' (map encode_pointer_segment segments)
                     else [])
      in case base of
           None \<Rightarrow> pointer
         | Some b \<Rightarrow>
             if b = [] then pointer
             else if pointer = [] then b
             else (if js_ends_with b ''/'' then butlast b else b) @ pointer)"

section \<open>Resolving one reference\<close>

definition record_event :: "resolve_options \<Rightarrow> resolution_event \<Rightarrow> traverse_state \<Rightarrow> traverse_state" where
  "record_event opts e st = (if ro_report opts then st\<lparr>ts_events := ts_events st @ [e]\<rparr> else st)"

definition failure_event :: "string \<Rightarrow> ref_source \<Rightarrow> bool \<Rightarrow> resolution_code \<Rightarrow> resolution_event" where
  "failure_event p src hit code =
     \<lparr>ev_path = p, ev_source = src, ev_cache_hit = hit, ev_resolved = False, ev_error = Some code\<rparr>"

definition success_event :: "string \<Rightarrow> ref_source \<Rightarrow> bool \<Rightarrow> resolution_event" where
  "success_event p src hit =
     \<lparr>ev_path = p, ev_source = src, ev_cache_hit = hit, ev_resolved = True, ev_error = None\<rparr>"

definition lenient_fallback :: "resolve_options \<Rightarrow> ref_source \<Rightarrow> nat \<Rightarrow> heap_object \<Rightarrow> out_value" where
  "lenient_fallback opts src a ob =
     (case ro_lenient opts of
        Null_value \<Rightarrow> ONull
      | Default_value \<Rightarrow>
          (if src = Variable
           then (case vr_default (normalize_variable_ref ob) of
                   Some (Some d) \<Rightarrow> OStr d
                 | _ \<Rightarrow> ONull)
           else ONull)
      | Keep \<Rightarrow> Clone a)"

definition cache_of :: "ref_source \<Rightarrow> traverse_state \<Rightarrow> (string \<times> string option) list option" where
  "cache_of src st = (case src of Secret \<Rightarrow> ts_secret_cache st | Variable \<Rightarrow> ts_variable_cache st)"

definition cache_set :: "ref_source \<Rightarrow> string \<Rightarrow> string option \<Rightarrow> traverse_state \<Rightarrow> traverse_state" where
  "cache_set src k v st =
     (case src of
        Secret \<Rightarrow> st\<lparr>ts_secret_cache := map_option (AList.update k v) (ts_secret_cache st)\<rparr>
      | Variable \<Rightarrow> st\<lparr>ts_variable_cache := map_option (AList.update k v) (ts_variable_cache st)\<rparr>)"

definition err :: "resolution_code \<Rightarrow> string \<Rightarrow> ref_source \<Rightarrow> resolve_error" where
  "err code p src = \<lparr>rse_code = code, rse_path = p, rse_source = src\<rparr>"

text \<open>
  The end of every failing path: throw the error when strict, otherwise count the reference as
  unresolved and fall back.
\<close>

definition fail_or_fall_back ::
  "resolve_options \<Rightarrow> resolve_error \<Rightarrow> out_value \<Rightarrow> traverse_state \<Rightarrow>
   traverse_state \<times> (resolve_error + out_value)" where
  "fail_or_fall_back opts e fallback st =
     (if ro_strict opts then (st, Inl e)
      else (st\<lparr>ts_unresolved := ts_unresolved st + 1\<rparr>, Inr fallback))"

definition provider_missing ::
  "resolve_options \<Rightarrow> ref_source \<Rightarrow> string \<Rightarrow> out_value \<Rightarrow> traverse_state \<Rightarrow>
   traverse_state \<times> (resolve_error + out_value)" where
  "provider_missing opts src p fallback st =
     (let st1 = record_event opts (failure_event p src False Provider_missing) st;
          st2 = st1\<lparr>ts_errors := ts_errors st1 + 1\<rparr>
      in fail_or_fall_back opts (err Provider_missing p src) fallback st2)"

definition cache_hit ::
  "resolve_options \<Rightarrow> ref_source \<Rightarrow> string \<Rightarrow> out_value \<Rightarrow> string option \<Rightarrow> traverse_state \<Rightarrow>
   traverse_state \<times> (resolve_error + out_value)" where
  "cache_hit opts src p fallback cached st =
     (let st1 = st\<lparr>ts_cache_hits := ts_cache_hits st + 1\<rparr>
      in case cached of
           None \<Rightarrow>
             (let st2 = record_event opts (failure_event p src True Unresolved_reference)
                          (st1\<lparr>ts_unresolved := ts_unresolved st1 + 1\<rparr>)
              in if ro_strict opts then (st2, Inl (err Unresolved_reference p src))
                 else (st2, Inr fallback))
         | Some s \<Rightarrow>
             (record_event opts (success_event p src True)
                (st1\<lparr>ts_resolved := ts_resolved st1 + 1\<rparr>), Inr (OStr s)))"

text \<open>
  The \<open>catch\<close>: a \<open>ResolveError\<close> is kept as it is, anything else is wrapped with a code of its own;
  either way one more error and one more event.
\<close>

definition catch_failure ::
  "resolve_options \<Rightarrow> ref_source \<Rightarrow> string \<Rightarrow> out_value \<Rightarrow> resolve_error \<Rightarrow> traverse_state \<Rightarrow>
   traverse_state \<times> (resolve_error + out_value)" where
  "catch_failure opts src p fallback e st =
     (let st1 = record_event opts (failure_event p src False (rse_code e))
                  (st\<lparr>ts_errors := ts_errors st + 1\<rparr>)
      in fail_or_fall_back opts e fallback st1)"

definition classify_status :: "ref_source \<Rightarrow> int \<Rightarrow> resolution_code" where
  "classify_status src status = (if src = Secret \<and> status = 403 then Permission_denied else Invalid_reference)"

text \<open>
  The \<open>try\<close>: when the value is missing and resolution is strict, the error thrown inside the block is
  caught by the block's own handler.
\<close>

definition after_provider ::
  "resolve_options \<Rightarrow> ref_source \<Rightarrow> string \<Rightarrow> string \<Rightarrow> out_value \<Rightarrow> provider_reply \<Rightarrow> traverse_state \<Rightarrow>
   traverse_state \<times> (resolve_error + out_value)" where
  "after_provider opts src key p fallback reply st =
     (case reply of
        Missing \<Rightarrow>
          (let st1 = cache_set src key None st;
               st2 = record_event opts (failure_event p src False Unresolved_reference)
                       (st1\<lparr>ts_unresolved := ts_unresolved st1 + 1\<rparr>)
           in if ro_strict opts then catch_failure opts src p fallback (err Unresolved_reference p src) st2
              else (st2, Inr fallback))
      | Value s \<Rightarrow>
          (let st1 = cache_set src key (Some s) st
           in (record_event opts (success_event p src False) (st1\<lparr>ts_resolved := ts_resolved st1 + 1\<rparr>),
               Inr (OStr s)))
      | Throws_resolve_error e \<Rightarrow> catch_failure opts src p fallback e st
      | Throws_status status \<Rightarrow> catch_failure opts src p fallback (err (classify_status src status) p src) st
      | Throws_error \<Rightarrow> catch_failure opts src p fallback (err Invalid_reference p src) st)"

definition resolve_secret_ref ::
  "resolve_options \<Rightarrow> providers \<Rightarrow> nat \<Rightarrow> heap_object \<Rightarrow> string \<Rightarrow> traverse_state \<Rightarrow>
   traverse_state \<times> (resolve_error + out_value)" where
  "resolve_secret_ref opts pv a ob p st0 =
     (let st = st0\<lparr>ts_total := ts_total st0 + 1\<rparr>;
          normalized = normalize_secret_ref ob;
          key = secret_cache_key normalized;
          fallback = lenient_fallback opts Secret a ob
      in case pv_secret pv of
           None \<Rightarrow> provider_missing opts Secret p fallback st
         | Some provider \<Rightarrow>
             (case Option.bind (cache_of Secret st) (\<lambda>c. map_of c key) of
                Some cached \<Rightarrow> cache_hit opts Secret p fallback cached st
              | None \<Rightarrow>
                  after_provider opts Secret key p fallback (provider (ts_secret_calls st) normalized)
                    (st\<lparr>ts_secret_calls := ts_secret_calls st @ [normalized]\<rparr>)))"

definition resolve_variable_ref ::
  "resolve_options \<Rightarrow> providers \<Rightarrow> nat \<Rightarrow> heap_object \<Rightarrow> string \<Rightarrow> traverse_state \<Rightarrow>
   traverse_state \<times> (resolve_error + out_value)" where
  "resolve_variable_ref opts pv a ob p st0 =
     (let st = st0\<lparr>ts_total := ts_total st0 + 1\<rparr>;
          normalized = normalize_variable_ref ob;
          key = vr_name normalized;
          fallback = lenient_fallback opts Variable a ob
      in case pv_variable pv of
           None \<Rightarrow> provider_missing opts Variable p fallback st
         | Some provider \<Rightarrow>
             (case Option.bind (cache_of Variable st) (\<lambda>c. map_of c key) of
                Some cached \<Rightarrow> cache_hit opts Variable p fallback cached st
              | None \<Rightarrow>
                  after_provider opts Variable key p fallback (provider (ts_variable_calls st) normalized)
                    (st\<lparr>ts_variable_calls := ts_variable_calls st @ [normalized]\<rparr>)))"

section \<open>The traversal\<close>

text \<open>
  \<open>left\<close> is \<open>maxDepth + 1 - depth\<close>: it is 0 exactly when the depth exceeds the maximum, and it goes
  down by one at every nested value, so the traversal returns on cyclic inputs too.
\<close>

fun array_entries :: "nat \<Rightarrow> rvalue list \<Rightarrow> (string \<times> rvalue) list" where
  "array_entries i [] = []"
| "array_entries i (v # vs) = (digits i, v) # array_entries (Suc i) vs"

definition entries_of :: "heap_object \<Rightarrow> (string \<times> rvalue) list" where
  "entries_of ob = (case ob of Array vs \<Rightarrow> array_entries 0 vs | Object ps \<Rightarrow> ps)"

definition rebuild :: "heap_object \<Rightarrow> (string \<times> out_value) list \<Rightarrow> out_value" where
  "rebuild ob outs = (case ob of Array _ \<Rightarrow> OArray (map snd outs) | Object _ \<Rightarrow> OObject outs)"

fun primitive :: "rvalue \<Rightarrow> out_value" where
  "primitive Undefined = OUndefined"
| "primitive Null = ONull"
| "primitive (Bool b) = OBool b"
| "primitive (Num n) = ONum n"
| "primitive (Str s) = OStr s"
| "primitive (Addr a) = OUndefined"

definition is_ancestor :: "nat \<Rightarrow> traverse_state \<Rightarrow> bool" where
  "is_ancestor a st = (case ts_ancestors st of None \<Rightarrow> False | Some s \<Rightarrow> a \<in> set s)"

definition push_ancestor :: "nat \<Rightarrow> traverse_state \<Rightarrow> traverse_state" where
  "push_ancestor a st = st\<lparr>ts_ancestors := map_option (set_add a) (ts_ancestors st)\<rparr>"

definition pop_ancestor :: "nat \<Rightarrow> traverse_state \<Rightarrow> traverse_state" where
  "pop_ancestor a st = st\<lparr>ts_ancestors := map_option (filter (\<lambda>x. x \<noteq> a)) (ts_ancestors st)\<rparr>"

function traverse ::
  "resolve_options \<Rightarrow> providers \<Rightarrow> heap \<Rightarrow> nat \<Rightarrow> rvalue \<Rightarrow> string list \<Rightarrow> traverse_state \<Rightarrow>
   traverse_state \<times> (resolve_error + out_value)"
and traverse_entries ::
  "resolve_options \<Rightarrow> providers \<Rightarrow> heap \<Rightarrow> nat \<Rightarrow> (string \<times> rvalue) list \<Rightarrow> string list \<Rightarrow> traverse_state \<Rightarrow>
   traverse_state \<times> (resolve_error + (string \<times> out_value) list)" where
  "traverse opts pv h 0 v path st =
     (st, Inl (err Max_depth_exceeded (build_pointer (ro_base_path opts) path) Secret))"
| "traverse opts pv h (Suc left) v path st =
     (case v of
        Addr a \<Rightarrow>
          (let ob = h a; pointer = build_pointer (ro_base_path opts) path
           in if is_secret_ref ob then resolve_secret_ref opts pv a ob pointer st
              else if is_variable_ref ob then resolve_variable_ref opts pv a ob pointer st
              else if is_ancestor a st then (st, Inl (err Cycle_detected pointer Secret))
              else case traverse_entries opts pv h left (entries_of ob) path (push_ancestor a st) of
                     (st1, Inl e) \<Rightarrow> (st1, Inl e)
                   | (st1, Inr outs) \<Rightarrow> (pop_ancestor a st1, Inr (rebuild ob outs)))
      | _ \<Rightarrow> (st, Inr (primitive v)))"
| "traverse_entries opts pv h left [] path st = (st, Inr [])"
| "traverse_entries opts pv h left ((k, v) # es) path st =
     (case traverse opts pv h left v (path @ [k]) st of
        (st1, Inl e) \<Rightarrow> (st1, Inl e)
      | (st1, Inr out) \<Rightarrow>
          (case traverse_entries opts pv h left es path st1 of
             (st2, Inl e) \<Rightarrow> (st2, Inl e)
           | (st2, Inr outs) \<Rightarrow> (st2, Inr ((k, out) # outs))))"
  by pat_completeness auto
termination
  by (relation "measures [\<lambda>x. case x of Inl (_, _, _, left, _) \<Rightarrow> left | Inr (_, _, _, left, _) \<Rightarrow> left,
        \<lambda>x. case x of Inl _ \<Rightarrow> 0 | Inr (_, _, _, _, es, _) \<Rightarrow> Suc (length es)]") auto

definition initial_state :: "resolve_options \<Rightarrow> traverse_state" where
  "initial_state opts =
     \<lparr>ts_secret_cache = (if ro_memoize opts then Some [] else None),
      ts_variable_cache = (if ro_memoize opts then Some [] else None),
      ts_events = [], ts_total = 0, ts_resolved = 0, ts_unresolved = 0, ts_cache_hits = 0,
      ts_errors = 0, ts_ancestors = (if ro_cycle_detection opts then Some [] else None),
      ts_secret_calls = [], ts_variable_calls = []\<rparr>"

definition resolve_references ::
  "resolve_options \<Rightarrow> providers \<Rightarrow> heap \<Rightarrow> rvalue \<Rightarrow> traverse_state \<times> (resolve_error + out_value)" where
  "resolve_references opts pv h v =
     traverse opts pv h (Suc (ro_max_depth opts)) v [] (initial_state opts)"

end
