(* ===== verification/References_Report.thy ===== *)
theory References_Report
  imports References
begin

text \<open>
  What resolution promises: the counts of the report add up, a provider is not asked twice for what it
  has answered, inputs without cycles are never rejected as cyclic, and strict resolution computes
  the plain substitution of values for references, memoised or not.
\<close>

declare traverse.simps [simp del] traverse_entries.simps [simp del]

lemmas traverse_rules = traverse.simps traverse_entries.simps

section \<open>What holds across a successful traversal\<close>

text \<open>
  A traversal handles references one after the other; in between it only marks and unmarks ancestors.
  A relation between states that each of these respects holds from the beginning of a successful
  traversal to its end.
\<close>

locale traversal_relation =
  fixes opts :: resolve_options and pv :: providers
    and R :: "traverse_state \<Rightarrow> traverse_state \<Rightarrow> bool"
  assumes R_refl: "R st st"
    and R_trans: "R s t \<Longrightarrow> R t u \<Longrightarrow> R s u"
    and R_secret: "resolve_secret_ref opts pv a ob p st = (st', Inr out) \<Longrightarrow> R st st'"
    and R_variable: "resolve_variable_ref opts pv a ob p st = (st', Inr out) \<Longrightarrow> R st st'"
    and R_ancestor: "\<not> is_ancestor a st \<Longrightarrow> R (push_ancestor a st) st' \<Longrightarrow> R st (pop_ancestor a st')"
begin

lemma traverse_respects:
  "opts' = opts \<Longrightarrow> pv' = pv \<Longrightarrow> traverse opts' pv' h left v path st = (st', Inr out) \<Longrightarrow> R st st'"
  "opts' = opts \<Longrightarrow> pv' = pv \<Longrightarrow> traverse_entries opts' pv' h left es path st = (st', Inr outs) \<Longrightarrow> R st st'"
proof (induction opts' pv' h left v path st and opts' pv' h left es path st
    arbitrary: st' out and st' outs rule: traverse_traverse_entries.induct)
  case (2 opts' pv' h left v path st)
  show ?case
  proof (cases v)
    case (Addr a)
    show ?thesis
    proof (cases "is_secret_ref (h a) \<or> is_variable_ref (h a)")
      case True
      with 2(2-) Addr show ?thesis
        by (auto simp: traverse_rules Let_def split: if_splits intro: R_secret R_variable)
    next
      case False
      with 2(2-) Addr obtain st1 outs where na: "\<not> is_ancestor a st"
        and st1: "traverse_entries opts' pv' h left (entries_of (h a)) path (push_ancestor a st) = (st1, Inr outs)"
        and st': "st' = pop_ancestor a st1"
        by (auto simp: traverse_rules Let_def split: if_splits prod.splits sum.splits)
      show ?thesis
        using 2(1)[OF Addr refl refl _ _ na \<open>opts' = opts\<close> \<open>pv' = pv\<close> st1] False na
        by (auto simp: st' intro: R_ancestor)
    qed
  qed (use 2 in \<open>auto simp: traverse_rules R_refl\<close>)
next
  case (4 opts' pv' h left k v es path st)
  then obtain st1 o1 o2 where st1: "traverse opts' pv' h left v (path @ [k]) st = (st1, Inr o1)"
    and st2: "traverse_entries opts' pv' h left es path st1 = (st', Inr o2)"
    by (auto simp: traverse_rules split: prod.splits sum.splits)
  show ?case
    using R_trans[OF 4(1)[OF \<open>opts' = opts\<close> \<open>pv' = pv\<close> st1]
        4(2)[OF st1[symmetric] refl \<open>opts' = opts\<close> \<open>pv' = pv\<close> st2]] .
qed (auto simp: traverse_rules R_refl)

lemmas traverse_R = traverse_respects(1)[OF refl refl]

lemma resolve_references_R:
  "resolve_references opts pv h v = (st', Inr out) \<Longrightarrow> R (initial_state opts) st'"
  unfolding resolve_references_def by (rule traverse_R)

end

section \<open>Counting\<close>

text \<open>Some references were handled between two states, each counted once and reported once.\<close>

definition handled :: "resolve_options \<Rightarrow> nat \<Rightarrow> traverse_state \<Rightarrow> traverse_state \<Rightarrow> bool" where
  "handled opts n st st' \<longleftrightarrow>
     ts_total st' = ts_total st + n
     \<and> ts_resolved st' + ts_unresolved st' = ts_resolved st + ts_unresolved st + n
     \<and> length (ts_events st') = length (ts_events st) + (if ro_report opts then n else 0)
     \<and> ts_errors st' + ts_unresolved st \<le> ts_errors st + ts_unresolved st'
     \<and> ts_unresolved st \<le> ts_unresolved st' \<and> ts_errors st \<le> ts_errors st'
     \<and> (ro_strict opts \<longrightarrow> ts_unresolved st' = ts_unresolved st)"

lemma handled_0 [simp]: "handled opts 0 st st"
  by (simp add: handled_def)

lemma handled_total: "handled opts n s t \<Longrightarrow> handled opts (ts_total t - ts_total s) s t"
  by (simp add: handled_def)

lemmas resolution_defs = provider_missing_def cache_hit_def after_provider_def catch_failure_def
  fail_or_fall_back_def record_event_def failure_event_def success_event_def cache_set_def Let_def

lemma cache_set_fields [simp]:
  "ts_total (cache_set src k v st) = ts_total st" "ts_resolved (cache_set src k v st) = ts_resolved st"
  "ts_unresolved (cache_set src k v st) = ts_unresolved st" "ts_errors (cache_set src k v st) = ts_errors st"
  "ts_events (cache_set src k v st) = ts_events st" "ts_ancestors (cache_set src k v st) = ts_ancestors st"
  "ts_secret_calls (cache_set src k v st) = ts_secret_calls st"
  "ts_variable_calls (cache_set src k v st) = ts_variable_calls st"
  by (cases src; simp add: cache_set_def)+

lemma record_event_fields [simp]:
  "ts_total (record_event opts e st) = ts_total st" "ts_resolved (record_event opts e st) = ts_resolved st"
  "ts_unresolved (record_event opts e st) = ts_unresolved st" "ts_errors (record_event opts e st) = ts_errors st"
  "length (ts_events (record_event opts e st)) = length (ts_events st) + (if ro_report opts then 1 else 0)"
  "ts_ancestors (record_event opts e st) = ts_ancestors st"
  "ts_secret_calls (record_event opts e st) = ts_secret_calls st"
  "ts_variable_calls (record_event opts e st) = ts_variable_calls st"
  "cache_of src (record_event opts e st) = cache_of src st"
  by (cases src; simp add: record_event_def cache_of_def)+

text \<open>Each way of handling a reference, from a state where the reference has been counted in.\<close>

lemma provider_missing_handled:
  "provider_missing opts src p fb (st\<lparr>ts_total := Suc (ts_total st)\<rparr>) = (st', Inr out) \<Longrightarrow> handled opts (Suc 0) st st'"
  by (auto simp: provider_missing_def fail_or_fall_back_def handled_def Let_def
      record_event_def split: if_splits)

lemma cache_hit_handled:
  "cache_hit opts src p fb c (st\<lparr>ts_total := Suc (ts_total st)\<rparr>) = (st', Inr out) \<Longrightarrow> handled opts (Suc 0) st st'"
  by (auto simp: cache_hit_def handled_def Let_def split: if_splits option.splits)

lemma after_provider_handled:
  assumes run: "after_provider opts src k p fb reply s0 = (st', Inr out)"
    and same: "ts_total s0 = ts_total st + 1" "ts_resolved s0 = ts_resolved st" "ts_errors s0 = ts_errors st"
      "ts_unresolved s0 = ts_unresolved st" "ts_events s0 = ts_events st"
  shows "handled opts (Suc 0) st st'"
  using assms
  by (cases reply)
    (auto simp: after_provider_def catch_failure_def fail_or_fall_back_def handled_def
      Let_def split: if_splits)

lemma resolve_secret_ref_handled:
  "resolve_secret_ref opts pv a ob p st = (st', Inr out) \<Longrightarrow> handled opts (Suc 0) st st'"
  by (auto simp: resolve_secret_ref_def Let_def split: option.splits
      elim!: provider_missing_handled cache_hit_handled after_provider_handled)

lemma resolve_variable_ref_handled:
  "resolve_variable_ref opts pv a ob p st = (st', Inr out) \<Longrightarrow> handled opts (Suc 0) st st'"
  by (auto simp: resolve_variable_ref_def Let_def split: option.splits
      elim!: provider_missing_handled cache_hit_handled after_provider_handled)

lemma ancestor_handled:
  "handled opts (ts_total st' - ts_total (push_ancestor a st)) (push_ancestor a st) st' \<Longrightarrow>
     handled opts (ts_total (pop_ancestor a st') - ts_total st) st (pop_ancestor a st')"
  by (simp add: handled_def push_ancestor_def pop_ancestor_def)

lemma handled_trans:
  "handled opts (ts_total t - ts_total s) s t \<Longrightarrow> handled opts (ts_total u - ts_total t) t u \<Longrightarrow>
     handled opts (ts_total u - ts_total s) s u"
  by (auto simp: handled_def)

definition counts_agree :: "resolve_options \<Rightarrow> traverse_state \<Rightarrow> traverse_state \<Rightarrow> bool" where
  "counts_agree opts st st' \<longleftrightarrow> handled opts (ts_total st' - ts_total st) st st'"

interpretation counting: traversal_relation opts pv "counts_agree opts" for opts pv
proof unfold_locales
  show "counts_agree opts st st" for st by (simp add: counts_agree_def)
qed (auto simp: counts_agree_def intro: ancestor_handled handled_trans
    handled_total resolve_secret_ref_handled resolve_variable_ref_handled)

text \<open>
  Report.  When a resolution succeeds, its counts add up: every reference met is resolved or
  unresolved, never both; an error is counted only for an unresolved one; the report has one event
  per reference, or none when reporting is off; and a strict resolution leaves nothing unresolved.
\<close>

theorem report_counts_agree:
  "case resolve_references opts pv h v of
     (st, Inl e) \<Rightarrow> True
   | (st, Inr out) \<Rightarrow>
       ts_total st = ts_resolved st + ts_unresolved st
       \<and> ts_errors st \<le> ts_unresolved st
       \<and> length (ts_events st) = (if ro_report opts then ts_total st else 0)
       \<and> (if ro_strict opts then ts_unresolved st = 0 else True)"
  by (auto split: prod.splits sum.splits dest!: counting.resolve_references_R
      simp: counts_agree_def handled_def initial_state_def)

section \<open>Memoisation\<close>

text \<open>A call is answered when the provider returns, with a value or without.\<close>

fun answers :: "provider_reply \<Rightarrow> bool" where
  "answers (Value s) = True"
| "answers Missing = True"
| "answers _ = False"

fun answered :: "('r list \<Rightarrow> 'r \<Rightarrow> provider_reply) \<Rightarrow> 'r list \<Rightarrow> 'r list \<Rightarrow> 'r list" where
  "answered provider before [] = []"
| "answered provider before (r # rs) =
     (if answers (provider before r) then [r] else []) @ answered provider (before @ [r]) rs"

lemma answered_snoc:
  "answered provider before (rs @ [r]) =
     answered provider before rs @ (if answers (provider (before @ rs) r) then [r] else [])"
  by (induction rs arbitrary: before) auto

definition answered_secret_keys :: "providers \<Rightarrow> traverse_state \<Rightarrow> string list" where
  "answered_secret_keys pv st =
     (case pv_secret pv of None \<Rightarrow> [] | Some f \<Rightarrow> map secret_cache_key (answered f [] (ts_secret_calls st)))"

definition answered_variable_keys :: "providers \<Rightarrow> traverse_state \<Rightarrow> string list" where
  "answered_variable_keys pv st =
     (case pv_variable pv of None \<Rightarrow> [] | Some f \<Rightarrow> map vr_name (answered f [] (ts_variable_calls st)))"

definition remembers :: "string list \<Rightarrow> (string \<times> string option) list option \<Rightarrow> bool" where
  "remembers ks c \<longleftrightarrow> distinct ks \<and> (\<exists>m. c = Some m \<and> set ks \<subseteq> fst ` set m)"

lemma remembers_more:
  "remembers ks (Some m) \<Longrightarrow> remembers ks (Some (AList.update k v m))"
  by (auto simp: remembers_def dom_update)

lemma remembers_new:
  "remembers ks (Some m) \<Longrightarrow> map_of m k = None \<Longrightarrow> remembers (ks @ [k]) (Some (AList.update k v m))"
  by (auto simp: remembers_def dom_update map_of_eq_None_iff)

definition memo_ok :: "providers \<Rightarrow> traverse_state \<Rightarrow> bool" where
  "memo_ok pv st \<longleftrightarrow>
     remembers (answered_secret_keys pv st) (ts_secret_cache st)
     \<and> remembers (answered_variable_keys pv st) (ts_variable_cache st)"

fun cached_reply :: "provider_reply \<Rightarrow> string option" where
  "cached_reply (Value s) = Some s"
| "cached_reply _ = None"

definition caches_and_calls ::
  "traverse_state \<Rightarrow> (string \<times> string option) list option \<times> (string \<times> string option) list option
     \<times> secret_ref list \<times> variable_ref list \<times> nat list option" where
  "caches_and_calls st =
     (ts_secret_cache st, ts_variable_cache st, ts_secret_calls st, ts_variable_calls st, ts_ancestors st)"

lemma caches_and_calls_kept:
  "caches_and_calls (record_event opts e st) = caches_and_calls st"
  "caches_and_calls (fst (fail_or_fall_back opts er fb st)) = caches_and_calls st"
  "caches_and_calls (fst (catch_failure opts src p fb er st)) = caches_and_calls st"
  "caches_and_calls (fst (provider_missing opts src p fb st)) = caches_and_calls st"
  "caches_and_calls (fst (cache_hit opts src p fb c st)) = caches_and_calls st"
  by (simp_all add: caches_and_calls_def resolution_defs split: option.split)

lemma caches_and_calls_after_provider:
  "caches_and_calls (fst (after_provider opts src k p fb reply st)) =
     caches_and_calls (if answers reply then cache_set src k (cached_reply reply) st else st)"
  by (cases reply; cases src)
    (simp_all add: caches_and_calls_def resolution_defs split: option.split)

lemma caches_and_calls_secret:
  "caches_and_calls (fst (resolve_secret_ref opts pv a ob p st)) =
     (let r = normalize_secret_ref ob; k = secret_cache_key r
      in case pv_secret pv of
           None \<Rightarrow> caches_and_calls st
         | Some f \<Rightarrow>
             (case Option.bind (ts_secret_cache st) (\<lambda>c. map_of c k) of
                Some c \<Rightarrow> caches_and_calls st
              | None \<Rightarrow>
                  (let reply = f (ts_secret_calls st) r
                   in (if answers reply then map_option (AList.update k (cached_reply reply)) (ts_secret_cache st)
                       else ts_secret_cache st,
                       ts_variable_cache st, ts_secret_calls st @ [r], ts_variable_calls st, ts_ancestors st))))"
  by (auto simp: resolve_secret_ref_def Let_def caches_and_calls_kept caches_and_calls_after_provider
      cache_of_def cache_set_def split: option.split) (simp_all add: caches_and_calls_def)

lemma caches_and_calls_variable:
  "caches_and_calls (fst (resolve_variable_ref opts pv a ob p st)) =
     (let r = normalize_variable_ref ob; k = vr_name r
      in case pv_variable pv of
           None \<Rightarrow> caches_and_calls st
         | Some f \<Rightarrow>
             (case Option.bind (ts_variable_cache st) (\<lambda>c. map_of c k) of
                Some c \<Rightarrow> caches_and_calls st
              | None \<Rightarrow>
                  (let reply = f (ts_variable_calls st) r
                   in (ts_secret_cache st,
                       if answers reply then map_option (AList.update k (cached_reply reply)) (ts_variable_cache st)
                       else ts_variable_cache st,
                       ts_secret_calls st, ts_variable_calls st @ [r], ts_ancestors st))))"
  by (auto simp: resolve_variable_ref_def Let_def caches_and_calls_kept caches_and_calls_after_provider
      cache_of_def cache_set_def split: option.split) (simp_all add: caches_and_calls_def)

lemma memo_ok_secret:
  assumes "memo_ok pv st"
  shows "memo_ok pv (fst (resolve_secret_ref opts pv a ob p st))"
  using caches_and_calls_secret[of opts pv a ob p st] assms
  by (auto simp: Let_def memo_ok_def answered_secret_keys_def answered_variable_keys_def answered_snoc
      caches_and_calls_def remembers_more remembers_new remembers_def[where c = None] split: option.splits if_splits
      bind_splits)

lemma memo_ok_variable:
  assumes "memo_ok pv st"
  shows "memo_ok pv (fst (resolve_variable_ref opts pv a ob p st))"
  using caches_and_calls_variable[of opts pv a ob p st] assms
  by (auto simp: Let_def memo_ok_def answered_secret_keys_def answered_variable_keys_def answered_snoc
      caches_and_calls_def remembers_more remembers_new remembers_def[where c = None] split: option.splits if_splits
      bind_splits)

lemma memo_ok_ancestors [simp]:
  "memo_ok pv (push_ancestor a st) = memo_ok pv st" "memo_ok pv (pop_ancestor a st) = memo_ok pv st"
  by (simp_all add: memo_ok_def answered_secret_keys_def answered_variable_keys_def push_ancestor_def
      pop_ancestor_def cong: option.case_cong)

definition keeps_memo :: "providers \<Rightarrow> traverse_state \<Rightarrow> traverse_state \<Rightarrow> bool" where
  "keeps_memo pv st st' \<longleftrightarrow> (memo_ok pv st \<longrightarrow> memo_ok pv st')"

interpretation memoising: traversal_relation opts pv "keeps_memo pv" for opts pv
proof unfold_locales
  show "keeps_memo pv st st'" if "resolve_secret_ref opts pv a ob p st = (st', Inr out)" for a ob p st st' out
    using memo_ok_secret[of pv st opts a ob p] that by (simp add: keeps_memo_def)
  show "keeps_memo pv st st'" if "resolve_variable_ref opts pv a ob p st = (st', Inr out)" for a ob p st st' out
    using memo_ok_variable[of pv st opts a ob p] that by (simp add: keeps_memo_def)
qed (auto simp: keeps_memo_def)

lemma memo_ok_initial: "ro_memoize opts \<Longrightarrow> memo_ok pv (initial_state opts)"
  by (simp add: memo_ok_def answered_secret_keys_def answered_variable_keys_def initial_state_def
      remembers_def split: option.split)

text \<open>
  Memoisation.  With memoisation on, a successful resolution never asks a provider again for a key
  it has already answered, with a value or with its absence.
\<close>

theorem answered_once:
  assumes "ro_memoize opts"
    and "resolve_references opts pv h v = (st, Inr out)"
  shows "distinct (answered_secret_keys pv st) \<and> distinct (answered_variable_keys pv st)"
  using memoising.resolve_references_R[OF assms(2)] memo_ok_initial[OF assms(1), of pv]
  by (simp add: keeps_memo_def memo_ok_def remembers_def)

definition two_same_refs :: heap where
  "two_same_refs a =
     (if a = 0 then Object [(''a'', Addr 1), (''b'', Addr 1), (''c'', Addr 2)]
      else if a = 1 then Object [(''kind'', Str ''var''), (''name'', Str ''x'')]
      else Object [(''kind'', Str ''vault''), (''path'', Str ''p''), (''key'', Str ''k'')])"

definition sample_providers :: providers where
  "sample_providers =
     \<lparr>pv_secret = Some (\<lambda>before r. Value (sr_key r)), pv_variable = Some (\<lambda>before r. Value ''v'')\<rparr>"

theorem answered_once_witness:
  "distinct (answered_secret_keys sample_providers
      (fst (resolve_references default_options sample_providers two_same_refs (Addr 0))))
   \<and> distinct (answered_variable_keys sample_providers
      (fst (resolve_references default_options sample_providers two_same_refs (Addr 0))))"
proof -
  let ?r = "resolve_references default_options sample_providers two_same_refs (Addr 0)"
  have "\<not> isl (snd ?r)" by code_simp
  then obtain out where "?r = (fst ?r, Inr out)" by (cases ?r; cases "snd ?r") auto
  from answered_once[OF _ this] show ?thesis by (simp add: default_options_def)
qed

section \<open>Resolution is substitution\<close>

text \<open>
  The specification: replace every reference by what its provider says, failing or falling back where
  it says nothing, to a depth of \<open>left\<close>; no caches, no report, no ancestors.
\<close>

definition answer_of :: "resolve_options \<Rightarrow> ref_source \<Rightarrow> nat \<Rightarrow> heap_object \<Rightarrow> provider_reply \<Rightarrow> out_value option" where
  "answer_of opts src a ob reply =
     (case reply of
        Value s \<Rightarrow> Some (OStr s)
      | _ \<Rightarrow> if ro_strict opts then None else Some (lenient_fallback opts src a ob))"

function subst ::
  "resolve_options \<Rightarrow> (string \<Rightarrow> provider_reply) \<Rightarrow> (string \<Rightarrow> provider_reply) \<Rightarrow> heap \<Rightarrow> nat \<Rightarrow> rvalue \<Rightarrow> out_value option"
and subst_entries ::
  "resolve_options \<Rightarrow> (string \<Rightarrow> provider_reply) \<Rightarrow> (string \<Rightarrow> provider_reply) \<Rightarrow> heap \<Rightarrow> nat \<Rightarrow> (string \<times> rvalue) list \<Rightarrow>
   (string \<times> out_value) list option" where
  "subst opts secret var h 0 v = None"
| "subst opts secret var h (Suc left) v =
     (case v of
        Addr a \<Rightarrow>
          (if is_secret_ref (h a)
           then answer_of opts Secret a (h a) (secret (secret_cache_key (normalize_secret_ref (h a))))
           else if is_variable_ref (h a)
           then answer_of opts Variable a (h a) (var (vr_name (normalize_variable_ref (h a))))
           else map_option (rebuild (h a)) (subst_entries opts secret var h left (entries_of (h a))))
      | _ \<Rightarrow> Some (primitive v))"
| "subst_entries opts secret var h left [] = Some []"
| "subst_entries opts secret var h left ((k, v) # es) =
     (case subst opts secret var h left v of
        None \<Rightarrow> None
      | Some out \<Rightarrow> map_option (\<lambda>outs. (k, out) # outs) (subst_entries opts secret var h left es))"
  by pat_completeness auto
termination
  by (relation "measures [\<lambda>x. case x of Inl (_, _, _, _, left, _) \<Rightarrow> left | Inr (_, _, _, _, left, _) \<Rightarrow> left,
        \<lambda>x. case x of Inl _ \<Rightarrow> 0 | Inr (_, _, _, _, _, es) \<Rightarrow> Suc (length es)]") auto

text \<open>Providers whose answer depends on the cache key alone.\<close>

definition keyed_providers :: "(string \<Rightarrow> provider_reply) \<Rightarrow> (string \<Rightarrow> provider_reply) \<Rightarrow> providers" where
  "keyed_providers secret var =
     \<lparr>pv_secret = Some (\<lambda>before r. secret (secret_cache_key r)),
      pv_variable = Some (\<lambda>before r. var (vr_name r))\<rparr>"

text \<open>The caches hold what the providers answered.\<close>

definition cache_true :: "(string \<Rightarrow> provider_reply) \<Rightarrow> (string \<times> string option) list option \<Rightarrow> bool" where
  "cache_true f c \<longleftrightarrow>
     (\<forall>m k x. c = Some m \<longrightarrow> map_of m k = Some x \<longrightarrow> answers (f k) \<and> cached_reply (f k) = x)"

definition caches_true :: "(string \<Rightarrow> provider_reply) \<Rightarrow> (string \<Rightarrow> provider_reply) \<Rightarrow> traverse_state \<Rightarrow> bool" where
  "caches_true secret var st \<longleftrightarrow>
     cache_true secret (ts_secret_cache st) \<and> cache_true var (ts_variable_cache st)"

lemma cache_true_update:
  "cache_true f c \<Longrightarrow> answers (f k) \<Longrightarrow> cache_true f (map_option (AList.update k (cached_reply (f k))) c)"
  by (auto simp: cache_true_def update_conv' split: if_splits)

definition right :: "'e + 'a \<Rightarrow> 'a option" where
  "right r = (case r of Inl e \<Rightarrow> None | Inr x \<Rightarrow> Some x)"

lemma right_simps [simp]: "right (Inl e) = None" "right (Inr x) = Some x"
  by (simp_all add: right_def)

lemma right_after_provider:
  "right (snd (after_provider opts src k p (lenient_fallback opts src a ob) reply st)) = answer_of opts src a ob reply"
  by (cases reply) (simp_all add: resolution_defs answer_of_def)

lemma right_cache_hit:
  "answers reply \<Longrightarrow> cached_reply reply = c \<Longrightarrow>
     right (snd (cache_hit opts src p (lenient_fallback opts src a ob) c st)) = answer_of opts src a ob reply"
  by (cases reply) (auto simp: resolution_defs answer_of_def)

lemma secret_ref_substituted:
  assumes "caches_true secret var st"
  shows "right (snd (resolve_secret_ref opts (keyed_providers secret var) a ob p st)) =
      answer_of opts Secret a ob (secret (secret_cache_key (normalize_secret_ref ob)))"
    and "caches_true secret var (fst (resolve_secret_ref opts (keyed_providers secret var) a ob p st))"
    and "ts_ancestors (fst (resolve_secret_ref opts (keyed_providers secret var) a ob p st)) = ts_ancestors st"
proof -
  show "right (snd (resolve_secret_ref opts (keyed_providers secret var) a ob p st)) =
      answer_of opts Secret a ob (secret (secret_cache_key (normalize_secret_ref ob)))"
    using assms
    by (auto simp: resolve_secret_ref_def keyed_providers_def Let_def right_after_provider cache_of_def
        caches_true_def cache_true_def bind_eq_Some_conv split: option.split intro!: right_cache_hit)
  show "caches_true secret var (fst (resolve_secret_ref opts (keyed_providers secret var) a ob p st))"
    "ts_ancestors (fst (resolve_secret_ref opts (keyed_providers secret var) a ob p st)) = ts_ancestors st"
    using caches_and_calls_secret[of opts "keyed_providers secret var" a ob p st] assms
    by (auto simp: caches_and_calls_def caches_true_def keyed_providers_def Let_def
        intro: cache_true_update split: option.splits if_splits)
qed

lemma variable_ref_substituted:
  assumes "caches_true secret var st"
  shows "right (snd (resolve_variable_ref opts (keyed_providers secret var) a ob p st)) =
      answer_of opts Variable a ob (var (vr_name (normalize_variable_ref ob)))"
    and "caches_true secret var (fst (resolve_variable_ref opts (keyed_providers secret var) a ob p st))"
    and "ts_ancestors (fst (resolve_variable_ref opts (keyed_providers secret var) a ob p st)) = ts_ancestors st"
proof -
  show "right (snd (resolve_variable_ref opts (keyed_providers secret var) a ob p st)) =
      answer_of opts Variable a ob (var (vr_name (normalize_variable_ref ob)))"
    using assms
    by (auto simp: resolve_variable_ref_def keyed_providers_def Let_def right_after_provider cache_of_def
        caches_true_def cache_true_def bind_eq_Some_conv split: option.split intro!: right_cache_hit)
  show "caches_true secret var (fst (resolve_variable_ref opts (keyed_providers secret var) a ob p st))"
    "ts_ancestors (fst (resolve_variable_ref opts (keyed_providers secret var) a ob p st)) = ts_ancestors st"
    using caches_and_calls_variable[of opts "keyed_providers secret var" a ob p st] assms
    by (auto simp: caches_and_calls_def caches_true_def keyed_providers_def Let_def
        intro: cache_true_update split: option.splits if_splits)
qed

text \<open>
  The states met while traversing an input without cycles: the caches are true, and the ancestors all
  have a higher rank than the value at hand.
\<close>

definition descends :: "(nat \<Rightarrow> nat) \<Rightarrow> heap \<Rightarrow> bool" where
  "descends rank h \<longleftrightarrow> (\<forall>a k b. (k, Addr b) \<in> set (entries_of (h a)) \<longrightarrow> rank b < rank a)"

definition above :: "(nat \<Rightarrow> nat) \<Rightarrow> traverse_state \<Rightarrow> rvalue \<Rightarrow> bool" where
  "above rank st v \<longleftrightarrow>
     (\<forall>a s x. v = Addr a \<longrightarrow> ts_ancestors st = Some s \<longrightarrow> x \<in> set s \<longrightarrow> rank a < rank x)"

lemma above_not_ancestor: "above rank st (Addr a) \<Longrightarrow> \<not> is_ancestor a st"
  by (auto simp: above_def is_ancestor_def split: option.splits)

lemma above_child:
  "descends rank h \<Longrightarrow> above rank st (Addr a) \<Longrightarrow> (k, v) \<in> set (entries_of (h a)) \<Longrightarrow>
     above rank (push_ancestor a st) v"
  by (fastforce simp: above_def descends_def push_ancestor_def)

lemma push_pop_ancestor:
  "\<not> is_ancestor a st \<Longrightarrow> ts_ancestors st1 = ts_ancestors (push_ancestor a st) \<Longrightarrow>
     ts_ancestors (pop_ancestor a st1) = ts_ancestors st"
  by (cases "ts_ancestors st")
    (auto simp: push_ancestor_def pop_ancestor_def is_ancestor_def set_add_def filter_id_conv)

lemma caches_true_ancestors [simp]:
  "caches_true secret var (push_ancestor a st) = caches_true secret var st"
  "caches_true secret var (pop_ancestor a st) = caches_true secret var st"
  by (simp_all add: caches_true_def push_ancestor_def pop_ancestor_def)

text \<open>What a step gives: the specification's result, and on success a state like the one before.\<close>

definition follows ::
  "(string \<Rightarrow> provider_reply) \<Rightarrow> (string \<Rightarrow> provider_reply) \<Rightarrow> traverse_state \<Rightarrow> 'a option \<Rightarrow>
   traverse_state \<times> (resolve_error + 'a) \<Rightarrow> bool" where
  "follows secret var st expected r \<longleftrightarrow>
     right (snd r) = expected
     \<and> (expected \<noteq> None \<longrightarrow> caches_true secret var (fst r) \<and> ts_ancestors (fst r) = ts_ancestors st)"

lemma traverse_follows:
  "opts' = opts \<Longrightarrow> pv' = keyed_providers secret var \<Longrightarrow> h' = h \<Longrightarrow> descends rank h \<Longrightarrow> caches_true secret var st \<Longrightarrow>
     above rank st v \<Longrightarrow>
     follows secret var st (subst opts secret var h left v) (traverse opts' pv' h' left v path st)"
  "opts' = opts \<Longrightarrow> pv' = keyed_providers secret var \<Longrightarrow> h' = h \<Longrightarrow> descends rank h \<Longrightarrow> caches_true secret var st \<Longrightarrow>
     (\<forall>(k, v) \<in> set es. above rank st v) \<Longrightarrow>
     follows secret var st (subst_entries opts secret var h left es) (traverse_entries opts' pv' h' left es path st)"
proof (induction opts' pv' h' left v path st and opts' pv' h' left es path st
    rule: traverse_traverse_entries.induct)
  case (2 opts' pv' h' left v path st)
  note eqs = \<open>opts' = opts\<close> \<open>pv' = keyed_providers secret var\<close> \<open>h' = h\<close>
  show ?case
  proof (cases v)
    case (Addr a)
    show ?thesis
    proof (cases "is_secret_ref (h a) \<or> is_variable_ref (h a)")
      case True
      with 2(2-) Addr show ?thesis
        by (auto simp: traverse_rules Let_def follows_def secret_ref_substituted variable_ref_substituted)
    next
      case False
      have na: "\<not> is_ancestor a st" using 2(2-) Addr above_not_ancestor[of rank st a] by simp
      have "follows secret var (push_ancestor a st) (subst_entries opts secret var h left (entries_of (h a)))
          (traverse_entries opts' pv' h' left (entries_of (h' a)) path (push_ancestor a st))"
        using 2(1)[OF Addr refl refl] 2(2-) Addr False na above_child[of rank h st a] by fastforce
      then show ?thesis
        using False na Addr eqs
        by (auto simp: traverse_rules Let_def follows_def right_def map_option_case push_pop_ancestor
            split: prod.splits sum.splits option.splits)
    qed
  qed (use 2 in \<open>auto simp: traverse_rules follows_def\<close>)
next
  case (4 opts' pv' h' left k v es path st)
  note eqs = \<open>opts' = opts\<close> \<open>pv' = keyed_providers secret var\<close> \<open>h' = h\<close>
  obtain st1 r1 where t1: "traverse opts' pv' h' left v (path @ [k]) st = (st1, r1)" by fastforce
  have f1: "follows secret var st (subst opts secret var h left v) (st1, r1)"
    using 4(1) 4(3-) t1 by auto
  show ?case
  proof (cases r1)
    case (Inl e)
    with f1 t1 eqs show ?thesis by (auto simp: follows_def traverse_rules)
  next
    case (Inr out)
    with f1 have s1: "subst opts secret var h left v = Some out" "caches_true secret var st1"
      "ts_ancestors st1 = ts_ancestors st" by (auto simp: follows_def)
    have "follows secret var st1 (subst_entries opts secret var h left es)
        (traverse_entries opts' pv' h' left es path st1)"
      using 4(2)[OF t1[symmetric] Inr] 4(3-) s1 by (auto simp: above_def)
    then show ?thesis
      using s1 t1 Inr eqs
      by (auto simp: follows_def traverse_rules right_def map_option_case split: prod.splits sum.splits option.splits)
  qed
qed (auto simp: traverse_rules follows_def)

text \<open>
  C33. Resolution is substitution.  For an input without cycles and providers whose answer depends on
  the cache key alone, resolving gives exactly the plain substitution to the depth bound: the same
  output when the specification has one, an error when it has none; whatever the settings of
  memoisation, cycle detection and reporting.
\<close>

theorem resolution_is_substitution:
  assumes "descends rank h"
  shows "right (snd (resolve_references opts (keyed_providers secret var) h v)) =
     subst opts secret var h (Suc (ro_max_depth opts)) v"
  unfolding resolve_references_def
  by (rule traverse_follows(1)[OF refl refl refl assms, unfolded follows_def, THEN conjunct1])
    (simp_all add: caches_true_def cache_true_def above_def initial_state_def)

theorem resolution_is_substitution_witness:
  "right (snd (resolve_references default_options
      (keyed_providers (\<lambda>k. Value k) (\<lambda>n. Value (''value of '' @ n))) two_same_refs (Addr 0))) =
   Some (OObject [(''a'', OStr ''value of x''), (''b'', OStr ''value of x''), (''c'', OStr '':p:k'')])"
proof -
  have "descends (\<lambda>a. if a = 0 then 1 else 0) two_same_refs"
    by (auto simp: descends_def entries_of_def two_same_refs_def)
  from resolution_is_substitution[OF this] show ?thesis
    by (simp only:) code_simp
qed

definition colliding_refs :: heap where
  "colliding_refs a =
     (if a = 0 then Array [Addr 1, Addr 2]
      else if a = 1 then Object [(''kind'', Str ''vault''), (''path'', Str ''a:b''), (''key'', Str ''c'')]
      else Object [(''kind'', Str ''vault''), (''path'', Str ''a''), (''key'', Str ''b:c'')])"

definition key_provider :: providers where
  "key_provider = \<lparr>pv_secret = Some (\<lambda>before r. Value (sr_key r)), pv_variable = None\<rparr>"

text \<open>
  Colliding keys.  The cache key of a secret joins mount, path and key with colons without
  escaping them, so with memoisation a reference can be given the value of a different secret: here
  the secret \<^verbatim>\<open>b:c\<close> under path \<^verbatim>\<open>a\<close> is given the value of the secret \<^verbatim>\<open>c\<close> under path \<^verbatim>\<open>a:b\<close>.
\<close>

theorem colliding_cache_keys:
  "right (snd (resolve_references default_options key_provider colliding_refs (Addr 0))) =
     Some (OArray [OStr ''c'', OStr ''c''])
   \<and> right (snd (resolve_references (default_options\<lparr>ro_memoize := False\<rparr>) key_provider colliding_refs (Addr 0))) =
     Some (OArray [OStr ''c'', OStr ''b:c''])"
  by code_simp

end
