(* ===== verification/Llm_Loop.thy ===== *)
theory Llm_Loop
  imports Prelude
begin

text \<open>
  The loop that drives a conversation, \<^verbatim>\<open>packages/llm/src/loop.ts\<close>, \<^verbatim>\<open>reducer.ts\<close>,
  \<^verbatim>\<open>router.ts\<close>: reducers by identifier, each with an optional router that picks the next one.

  A reducer and a router work on a state and the world outside it, and may throw.  The loop need not
  end, so it runs on fuel, one unit for each reducer; \<^const>\<open>None\<close> is a loop that is still running.
\<close>

record ('s, 'w, 'e) reducer =
  rd_invoke :: "'s \<Rightarrow> 'w \<Rightarrow> 'w \<times> ('e + 's)"
  rd_next :: "('s \<Rightarrow> 'w \<Rightarrow> 'w \<times> ('e + 's \<times> string option)) option"

definition reducer_next ::
  "('s \<Rightarrow> 'w \<Rightarrow> 'w \<times> ('e + 's \<times> string option)) \<Rightarrow> ('s, 'w, 'e) reducer \<Rightarrow> ('s, 'w, 'e) reducer" where
  "reducer_next router r = r\<lparr>rd_next := Some router\<rparr>"

datatype 'e loop_error = No_reducer string | No_next_reducer string | Thrown 'e

text \<open>One pass: the loop ends, or goes on with another reducer.\<close>

definition loop_pass ::
  "(string \<times> ('s, 'w, 'e) reducer) list \<Rightarrow> string \<Rightarrow> 's \<Rightarrow> 'w \<Rightarrow> ('w \<times> ('e loop_error + 's)) + (string \<times> 's \<times> 'w)" where
  "loop_pass reducers current st w =
     (if current = [] then Inl (w, Inr st)
      else
        (case map_of reducers current of
           None \<Rightarrow> Inl (w, Inl (No_reducer current))
         | Some r \<Rightarrow>
             (case rd_invoke r st w of
                (w1, Inl e) \<Rightarrow> Inl (w1, Inl (Thrown e))
              | (w1, Inr st1) \<Rightarrow>
                  (case rd_next r of
                     None \<Rightarrow> Inl (w1, Inr st1)
                   | Some route \<Rightarrow>
                       (case route st1 w1 of
                          (w2, Inl e) \<Rightarrow> Inl (w2, Inl (Thrown e))
                        | (w2, Inr (st2, next_id)) \<Rightarrow>
                            (case next_id of
                               None \<Rightarrow> Inl (w2, Inr st2)
                             | Some i \<Rightarrow>
                                 if i = [] then Inl (w2, Inr st2)
                                 else if map_of reducers i = None then Inl (w2, Inl (No_next_reducer i))
                                 else Inr (i, st2, w2)))))))"

fun loop_invoke ::
  "nat \<Rightarrow> (string \<times> ('s, 'w, 'e) reducer) list \<Rightarrow> string \<Rightarrow> 's \<Rightarrow> 'w \<Rightarrow> ('w \<times> ('e loop_error + 's)) option" where
  "loop_invoke 0 reducers current st w = None"
| "loop_invoke (Suc fuel) reducers current st w =
     (case loop_pass reducers current st w of
        Inl result \<Rightarrow> Some result
      | Inr (i, st', w') \<Rightarrow> loop_invoke fuel reducers i st' w')"

text \<open>A pass of a reducer with a router, split at its two steps.\<close>

lemma loop_pass_routed:
  assumes "map_of reducers i = Some r" and "i \<noteq> []" and "rd_next r = Some route"
    and "\<And>w1 e. rd_invoke r st w = (w1, Inl e) \<Longrightarrow> P (Inl (w1, Inl (Thrown e)))"
    and "\<And>w1 st1 w2 e. rd_invoke r st w = (w1, Inr st1) \<Longrightarrow> route st1 w1 = (w2, Inl e) \<Longrightarrow> P (Inl (w2, Inl (Thrown e)))"
    and "\<And>w1 st1 w2 st2. rd_invoke r st w = (w1, Inr st1) \<Longrightarrow> route st1 w1 = (w2, Inr (st2, None)) \<Longrightarrow> P (Inl (w2, Inr st2))"
    and "\<And>w1 st1 w2 st2 j. rd_invoke r st w = (w1, Inr st1) \<Longrightarrow> route st1 w1 = (w2, Inr (st2, Some j)) \<Longrightarrow>
      j \<noteq> [] \<and> map_of reducers j \<noteq> None \<and> P (Inr (j, st2, w2))"
  shows "P (loop_pass reducers i st w)"
proof -
  obtain w1 r1 where one: "rd_invoke r st w = (w1, r1)" by fastforce
  show ?thesis
  proof (cases r1)
    case (Inl e)
    then show ?thesis using assms(1-4) one by (simp add: loop_pass_def)
  next
    case (Inr st1)
    obtain w2 r2 where two: "route st1 w1 = (w2, r2)" by fastforce
    show ?thesis
    proof (cases r2)
      case (Inl e)
      then show ?thesis using assms(1-3,5) one two \<open>r1 = Inr st1\<close> by (simp add: loop_pass_def)
    next
      case (Inr q)
      obtain st2 n where q: "q = (st2, n)" by (cases q)
      show ?thesis
        using assms(1-3) assms(6,7)[of w1 st1 w2 st2] one two \<open>r1 = Inr st1\<close> Inr q
        by (cases n) (auto simp: loop_pass_def)
    qed
  qed
qed

text \<open>More fuel does not change a result.\<close>

lemma loop_more_fuel:
  "loop_invoke fuel reducers i st w = Some r \<Longrightarrow> fuel \<le> fuel' \<Longrightarrow> loop_invoke fuel' reducers i st w = Some r"
proof (induction fuel arbitrary: i st w fuel')
  case (Suc fuel)
  then obtain f where f: "fuel' = Suc f" "fuel \<le> f" by (cases fuel') auto
  show ?case
    using Suc.prems(1) Suc.IH f by (cases "loop_pass reducers i st w") auto
qed simp

section \<open>The contract of a set of reducers\<close>

text \<open>
  \<open>inv i st w\<close> holds whenever reducer \<open>i\<close> is about to run, \<open>post\<close> when the loop returns: each step
  (the reducer and its router) has to carry one to the next.
\<close>

locale loop_contract =
  fixes reducers :: "(string \<times> ('s, 'w, 'e) reducer) list"
    and inv :: "string \<Rightarrow> 's \<Rightarrow> 'w \<Rightarrow> bool"
    and post :: "'s \<Rightarrow> 'w \<Rightarrow> bool"
  assumes carries: "inv i st w \<Longrightarrow>
      (case loop_pass reducers i st w of
         Inl (w', Inl e) \<Rightarrow> (case e of Thrown e' \<Rightarrow> True | _ \<Rightarrow> False)
       | Inl (w', Inr st') \<Rightarrow> post st' w'
       | Inr (j, st', w') \<Rightarrow> inv j st' w')"
begin

lemma loop_result:
  "loop_invoke fuel reducers i st w = Some (w', r) \<Longrightarrow> inv i st w \<Longrightarrow>
     (case r of Inl e \<Rightarrow> (case e of Thrown e' \<Rightarrow> True | _ \<Rightarrow> False) | Inr st' \<Rightarrow> post st' w')"
proof (induction fuel arbitrary: i st w)
  case (Suc fuel)
  note c = carries[OF Suc.prems(2)]
  show ?case
  proof (cases "loop_pass reducers i st w")
    case (Inl result)
    then show ?thesis using Suc.prems(1) c by (auto split: sum.splits)
  next
    case (Inr p)
    then show ?thesis using Suc.prems(1) c Suc.IH by (cases p) auto
  qed
qed simp

end

text \<open>
  A loop ends within \<open>n\<close> passes when a measure of the world and the reducer about to run is at most
  \<open>n\<close> and every pass that goes on lowers it.
\<close>

locale loop_progress =
  fixes reducers :: "(string \<times> ('s, 'w, 'e) reducer) list"
    and inv :: "string \<Rightarrow> 's \<Rightarrow> 'w \<Rightarrow> bool"
    and remaining :: "string \<Rightarrow> 's \<Rightarrow> 'w \<Rightarrow> nat"
  assumes lowers: "inv i st w \<Longrightarrow> loop_pass reducers i st w = Inr (j, st', w') \<Longrightarrow>
      inv j st' w' \<and> remaining j st' w' < remaining i st w"
begin

lemma loop_ends: "inv i st w \<Longrightarrow> remaining i st w < fuel \<Longrightarrow> loop_invoke fuel reducers i st w \<noteq> None"
proof (induction fuel arbitrary: i st w)
  case (Suc fuel)
  show ?case
  proof (cases "loop_pass reducers i st w")
    case (Inr p)
    obtain j st' w' where p: "p = (j, st', w')" by (cases p)
    have "inv j st' w'" "remaining j st' w' < fuel"
      using lowers[OF Suc.prems(1) Inr[unfolded p]] Suc.prems(2) by auto
    then show ?thesis using Suc.IH Inr p by simp
  qed simp
qed simp

end

end
