(* ===== verification/Llm_Messages.thy ===== *)
theory Llm_Messages
  imports Json
begin

text \<open>
  The messages of a conversation, \<^verbatim>\<open>packages/llm/src/messages\<close>, each a class around the JSON value
  it was made from, and the check that rejects empty responses,
  \<^verbatim>\<open>packages/llm/src/validation/reasoningOnlyZeroUsage.ts\<close>.

  A getter that may throw returns an option, \<^const>\<open>None\<close> when it throws.  The contents of a message
  are an array, as their declared type says.
\<close>

section \<open>Message classes\<close>

record usage_snapshot =
  us_input_tokens :: int
  us_output_tokens :: int
  us_total_tokens :: int
  us_cached_tokens :: "int option"
  us_reasoning_tokens :: "int option"

datatype message =
    Human json
  | System json
  | Developer json
  | Ai json
  | Tool_call json
  | Tool_call_output json
  | Reasoning json
  | Response "json list" "usage_snapshot option"

definition text_part :: "string \<Rightarrow> json \<Rightarrow> string" where
  "text_part kind src =
     (case find (\<lambda>c. jget c ''type'' = Some (JStr kind)) (as_list (jget src ''content'')) of
        None \<Rightarrow> []
      | Some c \<Rightarrow> (case as_string (jget c ''text'') of None \<Rightarrow> [] | Some t \<Rightarrow> t))"

definition input_text :: "string \<Rightarrow> json" where
  "input_text t = JArr [JObj [(''type'', JStr ''input_text''), (''text'', JStr t)]]"

definition human_from_text :: "string \<Rightarrow> message" where
  "human_from_text t =
     Human (JObj [(''type'', JStr ''message''), (''role'', JStr ''user''), (''content'', input_text t)])"

definition system_from_text :: "string \<Rightarrow> message" where
  "system_from_text t = System (JObj [(''role'', JStr ''system''), (''content'', input_text t)])"

definition developer_from_text :: "string \<Rightarrow> message" where
  "developer_from_text t =
     Developer (JObj [(''type'', JStr ''message''), (''role'', JStr ''developer''), (''content'', input_text t)])"

text \<open>The identifier drawn by \<^verbatim>\<open>uuidv4()\<close> is an argument.\<close>

definition ai_source :: "string \<Rightarrow> string \<Rightarrow> json" where
  "ai_source uuid t =
     JObj [(''id'', JStr uuid), (''type'', JStr ''message''), (''role'', JStr ''assistant''),
       (''status'', JStr ''completed''),
       (''content'', JArr [JObj [(''type'', JStr ''output_text''), (''text'', JStr t), (''annotations'', JArr [])]])]"

definition ai_from_text :: "string \<Rightarrow> string \<Rightarrow> message" where
  "ai_from_text uuid t = Ai (ai_source uuid t)"

definition ai_text :: "json \<Rightarrow> string" where
  "ai_text src = text_part ''output_text'' src"

text \<open>A text that is not empty decides, a null decides for null, anything else is passed over.\<close>

definition stop_reason :: "json \<Rightarrow> string option" where
  "stop_reason src =
     (let snake = jget src ''stop_reason''; camel = jget src ''stopReason''; status = jget src ''status''
      in case snake of
           Some (JStr (c # cs)) \<Rightarrow> Some (c # cs)
         | Some JNull \<Rightarrow> None
         | _ \<Rightarrow>
             (case camel of
                Some (JStr (c # cs)) \<Rightarrow> Some (c # cs)
              | Some JNull \<Rightarrow> None
              | _ \<Rightarrow>
                  (case status of
                     Some (JStr s) \<Rightarrow> if s \<noteq> ''completed'' then Some s else None
                   | _ \<Rightarrow> None)))"

definition tool_call_message :: "json \<Rightarrow> message" where
  "tool_call_message src = Tool_call (jdelete ''status'' src)"

definition reasoning_message :: "json \<Rightarrow> message" where
  "reasoning_message src = Reasoning (jdelete ''status'' src)"

definition string_or_empty :: "json option \<Rightarrow> string" where
  "string_or_empty v = (case as_string v of None \<Rightarrow> [] | Some s \<Rightarrow> s)"

definition call_id :: "json \<Rightarrow> string" where
  "call_id src = string_or_empty (jget src ''call_id'')"

definition call_name :: "json \<Rightarrow> string" where
  "call_name src = string_or_empty (jget src ''name'')"

definition call_args :: "json \<Rightarrow> string" where
  "call_args src = string_or_empty (jget src ''arguments'')"

definition tool_output_from_response :: "string \<Rightarrow> json \<Rightarrow> message" where
  "tool_output_from_response cid r =
     Tool_call_output (JObj [(''type'', JStr ''function_call_output''), (''call_id'', JStr cid), (''output'', r)])"

text \<open>\<open>Message.fromPlain\<close>\<close>

definition from_plain :: "json \<Rightarrow> message option" where
  "from_plain obj =
     (if jget obj ''type'' = Some (JStr ''message'') \<and> jget obj ''role'' = Some (JStr ''user'') then Some (Human obj)
      else if jget obj ''type'' = Some (JStr ''message'') \<and> jget obj ''role'' = Some (JStr ''system'') then Some (System obj)
      else if jget obj ''type'' = Some (JStr ''message'') \<and> jget obj ''role'' = Some (JStr ''assistant'') then Some (Ai obj)
      else if jget obj ''type'' = Some (JStr ''function_call'') then Some (tool_call_message obj)
      else if jget obj ''type'' = Some (JStr ''function_call_output'') then Some (Tool_call_output obj)
      else if jget obj ''type'' = Some (JStr ''reasoning'') then Some (reasoning_message obj)
      else None)"

section \<open>Responses\<close>

definition normalize_usage :: "json option \<Rightarrow> usage_snapshot option" where
  "normalize_usage usage =
     (case usage of
        None \<Rightarrow> None
      | Some u \<Rightarrow>
          if \<not> is_object_like u then None
          else
            (case (as_int (jget u ''input_tokens''), as_int (jget u ''output_tokens''), as_int (jget u ''total_tokens'')) of
               (Some i, Some out, Some t) \<Rightarrow>
                 Some \<lparr>us_input_tokens = i, us_output_tokens = out, us_total_tokens = t,
                   us_cached_tokens =
                     (case jget u ''input_tokens_details'' of
                        None \<Rightarrow> None | Some d \<Rightarrow> as_int (jget d ''cached_tokens'')),
                   us_reasoning_tokens =
                     (case jget u ''output_tokens_details'' of
                        None \<Rightarrow> None | Some d \<Rightarrow> as_int (jget d ''reasoning_tokens''))\<rparr>
             | _ \<Rightarrow> None))"

definition response_message :: "json list \<Rightarrow> json option \<Rightarrow> message" where
  "response_message out usage = Response out (normalize_usage usage)"

definition response_from_text :: "string \<Rightarrow> string \<Rightarrow> message" where
  "response_from_text uuid t = response_message [ai_source uuid t] None"

text \<open>The \<open>output\<close> getter: every item is parsed, and only three kinds are allowed.\<close>

definition output_item :: "json \<Rightarrow> message option" where
  "output_item obj =
     (case from_plain obj of
        Some (Ai j) \<Rightarrow> Some (Ai j)
      | Some (Tool_call j) \<Rightarrow> Some (Tool_call j)
      | Some (Reasoning j) \<Rightarrow> Some (Reasoning j)
      | _ \<Rightarrow> None)"

definition response_output :: "json list \<Rightarrow> message list option" where
  "response_output out = those (map output_item out)"

definition response_text :: "json list \<Rightarrow> string option" where
  "response_text out =
     map_option (\<lambda>ms. case find (\<lambda>m. case m of Ai j \<Rightarrow> True | _ \<Rightarrow> False) ms of Some (Ai j) \<Rightarrow> ai_text j | _ \<Rightarrow> [])
       (response_output out)"

definition tool_calls_of :: "message list \<Rightarrow> json list" where
  "tool_calls_of ms = List.map_filter (\<lambda>m. case m of Tool_call j \<Rightarrow> Some j | _ \<Rightarrow> None) ms"

definition usage_json :: "usage_snapshot \<Rightarrow> json" where
  "usage_json u =
     JObj ([(''input_tokens'', JNum (us_input_tokens u)), (''output_tokens'', JNum (us_output_tokens u)),
        (''total_tokens'', JNum (us_total_tokens u))]
       @ (case us_cached_tokens u of None \<Rightarrow> []
          | Some c \<Rightarrow> [(''input_tokens_details'', JObj [(''cached_tokens'', JNum c)])])
       @ (case us_reasoning_tokens u of None \<Rightarrow> []
          | Some r \<Rightarrow> [(''output_tokens_details'', JObj [(''reasoning_tokens'', JNum r)])]))"

text \<open>\<open>toPlain\<close>\<close>

fun to_plain :: "message \<Rightarrow> json" where
  "to_plain (Human j) = j"
| "to_plain (System j) = j"
| "to_plain (Developer j) = j"
| "to_plain (Ai j) = j"
| "to_plain (Tool_call j) = j"
| "to_plain (Tool_call_output j) = j"
| "to_plain (Reasoning j) = j"
| "to_plain (Response out usage) =
     (case usage of
        None \<Rightarrow> JObj [(''output'', JArr out)]
      | Some u \<Rightarrow> JObj [(''output'', JArr out), (''usage'', usage_json u)])"

lemma normalize_usage_json [simp]: "normalize_usage (Some (usage_json u)) = Some u"
  by (cases u) (auto simp: normalize_usage_def usage_json_def as_int_def is_object_like_def split: option.splits)

section \<open>Empty responses\<close>

text \<open>A value that is a number, absent, or anything else.\<close>

datatype detail_validation = Detail_valid "int option" | Detail_invalid

definition read_detail :: "string \<Rightarrow> json option \<Rightarrow> detail_validation" where
  "read_detail key details =
     (case details of
        None \<Rightarrow> Detail_valid None
      | Some d \<Rightarrow>
          if \<not> is_object_like d then Detail_invalid
          else
            (case jget d key of
               None \<Rightarrow> Detail_valid None
             | Some (JNum n) \<Rightarrow> Detail_valid (Some n)
             | Some _ \<Rightarrow> Detail_invalid))"

definition read_cached_tokens :: "json option \<Rightarrow> detail_validation" where
  "read_cached_tokens details = read_detail ''cached_tokens'' details"

definition read_reasoning_tokens :: "json option \<Rightarrow> detail_validation" where
  "read_reasoning_tokens details = read_detail ''reasoning_tokens'' details"

definition has_zero_usage :: "json option \<Rightarrow> bool" where
  "has_zero_usage usage =
     (case usage of
        None \<Rightarrow> False
      | Some u \<Rightarrow>
          is_object_like u \<and>
          (case (as_int (jget u ''total_tokens''), as_int (jget u ''input_tokens''), as_int (jget u ''output_tokens'')) of
             (Some t, Some i, Some out) \<Rightarrow>
               (case read_cached_tokens (jget u ''input_tokens_details'') of
                  Detail_invalid \<Rightarrow> False
                | Detail_valid cached \<Rightarrow>
                    (case read_reasoning_tokens (jget u ''output_tokens_details'') of
                       Detail_invalid \<Rightarrow> False
                     | Detail_valid reasoning \<Rightarrow>
                         list_all (\<lambda>n. n = 0)
                           (List.map_filter id [Some t, Some i, Some out, cached, reasoning])))
           | _ \<Rightarrow> False))"

definition output_is_reasoning_only :: "json option \<Rightarrow> bool" where
  "output_is_reasoning_only out =
     (case out of
        Some (JArr items) \<Rightarrow>
          items \<noteq> [] \<and> list_all (\<lambda>item. jget item ''type'' = Some (JStr ''reasoning'')) items
      | _ \<Rightarrow> False)"

definition is_reasoning_only_zero_usage :: "json \<Rightarrow> bool" where
  "is_reasoning_only_zero_usage response \<longleftrightarrow>
     has_zero_usage (jget response ''usage'') \<and> output_is_reasoning_only (jget response ''output'')"

datatype llm_call_error = Reasoning_only_zero_usage json | Provider_error string | No_output

text \<open>
  \<open>LLM.call\<close>: flatten the input, ask the provider, reject an empty response.  Flattening fails where
  the \<open>output\<close> getter of a response does.
\<close>

definition flatten_input :: "message list \<Rightarrow> json list option" where
  "flatten_input ms =
     map_option concat
       (those (map (\<lambda>m. case m of
           Response out usage \<Rightarrow> map_option (map to_plain) (response_output out)
         | _ \<Rightarrow> Some [to_plain m]) ms))"

definition llm_call :: "(json list \<Rightarrow> string + json) \<Rightarrow> message list \<Rightarrow> llm_call_error + message" where
  "llm_call create ms =
     (case flatten_input ms of
        None \<Rightarrow> Inl No_output
      | Some flat \<Rightarrow>
          (case create flat of
             Inl e \<Rightarrow> Inl (Provider_error e)
           | Inr response \<Rightarrow>
               if is_reasoning_only_zero_usage response then Inl (Reasoning_only_zero_usage response)
               else Inr (response_message (as_list (jget response ''output'')) (jget response ''usage''))))"

section \<open>Properties\<close>

lemma those_map_member:
  "those (map f xs) = Some ys \<Longrightarrow> y \<in> set ys \<Longrightarrow> \<exists>x \<in> set xs. f x = Some y"
  by (induction xs arbitrary: ys) (auto split: option.splits)

lemma output_item_cases:
  "output_item obj = Some m \<Longrightarrow> \<exists>j. m = Ai j \<or> m = Tool_call j \<or> m = Reasoning j"
  by (auto simp: output_item_def split: option.splits message.splits)

lemma output_item_Ai: "output_item obj = Some (Ai j) \<Longrightarrow> jget obj ''type'' = Some (JStr ''message'')"
  by (auto simp: output_item_def from_plain_def tool_call_message_def reasoning_message_def
      split: option.splits message.splits if_splits)

lemma output_item_Tool_call: "output_item obj = Some (Tool_call j) \<Longrightarrow> jget obj ''type'' = Some (JStr ''function_call'')"
  by (auto simp: output_item_def from_plain_def tool_call_message_def reasoning_message_def
      split: option.splits message.splits if_splits)

text \<open>
  A response that says or does something is never rejected as empty: if the output of the
  response parses and holds a message or a tool call, the check for reasoning-only responses passes.
\<close>

theorem spoken_response_accepted:
  assumes "jget response ''output'' = Some (JArr items)"
    and "response_output items = Some ms"
    and "\<exists>m \<in> set ms. \<not> (case m of Reasoning j \<Rightarrow> True | _ \<Rightarrow> False)"
  shows "\<not> is_reasoning_only_zero_usage response"
proof
  assume "is_reasoning_only_zero_usage response"
  then have reasoning: "\<forall>item \<in> set items. jget item ''type'' = Some (JStr ''reasoning'')"
    using assms(1) by (simp add: is_reasoning_only_zero_usage_def output_is_reasoning_only_def list_all_iff)
  from assms(3) obtain m where m: "m \<in> set ms" "\<not> (case m of Reasoning j \<Rightarrow> True | _ \<Rightarrow> False)" by blast
  obtain item where item: "item \<in> set items" "output_item item = Some m"
    using those_map_member[OF assms(2)[unfolded response_output_def] m(1)] by blast
  from output_item_cases[OF item(2)] m(2) obtain j where "m = Ai j \<or> m = Tool_call j" by auto
  with item reasoning show False using output_item_Ai output_item_Tool_call by fastforce
qed

definition spoken_response :: json where
  "spoken_response = JObj [(''output'', JArr [ai_source ''id'' ''hi'']),
     (''usage'', JObj [(''input_tokens'', JNum 0), (''output_tokens'', JNum 0), (''total_tokens'', JNum 0)])]"

theorem spoken_response_accepted_witness: "\<not> is_reasoning_only_zero_usage spoken_response"
proof (rule spoken_response_accepted)
  show "jget spoken_response ''output'' = Some (JArr [ai_source ''id'' ''hi''])" by code_simp
  show "response_output [ai_source ''id'' ''hi''] = Some [Ai (ai_source ''id'' ''hi'')]" by code_simp
qed simp

end
