(* ===== verification/Llm_State.thy ===== *)
theory Llm_State
  imports Llm_Messages
begin

text \<open>
  The state an agent's loop works on (\<^verbatim>\<open>llm/types.ts\<close>), how it is stored between runs
  (\<^verbatim>\<open>llm/reducers/persistenceBase.llm.reducer.ts\<close>, \<^verbatim>\<open>load\<close>, \<^verbatim>\<open>save\<close>,
  \<^verbatim>\<open>llm/services/messages.serialization.ts\<close>) and the reducer that insists on tool calls
  (\<^verbatim>\<open>llm/reducers/enforceTools.llm.reducer.ts\<close>).

  The persisted column is a \<open>plain_state\<close>, or \<^const>\<open>None\<close> when it holds anything that
  \<open>isPlainLLMState\<close> rejects.
\<close>

section \<open>State\<close>

datatype placement = After_system | Last_message

type_synonym memory_entry = "string option \<times> placement"

record summary_state =
  sum_id :: "string option"
  sum_text :: "string option"

record context_state =
  cx_message_ids :: "string list"
  cx_memory :: "memory_entry list"
  cx_summary :: "summary_state option"
  cx_system :: "string option option"
  cx_pending :: "string list option"

record llm_meta =
  me_injection_count :: "int option"
  me_injected :: "bool option"
  me_last_event :: "string option"

record llm_state =
  st_messages :: "message list"
  st_summary :: "string option"
  st_context :: "context_state option"
  st_meta :: "llm_meta option"

definition empty_meta :: llm_meta where
  "empty_meta = \<lparr>me_injection_count = None, me_injected = None, me_last_event = None\<rparr>"

text \<open>\<open>{ ...state.meta, ... }\<close>\<close>

definition meta_or_empty :: "llm_state \<Rightarrow> llm_meta" where
  "meta_or_empty st = (case st_meta st of None \<Rightarrow> empty_meta | Some m \<Rightarrow> m)"

definition empty_context :: context_state where
  "empty_context =
     \<lparr>cx_message_ids = [], cx_memory = [], cx_summary = None, cx_system = None, cx_pending = Some []\<rparr>"

text \<open>\<open>cloneContext\<close> of the reducers and \<open>ensureContext\<close> of the load reducer.\<close>

definition clone_context :: "context_state option \<Rightarrow> context_state" where
  "clone_context c = (case c of None \<Rightarrow> empty_context | Some c \<Rightarrow> c)"

definition ensure_context :: "context_state option \<Rightarrow> context_state" where
  "ensure_context c = (case c of None \<Rightarrow> empty_context | Some c \<Rightarrow> c)"

definition append_pending_context_items :: "context_state \<Rightarrow> string list \<Rightarrow> context_state" where
  "append_pending_context_items c ids =
     (let existing = (case cx_pending c of None \<Rightarrow> [] | Some p \<Rightarrow> set_add_all p []);
          added = set_add_all (filter (\<lambda>i. i \<noteq> []) ids) existing
      in if added \<noteq> existing then c\<lparr>cx_pending := Some added\<rparr> else c)"

section \<open>Conversion to stored JSON\<close>

fun is_input_json_value :: "json \<Rightarrow> bool" where
  "is_input_json_value JNull = False"
| "is_input_json_value (JBool b) = True"
| "is_input_json_value (JNum n) = True"
| "is_input_json_value (JStr s) = True"
| "is_input_json_value (JArr xs) = list_all is_input_json_value xs"
| "is_input_json_value (JObj ps) = list_all (\<lambda>p. is_input_json_value (snd p)) ps"

text \<open>
  \<open>toPrismaJsonValue\<close> throws on a null, \<open>toPrismaJsonValueNullable\<close> lets it pass; JSON values hold
  nothing else that could not be stored.
\<close>

lemma json_in_array_smaller: "x \<in> set xs \<Longrightarrow> size (x :: json) \<le> size_list size xs"
  by (induction xs) auto

lemma json_in_object_smaller: "(k, v) \<in> set ps \<Longrightarrow> size (v :: json) \<le> size_list (size_prod (\<lambda>x. 0) size) ps"
  by (induction ps) auto

function to_prisma_json_value :: "json \<Rightarrow> json option"
and to_prisma_json_value_nullable :: "json \<Rightarrow> json option" where
  "to_prisma_json_value v =
     (if is_input_json_value v then Some v
      else
        (case v of
           JArr xs \<Rightarrow> map_option JArr (those (map to_prisma_json_value_nullable xs))
         | JObj ps \<Rightarrow>
             map_option JObj
               (those (map (\<lambda>p. map_option (Pair (fst p)) (to_prisma_json_value_nullable (snd p))) ps))
         | _ \<Rightarrow> None))"
| "to_prisma_json_value_nullable v =
     (if is_input_json_value v then Some v
      else if v = JNull then Some JNull
      else to_prisma_json_value v)"
  by pat_completeness auto
termination
  by (relation "measures [\<lambda>x. case x of Inl v \<Rightarrow> size v | Inr v \<Rightarrow> size v, \<lambda>x. case x of Inl _ \<Rightarrow> 0 | Inr _ \<Rightarrow> 1]")
    (auto simp: less_Suc_eq_le intro: json_in_array_smaller json_in_object_smaller le_SucI)

declare to_prisma_json_value.simps [simp del] to_prisma_json_value_nullable.simps [simp del]

text \<open>
  On JSON values the conversion changes nothing: it is the identity, and throws on null alone.
\<close>

lemma those_map_id: "(\<And>x. x \<in> set xs \<Longrightarrow> f x = Some x) \<Longrightarrow> those (map f xs) = Some xs"
  by (induction xs) auto

lemma to_prisma_identity:
  "to_prisma_json_value v = (if v = JNull then None else Some v)"
  "to_prisma_json_value_nullable v = Some v"
proof (induction v and v rule: to_prisma_json_value_to_prisma_json_value_nullable.induct)
  case (1 v)
  show ?case
  proof (cases v)
    case (JArr xs)
    have "those (map to_prisma_json_value_nullable xs) = Some xs"
      if "\<not> is_input_json_value v" using 1 that JArr by (auto intro: those_map_id)
    then show ?thesis using JArr by (simp add: to_prisma_json_value.simps)
  next
    case (JObj ps)
    have "those (map (\<lambda>p. map_option (Pair (fst p)) (to_prisma_json_value_nullable (snd p))) ps) = Some ps"
      if "\<not> is_input_json_value v" using 1 that JObj by (auto intro!: those_map_id)
    then show ?thesis using JObj by (simp add: to_prisma_json_value.simps)
  qed (simp_all add: to_prisma_json_value.simps)
next
  case (2 v)
  then show ?case by (auto simp: to_prisma_json_value_nullable.simps)
qed

section \<open>Storing a state\<close>

datatype message_kind = Kind_human | Kind_system | Kind_response | Kind_tool_call_output

type_synonym plain_message = "message_kind \<times> json"

record plain_state =
  pl_messages :: "plain_message list"
  pl_summary :: "string option"
  pl_context :: "context_state option"

datatype persist_error = Unsupported_message_type | Invalid_persisted_value | Not_convertible | Database_error

definition serialize_message :: "message \<Rightarrow> persist_error + plain_message" where
  "serialize_message m =
     (let plain = (\<lambda>k. case to_prisma_json_value (to_plain m) of None \<Rightarrow> Inl Not_convertible | Some v \<Rightarrow> Inr (k, v))
      in case m of
           Human _ \<Rightarrow> plain Kind_human
         | System _ \<Rightarrow> plain Kind_system
         | Response _ _ \<Rightarrow> plain Kind_response
         | Tool_call_output _ \<Rightarrow> plain Kind_tool_call_output
         | _ \<Rightarrow> Inl Unsupported_message_type)"

fun map_or_throw :: "('a \<Rightarrow> 'e + 'b) \<Rightarrow> 'a list \<Rightarrow> 'e + 'b list" where
  "map_or_throw f [] = Inr []"
| "map_or_throw f (x # xs) =
     (case f x of
        Inl e \<Rightarrow> Inl e
      | Inr y \<Rightarrow> (case map_or_throw f xs of Inl e \<Rightarrow> Inl e | Inr ys \<Rightarrow> Inr (y # ys)))"

definition serialize_state :: "llm_state \<Rightarrow> persist_error + plain_state" where
  "serialize_state st =
     (case map_or_throw serialize_message (st_messages st) of
        Inl e \<Rightarrow> Inl e
      | Inr ms \<Rightarrow>
          Inr \<lparr>pl_messages = ms, pl_summary = st_summary st,
            pl_context = Some
              (case st_context st of
                 None \<Rightarrow> empty_context\<lparr>cx_pending := None\<rparr>
               | Some c \<Rightarrow> c)\<rparr>)"

definition is_message_like :: "json \<Rightarrow> bool" where
  "is_message_like v \<longleftrightarrow> as_string (jget v ''role'') \<noteq> None \<and> jget v ''content'' \<noteq> None"

definition is_user_message :: "json \<Rightarrow> bool" where
  "is_user_message v \<longleftrightarrow> is_message_like v \<and> jget v ''role'' = Some (JStr ''user'')"

definition is_system_message :: "json \<Rightarrow> bool" where
  "is_system_message v \<longleftrightarrow> is_message_like v \<and> jget v ''role'' = Some (JStr ''system'')"

definition number_if_present :: "json \<Rightarrow> string \<Rightarrow> bool" where
  "number_if_present v k \<longleftrightarrow> jget v k = None \<or> as_int (jget v k) \<noteq> None"

definition details_ok :: "json option \<Rightarrow> string \<Rightarrow> bool" where
  "details_ok d k =
     (case d of
        None \<Rightarrow> True
      | Some JNull \<Rightarrow> True
      | Some v \<Rightarrow> is_object_like v \<and> number_if_present v k)"

definition is_usage_value :: "json \<Rightarrow> bool" where
  "is_usage_value v \<longleftrightarrow>
     as_int (jget v ''input_tokens'') \<noteq> None \<and> as_int (jget v ''output_tokens'') \<noteq> None
     \<and> as_int (jget v ''total_tokens'') \<noteq> None
     \<and> details_ok (jget v ''input_tokens_details'') ''cached_tokens''
     \<and> details_ok (jget v ''output_tokens_details'') ''reasoning_tokens''"

definition is_response_value :: "json \<Rightarrow> bool" where
  "is_response_value v \<longleftrightarrow>
     (case jget v ''output'' of Some (JArr _) \<Rightarrow> True | _ \<Rightarrow> False)
     \<and> (case jget v ''usage'' of None \<Rightarrow> True | Some JNull \<Rightarrow> True | Some u \<Rightarrow> is_usage_value u)"

definition is_function_call_output :: "json \<Rightarrow> bool" where
  "is_function_call_output v \<longleftrightarrow> jget v ''type'' \<noteq> None \<and> jget v ''output'' \<noteq> None"

definition deserialize_message :: "plain_message \<Rightarrow> persist_error + message" where
  "deserialize_message p =
     (case p of
        (Kind_human, v) \<Rightarrow> if is_user_message v then Inr (Human v) else Inl Invalid_persisted_value
      | (Kind_system, v) \<Rightarrow> if is_system_message v then Inr (System v) else Inl Invalid_persisted_value
      | (Kind_response, v) \<Rightarrow>
          if is_response_value v
          then Inr (response_message (as_list (jget v ''output'')) (jget v ''usage''))
          else Inl Invalid_persisted_value
      | (Kind_tool_call_output, v) \<Rightarrow>
          if is_function_call_output v then Inr (Tool_call_output v) else Inl Invalid_persisted_value)"

definition deserialize_context :: "context_state option \<Rightarrow> context_state" where
  "deserialize_context c =
     (case c of
        None \<Rightarrow> empty_context
      | Some c \<Rightarrow> c\<lparr>cx_pending := Some (case cx_pending c of None \<Rightarrow> [] | Some p \<Rightarrow> p)\<rparr>)"

definition empty_state :: llm_state where
  "empty_state = \<lparr>st_messages = [], st_summary = None, st_context = Some empty_context, st_meta = None\<rparr>"

definition deserialize_state :: "plain_state option \<Rightarrow> persist_error + llm_state" where
  "deserialize_state plain =
     (case plain of
        None \<Rightarrow> Inr empty_state
      | Some p \<Rightarrow>
          (case map_or_throw deserialize_message (pl_messages p) of
             Inl e \<Rightarrow> Inl e
           | Inr ms \<Rightarrow>
               Inr \<lparr>st_messages = ms, st_summary = pl_summary p,
                 st_context = Some (deserialize_context (pl_context p)), st_meta = None\<rparr>))"

section \<open>Loading and saving\<close>

text \<open>
  The table of conversation states, and whether the database answers at all.  \<open>agent_key\<close> is
  \<open>getAgentNodeId?.() || 'agent'\<close>.
\<close>

record conversation_db =
  cv_rows :: "((string \<times> string) \<times> plain_state option) list"
  cv_up :: bool

definition agent_key :: "string option \<Rightarrow> string" where
  "agent_key node = (case node of None \<Rightarrow> ''agent'' | Some n \<Rightarrow> if n = [] then ''agent'' else n)"

definition repo_get :: "conversation_db \<Rightarrow> string \<Rightarrow> string \<Rightarrow> persist_error + plain_state option option" where
  "repo_get db thread node =
     (if \<not> cv_up db then Inl Database_error else Inr (map_of (cv_rows db) (thread, node)))"

definition repo_upsert ::
  "conversation_db \<Rightarrow> string \<Rightarrow> string \<Rightarrow> plain_state \<Rightarrow> conversation_db \<times> (persist_error + unit)" where
  "repo_upsert db thread node plain =
     (if \<not> cv_up db then (db, Inl Database_error)
      else (db\<lparr>cv_rows := AList.update (thread, node) (Some plain) (cv_rows db)\<rparr>, Inr ()))"

definition merge_contexts :: "context_state \<Rightarrow> context_state \<Rightarrow> context_state" where
  "merge_contexts persisted incoming =
     \<lparr>cx_message_ids = cx_message_ids persisted @ cx_message_ids incoming,
      cx_memory = (if cx_memory incoming \<noteq> [] then cx_memory incoming else cx_memory persisted),
      cx_summary = (case cx_summary incoming of None \<Rightarrow> cx_summary persisted | Some s \<Rightarrow> Some s),
      cx_system = (case cx_system persisted of None \<Rightarrow> cx_system incoming | Some s \<Rightarrow> Some s),
      cx_pending = None\<rparr>"

definition load_invoke :: "conversation_db \<Rightarrow> string \<Rightarrow> string option \<Rightarrow> llm_state \<Rightarrow> llm_state" where
  "load_invoke db thread node st =
     (let incoming = ensure_context (st_context st);
          unchanged = st\<lparr>st_context := Some incoming\<rparr>
      in case repo_get db thread (agent_key node) of
           Inl e \<Rightarrow> unchanged
         | Inr None \<Rightarrow> unchanged
         | Inr (Some None) \<Rightarrow> unchanged
         | Inr (Some (Some plain)) \<Rightarrow>
             (case deserialize_state (Some plain) of
                Inl e \<Rightarrow> unchanged
              | Inr persisted \<Rightarrow>
                  \<lparr>st_messages = st_messages persisted @ st_messages st,
                   st_summary = (case st_summary persisted of None \<Rightarrow> st_summary st | Some s \<Rightarrow> Some s),
                   st_context = Some (merge_contexts (ensure_context (st_context persisted)) incoming),
                   st_meta = st_meta st\<rparr>))"

definition save_invoke ::
  "conversation_db \<Rightarrow> string \<Rightarrow> string option \<Rightarrow> llm_state \<Rightarrow> conversation_db \<times> (persist_error + llm_state)" where
  "save_invoke db thread node st =
     (case serialize_state st of
        Inl e \<Rightarrow> (db, Inl e)
      | Inr plain \<Rightarrow>
          (case repo_upsert db thread (agent_key node) plain of
             (db', Inl e) \<Rightarrow> (db', Inl e)
           | (db', Inr _) \<Rightarrow> (db', Inr st)))"

section \<open>Insisting on tools\<close>

record agent_restrictions =
  ar_restrict_output :: bool
  ar_max_injections :: int
  ar_message :: string

definition default_restriction :: string where
  "default_restriction = ''Please use a tool to proceed before responding.''"

text \<open>\<open>last.output.some(...)\<close>; \<^const>\<open>None\<close> when the getter throws.\<close>

definition has_tool_call :: "message option \<Rightarrow> bool option" where
  "has_tool_call m =
     (case m of
        Some (Response out usage) \<Rightarrow> map_option (\<lambda>ms. tool_calls_of ms \<noteq> []) (response_output out)
      | _ \<Rightarrow> Some False)"

definition last_message :: "message list \<Rightarrow> message option" where
  "last_message ms = (if ms = [] then None else Some (last ms))"

definition mark_not_injected :: "llm_state \<Rightarrow> llm_state" where
  "mark_not_injected st = st\<lparr>st_meta := Some ((meta_or_empty st)\<lparr>me_injected := Some False\<rparr>)\<rparr>"

definition enforce_invoke :: "agent_restrictions \<Rightarrow> llm_state \<Rightarrow> llm_state option" where
  "enforce_invoke cfg st =
     (case has_tool_call (last_message (st_messages st)) of
        None \<Rightarrow> None
      | Some has_call \<Rightarrow>
          Some
            (if \<not> ar_restrict_output cfg \<or> has_call then mark_not_injected st
             else
               (let prev = (case me_injection_count (meta_or_empty st) of None \<Rightarrow> 0 | Some n \<Rightarrow> n)
                in if ar_max_injections cfg > 0 \<and> prev \<ge> ar_max_injections cfg then mark_not_injected st
                   else
                     (let text = (if js_trim (ar_message cfg) = [] then default_restriction else ar_message cfg)
                      in st\<lparr>st_messages := st_messages st @ [system_from_text text],
                           st_meta := Some ((meta_or_empty st)\<lparr>me_injection_count := Some (prev + 1),
                             me_injected := Some True\<rparr>)\<rparr>))))"

section \<open>What is saved is loaded\<close>

text \<open>The messages that can be stored and read back: those with the shape their class stands for.\<close>

fun storable :: "message \<Rightarrow> bool" where
  "storable (Human j) = is_user_message j"
| "storable (System j) = is_system_message j"
| "storable (Response out usage) = True"
| "storable (Tool_call_output j) = is_function_call_output j"
| "storable _ = False"

fun has_stored_kind :: "message \<Rightarrow> bool" where
  "has_stored_kind (Human j) = (j \<noteq> JNull)"
| "has_stored_kind (System j) = (j \<noteq> JNull)"
| "has_stored_kind (Response out usage) = True"
| "has_stored_kind (Tool_call_output j) = (j \<noteq> JNull)"
| "has_stored_kind _ = False"

lemma is_usage_value_json: "is_usage_value (usage_json u)"
  by (cases u) (auto simp: is_usage_value_def usage_json_def as_int_def details_ok_def number_if_present_def
      is_object_like_def split: option.splits)

lemma response_plain:
  "is_response_value (to_plain (Response out usage))"
  "jget (to_plain (Response out usage)) ''output'' = Some (JArr out)"
  "normalize_usage (jget (to_plain (Response out usage)) ''usage'') = usage"
  "to_plain (Response out usage) \<noteq> JNull"
proof -
  have "case usage_json u of JNull \<Rightarrow> True | _ \<Rightarrow> is_usage_value (usage_json u)" for u
    using is_usage_value_json[of u] by (simp add: usage_json_def)
  then show "is_response_value (to_plain (Response out usage))"
    by (cases usage) (simp_all add: is_response_value_def is_usage_value_json usage_json_def split: option.split)
  show "jget (to_plain (Response out usage)) ''output'' = Some (JArr out)"
    and "normalize_usage (jget (to_plain (Response out usage)) ''usage'') = usage"
    and "to_plain (Response out usage) \<noteq> JNull"
    by (cases usage; simp; simp add: normalize_usage_def)+
qed

lemma storable_not_null: "storable m \<Longrightarrow> to_plain m \<noteq> JNull"
  using response_plain(4)
  by (cases m) (auto simp: is_user_message_def is_system_message_def is_message_like_def as_string_def
      is_function_call_output_def)

lemma message_round_trip:
  "storable m \<Longrightarrow> \<exists>p. serialize_message m = Inr p \<and> deserialize_message p = Inr m"
  using storable_not_null[of m] response_plain
  by (cases m)
    (simp_all add: serialize_message_def deserialize_message_def to_prisma_identity response_message_def as_list_def
      del: to_plain.simps(8))

lemma messages_round_trip:
  "list_all storable ms \<Longrightarrow>
     \<exists>ps. map_or_throw serialize_message ms = Inr ps \<and> map_or_throw deserialize_message ps = Inr ms"
proof (induction ms)
  case (Cons m ms)
  then obtain ps where "map_or_throw serialize_message ms = Inr ps" "map_or_throw deserialize_message ps = Inr ms"
    by auto
  with message_round_trip[of m] Cons.prems show ?case by auto
qed simp

lemma serialize_deserialize:
  assumes "list_all storable (st_messages st)" and "st_context st = Some c"
  shows "\<exists>plain. serialize_state st = Inr plain \<and> deserialize_state (Some plain) =
     Inr (st\<lparr>st_context := Some (c\<lparr>cx_pending := Some (case cx_pending c of None \<Rightarrow> [] | Some p \<Rightarrow> p)\<rparr>), st_meta := None\<rparr>)"
  using messages_round_trip[OF assms(1)] assms(2)
  by (auto simp: serialize_state_def deserialize_state_def deserialize_context_def)

text \<open>
  C23. What a run saves is what the next run of the same agent on the same thread loads: the saved
  messages and message ids stand before the new ones, in order; the summary and system item are the
  saved ones where there are any.
\<close>

theorem saved_conversation_is_loaded:
  assumes storable: "list_all storable (st_messages st)"
    and cx: "st_context st = Some c"
    and saved: "save_invoke db thread node st = (db', Inr st')"
    and incoming: "st_context new = Some nc"
  shows "load_invoke db' thread node new =
     \<lparr>st_messages = st_messages st @ st_messages new,
      st_summary = (case st_summary st of None \<Rightarrow> st_summary new | Some s \<Rightarrow> Some s),
      st_context = Some (merge_contexts c nc),
      st_meta = st_meta new\<rparr>"
  using serialize_deserialize[OF storable cx] saved incoming
  by (auto simp: save_invoke_def load_invoke_def repo_upsert_def repo_get_def ensure_context_def merge_contexts_def
      split: if_splits cong: option.case_cong)

definition sample_state :: llm_state where
  "sample_state =
     \<lparr>st_messages = [human_from_text ''hi'', response_from_text ''u'' ''hello''], st_summary = Some ''s'',
      st_context = Some (empty_context\<lparr>cx_message_ids := [''m1'', ''m2'']\<rparr>), st_meta = None\<rparr>"

definition sample_incoming :: llm_state where
  "sample_incoming =
     \<lparr>st_messages = [human_from_text ''again''], st_summary = None,
      st_context = Some (empty_context\<lparr>cx_pending := None\<rparr>), st_meta = None\<rparr>"

definition sample_conversations :: conversation_db where
  "sample_conversations = \<lparr>cv_rows = [], cv_up = True\<rparr>"

theorem saved_conversation_is_loaded_witness:
  "load_invoke (fst (save_invoke sample_conversations ''t'' None sample_state)) ''t'' None sample_incoming =
     \<lparr>st_messages = st_messages sample_state @ st_messages sample_incoming,
      st_summary = Some ''s'',
      st_context = Some (merge_contexts (empty_context\<lparr>cx_message_ids := [''m1'', ''m2'']\<rparr>)
        (empty_context\<lparr>cx_pending := None\<rparr>)),
      st_meta = None\<rparr>"
proof -
  let ?r = "save_invoke sample_conversations ''t'' None sample_state"
  have "\<not> isl (snd ?r)" by code_simp
  then obtain st' where r: "?r = (fst ?r, Inr st')" by (cases ?r; cases "snd ?r") auto
  have "list_all storable (st_messages sample_state)" by code_simp
  from saved_conversation_is_loaded[OF this _ r, of "empty_context\<lparr>cx_message_ids := [''m1'', ''m2'']\<rparr>"
      sample_incoming "empty_context\<lparr>cx_pending := None\<rparr>"]
  show ?thesis by (simp add: sample_state_def sample_incoming_def)
qed

lemma serialize_message_fails:
  "(\<exists>e. serialize_message m = Inl e) \<longleftrightarrow> \<not> has_stored_kind m"
  by (cases m) (auto simp: serialize_message_def to_prisma_identity split: option.splits)

lemma map_or_throw_fails: "(\<exists>e. map_or_throw f xs = Inl e) \<longleftrightarrow> (\<exists>x \<in> set xs. \<exists>e. f x = Inl e)"
  by (induction xs) (auto split: sum.splits)

text \<open>
  Saving fails, and the conversation stored before stays as it was, exactly when the database
  does not answer or the state holds a message of a class that cannot be stored, such as an
  \<^verbatim>\<open>AIMessage\<close>, which an agent accepts in its buffer.
\<close>

theorem save_fails_exactly:
  "case save_invoke db thread node st of
     (db', Inl e) \<Rightarrow> \<not> (cv_up db \<and> list_all has_stored_kind (st_messages st)) \<and> db' = db
   | (db', Inr st') \<Rightarrow> cv_up db \<and> list_all has_stored_kind (st_messages st) \<and> st' = st"
proof (cases "map_or_throw serialize_message (st_messages st)")
  case (Inl e)
  then have "\<not> list_all has_stored_kind (st_messages st)"
    using map_or_throw_fails[of serialize_message "st_messages st"] serialize_message_fails by (auto simp: list_all_iff)
  with Inl show ?thesis by (simp add: save_invoke_def serialize_state_def)
next
  case (Inr ms)
  then have "list_all has_stored_kind (st_messages st)"
    using map_or_throw_fails[of serialize_message "st_messages st"] serialize_message_fails by (auto simp: list_all_iff)
  with Inr show ?thesis by (simp add: save_invoke_def serialize_state_def repo_upsert_def)
qed

section \<open>The cap on injected restrictions\<close>

definition injection_count :: "llm_state \<Rightarrow> int" where
  "injection_count st = (case me_injection_count (meta_or_empty st) of None \<Rightarrow> 0 | Some n \<Rightarrow> n)"


definition capped :: agent_restrictions where
  "capped = \<lparr>ar_restrict_output = True, ar_max_injections = 1, ar_message = ''use a tool''\<rparr>"


end
