(* ===== verification/Context_Items.thy ===== *)
theory Context_Items
  imports Llm_State
begin

text \<open>
  Context items: what of a conversation is stored for inspection,
  \<^verbatim>\<open>llm/services/context-items.utils.ts\<close>, \<^verbatim>\<open>context-items.repository.ts\<close>,
  \<^verbatim>\<open>context-items.append.ts\<close> and \<^verbatim>\<open>createContextItems\<close> of \<^verbatim>\<open>events/run-events.service.ts\<close>.

  The guard is the environment variable that turns NUL characters into errors; \<open>le\<close> is the order of
  \<open>localeCompare\<close>.
\<close>

section \<open>Roles\<close>

datatype context_role = Role_system | Role_user | Role_assistant | Role_tool | Role_memory | Role_summary | Role_other

definition all_roles :: "context_role list" where
  "all_roles = [Role_system, Role_user, Role_assistant, Role_tool, Role_memory, Role_summary, Role_other]"

definition role_aliases :: "(string \<times> context_role) list" where
  "role_aliases =
     [(''system'', Role_system), (''user'', Role_user), (''human'', Role_user), (''assistant'', Role_assistant),
      (''ai'', Role_assistant), (''tool'', Role_tool), (''function'', Role_tool), (''memory'', Role_memory),
      (''summary'', Role_summary), (''other'', Role_other)]"

definition lower_char :: "char \<Rightarrow> char" where
  "lower_char c =
     (let n = of_char c :: nat
      in if (65 \<le> n \<and> n \<le> 90) \<or> (192 \<le> n \<and> n \<le> 222 \<and> n \<noteq> 215) then char_of (n + 32) else c)"

definition js_lower :: "string \<Rightarrow> string" where
  "js_lower s = map lower_char s"

text \<open>A number is a position in the list of roles, from the end when negative.\<close>

definition coerce_role :: "json option \<Rightarrow> context_role" where
  "coerce_role v =
     (case v of
        Some (JStr s) \<Rightarrow>
          (if js_trim s \<noteq> []
           then (case map_of role_aliases (js_lower (js_trim s)) of None \<Rightarrow> Role_other | Some r \<Rightarrow> r)
           else Role_other)
      | Some (JNum n) \<Rightarrow>
          (let i = (if n < 0 then n + int (length all_roles) else n)
           in if 0 \<le> i \<and> i < int (length all_roles) then all_roles ! nat i else Role_other)
      | _ \<Rightarrow> Role_other)"

section \<open>NUL characters\<close>

abbreviation nul :: char where
  "nul \<equiv> CHR 0x00"

datatype sanitize_field = In_content_text | In_content_json | In_metadata | In_payload

text \<open>\<open>ContextItemNullByteGuardError\<close>: the field and the path of the text.\<close>

type_synonym guard_error = "sanitize_field \<times> string list"

definition sanitize_string :: "bool \<Rightarrow> sanitize_field \<Rightarrow> string list \<Rightarrow> string \<Rightarrow> guard_error + string" where
  "sanitize_string guard field path s =
     (if nul \<notin> set s then Inr s
      else if guard then Inl (field, path)
      else Inr (filter (\<lambda>c. c \<noteq> nul) s))"

fun sanitize_json :: "bool \<Rightarrow> sanitize_field \<Rightarrow> string list \<Rightarrow> json \<Rightarrow> guard_error + json"
and sanitize_array :: "bool \<Rightarrow> sanitize_field \<Rightarrow> string list \<Rightarrow> nat \<Rightarrow> json list \<Rightarrow> guard_error + json list"
and sanitize_object ::
  "bool \<Rightarrow> sanitize_field \<Rightarrow> string list \<Rightarrow> (string \<times> json) list \<Rightarrow> guard_error + (string \<times> json) list" where
  "sanitize_json guard f path (JStr s) = map_sum id JStr (sanitize_string guard f path s)"
| "sanitize_json guard f path (JArr xs) = map_sum id JArr (sanitize_array guard f path 0 xs)"
| "sanitize_json guard f path (JObj ps) = map_sum id JObj (sanitize_object guard f path ps)"
| "sanitize_json guard f path v = Inr v"
| "sanitize_array guard f path i [] = Inr []"
| "sanitize_array guard f path i (x # xs) =
     (case sanitize_json guard f (path @ [digits i]) x of
        Inl e \<Rightarrow> Inl e
      | Inr y \<Rightarrow> map_sum id ((#) y) (sanitize_array guard f path (Suc i) xs))"
| "sanitize_object guard f path [] = Inr []"
| "sanitize_object guard f path ((k, v) # ps) =
     (case sanitize_json guard f (path @ [k]) v of
        Inl e \<Rightarrow> Inl e
      | Inr w \<Rightarrow> map_sum id ((#) (k, w)) (sanitize_object guard f path ps))"

section \<open>Canonical JSON and its size\<close>

fun to_canonical_json :: "(string \<Rightarrow> string \<Rightarrow> bool) \<Rightarrow> json \<Rightarrow> json" where
  "to_canonical_json le (JArr xs) = JArr (map (to_canonical_json le) xs)"
| "to_canonical_json le (JObj ps) =
     JObj (sort_by (\<lambda>p q. le (fst p) (fst q)) (map (\<lambda>p. (fst p, to_canonical_json le (snd p))) ps))"
| "to_canonical_json le v = v"

definition hex_digit :: "nat \<Rightarrow> char" where
  "hex_digit n = (if n < 10 then char_of (48 + n) else char_of (87 + n))"

definition json_escape :: "char \<Rightarrow> string" where
  "json_escape c =
     (let n = of_char c :: nat
      in if n = 34 then [CHR 0x5C, CHR 0x22]
         else if n = 92 then [CHR 0x5C, CHR 0x5C]
         else if n = 8 then CHR 0x5C # ''b''
         else if n = 9 then CHR 0x5C # ''t''
         else if n = 10 then CHR 0x5C # ''n''
         else if n = 12 then CHR 0x5C # ''f''
         else if n = 13 then CHR 0x5C # ''r''
         else if n < 32 then CHR 0x5C # ''u00'' @ [hex_digit (n div 16), hex_digit (n mod 16)]
         else [c])"

definition json_quote :: "string \<Rightarrow> string" where
  "json_quote s = [CHR 0x22] @ concat (map json_escape s) @ [CHR 0x22]"

text \<open>\<open>JSON.stringify\<close>\<close>

fun json_stringify :: "json \<Rightarrow> string" where
  "json_stringify JNull = ''null''"
| "json_stringify (JBool b) = (if b then ''true'' else ''false'')"
| "json_stringify (JNum n) = int_digits n"
| "json_stringify (JStr s) = json_quote s"
| "json_stringify (JArr xs) = ''['' @ js_join '','' (map json_stringify xs) @ '']''"
| "json_stringify (JObj ps) =
     ''{'' @ js_join '','' (map (\<lambda>p. json_quote (fst p) @ '':'' @ json_stringify (snd p)) ps) @ ''}''"

section \<open>Normalising an item\<close>

text \<open>Absent values are \<^const>\<open>None\<close>; the text may also be null, which the code treats alike.\<close>

record context_item_input =
  ci_role :: "json option"
  ci_text :: "string option"
  ci_json :: "json option"
  ci_metadata :: "json option"

text \<open>\<^const>\<open>JNull\<close> stands for \<open>Prisma.JsonNull\<close>.\<close>

record context_item =
  it_role :: context_role
  it_text :: "string option"
  it_json :: json
  it_metadata :: json
  it_size :: nat

definition normalize_json_value ::
  "bool \<Rightarrow> (string \<Rightarrow> string \<Rightarrow> bool) \<Rightarrow> json option \<Rightarrow> guard_error + json \<times> json option" where
  "normalize_json_value guard le v =
     (case v of
        None \<Rightarrow> Inr (JNull, None)
      | Some JNull \<Rightarrow> Inr (JNull, None)
      | Some w \<Rightarrow>
          (case sanitize_json guard In_content_json [''contentJson''] w of
             Inl e \<Rightarrow> Inl e
           | Inr sanitized \<Rightarrow>
               (case to_prisma_json_value sanitized of
                  None \<Rightarrow> Inr (JNull, None)
                | Some j \<Rightarrow> Inr (j, Some (to_canonical_json le j)))))"

definition normalize_metadata :: "bool \<Rightarrow> json option \<Rightarrow> guard_error + json" where
  "normalize_metadata guard v =
     (case v of
        None \<Rightarrow> Inr JNull
      | Some JNull \<Rightarrow> Inr JNull
      | Some w \<Rightarrow>
          (case sanitize_json guard In_metadata [''metadata''] w of
             Inl e \<Rightarrow> Inl e
           | Inr sanitized \<Rightarrow>
               Inr (case to_prisma_json_value sanitized of None \<Rightarrow> JNull | Some j \<Rightarrow> j)))"

definition normalize_text :: "bool \<Rightarrow> string option \<Rightarrow> guard_error + string option" where
  "normalize_text guard t =
     (case t of None \<Rightarrow> Inr None | Some s \<Rightarrow> map_sum id Some (sanitize_string guard In_content_text [] s))"

definition normalize_context_item ::
  "bool \<Rightarrow> (string \<Rightarrow> string \<Rightarrow> bool) \<Rightarrow> context_item_input \<Rightarrow> guard_error + context_item option" where
  "normalize_context_item guard le inp =
     (case normalize_text guard (ci_text inp) of
        Inl e \<Rightarrow> Inl e
      | Inr text \<Rightarrow>
          (case normalize_json_value guard le (ci_json inp) of
             Inl e \<Rightarrow> Inl e
           | Inr (json_value, canonical) \<Rightarrow>
               (case normalize_metadata guard (ci_metadata inp) of
                  Inl e \<Rightarrow> Inl e
                | Inr metadata \<Rightarrow>
                    if text = None \<and> canonical = None then Inr None
                    else
                      Inr (Some \<lparr>it_role = coerce_role (ci_role inp), it_text = text, it_json = json_value,
                        it_metadata = metadata,
                        it_size =
                          (case text of None \<Rightarrow> 0 | Some t \<Rightarrow> utf8_length t)
                          + (case canonical of None \<Rightarrow> 0 | Some c \<Rightarrow> utf8_length (json_stringify c))\<rparr>))))"

definition normalize_context_items ::
  "bool \<Rightarrow> (string \<Rightarrow> string \<Rightarrow> bool) \<Rightarrow> context_item_input list \<Rightarrow> guard_error + context_item list" where
  "normalize_context_items guard le inputs =
     map_sum id (List.map_filter id) (map_or_throw (normalize_context_item guard le) inputs)"

section \<open>Items from messages\<close>

definition utf8_bytes :: "string \<Rightarrow> nat list" where
  "utf8_bytes s =
     concat (map (\<lambda>c. let n = of_char c :: nat in if n < 128 then [n] else [192 + n div 64, 128 + n mod 64]) s)"

definition base64_digit :: "nat \<Rightarrow> char" where
  "base64_digit n =
     (if n < 26 then char_of (65 + n) else if n < 52 then char_of (71 + n)
      else if n < 62 then char_of (n - 4) else if n = 62 then CHR ''+'' else CHR ''/'')"

text \<open>\<open>Buffer.from(s).toString('base64')\<close>: three bytes make four digits, padded at the end.\<close>

fun base64 :: "nat list \<Rightarrow> string" where
  "base64 [] = []"
| "base64 [a] = [base64_digit (a div 4), base64_digit (a mod 4 * 16), CHR ''='', CHR ''='']"
| "base64 [a, b] =
     [base64_digit (a div 4), base64_digit (a mod 4 * 16 + b div 16), base64_digit (b mod 16 * 4), CHR ''='']"
| "base64 (a # b # c # bs) =
     [base64_digit (a div 4), base64_digit (a mod 4 * 16 + b div 16),
      base64_digit (b mod 16 * 4 + c div 64), base64_digit (c mod 64)] @ base64 bs"

definition source_type :: "json \<Rightarrow> json" where
  "source_type j = (case jget j ''type'' of None \<Rightarrow> JStr ''message'' | Some JNull \<Rightarrow> JStr ''message'' | Some t \<Rightarrow> t)"

definition role_json :: "string \<Rightarrow> json option" where
  "role_json r = Some (JStr r)"

definition input_from_system :: "json \<Rightarrow> context_item_input" where
  "input_from_system j =
     \<lparr>ci_role = role_json ''system'', ci_text = Some (text_part ''input_text'' j), ci_json = None,
      ci_metadata = Some (JObj [(''type'', source_type j)])\<rparr>"

definition input_from_summary :: "string \<Rightarrow> context_item_input" where
  "input_from_summary t =
     \<lparr>ci_role = role_json ''summary'', ci_text = Some t, ci_json = None,
      ci_metadata = Some (JObj [(''kind'', JStr ''summary'')])\<rparr>"

fun placement_name :: "placement \<Rightarrow> string" where
  "placement_name After_system = ''after_system''"
| "placement_name Last_message = ''last_message''"

definition input_from_memory :: "json \<Rightarrow> placement \<Rightarrow> context_item_input" where
  "input_from_memory j place =
     \<lparr>ci_role = role_json ''memory'', ci_text = Some (text_part ''input_text'' j), ci_json = None,
      ci_metadata = Some (JObj [(''type'', source_type j), (''place'', JStr (placement_name place))])\<rparr>"

definition tool_output_text :: "json \<Rightarrow> string" where
  "tool_output_text j =
     (case jget j ''output'' of Some (JStr s) \<Rightarrow> s | Some v \<Rightarrow> json_stringify v | None \<Rightarrow> ''undefined'')"

definition input_from_tool_output :: "json \<Rightarrow> context_item_input" where
  "input_from_tool_output j =
     (let ty = (case jget j ''type'' of None \<Rightarrow> JNull | Some t \<Rightarrow> t); cid = JStr (call_id j)
      in case jget j ''output'' of
           Some (JStr raw) \<Rightarrow>
             if nul \<in> set raw
             then
               \<lparr>ci_role = role_json ''tool'', ci_text = None,
                ci_json = Some (jset ''output''
                  (JObj [(''encoding'', JStr ''base64''), (''data'', JStr (base64 (utf8_bytes raw))),
                     (''bytes'', JNum (int (utf8_length raw)))]) j),
                ci_metadata = Some (JObj [(''type'', ty), (''callId'', cid), (''outputEncoding'', JStr ''base64''),
                  (''outputBytes'', JNum (int (utf8_length raw)))])\<rparr>
             else
               \<lparr>ci_role = role_json ''tool'', ci_text = Some raw, ci_json = Some j,
                ci_metadata = Some (JObj [(''type'', ty), (''callId'', cid)])\<rparr>
         | _ \<Rightarrow>
             \<lparr>ci_role = role_json ''tool'', ci_text = Some (tool_output_text j), ci_json = Some j,
              ci_metadata = Some (JObj [(''type'', ty), (''callId'', cid)])\<rparr>)"

text \<open>\<^const>\<open>None\<close> when the text of a response throws.\<close>

definition input_from_message :: "message \<Rightarrow> context_item_input option" where
  "input_from_message m =
     (case m of
        System j \<Rightarrow> Some (input_from_system j)
      | Human j \<Rightarrow>
          Some \<lparr>ci_role = role_json ''user'', ci_text = Some (text_part ''input_text'' j), ci_json = None,
            ci_metadata = Some (JObj [(''type'', source_type j)])\<rparr>
      | Ai j \<Rightarrow>
          Some \<lparr>ci_role = role_json ''assistant'', ci_text = Some (ai_text j), ci_json = None,
            ci_metadata = Some (JObj [(''type'', JStr ''message'')])\<rparr>
      | Tool_call j \<Rightarrow>
          Some \<lparr>ci_role = role_json ''tool'', ci_text = None, ci_json = None,
            ci_metadata = Some (JObj [(''type'', JStr ''function_call''), (''callId'', JStr (call_id j)),
              (''name'', JStr (call_name j)), (''phase'', JStr ''request'')])\<rparr>
      | Tool_call_output j \<Rightarrow> Some (input_from_tool_output j)
      | Response out usage \<Rightarrow>
          map_option (\<lambda>text.
            \<lparr>ci_role = role_json ''assistant'', ci_text = (if js_trim text \<noteq> [] then Some text else None),
             ci_json = Some (to_plain m), ci_metadata = Some (JObj [(''type'', JStr ''output'')])\<rparr>)
            (response_text out)
      | _ \<Rightarrow>
          Some \<lparr>ci_role = role_json ''other'', ci_text = None, ci_json = Some (to_plain m), ci_metadata = None\<rparr>)"

section \<open>Storing items\<close>

text \<open>The table of context items; the database draws the identifiers.\<close>

record context_store =
  cs_items :: "(string \<times> context_item) list"
  cs_next :: nat
  cs_up :: bool

datatype context_error = Guarded guard_error | Store_failed | No_text

definition context_id :: "nat \<Rightarrow> string" where
  "context_id n = ''ctx-'' @ digits n"

definition sanitize_payload :: "bool \<Rightarrow> context_item \<Rightarrow> guard_error + context_item" where
  "sanitize_payload guard it =
     (case (case it_text it of None \<Rightarrow> Inr None
            | Some t \<Rightarrow> map_sum id Some (sanitize_string guard In_content_text [''contentText''] t)) of
        Inl e \<Rightarrow> Inl e
      | Inr t \<Rightarrow>
          (case sanitize_json guard In_content_json [''contentJson''] (it_json it) of
             Inl e \<Rightarrow> Inl e
           | Inr j \<Rightarrow>
               map_sum id (\<lambda>m. it\<lparr>it_text := t, it_json := j, it_metadata := m\<rparr>)
                 (sanitize_json guard In_metadata [''metadata''] (it_metadata it))))"

definition create_normalized ::
  "bool \<Rightarrow> context_store \<Rightarrow> context_item \<Rightarrow> context_store \<times> (context_error + string)" where
  "create_normalized guard store it =
     (case sanitize_payload guard it of
        Inl e \<Rightarrow> (store, Inl (Guarded e))
      | Inr clean \<Rightarrow>
          if \<not> cs_up store then (store, Inl Store_failed)
          else
            (store\<lparr>cs_items := cs_items store @ [(context_id (cs_next store), clean)], cs_next := Suc (cs_next store)\<rparr>,
             Inr (context_id (cs_next store))))"

fun upsert_normalized ::
  "bool \<Rightarrow> context_store \<Rightarrow> context_item list \<Rightarrow> context_store \<times> (context_error + string list)" where
  "upsert_normalized guard store [] = (store, Inr [])"
| "upsert_normalized guard store (it # items) =
     (case create_normalized guard store it of
        (store1, Inl e) \<Rightarrow> (store1, Inl e)
      | (store1, Inr i) \<Rightarrow>
          (case upsert_normalized guard store1 items of
             (store2, Inl e) \<Rightarrow> (store2, Inl e)
           | (store2, Inr ids) \<Rightarrow> (store2, Inr (i # ids))))"

definition create_context_items ::
  "bool \<Rightarrow> (string \<Rightarrow> string \<Rightarrow> bool) \<Rightarrow> context_store \<Rightarrow> context_item_input list \<Rightarrow>
   context_store \<times> (context_error + string list)" where
  "create_context_items guard le store inputs =
     (if inputs = [] then (store, Inr [])
      else
        (case normalize_context_items guard le inputs of
           Inl e \<Rightarrow> (store, Inl (Guarded e))
         | Inr normalized \<Rightarrow>
             if normalized = [] then (store, Inr []) else upsert_normalized guard store normalized))"

text \<open>
  \<open>persistContextItems\<close>: the i-th identifier goes to the i-th entry; an entry without one is not
  assigned.  The assignments are returned as pairs.
\<close>

definition persist_context_items ::
  "bool \<Rightarrow> (string \<Rightarrow> string \<Rightarrow> bool) \<Rightarrow> context_store \<Rightarrow> ('a \<times> context_item_input) list \<Rightarrow>
   context_store \<times> (context_error + ('a \<times> string) list)" where
  "persist_context_items guard le store entries =
     (if entries = [] then (store, Inr [])
      else
        (case create_context_items guard le store (map snd entries) of
           (store', Inl e) \<Rightarrow> (store', Inl e)
         | (store', Inr ids) \<Rightarrow> (store', Inr (filter (\<lambda>p. snd p \<noteq> []) (zip (map fst entries) ids)))))"

section \<open>What is stored has no NUL\<close>

fun nul_free :: "json \<Rightarrow> bool" where
  "nul_free (JStr s) = (nul \<notin> set s)"
| "nul_free (JArr xs) = list_all nul_free xs"
| "nul_free (JObj ps) = list_all (\<lambda>p. nul_free (snd p)) ps"
| "nul_free v = True"

lemma sanitize_string_nul_free: "sanitize_string guard f path s = Inr t \<Longrightarrow> nul \<notin> set t"
  by (auto simp: sanitize_string_def split: if_splits)

lemma sanitize_nul_free:
  "sanitize_json guard f path v = Inr w \<Longrightarrow> nul_free w"
  "sanitize_array guard f path i xs = Inr ys \<Longrightarrow> list_all nul_free ys"
  "sanitize_object guard f path ps = Inr qs \<Longrightarrow> list_all (\<lambda>p. nul_free (snd p)) qs"
proof (induction guard f path v and guard f path i xs and guard f path ps arbitrary: w and ys and qs
    rule: sanitize_json_sanitize_array_sanitize_object.induct)
  case (1 guard f path s)
  then show ?case by (cases "sanitize_string guard f path s") (auto dest: sanitize_string_nul_free)
next
  case (2 guard f path xs)
  then show ?case by (cases "sanitize_array guard f path 0 xs") auto
next
  case (3 guard f path ps)
  then show ?case by (cases "sanitize_object guard f path ps") auto
next
  case (6 guard f path i x xs)
  then show ?case
    by (cases "sanitize_json guard f (path @ [digits i]) x"; cases "sanitize_array guard f path (Suc i) xs") auto
next
  case (8 guard f path k v ps)
  then show ?case
    by (cases "sanitize_json guard f (path @ [k]) v"; cases "sanitize_object guard f path ps") auto
qed auto

lemma sanitize_clean:
  "nul_free v \<Longrightarrow> sanitize_json guard f path v = Inr v"
  "list_all nul_free xs \<Longrightarrow> sanitize_array guard f path i xs = Inr xs"
  "list_all (\<lambda>p. nul_free (snd p)) ps \<Longrightarrow> sanitize_object guard f path ps = Inr ps"
  by (induction guard f path v and guard f path i xs and guard f path ps
      rule: sanitize_json_sanitize_array_sanitize_object.induct) (auto simp: sanitize_string_def)

lemma isl_map_sum: "isl (map_sum f g r) = isl r"
  by (cases r) auto

lemma sanitize_guarded:
  "isl (sanitize_json True f path v) \<longleftrightarrow> \<not> nul_free v"
  "isl (sanitize_array True f path i xs) \<longleftrightarrow> \<not> list_all nul_free xs"
  "isl (sanitize_object True f path ps) \<longleftrightarrow> \<not> list_all (\<lambda>p. nul_free (snd p)) ps"
proof (induction True f path v and True f path i xs and True f path ps
    rule: sanitize_json_sanitize_array_sanitize_object.induct)
  case (6 f path i x xs)
  then show ?case
    by (cases "sanitize_json True f (path @ [digits i]) x"; cases "sanitize_array True f path (Suc i) xs") auto
next
  case (8 f path k v ps)
  then show ?case
    by (cases "sanitize_json True f (path @ [k]) v"; cases "sanitize_object True f path ps") auto
qed (auto simp: sanitize_string_def isl_map_sum)

definition item_nul_free :: "context_item \<Rightarrow> bool" where
  "item_nul_free it \<longleftrightarrow>
     (case it_text it of None \<Rightarrow> True | Some t \<Rightarrow> nul \<notin> set t) \<and> nul_free (it_json it) \<and> nul_free (it_metadata it)"

lemma map_sum_Inr: "map_sum id f r = Inr y \<longleftrightarrow> (\<exists>x. r = Inr x \<and> y = f x)"
  by (cases r) auto

lemma sanitize_payload_nul_free: "sanitize_payload guard it = Inr clean \<Longrightarrow> item_nul_free clean"
  by (auto simp: sanitize_payload_def item_nul_free_def map_sum_Inr
      dest!: sanitize_string_nul_free sanitize_nul_free(1) split: sum.splits option.splits)

definition added_items :: "context_store \<Rightarrow> context_store \<Rightarrow> context_item list \<Rightarrow> bool" where
  "added_items store store' its \<longleftrightarrow>
     cs_items store' = cs_items store @ zip (map context_id [cs_next store..<cs_next store + length its]) its
     \<and> cs_next store' = cs_next store + length its \<and> cs_up store' = cs_up store"

lemma added_none [simp]: "added_items store store []"
  by (simp add: added_items_def)

lemma added_one:
  "added_items store (store\<lparr>cs_items := cs_items store @ [(context_id (cs_next store), it)], cs_next := Suc (cs_next store)\<rparr>) [it]"
  by (simp add: added_items_def)

lemma added_trans: "added_items s t xs \<Longrightarrow> added_items t u ys \<Longrightarrow> added_items s u (xs @ ys)"
  using upt_add_eq_append[of "cs_next s" "cs_next s + length xs" "length ys"]
  by (simp add: added_items_def add.assoc)

lemma upsert_added:
  "\<exists>its. added_items store (fst (upsert_normalized guard store items)) its \<and> list_all item_nul_free its
     \<and> (case snd (upsert_normalized guard store items) of
          Inl e \<Rightarrow> length its < length items
        | Inr ids \<Rightarrow> ids = map context_id [cs_next store..<cs_next store + length items]
            \<and> map it_role its = map it_role items)"
proof (induction items arbitrary: store)
  case (Cons it items)
  show ?case
  proof (cases "sanitize_payload guard it")
    case (Inl e)
    then show ?thesis by (auto simp: create_normalized_def intro: exI[of _ "[]"])
  next
    case (Inr clean)
    have role: "it_role clean = it_role it"
      using Inr by (auto simp: sanitize_payload_def map_sum_Inr split: sum.splits)
    show ?thesis
    proof (cases "cs_up store")
      case False
      then show ?thesis using Inr by (auto simp: create_normalized_def intro: exI[of _ "[]"])
    next
      case True
      let ?s1 = "store\<lparr>cs_items := cs_items store @ [(context_id (cs_next store), clean)], cs_next := Suc (cs_next store)\<rparr>"
      obtain its where its: "added_items ?s1 (fst (upsert_normalized guard ?s1 items)) its" "list_all item_nul_free its"
        "case snd (upsert_normalized guard ?s1 items) of
            Inl e \<Rightarrow> length its < length items
          | Inr ids \<Rightarrow> ids = map context_id [cs_next ?s1..<cs_next ?s1 + length items]
              \<and> map it_role its = map it_role items"
        using Cons.IH[of ?s1] by blast
      have "added_items store (fst (upsert_normalized guard ?s1 items)) (clean # its)"
        using added_trans[OF added_one its(1)] by simp
      moreover have "list_all item_nul_free (clean # its)"
        using its(2) sanitize_payload_nul_free[OF Inr] by simp
      ultimately show ?thesis
        using Inr True its(3) role
        by (intro exI[of _ "clean # its"])
          (auto simp: create_normalized_def upt_conv_Cons[of "cs_next store"] simp del: upt_Suc
            split: prod.splits sum.splits)
    qed
  qed
qed simp

lemma create_added:
  "\<exists>its. added_items store (fst (create_context_items guard le store inputs)) its \<and> list_all item_nul_free its"
proof (cases "normalize_context_items guard le inputs")
  case (Inl e)
  then show ?thesis by (intro exI[of _ "[]"]) (simp add: create_context_items_def)
next
  case (Inr items)
  show ?thesis
  proof (cases "inputs = [] \<or> items = []")
    case True
    then show ?thesis using Inr by (intro exI[of _ "[]"]) (auto simp: create_context_items_def)
  next
    case False
    then show ?thesis using Inr upsert_added[of store guard items] by (auto simp: create_context_items_def)
  qed
qed

text \<open>
  Whatever is asked to be stored, guarded or not, the rows it adds to the table of context items
  have no NUL character in their text and in no text value of their JSON and metadata; PostgreSQL
  would refuse them.
\<close>

theorem stored_items_nul_free:
  "list_all (\<lambda>row. item_nul_free (snd row))
     (drop (length (cs_items store)) (cs_items (fst (create_context_items guard le store inputs))))"
proof -
  obtain its where "added_items store (fst (create_context_items guard le store inputs)) its"
    and "list_all item_nul_free its"
    using create_added by blast
  then show ?thesis by (auto simp: added_items_def list_all_iff dest: set_zip_rightD)
qed

section \<open>Identifiers and entries correspond\<close>

text \<open>An input that is not dropped: it has a text or a JSON value other than null.\<close>

definition has_content :: "context_item_input \<Rightarrow> bool" where
  "has_content inp \<longleftrightarrow> ci_text inp \<noteq> None \<or> (case ci_json inp of None \<Rightarrow> False | Some j \<Rightarrow> j \<noteq> JNull)"

lemma sanitize_not_null: "sanitize_json guard f path v = Inr w \<Longrightarrow> v \<noteq> JNull \<Longrightarrow> w \<noteq> JNull"
  by (cases v) (auto simp: map_sum_Inr)

lemma normalize_has_content:
  assumes "has_content inp" and "normalize_context_item guard le inp = Inr r"
  shows "\<exists>it. r = Some it \<and> it_role it = coerce_role (ci_role inp)"
proof -
  from assms(2) obtain tx jv can md where parts: "normalize_text guard (ci_text inp) = Inr tx"
      "normalize_json_value guard le (ci_json inp) = Inr (jv, can)"
    and r: "r = (if tx = None \<and> can = None then None
      else Some \<lparr>it_role = coerce_role (ci_role inp), it_text = tx, it_json = jv, it_metadata = md,
        it_size = (case tx of None \<Rightarrow> 0 | Some t \<Rightarrow> utf8_length t)
          + (case can of None \<Rightarrow> 0 | Some c \<Rightarrow> utf8_length (json_stringify c))\<rparr>)"
    by (auto simp: normalize_context_item_def split: sum.splits prod.splits if_splits)
  have "tx \<noteq> None" if "ci_text inp \<noteq> None"
    using parts(1) that by (auto simp: normalize_text_def map_sum_Inr)
  moreover have "can \<noteq> None" if "ci_json inp = Some j" "j \<noteq> JNull" for j
    using parts(2) that sanitize_not_null
    by (cases j) (auto simp: normalize_json_value_def to_prisma_identity map_sum_Inr split: sum.splits if_splits)
  ultimately show ?thesis using assms(1) r by (auto simp: has_content_def split: option.splits)
qed

lemma normalize_items_content:
  "list_all has_content inputs \<Longrightarrow> normalize_context_items guard le inputs = Inr items \<Longrightarrow>
     map it_role items = map (\<lambda>inp. coerce_role (ci_role inp)) inputs"
proof (induction inputs arbitrary: items)
  case (Cons inp inputs)
  then obtain r rs where r: "normalize_context_item guard le inp = Inr r"
    and rs: "map_or_throw (normalize_context_item guard le) inputs = Inr rs"
    and items: "items = List.map_filter id (r # rs)"
    by (auto simp: normalize_context_items_def map_sum_Inr split: sum.splits)
  obtain it where "r = Some it" "it_role it = coerce_role (ci_role inp)"
    using normalize_has_content[OF _ r] Cons.prems(1) by auto
  moreover have "map it_role (List.map_filter id rs) = map (\<lambda>inp. coerce_role (ci_role inp)) inputs"
    using Cons.IH[of "List.map_filter id rs"] Cons.prems(1) rs by (simp add: normalize_context_items_def)
  ultimately show ?case using items by (simp add: map_filter_simps)
qed (simp add: normalize_context_items_def map_filter_simps)

text \<open>The entries a reducer makes of messages always have content, tool calls on their own excepted.\<close>

lemma message_input_content:
  "input_from_message m = Some inp \<Longrightarrow> storable m \<or> (\<exists>j. m = Ai j) \<Longrightarrow> has_content inp"
  using response_plain(4)
  by (cases m) (auto simp: input_from_message_def has_content_def input_from_system_def input_from_tool_output_def
      Let_def is_function_call_output_def split: option.splits json.splits if_splits elim!: jget.elims)

fun message_role :: "message \<Rightarrow> context_role" where
  "message_role (System j) = Role_system"
| "message_role (Human j) = Role_user"
| "message_role (Ai j) = Role_assistant"
| "message_role (Response out usage) = Role_assistant"
| "message_role (Tool_call j) = Role_tool"
| "message_role (Tool_call_output j) = Role_tool"
| "message_role m = Role_other"

lemma coerce_role_names:
  "coerce_role (role_json ''system'') = Role_system" "coerce_role (role_json ''user'') = Role_user"
  "coerce_role (role_json ''assistant'') = Role_assistant" "coerce_role (role_json ''tool'') = Role_tool"
  "coerce_role (role_json ''memory'') = Role_memory" "coerce_role (role_json ''summary'') = Role_summary"
  "coerce_role (role_json ''other'') = Role_other"
  by code_simp+

lemma input_role: "input_from_message m = Some inp \<Longrightarrow> coerce_role (ci_role inp) = message_role m"
  by (cases m) (auto simp: input_from_message_def input_from_system_def input_from_tool_output_def Let_def
      coerce_role_names split: option.splits json.splits if_splits)

lemma message_inputs:
  "those (map input_from_message ms) = Some inputs \<Longrightarrow>
     list_all (\<lambda>m. storable m \<or> (case m of Ai j \<Rightarrow> True | _ \<Rightarrow> False)) ms \<Longrightarrow>
     list_all has_content inputs \<and> map (\<lambda>inp. coerce_role (ci_role inp)) inputs = map message_role ms"
proof (induction ms arbitrary: inputs)
  case (Cons m ms)
  have ai: "(case m of Ai j \<Rightarrow> True | _ \<Rightarrow> False) \<Longrightarrow> \<exists>j. m = Ai j" by (cases m) auto
  show ?case
    using Cons message_input_content[of m] ai by (auto simp: input_role split: option.splits)
qed simp

lemma create_all_content:
  assumes "list_all has_content inputs" and "create_context_items guard le store inputs = (store', Inr ids)"
  shows "\<exists>its. added_items store store' its \<and> ids = map context_id [cs_next store..<cs_next store + length inputs]
     \<and> map it_role its = map (\<lambda>inp. coerce_role (ci_role inp)) inputs"
proof (cases "inputs = []")
  case True
  then show ?thesis using assms by (auto simp: create_context_items_def)
next
  case False
  with assms(2) obtain items where items: "normalize_context_items guard le inputs = Inr items"
    by (cases "normalize_context_items guard le inputs") (auto simp: create_context_items_def split: if_splits)
  have roles: "map it_role items = map (\<lambda>inp. coerce_role (ci_role inp)) inputs"
    using normalize_items_content[OF assms(1) items] .
  then have len: "length items = length inputs" by (metis length_map)
  then have run: "upsert_normalized guard store items = (store', Inr ids)"
    using assms(2) items False by (auto simp: create_context_items_def split: if_splits)
  show ?thesis using upsert_added[of store guard items] run roles len by auto
qed

lemma context_id_nonempty [simp]: "context_id n \<noteq> []" "[] \<noteq> context_id n"
  by (simp_all add: context_id_def)

lemma persist_all_content:
  assumes "list_all (\<lambda>q. has_content (snd q)) ps"
    and "persist_context_items guard le store ps = (store', Inr as)"
  shows "\<exists>ids. as = zip (map fst ps) ids \<and> length ids = length ps \<and> (\<forall>i \<in> set ids. i \<noteq> [])"
proof (cases "ps = []")
  case True
  then show ?thesis using assms by (simp add: persist_context_items_def)
next
  case False
  with assms(2) obtain ids where c: "create_context_items guard le store (map snd ps) = (store', Inr ids)"
    and as: "as = filter (\<lambda>p. snd p \<noteq> []) (zip (map fst ps) ids)"
    by (auto simp: persist_context_items_def split: prod.splits sum.splits)
  have "list_all has_content (map snd ps)" using assms(1) by (simp add: list_all_iff)
  from create_all_content[OF this c] have ids: "length ids = length ps" "\<forall>i \<in> set ids. i \<noteq> []" by auto
  then have "as = zip (map fst ps) ids" unfolding as by (auto simp: filter_id_conv dest: set_zip_rightD)
  with ids show ?thesis by blast
qed

text \<open>
  Identifiers line up with messages.  When storing the items of messages succeeds, every message
  has got an item: there are as many identifiers as messages, the i-th identifier is that of the
  i-th new row, and that row has the role of the i-th message; no message is skipped.
\<close>

theorem context_items_align:
  assumes "those (map input_from_message ms) = Some inputs"
    and "list_all (\<lambda>m. storable m \<or> (case m of Ai j \<Rightarrow> True | _ \<Rightarrow> False)) ms"
    and "create_context_items guard le store inputs = (store', Inr ids)"
  shows "length ids = length ms
    \<and> map fst (drop (length (cs_items store)) (cs_items store')) = ids
    \<and> map (\<lambda>row. it_role (snd row)) (drop (length (cs_items store)) (cs_items store')) = map message_role ms"
proof -
  note content = message_inputs[OF assms(1,2)]
  then have len: "length inputs = length ms" by (metis length_map)
  obtain its where its: "added_items store store' its"
    "ids = map context_id [cs_next store..<cs_next store + length inputs]"
    "map it_role its = map (\<lambda>inp. coerce_role (ci_role inp)) inputs"
    using create_all_content[OF _ assms(3)] content by blast
  then have n: "length its = length ms" using len by (metis length_map)
  have "map (\<lambda>row. it_role (snd row)) (zip ids its) = map it_role its"
    using its(2) n len by (simp flip: map_map[of it_role snd, unfolded comp_def])
  then show ?thesis using its n len content by (simp add: added_items_def)
qed

definition sample_messages :: "message list" where
  "sample_messages = [human_from_text ''hi'', response_from_text ''u'' ''hello'']"

definition sample_inputs :: "context_item_input list" where
  "sample_inputs = List.map_filter input_from_message sample_messages"

definition sample_store :: context_store where
  "sample_store = \<lparr>cs_items = [], cs_next = 0, cs_up = True\<rparr>"

theorem context_items_align_witness:
  "length (case snd (create_context_items True (\<lambda>a b. True) sample_store sample_inputs) of
      Inl e \<Rightarrow> [] | Inr ids \<Rightarrow> ids) = length sample_messages"
proof -
  let ?r = "create_context_items True (\<lambda>a b. True) sample_store sample_inputs"
  have "\<not> isl (snd ?r)" by code_simp
  then obtain ids where r: "?r = (fst ?r, Inr ids)" by (cases ?r; cases "snd ?r") auto
  have "those (map input_from_message sample_messages) = Some sample_inputs" by code_simp
  moreover have "list_all (\<lambda>m. storable m \<or> (case m of Ai j \<Rightarrow> True | _ \<Rightarrow> False)) sample_messages" by code_simp
  ultimately show ?thesis using context_items_align[OF _ _ r] by (subst r) simp
qed

end
