(* ===== verification/Call_Model.thy ===== *)
theory Call_Model
  imports Context_Items
begin

text \<open>
  The reducer that calls the model, \<^verbatim>\<open>llm/reducers/callModel.llm.reducer.ts\<close>: the sequence sent to
  the model, the context item behind each part of it, the run event of the call, cancellation and
  failure.

  The model, the memory provider, \<open>JSON.parse\<close> and the termination signal belong to the environment.
  The signal is read up to three times, so it has three values.  Run events are the rows the reducer
  starts and completes.
\<close>

section \<open>The sequence sent to the model\<close>

datatype sequence_entry =
    Seq_system json
  | Seq_summary json
  | Seq_memory json placement
  | Seq_conversation message nat

type_synonym memory_result = "(json option \<times> placement) option"

fun number_from :: "nat \<Rightarrow> message list \<Rightarrow> sequence_entry list" where
  "number_from i [] = []"
| "number_from i (m # ms) = Seq_conversation m i # number_from (Suc i) ms"

definition build_sequence ::
  "json \<Rightarrow> json option \<Rightarrow> memory_result \<Rightarrow> message list \<Rightarrow> sequence_entry list" where
  "build_sequence system summary_msg memory conversation =
     [Seq_system system]
     @ (case summary_msg of None \<Rightarrow> [] | Some s \<Rightarrow> [Seq_summary s])
     @ (case memory of Some (Some m, After_system) \<Rightarrow> [Seq_memory m After_system] | _ \<Rightarrow> [])
     @ number_from 0 conversation
     @ (case memory of Some (Some m, Last_message) \<Rightarrow> [Seq_memory m Last_message] | _ \<Rightarrow> [])"

fun entry_message :: "sequence_entry \<Rightarrow> message" where
  "entry_message (Seq_system j) = System j"
| "entry_message (Seq_summary j) = Human j"
| "entry_message (Seq_memory j place) = System j"
| "entry_message (Seq_conversation m i) = m"

section \<open>Context items for the sequence\<close>

text \<open>Where the identifier of a new item goes, the closures \<open>assign\<close> and \<open>onNewAssigned\<close>.\<close>

datatype slot = To_system | To_summary string | To_memory placement | To_message nat bool

definition nonempty_id :: "string option \<Rightarrow> string option" where
  "nonempty_id i = (case i of None \<Rightarrow> None | Some s \<Rightarrow> if s = [] then None else Some s)"

definition nth_id :: "string list \<Rightarrow> nat \<Rightarrow> string option" where
  "nth_id ids i = (if i < length ids then Some (ids ! i) else None)"

definition find_memory :: "context_state \<Rightarrow> placement \<Rightarrow> memory_entry option" where
  "find_memory c place = find (\<lambda>e. snd e = place) (cx_memory c)"

fun set_memory :: "placement \<Rightarrow> string \<Rightarrow> memory_entry list \<Rightarrow> memory_entry list" where
  "set_memory place i [] = []"
| "set_memory place i (e # es) = (if snd e = place then (Some i, place) # es else e # set_memory place i es)"

text \<open>The first pass: reuse the identifiers there are, ask for the others.\<close>

definition collect_entry ::
  "string option \<Rightarrow> nat \<Rightarrow> sequence_entry \<Rightarrow> context_state \<Rightarrow>
   (context_state \<times> (slot \<times> context_item_input) list) option" where
  "collect_entry summary_text initial entry c =
     (case entry of
        Seq_system j \<Rightarrow>
          (let existing = (case cx_system c of None \<Rightarrow> None | Some i \<Rightarrow> i);
               c1 = c\<lparr>cx_system := Some existing\<rparr>
           in Some (c1, if nonempty_id existing = None then [(To_system, input_from_system j)] else []))
      | Seq_summary j \<Rightarrow>
          (case summary_text of
             None \<Rightarrow> Some (c, [])
           | Some t \<Rightarrow>
               (let reuse = (case cx_summary c of
                               None \<Rightarrow> None
                             | Some s \<Rightarrow> if sum_text s = Some t then sum_id s else None)
                in case nonempty_id reuse of
                     Some i \<Rightarrow> Some (c\<lparr>cx_summary := Some \<lparr>sum_id = Some i, sum_text = Some t\<rparr>\<rparr>, [])
                   | None \<Rightarrow> Some (c, [(To_summary t, input_from_summary t)])))
      | Seq_memory j place \<Rightarrow>
          (let c1 = (if find_memory c place = None then c\<lparr>cx_memory := cx_memory c @ [(None, place)]\<rparr> else c)
           in Some (c1,
                case find_memory c1 place of
                  Some (i, p) \<Rightarrow>
                    if nonempty_id i = None then [(To_memory place, input_from_memory j place)] else []
                | None \<Rightarrow> []))
      | Seq_conversation m idx \<Rightarrow>
          (let existing = nth_id (cx_message_ids c) idx;
               is_new = (existing = None \<or> idx \<ge> initial)
           in case nonempty_id existing of
                Some i \<Rightarrow> Some (c, [])
              | None \<Rightarrow>
                  (case input_from_message m of
                     None \<Rightarrow> None
                   | Some inp \<Rightarrow> Some (c, [(To_message idx is_new, inp)]))))"

fun collect_entries ::
  "string option \<Rightarrow> nat \<Rightarrow> sequence_entry list \<Rightarrow> context_state \<Rightarrow>
   (context_state \<times> (slot \<times> context_item_input) list) option" where
  "collect_entries summary_text initial [] c = Some (c, [])"
| "collect_entries summary_text initial (e # es) c =
     (case collect_entry summary_text initial e c of
        None \<Rightarrow> None
      | Some (c1, p1) \<Rightarrow>
          (case collect_entries summary_text initial es c1 of
             None \<Rightarrow> None
           | Some (c2, p2) \<Rightarrow> Some (c2, p1 @ p2)))"

definition put_message_id :: "nat \<Rightarrow> string \<Rightarrow> string list \<Rightarrow> string list" where
  "put_message_id idx i ids = (if idx < length ids then ids[idx := i] else ids @ [i])"

fun assign_slot :: "slot \<times> string \<Rightarrow> context_state \<times> string list \<Rightarrow> context_state \<times> string list" where
  "assign_slot (To_system, i) (c, new_ids) = (c\<lparr>cx_system := Some (Some i)\<rparr>, new_ids)"
| "assign_slot (To_summary t, i) (c, new_ids) =
     (c\<lparr>cx_summary := Some \<lparr>sum_id = Some i, sum_text = Some t\<rparr>\<rparr>, new_ids)"
| "assign_slot (To_memory place, i) (c, new_ids) = (c\<lparr>cx_memory := set_memory place i (cx_memory c)\<rparr>, new_ids)"
| "assign_slot (To_message idx is_new, i) (c, new_ids) =
     (c\<lparr>cx_message_ids := put_message_id idx i (cx_message_ids c)\<rparr>,
      if is_new then set_add i new_ids else new_ids)"

text \<open>The second pass: the identifier behind every entry, where there is one.\<close>

definition entry_id :: "context_state \<Rightarrow> sequence_entry \<Rightarrow> string option" where
  "entry_id c e =
     nonempty_id
       (case e of
          Seq_system j \<Rightarrow> (case cx_system c of None \<Rightarrow> None | Some i \<Rightarrow> i)
        | Seq_summary j \<Rightarrow> (case cx_summary c of None \<Rightarrow> None | Some s \<Rightarrow> sum_id s)
        | Seq_memory j place \<Rightarrow> (case find_memory c place of None \<Rightarrow> None | Some (i, p) \<Rightarrow> i)
        | Seq_conversation m idx \<Rightarrow> nth_id (cx_message_ids c) idx)"

definition conversation_count :: "sequence_entry list \<Rightarrow> nat" where
  "conversation_count es = length (filter (\<lambda>e. case e of Seq_conversation m i \<Rightarrow> True | _ \<Rightarrow> False) es)"

record resolved_context =
  rc_ids :: "string list"
  rc_new_ids :: "string list"
  rc_context :: context_state

definition resolve_context_ids ::
  "bool \<Rightarrow> (string \<Rightarrow> string \<Rightarrow> bool) \<Rightarrow> context_store \<Rightarrow> context_state \<Rightarrow> sequence_entry list \<Rightarrow> string option \<Rightarrow>
   context_store \<times> (context_error + resolved_context)" where
  "resolve_context_ids guard le store c0 entries summary_text =
     (let initial = length (cx_message_ids c0);
          pending_new = set_add_all (case cx_pending c0 of None \<Rightarrow> [] | Some p \<Rightarrow> p) [];
          c1 = (if summary_text = None then c0\<lparr>cx_summary := None\<rparr> else c0)
      in case collect_entries summary_text initial entries c1 of
           None \<Rightarrow> (store, Inl No_text)
         | Some (c2, pending) \<Rightarrow>
             (let c3 = c2\<lparr>cx_message_ids := take (conversation_count entries) (cx_message_ids c2)\<rparr>
              in case persist_context_items guard le store pending of
                   (store1, Inl e) \<Rightarrow> (store1, Inl e)
                 | (store1, Inr assignments) \<Rightarrow>
                     (let (c4, new_ids) = fold assign_slot assignments (c3, pending_new);
                          ids = List.map_filter (entry_id c4) entries
                      in (store1, Inr \<lparr>rc_ids = ids, rc_new_ids = filter (\<lambda>i. i \<in> set new_ids) ids,
                                    rc_context = c4\<lparr>cx_pending := Some []\<rparr>\<rparr>))))"

section \<open>The call\<close>

datatype event_status = Event_pending | Event_success | Event_error | Event_cancelled

record tool_call_record =
  tc_call_id :: string
  tc_name :: string
  tc_arguments :: json

record llm_result =
  lr_text :: "string option"
  lr_stop_reason :: "string option"
  lr_tool_calls :: "tool_call_record list"
  lr_usage :: "usage_snapshot option"

record llm_event =
  le_id :: string
  le_context_ids :: "string list"
  le_new_ids :: "string list"
  le_status :: event_status
  le_result :: "llm_result option"

record run_world =
  rw_store :: context_store
  rw_events :: "llm_event list"

datatype model_error =
    Not_initialized
  | Context_failure context_error
  | Call_failure llm_call_error
  | Output_failure
  | Assistant_not_persisted

record model_config =
  mc_ready :: bool
  mc_model :: string
  mc_system_prompt :: string

record model_env =
  mv_memory :: memory_result
  mv_parse :: "string \<Rightarrow> json option"
  mv_create :: "json list \<Rightarrow> string + json"
  mv_stop_before :: bool
  mv_stop_after :: bool
  mv_stop_error :: bool

definition event_id :: "run_world \<Rightarrow> string" where
  "event_id w = ''event-'' @ digits (length (rw_events w))"

definition start_llm_call :: "string list \<Rightarrow> string list \<Rightarrow> run_world \<Rightarrow> run_world \<times> string" where
  "start_llm_call ids new_ids w =
     (w\<lparr>rw_events := rw_events w @ [\<lparr>le_id = event_id w, le_context_ids = ids, le_new_ids = new_ids, le_status = Event_pending, le_result = None\<rparr>]\<rparr>,
      event_id w)"

definition complete_llm_call :: "string \<Rightarrow> event_status \<Rightarrow> llm_result option \<Rightarrow> run_world \<Rightarrow> run_world" where
  "complete_llm_call i status result w =
     w\<lparr>rw_events := map (\<lambda>e. if le_id e = i then e\<lparr>le_status := status, le_result := result\<rparr> else e) (rw_events w)\<rparr>"

text \<open>\<open>extractStopReason\<close>: only a first item that is a message can carry one.\<close>

definition extract_stop_reason :: "message list \<Rightarrow> string option" where
  "extract_stop_reason outputs = (case outputs of Ai j # rest \<Rightarrow> stop_reason j | _ \<Rightarrow> None)"

definition sanitize_tool_call_arguments :: "json \<Rightarrow> string list \<Rightarrow> json" where
  "sanitize_tool_call_arguments v path =
     (case sanitize_json False In_payload path v of Inl e \<Rightarrow> v | Inr w \<Rightarrow> w)"

text \<open>Arguments that are not JSON are kept as raw text; \<open>toPrismaJsonValue\<close> throws on a null.\<close>

fun serialize_tool_calls :: "(string \<Rightarrow> json option) \<Rightarrow> nat \<Rightarrow> json list \<Rightarrow> tool_call_record list option" where
  "serialize_tool_calls parse i [] = Some []"
| "serialize_tool_calls parse i (call # calls) =
     (let parsed = (case parse (call_args call) of
                      Some v \<Rightarrow> v | None \<Rightarrow> JObj [(''raw'', JStr (call_args call))]);
          sanitized = sanitize_tool_call_arguments parsed [''toolCalls'', digits i, ''arguments'']
      in case to_prisma_json_value sanitized of
           None \<Rightarrow> None
         | Some args \<Rightarrow>
             map_option (\<lambda>rest. \<lparr>tc_call_id = call_id call, tc_name = call_name call, tc_arguments = args\<rparr> # rest)
               (serialize_tool_calls parse (Suc i) calls))"

definition sanitize_response_text :: "string option \<Rightarrow> string option" where
  "sanitize_response_text t =
     (case t of
        None \<Rightarrow> None
      | Some s \<Rightarrow> (case sanitize_string False In_payload [''responseText''] s of Inl e \<Rightarrow> Some s | Inr u \<Rightarrow> Some u))"

definition sanitize_response_message :: "message \<Rightarrow> message" where
  "sanitize_response_message m =
     (case sanitize_json False In_payload [''response''] (to_plain m) of
        Inl e \<Rightarrow> m
      | Inr plain \<Rightarrow>
          if plain = to_plain m then m
          else response_message (as_list (jget plain ''output'')) (jget plain ''usage''))"

text \<open>\<open>Inl\<close> for what the \<open>try\<close> throws; the third component of a success is the new state.\<close>

definition answer_model ::
  "bool \<Rightarrow> (string \<Rightarrow> string \<Rightarrow> bool) \<Rightarrow> (string \<Rightarrow> json option) \<Rightarrow> context_state \<Rightarrow> string \<Rightarrow> message \<Rightarrow> llm_state \<Rightarrow> run_world \<Rightarrow>
   run_world \<times> (model_error + llm_state)" where
  "answer_model guard le parse c event m st w =
     (case m of
        Response out usage \<Rightarrow>
          (case (response_output out, input_from_message m,
                 Option.bind (response_output out) (\<lambda>os. serialize_tool_calls parse 0 (tool_calls_of os))) of
             (Some outputs, Some inp, Some calls) \<Rightarrow>
               (case persist_context_items guard le (rw_store w) [((), inp)] of
                  (store1, Inl e) \<Rightarrow> (w\<lparr>rw_store := store1\<rparr>, Inl (Context_failure e))
                | (store1, Inr assigned) \<Rightarrow>
                    (let w1 = w\<lparr>rw_store := store1\<rparr>
                     in case map snd assigned of
                          [] \<Rightarrow> (w1, Inl Assistant_not_persisted)
                        | (i # _) \<Rightarrow>
                            (let c1 = append_pending_context_items c [i];
                                 c2 = c1\<lparr>cx_message_ids := cx_message_ids c1 @ [i]\<rparr>
                             in (complete_llm_call event Event_success
                                 (Some \<lparr>lr_text = sanitize_response_text (response_text out),
                                    lr_stop_reason = extract_stop_reason outputs,
                                    lr_tool_calls = calls, lr_usage = usage\<rparr>) w1,
                                 Inr (st\<lparr>st_messages := st_messages st @ [m], st_context := Some c2,
                                       st_meta := Some ((meta_or_empty st)\<lparr>me_last_event := Some event\<rparr>)\<rparr>)))))
           | _ \<Rightarrow> (w, Inl Output_failure))
      | _ \<Rightarrow> (w, Inl Output_failure))"

definition call_model_invoke ::
  "bool \<Rightarrow> (string \<Rightarrow> string \<Rightarrow> bool) \<Rightarrow> model_config \<Rightarrow> model_env \<Rightarrow> llm_state \<Rightarrow> run_world \<Rightarrow>
   run_world \<times> (model_error + llm_state)" where
  "call_model_invoke guard le cfg env st w =
     (if \<not> mc_ready cfg \<or> mc_model cfg = [] \<or> mc_system_prompt cfg = [] then (w, Inl Not_initialized)
      else
        (let source = (\<lambda>m. to_plain m);
             summary_text = (case st_summary st of
                               None \<Rightarrow> None
                             | Some s \<Rightarrow> if js_trim s = [] then None else Some (js_trim s));
             summary_msg = map_option (\<lambda>t. source (human_from_text t)) summary_text;
             c0 = clone_context (st_context st);
             c1 = (case mv_memory env of
                     Some (None, place) \<Rightarrow> c0\<lparr>cx_memory := filter (\<lambda>e. snd e \<noteq> place) (cx_memory c0)\<rparr>
                   | _ \<Rightarrow> c0);
             entries = build_sequence (source (system_from_text (mc_system_prompt cfg))) summary_msg
                         (mv_memory env) (st_messages st)
         in case resolve_context_ids guard le (rw_store w) c1 entries summary_text of
              (store1, Inl e) \<Rightarrow> (w\<lparr>rw_store := store1\<rparr>, Inl (Context_failure e))
            | (store1, Inr rc) \<Rightarrow>
                (let (w1, event) = start_llm_call (rc_ids rc) (rc_new_ids rc) (w\<lparr>rw_store := store1\<rparr>)
                 in if mv_stop_before env then (complete_llm_call event Event_cancelled None w1, Inr st)
                    else
                      (case llm_call (mv_create env) (map entry_message entries) of
                         Inl e \<Rightarrow>
                           if mv_stop_error env then (complete_llm_call event Event_cancelled None w1, Inr st)
                           else (complete_llm_call event Event_error None w1, Inl (Call_failure e))
                       | Inr raw \<Rightarrow>
                           if mv_stop_after env then (complete_llm_call event Event_cancelled None w1, Inr st)
                           else
                             (case answer_model guard le (mv_parse env) (rc_context rc) event (sanitize_response_message raw) st w1 of
                                (w2, Inl e) \<Rightarrow>
                                  if mv_stop_error env then (complete_llm_call event Event_cancelled None w2, Inr st)
                                  else (complete_llm_call event Event_error None w2, Inl e)
                              | (w2, Inr st') \<Rightarrow> (w2, Inr st'))))))"

end
