(* ===== verification/Call_Model_Ids.thy ===== *)
theory Call_Model_Ids
  imports Call_Model
begin

text \<open>
  What the model reducer guarantees about identifiers: every part of the sequence sent to the model
  has a context item, the identifiers of the messages line up with the messages, and every event it
  starts it also completes.
\<close>

section \<open>Every entry gets an identifier\<close>

lemma nonempty_id_simps [simp]:
  "nonempty_id None = None" "nonempty_id (Some s) = (if s = [] then None else Some s)"
  by (simp_all add: nonempty_id_def)

definition filled :: "context_state \<Rightarrow> sequence_entry \<Rightarrow> bool" where
  "filled c e \<longleftrightarrow> entry_id c e \<noteq> None"

lemma find_set_memory:
  "find (\<lambda>e. snd e = q) (set_memory p i es) =
     (if p = q \<and> find (\<lambda>e. snd e = q) es \<noteq> None then Some (Some i, q) else find (\<lambda>e. snd e = q) es)"
  by (induction es) auto

lemma nth_put_message_id:
  "nth_id (put_message_id k i ids) j =
     (if j = min k (length ids) then Some i else nth_id ids j)"
  by (auto simp: put_message_id_def nth_id_def nth_append)

lemma length_put_message_id: "length (put_message_id k i ids) = max (length ids) (Suc (min k (length ids)))"
  by (auto simp: put_message_id_def)

text \<open>Assigning an identifier never takes one away, and fills the entry it was asked for.\<close>

lemma assign_keeps_filled:
  "i \<noteq> [] \<Longrightarrow> filled c e \<Longrightarrow> filled (fst (assign_slot (s, i) (c, new_ids))) e"
  by (cases s; cases e)
    (auto simp: filled_def entry_id_def find_memory_def find_set_memory nth_put_message_id split: option.splits if_splits)

definition wants :: "string option \<Rightarrow> sequence_entry \<Rightarrow> slot \<Rightarrow> bool" where
  "wants summary_text e s =
     (case e of
        Seq_system j \<Rightarrow> s = To_system
      | Seq_summary j \<Rightarrow> (\<exists>t. summary_text = Some t \<and> s = To_summary t)
      | Seq_memory j place \<Rightarrow> s = To_memory place
      | Seq_conversation m idx \<Rightarrow> (\<exists>b. s = To_message idx b))"

definition in_conversation :: "sequence_entry \<Rightarrow> bool" where
  "in_conversation e = (case e of Seq_conversation m i \<Rightarrow> True | _ \<Rightarrow> False)"

definition has_place :: "context_state \<Rightarrow> sequence_entry \<Rightarrow> bool" where
  "has_place c e = (case e of Seq_memory j place \<Rightarrow> find_memory c place \<noteq> None | _ \<Rightarrow> True)"

lemma assign_fills:
  "i \<noteq> [] \<Longrightarrow> wants t e s \<Longrightarrow> \<not> in_conversation e \<Longrightarrow> has_place c e \<Longrightarrow>
     filled (fst (assign_slot (s, i) (c, new_ids))) e"
  by (cases e) (auto simp: wants_def in_conversation_def has_place_def filled_def entry_id_def find_memory_def
      find_set_memory)

lemma assign_keeps_place:
  "has_place c e \<Longrightarrow> has_place (fst (assign_slot (s, i) (c, new_ids))) e"
  by (cases s; cases e) (auto simp: has_place_def find_memory_def find_set_memory)

lemma assign_all_keeps_filled:
  "\<forall>p \<in> set as. snd p \<noteq> [] \<Longrightarrow> filled c e \<Longrightarrow> filled (fst (fold assign_slot as (c, new_ids))) e"
proof (induction as arbitrary: c new_ids)
  case (Cons a as)
  obtain s i where a: "a = (s, i)" by (cases a)
  obtain c1 n1 where step: "assign_slot (s, i) (c, new_ids) = (c1, n1)" by fastforce
  show ?case
    using Cons assign_keeps_filled[of i c e s new_ids] a step by simp
qed simp

lemma assign_all_fills:
  assumes "\<forall>p \<in> set as. snd p \<noteq> []" and "wants t e s" and "s \<in> fst ` set as"
    and "\<not> in_conversation e" and "has_place c e"
  shows "filled (fst (fold assign_slot as (c, new_ids))) e"
  using assms
proof (induction as arbitrary: c new_ids)
  case (Cons a as)
  obtain s' i where a: "a = (s', i)" by (cases a)
  obtain c1 n1 where step: "assign_slot (s', i) (c, new_ids) = (c1, n1)" by fastforce
  show ?case
  proof (cases "s' = s")
    case True
    have "filled c1 e" using assign_fills[of i t e s c new_ids] Cons.prems a step True by simp
    then show ?thesis using assign_all_keeps_filled[of as c1 e n1] Cons.prems(1) a step by simp
  next
    case False
    have "has_place c1 e" using assign_keeps_place[of c e s' i new_ids] Cons.prems(5) step by simp
    then show ?thesis using Cons False a step by auto
  qed
qed simp

lemma find_snoc: "find P (xs @ [x]) = (case find P xs of Some y \<Rightarrow> Some y | None \<Rightarrow> if P x then Some x else None)"
  by (induction xs) auto

text \<open>The contexts the first pass can make of a context, and that none of them loses anything.\<close>

definition less_filled :: "context_state \<Rightarrow> context_state \<Rightarrow> bool" where
  "less_filled c c1 \<longleftrightarrow>
     cx_message_ids c1 = cx_message_ids c
     \<and> (\<forall>e. (filled c e \<longrightarrow> filled c1 e) \<and> (has_place c e \<longrightarrow> has_place c1 e))"

lemma less_filled_refl [simp]: "less_filled c c"
  by (simp add: less_filled_def)

lemma less_filled_trans: "less_filled a b \<Longrightarrow> less_filled b c \<Longrightarrow> less_filled a c"
  by (simp add: less_filled_def)

lemma entry_id_simps:
  "entry_id c (Seq_system j) = nonempty_id (case cx_system c of None \<Rightarrow> None | Some i \<Rightarrow> i)"
  "entry_id c (Seq_summary j) = nonempty_id (case cx_summary c of None \<Rightarrow> None | Some s \<Rightarrow> sum_id s)"
  "entry_id c (Seq_memory j place) = nonempty_id (case find_memory c place of None \<Rightarrow> None | Some (i, p) \<Rightarrow> i)"
  "entry_id c (Seq_conversation m idx) = nonempty_id (nth_id (cx_message_ids c) idx)"
  by (simp_all add: entry_id_def)

lemma less_filled_system: "less_filled c (c\<lparr>cx_system := Some (case cx_system c of None \<Rightarrow> None | Some i \<Rightarrow> i)\<rparr>)"
proof -
  have "entry_id (c\<lparr>cx_system := Some (case cx_system c of None \<Rightarrow> None | Some i \<Rightarrow> i)\<rparr>) e = entry_id c e" for e
    by (cases e) (simp_all add: entry_id_simps find_memory_def)
  moreover have "has_place (c\<lparr>cx_system := Some (case cx_system c of None \<Rightarrow> None | Some i \<Rightarrow> i)\<rparr>) e = has_place c e" for e
    by (cases e) (simp_all add: has_place_def find_memory_def)
  ultimately show ?thesis by (simp add: less_filled_def filled_def)
qed

lemma less_filled_summary: "i \<noteq> [] \<Longrightarrow> less_filled c (c\<lparr>cx_summary := Some \<lparr>sum_id = Some i, sum_text = t\<rparr>\<rparr>)"
  unfolding less_filled_def
proof (intro conjI allI impI)
  fix e
  assume i: "i \<noteq> []"
  show "filled (c\<lparr>cx_summary := Some \<lparr>sum_id = Some i, sum_text = t\<rparr>\<rparr>) e" if "filled c e"
    using that i by (cases e) (simp_all add: filled_def entry_id_simps find_memory_def)
  show "has_place (c\<lparr>cx_summary := Some \<lparr>sum_id = Some i, sum_text = t\<rparr>\<rparr>) e" if "has_place c e"
    using that by (cases e) (simp_all add: has_place_def find_memory_def)
qed simp

lemma less_filled_memory: "less_filled c (c\<lparr>cx_memory := cx_memory c @ [(None, place)]\<rparr>)"
  unfolding less_filled_def
proof (intro conjI allI impI)
  fix e
  show "filled (c\<lparr>cx_memory := cx_memory c @ [(None, place)]\<rparr>) e" if "filled c e"
    using that
    by (cases e) (auto simp: filled_def entry_id_simps find_memory_def find_snoc split: option.splits)
  show "has_place (c\<lparr>cx_memory := cx_memory c @ [(None, place)]\<rparr>) e" if "has_place c e"
    using that by (cases e) (auto simp: has_place_def find_memory_def find_snoc split: option.splits)
qed simp

lemma collect_system:
  assumes "collect_entry t initial (Seq_system j) c = Some (c1, p)"
  shows "less_filled c c1" and "filled c1 (Seq_system j) \<or> p = [(To_system, input_from_system j)]"
  using assms less_filled_system[of c]
  by (auto simp: collect_entry_def Let_def filled_def entry_id_simps split: if_splits)

lemma collect_summary:
  assumes "collect_entry (Some t) initial (Seq_summary j) c = Some (c1, p)"
  shows "less_filled c c1 \<and> (filled c1 (Seq_summary j) \<or> p = [(To_summary t, input_from_summary t)])"
proof -
  define reuse where
    "reuse = (case cx_summary c of None \<Rightarrow> None | Some s \<Rightarrow> if sum_text s = Some t then sum_id s else None)"
  show ?thesis
  proof (cases "nonempty_id reuse")
    case None
    with assms show ?thesis by (simp add: collect_entry_def reuse_def[symmetric])
  next
    case (Some i)
    then have "i \<noteq> []" by (cases reuse) (auto split: if_splits)
    with Some assms less_filled_summary[of i c "Some t"] show ?thesis
      by (auto simp: collect_entry_def reuse_def[symmetric] filled_def entry_id_simps)
  qed
qed

lemma collect_memory:
  assumes "collect_entry t initial (Seq_memory j place) c = Some (c1, p)"
  shows "less_filled c c1 \<and> has_place c1 (Seq_memory j place)
     \<and> (filled c1 (Seq_memory j place) \<or> p = [(To_memory place, input_from_memory j place)])"
proof (cases "find_memory c place")
  case None
  then have "find_memory (c\<lparr>cx_memory := cx_memory c @ [(None, place)]\<rparr>) place = Some (None, place)"
    by (simp add: find_memory_def find_snoc)
  with None assms less_filled_memory[of c place] show ?thesis
    by (auto simp: collect_entry_def Let_def has_place_def)
next
  case (Some e)
  obtain i q where e: "e = (i, q)" by (cases e)
  with Some assms show ?thesis
    by (cases i) (auto simp: collect_entry_def Let_def has_place_def filled_def entry_id_simps split: if_splits)
qed

lemma collect_conversation:
  assumes "collect_entry t initial (Seq_conversation m idx) c = Some (c1, p)"
  shows "c1 = c"
    and "(p = [] \<and> nonempty_id (nth_id (cx_message_ids c) idx) \<noteq> None)
       \<or> (\<exists>inp b. p = [(To_message idx b, inp)] \<and> nonempty_id (nth_id (cx_message_ids c) idx) = None
            \<and> input_from_message m = Some inp)"
  using assms by (auto simp: collect_entry_def Let_def split: option.splits)

lemma collect_entry_other:
  assumes "collect_entry t initial e c = Some (c1, p)" and "\<not> in_conversation e"
    and "(\<exists>j. e = Seq_summary j) \<Longrightarrow> t \<noteq> None"
  shows "less_filled c c1 \<and> has_place c1 e \<and> (filled c1 e \<or> (\<exists>s inp. p = [(s, inp)] \<and> wants t e s \<and> has_content inp))
     \<and> list_all (\<lambda>q. (\<forall>i b. fst q \<noteq> To_message i b) \<and> has_content (snd q)) p"
proof (cases e)
  case (Seq_system j)
  with collect_system[of t initial j c c1 p] assms(1) show ?thesis
    by (auto simp: wants_def has_place_def has_content_def input_from_system_def collect_entry_def Let_def split: if_splits)
next
  case (Seq_summary j)
  with assms(3) obtain u where u: "t = Some u" by auto
  with collect_summary[of u initial j c c1 p] assms(1) Seq_summary show ?thesis
    by (auto simp: wants_def has_place_def has_content_def input_from_summary_def collect_entry_def Let_def
        split: option.splits)
next
  case (Seq_memory j place)
  with collect_memory[of t initial j place c c1 p] assms(1) show ?thesis
    by (auto simp: wants_def has_content_def input_from_memory_def collect_entry_def Let_def split: option.splits if_splits)
next
  case (Seq_conversation m idx)
  with assms(2) show ?thesis by (simp add: in_conversation_def)
qed

definition message_slots :: "(slot \<times> 'a) list \<Rightarrow> nat list" where
  "message_slots ps = List.map_filter (\<lambda>p. case fst p of To_message i b \<Rightarrow> Some i | _ \<Rightarrow> None) ps"

lemma message_slots_simps [simp]:
  "message_slots [] = []"
  "message_slots (p # ps) = (case fst p of To_message i b \<Rightarrow> [i] | _ \<Rightarrow> []) @ message_slots ps"
  by (simp_all add: message_slots_def List.map_filter_def split: slot.split)

lemma message_slots_append [simp]: "message_slots (ps @ qs) = message_slots ps @ message_slots qs"
  by (simp add: message_slots_def map_filter_def)

lemma no_message_slots: "list_all (\<lambda>q. \<forall>i b. fst q \<noteq> To_message i b) ps \<Longrightarrow> message_slots ps = []"
  by (induction ps) (auto split: slot.splits)

definition lacking :: "string list \<Rightarrow> sequence_entry list \<Rightarrow> nat list" where
  "lacking ids es =
     List.map_filter (\<lambda>e. case e of
         Seq_conversation m i \<Rightarrow> if nonempty_id (nth_id ids i) = None then Some i else None
       | _ \<Rightarrow> None) es"

lemma lacking_Cons:
  "lacking ids (e # es) =
     (case e of Seq_conversation m i \<Rightarrow> if nonempty_id (nth_id ids i) = None then [i] else [] | _ \<Rightarrow> [])
     @ lacking ids es"
  by (simp add: lacking_def List.map_filter_def split: sequence_entry.split)

lemma lacking_simps [simp]: "lacking ids [] = []" "lacking ids (es @ fs) = lacking ids es @ lacking ids fs"
  by (simp_all add: lacking_def map_filter_def)

definition sendable :: "message \<Rightarrow> bool" where
  "sendable m \<longleftrightarrow> storable m \<or> (case m of Ai j \<Rightarrow> True | _ \<Rightarrow> False)"

definition entry_sendable :: "sequence_entry \<Rightarrow> bool" where
  "entry_sendable e = (case e of Seq_conversation m i \<Rightarrow> sendable m | _ \<Rightarrow> True)"

lemma sendable_content: "input_from_message m = Some inp \<Longrightarrow> sendable m \<Longrightarrow> has_content inp"
  by (rule message_input_content) (auto simp: sendable_def split: message.splits)

lemma collect_entries_result:
  assumes "collect_entries t initial es c = Some (c2, ps)"
    and "(\<exists>j. Seq_summary j \<in> set es) \<Longrightarrow> t \<noteq> None"
    and "list_all entry_sendable es"
  shows "less_filled c c2
     \<and> (\<forall>e \<in> set es. \<not> in_conversation e \<longrightarrow>
           has_place c2 e \<and> (filled c2 e \<or> (\<exists>s \<in> fst ` set ps. wants t e s)))
     \<and> message_slots ps = lacking (cx_message_ids c) es
     \<and> list_all (\<lambda>q. has_content (snd q)) ps"
  using assms
proof (induction es arbitrary: c c2 ps)
  case (Cons e es)
  from Cons.prems(1) obtain c1 p1 p2 where one: "collect_entry t initial e c = Some (c1, p1)"
    and rest: "collect_entries t initial es c1 = Some (c2, p2)" and ps: "ps = p1 @ p2"
    by (auto split: option.splits)
  have IH: "less_filled c1 c2
     \<and> (\<forall>e \<in> set es. \<not> in_conversation e \<longrightarrow>
           has_place c2 e \<and> (filled c2 e \<or> (\<exists>s \<in> fst ` set p2. wants t e s)))
     \<and> message_slots p2 = lacking (cx_message_ids c1) es \<and> list_all (\<lambda>q. has_content (snd q)) p2"
    using Cons.IH[OF rest] Cons.prems(2,3) by auto
  show ?case
  proof (cases "in_conversation e")
    case True
    then obtain m idx where e: "e = Seq_conversation m idx" by (auto simp: in_conversation_def split: sequence_entry.splits)
    note conv = collect_conversation[OF one[unfolded e]]
    have "list_all (\<lambda>q. has_content (snd q)) p1"
      using conv(2) Cons.prems(3) e sendable_content by (auto simp: entry_sendable_def)
    moreover have "message_slots p1 @ lacking (cx_message_ids c) es = lacking (cx_message_ids c) (e # es)"
      using conv(2) e by (auto simp: lacking_Cons)
    ultimately show ?thesis using IH conv(1) ps True by (auto simp: image_Un)
  next
    case False
    then have o: "less_filled c c1 \<and> has_place c1 e
        \<and> (filled c1 e \<or> (\<exists>s inp. p1 = [(s, inp)] \<and> wants t e s \<and> has_content inp))
        \<and> list_all (\<lambda>q. (\<forall>i b. fst q \<noteq> To_message i b) \<and> has_content (snd q)) p1"
      using collect_entry_other[OF one] Cons.prems(2) by auto
    then have slots: "message_slots p1 = []"
      by (intro no_message_slots) (simp add: list_all_iff)
    have lack: "lacking (cx_message_ids c) (e # es) = lacking (cx_message_ids c1) es"
      using False o by (auto simp: lacking_Cons less_filled_def in_conversation_def split: sequence_entry.splits)
    have here: "has_place c2 e \<and> (filled c2 e \<or> (\<exists>s \<in> fst ` set ps. wants t e s))"
      using o IH ps by (force simp: less_filled_def)
    have "less_filled c c2" using less_filled_trans o IH by blast
    then show ?thesis using IH o slots lack here ps by (auto simp: list_all_iff)
  qed
qed simp

section \<open>Message identifiers line up with messages\<close>

definition put_all :: "(nat \<times> string) list \<Rightarrow> string list \<Rightarrow> string list" where
  "put_all as ids = fold (\<lambda>(k, i). put_message_id k i) as ids"

lemma assign_message_ids:
  "length ps = length is \<Longrightarrow>
     \<exists>js. cx_message_ids (fst (fold assign_slot (zip (map fst ps) is) (c, new_ids)))
          = put_all (zip (message_slots ps) js) (cx_message_ids c)
        \<and> length js = length (message_slots ps) \<and> set js \<subseteq> set is"
proof (induction ps "is" arbitrary: c new_ids rule: list_induct2)
  case Nil
  then show ?case by (auto simp: put_all_def)
next
  case (Cons p ps i "is")
  obtain s inp where p: "p = (s, inp)" by (cases p)
  obtain c1 n1 where step: "assign_slot (s, i) (c, new_ids) = (c1, n1)" by fastforce
  obtain js where js: "cx_message_ids (fst (fold assign_slot (zip (map fst ps) is) (c1, n1)))
        = put_all (zip (message_slots ps) js) (cx_message_ids c1)"
    "length js = length (message_slots ps)" "set js \<subseteq> set is"
    using Cons.IH by blast
  show ?case
  proof (cases s)
    case (To_message k b)
    then show ?thesis
      using js p step by (intro exI[of _ "i # js"]) (auto simp: put_all_def)
  qed (use js p step in \<open>auto intro!: exI[of _ js]\<close>)
qed

text \<open>Filling the gaps of \<open>orig\<close> from \<open>k\<close> to \<open>n\<close> in order leaves no gap.\<close>

lemma put_all_fills:
  assumes "k \<le> n" and "length orig \<le> n"
    and "length xs = max k (length orig)"
    and "\<forall>j < k. xs ! j \<noteq> []" and "\<forall>j. k \<le> j \<longrightarrow> j < length orig \<longrightarrow> xs ! j = orig ! j"
    and "length js = length (filter (\<lambda>j. nonempty_id (nth_id orig j) = None) [k..<n])"
    and "\<forall>i \<in> set js. i \<noteq> []"
  shows "length (put_all (zip (filter (\<lambda>j. nonempty_id (nth_id orig j) = None) [k..<n]) js) xs) = n
     \<and> list_all (\<lambda>i. i \<noteq> []) (put_all (zip (filter (\<lambda>j. nonempty_id (nth_id orig j) = None) [k..<n]) js) xs)"
  using assms
proof (induction "n - k" arbitrary: k xs js)
  case 0
  then have "k = n" "length xs = n" by simp_all
  then show ?case using 0 by (auto simp: put_all_def list_all_length)
next
  case (Suc d)
  then have k: "k < n" by simp
  then have upt: "[k..<n] = k # [Suc k..<n]" by (simp add: upt_conv_Cons)
  show ?case
  proof (cases "nonempty_id (nth_id orig k)")
    case (Some i)
    then have kl: "k < length orig" "orig ! k \<noteq> []" by (auto simp: nth_id_def split: if_splits)
    then have "\<forall>j < Suc k. xs ! j \<noteq> []" using Suc.prems(4,5) by (auto simp: less_Suc_eq)
    then show ?thesis
      using Suc.hyps(1)[of "Suc k" xs js] Suc.hyps(2) Suc.prems kl Some upt k by simp
  next
    case None
    then obtain i js' where js: "js = i # js'" using Suc.prems(6) upt by (cases js) auto
    let ?xs = "put_message_id k i xs"
    have i: "i \<noteq> []" using Suc.prems(7) js by simp
    have len: "length ?xs = max (Suc k) (length orig)" using Suc.prems(3) by (auto simp: length_put_message_id)
    have before: "\<forall>j < Suc k. ?xs ! j \<noteq> []"
      using Suc.prems(3,4) i by (auto simp: put_message_id_def nth_append nth_list_update less_Suc_eq)
    have after: "\<forall>j. Suc k \<le> j \<longrightarrow> j < length orig \<longrightarrow> ?xs ! j = orig ! j"
      using Suc.prems(3,5) by (auto simp: put_message_id_def nth_append)
    show ?thesis
      using Suc.hyps(1)[of "Suc k" ?xs js'] Suc.hyps(2) Suc.prems(2,6,7) len before after None upt js k
      by (simp add: put_all_def)
  qed
qed

lemma lacking_number_from:
  "lacking ids (number_from k ms) = filter (\<lambda>j. nonempty_id (nth_id ids j) = None) [k..<k + length ms]"
proof (induction ms arbitrary: k)
  case (Cons m ms)
  have "[k..<k + length (m # ms)] = k # [Suc k..<Suc k + length ms]" by (simp add: upt_conv_Cons del: upt_Suc)
  then show ?case using Cons by (simp add: lacking_Cons del: upt_Suc)
qed simp

lemma lacking_sequence:
  "lacking ids (build_sequence system summary_msg memory ms) =
     filter (\<lambda>j. nonempty_id (nth_id ids j) = None) [0..<length ms]"
  by (cases summary_msg; cases memory)
    (auto simp: build_sequence_def lacking_Cons lacking_number_from split: option.splits placement.splits prod.splits)

lemma conversation_count_number_from [simp]: "conversation_count (number_from k ms) = length ms"
  by (induction ms arbitrary: k) (auto simp: conversation_count_def)

lemma conversation_count_sequence: "conversation_count (build_sequence system summary_msg memory ms) = length ms"
  using conversation_count_number_from[of 0 ms]
  by (auto simp: conversation_count_def build_sequence_def split: option.splits placement.splits)

lemma set_number_from: "set (number_from k ms) = {Seq_conversation (ms ! i) (k + i) | i. i < length ms}"
proof (induction ms arbitrary: k)
  case (Cons m ms)
  show ?case
    unfolding number_from.simps set_simps Cons
    by (auto simp: less_Suc_eq_0_disj)
qed simp

lemma entry_sendable_simps:
  "entry_sendable (Seq_system j)" "entry_sendable (Seq_summary j)" "entry_sendable (Seq_memory j place)"
  "list_all entry_sendable (number_from k ms) = list_all sendable ms"
proof -
  show "list_all entry_sendable (number_from k ms) = list_all sendable ms"
    by (induction ms arbitrary: k) (auto simp: entry_sendable_def)
qed (simp_all add: entry_sendable_def)

lemma nth_id_take: "i < n \<Longrightarrow> nth_id (take n ids) i = nth_id ids i"
  by (simp add: nth_id_def)

lemma filled_take:
  "\<not> in_conversation e \<Longrightarrow> filled (c\<lparr>cx_message_ids := ids\<rparr>) e = filled c e"
  "has_place (c\<lparr>cx_message_ids := ids\<rparr>) e = has_place c e"
  by (cases e; simp add: filled_def entry_id_simps find_memory_def in_conversation_def has_place_def)+

text \<open>
  The result of resolving: one identifier per entry, one non-empty message identifier per message,
  nothing pending.
\<close>

lemma resolve_ids:
  assumes run: "resolve_context_ids guard le store c0 (build_sequence system summary_msg memory ms) t = (store', Inr rc)"
    and summary: "summary_msg \<noteq> None \<Longrightarrow> t \<noteq> None"
    and ms: "list_all sendable ms"
  shows "length (rc_ids rc) = length (build_sequence system summary_msg memory ms)"
    and "length (cx_message_ids (rc_context rc)) = length ms"
    and "list_all (\<lambda>i. i \<noteq> []) (cx_message_ids (rc_context rc))"
    and "cx_pending (rc_context rc) = Some []"
proof -
  let ?es = "build_sequence system summary_msg memory ms"
  define c1 where "c1 = (if t = None then c0\<lparr>cx_summary := None\<rparr> else c0)"
  define new0 where "new0 = set_add_all (case cx_pending c0 of None \<Rightarrow> [] | Some p \<Rightarrow> p) []"
  from run obtain c2 ps as where coll: "collect_entries t (length (cx_message_ids c0)) ?es c1 = Some (c2, ps)"
    and pers: "persist_context_items guard le store ps = (store', Inr as)"
    and rc: "rc = (case fold assign_slot as (c2\<lparr>cx_message_ids := take (length ms) (cx_message_ids c2)\<rparr>, new0) of
        (c4, new_ids) \<Rightarrow> \<lparr>rc_ids = List.map_filter (entry_id c4) ?es,
           rc_new_ids = filter (\<lambda>i. i \<in> set new_ids) (List.map_filter (entry_id c4) ?es),
           rc_context = c4\<lparr>cx_pending := Some []\<rparr>\<rparr>)"
    by (auto simp: resolve_context_ids_def Let_def c1_def[symmetric] new0_def[symmetric] conversation_count_sequence
        split: option.splits prod.splits sum.splits)
  let ?c3 = "c2\<lparr>cx_message_ids := take (length ms) (cx_message_ids c2)\<rparr>"
  define c4 where "c4 = fst (fold assign_slot as (?c3, new0))"
  have rc_ids: "rc_ids rc = List.map_filter (entry_id c4) ?es" "rc_context rc = c4\<lparr>cx_pending := Some []\<rparr>"
    using rc by (auto simp: c4_def split: prod.splits)
  have "(\<exists>j. Seq_summary j \<in> set ?es) \<Longrightarrow> summary_msg \<noteq> None"
    by (auto simp: build_sequence_def set_number_from split: option.splits placement.splits)
  moreover have sendable: "list_all entry_sendable ?es"
    using ms by (auto simp: build_sequence_def entry_sendable_simps split: option.splits placement.splits)
  ultimately have res: "less_filled c1 c2"
      "\<forall>e \<in> set ?es. \<not> in_conversation e \<longrightarrow> has_place c2 e \<and> (filled c2 e \<or> (\<exists>s \<in> fst ` set ps. wants t e s))"
      "message_slots ps = lacking (cx_message_ids c1) ?es" "list_all (\<lambda>q. has_content (snd q)) ps"
    using collect_entries_result[OF coll] summary by auto
  have ids_eq: "cx_message_ids c2 = cx_message_ids c1" using res(1) by (simp add: less_filled_def)
  obtain ids where as: "as = zip (map fst ps) ids" and len: "length ids = length ps" and ne: "\<forall>i \<in> set ids. i \<noteq> []"
    using persist_all_content[OF res(4) pers] by blast
  have as_ne: "\<forall>p \<in> set as. snd p \<noteq> []" using ne as by (auto dest: set_zip_rightD)
  obtain js where js: "cx_message_ids c4 = put_all (zip (message_slots ps) js) (take (length ms) (cx_message_ids c2))"
      "length js = length (message_slots ps)" "set js \<subseteq> set ids"
    using assign_message_ids[OF len[symmetric], of ?c3 new0] as by (auto simp: c4_def)
  let ?orig = "take (length ms) (cx_message_ids c2)"
  have slots: "message_slots ps = filter (\<lambda>j. nonempty_id (nth_id ?orig j) = None) [0..<length ms]"
    using res(3) ids_eq by (auto simp: lacking_sequence nth_id_take intro!: filter_cong)
  have fills: "length (cx_message_ids c4) = length ms \<and> list_all (\<lambda>i. i \<noteq> []) (cx_message_ids c4)"
    unfolding js(1) slots by (rule put_all_fills) (use js(2,3) slots ne in auto)
  then show "length (cx_message_ids (rc_context rc)) = length ms"
    and "list_all (\<lambda>i. i \<noteq> []) (cx_message_ids (rc_context rc))" and "cx_pending (rc_context rc) = Some []"
    using rc_ids by simp_all
  have "filled c4 e" if e: "e \<in> set ?es" for e
  proof (cases "in_conversation e")
    case True
    with e obtain i where "e = Seq_conversation (ms ! i) i" "i < length ms"
      by (auto simp: build_sequence_def set_number_from in_conversation_def split: option.splits placement.splits)
    with fills show ?thesis by (auto simp: filled_def entry_id_simps nth_id_def list_all_length)
  next
    case False
    have "has_place ?c3 e" using res(2) e False by (simp add: filled_take)
    then show ?thesis
      using res(2) e False assign_all_keeps_filled[OF as_ne, of ?c3 e new0]
        assign_all_fills[OF as_ne, of t e _ ?c3 new0] as len
      by (auto simp: c4_def filled_take(1)) (metis fst_conv image_eqI map_fst_zip length_map set_map)
  qed
  then show "length (rc_ids rc) = length ?es"
    using rc_ids(1) by (auto simp: filled_def List.map_filter_def filter_id_conv)
qed

section \<open>Outcomes of the reducer\<close>

text \<open>Events are numbered in the order they were started, so a new one has a fresh identifier.\<close>

definition events_numbered :: "run_world \<Rightarrow> bool" where
  "events_numbered w \<longleftrightarrow> map le_id (rw_events w) = map (\<lambda>n. ''event-'' @ digits n) [0..<length (rw_events w)]"

lemma complete_new_event:
  assumes "events_numbered w" and "start_llm_call ids new_ids w = (w1, i)"
    and "rw_events w2 = rw_events w1"
  shows "rw_events (complete_llm_call i status result w2) =
     rw_events w @ [\<lparr>le_id = i, le_context_ids = ids, le_new_ids = new_ids, le_status = status, le_result = result\<rparr>]"
proof -
  have "i \<notin> set (map le_id (rw_events w))"
    using assms(1,2) by (auto simp: events_numbered_def start_llm_call_def event_id_def)
  then have "map (\<lambda>e. if le_id e = i then e\<lparr>le_status := status, le_result := result\<rparr> else e) (rw_events w) = rw_events w"
    by (intro map_idI) auto
  then show ?thesis using assms(2,3) by (auto simp: complete_llm_call_def start_llm_call_def)
qed

lemma numbered_after:
  "events_numbered w \<Longrightarrow> rw_events w' = rw_events w @ [ev] \<Longrightarrow> le_id ev = event_id w \<Longrightarrow> events_numbered w'"
  by (simp add: events_numbered_def event_id_def)

definition aligned :: "llm_state \<Rightarrow> bool" where
  "aligned st \<longleftrightarrow>
     (case st_context st of
        None \<Rightarrow> False
      | Some c \<Rightarrow>
          length (cx_message_ids c) = length (st_messages st) \<and> list_all (\<lambda>i. i \<noteq> []) (cx_message_ids c))"

lemma append_pending_ids [simp]: "cx_message_ids (append_pending_context_items c is) = cx_message_ids c"
  by (simp add: append_pending_context_items_def Let_def)

lemma answer_model_result:
  assumes "answer_model guard le parse c event m st w = (w', r)"
  shows "(\<exists>e. r = Inl e \<and> rw_events w' = rw_events w)
     \<or> (\<exists>st' res w1. r = Inr st' \<and> w' = complete_llm_call event Event_success res w1 \<and> rw_events w1 = rw_events w
          \<and> st_messages st' = st_messages st @ [m]
          \<and> (\<exists>i c'. i \<noteq> [] \<and> st_context st' = Some c' \<and> cx_message_ids c' = cx_message_ids c @ [i])
          \<and> me_last_event (meta_or_empty st') = Some event)"
proof (cases m)
  case (Response out usage)
  show ?thesis
  proof (cases "response_output out = None \<or> input_from_message m = None
      \<or> Option.bind (response_output out) (\<lambda>os. serialize_tool_calls parse 0 (tool_calls_of os)) = None")
    case True
    with assms Response show ?thesis by (auto simp: answer_model_def split: option.splits)
  next
    case False
    then obtain outs inp calls where o: "response_output out = Some outs" "input_from_message m = Some inp"
      "serialize_tool_calls parse 0 (tool_calls_of outs) = Some calls" by auto
    define result where "result = Some \<lparr>lr_text = sanitize_response_text (response_text out),
        lr_stop_reason = extract_stop_reason outs, lr_tool_calls = calls, lr_usage = usage\<rparr>"
    obtain store1 r1 where p: "persist_context_items guard le (rw_store w) [((), inp)] = (store1, r1)" by fastforce
    show ?thesis
    proof (cases r1)
      case (Inl e)
      with assms Response o p show ?thesis by (auto simp: answer_model_def)
    next
      case (Inr as)
      have ne: "\<forall>p \<in> set as. snd p \<noteq> []"
        using p Inr by (auto simp: persist_context_items_def split: prod.splits sum.splits)
      show ?thesis
      proof (cases as)
        case Nil
        with assms Response o p Inr show ?thesis by (auto simp: answer_model_def)
      next
        case (Cons a list)
        then obtain u i where a: "as = (u, i) # list" by (cases a) auto
        with assms Response o p Inr have "w' = complete_llm_call event Event_success result (w\<lparr>rw_store := store1\<rparr>)"
          by (auto simp: answer_model_def Let_def result_def)
        then show ?thesis
          using assms Response o p Inr ne a
          by (intro disjI2 exI[of _ "case r of Inr s \<Rightarrow> s | Inl e \<Rightarrow> st"] exI[of _ result] exI[of _ "w\<lparr>rw_store := store1\<rparr>"])
            (auto simp: answer_model_def Let_def meta_or_empty_def result_def intro!: exI[of _ i])
      qed
    qed
  qed
qed (use assms in \<open>auto simp: answer_model_def\<close>)


definition sample_model :: model_config where
  "sample_model = \<lparr>mc_ready = True, mc_model = ''m'', mc_system_prompt = ''be brief''\<rparr>"

definition sample_env :: model_env where
  "sample_env = \<lparr>mv_memory = None, mv_parse = (\<lambda>s. None), mv_create = (\<lambda>input. Inr spoken_response), mv_stop_before = False,
     mv_stop_after = False, mv_stop_error = False\<rparr>"

definition sample_world :: run_world where
  "sample_world = \<lparr>rw_store = sample_store, rw_events = []\<rparr>"


end
