(* ===== verification/Call_Tools.thy ===== *)
theory Call_Tools
  imports Call_Model_Ids
begin

text \<open>
  The reducer that runs the tools a response asks for, \<^verbatim>\<open>llm/reducers/callTools.llm.reducer.ts\<close>:
  finding the tool, parsing and validating its arguments, running it, turning every kind of failure
  into an output for the model, and recording the execution.

  A tool is known by its interface: a name, a schema that accepts or rejects arguments, and what
  executing it returns or throws.  The executions of one response do not depend on each other here,
  so running them one after the other gives the results of \<open>Promise.all\<close>.
\<close>

section \<open>Results of tool calls\<close>

datatype tool_error_code =
    BAD_JSON_ARGS | SCHEMA_VALIDATION_FAILED | TOOL_NOT_FOUND | TOOL_EXECUTION_ERROR
  | TOOL_OUTPUT_TOO_LARGE | MCP_CALL_ERROR

fun code_name :: "tool_error_code \<Rightarrow> string" where
  "code_name BAD_JSON_ARGS = ''BAD_JSON_ARGS''"
| "code_name SCHEMA_VALIDATION_FAILED = ''SCHEMA_VALIDATION_FAILED''"
| "code_name TOOL_NOT_FOUND = ''TOOL_NOT_FOUND''"
| "code_name TOOL_EXECUTION_ERROR = ''TOOL_EXECUTION_ERROR''"
| "code_name TOOL_OUTPUT_TOO_LARGE = ''TOOL_OUTPUT_TOO_LARGE''"
| "code_name MCP_CALL_ERROR = ''MCP_CALL_ERROR''"

record mcp_error =
  mcp_name :: string
  mcp_message :: string
  mcp_code :: "string option"
  mcp_exit_code :: "int option"
  mcp_stderr :: "string option"
  mcp_stdout :: "string option"

datatype tool_failure = Mcp_failure mcp_error | Error_thrown string string | Value_thrown

text \<open>What awaiting a tool gives: a text, a list of items, a value of another type, or an exception.\<close>

datatype tool_outcome = Text string | Items "json list" | Other_type string | Throws tool_failure

record tool =
  tl_name :: string
  tl_is_shell :: bool
  tl_parse :: "json \<Rightarrow> json + json"
  tl_execute :: "json \<Rightarrow> tool_outcome"
  tl_stream :: "json \<Rightarrow> tool_outcome"

record tool_call_result =
  tr_success :: bool
  tr_raw :: json
  tr_output :: json

text \<open>A text or a list, \<open>isToolCallRaw\<close>.\<close>

definition is_tool_call_raw :: "json \<Rightarrow> bool" where
  "is_tool_call_raw v = (case v of JStr s \<Rightarrow> True | JArr xs \<Rightarrow> True | _ \<Rightarrow> False)"

section \<open>Messages about failures\<close>

definition is_digit :: "char \<Rightarrow> bool" where
  "is_digit c \<longleftrightarrow> 48 \<le> (of_char c :: nat) \<and> (of_char c :: nat) \<le> 57"

definition exit_prefix :: string where
  "exit_prefix = ''[exit code ''"

text \<open>\<open>/^\[exit code (-?\d+)]/\<close>: whether the number found is other than zero.\<close>

definition is_non_zero_shell_exit :: "string \<Rightarrow> bool" where
  "is_non_zero_shell_exit s =
     (if js_starts_with s exit_prefix
      then
        (let rest = drop (length exit_prefix) s;
             number = (case rest of c # cs \<Rightarrow> if c = CHR ''-'' then cs else rest | [] \<Rightarrow> []);
             ds = takeWhile is_digit number;
             after = dropWhile is_digit number
         in ds \<noteq> [] \<and> js_starts_with after '']'' \<and> digits_value ds \<noteq> 0)
      else False)"

fun unify_newlines :: "string \<Rightarrow> string" where
  "unify_newlines [] = []"
| "unify_newlines (c # cs) =
     (if c = CHR 0x0D
      then CHR 0x0A # (case cs of d # ds \<Rightarrow> if d = CHR 0x0A then unify_newlines ds else unify_newlines cs | [] \<Rightarrow> [])
      else c # unify_newlines cs)"

definition normalize_exec_output :: "string option \<Rightarrow> string" where
  "normalize_exec_output t = (case t of None \<Rightarrow> [] | Some s \<Rightarrow> js_trim_end (unify_newlines s))"

definition newline_text :: string where
  "newline_text = [CHR 0x0A]"

text \<open>\<open>split(/\r?\n/, 1)[0]\<close>: up to the first line feed, without a carriage return before it.\<close>

definition first_line :: "string \<Rightarrow> string" where
  "first_line s =
     (let l = takeWhile (\<lambda>c. c \<noteq> CHR 0x0A) s
      in if length l < length s \<and> l \<noteq> [] \<and> last l = CHR 0x0D then butlast l else l)"

definition build_mcp_failure_message :: "mcp_error \<Rightarrow> string \<Rightarrow> string" where
  "build_mcp_failure_message e tool_name =
     (let label = (if js_trim tool_name \<noteq> [] then js_trim tool_name else ''tool'');
          header = (case mcp_exit_code e of
                      Some n \<Rightarrow> ''[exit code '' @ int_digits n @ ''] Process exited with code '' @ int_digits n
                    | None \<Rightarrow> ''[mcp_error] '' @ label @ '' failed'');
          stderr = normalize_exec_output (mcp_stderr e);
          stdout = normalize_exec_output (mcp_stdout e);
          segments = (if stderr \<noteq> [] \<and> stdout \<noteq> [] then (if stderr = stdout then [stderr] else [stderr, stdout])
                      else if stderr \<noteq> [] then [stderr] else if stdout \<noteq> [] then [stdout] else []);
          fallback = js_trim (first_line (mcp_message e));
          body = (if segments = [] then [if fallback \<noteq> [] then fallback else ''MCP tool failed''] else segments)
      in header @ newline_text @ ''---'' @ newline_text @ js_join newline_text body)"

definition build_tool_error_details :: "tool_failure \<Rightarrow> tool_error_code \<Rightarrow> string \<Rightarrow> json" where
  "build_tool_error_details f code error_id =
     (case f of
        Mcp_failure e \<Rightarrow>
          JObj ([(''errorId'', JStr error_id), (''name'', JStr (mcp_name e))]
            @ (case mcp_code e of Some c \<Rightarrow> if c = [] then [] else [(''code'', JStr c)] | None \<Rightarrow> [])
            @ (case mcp_exit_code e of Some n \<Rightarrow> [(''exitCode'', JNum n)] | None \<Rightarrow> []))
      | Error_thrown name message \<Rightarrow> JObj [(''errorId'', JStr error_id), (''name'', JStr name)]
      | Value_thrown \<Rightarrow>
          JObj [(''errorId'', JStr error_id), (''name'', JStr ''UnknownError''), (''code'', JStr (code_name code))])"

definition create_error_response ::
  "json \<Rightarrow> tool_error_code \<Rightarrow> string \<Rightarrow> json option \<Rightarrow> json option \<Rightarrow> tool_call_result" where
  "create_error_response call code message original_args details =
     \<lparr>tr_success = False, tr_raw = JStr message,
      tr_output = JObj
        ([(''status'', JStr ''error''), (''tool_name'', JStr (call_name call)), (''tool_call_id'', JStr (call_id call)),
          (''error_code'', JStr (code_name code)), (''message'', JStr message)]
         @ (case original_args of None \<Rightarrow> [] | Some a \<Rightarrow> [(''original_args'', a)])
         @ (case details of None \<Rightarrow> [] | Some d \<Rightarrow> [(''details'', d)])
         @ [(''retriable'', JBool False)])\<rparr>"

section \<open>One call\<close>

datatype exec_status = Exec_pending | Exec_success | Exec_error

record tool_event =
  te_id :: string
  te_tool :: string
  te_call_id :: string
  te_llm_event :: string
  te_status :: exec_status
  te_output :: "json option"
  te_error :: "string option"

text \<open>
  What the calls of one response meet: \<open>JSON.parse\<close> with the message of its error, an identifier for errors, whether recording the
  start of an execution succeeds, and the two readings of the termination signal.
\<close>

record tools_env =
  tv_parse :: "string \<Rightarrow> string + json"
  tv_error_id :: string
  tv_recording :: bool
  tv_stop_before :: bool
  tv_stop_after :: bool

definition max_tool_output :: int where
  "max_tool_output = 50000"

definition outcome_response :: "tools_env \<Rightarrow> tool \<Rightarrow> json \<Rightarrow> json \<Rightarrow> tool_outcome \<Rightarrow> tool_call_result" where
  "outcome_response env tool call input outcome =
     (case outcome of
        Text s \<Rightarrow>
          if int (length s) > max_tool_output
          then create_error_response call TOOL_OUTPUT_TOO_LARGE
                 (''Tool '' @ call_name call @ '' produced output longer than 50000 characters.'') (Some input)
                 (Some (JObj [(''length'', JNum (int (length s)))]))
          else \<lparr>tr_success = \<not> (tl_is_shell tool \<and> is_non_zero_shell_exit s), tr_raw = JStr s, tr_output = JStr s\<rparr>
      | Items xs \<Rightarrow> \<lparr>tr_success = True, tr_raw = JArr xs, tr_output = JArr xs\<rparr>
      | Other_type ty \<Rightarrow>
          create_error_response call TOOL_EXECUTION_ERROR
            (''Tool '' @ call_name call @ '' returned unsupported output type.'') (Some input)
            (Some (JObj [(''receivedType'', JStr ty)]))
      | Throws f \<Rightarrow>
          (case f of
             Mcp_failure e \<Rightarrow>
               (let formatted = build_mcp_failure_message e (tl_name tool)
                in \<lparr>tr_success = False, tr_raw = JStr formatted, tr_output = JStr formatted\<rparr>)
           | Error_thrown name message \<Rightarrow>
               create_error_response call TOOL_EXECUTION_ERROR
                 (''Tool '' @ call_name call @ '' execution failed: ''
                   @ (if message \<noteq> [] then message else ''Unknown error''))
                 (Some input) (Some (build_tool_error_details f TOOL_EXECUTION_ERROR (tv_error_id env)))
           | Value_thrown \<Rightarrow>
               create_error_response call TOOL_EXECUTION_ERROR
                 (''Tool '' @ call_name call @ '' execution failed: Unknown error'')
                 (Some input) (Some (build_tool_error_details f TOOL_EXECUTION_ERROR (tv_error_id env)))))"

definition extract_error_message :: "tool_call_result \<Rightarrow> string option" where
  "extract_error_message r =
     (if tr_success r then None
      else case tr_output r of
             JStr s \<Rightarrow> Some s
           | _ \<Rightarrow> (case tr_raw r of JStr s \<Rightarrow> Some s | _ \<Rightarrow> None))"

definition finalize_event :: "tool_call_result \<Rightarrow> tool_event \<Rightarrow> tool_event" where
  "finalize_event r e =
     e\<lparr>te_status := (if tr_success r then Exec_success else Exec_error), te_output := Some (tr_output r),
       te_error := extract_error_message r\<rparr>"

definition execute_tool_call ::
  "tools_env \<Rightarrow> string \<Rightarrow> tool option \<Rightarrow> json \<Rightarrow> tool_event list \<Rightarrow> tool_event list \<times> tool_call_result" where
  "execute_tool_call env llm_event found call events =
     (case found of
        None \<Rightarrow>
          (events, create_error_response call TOOL_NOT_FOUND (''Tool '' @ call_name call @ '' is not registered.'')
             (Some (JStr (call_args call))) None)
      | Some tool \<Rightarrow>
          (case tv_parse env (call_args call) of
             Inl message \<Rightarrow>
               (events, create_error_response call BAD_JSON_ARGS
                  (''Invalid JSON arguments for tool '' @ call_name call @ ''.'')
                  (Some (JStr (call_args call)))
                  (Some (JObj [(''message'', JStr message), (''name'', JStr ''SyntaxError'')])))
           | Inr parsed \<Rightarrow>
               (case tl_parse tool parsed of
                  Inl issues \<Rightarrow>
                    (events, create_error_response call SCHEMA_VALIDATION_FAILED
                       (''Arguments failed validation for tool '' @ call_name call @ ''.'') (Some parsed) (Some issues))
                | Inr input \<Rightarrow>
                    (let started = tv_recording env;
                         response = outcome_response env tool call input
                           (if tl_is_shell tool \<and> started then tl_stream tool input else tl_execute tool input)
                     in (if started
                         then events @ [finalize_event response
                                \<lparr>te_id = ''exec-'' @ digits (length events), te_tool = tl_name tool,
                                 te_call_id = call_id call, te_llm_event = llm_event, te_status = Exec_pending,
                                 te_output = None, te_error = None\<rparr>]
                         else events,
                         response)))))"

text \<open>\<open>buildToolMessagePayload\<close>; \<^const>\<open>None\<close> for a success without text or list.\<close>

definition build_tool_message_payload :: "tool_call_result \<Rightarrow> json option" where
  "build_tool_message_payload r =
     (case tr_output r of
        JStr s \<Rightarrow> Some (JStr s)
      | JArr xs \<Rightarrow> if tr_success r then Some (JArr xs) else Some (JStr (json_stringify (JArr xs)))
      | v \<Rightarrow> if tr_success r then None else Some (JStr (json_stringify v)))"

section \<open>All calls of a response\<close>

datatype tools_error = No_output_items | Tools_not_initialized | Missing_llm_event | Invalid_output | Items_failure context_error

definition filter_tool_calls :: "message list \<Rightarrow> json list option" where
  "filter_tool_calls ms =
     (case last_message ms of
        Some (Response out usage) \<Rightarrow> map_option tool_calls_of (response_output out)
      | _ \<Rightarrow> Some [])"

definition create_tools_map :: "tool list \<Rightarrow> (string \<times> tool) list" where
  "create_tools_map tools = index_by tl_name tools"

fun run_tool_calls ::
  "tools_env \<Rightarrow> string \<Rightarrow> (string \<times> tool) list \<Rightarrow> json list \<Rightarrow> tool_event list \<Rightarrow>
   tool_event list \<times> message list option" where
  "run_tool_calls env llm_event tools [] events = (events, Some [])"
| "run_tool_calls env llm_event tools (call # calls) events =
     (let (events1, r) = execute_tool_call env llm_event (map_of tools (call_name call)) call events;
          (events2, rest) = run_tool_calls env llm_event tools calls events1
      in (events2,
          case (build_tool_message_payload r, rest) of
            (Some payload, Some ms) \<Rightarrow> Some (tool_output_from_response (call_id call) payload # ms)
          | _ \<Rightarrow> None))"

record tools_world =
  tw_store :: context_store
  tw_execs :: "tool_event list"

definition reset_injections :: "llm_state \<Rightarrow> llm_meta" where
  "reset_injections st = (meta_or_empty st)\<lparr>me_injection_count := Some 0, me_injected := Some False\<rparr>"

definition call_tools_invoke ::
  "bool \<Rightarrow> (string \<Rightarrow> string \<Rightarrow> bool) \<Rightarrow> tool list option \<Rightarrow> tools_env \<Rightarrow> llm_state \<Rightarrow> tools_world \<Rightarrow>
   tools_world \<times> (tools_error + llm_state)" where
  "call_tools_invoke guard le tools env st w =
     (if tv_stop_before env then (w, Inr st)
      else
        (case filter_tool_calls (st_messages st) of
           None \<Rightarrow> (w, Inl No_output_items)
         | Some calls \<Rightarrow>
             (case tools of
                None \<Rightarrow> (w, Inl Tools_not_initialized)
              | Some ts \<Rightarrow>
                  (let event = (case me_last_event (meta_or_empty st) of None \<Rightarrow> [] | Some e \<Rightarrow> e)
                   in if calls \<noteq> [] \<and> event = [] then (w, Inl Missing_llm_event)
                      else
                        (let (execs, results) = run_tool_calls env event (create_tools_map ts) calls (tw_execs w);
                             w1 = w\<lparr>tw_execs := execs\<rparr>
                         in case results of
                              None \<Rightarrow> (w1, Inl Invalid_output)
                            | Some outs \<Rightarrow>
                                if tv_stop_after env then (w1, Inr st)
                                else
                                  (let context = clone_context (st_context st);
                                       entries = List.map_filter (\<lambda>m. map_option (Pair ()) (input_from_message m)) outs
                                   in case persist_context_items guard le (tw_store w1) entries of
                                        (store1, Inl e) \<Rightarrow> (w1\<lparr>tw_store := store1\<rparr>, Inl (Items_failure e))
                                      | (store1, Inr assigned) \<Rightarrow>
                                          (let ids = map snd assigned;
                                               context1 = (if ids = [] then context
                                                 else append_pending_context_items
                                                   (context\<lparr>cx_message_ids := cx_message_ids context @ ids\<rparr>) ids)
                                           in (w1\<lparr>tw_store := store1\<rparr>,
                                               Inr (st\<lparr>st_messages := st_messages st @ outs,
                                                 st_meta := Some (reset_injections st),
                                                 st_context := Some context1\<rparr>)))))))))"

section \<open>Every call is answered\<close>

lemma create_error_payload:
  "\<exists>s. build_tool_message_payload (create_error_response call code m a d) = Some (JStr s)"
  by (auto simp: build_tool_message_payload_def create_error_response_def split: option.splits)

lemma execute_payload:
  "execute_tool_call env llm_event found call events = (events', r) \<Longrightarrow> build_tool_message_payload r \<noteq> None"
proof -
  have err: "build_tool_message_payload (create_error_response call code m a d) \<noteq> None" for code m a d
    using create_error_payload by fastforce
  have "build_tool_message_payload (outcome_response env tool call input oc) \<noteq> None" for tool input oc
    using err
    by (cases oc)
      (auto simp: outcome_response_def Let_def build_tool_message_payload_def[of "\<lparr>tr_success = _, tr_raw = _, tr_output = _\<rparr>"]
        split: tool_failure.splits)
  then show "execute_tool_call env llm_event found call events = (events', r) \<Longrightarrow> build_tool_message_payload r \<noteq> None"
    using err by (auto simp: execute_tool_call_def Let_def split: option.splits sum.splits)
qed

definition completed :: "tool_event \<Rightarrow> bool" where
  "completed e \<longleftrightarrow> te_status e \<noteq> Exec_pending"

lemma execute_events:
  "execute_tool_call env llm_event found call events = (events', r) \<Longrightarrow>
     \<exists>new. events' = events @ new \<and> list_all completed new"
  by (auto simp: execute_tool_call_def Let_def completed_def finalize_event_def split: option.splits sum.splits if_splits)

definition answers_calls :: "message list \<Rightarrow> json list \<Rightarrow> bool" where
  "answers_calls outs calls \<longleftrightarrow>
     list_all2 (\<lambda>m call. \<exists>payload. m = tool_output_from_response (call_id call) payload) outs calls"

lemma run_tool_calls_answers:
  "run_tool_calls env llm_event tools calls events = (events', r) \<Longrightarrow>
     \<exists>outs new. r = Some outs \<and> answers_calls outs calls \<and> events' = events @ new \<and> list_all completed new"
proof (induction calls arbitrary: events events' r)
  case (Cons call calls)
  obtain events1 r1 where one: "execute_tool_call env llm_event (map_of tools (call_name call)) call events = (events1, r1)"
    by fastforce
  obtain events2 r2 where rest: "run_tool_calls env llm_event tools calls events1 = (events2, r2)" by fastforce
  obtain outs new where IH: "r2 = Some outs" "answers_calls outs calls" "events2 = events1 @ new" "list_all completed new"
    using Cons.IH[OF rest] by blast
  obtain new1 where "events1 = events @ new1" "list_all completed new1" using execute_events[OF one] by blast
  moreover obtain payload where "build_tool_message_payload r1 = Some payload" using execute_payload[OF one] by auto
  ultimately show ?case
    using Cons.prems one rest IH by (auto simp: answers_calls_def intro!: exI[of _ "new1 @ new"])
qed (simp add: answers_calls_def)

lemma tool_output_storable: "storable (tool_output_from_response cid payload)"
  by (simp add: tool_output_from_response_def is_function_call_output_def)

lemma tool_output_input:
  "\<exists>inp. input_from_message (tool_output_from_response cid payload) = Some inp \<and> has_content inp"
proof -
  obtain inp where "input_from_message (tool_output_from_response cid payload) = Some inp"
    by (simp add: tool_output_from_response_def input_from_message_def)
  with message_input_content[OF this] tool_output_storable show ?thesis by blast
qed

lemma answers_inputs:
  "answers_calls outs calls \<Longrightarrow>
     \<exists>inputs. List.map_filter (\<lambda>m. map_option (Pair ()) (input_from_message m)) outs = map (Pair ()) inputs
       \<and> length inputs = length outs \<and> list_all has_content inputs"
  unfolding answers_calls_def
proof (induction outs calls rule: list_all2_induct)
  case Nil
  then show ?case by (simp add: map_filter_simps)
next
  case (Cons m outs call calls)
  then obtain payload where "m = tool_output_from_response (call_id call) payload" by blast
  with tool_output_input obtain inp where "input_from_message m = Some inp" "has_content inp" by blast
  with Cons.IH show ?case by (auto simp: map_filter_simps intro: exI[of _ "inp # _"])
qed

lemma sanitize_unguarded:
  "\<not> isl (sanitize_json False f path v)"
  "\<not> isl (sanitize_array False f path i xs)"
  "\<not> isl (sanitize_object False f path ps)"
proof (induction False f path v and False f path i xs and False f path ps
    rule: sanitize_json_sanitize_array_sanitize_object.induct)
  case (6 f path i x xs)
  then show ?case
    by (cases "sanitize_json False f (path @ [digits i]) x"; cases "sanitize_array False f path (Suc i) xs") auto
next
  case (8 f path k v ps)
  then show ?case
    by (cases "sanitize_json False f (path @ [k]) v"; cases "sanitize_object False f path ps") auto
qed (auto simp: sanitize_string_def isl_map_sum)

lemma sanitize_unguarded_ex: "\<exists>w. sanitize_json False f path v = Inr w"
  using sanitize_unguarded(1)[of f path v] by (cases "sanitize_json False f path v") auto

lemma upsert_unguarded: "cs_up store \<Longrightarrow> upsert_normalized False store items = (store', Inl e) \<Longrightarrow> False"
proof (induction items arbitrary: store)
  case (Cons it items)
  have tx: "\<exists>t. sanitize_string False f path x = Inr t" for f path x by (simp add: sanitize_string_def)
  obtain j where j: "sanitize_json False In_content_json [''contentJson''] (it_json it) = Inr j"
    using sanitize_unguarded_ex by blast
  obtain m where m: "sanitize_json False In_metadata [''metadata''] (it_metadata it) = Inr m"
    using sanitize_unguarded_ex by blast
  have "\<exists>clean. sanitize_payload False it = Inr clean"
    using tx[of In_content_text "[''contentText'']"] j m
    by (auto simp: sanitize_payload_def split: option.splits) (metis map_sum.simps(2) old.sum.simps(6))
  then obtain clean where clean: "sanitize_payload False it = Inr clean" by blast
  let ?s1 = "store\<lparr>cs_items := cs_items store @ [(context_id (cs_next store), clean)], cs_next := Suc (cs_next store)\<rparr>"
  show ?case using Cons.IH[of ?s1] Cons.prems clean by (auto simp: create_normalized_def split: prod.splits sum.splits)
qed simp

lemma normalize_parts_unguarded:
  "normalize_text False t \<noteq> Inl e" "normalize_json_value False le v \<noteq> Inl e" "normalize_metadata False v \<noteq> Inl e"
proof -
  show "normalize_text False t \<noteq> Inl e" by (cases t) (auto simp: normalize_text_def sanitize_string_def)
  have "normalize_json_value False le (Some w) \<noteq> Inl e \<and> normalize_metadata False (Some w) \<noteq> Inl e" for w
    using sanitize_unguarded_ex[of In_content_json "[''contentJson'']" w] sanitize_unguarded_ex[of In_metadata "[''metadata'']" w]
    by (cases w) (auto simp: normalize_json_value_def normalize_metadata_def split: option.splits)
  then show "normalize_json_value False le v \<noteq> Inl e" "normalize_metadata False v \<noteq> Inl e"
    by (cases v; simp add: normalize_json_value_def normalize_metadata_def)+
qed

lemma normalize_unguarded: "normalize_context_item False le inp \<noteq> Inl e"
  by (simp add: normalize_context_item_def normalize_parts_unguarded split: sum.split prod.split)

lemma normalize_all_unguarded: "normalize_context_items False le inputs \<noteq> Inl e"
proof -
  have "\<not> isl (map_or_throw (normalize_context_item False le) inputs)"
    by (induction inputs) (auto simp: normalize_unguarded split: sum.splits)
  then show ?thesis by (cases "map_or_throw (normalize_context_item False le) inputs") (auto simp: normalize_context_items_def)
qed

lemma persist_fails:
  assumes "persist_context_items guard le store entries = (store', Inl e)"
  shows "\<not> cs_up store \<or> guard"
proof (rule ccontr)
  assume "\<not> (\<not> cs_up store \<or> guard)"
  then have up: "cs_up store" and g: "guard = False" by auto
  have "create_context_items False le store (map snd entries) \<noteq> (store', Inl e)" for store' e
    using up upsert_unguarded normalize_all_unguarded
    by (auto simp: create_context_items_def split: sum.splits)
  then show False using assms g by (auto simp: persist_context_items_def split: if_splits prod.splits sum.splits)
qed



definition echo_tool :: tool where
  "echo_tool = \<lparr>tl_name = ''echo'', tl_is_shell = False, tl_parse = (\<lambda>v. Inr v),
     tl_execute = (\<lambda>v. Text ''done''), tl_stream = (\<lambda>v. Text ''done'')\<rparr>"

definition echo_env :: tools_env where
  "echo_env = \<lparr>tv_parse = (\<lambda>s. Inr JNull), tv_error_id = ''err'', tv_recording = True,
     tv_stop_before = False, tv_stop_after = False\<rparr>"

definition echo_call :: json where
  "echo_call = JObj [(''type'', JStr ''function_call''), (''call_id'', JStr ''c1''), (''name'', JStr ''echo''),
     (''arguments'', JStr ''null'')]"

definition echo_state :: llm_state where
  "echo_state =
     \<lparr>st_messages = [Response [echo_call] None], st_summary = None,
      st_context = Some (empty_context\<lparr>cx_message_ids := [''m1'']\<rparr>),
      st_meta = Some (empty_meta\<lparr>me_last_event := Some ''event-0''\<rparr>)\<rparr>"

definition echo_world :: tools_world where
  "echo_world = \<lparr>tw_store = sample_store, tw_execs = []\<rparr>"


end
