(* ===== verification/Summarization.thy ===== *)
theory Summarization
  imports Call_Model_Ids
begin

text \<open>
  The reducer that folds old messages into a summary, \<^verbatim>\<open>llm/reducers/summarization.llm.reducer.ts\<close>.

  A token is a quarter of a character of the YAML rendering of a message.  The YAML package is an
  argument: \<open>len\<close> gives the length of a message, \<open>yaml\<close> renders a list.  Counts are kept in
  characters, so the limits are multiplied by four.
\<close>

section \<open>Splitting\<close>

definition messages_length :: "(message \<Rightarrow> nat) \<Rightarrow> message list \<Rightarrow> nat" where
  "messages_length len ms = sum_list (map len ms)"

text \<open>
  The loop over the positions from the last to the first; \<open>rest\<close> are the messages not yet counted,
  in reverse.  \<^const>\<open>None\<close>: the loop ended without reaching the limit.
\<close>

fun split_index :: "(message \<Rightarrow> nat) \<Rightarrow> nat \<Rightarrow> nat \<Rightarrow> message list \<Rightarrow> nat option" where
  "split_index len keep acc [] = None"
| "split_index len keep acc (m # rest) =
     (if acc + len m \<ge> 4 * keep then Some (length rest)
      else split_index len keep (acc + len m) rest)"

definition split_head_tail :: "(message \<Rightarrow> nat) \<Rightarrow> message list \<Rightarrow> nat \<Rightarrow> message list \<times> message list" where
  "split_head_tail len ms keep =
     (let idx = (case split_index len keep 0 (rev ms) of None \<Rightarrow> length ms | Some i \<Rightarrow> i)
      in (take idx ms, drop idx ms))"

text \<open>The identifiers of the calls in the head; \<^const>\<open>None\<close> when an \<open>output\<close> throws.\<close>

fun head_call_ids :: "message list \<Rightarrow> string list option" where
  "head_call_ids [] = Some []"
| "head_call_ids (m # ms) =
     (case (case m of
              Response out usage \<Rightarrow> map_option (\<lambda>os. map call_id (tool_calls_of os)) (response_output out)
            | _ \<Rightarrow> Some []) of
        None \<Rightarrow> None
      | Some ids \<Rightarrow> map_option (\<lambda>rest. ids @ rest) (head_call_ids ms))"

definition is_orphan :: "string list \<Rightarrow> message \<Rightarrow> bool" where
  "is_orphan ids m = (case m of Tool_call_output j \<Rightarrow> call_id j \<notin> set ids | _ \<Rightarrow> False)"

fun move_loop :: "string list \<Rightarrow> message list \<Rightarrow> message list \<times> message list \<Rightarrow> message list \<times> message list" where
  "move_loop ids [] (new_head, new_tail) = (new_head, new_tail)"
| "move_loop ids (m # ms) (new_head, new_tail) =
     (if is_orphan ids m then move_loop ids ms (new_head, new_tail @ [m])
      else move_loop ids ms (new_head @ [m], new_tail))"

definition move_orphan_tool_outputs :: "message list \<Rightarrow> message list \<Rightarrow> (message list \<times> message list) option" where
  "move_orphan_tool_outputs head tail =
     map_option (\<lambda>ids. move_loop ids head ([], tail)) (head_call_ids head)"

section \<open>The reducer\<close>

record summary_params =
  sp_model :: string
  sp_keep_tokens :: nat
  sp_max_tokens :: nat
  sp_system_prompt :: string

record summary_env =
  sv_len :: "message \<Rightarrow> nat"
  sv_yaml :: "message list \<Rightarrow> string"
  sv_create :: "json list \<Rightarrow> string + json"
  sv_stop_invoke :: bool
  sv_stop_summarize :: bool

record summary_event =
  se_summary :: string
  se_old_tokens :: nat
  se_new_count :: nat
  se_new_context :: "json list"

record summary_world =
  sw_store :: context_store
  sw_events :: "summary_event list"

datatype summary_error = Unreadable_output | Summary_call_failed llm_call_error | Summary_item_failed context_error

definition should_summarize :: "summary_params \<Rightarrow> summary_env \<Rightarrow> llm_state \<Rightarrow> bool" where
  "should_summarize ps env st \<longleftrightarrow>
     messages_length (sv_len env) (st_messages st)
       + (case st_summary st of None \<Rightarrow> 0 | Some s \<Rightarrow> length s) > 4 * sp_max_tokens ps"

definition summary_prompt :: "summary_env \<Rightarrow> llm_state \<Rightarrow> message list \<Rightarrow> string" where
  "summary_prompt env st tail =
     (let nl = [CHR 0x0A]
      in ''Previous summary:'' @ nl @ (case st_summary st of None \<Rightarrow> ''(none)'' | Some s \<Rightarrow> s) @ nl @ nl
         @ ''Fold in the following messages (grouped tool responses kept together):'' @ nl
         @ sv_yaml env tail @ nl @ nl @ ''Return only the updated summary.'')"

definition slice_message_ids :: "nat \<Rightarrow> context_state \<Rightarrow> context_state" where
  "slice_message_ids n c =
     c\<lparr>cx_message_ids := (if n \<ge> length (cx_message_ids c) then [] else drop n (cx_message_ids c))\<rparr>"

definition response_text_of :: "message \<Rightarrow> string option" where
  "response_text_of m = (case m of Response out usage \<Rightarrow> response_text out | _ \<Rightarrow> None)"

definition store_summary ::
  "bool \<Rightarrow> (string \<Rightarrow> string \<Rightarrow> bool) \<Rightarrow> context_store \<Rightarrow> context_state \<Rightarrow> string \<Rightarrow>
   context_store \<times> (context_error + summary_state option)" where
  "store_summary guard le store c text =
     (let known = (if text \<noteq> [] then (case cx_summary c of
                      Some s \<Rightarrow> if sum_text s = Some text then sum_id s else None | None \<Rightarrow> None) else None)
      in if text = [] then (store, Inr None)
         else if nonempty_id known \<noteq> None then (store, Inr (Some \<lparr>sum_id = known, sum_text = Some text\<rparr>))
         else
           (case create_context_items guard le store [input_from_summary text] of
              (store1, Inl e) \<Rightarrow> (store1, Inl e)
            | (store1, Inr ids) \<Rightarrow>
                (store1, Inr (Some \<lparr>sum_id = (case ids of [] \<Rightarrow> None | i # _ \<Rightarrow> Some i), sum_text = Some text\<rparr>))))"

definition summarize ::
  "bool \<Rightarrow> (string \<Rightarrow> string \<Rightarrow> bool) \<Rightarrow> summary_params \<Rightarrow> summary_env \<Rightarrow> llm_state \<Rightarrow> summary_world \<Rightarrow>
   summary_world \<times> (summary_error + llm_state)" where
  "summarize guard le ps env st w =
     (if sv_stop_summarize env \<or> st_messages st = [] then (w, Inr st)
      else
        (let c = clone_context (st_context st);
             (tail0, head0) = split_head_tail (sv_len env) (st_messages st) (sp_keep_tokens ps)
         in case move_orphan_tool_outputs head0 tail0 of
              None \<Rightarrow> (w, Inl Unreadable_output)
            | Some (head, tail) \<Rightarrow>
                if tail = [] then (w, Inr (st\<lparr>st_messages := head, st_context := Some c\<rparr>))
                else
                  (let c1 = slice_message_ids (length tail) c
                   in case llm_call (sv_create env)
                             [system_from_text (sp_system_prompt ps), human_from_text (summary_prompt env st tail)] of
                        Inl e \<Rightarrow> (w, Inl (Summary_call_failed e))
                      | Inr m \<Rightarrow>
                          (case response_text_of m of
                             None \<Rightarrow> (w, Inl (Summary_call_failed No_output))
                           | Some t \<Rightarrow>
                               (let text = js_trim t;
                                    event = \<lparr>se_summary = text,
                                      se_old_tokens = (messages_length (sv_len env) (st_messages st) + 2) div 4,
                                      se_new_count = length head, se_new_context = map to_plain head\<rparr>;
                                    w1 = w\<lparr>sw_events := sw_events w @ [event]\<rparr>
                                in case store_summary guard le (sw_store w1) c1 text of
                                     (store1, Inl e) \<Rightarrow> (w1\<lparr>sw_store := store1\<rparr>, Inl (Summary_item_failed e))
                                   | (store1, Inr s) \<Rightarrow>
                                       (w1\<lparr>sw_store := store1\<rparr>,
                                        Inr \<lparr>st_messages = head, st_summary = Some text,
                                          st_context = Some (c1\<lparr>cx_summary := s\<rparr>), st_meta = None\<rparr>))))))"

definition summarization_invoke ::
  "bool \<Rightarrow> (string \<Rightarrow> string \<Rightarrow> bool) \<Rightarrow> summary_params \<Rightarrow> summary_env \<Rightarrow> llm_state \<Rightarrow> summary_world \<Rightarrow>
   summary_world \<times> (summary_error + llm_state)" where
  "summarization_invoke guard le ps env st w =
     (if sp_max_tokens ps = 0 \<or> sv_stop_invoke env \<or> \<not> should_summarize ps env st then (w, Inr st)
      else summarize guard le ps env st w)"

section \<open>The split\<close>

lemma split_index_Some:
  "split_index len keep acc rest = Some i \<Longrightarrow>
     i < length rest \<and> acc + sum_list (map len (take (length rest - i) rest)) \<ge> 4 * keep
     \<and> (length rest - i > 1 \<longrightarrow> acc + sum_list (map len (take (length rest - i - 1) rest)) < 4 * keep)"
proof (induction rest arbitrary: acc)
  case (Cons m rest)
  show ?case
  proof (cases "acc + len m \<ge> 4 * keep")
    case True
    with Cons.prems show ?thesis by simp
  next
    case False
    with Cons.prems Cons.IH[of "acc + len m"] have IH: "i < length rest"
      "acc + len m + sum_list (map len (take (length rest - i) rest)) \<ge> 4 * keep"
      "length rest - i > 1 \<longrightarrow> acc + len m + sum_list (map len (take (length rest - i - 1) rest)) < 4 * keep"
      by simp_all
    have "Suc (length rest) - i = Suc (length rest - i)" using IH(1) by simp
    moreover have "length rest - i = Suc (length rest - i - 1)" using IH(1) by simp
    ultimately show ?thesis using IH False
      by (cases "length rest - i > 1") (auto simp: take_Suc_Cons algebra_simps)
  qed
qed simp

lemma split_index_None:
  "split_index len keep acc rest = None \<Longrightarrow> rest \<noteq> [] \<Longrightarrow> acc + sum_list (map len rest) < 4 * keep"
proof (induction rest arbitrary: acc)
  case (Cons m rest)
  show ?case
  proof (cases "acc + len m \<ge> 4 * keep")
    case True
    with Cons.prems show ?thesis by simp
  next
    case False
    with Cons.prems Cons.IH[of "acc + len m"] show ?thesis by (cases rest) (auto simp: add.assoc)
  qed
qed simp

lemma sum_rev_take: "sum_list (map len (take n (rev xs))) = sum_list (map len (drop (length xs - n) xs))"
  for len :: "'a \<Rightarrow> nat"
  by (simp add: take_rev rev_map[symmetric] flip: rev_map)

text \<open>
  The split.  The messages are cut in two, older part first.  The newer part is the shortest end
  of the conversation that holds the tokens to keep, and it is never empty when such an end exists;
  when the whole conversation holds fewer tokens than are to be kept, it is empty and everything is
  summarised.
\<close>

theorem split_keeps_minimal_suffix:
  "case split_head_tail len ms keep of
     (tail, head) \<Rightarrow>
       tail @ head = ms
       \<and> (if messages_length len ms < 4 * keep then head = []
          else messages_length len head \<ge> 4 * keep
            \<and> (if ms = [] then True else head \<noteq> [])
            \<and> (if length head > 1 then messages_length len (tl head) < 4 * keep else True))"
proof (cases "split_index len keep 0 (rev ms)")
  case None
  then show ?thesis
    using split_index_None[OF None] by (cases "ms = []") (auto simp: split_head_tail_def messages_length_def rev_map[symmetric])
next
  case (Some i)
  note s = split_index_Some[OF Some]
  have i: "i < length ms" using s by simp
  have head: "4 * keep \<le> messages_length len (drop i ms)"
    using s i by (simp add: messages_length_def sum_rev_take)
  have "messages_length len (drop i ms) \<le> messages_length len ms"
    unfolding messages_length_def by (subst (2) append_take_drop_id[of i ms, symmetric]) (simp del: append_take_drop_id)
  moreover have "messages_length len (tl (drop i ms)) < 4 * keep" if "length ms - i > 1"
    using s that i by (simp add: messages_length_def sum_rev_take drop_Suc[symmetric] tl_drop drop_tl Suc_diff_Suc)
  ultimately show ?thesis using Some i head by (auto simp: split_head_tail_def)
qed

section \<open>What stays\<close>

text \<open>Every tool output has its call among the messages.\<close>

definition orphan_free :: "message list \<Rightarrow> bool" where
  "orphan_free ms =
     (case head_call_ids ms of None \<Rightarrow> False | Some ids \<Rightarrow> list_all (\<lambda>m. \<not> is_orphan ids m) ms)"

lemma move_loop_filter:
  "move_loop ids ms (h, t) = (h @ filter (\<lambda>m. \<not> is_orphan ids m) ms, t @ filter (is_orphan ids) ms)"
  by (induction ms arbitrary: h t) auto

lemma head_call_ids_filter: "head_call_ids (filter (\<lambda>m. \<not> is_orphan ids m) ms) = head_call_ids ms"
proof (induction ms)
  case (Cons m ms)
  then show ?case by (cases "head_call_ids ms") (auto simp: is_orphan_def split: message.splits option.splits)
qed simp

lemma move_orphans:
  assumes "move_orphan_tool_outputs head tail = Some (head', tail')"
  shows "orphan_free head'" and "subseq head' head" and "mset head' + mset tail' = mset head + mset tail"
    and "length head' + length tail' = length head + length tail"
proof -
  obtain ids where ids: "head_call_ids head = Some ids"
    and h: "head' = filter (\<lambda>m. \<not> is_orphan ids m) head" and t: "tail' = tail @ filter (is_orphan ids) head"
    using assms by (auto simp: move_orphan_tool_outputs_def move_loop_filter)
  show "orphan_free head'" using ids h by (simp add: orphan_free_def head_call_ids_filter list_all_iff)
  show "subseq head' head" using h by (simp add: subseq_filter_left)
  show m: "mset head' + mset tail' = mset head + mset tail"
    unfolding h t by (induction head) auto
  show "length head' + length tail' = length head + length tail"
    using arg_cong[OF m, of size] by simp
qed

lemma split_append: "split_head_tail len ms keep = (tail, head) \<Longrightarrow> tail @ head = ms"
  by (auto simp: split_head_tail_def Let_def)

text \<open>The shape of a successful summarisation.\<close>

lemma summarize_result:
  assumes "summarize guard le ps env st w = (w', Inr st')" and "\<not> sv_stop_summarize env"
  shows "(st_messages st = [] \<and> st' = st)
    \<or> (\<exists>head tail. orphan_free head \<and> subseq head (st_messages st)
         \<and> mset head + mset tail = mset (st_messages st) \<and> length head + length tail = length (st_messages st)
         \<and> st_messages st' = head
         \<and> (tail = [] \<and> st' = st\<lparr>st_messages := head, st_context := Some (clone_context (st_context st))\<rparr>
            \<or> tail \<noteq> [] \<and> st_meta st' = None
              \<and> (\<exists>s. st_context st' = Some ((slice_message_ids (length tail) (clone_context (st_context st)))\<lparr>cx_summary := s\<rparr>))))"
proof (cases "st_messages st = []")
  case True
  with assms show ?thesis by (auto simp: summarize_def)
next
  case False
  obtain tail0 head0 where split: "split_head_tail (sv_len env) (st_messages st) (sp_keep_tokens ps) = (tail0, head0)"
    by fastforce
  from assms False split obtain head tail where mv: "move_orphan_tool_outputs head0 tail0 = Some (head, tail)"
    by (auto simp: summarize_def Let_def split: option.splits)
  note m = move_orphans[OF mv]
  have app: "tail0 @ head0 = st_messages st" using split_append[OF split] .
  have sub: "subseq head (st_messages st)"
    using m(2) app by (metis list_emb_append2 subseq_order.refl subseq_order.trans)
  have ms: "mset head + mset tail = mset (st_messages st)" "length head + length tail = length (st_messages st)"
    using m(3,4) app by (simp_all flip: app add: add.commute)
  show ?thesis
    using assms False split mv m(1) sub ms
    by (intro disjI2 exI[of _ head] exI[of _ tail])
      (auto simp: summarize_def Let_def split: if_splits sum.splits option.splits prod.splits)
qed


text \<open>
  Identifiers after a summarisation.  Context identifiers still line up with the messages in
  number; and when the messages that stay are the last ones, they keep exactly their own identifiers.
\<close>

theorem summary_keeps_alignment:
  assumes "summarize guard le ps env st w = (w', Inr st')" and "\<not> sv_stop_summarize env"
    and "aligned st" and "st_context st = Some c" and "st_context st' = Some c'"
  shows "aligned st'
    \<and> (if suffix (st_messages st') (st_messages st)
       then zip (st_messages st') (cx_message_ids c')
         = drop (length (st_messages st) - length (st_messages st')) (zip (st_messages st) (cx_message_ids c))
       else True)"
proof -
  have c: "length (cx_message_ids c) = length (st_messages st)" "list_all (\<lambda>i. i \<noteq> []) (cx_message_ids c)"
    using assms(3,4) by (simp_all add: aligned_def)
  have key: "length (st_messages st') \<le> length (st_messages st) \<and> cx_message_ids c' =
      drop (length (st_messages st) - length (st_messages st')) (cx_message_ids c)"
    using summarize_result[OF assms(1,2)]
  proof (elim disjE exE conjE)
    assume "st' = st"
    then show ?thesis using assms(4,5) by simp
  next
    fix head tail
    assume "mset head + mset tail = mset (st_messages st)" "length head + length tail = length (st_messages st)"
      "st_messages st' = head" "tail = []" "st' = st\<lparr>st_messages := head, st_context := Some (clone_context (st_context st))\<rparr>"
    then have "length (st_messages st') = length (st_messages st)" "c' = c"
      using assms(4,5) by (auto simp: clone_context_def)
    then show ?thesis by simp
  next
    fix head tail s
    assume "length head + length tail = length (st_messages st)" "st_messages st' = head"
      "st_context st' = Some ((slice_message_ids (length tail) (clone_context (st_context st)))\<lparr>cx_summary := s\<rparr>)"
    then have "length tail = length (st_messages st) - length (st_messages st')"
      "cx_message_ids c' = drop (length tail) (cx_message_ids c)" "length (st_messages st') \<le> length (st_messages st)"
      using assms(4,5) by (auto simp: clone_context_def slice_message_ids_def)
    then show ?thesis by simp
  qed
  have "list_all (\<lambda>i. i \<noteq> []) (drop n (cx_message_ids c))" for n
    using c(2) by (meson in_set_dropD list_all_iff)
  then have "aligned st'" using key c(1) assms(5) by (simp add: aligned_def)
  moreover have "zip (st_messages st') (cx_message_ids c')
      = drop (length (st_messages st) - length (st_messages st')) (zip (st_messages st) (cx_message_ids c))"
    if "suffix (st_messages st') (st_messages st)"
  proof -
    from that obtain pre where pre: "st_messages st = pre @ st_messages st'" by (auto simp: suffix_def)
    then have n: "length (st_messages st) - length (st_messages st') = length pre" by simp
    show ?thesis using key unfolding n by (simp add: drop_zip pre)
  qed
  ultimately show ?thesis by simp
qed

text \<open>
  The cap is forgotten.  A summarisation that folds messages away drops the per-turn data of the
  state, so the count of injected restrictions starts again at zero and the cap on injections no
  longer bounds the turn.
\<close>

theorem summary_forgets_injections:
  assumes "summarize guard le ps env st w = (w', Inr st')" and "\<not> sv_stop_summarize env"
    and "length (st_messages st') < length (st_messages st)"
  shows "st_meta st' = None \<and> injection_count st' = 0"
  using summarize_result[OF assms(1,2)] assms(3)
  by (auto simp: injection_count_def meta_or_empty_def empty_meta_def)

definition chat_env :: summary_env where
  "chat_env = \<lparr>sv_len = (\<lambda>m. 8), sv_yaml = (\<lambda>ms. ''...''), sv_create = (\<lambda>input. Inr spoken_response),
     sv_stop_invoke = False, sv_stop_summarize = False\<rparr>"

definition chat_params :: summary_params where
  "chat_params = \<lparr>sp_model = ''m'', sp_keep_tokens = 3, sp_max_tokens = 4, sp_system_prompt = ''fold''\<rparr>"

definition echo_source :: json where
  "echo_source = JObj [(''type'', JStr ''function_call''), (''call_id'', JStr ''c1''), (''name'', JStr ''echo''),
     (''arguments'', JStr ''null'')]"

definition chat_state :: llm_state where
  "chat_state =
     \<lparr>st_messages = [human_from_text ''a'', Response [echo_source] None, tool_output_from_response ''c1'' (JStr ''ok''),
        human_from_text ''b''],
      st_summary = None,
      st_context = Some (empty_context\<lparr>cx_message_ids := [''m1'', ''m2'', ''m3'', ''m4'']\<rparr>),
      st_meta = Some (empty_meta\<lparr>me_injection_count := Some 1\<rparr>)\<rparr>"

definition chat_world :: summary_world where
  "chat_world = \<lparr>sw_store = sample_store, sw_events = []\<rparr>"

lemma chat_runs:
  "\<exists>st' c'. summarize False (\<lambda>a b. True) chat_params chat_env chat_state chat_world =
       (fst (summarize False (\<lambda>a b. True) chat_params chat_env chat_state chat_world), Inr st')
     \<and> st_context st' = Some c' \<and> length (st_messages st') < length (st_messages chat_state)"
proof -
  let ?r = "summarize False (\<lambda>a b. True) chat_params chat_env chat_state chat_world"
  have "\<not> isl (snd ?r)
      \<and> (case snd ?r of Inl e \<Rightarrow> False | Inr st' \<Rightarrow> st_context st' \<noteq> None \<and> length (st_messages st') < length (st_messages chat_state))"
    by code_simp
  then show ?thesis by (cases ?r; cases "snd ?r") auto
qed


theorem summary_keeps_alignment_witness:
  "case snd (summarize False (\<lambda>a b. True) chat_params chat_env chat_state chat_world) of
     Inl e \<Rightarrow> False | Inr st' \<Rightarrow> aligned st'"
proof -
  obtain st' c' where r: "summarize False (\<lambda>a b. True) chat_params chat_env chat_state chat_world =
      (fst (summarize False (\<lambda>a b. True) chat_params chat_env chat_state chat_world), Inr st')"
    and c': "st_context st' = Some c'"
    using chat_runs by blast
  have "\<not> sv_stop_summarize chat_env" by (simp add: chat_env_def)
  moreover have "aligned chat_state" by code_simp
  moreover have "st_context chat_state = Some (empty_context\<lparr>cx_message_ids := [''m1'', ''m2'', ''m3'', ''m4'']\<rparr>)"
    by (simp add: chat_state_def)
  ultimately have "aligned st'" using summary_keeps_alignment[OF r] c' by blast
  then show ?thesis by (subst r) simp
qed

theorem summary_forgets_injections_witness:
  "injection_count chat_state = 1
   \<and> (case snd (summarize False (\<lambda>a b. True) chat_params chat_env chat_state chat_world) of
       Inl e \<Rightarrow> False | Inr st' \<Rightarrow> injection_count st' = 0)"
proof
  show "injection_count chat_state = 1" by code_simp
  obtain st' where r: "summarize False (\<lambda>a b. True) chat_params chat_env chat_state chat_world =
      (fst (summarize False (\<lambda>a b. True) chat_params chat_env chat_state chat_world), Inr st')"
    and l: "length (st_messages st') < length (st_messages chat_state)"
    using chat_runs by blast
  have "\<not> sv_stop_summarize chat_env" by (simp add: chat_env_def)
  from summary_forgets_injections[OF r this l]
  show "case snd (summarize False (\<lambda>a b. True) chat_params chat_env chat_state chat_world) of
      Inl e \<Rightarrow> False | Inr st' \<Rightarrow> injection_count st' = 0"
    by (subst r) simp
qed

end
