(* ===== verification/Agent_Loop.thy ===== *)
theory Agent_Loop
  imports Llm_Loop Call_Tools Summarization MessagesBuffer
begin

text \<open>
  The loop of an agent run: the reducers \<open>prepareLoop\<close> of \<^verbatim>\<open>nodes/agent/agent.node.ts\<close> builds and wires,
  and the routers of \<^verbatim>\<open>llm/routers/\<close>.

  The world of the loop is everything the reducers share: the stored conversations, the context items,
  the recorded events, the message buffer and the two signals.  What comes from outside in each pass
  (the model's answer, the tools, what the signals show, messages that arrive, the clock) is one
  \<open>turn_env\<close> per pass, \<open>env n\<close> for the pass number \<open>n\<close>.  A signal is never switched off, so a
  termination that a reducer has seen stays visible.
\<close>

section \<open>World\<close>

record turn_env =
  tn_model :: model_env
  tn_tools :: tools_env
  tn_summary :: summary_env
  tn_finish :: bool
  tn_terminate :: bool
  tn_arrivals :: "buffer_message list"
  tn_arrived_at :: int
  tn_now :: int
  tn_recorded :: bool

record loop_world =
  lw_db :: conversation_db
  lw_store :: context_store
  lw_events :: "llm_event list"
  lw_execs :: "tool_event list"
  lw_summaries :: "summary_event list"
  lw_buffer :: messages_buffer
  lw_injected :: "buffer_message list"
  lw_finish :: bool
  lw_terminate :: bool
  lw_passes :: nat

datatype loop_failure =
    Summary_failed summary_error
  | Model_failed model_error
  | Tools_failed tools_error
  | Save_failed persist_error
  | Enforce_failed
  | Output_unreadable
  | Injection_not_recorded

record agent_setup =
  ag_thread :: string
  ag_node :: "string option"
  ag_model :: model_config
  ag_tools :: "tool list"
  ag_summary :: summary_params
  ag_restrict :: agent_restrictions
  ag_inject :: bool
  ag_mode :: process_buffer
  ag_guard :: bool
  ag_le :: "string \<Rightarrow> string \<Rightarrow> bool"
  ag_uuid :: "nat \<Rightarrow> string"

section \<open>Reducers\<close>

text \<open>What a pass starts with: messages that arrive while the run is busy are queued.\<close>

definition arrive :: "agent_setup \<Rightarrow> turn_env \<Rightarrow> loop_world \<Rightarrow> loop_world" where
  "arrive a e w = w\<lparr>lw_buffer := enqueue (ag_thread a) (tn_arrivals e) (tn_arrived_at e) (lw_buffer w)\<rparr>"

definition load_step :: "agent_setup \<Rightarrow> (nat \<Rightarrow> turn_env) \<Rightarrow> llm_state \<Rightarrow> loop_world \<Rightarrow> loop_world \<times> (loop_failure + llm_state)" where
  "load_step a env st w =
     (arrive a (env (lw_passes w)) w, Inr (load_invoke (lw_db w) (ag_thread a) (ag_node a) st))"

definition summary_env_of :: "bool \<Rightarrow> summary_env \<Rightarrow> summary_env" where
  "summary_env_of terminated e =
     e\<lparr>sv_stop_invoke := terminated \<or> sv_stop_invoke e,
       sv_stop_summarize := terminated \<or> sv_stop_invoke e \<or> sv_stop_summarize e\<rparr>"

definition summarize_step :: "agent_setup \<Rightarrow> (nat \<Rightarrow> turn_env) \<Rightarrow> llm_state \<Rightarrow> loop_world \<Rightarrow> loop_world \<times> (loop_failure + llm_state)" where
  "summarize_step a env st w0 =
     (let e = env (lw_passes w0);
          w = arrive a e w0;
          se = summary_env_of (lw_terminate w) (tn_summary e)
      in case summarization_invoke (ag_guard a) (ag_le a) (ag_summary a) se st
                \<lparr>sw_store = lw_store w, sw_events = lw_summaries w\<rparr> of
           (sw, r) \<Rightarrow>
             (w\<lparr>lw_store := sw_store sw, lw_summaries := sw_events sw, lw_terminate := sv_stop_summarize se\<rparr>,
              case r of Inl err \<Rightarrow> Inl (Summary_failed err) | Inr st' \<Rightarrow> Inr st'))"

definition model_env_of :: "bool \<Rightarrow> model_env \<Rightarrow> model_env" where
  "model_env_of terminated e =
     e\<lparr>mv_stop_before := terminated \<or> mv_stop_before e,
       mv_stop_after := terminated \<or> mv_stop_before e \<or> mv_stop_after e,
       mv_stop_error := terminated \<or> mv_stop_before e \<or> mv_stop_after e \<or> mv_stop_error e\<rparr>"

definition call_model_step :: "agent_setup \<Rightarrow> (nat \<Rightarrow> turn_env) \<Rightarrow> llm_state \<Rightarrow> loop_world \<Rightarrow> loop_world \<times> (loop_failure + llm_state)" where
  "call_model_step a env st w0 =
     (let e = env (lw_passes w0);
          w = arrive a e w0;
          me = model_env_of (lw_terminate w) (tn_model e)
      in case call_model_invoke (ag_guard a) (ag_le a) (ag_model a) me st
                \<lparr>rw_store = lw_store w, rw_events = lw_events w\<rparr> of
           (rw, r) \<Rightarrow>
             (w\<lparr>lw_store := rw_store rw, lw_events := rw_events rw, lw_terminate := mv_stop_error me\<rparr>,
              case r of Inl err \<Rightarrow> Inl (Model_failed err) | Inr st' \<Rightarrow> Inr st'))"

definition tools_env_of :: "bool \<Rightarrow> tools_env \<Rightarrow> tools_env" where
  "tools_env_of terminated e =
     e\<lparr>tv_stop_before := terminated \<or> tv_stop_before e,
       tv_stop_after := terminated \<or> tv_stop_before e \<or> tv_stop_after e\<rparr>"

definition call_tools_step :: "agent_setup \<Rightarrow> (nat \<Rightarrow> turn_env) \<Rightarrow> llm_state \<Rightarrow> loop_world \<Rightarrow> loop_world \<times> (loop_failure + llm_state)" where
  "call_tools_step a env st w0 =
     (let e = env (lw_passes w0);
          w = arrive a e w0;
          te = tools_env_of (lw_terminate w) (tn_tools e)
      in case call_tools_invoke (ag_guard a) (ag_le a) (Some (ag_tools a)) te st
                \<lparr>tw_store = lw_store w, tw_execs = lw_execs w\<rparr> of
           (tw, r) \<Rightarrow>
             (w\<lparr>lw_store := tw_store tw, lw_execs := tw_execs tw, lw_terminate := tv_stop_after te,
                lw_finish := lw_finish w \<or> tn_finish e\<rparr>,
              case r of Inl err \<Rightarrow> Inl (Tools_failed err) | Inr st' \<Rightarrow> Inr st'))"

definition save_step :: "agent_setup \<Rightarrow> (nat \<Rightarrow> turn_env) \<Rightarrow> llm_state \<Rightarrow> loop_world \<Rightarrow> loop_world \<times> (loop_failure + llm_state)" where
  "save_step a env st w0 =
     (let w = arrive a (env (lw_passes w0)) w0
      in case save_invoke (lw_db w) (ag_thread a) (ag_node a) st of
           (db, Inl err) \<Rightarrow> (w\<lparr>lw_db := db\<rparr>, Inl (Save_failed err))
         | (db, Inr st') \<Rightarrow> (w\<lparr>lw_db := db\<rparr>, Inr st'))"

definition enforce_step :: "agent_setup \<Rightarrow> (nat \<Rightarrow> turn_env) \<Rightarrow> llm_state \<Rightarrow> loop_world \<Rightarrow> loop_world \<times> (loop_failure + llm_state)" where
  "enforce_step a env st w0 =
     (let w = arrive a (env (lw_passes w0)) w0
      in case enforce_invoke (ag_restrict a) st of
           None \<Rightarrow> (w, Inl Enforce_failed)
         | Some st' \<Rightarrow> (w, Inr st'))"

section \<open>Routers\<close>

text \<open>Every router ends its pass; what it sees of the signals includes all that the pass saw.\<close>

definition end_pass :: "(nat \<Rightarrow> turn_env) \<Rightarrow> loop_world \<Rightarrow> loop_world" where
  "end_pass env w =
     w\<lparr>lw_terminate := lw_terminate w \<or> tn_terminate (env (lw_passes w)), lw_passes := Suc (lw_passes w)\<rparr>"

definition static_route ::
  "(nat \<Rightarrow> turn_env) \<Rightarrow> string \<Rightarrow> llm_state \<Rightarrow> loop_world \<Rightarrow> loop_world \<times> (loop_failure + llm_state \<times> string option)" where
  "static_route env next_id st w0 =
     (let w = end_pass env w0 in (w, Inr (st, if lw_terminate w then None else Some next_id)))"

definition conditional_route ::
  "(nat \<Rightarrow> turn_env) \<Rightarrow> (llm_state \<Rightarrow> loop_failure + string option) \<Rightarrow> llm_state \<Rightarrow> loop_world \<Rightarrow>
   loop_world \<times> (loop_failure + llm_state \<times> string option)" where
  "conditional_route env pick st w0 =
     (let w = end_pass env w0
      in if lw_terminate w then (w, Inr (st, None))
         else (w, case pick st of Inl e \<Rightarrow> Inl e | Inr n \<Rightarrow> Inr (st, n)))"

definition buffer_llm_message :: "string \<Rightarrow> buffer_message \<Rightarrow> message" where
  "buffer_llm_message uuid m =
     (case m of
        HumanMessage t \<Rightarrow> human_from_text t
      | SystemMessage t \<Rightarrow> system_from_text t
      | AIMessage t \<Rightarrow> ai_from_text uuid t)"

text \<open>\<open>injectBufferedMessages\<close>: the buffer is drained before the injection is recorded.\<close>

definition inject_buffered ::
  "agent_setup \<Rightarrow> turn_env \<Rightarrow> llm_state \<Rightarrow> loop_world \<Rightarrow> loop_world \<times> (loop_failure + llm_state)" where
  "inject_buffered a e st w =
     (case try_drain (ag_thread a) (ag_mode a) (tn_now e) (lw_buffer w) of
        (b, drained) \<Rightarrow>
          (let w1 = w\<lparr>lw_buffer := b\<rparr>
           in if drained = [] then (w1, Inr st)
              else if \<not> tn_recorded e then (w1, Inl Injection_not_recorded)
              else (w1\<lparr>lw_injected := lw_injected w1 @ drained\<rparr>,
                    Inr (st\<lparr>st_messages := st_messages st @ map (buffer_llm_message (ag_uuid a (lw_passes w))) drained\<rparr>))))"

definition after_tools_route ::
  "agent_setup \<Rightarrow> (nat \<Rightarrow> turn_env) \<Rightarrow> llm_state \<Rightarrow> loop_world \<Rightarrow> loop_world \<times> (loop_failure + llm_state \<times> string option)" where
  "after_tools_route a env st w0 =
     (let e = env (lw_passes w0); w = end_pass env w0
      in if lw_finish w then (w, Inr (st, None))
         else if ag_inject a then
           (case inject_buffered a e st w of
              (w1, Inl err) \<Rightarrow> (w1, Inl err)
            | (w1, Inr st1) \<Rightarrow> (w1, Inr (st1, Some ''summarize'')))
         else (w, Inr (st, Some ''summarize'')))"

definition tools_or_save :: "llm_state \<Rightarrow> loop_failure + string option" where
  "tools_or_save st =
     (case has_tool_call (last_message (st_messages st)) of
        None \<Rightarrow> Inl Output_unreadable
      | Some has_call \<Rightarrow> Inr (Some (if has_call then ''call_tools'' else ''save'')))"

definition enforce_or_end :: "agent_setup \<Rightarrow> llm_state \<Rightarrow> loop_failure + string option" where
  "enforce_or_end a st = Inr (if ar_restrict_output (ag_restrict a) then Some ''enforceTools'' else None)"

definition again_or_end :: "llm_state \<Rightarrow> loop_failure + string option" where
  "again_or_end st =
     (let injected = (me_injected (meta_or_empty st) = Some True);
          injections = (case me_injection_count (meta_or_empty st) of None \<Rightarrow> 0 | Some n \<Rightarrow> n)
      in Inr (if injected \<and> injections \<ge> 1 then Some ''summarize'' else None))"

section \<open>Wiring\<close>

definition prepare_loop ::
  "agent_setup \<Rightarrow> (nat \<Rightarrow> turn_env) \<Rightarrow> (string \<times> (llm_state, loop_world, loop_failure) reducer) list" where
  "prepare_loop a env =
     [(''load'', \<lparr>rd_invoke = load_step a env, rd_next = Some (static_route env ''summarize'')\<rparr>),
      (''summarize'', \<lparr>rd_invoke = summarize_step a env, rd_next = Some (static_route env ''call_model'')\<rparr>),
      (''call_model'', \<lparr>rd_invoke = call_model_step a env, rd_next = Some (conditional_route env tools_or_save)\<rparr>),
      (''call_tools'', \<lparr>rd_invoke = call_tools_step a env, rd_next = Some (static_route env ''tools_save'')\<rparr>),
      (''tools_save'', \<lparr>rd_invoke = save_step a env, rd_next = Some (after_tools_route a env)\<rparr>),
      (''save'', \<lparr>rd_invoke = save_step a env, rd_next = Some (conditional_route env (enforce_or_end a))\<rparr>)]
     @ (if ar_restrict_output (ag_restrict a)
        then [(''enforceTools'', \<lparr>rd_invoke = enforce_step a env, rd_next = Some (conditional_route env again_or_end)\<rparr>)]
        else [])"

definition agent_loop ::
  "nat \<Rightarrow> agent_setup \<Rightarrow> (nat \<Rightarrow> turn_env) \<Rightarrow> llm_state \<Rightarrow> loop_world \<Rightarrow>
   (loop_world \<times> (loop_failure loop_error + llm_state)) option" where
  "agent_loop fuel a env st w = loop_invoke fuel (prepare_loop a env) ''load'' st w"

definition memory_provider :: "placement option \<Rightarrow> json option option \<Rightarrow> memory_result" where
  "memory_provider place connector =
     (case place of
        None \<Rightarrow> None
      | Some p \<Rightarrow>
          (case connector of
             None \<Rightarrow> None
           | Some rendered \<Rightarrow> (case rendered of None \<Rightarrow> None | Some m \<Rightarrow> Some (Some m, p))))"

section \<open>Every pass keeps the wiring's contract\<close>

fun is_response :: "message \<Rightarrow> bool" where
  "is_response (Response out usage) = True"
| "is_response _ = False"

fun is_tool_output :: "message \<Rightarrow> bool" where
  "is_tool_output (Tool_call_output j) = True"
| "is_tool_output _ = False"

definition ends_with :: "(message \<Rightarrow> bool) \<Rightarrow> llm_state \<Rightarrow> bool" where
  "ends_with P st = (case last_message (st_messages st) of None \<Rightarrow> False | Some m \<Rightarrow> P m)"

definition final_answer :: "llm_state \<Rightarrow> bool" where
  "final_answer st \<longleftrightarrow> ends_with is_response st \<and> has_tool_call (last_message (st_messages st)) = Some False"

definition saved_in :: "conversation_db \<Rightarrow> agent_setup \<Rightarrow> llm_state \<Rightarrow> bool" where
  "saved_in db a st =
     (case map_of (cv_rows db) (ag_thread a, agent_key (ag_node a)) of
        Some (Some plain) \<Rightarrow> serialize_state st = Inr plain
      | _ \<Rightarrow> False)"

definition loop_inv :: "agent_setup \<Rightarrow> string \<Rightarrow> llm_state \<Rightarrow> loop_world \<Rightarrow> bool" where
  "loop_inv a i st w \<longleftrightarrow>
     0 \<le> injection_count st
     \<and> (i = ''load'' \<or> i = ''summarize'' \<or> i = ''call_model''
       \<or> i = ''call_tools'' \<and> has_tool_call (last_message (st_messages st)) = Some True
       \<or> i = ''tools_save'' \<and> ends_with is_tool_output st
       \<or> i = ''save'' \<and> final_answer st
       \<or> i = ''enforceTools'' \<and> ar_restrict_output (ag_restrict a) \<and> final_answer st \<and> saved_in (lw_db w) a st)"

definition loop_post :: "agent_setup \<Rightarrow> llm_state \<Rightarrow> loop_world \<Rightarrow> bool" where
  "loop_post a st w \<longleftrightarrow>
     lw_terminate w
     \<or> (final_answer st \<or> lw_finish w \<and> ends_with is_tool_output st) \<and> saved_in (lw_db w) a st"

lemma end_pass_fields [simp]:
  "lw_db (end_pass env w) = lw_db w" "lw_finish (end_pass env w) = lw_finish w"
  "lw_passes (end_pass env w) = Suc (lw_passes w)" "lw_buffer (end_pass env w) = lw_buffer w"
  "lw_terminate (end_pass env w) = (lw_terminate w \<or> tn_terminate (env (lw_passes w)))"
  by (simp_all add: end_pass_def)

lemma arrive_fields [simp]:
  "lw_db (arrive a e w) = lw_db w" "lw_finish (arrive a e w) = lw_finish w"
  "lw_passes (arrive a e w) = lw_passes w" "lw_terminate (arrive a e w) = lw_terminate w"
  by (simp_all add: arrive_def)

lemma last_message_append [simp]: "last_message (xs @ [x]) = Some x"
  by (simp add: last_message_def)

lemma count_load: "injection_count (load_invoke db thread node st) = injection_count st"
  by (auto simp: load_invoke_def injection_count_def meta_or_empty_def Let_def split: sum.splits option.splits)

lemma count_summarization:
  assumes "summarization_invoke guard le ps env st w = (w', Inr st')" and "0 \<le> injection_count st"
  shows "0 \<le> injection_count st'"
proof -
  consider "st' = st" | "\<not> sv_stop_summarize env" "summarize guard le ps env st w = (w', Inr st')"
    using assms(1) by (auto simp: summarization_invoke_def summarize_def split: if_splits)
  then show ?thesis
  proof cases
    case 2
    have "st_meta st' = st_meta st \<or> st_meta st' = None"
      using summarize_result[OF 2(2,1)]
    proof (elim disjE exE conjE)
      fix head
      assume "st' = st\<lparr>st_messages := head, st_context := Some (clone_context (st_context st))\<rparr>"
      then show ?thesis by simp
    qed simp_all
    with assms(2) show ?thesis by (auto simp: injection_count_def meta_or_empty_def empty_meta_def)
  qed (use assms(2) in simp)
qed

lemma call_model_result:
  assumes "call_model_invoke guard le cfg env st w = (w', Inr st')"
  shows "st' = st \<and> (mv_stop_before env \<or> mv_stop_after env \<or> mv_stop_error env)
    \<or> (\<exists>out usage. st_messages st' = st_messages st @ [Response out usage]) \<and> injection_count st' = injection_count st"
proof -
  have ans: "(\<exists>out usage. st_messages t = st_messages st @ [Response out usage]) \<and> injection_count t = injection_count st"
    if "answer_model guard le parse c event m st v = (v', Inr t)" for parse c event m v v' t
    using that
    by (auto simp: answer_model_def Let_def injection_count_def meta_or_empty_def
        split: message.splits option.splits prod.splits sum.splits list.splits)
  show ?thesis
    using assms
    by (auto simp: call_model_invoke_def Let_def ans split: if_splits sum.splits prod.splits)
qed

lemma count_reset: "st_meta t = Some (reset_injections u) \<Longrightarrow> injection_count t = 0"
  by (simp add: injection_count_def meta_or_empty_def reset_injections_def)

lemma call_tools_result:
  assumes "call_tools_invoke guard le (Some ts) env st w = (w', Inr st')"
    and "filter_tool_calls (st_messages st) = Some calls" and "\<not> tv_stop_before env" and "\<not> tv_stop_after env"
  shows "\<exists>outs. st_messages st' = st_messages st @ outs \<and> answers_calls outs calls \<and> injection_count st' = 0"
proof -
  define event where "event = (case me_last_event (meta_or_empty st) of None \<Rightarrow> [] | Some e \<Rightarrow> e)"
  obtain execs r where run: "run_tool_calls env event (create_tools_map ts) calls (tw_execs w) = (execs, r)" by fastforce
  then obtain outs where "r = Some outs" "answers_calls outs calls"
    using run_tool_calls_answers[OF run] by blast
  then show ?thesis
    using assms run
    by (auto simp: call_tools_invoke_def event_def[symmetric] Let_def count_reset split: if_splits prod.splits sum.splits)
qed

lemma call_tools_stopped:
  assumes "call_tools_invoke guard le ts env st w = (w', Inr st')" and "0 \<le> injection_count st"
  shows "0 \<le> injection_count st'"
  using assms
  by (auto simp: call_tools_invoke_def Let_def count_reset split: if_splits prod.splits sum.splits option.splits)

lemma answers_end:
  assumes "answers_calls outs calls" and "calls \<noteq> []"
  shows "ends_with is_tool_output (st\<lparr>st_messages := ms @ outs\<rparr>)"
proof -
  from assms have "outs \<noteq> []" by (auto simp: answers_calls_def)
  then obtain os m where outs: "outs = os @ [m]" by (cases outs rule: rev_cases) auto
  from assms(1) obtain c payload where "m = tool_output_from_response c payload"
    by (auto simp: answers_calls_def outs list_all2_append1 list_all2_Cons1)
  then show ?thesis by (simp add: outs ends_with_def last_message_def tool_output_from_response_def)
qed

lemma has_call_filter:
  "has_tool_call (last_message ms) = Some True \<Longrightarrow> \<exists>calls. filter_tool_calls ms = Some calls \<and> calls \<noteq> []"
  by (auto simp: has_tool_call_def filter_tool_calls_def split: option.splits message.splits)

lemma saved_in_save:
  assumes "save_invoke db thread node st = (db', Inr st')" and "ag_thread a = thread" and "ag_node a = node"
  shows "st' = st \<and> saved_in db' a st"
  using assms
  by (auto simp: save_invoke_def repo_upsert_def saved_in_def split: sum.splits if_splits)

lemma saved_in_meta: "saved_in db a (st\<lparr>st_meta := m\<rparr>) = saved_in db a st"
proof -
  have "serialize_state (st\<lparr>st_meta := m\<rparr>) = serialize_state st"
    by (simp add: serialize_state_def cong: sum.case_cong)
  then show ?thesis by (simp add: saved_in_def cong: option.case_cong)
qed


definition pass_ok :: "agent_setup \<Rightarrow> (loop_world \<times> (loop_failure loop_error + llm_state)) + (string \<times> llm_state \<times> loop_world) \<Rightarrow> bool" where
  "pass_ok a p =
     (case p of
        Inl (w', Inl e) \<Rightarrow> (case e of Thrown e' \<Rightarrow> True | _ \<Rightarrow> False)
      | Inl (w', Inr st') \<Rightarrow> loop_post a st' w'
      | Inr (j, st', w') \<Rightarrow> loop_inv a j st' w')"

lemma pass_ok_simps [simp]:
  "pass_ok a (Inl (w', Inl (Thrown e)))" "pass_ok a (Inl (w', Inr st')) = loop_post a st' w'"
  "pass_ok a (Inr (j, st', w')) = loop_inv a j st' w'"
  by (simp_all add: pass_ok_def)

lemma wired:
  "map_of (prepare_loop a env) ''load'' = Some \<lparr>rd_invoke = load_step a env, rd_next = Some (static_route env ''summarize'')\<rparr>"
  "map_of (prepare_loop a env) ''summarize'' =
     Some \<lparr>rd_invoke = summarize_step a env, rd_next = Some (static_route env ''call_model'')\<rparr>"
  "map_of (prepare_loop a env) ''call_model'' =
     Some \<lparr>rd_invoke = call_model_step a env, rd_next = Some (conditional_route env tools_or_save)\<rparr>"
  "map_of (prepare_loop a env) ''call_tools'' =
     Some \<lparr>rd_invoke = call_tools_step a env, rd_next = Some (static_route env ''tools_save'')\<rparr>"
  "map_of (prepare_loop a env) ''tools_save'' = Some \<lparr>rd_invoke = save_step a env, rd_next = Some (after_tools_route a env)\<rparr>"
  "map_of (prepare_loop a env) ''save'' =
     Some \<lparr>rd_invoke = save_step a env, rd_next = Some (conditional_route env (enforce_or_end a))\<rparr>"
  "ar_restrict_output (ag_restrict a) \<Longrightarrow> map_of (prepare_loop a env) ''enforceTools'' =
     Some \<lparr>rd_invoke = enforce_step a env, rd_next = Some (conditional_route env again_or_end)\<rparr>"
  by (simp_all add: prepare_loop_def)

lemma carries_load: "loop_inv a ''load'' st w \<Longrightarrow> pass_ok a (loop_pass (prepare_loop a env) ''load'' st w)"
  by (rule loop_pass_routed[OF wired(1)])
    (auto simp: static_route_def load_step_def loop_inv_def loop_post_def Let_def count_load wired split: if_splits)

lemma carries_summarize: "loop_inv a ''summarize'' st w \<Longrightarrow> pass_ok a (loop_pass (prepare_loop a env) ''summarize'' st w)"
  by (rule loop_pass_routed[OF wired(2)])
    (auto simp: static_route_def summarize_step_def loop_inv_def loop_post_def Let_def wired
      dest: count_summarization split: if_splits prod.splits sum.splits)

lemma has_call_response: "has_tool_call (Some (Response out usage)) \<noteq> None \<Longrightarrow>
    has_tool_call (Some (Response out usage)) \<noteq> Some True \<Longrightarrow> has_tool_call (Some (Response out usage)) = Some False"
  by (cases "has_tool_call (Some (Response out usage))") auto

lemma carries_call_model:
  assumes "loop_inv a ''call_model'' st w"
  shows "pass_ok a (loop_pass (prepare_loop a env) ''call_model'' st w)"
proof (rule loop_pass_routed[OF wired(3)])
  have step: "lw_terminate w1 \<and> st1 = st \<or> 0 \<le> injection_count st1 \<and> ends_with is_response st1"
    if "call_model_step a env st w = (w1, Inr st1)" for w1 st1
    using that assms
    by (auto simp: call_model_step_def Let_def loop_inv_def ends_with_def model_env_of_def
        dest!: call_model_result split: prod.splits sum.splits)
  {
    fix w1 st1 w2 st2 
    assume "rd_invoke \<lparr>rd_invoke = call_model_step a env, rd_next = Some (conditional_route env tools_or_save)\<rparr> st w = (w1, Inr st1)"
      "conditional_route env tools_or_save st1 w1 = (w2, Inr (st2, None))"
    then show "pass_ok a (Inl (w2, Inr st2))"
      by (auto simp: conditional_route_def Let_def tools_or_save_def loop_post_def split: if_splits option.splits)
  next
    fix w1 st1 w2 st2 j
    assume 1: "rd_invoke \<lparr>rd_invoke = call_model_step a env, rd_next = Some (conditional_route env tools_or_save)\<rparr> st w = (w1, Inr st1)"
      and 2: "conditional_route env tools_or_save st1 w1 = (w2, Inr (st2, Some j))"
    from 2 have "\<not> lw_terminate w1" "st2 = st1"
      by (auto simp: conditional_route_def Let_def tools_or_save_def split: if_splits option.splits)
    with step[of w1 st1] 1 2
    show "j \<noteq> [] \<and> map_of (prepare_loop a env) j \<noteq> None \<and> pass_ok a (Inr (j, st2, w2))"
      by (auto simp: conditional_route_def Let_def tools_or_save_def loop_inv_def final_answer_def wired
          split: if_splits option.splits)
  }
qed simp_all

lemma carries_call_tools:
  assumes "loop_inv a ''call_tools'' st w"
  shows "pass_ok a (loop_pass (prepare_loop a env) ''call_tools'' st w)"
proof (rule loop_pass_routed[OF wired(4)])
  from assms obtain calls where calls: "filter_tool_calls (st_messages st) = Some calls" "calls \<noteq> []"
    and count: "0 \<le> injection_count st"
    using has_call_filter by (auto simp: loop_inv_def)
  have step: "lw_terminate w1 \<or> 0 \<le> injection_count st1 \<and> ends_with is_tool_output st1"
    if one: "call_tools_step a env st w = (w1, Inr st1)" for w1 st1
  proof -
    define te where "te = tools_env_of (lw_terminate w) (tn_tools (env (lw_passes w)))"
    from one obtain tw v where inv: "call_tools_invoke (ag_guard a) (ag_le a) (Some (ag_tools a)) te st v = (tw, Inr st1)"
      and w1: "lw_terminate w1 = tv_stop_after te"
      by (auto simp: call_tools_step_def Let_def te_def split: prod.splits sum.splits)
    show ?thesis
    proof (cases "tv_stop_after te")
      case False
      then have "\<not> tv_stop_before te" by (auto simp: te_def tools_env_of_def)
      from call_tools_result[OF inv calls(1) this False] obtain outs where
        o: "st_messages st1 = st_messages st @ outs" "answers_calls outs calls" "injection_count st1 = 0" by blast
      have "ends_with is_tool_output st1"
        using answers_end[OF o(2) calls(2), where st = st1 and ms = "st_messages st"] o(1) by (simp add: ends_with_def)
      with o(3) show ?thesis by simp
    qed (simp add: w1)
  qed
  {
    fix w1 st1 w2 st2 
    assume "static_route env ''tools_save'' st1 w1 = (w2, Inr (st2, None))"
    then show "pass_ok a (Inl (w2, Inr st2))"
      by (auto simp: static_route_def Let_def loop_post_def split: if_splits)
  next
    fix w1 st1 w2 st2 j
    assume 1: "rd_invoke \<lparr>rd_invoke = call_tools_step a env, rd_next = Some (static_route env ''tools_save'')\<rparr> st w = (w1, Inr st1)"
      and 2: "static_route env ''tools_save'' st1 w1 = (w2, Inr (st2, Some j))"
    with step[of w1 st1] show "j \<noteq> [] \<and> map_of (prepare_loop a env) j \<noteq> None \<and> pass_ok a (Inr (j, st2, w2))"
      by (auto simp: static_route_def Let_def loop_inv_def wired split: if_splits)
  }
qed simp_all

lemma save_step_result:
  "save_step a env st w = (w1, Inr st1) \<Longrightarrow>
     st1 = st \<and> saved_in (lw_db w1) a st \<and> lw_finish w1 = lw_finish w"
  by (auto simp: save_step_def Let_def dest: saved_in_save split: prod.splits sum.splits)

lemma inject_buffered_count:
  "inject_buffered a e st w = (w', Inr st') \<Longrightarrow> injection_count st' = injection_count st"
  by (auto simp: inject_buffered_def Let_def injection_count_def meta_or_empty_def split: prod.splits if_splits)

lemma carries_tools_save:
  "loop_inv a ''tools_save'' st w \<Longrightarrow> pass_ok a (loop_pass (prepare_loop a env) ''tools_save'' st w)"
  by (rule loop_pass_routed[OF wired(5)])
    (auto simp: after_tools_route_def loop_inv_def loop_post_def Let_def wired
      dest!: save_step_result inject_buffered_count split: if_splits prod.splits sum.splits)

lemma carries_save:
  "loop_inv a ''save'' st w \<Longrightarrow> pass_ok a (loop_pass (prepare_loop a env) ''save'' st w)"
  by (rule loop_pass_routed[OF wired(6)])
    (auto simp: conditional_route_def enforce_or_end_def loop_inv_def loop_post_def Let_def wired
      dest!: save_step_result split: if_splits)

lemma enforce_result:
  assumes "enforce_invoke cfg st = Some st'" and "0 \<le> injection_count st"
  shows "0 \<le> injection_count st' \<and>
    ((\<exists>m. st' = st\<lparr>st_meta := m\<rparr>) \<and> me_injected (meta_or_empty st') = Some False
      \<or> me_injected (meta_or_empty st') = Some True \<and> 1 \<le> injection_count st')"
  using assms
  by (auto simp: enforce_invoke_def Let_def mark_not_injected_def injection_count_def meta_or_empty_def empty_meta_def
      split: option.splits if_splits)

lemma again_or_end_cases:
  "again_or_end st = Inr n \<Longrightarrow>
     n = (if me_injected (meta_or_empty st) = Some True \<and> 1 \<le> injection_count st then Some ''summarize'' else None)"
  by (auto simp: again_or_end_def injection_count_def Let_def)

lemma final_answer_meta [simp]: "final_answer (st\<lparr>st_meta := m\<rparr>) = final_answer st"
  by (simp add: final_answer_def ends_with_def)

lemma carries_enforce:
  assumes "loop_inv a ''enforceTools'' st w"
  shows "pass_ok a (loop_pass (prepare_loop a env) ''enforceTools'' st w)"
proof -
  from assms have inv: "ar_restrict_output (ag_restrict a)" "final_answer st" "saved_in (lw_db w) a st"
    "0 \<le> injection_count st" by (auto simp: loop_inv_def)
  have step: "lw_db w1 = lw_db w \<and> 0 \<le> injection_count st1 \<and>
      (final_answer st1 \<and> saved_in (lw_db w1) a st1 \<or> me_injected (meta_or_empty st1) = Some True \<and> 1 \<le> injection_count st1)"
    if "enforce_step a env st w = (w1, Inr st1)" for w1 st1
  proof -
    from that have "enforce_invoke (ag_restrict a) st = Some st1" "lw_db w1 = lw_db w"
      by (auto simp: enforce_step_def Let_def split: option.splits)
    with enforce_result[OF this(1) inv(4)] inv(2,3) show ?thesis by (auto simp: saved_in_meta)
  qed
  show ?thesis
  proof (rule loop_pass_routed[OF wired(7)[OF inv(1)]])
    fix w1 st1 w2 st2
    assume 1: "rd_invoke \<lparr>rd_invoke = enforce_step a env, rd_next = Some (conditional_route env again_or_end)\<rparr> st w = (w1, Inr st1)"
      and 2: "conditional_route env again_or_end st1 w1 = (w2, Inr (st2, None))"
    from 2 have "lw_terminate w2 \<or> again_or_end st1 = Inr None \<and> st2 = st1 \<and> lw_db w2 = lw_db w1"
      by (auto simp: conditional_route_def Let_def split: if_splits sum.splits)
    then show "pass_ok a (Inl (w2, Inr st2))"
      using step[of w1 st1] 1 by (auto simp: loop_post_def dest!: again_or_end_cases split: if_splits)
  next
    fix w1 st1 w2 st2 j
    assume 1: "rd_invoke \<lparr>rd_invoke = enforce_step a env, rd_next = Some (conditional_route env again_or_end)\<rparr> st w = (w1, Inr st1)"
      and 2: "conditional_route env again_or_end st1 w1 = (w2, Inr (st2, Some j))"
    from 2 have "again_or_end st1 = Inr (Some j) \<and> st2 = st1"
      by (auto simp: conditional_route_def Let_def split: if_splits sum.splits)
    then show "j \<noteq> [] \<and> map_of (prepare_loop a env) j \<noteq> None \<and> pass_ok a (Inr (j, st2, w2))"
      using step[of w1 st1] 1 by (auto simp: loop_inv_def wired dest!: again_or_end_cases split: if_splits)
  qed simp_all
qed

interpretation turn: loop_contract "prepare_loop a env" "loop_inv a" "loop_post a" for a env
proof unfold_locales
  fix i st w
  assume "loop_inv a i st w"
  moreover have "pass_ok a (loop_pass (prepare_loop a env) i st w)"
    using calculation carries_load carries_summarize carries_call_model carries_call_tools carries_tools_save
      carries_save carries_enforce
    by (auto simp: loop_inv_def)
  ultimately show "case loop_pass (prepare_loop a env) i st w of
      Inl (w', Inl e) \<Rightarrow> (case e of Thrown e' \<Rightarrow> True | _ \<Rightarrow> False)
    | Inl (w', Inr st') \<Rightarrow> loop_post a st' w' | Inr (j, st', w') \<Rightarrow> loop_inv a j st' w'"
    by (simp add: pass_ok_def)
qed

section \<open>A turn and its end\<close>

lemma turn_contract:
  assumes "agent_loop fuel a env st w = Some (w', r)" and "0 \<le> injection_count st"
  shows "case r of Inl e \<Rightarrow> (case e of Thrown e' \<Rightarrow> True | _ \<Rightarrow> False) | Inr st' \<Rightarrow> loop_post a st' w'"
  using turn.loop_result[OF assms(1)[unfolded agent_loop_def]] assms(2) by (simp add: loop_inv_def)

text \<open>
  C2. How a turn ends.  The wiring never sends the loop to a reducer that is not there, with or without
  enforcement; and a turn that returns has been terminated, or ends with the model's answer without an
  open tool call, or, the finish signal being set, with the output of a tool.  In those two cases the
  state it returns is the one the database holds.
\<close>

theorem turn_ends_with_answer:
  assumes "agent_loop fuel a env st w = Some (w', r)" and "0 \<le> injection_count st"
  shows "case r of
      Inl e \<Rightarrow> (case e of Thrown e' \<Rightarrow> True | _ \<Rightarrow> False)
    | Inr st' \<Rightarrow>
        if lw_terminate w' then True
        else (final_answer st' \<or> lw_finish w' \<and> ends_with is_tool_output st') \<and> saved_in (lw_db w') a st'"
  using turn_contract[OF assms] by (auto simp: loop_post_def split: sum.splits)

definition turn_setup :: agent_setup where
  "turn_setup =
     \<lparr>ag_thread = ''t'', ag_node = Some ''agent-1'', ag_model = sample_model, ag_tools = [echo_tool],
      ag_summary = chat_params\<lparr>sp_keep_tokens := 0, sp_max_tokens := 100\<rparr>, ag_restrict = capped, ag_inject = True,
      ag_mode = AllTogether, ag_guard = False, ag_le = (\<lambda>x y. True), ag_uuid = (\<lambda>n. ''uuid'')\<rparr>"

definition tool_response :: json where
  "tool_response = JObj [(''output'', JArr [echo_call])]"

text \<open>The model calls a tool in its first answer and speaks in its second and third.\<close>

definition turn_sample :: "nat \<Rightarrow> turn_env" where
  "turn_sample n =
     \<lparr>tn_model = sample_env\<lparr>mv_create := (\<lambda>input. Inr (if n = 2 then tool_response else spoken_response))\<rparr>,
      tn_tools = echo_env, tn_summary = chat_env, tn_finish = False, tn_terminate = False,
      tn_arrivals = (if n = 3 then [HumanMessage ''more''] else []), tn_arrived_at = 0, tn_now = 10, tn_recorded = True\<rparr>"

definition turn_world :: loop_world where
  "turn_world =
     \<lparr>lw_db = sample_conversations, lw_store = sample_store, lw_events = [], lw_execs = [], lw_summaries = [],
      lw_buffer = new_buffer None, lw_injected = [], lw_finish = False, lw_terminate = False, lw_passes = 0\<rparr>"

definition turn_start :: llm_state where
  "turn_start =
     \<lparr>st_messages = [human_from_text ''hi''], st_summary = None,
      st_context = Some (empty_context\<lparr>cx_pending := None\<rparr>), st_meta = None\<rparr>"

theorem turn_ends_with_answer_witness:
  "case agent_loop 20 turn_setup turn_sample turn_start turn_world of
     None \<Rightarrow> False
   | Some (w', r) \<Rightarrow> (case r of Inl e \<Rightarrow> False | Inr st' \<Rightarrow> saved_in (lw_db w') turn_setup st' \<and> \<not> lw_terminate w')"
proof -
  let ?r = "agent_loop 20 turn_setup turn_sample turn_start turn_world"
  have "case ?r of None \<Rightarrow> False | Some (w, r) \<Rightarrow> \<not> isl r \<and> \<not> lw_terminate w" by code_simp
  then obtain w' st' where r: "?r = Some (w', Inr st')" and "\<not> lw_terminate w'"
    by (auto split: option.splits prod.splits simp: isl_def) (metis sum.exhaust)
  moreover have "0 \<le> injection_count turn_start" by code_simp
  ultimately show ?thesis using turn_ends_with_answer[OF r] by (simp add: r)
qed

section \<open>Termination\<close>

text \<open>The outside world, with the termination of the run requested during pass \<open>n\<close>.\<close>

definition terminate_at :: "nat \<Rightarrow> (nat \<Rightarrow> turn_env) \<Rightarrow> nat \<Rightarrow> turn_env" where
  "terminate_at n env = env(n := (env n)\<lparr>tn_terminate := True\<rparr>)"

lemma step_clock:
  "load_step a env st w = (w1, r1) \<Longrightarrow> lw_passes w1 = lw_passes w \<and> (lw_terminate w \<longrightarrow> lw_terminate w1)"
  "summarize_step a env st w = (w1, r1) \<Longrightarrow> lw_passes w1 = lw_passes w \<and> (lw_terminate w \<longrightarrow> lw_terminate w1)"
  "call_model_step a env st w = (w1, r1) \<Longrightarrow> lw_passes w1 = lw_passes w \<and> (lw_terminate w \<longrightarrow> lw_terminate w1)"
  "call_tools_step a env st w = (w1, r1) \<Longrightarrow> lw_passes w1 = lw_passes w \<and> (lw_terminate w \<longrightarrow> lw_terminate w1)"
  "save_step a env st w = (w1, r1) \<Longrightarrow> lw_passes w1 = lw_passes w \<and> (lw_terminate w \<longrightarrow> lw_terminate w1)"
  "enforce_step a env st w = (w1, r1) \<Longrightarrow> lw_passes w1 = lw_passes w \<and> (lw_terminate w \<longrightarrow> lw_terminate w1)"
  by (auto simp: load_step_def summarize_step_def call_model_step_def call_tools_step_def save_step_def enforce_step_def
      Let_def summary_env_of_def model_env_of_def tools_env_of_def split: prod.splits sum.splits option.splits)

definition ticked :: "(nat \<Rightarrow> turn_env) \<Rightarrow> loop_world \<Rightarrow> loop_world \<Rightarrow> bool" where
  "ticked env w w' \<longleftrightarrow>
     lw_passes w' = Suc (lw_passes w) \<and> (lw_terminate w \<or> tn_terminate (env (lw_passes w)) \<longrightarrow> lw_terminate w')"

lemma ticked_end_pass:
  "lw_passes w1 = lw_passes w \<and> (lw_terminate w \<longrightarrow> lw_terminate w1) \<Longrightarrow> ticked env w (end_pass env w1)"
  by (auto simp: ticked_def)

lemma route_goes_on:
  "static_route env j0 st1 w1 = (w2, Inr (st2, Some j)) \<Longrightarrow> w2 = end_pass env w1 \<and> \<not> lw_terminate w2"
  "conditional_route env pick st1 w1 = (w2, Inr (st2, Some j)) \<Longrightarrow> w2 = end_pass env w1 \<and> \<not> lw_terminate w2"
  by (auto simp: static_route_def conditional_route_def Let_def split: if_splits sum.splits)

lemma after_tools_goes_on:
  "after_tools_route a env st1 w1 = (w2, Inr (st2, Some j)) \<Longrightarrow>
     j = ''summarize'' \<and> lw_passes w2 = lw_passes (end_pass env w1) \<and> lw_terminate w2 = lw_terminate (end_pass env w1)"
  by (auto simp: after_tools_route_def inject_buffered_def Let_def split: if_splits prod.splits sum.splits)

lemma wired_cases:
  assumes "map_of (prepare_loop a env) i = Some r"
  obtains f j0 where "r = \<lparr>rd_invoke = f, rd_next = Some (static_route env j0)\<rparr>"
      "\<And>st w w1 r1. f st w = (w1, r1) \<Longrightarrow> lw_passes w1 = lw_passes w \<and> (lw_terminate w \<longrightarrow> lw_terminate w1)"
  | f pick where "r = \<lparr>rd_invoke = f, rd_next = Some (conditional_route env pick)\<rparr>"
      "\<And>st w w1 r1. f st w = (w1, r1) \<Longrightarrow> lw_passes w1 = lw_passes w \<and> (lw_terminate w \<longrightarrow> lw_terminate w1)"
  | "i = ''tools_save''" "r = \<lparr>rd_invoke = save_step a env, rd_next = Some (after_tools_route a env)\<rparr>"
  using assms step_clock unfolding prepare_loop_def by (auto split: if_splits)

lemma pass_goes_on:
  assumes "loop_pass (prepare_loop a env) i st w = Inr (j, st', w')"
  shows "ticked env w w' \<and> (if lw_terminate w' then i = ''tools_save'' \<and> j = ''summarize'' else True)"
proof -
  from assms obtain r route w1 st1 where
    r: "map_of (prepare_loop a env) i = Some r" "rd_invoke r st w = (w1, Inr st1)" "rd_next r = Some route"
    "route st1 w1 = (w', Inr (st', Some j))"
    by (auto simp: loop_pass_def split: if_splits option.splits prod.splits sum.splits)
  from r(1) show ?thesis
  proof (cases rule: wired_cases)
    case (1 f j0)
    with r route_goes_on(1)[of env j0 st1 w1 w' st' j] show ?thesis by (auto intro: ticked_end_pass)
  next
    case (2 f pick)
    with r route_goes_on(2)[of env pick st1 w1 w' st' j] show ?thesis by (auto intro: ticked_end_pass)
  next
    case 3
    with r step_clock(5)[of a env st w w1] after_tools_goes_on[of a env st1 w1 w' st' j]
    show ?thesis by (auto simp: ticked_def)
  qed
qed

definition passes_left :: "nat \<Rightarrow> string \<Rightarrow> llm_state \<Rightarrow> loop_world \<Rightarrow> nat" where
  "passes_left n i st w =
     (if lw_terminate w then (if i = ''tools_save'' then 1 else 0) else 2 + (n - lw_passes w))"

interpretation terminating: loop_progress "prepare_loop a (terminate_at n env)"
    "\<lambda>i st w. lw_terminate w \<or> lw_passes w \<le> n" "passes_left n" for a n env
proof unfold_locales
  fix i st w j st' w'
  assume "lw_terminate w \<or> lw_passes w \<le> n"
    and "loop_pass (prepare_loop a (terminate_at n env)) i st w = Inr (j, st', w')"
  with pass_goes_on[OF this(2)]
  show "(lw_terminate w' \<or> lw_passes w' \<le> n) \<and> passes_left n j st' w' < passes_left n i st w"
    by (cases "lw_passes w = n") (auto simp: ticked_def terminate_at_def passes_left_def split: if_splits)
qed

text \<open>
  C10. Termination is heeded.  Whatever the model answers and the tools do, a turn in which termination is
  requested during one of its passes ends at most two passes later.
\<close>

theorem termination_is_heeded:
  "agent_loop (n + 3) a (terminate_at (lw_passes w + n) env) st w \<noteq> None"
  unfolding agent_loop_def by (rule terminating.loop_ends) (auto simp: passes_left_def)

section \<open>Messages that arrive during a turn\<close>

text \<open>
  What an injection takes and gives.  The messages it takes from the buffer are the oldest of the
  thread, in order, and when it succeeds they are recorded and stand at the end of the conversation.
  When recording them fails they are gone from the buffer and from the conversation alike.
\<close>

theorem injection_takes_oldest:
  "case inject_buffered a e st w of
     (w', r) \<Rightarrow>
       \<exists>taken. thread_messages (lw_buffer w) (ag_thread a) = taken @ thread_messages (lw_buffer w') (ag_thread a)
         \<and> (case r of
              Inl err \<Rightarrow> err = Injection_not_recorded \<and> taken \<noteq> [] \<and> lw_injected w' = lw_injected w
            | Inr st' \<Rightarrow> lw_injected w' = lw_injected w @ taken
                \<and> (\<exists>uuid. st' = st\<lparr>st_messages := st_messages st @ map (buffer_llm_message uuid) taken\<rparr>))"
proof -
  obtain b drained where d: "try_drain (ag_thread a) (ag_mode a) (tn_now e) (lw_buffer w) = (b, drained)" by fastforce
  then have "thread_messages (lw_buffer w) (ag_thread a) = drained @ thread_messages b (ag_thread a)"
    using buffer.items_take[of "ag_thread a" "(ag_mode a, tn_now e)"] by simp
  then show ?thesis using d by (auto simp: inject_buffered_def Let_def)
qed

end
