(* ===== verification/Agent_Node.thy ===== *)
theory Agent_Node
  imports Agent_Loop
begin

text \<open>
  Running an agent, \<^verbatim>\<open>nodes/agent/agent.node.ts\<close> with \<^verbatim>\<open>agents/run-signals.service.ts\<close>: the
  effective configuration, one run from \<open>beginRunThread\<close> to \<open>completeRun\<close> with its error path and the
  automatic reply, and the node that starts runs, queues messages for busy threads and starts the next
  run from the queue.

  Services outside the file (persistence, transport, the construction of reducers) are the replies of
  \<open>run_replies\<close>; what a run tells them is a list of effects.
\<close>

section \<open>Configuration\<close>

datatype when_busy = Wait | Inject_after_tools

record agent_config =
  gc_title :: "string option"
  gc_name :: "string option"
  gc_role :: "string option"
  gc_model :: "string option"
  gc_system_prompt :: "string option"
  gc_debounce_ms :: "int option"
  gc_when_busy :: "when_busy option"
  gc_process_buffer :: "process_buffer option"
  gc_send_final :: "bool option"
  gc_keep_tokens :: "nat option"
  gc_max_tokens :: "nat option"
  gc_restrict_output :: "bool option"
  gc_restriction_message :: "string option"
  gc_max_injections :: "int option"

record agent_behavior =
  bh_debounce_ms :: int
  bh_when_busy :: when_busy
  bh_process_buffer :: process_buffer
  bh_auto_send :: bool
  bh_restrict_output :: bool
  bh_restriction_message :: string
  bh_max_injections :: int

record effective_config =
  ef_model :: string
  ef_system :: string
  ef_keep_tokens :: nat
  ef_max_tokens :: nat
  ef_behavior :: agent_behavior
  ef_placement :: "placement option"

definition or_else :: "'a option \<Rightarrow> 'a \<Rightarrow> 'a" where
  "or_else v d = (case v of None \<Rightarrow> d | Some x \<Rightarrow> x)"

definition default_system_prompt :: string where
  "default_system_prompt = ''You are a helpful AI assistant.''"

definition default_restriction_message :: string where
  "default_restriction_message =
     ''Do not produce a final answer directly. Before finishing, call a tool. If no tool is needed, call the 'finish' tool.''"

definition effective_behavior :: "agent_config \<Rightarrow> agent_behavior" where
  "effective_behavior c =
     \<lparr>bh_debounce_ms = or_else (gc_debounce_ms c) 0,
      bh_when_busy = or_else (gc_when_busy c) Wait,
      bh_process_buffer = or_else (gc_process_buffer c) AllTogether,
      bh_auto_send = or_else (gc_send_final c) True,
      bh_restrict_output = or_else (gc_restrict_output c) False,
      bh_restriction_message = or_else (gc_restriction_message c) default_restriction_message,
      bh_max_injections = or_else (gc_max_injections c) 0\<rparr>"

definition build_effective_config ::
  "agent_config \<Rightarrow> string \<Rightarrow> string \<Rightarrow> placement option \<Rightarrow> effective_config" where
  "build_effective_config c model system place =
     \<lparr>ef_model = model, ef_system = system,
      ef_keep_tokens = or_else (gc_keep_tokens c) 0, ef_max_tokens = or_else (gc_max_tokens c) 512,
      ef_behavior = effective_behavior c, ef_placement = place\<rparr>"

definition sanitize_config :: "agent_config \<Rightarrow> agent_config" where
  "sanitize_config c =
     c\<lparr>gc_name := (if gc_name c = Some [] then None else gc_name c),
       gc_role := (if gc_role c = Some [] then None else gc_role c)\<rparr>"

definition agent_label :: "agent_config \<Rightarrow> string option \<Rightarrow> string" where
  "agent_label c node =
     (let title = js_trim (or_else (gc_title c) []);
          name = js_trim (or_else (gc_name c) []);
          role = js_trim (or_else (gc_role c) [])
      in if title \<noteq> [] then title
         else if name \<noteq> [] \<and> role \<noteq> [] then name @ '' ('' @ role @ '')''
         else if name \<noteq> [] then name
         else if role \<noteq> [] then role
         else or_else node ''unknown'')"

definition summarization_prompt :: string where
  "summarization_prompt =
     ''You update a running summary of a conversation. Keep key facts, goals, decisions, constraints, names, deadlines, and follow-ups. Be concise; use compact sentences; omit chit-chat. Structure summary with 3 high level sections: initial task, plan (if any), context (progress, findings, observations).''"

text \<open>The reducers as \<open>prepareLoop\<close> configures them from the effective configuration.\<close>

definition setup_of ::
  "effective_config \<Rightarrow> tool list \<Rightarrow> string \<Rightarrow> string \<Rightarrow> bool \<Rightarrow> (string \<Rightarrow> string \<Rightarrow> bool) \<Rightarrow> (nat \<Rightarrow> string) \<Rightarrow> agent_setup" where
  "setup_of ef tools thread node guard le uuid =
     \<lparr>ag_thread = thread, ag_node = Some node,
      ag_model = \<lparr>mc_ready = True, mc_model = ef_model ef, mc_system_prompt = ef_system ef\<rparr>,
      ag_tools = tools,
      ag_summary = \<lparr>sp_model = ef_model ef, sp_keep_tokens = ef_keep_tokens ef, sp_max_tokens = ef_max_tokens ef,
        sp_system_prompt = summarization_prompt\<rparr>,
      ag_restrict = \<lparr>ar_restrict_output = bh_restrict_output (ef_behavior ef),
        ar_max_injections = bh_max_injections (ef_behavior ef), ar_message = bh_restriction_message (ef_behavior ef)\<rparr>,
      ag_inject = (bh_when_busy (ef_behavior ef) = Inject_after_tools),
      ag_mode = bh_process_buffer (ef_behavior ef),
      ag_guard = guard, ag_le = le, ag_uuid = uuid\<rparr>"

section \<open>Termination signals\<close>

text \<open>
  A signal is a shared object: it has an address in a store of flags, and the registry maps the
  identifier of a run to an address.
\<close>

record run_signals =
  rs_active :: "bool list"
  rs_entries :: "(string \<times> nat) list"

definition new_signal :: "run_signals \<Rightarrow> run_signals \<times> nat" where
  "new_signal s = (s\<lparr>rs_active := rs_active s @ [False]\<rparr>, length (rs_active s))"

definition activate_signal :: "nat \<Rightarrow> run_signals \<Rightarrow> run_signals" where
  "activate_signal p s = s\<lparr>rs_active := (rs_active s)[p := True]\<rparr>"

definition is_active :: "run_signals \<Rightarrow> nat \<Rightarrow> bool" where
  "is_active s p \<longleftrightarrow> p < length (rs_active s) \<and> rs_active s ! p"

definition register_signal :: "string \<Rightarrow> nat \<Rightarrow> run_signals \<Rightarrow> run_signals" where
  "register_signal run p s =
     (let s1 = (case map_of (rs_entries s) run of
                  Some q \<Rightarrow> if is_active s q then activate_signal p s else s
                | None \<Rightarrow> s)
      in s1\<lparr>rs_entries := AList.update run p (rs_entries s1)\<rparr>)"

definition activate_terminate :: "string \<Rightarrow> run_signals \<Rightarrow> run_signals" where
  "activate_terminate run s =
     (case map_of (rs_entries s) run of
        Some p \<Rightarrow> activate_signal p s
      | None \<Rightarrow>
          (let (s1, p) = new_signal s; s2 = activate_signal p s1
           in s2\<lparr>rs_entries := AList.update run p (rs_entries s2)\<rparr>))"

definition clear_signal :: "string \<Rightarrow> run_signals \<Rightarrow> run_signals" where
  "clear_signal run s = s\<lparr>rs_entries := AList.delete run (rs_entries s)\<rparr>"

section \<open>One run\<close>

datatype run_status = Finished | Terminated

datatype run_effect =
    Run_begun string "message list" string
  | Run_completed string run_status "message list"
  | Text_sent string string string

datatype run_error =
    Persistence_unavailable
  | Node_id_missing
  | Begin_failed string
  | Run_start_failed
  | Model_lookup_failed string
  | Signals_unavailable
  | Prepare_failed string
  | Loop_failed "loop_failure loop_error"
  | Complete_failed string
  | Invalid_response
  | Final_output_unreadable

record run_replies =
  rr_persistence :: bool
  rr_begin :: "string + string option"
  rr_thread_model :: "string + string option"
  rr_signals :: bool
  rr_prepare :: "string option"
  rr_complete :: "string option"
  rr_complete_error :: "string option"
  rr_transport :: bool
  rr_describe :: "run_error \<Rightarrow> string"
  rr_uuid :: string

definition auto_send :: "run_replies \<Rightarrow> string \<Rightarrow> string option \<Rightarrow> message list \<Rightarrow> string \<Rightarrow> run_effect list" where
  "auto_send rep thread answer outputs run =
     (let final = or_else answer []
      in if list_ex (\<lambda>m. case m of Tool_call j \<Rightarrow> True | _ \<Rightarrow> False) outputs \<or> js_trim final = [] then []
         else if \<not> rr_transport rep then []
         else [Text_sent thread final run])"

definition auto_send_enabled :: "agent_config \<Rightarrow> agent_behavior option \<Rightarrow> bool" where
  "auto_send_enabled c b =
     (case b of Some bh \<Rightarrow> bh_auto_send bh | None \<Rightarrow> or_else (gc_send_final c) True)"

definition is_output_message :: "message \<Rightarrow> bool" where
  "is_output_message m = (case m of Ai j \<Rightarrow> True | Tool_call j \<Rightarrow> True | _ \<Rightarrow> False)"

definition conclude_run ::
  "agent_config \<Rightarrow> agent_behavior \<Rightarrow> run_replies \<Rightarrow> string \<Rightarrow> string \<Rightarrow> bool \<Rightarrow> bool \<Rightarrow> llm_state \<Rightarrow>
   run_effect list \<times> (run_error + message)" where
  "conclude_run c bh rep thread run terminated finished st =
     (if terminated then
        (let outputs = [ai_from_text (rr_uuid rep) ''terminated'']
         in case rr_complete rep of
              Some e \<Rightarrow> ([], Inl (Complete_failed e))
            | None \<Rightarrow>
                ([Run_completed run Terminated outputs]
                   @ (if auto_send_enabled c (Some bh) then auto_send rep thread (Some ''terminated'') outputs run else []),
                 Inr (response_from_text (rr_uuid rep) ''terminated'')))
      else
        (case last_message (st_messages st) of
           Some (Response out usage) \<Rightarrow>
             (case response_output out of
                None \<Rightarrow> ([], Inl Final_output_unreadable)
              | Some ms \<Rightarrow>
                  (let outputs = filter is_output_message ms
                   in case rr_complete rep of
                        Some e \<Rightarrow> ([], Inl (Complete_failed e))
                      | None \<Rightarrow>
                          ([Run_completed run Finished outputs]
                             @ (if bh_auto_send bh then auto_send rep thread (response_text out) outputs run else []),
                           Inr (Response out usage))))
         | Some (Tool_call_output j) \<Rightarrow>
             if finished then
               (case rr_complete rep of
                  Some e \<Rightarrow> ([], Inl (Complete_failed e))
                | None \<Rightarrow> ([Run_completed run Finished [Tool_call_output j]], Inr (Tool_call_output j)))
             else ([], Inl Invalid_response)
         | _ \<Rightarrow> ([], Inl Invalid_response)))"

definition error_text :: "string \<Rightarrow> string" where
  "error_text m = (if js_trim m \<noteq> [] then ''Agent run failed: '' @ js_trim m else ''Agent run failed.'')"

text \<open>The \<open>catch\<close> block; a run that never got an identifier leaves no trace.\<close>

definition fail_run ::
  "agent_config \<Rightarrow> agent_behavior option \<Rightarrow> run_replies \<Rightarrow> string \<Rightarrow> string option \<Rightarrow> run_error \<Rightarrow> run_effect list" where
  "fail_run c b rep thread run e =
     (case run of
        None \<Rightarrow> []
      | Some i \<Rightarrow>
          (let text = error_text (rr_describe rep e)
           in (case rr_complete_error rep of
                 None \<Rightarrow> [Run_completed i Terminated [ai_from_text (rr_uuid rep) text]]
               | Some e' \<Rightarrow> [])
              @ (if auto_send_enabled c b then auto_send rep thread (Some text) [] i else [])))"

record run_context =
  rx_config :: agent_config
  rx_node :: "string option"
  rx_tools :: "tool list"
  rx_system :: string
  rx_placement :: "placement option"
  rx_guard :: bool
  rx_le :: "string \<Rightarrow> string \<Rightarrow> bool"
  rx_uuid :: "nat \<Rightarrow> string"

definition turn_initial_state :: "message list \<Rightarrow> llm_state" where
  "turn_initial_state ms =
     \<lparr>st_messages = ms, st_summary = None, st_context = Some (empty_context\<lparr>cx_pending := None\<rparr>), st_meta = None\<rparr>"

definition run_effective :: "run_context \<Rightarrow> string option \<Rightarrow> effective_config" where
  "run_effective x persisted =
     build_effective_config (rx_config x) (or_else persisted (or_else (gc_model (rx_config x)) ''gpt-5''))
       (rx_system x) (rx_placement x)"

text \<open>
  The body of \<open>invoke\<close> for a thread that is not busy, up to the \<open>finally\<close> block.  \<^const>\<open>None\<close> is a run
  whose loop needs more fuel.
\<close>

definition agent_run ::
  "nat \<Rightarrow> run_context \<Rightarrow> run_replies \<Rightarrow> (nat \<Rightarrow> turn_env) \<Rightarrow> string \<Rightarrow> message list \<Rightarrow> loop_world \<Rightarrow>
   (run_effect list \<times> loop_world \<times> (run_error + message)) option" where
  "agent_run fuel x rep env thread ms w =
     (let c = rx_config x; fail = (\<lambda>b run e effs. Some (effs @ fail_run c b rep thread run e, w, Inl e))
      in if \<not> rr_persistence rep then fail None None Persistence_unavailable []
         else
           (case rx_node x of
              None \<Rightarrow> fail None None Node_id_missing []
            | Some node \<Rightarrow>
                if node = [] then fail None None Node_id_missing []
                else
                  (case rr_begin rep of
                     Inl e \<Rightarrow> fail None None (Begin_failed e) []
                   | Inr started \<Rightarrow>
                       (let begun = [Run_begun thread ms node]; run = or_else started []
                        in if run = [] then fail None None Run_start_failed begun
                           else
                             (case rr_thread_model rep of
                                Inl e \<Rightarrow> fail None (Some run) (Model_lookup_failed e) begun
                              | Inr persisted \<Rightarrow>
                                  (let ef = run_effective x persisted; bh = ef_behavior ef;
                                       w1 = w\<lparr>lw_buffer := set_debounce_ms (bh_debounce_ms bh) (lw_buffer w)\<rparr>
                                   in if \<not> rr_signals rep then
                                        Some (begun @ fail_run c (Some bh) rep thread (Some run) Signals_unavailable, w1, Inl Signals_unavailable)
                                      else
                                        (case rr_prepare rep of
                                           Some e \<Rightarrow>
                                             Some (begun @ fail_run c (Some bh) rep thread (Some run) (Prepare_failed e), w1, Inl (Prepare_failed e))
                                         | None \<Rightarrow>
                                             (case agent_loop fuel
                                                     (setup_of ef (rx_tools x) thread node (rx_guard x) (rx_le x) (rx_uuid x))
                                                     env (turn_initial_state ms) w1 of
                                                None \<Rightarrow> None
                                              | Some (w2, Inl e) \<Rightarrow>
                                                  Some (begun @ fail_run c (Some bh) rep thread (Some run) (Loop_failed e), w2, Inl (Loop_failed e))
                                              | Some (w2, Inr st) \<Rightarrow>
                                                  (case conclude_run c bh rep thread run (lw_terminate w2) (lw_finish w2) st of
                                                     (effs, Inr m) \<Rightarrow> Some (begun @ effs, w2, Inr m)
                                                   | (effs, Inl e) \<Rightarrow>
                                                       Some (begun @ effs @ fail_run c (Some bh) rep thread (Some run) e, w2, Inl e))))))))))"

section \<open>Properties of one run\<close>

fun completes :: "run_effect \<Rightarrow> bool" where
  "completes (Run_completed run status ms) = True"
| "completes _ = False"

fun begins :: "run_effect \<Rightarrow> bool" where
  "begins (Run_begun thread ms node) = True"
| "begins _ = False"

fun sends :: "run_effect \<Rightarrow> bool" where
  "sends (Text_sent thread t run) = True"
| "sends _ = False"

lemma auto_send_effects:
  "filter completes (auto_send rep thread t outs run) = []" "filter begins (auto_send rep thread t outs run) = []"
  "length (filter sends (auto_send rep thread t outs run)) \<le> Suc 0"
  by (simp_all add: auto_send_def Let_def)

lemma fail_run_effects:
  "filter begins (fail_run c b rep thread run e) = []"
  "length (filter sends (fail_run c b rep thread run e)) \<le> 1"
  "filter completes (fail_run c b rep thread run e) =
     (case run of
        None \<Rightarrow> []
      | Some i \<Rightarrow> if rr_complete_error rep = None
          then [Run_completed i Terminated [ai_from_text (rr_uuid rep) (error_text (rr_describe rep e))]] else [])"
  by (auto simp: fail_run_def Let_def auto_send_effects split: option.splits)

lemma conclude_effects:
  assumes "conclude_run c bh rep thread run terminated finished st = (effs, r)"
  shows "filter begins effs = []"
    and "case r of Inl e \<Rightarrow> effs = [] | Inr m \<Rightarrow>
      length (filter sends effs) \<le> 1 \<and> rr_complete rep = None
      \<and> (\<exists>outs. filter completes effs = [Run_completed run (if terminated then Terminated else Finished) outs])"
  using assms
  by (auto simp: conclude_run_def Let_def auto_send_effects
      split: if_splits option.splits message.splits)

lemma conclude_error:
  assumes "loop_post a st w" and "conclude_run c bh rep thread run (lw_terminate w) (lw_finish w) st = (effs, Inl e)"
  shows "\<exists>m. e = Complete_failed m"
proof (cases "lw_terminate w")
  case True
  then show ?thesis using assms(2) by (auto simp: conclude_run_def Let_def split: option.splits)
next
  case False
  with assms(1) consider out usage ms where
      "last_message (st_messages st) = Some (Response out usage)" "response_output out = Some ms"
    | j where "last_message (st_messages st) = Some (Tool_call_output j)" "lw_finish w"
    by (auto simp: loop_post_def final_answer_def ends_with_def has_tool_call_def
        elim!: is_response.elims is_tool_output.elims split: option.splits)
  then show ?thesis using assms(2) False
    by cases (auto simp: conclude_run_def Let_def split: option.splits)
qed

text \<open>The ways a run can go.\<close>

definition run_may_fail_with :: "run_error \<Rightarrow> bool" where
  "run_may_fail_with e =
     (case e of
        Loop_failed l \<Rightarrow> (case l of Thrown e' \<Rightarrow> True | _ \<Rightarrow> False)
      | Invalid_response \<Rightarrow> False
      | Final_output_unreadable \<Rightarrow> False
      | _ \<Rightarrow> True)"

lemma agent_run_cases:
  assumes "agent_run fuel x rep env thread ms w = Some (effs, w', r)"
  obtains (not_begun) e b where "r = Inl e" "effs = fail_run (rx_config x) b rep thread None e" "run_may_fail_with e"
  | (no_run) node where "r = Inl Run_start_failed" "effs = [Run_begun thread ms node]"
      "or_else (case rr_begin rep of Inl e \<Rightarrow> None | Inr i \<Rightarrow> i) [] = []"
  | (failed) node run b e where "r = Inl e" "run \<noteq> []" "rr_begin rep = Inr (Some run)" "run_may_fail_with e"
      "effs = Run_begun thread ms node # fail_run (rx_config x) b rep thread (Some run) e"
  | (answered) node run effs2 m where "r = Inr m" "run \<noteq> []" "rr_begin rep = Inr (Some run)"
      "effs = Run_begun thread ms node # effs2" "rr_complete rep = None"
      "filter begins effs2 = []" "length (filter sends effs2) \<le> 1"
      "\<exists>outs. filter completes effs2 = [Run_completed run (if lw_terminate w' then Terminated else Finished) outs]"
proof -
  note simps = agent_run_def Let_def run_may_fail_with_def
  let ?c = "rx_config x"
  show thesis
  proof (cases "\<not> rr_persistence rep \<or> rx_node x = None \<or> rx_node x = Some [] \<or> isl (rr_begin rep)")
    case True
    then show thesis using assms by (auto simp: simps isl_def intro: not_begun split: if_splits option.splits)
  next
    case False
    then obtain node started where n: "rr_persistence rep" "rx_node x = Some node" "node \<noteq> []" "rr_begin rep = Inr started"
      by (cases "rr_begin rep") auto
    show thesis
    proof (cases "or_else started [] = []")
      case True
      then show thesis using assms n by (auto simp: simps fail_run_def intro: no_run)
    next
      case run: False
      then obtain i where i: "started = Some i" "i \<noteq> []" by (cases started) (auto simp: or_else_def)
      have oe: "or_else (Some i) [] = i" by (simp add: or_else_def)
      show thesis
      proof (cases "rr_thread_model rep")
        case (Inl e)
        then show thesis using assms n i oe
          by (intro failed[of "Model_lookup_failed e" i node None]) (auto simp: simps)
      next
        case (Inr persisted)
        define ef where "ef = run_effective x persisted"
        define w1 where "w1 = w\<lparr>lw_buffer := set_debounce_ms (bh_debounce_ms (ef_behavior ef)) (lw_buffer w)\<rparr>"
        define a where "a = setup_of ef (rx_tools x) thread node (rx_guard x) (rx_le x) (rx_uuid x)"
        note defs = ef_def[symmetric] w1_def[symmetric] a_def[symmetric]
        consider "\<not> rr_signals rep" | e where "rr_signals rep" "rr_prepare rep = Some e" | "rr_signals rep" "rr_prepare rep = None"
          by (cases "rr_prepare rep") auto
        then show thesis
        proof cases
          case 3
          have cnt: "0 \<le> injection_count (turn_initial_state ms)"
            by (simp add: turn_initial_state_def injection_count_def meta_or_empty_def empty_meta_def)
          from assms n i oe Inr 3 obtain w2 r2 where
            lp: "agent_loop fuel a env (turn_initial_state ms) w1 = Some (w2, r2)"
            by (auto simp: simps defs split: option.splits)
          note post = turn_contract[OF lp cnt]
          show thesis
          proof (cases r2)
            case (Inl e)
            then show thesis
              using assms n i oe \<open>rr_thread_model rep = Inr persisted\<close> 3 lp post
              by (intro failed[of "Loop_failed e" i node "Some (ef_behavior ef)"]) (auto simp: simps defs split: loop_error.splits)
          next
            case (Inr st)
            obtain effs2 r3 where con: "conclude_run ?c (ef_behavior ef) rep thread i (lw_terminate w2) (lw_finish w2) st = (effs2, r3)"
              by fastforce
            note ce = conclude_effects[OF con]
            show thesis
            proof (cases r3)
              case (Inl e)
              have "effs2 = []" using ce(2) Inl by simp
              moreover have "\<exists>m. e = Complete_failed m"
                using conclude_error[of a st w2] post con Inl \<open>r2 = Inr st\<close> by simp
              ultimately show thesis
                using assms n i oe \<open>rr_thread_model rep = Inr persisted\<close> 3 lp \<open>r2 = Inr st\<close> con Inl
                by (intro failed[of e i node "Some (ef_behavior ef)"]) (auto simp: simps defs)
            next
              case (Inr m)
              then show thesis
                using assms n i oe \<open>rr_thread_model rep = Inr persisted\<close> 3 lp \<open>r2 = Inr st\<close> con ce
                by (intro answered[of m i node effs2]) (auto simp: simps defs)
            qed
          qed
        next
          case 1
          then show thesis using assms n i oe Inr
            by (intro failed[of Signals_unavailable i node "Some (ef_behavior ef)"]) (auto simp: simps defs)
        next
          case (2 e)
          then show thesis using assms n i oe Inr
            by (intro failed[of "Prepare_failed e" i node "Some (ef_behavior ef)"]) (auto simp: simps defs)
        qed
      qed
    qed
  qed
qed

lemma filter_begin_cons: "filter completes (Run_begun thread ms node # effs) = filter completes effs"
  "filter sends (Run_begun thread ms node # effs) = filter sends effs"
  by simp_all

text \<open>
  Every run is closed once.  A run that got an identifier is completed exactly once, as finished
  exactly when it returns without having been terminated, provided the error path can reach the
  database; a run without identifier is never completed; and the thread gets at most one automatic
  text.
\<close>

theorem run_closed_once:
  "case agent_run fuel x rep env thread ms w of
     None \<Rightarrow> True
   | Some (effs, w', r) \<Rightarrow>
       length (filter sends effs) \<le> 1
       \<and> (if rr_complete_error rep = None then
            (if list_ex begins effs \<and> (case rr_begin rep of Inr (Some run) \<Rightarrow> run \<noteq> [] | _ \<Rightarrow> False)
             then \<exists>run status outs. filter completes effs = [Run_completed run status outs]
               \<and> rr_begin rep = Inr (Some run)
               \<and> (status = Finished \<longleftrightarrow> \<not> isl r \<and> \<not> lw_terminate w')
             else filter completes effs = [])
          else True)"
proof (cases "agent_run fuel x rep env thread ms w")
  case (Some result)
  obtain effs w' r where result: "result = (effs, w', r)" by (cases result)
  show ?thesis
    using Some[unfolded result]
  proof (cases rule: agent_run_cases)
    case not_begun
    then show ?thesis using Some result by (auto simp: fail_run_effects) (auto simp: fail_run_def)
  next
    case no_run
    then show ?thesis using Some result by (auto simp: or_else_def split: sum.splits option.splits)
  next
    case (failed node run b e)
    then show ?thesis using Some result fail_run_effects(2)[of "rx_config x" b rep thread "Some run" e]
      by (simp add: fail_run_effects filter_begin_cons)
  next
    case (answered node run effs2 m)
    then show ?thesis using Some result by (auto simp: filter_begin_cons)
  qed
qed simp

text \<open>
  What a run can fail with.  A run fails because a service or a reducer failed; it never fails
  because the loop was sent to a missing reducer, because the state it ends with has no usable last
  message, or because the output of that message cannot be read.
\<close>

theorem run_failures_external:
  "case agent_run fuel x rep env thread ms w of
     None \<Rightarrow> True
   | Some (effs, w', r) \<Rightarrow> (case r of Inl e \<Rightarrow> run_may_fail_with e | Inr m \<Rightarrow> True)"
proof (cases "agent_run fuel x rep env thread ms w")
  case (Some result)
  obtain effs w' r where result: "result = (effs, w', r)" by (cases result)
  show ?thesis
    using Some[unfolded result]
    by (cases rule: agent_run_cases) (auto simp: result Some run_may_fail_with_def)
qed simp

section \<open>The node: one run per thread, and the queue\<close>

text \<open>
  What the node has been told and what became of it: messages accepted, messages handed to a run
  (when it starts or by injection), messages dropped (by clearing the queue, or when an injection is
  not recorded).
\<close>

datatype agent_event =
    Accepted string "buffer_message list"
  | Given string "buffer_message list"
  | Dropped string "buffer_message list"

record agent_node =
  an_running :: "string list"
  an_runs :: "(string \<times> string) list"
  an_buffer :: messages_buffer
  an_signals :: run_signals
  an_log :: "agent_event list"

definition fresh_agent :: agent_node where
  "fresh_agent = \<lparr>an_running = [], an_runs = [], an_buffer = new_buffer (Some 0),
     an_signals = \<lparr>rs_active = [], rs_entries = []\<rparr>, an_log = []\<rparr>"

text \<open>The synchronous start of \<open>invoke\<close>, for messages from outside and from the queue alike.\<close>

definition start_or_queue :: "string \<Rightarrow> buffer_message list \<Rightarrow> int \<Rightarrow> string \<Rightarrow> agent_node \<Rightarrow> agent_node" where
  "start_or_queue thread ms now run s =
     (if thread \<in> set (an_running s)
      then s\<lparr>an_buffer := enqueue thread ms now (an_buffer s)\<rparr>
      else s\<lparr>an_running := set_add thread (an_running s), an_runs := (thread, run) # an_runs s,
             an_log := an_log s @ [Given thread ms]\<rparr>)"

definition invoke_node :: "string \<Rightarrow> buffer_message list \<Rightarrow> int \<Rightarrow> string \<Rightarrow> agent_node \<Rightarrow> agent_node" where
  "invoke_node thread ms now run s = start_or_queue thread ms now run (s\<lparr>an_log := an_log s @ [Accepted thread ms]\<rparr>)"

text \<open>The run registers its signal and sets the debounce window of the whole node.\<close>

definition configure_run :: "string \<Rightarrow> int \<Rightarrow> agent_node \<Rightarrow> agent_node" where
  "configure_run run debounce s =
     (let (sig1, p) = new_signal (an_signals s)
      in s\<lparr>an_buffer := set_debounce_ms debounce (an_buffer s), an_signals := register_signal run p sig1\<rparr>)"

text \<open>The router after the tools of a run injects what is queued for its thread.\<close>

definition inject_node :: "string \<Rightarrow> process_buffer \<Rightarrow> int \<Rightarrow> bool \<Rightarrow> agent_node \<Rightarrow> agent_node" where
  "inject_node thread mode now recorded s =
     (case try_drain thread mode now (an_buffer s) of
        (b, drained) \<Rightarrow>
          if drained = [] then s\<lparr>an_buffer := b\<rparr>
          else s\<lparr>an_buffer := b, an_log := an_log s @ [if recorded then Given thread drained else Dropped thread drained]\<rparr>)"

text \<open>The \<open>finally\<close> block.\<close>

definition leave_run :: "string \<Rightarrow> string \<Rightarrow> agent_node \<Rightarrow> agent_node" where
  "leave_run thread run s =
     s\<lparr>an_running := removeAll thread (an_running s), an_runs := remove1 (thread, run) (an_runs s),
       an_signals := clear_signal run (an_signals s)\<rparr>"

text \<open>After a run that returned: the next messages of the thread start the next run.\<close>

definition finish_run :: "string \<Rightarrow> string \<Rightarrow> process_buffer \<Rightarrow> int \<Rightarrow> string \<Rightarrow> agent_node \<Rightarrow> agent_node" where
  "finish_run thread run mode now next_run s =
     (let s1 = leave_run thread run s
      in case try_drain thread mode now (an_buffer s1) of
           (b, drained) \<Rightarrow>
             (let s2 = s1\<lparr>an_buffer := b\<rparr>
              in if drained = [] then s2 else start_or_queue thread drained now next_run s2))"

text \<open>After a run that threw: the exception leaves \<open>invoke\<close> before the queue is looked at.\<close>

definition fail_node :: "string \<Rightarrow> string \<Rightarrow> agent_node \<Rightarrow> agent_node" where
  "fail_node thread run s = leave_run thread run s"

definition clear_queued :: "string \<Rightarrow> agent_node \<Rightarrow> agent_node \<times> nat" where
  "clear_queued thread s =
     (case clear_thread thread (an_buffer s) of
        (b, n) \<Rightarrow>
          (s\<lparr>an_buffer := b, an_log := an_log s @ [Dropped thread (thread_messages (an_buffer s) thread)]\<rparr>, n))"

definition list_queued :: "string \<Rightarrow> agent_node \<Rightarrow> (nat \<times> string \<times> int) list" where
  "list_queued thread s = snapshot thread (an_buffer s)"

definition terminate_node :: "string \<Rightarrow> agent_node \<Rightarrow> agent_node" where
  "terminate_node run s = s\<lparr>an_signals := activate_terminate run (an_signals s)\<rparr>"

inductive agent_step :: "bool \<Rightarrow> agent_node \<Rightarrow> agent_node \<Rightarrow> bool" for smooth :: bool where
  step_invoke: "agent_step smooth s (invoke_node thread ms now run s)"
| step_configure: "(thread, run) \<in> set (an_runs s) \<Longrightarrow> (smooth \<longrightarrow> debounce \<le> 0) \<Longrightarrow>
    agent_step smooth s (configure_run run debounce s)"
| step_inject: "(thread, run) \<in> set (an_runs s) \<Longrightarrow> (smooth \<longrightarrow> recorded) \<Longrightarrow>
    agent_step smooth s (inject_node thread mode now recorded s)"
| step_finish: "(thread, run) \<in> set (an_runs s) \<Longrightarrow> agent_step smooth s (finish_run thread run mode now next_run s)"
| step_fail: "(thread, run) \<in> set (an_runs s) \<Longrightarrow> \<not> smooth \<Longrightarrow> agent_step smooth s (fail_node thread run s)"
| step_clear: "agent_step smooth s (fst (clear_queued thread s))"
| step_terminate: "agent_step smooth s (terminate_node run s)"

inductive_cases agent_step_cases: "agent_step smooth s s'"

section \<open>Properties of the node\<close>

fun accepted :: "string \<Rightarrow> agent_event list \<Rightarrow> buffer_message list" where
  "accepted t [] = []"
| "accepted t (Accepted u ms # es) = (if u = t then ms else []) @ accepted t es"
| "accepted t (e # es) = accepted t es"

fun consumed :: "string \<Rightarrow> agent_event list \<Rightarrow> buffer_message list" where
  "consumed t [] = []"
| "consumed t (Given u ms # es) = (if u = t then ms else []) @ consumed t es"
| "consumed t (Dropped u ms # es) = (if u = t then ms else []) @ consumed t es"
| "consumed t (e # es) = consumed t es"

lemma accepted_append [simp]: "accepted t (es @ fs) = accepted t es @ accepted t fs"
  by (induction t es rule: accepted.induct) auto

lemma consumed_append [simp]: "consumed t (es @ fs) = consumed t es @ consumed t fs"
  by (induction t es rule: consumed.induct) auto

text \<open>What every step does to a thread's messages: nothing is invented, nothing is lost.\<close>

definition balanced :: "agent_node \<Rightarrow> bool" where
  "balanced s \<longleftrightarrow>
     (\<forall>t. mset (accepted t (an_log s)) = mset (consumed t (an_log s)) + mset (thread_messages (an_buffer s) t))"

definition one_run_each :: "agent_node \<Rightarrow> bool" where
  "one_run_each s \<longleftrightarrow> distinct (map fst (an_runs s)) \<and> set (an_running s) = fst ` set (an_runs s)"

definition served :: "agent_node \<Rightarrow> bool" where
  "served s \<longleftrightarrow> mb_debounce_ms (an_buffer s) = 0
     \<and> (\<forall>t. accepted t (an_log s) = consumed t (an_log s) @ thread_messages (an_buffer s) t
         \<and> (thread_messages (an_buffer s) t \<noteq> [] \<longrightarrow> t \<in> set (an_running s)))"

lemma enqueue_messages [simp]:
  "thread_messages (enqueue thread ms now b) t =
     (if t = thread then thread_messages b t @ ms else thread_messages b t)"
  using buffer.items_put[of thread "(None, now)" ms b t] by (simp add: enqueue_def)

lemma debounce_messages [simp]: "thread_messages (set_debounce_ms d b) t = thread_messages b t"
  by (simp add: set_debounce_ms_def thread_messages_def thread_items_def)

lemma drain_messages:
  "try_drain thread mode now b = (b', out) \<Longrightarrow>
     thread_messages b t = (if t = thread then out @ thread_messages b' t else thread_messages b' t)"
  using buffer.items_take[of thread "(mode, now)" b b' out] buffer.items_take_other[of thread "(mode, now)" b b' out t]
  by auto

lemma clear_messages:
  "clear_thread thread b = (b', n) \<Longrightarrow> thread_messages b' t = (if t = thread then [] else thread_messages b t)"
  by (auto simp: clear_thread_def thread_messages_def thread_items_def put_thread_def update_conv' split: option.splits if_splits)

lemma debounce_after [simp]:
  "mb_debounce_ms (enqueue thread ms now b) = mb_debounce_ms b"
  "mb_debounce_ms (set_debounce_ms d b) = max 0 d"
  by (auto simp: enqueue_def enqueue_tok_def ensure_thread_def Let_def set_debounce_ms_def split: option.splits prod.splits)

lemma debounce_after_take:
  "try_drain thread mode now b = (b', out) \<Longrightarrow> mb_debounce_ms b' = mb_debounce_ms b"
  "clear_thread thread b = (b', n) \<Longrightarrow> mb_debounce_ms b' = mb_debounce_ms b"
  by (auto simp: try_drain_def clear_thread_def split: option.splits if_splits process_buffer.splits)

lemma drain_all_or_some:
  "mb_debounce_ms b = 0 \<Longrightarrow> try_drain thread mode now b = (b', []) \<Longrightarrow> thread_messages b' thread = []"
  by (auto simp: try_drain_def debounced_def thread_messages_def thread_items_def
      split: option.splits if_splits process_buffer.splits)

lemma remove_run:
  "distinct (map fst rs) \<Longrightarrow> (t, r) \<in> set rs \<Longrightarrow>
     distinct (map fst (remove1 (t, r) rs)) \<and> fst ` set (remove1 (t, r) rs) = fst ` set rs - {t}"
proof (induction rs)
  case (Cons p rs)
  show ?case
  proof (cases "p = (t, r)")
    case False
    with Cons.prems have "(t, r) \<in> set rs" "fst p \<notin> fst ` set rs" by auto
    then have "fst p \<noteq> t" by (metis fst_conv image_eqI)
    with Cons False show ?thesis by auto
  qed (use Cons.prems in auto)
qed simp

lemma runs_after_leave:
  "one_run_each s \<Longrightarrow> (thread, run) \<in> set (an_runs s) \<Longrightarrow> one_run_each (leave_run thread run s)"
  using remove_run[of "an_runs s" thread run] by (auto simp: one_run_each_def leave_run_def)

lemma leave_fields [simp]:
  "an_buffer (leave_run thread run s) = an_buffer s" "an_log (leave_run thread run s) = an_log s"
  "set (an_running (leave_run thread run s)) = set (an_running s) - {thread}"
  by (auto simp: leave_run_def)

lemma start_keeps_runs: "one_run_each s \<Longrightarrow> one_run_each (start_or_queue thread ms now run s)"
  by (auto simp: start_or_queue_def one_run_each_def)

lemma start_balanced:
  assumes "\<And>t. mset (accepted t (an_log s)) =
      mset (consumed t (an_log s)) + mset (thread_messages (an_buffer s) t) + (if t = thread then mset ms else {#})"
  shows "balanced (start_or_queue thread ms now run s)"
  using assms by (auto simp: start_or_queue_def balanced_def)

lemma step_one_run: "agent_step smooth s s' \<Longrightarrow> one_run_each s \<Longrightarrow> one_run_each s'"
proof (induction rule: agent_step.induct)
  case (step_invoke s thread ms now run)
  then show ?case by (auto simp: invoke_node_def start_or_queue_def one_run_each_def)
next
  case (step_finish thread run s mode now next_run)
  have "one_run_each (leave_run thread run s)" using runs_after_leave step_finish by blast
  then have "one_run_each (leave_run thread run s\<lparr>an_buffer := b\<rparr>)" for b by (simp add: one_run_each_def)
  then show ?case by (auto simp: finish_run_def Let_def split: prod.splits intro: start_keeps_runs)
next
  case (step_fail thread run s)
  then show ?case by (simp add: fail_node_def runs_after_leave)
qed (auto simp: one_run_each_def configure_run_def new_signal_def inject_node_def clear_queued_def terminate_node_def
    split: prod.splits)

lemma step_balanced: "agent_step smooth s s' \<Longrightarrow> balanced s \<Longrightarrow> balanced s'"
proof (induction rule: agent_step.induct)
  case (step_invoke s thread ms now run)
  then show ?case unfolding invoke_node_def by (intro start_balanced) (auto simp: balanced_def)
next
  case (step_inject thread run s recorded mode now)
  obtain b out where d: "try_drain thread mode now (an_buffer s) = (b, out)" by fastforce
  show ?case using step_inject.prems drain_messages[OF d] d
    by (cases "out = []") (auto simp: inject_node_def balanced_def)
next
  case (step_finish thread run s mode now next_run)
  obtain b out where d: "try_drain thread mode now (an_buffer s) = (b, out)" by fastforce
  show ?case
  proof (cases "out = []")
    case True
    then show ?thesis using step_finish.prems drain_messages[OF d] d by (auto simp: finish_run_def Let_def balanced_def)
  next
    case False
    have "balanced (start_or_queue thread out now next_run (leave_run thread run s\<lparr>an_buffer := b\<rparr>))"
      using step_finish.prems drain_messages[OF d] by (intro start_balanced) (auto simp: balanced_def)
    then show ?thesis using False d by (simp add: finish_run_def Let_def)
  qed
next
  case (step_clear s thread)
  obtain b n where d: "clear_thread thread (an_buffer s) = (b, n)" by fastforce
  show ?case using step_clear.prems clear_messages[OF d] d by (auto simp: clear_queued_def balanced_def)
qed (auto simp: balanced_def configure_run_def new_signal_def fail_node_def terminate_node_def split: prod.splits)

lemma step_served: "agent_step True s s' \<Longrightarrow> served s \<Longrightarrow> served s'"
proof (induction rule: agent_step.induct)
  case (step_invoke s thread ms now run)
  have "thread_messages (an_buffer s) thread = []" if "thread \<notin> set (an_running s)"
    using step_invoke that unfolding served_def by blast
  moreover have "accepted t (an_log s) = consumed t (an_log s) @ thread_messages (an_buffer s) t"
      "thread_messages (an_buffer s) t \<noteq> [] \<longrightarrow> t \<in> set (an_running s)" "mb_debounce_ms (an_buffer s) = 0" for t
    using step_invoke unfolding served_def by blast+
  ultimately show ?case
    by (cases "thread \<in> set (an_running s)") (simp_all add: served_def invoke_node_def start_or_queue_def)
next
  case (step_inject thread run s recorded mode now)
  note s = step_inject.prems
  obtain b out where d: "try_drain thread mode now (an_buffer s) = (b, out)" by fastforce
  show ?case using s step_inject drain_messages[OF d] debounce_after_take(1)[OF d] d
    by (cases "out = []") (auto simp: inject_node_def served_def)
next
  case (step_finish thread run s mode now next_run)
  note s = step_finish.prems
  obtain b out where d: "try_drain thread mode now (an_buffer s) = (b, out)" by fastforce
  have z: "mb_debounce_ms (an_buffer s) = 0" using s by (simp add: served_def)
  show ?case
  proof (cases "out = []")
    case True
    then have "thread_messages b thread = []" using drain_all_or_some[OF z] d by simp
    then show ?thesis using s step_finish True drain_messages[OF d] debounce_after_take(1)[OF d] d
      by (auto simp: finish_run_def Let_def served_def)
  next
    case False
    then show ?thesis using s step_finish drain_messages[OF d] debounce_after_take(1)[OF d] d
      by (auto simp: finish_run_def Let_def served_def start_or_queue_def)
  qed
next
  case (step_clear s thread)
  note s = step_clear.prems
  obtain b n where d: "clear_thread thread (an_buffer s) = (b, n)" by fastforce
  show ?case using s step_clear clear_messages[OF d] debounce_after_take(2)[OF d] d
    by (auto simp: clear_queued_def served_def)
qed (auto simp: served_def invoke_node_def start_or_queue_def configure_run_def new_signal_def terminate_node_def
    split: prod.splits)

lemma new_node_ok: "balanced fresh_agent" "one_run_each fresh_agent" "served fresh_agent"
  by (simp_all add: balanced_def one_run_each_def served_def fresh_agent_def thread_messages_def thread_items_def new_buffer_def)


definition busy_history :: agent_node where
  "busy_history =
     finish_run ''t'' ''r1'' AllTogether 2 ''r2''
       (invoke_node ''t'' [HumanMessage ''b''] 1 ''r9''
         (configure_run ''r1'' 0 (invoke_node ''t'' [HumanMessage ''a''] 0 ''r1'' fresh_agent)))"

lemma busy_reachable: "(agent_step True)\<^sup>*\<^sup>* fresh_agent busy_history"
proof -
  let ?s1 = "invoke_node ''t'' [HumanMessage ''a''] 0 ''r1'' fresh_agent"
  let ?s2 = "configure_run ''r1'' 0 ?s1"
  let ?s3 = "invoke_node ''t'' [HumanMessage ''b''] 1 ''r9'' ?s2"
  have "(''t'', ''r1'') \<in> set (an_runs ?s1)" "(''t'', ''r1'') \<in> set (an_runs ?s3)" by code_simp+
  then have "agent_step True fresh_agent ?s1" "agent_step True ?s1 ?s2" "agent_step True ?s2 ?s3" "agent_step True ?s3 busy_history"
    unfolding busy_history_def by (auto intro: agent_step.intros)
  then show ?thesis by (meson r_into_rtranclp rtranclp_trans)
qed




text \<open>
  A failed run leaves its queue behind.  When a run throws, the messages queued for its thread stay
  where they are and no run of the thread is left to take them; the next messages sent to the thread
  get a run of their own, ahead of them.
\<close>

theorem failed_run_strands_queue:
  "case fail_node t run s of
     s1 \<Rightarrow> t \<notin> set (an_running s1) \<and> thread_messages (an_buffer s1) t = thread_messages (an_buffer s) t
       \<and> (case invoke_node t ms now run2 s1 of
            s2 \<Rightarrow> an_log s2 = an_log s @ [Accepted t ms, Given t ms]
              \<and> thread_messages (an_buffer s2) t = thread_messages (an_buffer s) t)"
  by (simp add: fail_node_def invoke_node_def start_or_queue_def)

section \<open>Termination reaches the run\<close>

definition signals_ok :: "run_signals \<Rightarrow> bool" where
  "signals_ok s \<longleftrightarrow> list_all (\<lambda>e. snd e < length (rs_active s)) (rs_entries s)"

lemma lookup_ok: "signals_ok s \<Longrightarrow> map_of (rs_entries s) run = Some p \<Longrightarrow> p < length (rs_active s)"
  by (fastforce simp: signals_ok_def list_all_iff dest: map_of_SomeD)

lemma is_active_simps:
  "p < length (rs_active s) \<Longrightarrow> is_active (activate_signal p s) p"
  "is_active s q \<Longrightarrow> is_active (activate_signal p s) q"
  "is_active s q \<Longrightarrow> is_active (fst (new_signal s)) q"
  by (simp_all add: is_active_def activate_signal_def new_signal_def nth_append)
    (cases "p < length (rs_active s)"; simp add: nth_list_update)

text \<open>
  A request to terminate a run is not lost, whether it comes before the run has registered its signal
  or after.
\<close>

theorem termination_reaches_run:
  assumes "signals_ok s"
  shows "(case new_signal (activate_terminate run s) of (s1, p) \<Rightarrow> is_active (register_signal run p s1) p)
    \<and> (case new_signal s of (s1, p) \<Rightarrow> is_active (activate_terminate run (register_signal run p s1)) p)"
proof
  obtain s1 p where n: "new_signal (activate_terminate run s) = (s1, p)" by fastforce
  have "\<exists>q. map_of (rs_entries (activate_terminate run s)) run = Some q \<and> is_active (activate_terminate run s) q"
    using lookup_ok[OF assms]
    by (auto simp: activate_terminate_def new_signal_def Let_def is_active_def activate_signal_def map_laws
        split: option.splits)
  then obtain q where q: "map_of (rs_entries s1) run = Some q" "is_active s1 q" "p < length (rs_active s1)"
    using n is_active_simps(3)[of "activate_terminate run s"] by (auto simp: new_signal_def)
  then show "case new_signal (activate_terminate run s) of (s1, p) \<Rightarrow> is_active (register_signal run p s1) p"
    using n is_active_simps(1)[OF q(3)] by (simp add: register_signal_def is_active_def Let_def)
  obtain s2 r where m: "new_signal s = (s2, r)" by fastforce
  then have "r < length (rs_active s2)" by (auto simp: new_signal_def)
  then have "r < length (rs_active (register_signal run r s2))" "map_of (rs_entries (register_signal run r s2)) run = Some r"
    by (auto simp: register_signal_def activate_signal_def Let_def map_laws split: option.splits)
  then show "case new_signal s of (s1, p) \<Rightarrow> is_active (activate_terminate run (register_signal run p s1)) p"
    using m is_active_simps(1)[of r "register_signal run r s2"] by (simp add: activate_terminate_def)
qed

theorem termination_reaches_run_witness:
  "case new_signal (activate_terminate ''r'' \<lparr>rs_active = [False], rs_entries = [(''r'', 0)]\<rparr>) of
     (s1, p) \<Rightarrow> is_active (register_signal ''r'' p s1) p"
proof -
  have "signals_ok \<lparr>rs_active = [False], rs_entries = [(''r'', 0)]\<rparr>" by code_simp
  from termination_reaches_run[OF this, of "''r''"] show ?thesis by (rule conjunct1)
qed

end
