(* ===== verification/Agent_Tools.thy ===== *)
theory Agent_Tools
  imports Prelude
begin

text \<open>
  The tools of an agent, \<^verbatim>\<open>nodes/agent/agent.node.ts\<close>: the registry by name, tools added by tool nodes,
  and the tools of MCP servers, which follow the list the server reports.

  A tool object is compared by reference, so it carries its address.  A server is its address as well;
  the errors \<open>registerTool\<close> logs have no effect on the state and are left out.
\<close>

section \<open>State\<close>

record tool_object =
  to_address :: nat
  to_name :: string
  to_description :: string

datatype tool_source =
    Node_source "string option" nat
  | Mcp_source "string option" string

record registered_tool =
  rg_tool :: tool_object
  rg_source :: tool_source

record tool_registry =
  tg_by_name :: "(string \<times> registered_tool) list"
  tg_names :: "string list"
  tg_mcp :: "(nat \<times> (string \<times> tool_object) list) list"

definition empty_registry :: tool_registry where
  "empty_registry = \<lparr>tg_by_name = [], tg_names = [], tg_mcp = []\<rparr>"

definition tool_at :: "tool_registry \<Rightarrow> string \<Rightarrow> tool_object option" where
  "tool_at s n = map_option rg_tool (map_of (tg_by_name s) n)"

lemma tool_at_mcp [simp]: "tool_at (s\<lparr>tg_mcp := m\<rparr>) n = tool_at s n"
  by (simp add: tool_at_def)

section \<open>Operations\<close>

definition register_tool :: "tool_object \<Rightarrow> tool_source \<Rightarrow> tool_registry \<Rightarrow> tool_registry \<times> bool" where
  "register_tool t src s =
     (if to_name t \<in> set (tg_names s) then (s, False)
      else (s\<lparr>tg_by_name := AList.update (to_name t) \<lparr>rg_tool = t, rg_source = src\<rparr> (tg_by_name s),
              tg_names := set_add (to_name t) (tg_names s)\<rparr>, True))"

definition unregister_tool :: "string \<Rightarrow> tool_object \<Rightarrow> tool_registry \<Rightarrow> tool_registry \<times> bool" where
  "unregister_tool n t s =
     (if tool_at s n = Some t
      then (s\<lparr>tg_by_name := AList.delete n (tg_by_name s), tg_names := removeAll n (tg_names s)\<rparr>, True)
      else (s, False))"

definition active_tools :: "tool_registry \<Rightarrow> tool_object list" where
  "active_tools s = map (\<lambda>e. rg_tool (snd e)) (tg_by_name s)"

definition add_tool :: "string option \<Rightarrow> nat \<Rightarrow> tool_object \<Rightarrow> tool_registry \<Rightarrow> tool_registry" where
  "add_tool node_id node t s = fst (register_tool t (Node_source node_id node) s)"

definition remove_tool :: "tool_object \<Rightarrow> tool_registry \<Rightarrow> tool_registry" where
  "remove_tool t s = fst (unregister_tool (to_name t) t s)"

text \<open>The first tool of each name, and the others.\<close>

fun split_latest :: "tool_object list \<Rightarrow> (string \<times> tool_object) list \<Rightarrow> tool_object list \<Rightarrow>
    (string \<times> tool_object) list \<times> tool_object list" where
  "split_latest [] uniq dups = (uniq, dups)"
| "split_latest (t # ts) uniq dups =
     (if map_of uniq (to_name t) = None then split_latest ts (AList.update (to_name t) t uniq) dups
      else split_latest ts uniq (dups @ [t]))"

definition drop_stale ::
  "(string \<times> tool_object) list \<Rightarrow> (string \<times> tool_object) list \<Rightarrow> tool_registry \<Rightarrow> tool_registry" where
  "drop_stale uniq prev s =
     fold (\<lambda>(n, t) s. if map_of uniq n = Some t then s else fst (unregister_tool n t s)) prev s"

definition add_latest ::
  "tool_source \<Rightarrow> (string \<times> tool_object) list \<Rightarrow> tool_registry \<times> (string \<times> tool_object) list \<Rightarrow>
   tool_registry \<times> (string \<times> tool_object) list" where
  "add_latest src uniq acc =
     fold (\<lambda>(n, t) (s, next).
         if tool_at s n = Some t then (s, AList.update n t next)
         else
           (let (s1, added) = register_tool t src s
            in if tool_at s1 n = Some t then (s1, AList.update n t next) else (s1, next)))
       uniq acc"

definition sync_mcp_tools :: "nat \<Rightarrow> tool_source \<Rightarrow> tool_object list \<Rightarrow> tool_registry \<Rightarrow> tool_registry" where
  "sync_mcp_tools server src latest s =
     (let prev = (case map_of (tg_mcp s) server of None \<Rightarrow> [] | Some m \<Rightarrow> m);
          (uniq, dups) = split_latest latest [] [];
          (s2, next) = add_latest src uniq (drop_stale uniq prev s, []);
          s3 = fold (\<lambda>t s. fst (register_tool t src s)) dups s2
      in s3\<lparr>tg_mcp := AList.update server next (tg_mcp s3)\<rparr>)"

definition add_mcp_server :: "nat \<Rightarrow> tool_source \<Rightarrow> tool_object list \<Rightarrow> tool_registry \<Rightarrow> tool_registry" where
  "add_mcp_server server src latest s =
     (if map_of (tg_mcp s) server \<noteq> None then s
      else sync_mcp_tools server src latest (s\<lparr>tg_mcp := AList.update server [] (tg_mcp s)\<rparr>))"

definition remove_mcp_server :: "nat \<Rightarrow> tool_registry \<Rightarrow> tool_registry" where
  "remove_mcp_server server s =
     (let s1 = (case map_of (tg_mcp s) server of
                  None \<Rightarrow> s
                | Some tools \<Rightarrow> fold (\<lambda>(n, t) s. fst (unregister_tool n t s)) tools s)
      in s1\<lparr>tg_mcp := AList.delete server (tg_mcp s1)\<rparr>)"

section \<open>The registry as a map\<close>

text \<open>The two fields agree, and a tool stands under its own name.\<close>

definition registry_ok :: "tool_registry \<Rightarrow> bool" where
  "registry_ok s \<longleftrightarrow>
     set (tg_names s) = fst ` set (tg_by_name s) \<and> distinct (map fst (tg_by_name s))
     \<and> list_all (\<lambda>(n, r). to_name (rg_tool r) = n) (tg_by_name s)
     \<and> list_all (\<lambda>(server, m). distinct (map fst m) \<and> list_all (\<lambda>(n, t). to_name t = n) m) (tg_mcp s)"

lemma empty_registry_ok: "registry_ok empty_registry"
  by (simp add: registry_ok_def empty_registry_def)

lemma names_at: "registry_ok s \<Longrightarrow> n \<in> set (tg_names s) \<longleftrightarrow> tool_at s n \<noteq> None"
  by (auto simp: registry_ok_def tool_at_def map_of_eq_None_keys)

lemma register_ok: "registry_ok s \<Longrightarrow> registry_ok (fst (register_tool t src s))"
  by (auto simp: registry_ok_def register_tool_def distinct_update dom_update list_all_iff dest!: set_update_subset[THEN subsetD])

lemma unregister_ok: "registry_ok s \<Longrightarrow> registry_ok (fst (unregister_tool n t s))"
  by (auto simp: registry_ok_def unregister_tool_def set_delete_conv distinct_delete list_all_iff)

lemma register_at:
  "registry_ok s \<Longrightarrow> tool_at (fst (register_tool t src s)) n =
     (if n = to_name t \<and> tool_at s n = None then Some t else tool_at s n)"
  using names_at[of s "to_name t"] by (auto simp: register_tool_def tool_at_def map_laws)

lemma unregister_at:
  "tool_at (fst (unregister_tool m t s)) n = (if n = m \<and> tool_at s n = Some t then None else tool_at s n)"
  by (auto simp: unregister_tool_def tool_at_def map_laws)

lemma mcp_untouched [simp]:
  "tg_mcp (fst (register_tool t src s)) = tg_mcp s" "tg_mcp (fst (unregister_tool n t s)) = tg_mcp s"
  by (simp_all add: register_tool_def unregister_tool_def)

section \<open>Synchronising with a server\<close>

definition first_named :: "tool_object list \<Rightarrow> string \<Rightarrow> tool_object option" where
  "first_named ts n = find (\<lambda>t. to_name t = n) ts"

lemma first_named_simps [simp]:
  "first_named [] n = None" "first_named (t # ts) n = (if to_name t = n then Some t else first_named ts n)"
  by (simp_all add: first_named_def)

lemma first_named_name: "first_named ts n = Some t \<Longrightarrow> to_name t = n"
  by (auto simp: first_named_def find_Some_iff)

definition named :: "(string \<times> tool_object) list \<Rightarrow> bool" where
  "named m \<longleftrightarrow> distinct (map fst m) \<and> list_all (\<lambda>(n, t). to_name t = n) m"

lemma named_update: "named m \<Longrightarrow> named (AList.update (to_name t) t m)"
  by (auto simp: named_def distinct_update list_all_iff dest!: set_update_subset[THEN subsetD])

lemma split_latest_result:
  assumes "split_latest ts uniq dups = (uniq', dups')" and "named uniq"
    and "list_all (\<lambda>t. map_of uniq (to_name t) \<noteq> None) dups"
  shows "named uniq' \<and> (\<forall>n. map_of uniq' n = (case map_of uniq n of None \<Rightarrow> first_named ts n | Some t \<Rightarrow> Some t))
    \<and> list_all (\<lambda>t. map_of uniq' (to_name t) \<noteq> None) dups'"
  using assms
proof (induction ts uniq dups rule: split_latest.induct)
  case (2 t ts uniq dups)
  show ?case
  proof (cases "map_of uniq (to_name t)")
    case None
    have "list_all (\<lambda>u. map_of (AList.update (to_name t) t uniq) (to_name u) \<noteq> None) dups"
      using 2(5) by (auto simp: list_all_iff map_laws)
    from 2(1)[OF None _ named_update[OF 2(4)] this] 2(3) None
    have r: "named uniq'" "list_all (\<lambda>t. map_of uniq' (to_name t) \<noteq> None) dups'"
      and m: "map_of uniq' n = (case map_of (AList.update (to_name t) t uniq) n of None \<Rightarrow> first_named ts n | Some t \<Rightarrow> Some t)" for n
      by auto
    have "map_of uniq' n = (case map_of uniq n of None \<Rightarrow> first_named (t # ts) n | Some t \<Rightarrow> Some t)" for n
      using m[of n] None by (auto simp: map_laws split: option.splits)
    with r show ?thesis by blast
  next
    case (Some u)
    then have "map_of uniq (to_name t) \<noteq> None" "list_all (\<lambda>u. map_of uniq (to_name u) \<noteq> None) (dups @ [t])"
      using 2(5) by auto
    from 2(2)[OF this(1) _ 2(4) this(2)] 2(3) Some
    have r: "named uniq'" "list_all (\<lambda>t. map_of uniq' (to_name t) \<noteq> None) dups'"
      and m: "map_of uniq' n = (case map_of uniq n of None \<Rightarrow> first_named ts n | Some t \<Rightarrow> Some t)" for n
      by auto
    have "map_of uniq' n = (case map_of uniq n of None \<Rightarrow> first_named (t # ts) n | Some t \<Rightarrow> Some t)" for n
      using m[of n] Some by (auto split: option.splits)
    with r show ?thesis by blast
  qed
qed (auto split: option.splits)

lemma drop_stale_result:
  assumes "registry_ok s" and "distinct (map fst prev)"
  shows "registry_ok (drop_stale uniq prev s) \<and> tg_mcp (drop_stale uniq prev s) = tg_mcp s
    \<and> (\<forall>n. tool_at (drop_stale uniq prev s) n =
        (if tool_at s n \<noteq> None \<and> map_of prev n = tool_at s n \<and> map_of uniq n \<noteq> tool_at s n then None else tool_at s n))"
  using assms
proof (induction prev arbitrary: s)
  case (Cons p prev)
  obtain n t where p: "p = (n, t)" by (cases p)
  define s1 where "s1 = (if map_of uniq n = Some t then s else fst (unregister_tool n t s))"
  have "registry_ok s1" "tg_mcp s1 = tg_mcp s" using Cons.prems(1) unregister_ok by (auto simp: s1_def)
  moreover have "map_of prev n = None" using Cons.prems(2) p by (auto simp: map_of_eq_None_keys)
  moreover have "drop_stale uniq (p # prev) s = drop_stale uniq prev s1" by (simp add: drop_stale_def p s1_def)
  moreover have "tool_at s1 m = (if m = n \<and> map_of uniq n \<noteq> Some t \<and> tool_at s m = Some t then None else tool_at s m)" for m
    by (auto simp: s1_def unregister_at)
  ultimately show ?case using Cons.IH[of s1] Cons.prems(2) p by (auto split: if_splits)
qed (simp add: drop_stale_def)

lemma add_latest_result:
  assumes "registry_ok s" and "named uniq" and "\<forall>n. map_of uniq n = None \<or> map_of next n = None" and "named next"
    and "add_latest src uniq (s, next) = (s', next')"
  shows "registry_ok s' \<and> tg_mcp s' = tg_mcp s \<and> named next'
    \<and> (\<forall>n. tool_at s' n = (case tool_at s n of None \<Rightarrow> map_of uniq n | Some t \<Rightarrow> Some t))
    \<and> (\<forall>n. map_of next' n = (if map_of uniq n \<noteq> None \<and> tool_at s' n = map_of uniq n then map_of uniq n else map_of next n))"
  using assms
proof (induction uniq arbitrary: s "next")
  case (Cons p uniq)
  obtain n t where p: "p = (n, t)" by (cases p)
  have n: "to_name t = n" "map_of uniq n = None" "named uniq"
    using Cons.prems(2) p by (auto simp: named_def map_of_eq_None_keys)
  define s1 where "s1 = (if tool_at s n = Some t then s else fst (register_tool t src s))"
  define next1 where "next1 = (if tool_at s1 n = Some t then AList.update n t next else next)"
  have at: "tool_at s1 m = (if m = n \<and> tool_at s m = None then Some t else tool_at s m)" for m
    using register_at[OF Cons.prems(1)] n by (auto simp: s1_def)
  have ok: "registry_ok s1" "tg_mcp s1 = tg_mcp s" using Cons.prems(1) register_ok by (auto simp: s1_def)
  have step: "add_latest src (p # uniq) (s, next) = add_latest src uniq (s1, next1)"
    by (simp add: add_latest_def p s1_def next1_def split_beta Let_def)
  have nx: "named next1" using Cons.prems(4) n named_update by (auto simp: next1_def)
  have dis: "\<forall>m. map_of uniq m = None \<or> map_of next1 m = None"
  proof
    fix m
    show "map_of uniq m = None \<or> map_of next1 m = None"
      using Cons.prems(3)[rule_format, of m] p n by (cases "m = n") (auto simp: next1_def map_laws)
  qed
  have fresh: "map_of next n = None" using Cons.prems(3)[rule_format, of n] p by auto
  have IH: "registry_ok s' \<and> tg_mcp s' = tg_mcp s1 \<and> named next'
    \<and> (\<forall>n. tool_at s' n = (case tool_at s1 n of None \<Rightarrow> map_of uniq n | Some t \<Rightarrow> Some t))
    \<and> (\<forall>n. map_of next' n = (if map_of uniq n \<noteq> None \<and> tool_at s' n = map_of uniq n then map_of uniq n else map_of next1 n))"
    by (rule Cons.IH[OF ok(1) n(3) dis nx]) (use Cons.prems(5) step in simp)
  have "tool_at s' m = (case tool_at s m of None \<Rightarrow> map_of (p # uniq) m | Some t \<Rightarrow> Some t)" for m
    using IH at[of m] p n by (auto split: option.splits)
  moreover have "map_of next' m = (if map_of (p # uniq) m \<noteq> None \<and> tool_at s' m = map_of (p # uniq) m
      then map_of (p # uniq) m else map_of next m)" for m
    using IH at[of m] p n fresh by (auto simp: next1_def map_laws split: option.splits if_splits)
  moreover have "registry_ok s'" "tg_mcp s' = tg_mcp s" "named next'" using IH ok(2) by simp_all
  ultimately show ?case by blast
qed (auto simp: add_latest_def split: option.splits)

lemma register_known: "registry_ok s \<Longrightarrow> tool_at s (to_name t) \<noteq> None \<Longrightarrow> fst (register_tool t src s) = s"
  using names_at by (auto simp: register_tool_def)

lemma register_all_known:
  "registry_ok s \<Longrightarrow> list_all (\<lambda>t. tool_at s (to_name t) \<noteq> None) ts \<Longrightarrow> fold (\<lambda>t s. fst (register_tool t src s)) ts s = s"
  by (induction ts) (auto simp: register_known)

definition tracked :: "tool_registry \<Rightarrow> nat \<Rightarrow> string \<Rightarrow> tool_object option" where
  "tracked s server n = (case map_of (tg_mcp s) server of None \<Rightarrow> None | Some m \<Rightarrow> map_of m n)"

lemma sync_result:
  assumes "registry_ok s"
  shows "registry_ok (sync_mcp_tools server src latest s)
    \<and> (\<forall>n. tool_at (sync_mcp_tools server src latest s) n =
        (case tool_at s n of
           None \<Rightarrow> first_named latest n
         | Some t \<Rightarrow> if tracked s server n = Some t then first_named latest n else Some t))
    \<and> (\<forall>n. tracked (sync_mcp_tools server src latest s) server n =
        (if tool_at (sync_mcp_tools server src latest s) n = first_named latest n then first_named latest n else None))"
proof -
  define prev where "prev = (case map_of (tg_mcp s) server of None \<Rightarrow> [] | Some m \<Rightarrow> m)"
  have prev: "distinct (map fst prev)"
    using assms by (fastforce simp: registry_ok_def prev_def list_all_iff split: option.splits dest: map_of_SomeD)
  have tr: "tracked s server n = map_of prev n" for n by (simp add: tracked_def prev_def split: option.splits)
  obtain uniq dups where sp: "split_latest latest [] [] = (uniq, dups)" by fastforce
  have u: "named uniq" "\<And>n. map_of uniq n = first_named latest n" "list_all (\<lambda>t. map_of uniq (to_name t) \<noteq> None) dups"
  proof -
    have e: "named []" "list_all (\<lambda>t. map_of [] (to_name t) \<noteq> None) ([] :: tool_object list)" by (simp_all add: named_def)
    show "named uniq" "\<And>n. map_of uniq n = first_named latest n" "list_all (\<lambda>t. map_of uniq (to_name t) \<noteq> None) dups"
      using split_latest_result[OF sp e] by auto
  qed
  define s1 where "s1 = drop_stale uniq prev s"
  note d = drop_stale_result[OF assms prev, of uniq, folded s1_def]
  obtain s2 "next" where al: "add_latest src uniq (s1, []) = (s2, next)" by fastforce
  have a: "registry_ok s2" "tg_mcp s2 = tg_mcp s1" "named next"
    "\<And>n. tool_at s2 n = (case tool_at s1 n of None \<Rightarrow> map_of uniq n | Some t \<Rightarrow> Some t)"
    "\<And>n. map_of next n = (if map_of uniq n \<noteq> None \<and> tool_at s2 n = map_of uniq n then map_of uniq n else None)"
    using add_latest_result[OF _ u(1) _ _ al] d by (auto simp: named_def)
  have "list_all (\<lambda>t. tool_at s2 (to_name t) \<noteq> None) dups"
    using u(3) a(4) by (auto simp: list_all_iff split: option.splits)
  from register_all_known[OF a(1) this, of src]
  have s': "sync_mcp_tools server src latest s = s2\<lparr>tg_mcp := AList.update server next (tg_mcp s2)\<rparr>"
    by (simp add: sync_mcp_tools_def prev_def[symmetric] sp s1_def[symmetric] al)
  have "list_all (\<lambda>(server, m). distinct (map fst m) \<and> list_all (\<lambda>(n, t). to_name t = n) m) (AList.update server next (tg_mcp s2))"
    using a(1,3) by (auto simp: registry_ok_def named_def list_all_iff dest!: set_update_subset[THEN subsetD])
  then have "registry_ok (sync_mcp_tools server src latest s)" using a(1) by (simp add: s' registry_ok_def)
  moreover have "tool_at (sync_mcp_tools server src latest s) n =
      (case tool_at s n of None \<Rightarrow> first_named latest n
       | Some t \<Rightarrow> if tracked s server n = Some t then first_named latest n else Some t)" for n
    using a(4)[of n] conjunct2[OF conjunct2[OF d], rule_format, of n] u(2)[of n]
    by (auto simp: s' tr split: option.splits if_splits)
  moreover have "tracked (sync_mcp_tools server src latest s) server n =
      (if tool_at (sync_mcp_tools server src latest s) n = first_named latest n then first_named latest n else None)" for n
    using a(5)[of n] u(2)[of n] by (auto simp: s' tracked_def)
  ultimately show ?thesis by blast
qed

text \<open>Every operation keeps the registry consistent.\<close>

inductive tools_step :: "tool_registry \<Rightarrow> tool_registry \<Rightarrow> bool" where
  tools_add: "tools_step s (add_tool node_id node t s)"
| tools_remove: "tools_step s (remove_tool t s)"
| tools_add_server: "tools_step s (add_mcp_server server src latest s)"
| tools_remove_server: "tools_step s (remove_mcp_server server s)"
| tools_sync: "tools_step s (sync_mcp_tools server src latest s)"

lemma unregister_all_ok:
  "registry_ok s \<Longrightarrow> registry_ok (fold (\<lambda>(n, t) s. fst (unregister_tool n t s)) ts s)"
  by (induction ts arbitrary: s) (auto simp: unregister_ok)

lemma mcp_entries_ok:
  "registry_ok s \<Longrightarrow> registry_ok (s\<lparr>tg_mcp := AList.update server [] (tg_mcp s)\<rparr>)"
  "registry_ok s \<Longrightarrow> registry_ok (s\<lparr>tg_mcp := AList.delete server (tg_mcp s)\<rparr>)"
  by (auto simp: registry_ok_def list_all_iff set_delete_conv dest!: set_update_subset[THEN subsetD])

lemma tools_step_ok: "tools_step s s' \<Longrightarrow> registry_ok s \<Longrightarrow> registry_ok s'"
proof (induction rule: tools_step.induct)
  case (tools_remove_server s server)
  then show ?case
    by (auto simp: remove_mcp_server_def Let_def intro!: mcp_entries_ok(2) unregister_all_ok split: option.splits)
qed (auto simp: add_tool_def remove_tool_def add_mcp_server_def register_ok unregister_ok sync_result mcp_entries_ok(1))

section \<open>Properties\<close>

text \<open>
  The registry of tools stays consistent: whatever tool nodes and servers are added, removed and
  synchronised, the set of names is exactly the names in the registry, no name stands for two tools,
  and every tool is found under its own name.
\<close>

theorem registry_consistent:
  assumes "tools_step\<^sup>*\<^sup>* empty_registry s"
  shows "set (tg_names s) = fst ` set (tg_by_name s) \<and> distinct (map to_name (active_tools s))
    \<and> (\<forall>n. case tool_at s n of None \<Rightarrow> n \<notin> set (tg_names s) | Some t \<Rightarrow> to_name t = n \<and> n \<in> set (tg_names s))"
proof -
  from assms have ok: "registry_ok s"
    by (induction rule: rtranclp_induct) (auto simp: empty_registry_ok intro: tools_step_ok)
  then have "map to_name (active_tools s) = map fst (tg_by_name s)"
    by (auto simp: active_tools_def registry_ok_def list_all_iff)
  with ok have 1: "distinct (map to_name (active_tools s))" "set (tg_names s) = fst ` set (tg_by_name s)"
    by (simp_all add: registry_ok_def)
  have "to_name t = n" if "tool_at s n = Some t" for n t
    using ok that by (fastforce simp: tool_at_def registry_ok_def list_all_iff dest: map_of_SomeD)
  with 1 names_at[OF ok] show ?thesis by (auto split: option.splits)
qed

definition grep_tool :: tool_object where
  "grep_tool = \<lparr>to_address = 1, to_name = ''grep'', to_description = ''search''\<rparr>"

definition grep_again :: tool_object where
  "grep_again = \<lparr>to_address = 2, to_name = ''grep'', to_description = ''search better''\<rparr>"

definition grep_registry :: tool_registry where
  "grep_registry = add_mcp_server 7 (Mcp_source None ''ns'') [grep_tool, grep_again] empty_registry"

lemma grep_reachable: "tools_step\<^sup>*\<^sup>* empty_registry grep_registry"
  unfolding grep_registry_def by (intro r_into_rtranclp tools_add_server)

theorem registry_consistent_witness:
  "map to_name (active_tools grep_registry) = [''grep''] \<and> distinct (map to_name (active_tools grep_registry))"
proof -
  have "map to_name (active_tools grep_registry) = [''grep'']" by code_simp
  then show ?thesis using registry_consistent[OF grep_reachable] by simp
qed

text \<open>
  What synchronising with a server does to every name.  A free name gets the first tool the server
  lists under it; a name the server's own tool holds follows the list, to the new tool or to nothing; a
  name that anybody else's tool holds keeps that tool.  The server then tracks exactly the tools of
  its list that stand in the registry.
\<close>

theorem sync_follows_server:
  assumes "registry_ok s"
  shows "case sync_mcp_tools server src latest s of
     s' \<Rightarrow> (\<forall>n. tool_at s' n =
            (case tool_at s n of
               None \<Rightarrow> first_named latest n
             | Some t \<Rightarrow> if tracked s server n = Some t then first_named latest n else Some t)
          \<and> tracked s' server n = (if tool_at s' n = first_named latest n then first_named latest n else None))"
  using sync_result[OF assms] by simp

theorem sync_follows_server_witness:
  "tool_at (sync_mcp_tools 7 (Mcp_source None ''ns'') [grep_again] grep_registry) ''grep'' = Some grep_again"
proof -
  have "registry_ok grep_registry" by code_simp
  moreover have "tool_at grep_registry ''grep'' = Some grep_tool" "tracked grep_registry 7 ''grep'' = Some grep_tool"
    by code_simp+
  moreover have "first_named [grep_again] ''grep'' = Some grep_again" by code_simp
  ultimately show ?thesis
    using sync_follows_server[of grep_registry 7 "Mcp_source None ''ns''" "[grep_again]"] by simp
qed

text \<open>
  A removed server comes back.  Removing a server does not stop it from being synchronised: when it
  reports its tools after its removal, they are registered again under every free name.
\<close>

theorem removed_server_returns:
  assumes "registry_ok s" and "tool_at (remove_mcp_server server s) n = None"
  shows "tool_at (sync_mcp_tools server src latest (remove_mcp_server server s)) n = first_named latest n"
  using sync_result[OF tools_step_ok[OF tools_remove_server assms(1)]] assms(2) by simp

theorem removed_server_returns_witness:
  "tool_at (sync_mcp_tools 7 (Mcp_source None ''ns'') [grep_tool] (remove_mcp_server 7 grep_registry)) ''grep'' = Some grep_tool"
proof -
  have "registry_ok grep_registry" by code_simp
  moreover have "tool_at (remove_mcp_server 7 grep_registry) ''grep'' = None" by code_simp
  moreover have "first_named [grep_tool] ''grep'' = Some grep_tool" by code_simp
  ultimately show ?thesis using removed_server_returns by metis
qed

end
