(* ===== verification/Prompts.thy ===== *)
theory Prompts
  imports JsString
begin

text \<open>
  Effective prompts of agents that manage each other: \<open>resolveEffectiveSystemPrompt\<close>,
  \<open>buildToolMustacheContext\<close> and \<open>resolveToolPrompt\<close> of \<^verbatim>\<open>nodes/agent/agent.node.ts\<close>, \<open>resolvePrompt\<close>
  and its helpers in \<^verbatim>\<open>nodes/tools/manage/manage.node.ts\<close>, and the description getter of
  \<^verbatim>\<open>nodes/tools/manage/manage.tool.ts\<close>.

  An agent's prompt shows the prompts of its tools, a manage tool's prompt shows those of its workers,
  and the graph may have cycles.  A resolution state holds caches and the stacks that detect cycles; a
  description getter makes one of its own while it runs, so there is a main state and at most one for
  every manage tool.  \<^const>\<open>None\<close> of the result is an exception.  The recursion has fuel; the
  theorem at the end shows how much is enough.  Mustache is the argument \<open>pg_render\<close>.
\<close>

section \<open>The graph\<close>

record prompt_tool =
  pt_name :: string
  pt_description :: string
  pt_node :: "nat option"

record tool_info =
  ni_manage :: bool
  ni_title :: "string option"
  ni_description :: "string option"
  ni_prompt :: "string option"
  ni_template_title :: "string option"
  ni_template_description :: "string option"
  ni_workers :: "nat list"
  ni_workers_ok :: bool

record agent_info =
  ai_configured :: bool
  ai_system :: "string option"
  ai_name :: "string option"
  ai_role :: "string option"
  ai_tools :: "prompt_tool list"

type_synonym tool_entry = "string \<times> string \<times> string \<times> string"
type_synonym worker_entry = "string \<times> string \<times> string"

record prompt_graph =
  pg_agents :: "(nat \<times> agent_info) list"
  pg_tools :: "(nat \<times> tool_info) list"
  pg_render :: "string \<Rightarrow> tool_entry list \<Rightarrow> string"
  pg_render_workers :: "string \<Rightarrow> worker_entry list \<Rightarrow> string"

section \<open>Resolution states\<close>

record prompt_state =
  ps_agents :: "(nat \<times> string) list"
  ps_tools :: "(nat \<times> string) list"
  ps_agent_stack :: "nat list"
  ps_tool_stack :: "nat list"

definition create_state :: prompt_state where
  "create_state = \<lparr>ps_agents = [], ps_tools = [], ps_agent_stack = [], ps_tool_stack = []\<rparr>"

text \<open>The main state is under \<^const>\<open>None\<close>, the state of the description of tool \<open>m\<close> under \<open>Some m\<close>.\<close>

type_synonym prompt_states = "(nat option \<times> prompt_state) list"

definition state_at :: "prompt_states \<Rightarrow> nat option \<Rightarrow> prompt_state" where
  "state_at ss k = (case map_of ss k of None \<Rightarrow> create_state | Some s \<Rightarrow> s)"

definition change_state :: "nat option \<Rightarrow> (prompt_state \<Rightarrow> prompt_state) \<Rightarrow> prompt_states \<Rightarrow> prompt_states" where
  "change_state k f ss = AList.update k (f (state_at ss k)) ss"

definition cache_agent :: "nat \<Rightarrow> string \<Rightarrow> prompt_state \<Rightarrow> prompt_state" where
  "cache_agent a v s = s\<lparr>ps_agents := AList.update a v (ps_agents s)\<rparr>"

definition cache_tool :: "nat \<Rightarrow> string \<Rightarrow> prompt_state \<Rightarrow> prompt_state" where
  "cache_tool t v s = s\<lparr>ps_tools := AList.update t v (ps_tools s)\<rparr>"

definition push_agent :: "nat \<Rightarrow> prompt_state \<Rightarrow> prompt_state" where
  "push_agent a s = s\<lparr>ps_agent_stack := set_add a (ps_agent_stack s)\<rparr>"

definition pop_agent :: "nat \<Rightarrow> prompt_state \<Rightarrow> prompt_state" where
  "pop_agent a s = s\<lparr>ps_agent_stack := removeAll a (ps_agent_stack s)\<rparr>"

definition push_tool :: "nat \<Rightarrow> prompt_state \<Rightarrow> prompt_state" where
  "push_tool t s = s\<lparr>ps_tool_stack := set_add t (ps_tool_stack s)\<rparr>"

definition pop_tool :: "nat \<Rightarrow> prompt_state \<Rightarrow> prompt_state" where
  "pop_tool t s = s\<lparr>ps_tool_stack := removeAll t (ps_tool_stack s)\<rparr>"

section \<open>Resolution\<close>

definition default_prompt :: string where
  "default_prompt = ''You are a helpful AI assistant.''"

fun pick_first_non_empty :: "string option list \<Rightarrow> string" where
  "pick_first_non_empty [] = []"
| "pick_first_non_empty (None # vs) = pick_first_non_empty vs"
| "pick_first_non_empty (Some v # vs) = (if js_trim v \<noteq> [] then js_trim v else pick_first_non_empty vs)"

definition read_config_string :: "string option \<Rightarrow> string option" where
  "read_config_string raw =
     (case raw of None \<Rightarrow> None | Some s \<Rightarrow> if js_trim s \<noteq> [] then Some (js_trim s) else None)"

definition manage_fallback :: "tool_info \<Rightarrow> string" where
  "manage_fallback i = (case read_config_string (ni_description i) of None \<Rightarrow> ''Manage tool'' | Some d \<Rightarrow> d)"

datatype request = Resolve_agent "nat option" nat | Resolve_manage "nat option" nat | Describe nat

type_synonym resolver = "request \<Rightarrow> prompt_states \<Rightarrow> (prompt_states \<times> string option) option"

text \<open>The description of a tool: that of a manage tool is its resolved prompt.\<close>

definition tool_description ::
  "prompt_graph \<Rightarrow> resolver \<Rightarrow> prompt_tool \<Rightarrow> prompt_states \<Rightarrow> (prompt_states \<times> string option) option" where
  "tool_description g call t ss =
     (case pt_node t of
        None \<Rightarrow> Some (ss, Some (pt_description t))
      | Some n \<Rightarrow>
          (case map_of (pg_tools g) n of
             None \<Rightarrow> Some (ss, Some (pt_description t))
           | Some i \<Rightarrow> if ni_manage i then call (Describe n) ss else Some (ss, Some (pt_description t))))"

definition resolve_tool_prompt ::
  "prompt_graph \<Rightarrow> resolver \<Rightarrow> nat option \<Rightarrow> prompt_tool \<Rightarrow> string \<Rightarrow> prompt_states \<Rightarrow> (prompt_states \<times> string option) option" where
  "resolve_tool_prompt g call k t fallback ss =
     (case Option.bind (pt_node t) (\<lambda>n. map_option (Pair n) (map_of (pg_tools g) n)) of
        None \<Rightarrow> Some (ss, Some fallback)
      | Some (n, i) \<Rightarrow>
          (case map_of (ps_tools (state_at ss k)) n of
             Some cached \<Rightarrow> Some (ss, Some cached)
           | None \<Rightarrow>
               (let cycle_fallback = (if ni_manage i then manage_fallback i else fallback)
                in if n \<in> set (ps_tool_stack (state_at ss k))
                   then
                     (let r = pick_first_non_empty [Some cycle_fallback, Some fallback]
                      in Some (change_state k (cache_tool n r) ss, Some r))
                   else
                     (case (if ni_manage i then call (Resolve_manage k n) ss else Some (ss, Some fallback)) of
                        None \<Rightarrow> None
                      | Some (ss1, resolved) \<Rightarrow>
                          (let r = pick_first_non_empty [resolved, Some cycle_fallback, Some fallback]
                           in Some (change_state k (cache_tool n r) ss1, Some r))))))"

text \<open>One entry of the context; the description is read three times, as the code does.\<close>

definition tool_entry_of ::
  "prompt_graph \<Rightarrow> resolver \<Rightarrow> nat option \<Rightarrow> prompt_tool \<Rightarrow> prompt_states \<Rightarrow> (prompt_states \<times> tool_entry option) option" where
  "tool_entry_of g call k t ss =
     (let info = Option.bind (pt_node t) (map_of (pg_tools g));
          config = (\<lambda>f. Option.bind info (\<lambda>i. read_config_string (f i)));
          template_description = Option.bind info (\<lambda>i. map_option js_trim (ni_template_description i));
          describe = tool_description g call t
      in case describe ss of
           None \<Rightarrow> None
         | Some (ss1, None) \<Rightarrow> Some (ss1, None)
         | Some (ss1, Some d1) \<Rightarrow>
             (case describe ss1 of
                None \<Rightarrow> None
              | Some (ss2, None) \<Rightarrow> Some (ss2, None)
              | Some (ss2, Some d2) \<Rightarrow>
                  (case describe ss2 of
                     None \<Rightarrow> None
                   | Some (ss3, None) \<Rightarrow> Some (ss3, None)
                   | Some (ss3, Some d3) \<Rightarrow>
                       (let description = pick_first_non_empty [config ni_description, template_description, Some d1];
                            fallback_prompt = pick_first_non_empty
                              [config ni_prompt, config ni_description, template_description, Some d2];
                            fallback = pick_first_non_empty [Some fallback_prompt, Some d3]
                        in case resolve_tool_prompt g call k t fallback ss3 of
                             None \<Rightarrow> None
                           | Some (ss4, None) \<Rightarrow> Some (ss4, None)
                           | Some (ss4, Some p) \<Rightarrow>
                               (let title = pick_first_non_empty
                                  [config ni_title, Option.bind info ni_template_title, Some (pt_name t)]
                                in Some (ss4, Some (pt_name t, title, description, p)))))))"

fun tool_entries ::
  "(prompt_tool \<Rightarrow> prompt_states \<Rightarrow> (prompt_states \<times> tool_entry option) option) \<Rightarrow> prompt_tool list \<Rightarrow> prompt_states \<Rightarrow>
   (prompt_states \<times> tool_entry list option) option" where
  "tool_entries entry [] ss = Some (ss, Some [])"
| "tool_entries entry (t # ts) ss =
     (case entry t ss of
        None \<Rightarrow> None
      | Some (ss1, None) \<Rightarrow> Some (ss1, None)
      | Some (ss1, Some e) \<Rightarrow>
          (case tool_entries entry ts ss1 of
             None \<Rightarrow> None
           | Some (ss2, None) \<Rightarrow> Some (ss2, None)
           | Some (ss2, Some es) \<Rightarrow> Some (ss2, Some (e # es))))"

definition render_mustache :: "(string \<Rightarrow> 'c \<Rightarrow> string) \<Rightarrow> string \<Rightarrow> 'c \<Rightarrow> string" where
  "render_mustache render template c = (if template = [] then template else render template c)"

definition agent_prompt :: "prompt_graph \<Rightarrow> resolver \<Rightarrow> nat option \<Rightarrow> nat \<Rightarrow> prompt_states \<Rightarrow> (prompt_states \<times> string option) option" where
  "agent_prompt g call k a ss =
     (case map_of (pg_agents g) a of
        None \<Rightarrow> Some (ss, None)
      | Some i \<Rightarrow>
          (case map_of (ps_agents (state_at ss k)) a of
             Some cached \<Rightarrow> Some (ss, Some cached)
           | None \<Rightarrow>
               if a \<in> set (ps_agent_stack (state_at ss k)) then
                 (if \<not> ai_configured i then Some (ss, None)
                  else
                    (let fallback = pick_first_non_empty [ai_system i, Some default_prompt]
                     in Some (change_state k (cache_agent a fallback) ss, Some fallback)))
               else
                 (let ss1 = change_state k (push_agent a) ss
                  in if \<not> ai_configured i then Some (ss1, None)
                     else
                       (let template = (case ai_system i of None \<Rightarrow> default_prompt | Some t \<Rightarrow> t)
                        in case tool_entries (tool_entry_of g call k) (ai_tools i) ss1 of
                             None \<Rightarrow> None
                           | Some (ss2, None) \<Rightarrow> Some (ss2, None)
                           | Some (ss2, Some entries) \<Rightarrow>
                               (let prompt = pick_first_non_empty
                                  [Some (render_mustache (pg_render g) template entries), Some template, Some default_prompt]
                                in Some (change_state k (\<lambda>s. cache_agent a prompt (pop_agent a s)) ss2, Some prompt))))))"

definition agent_fallback :: "agent_info \<Rightarrow> string" where
  "agent_fallback i = (if ai_configured i then pick_first_non_empty [ai_system i] else [])"

definition worker_prompt :: "prompt_graph \<Rightarrow> resolver \<Rightarrow> nat option \<Rightarrow> nat \<Rightarrow> agent_info \<Rightarrow> prompt_states \<Rightarrow> (prompt_states \<times> string) option" where
  "worker_prompt g call k a i ss =
     (let fallback = (if agent_fallback i \<noteq> [] then agent_fallback i else default_prompt)
      in if a \<in> set (ps_agent_stack (state_at ss k)) then Some (change_state k (cache_agent a fallback) ss, fallback)
         else
           (case call (Resolve_agent k a) ss of
              None \<Rightarrow> None
            | Some (ss1, None) \<Rightarrow> Some (ss1, fallback)
            | Some (ss1, Some p) \<Rightarrow> Some (ss1, if js_trim p \<noteq> [] then js_trim p else fallback)))"

fun worker_entries ::
  "prompt_graph \<Rightarrow> resolver \<Rightarrow> nat option \<Rightarrow> nat list \<Rightarrow> prompt_states \<Rightarrow> (prompt_states \<times> worker_entry list) option" where
  "worker_entries g call k [] ss = Some (ss, [])"
| "worker_entries g call k (a # as) ss =
     (case map_of (pg_agents g) a of
        None \<Rightarrow> worker_entries g call k as ss
      | Some i \<Rightarrow>
          (case worker_prompt g call k a i ss of
             None \<Rightarrow> None
           | Some (ss1, p) \<Rightarrow>
               (case worker_entries g call k as ss1 of
                  None \<Rightarrow> None
                | Some (ss2, es) \<Rightarrow>
                    Some (ss2, (js_trim (case ai_name i of None \<Rightarrow> [] | Some n \<Rightarrow> n),
                                js_trim (case ai_role i of None \<Rightarrow> [] | Some r \<Rightarrow> r), p) # es))))"

definition manage_prompt :: "prompt_graph \<Rightarrow> resolver \<Rightarrow> nat option \<Rightarrow> nat \<Rightarrow> prompt_states \<Rightarrow> (prompt_states \<times> string option) option" where
  "manage_prompt g call k m ss =
     (case map_of (pg_tools g) m of
        None \<Rightarrow> Some (ss, None)
      | Some i \<Rightarrow>
          (case read_config_string (ni_prompt i) of
             None \<Rightarrow> Some (change_state k (cache_tool m (manage_fallback i)) ss, Some (manage_fallback i))
           | Some template \<Rightarrow>
               (case map_of (ps_tools (state_at ss k)) m of
                  Some cached \<Rightarrow> Some (ss, Some cached)
                | None \<Rightarrow>
                    if m \<in> set (ps_tool_stack (state_at ss k))
                    then Some (change_state k (cache_tool m (manage_fallback i)) ss, Some (manage_fallback i))
                    else
                      (let ss1 = change_state k (push_tool m) ss
                       in if \<not> ni_workers_ok i then Some (change_state k (pop_tool m) ss1, None)
                          else
                            (case worker_entries g call k (ni_workers i) ss1 of
                               None \<Rightarrow> None
                             | Some (ss2, entries) \<Rightarrow>
                                 (let rendered = js_trim (render_mustache (pg_render_workers g) template entries);
                                      r = (if rendered \<noteq> [] then rendered else manage_fallback i)
                                  in Some (change_state k (\<lambda>s. pop_tool m (cache_tool m r s)) ss2, Some r)))))))"

text \<open>The getter: within its own run it goes on with the state it has made, else it makes one.\<close>

definition describe_manage :: "prompt_graph \<Rightarrow> resolver \<Rightarrow> nat \<Rightarrow> prompt_states \<Rightarrow> (prompt_states \<times> string option) option" where
  "describe_manage g call m ss =
     (if map_of ss (Some m) \<noteq> None then manage_prompt g call (Some m) m ss
      else
        (case manage_prompt g call (Some m) m (AList.update (Some m) create_state ss) of
           None \<Rightarrow> None
         | Some (ss1, r) \<Rightarrow> Some (AList.delete (Some m) ss1, r)))"

fun resolve :: "nat \<Rightarrow> prompt_graph \<Rightarrow> request \<Rightarrow> prompt_states \<Rightarrow> (prompt_states \<times> string option) option" where
  "resolve 0 g req ss = None"
| "resolve (Suc fuel) g req ss =
     (case req of
        Resolve_agent k a \<Rightarrow> agent_prompt g (resolve fuel g) k a ss
      | Resolve_manage k m \<Rightarrow> manage_prompt g (resolve fuel g) k m ss
      | Describe m \<Rightarrow> describe_manage g (resolve fuel g) m ss)"

text \<open>\<open>resolveEffectiveSystemPrompt\<close> as a run calls it, with a fresh state.\<close>

definition effective_prompt :: "nat \<Rightarrow> prompt_graph \<Rightarrow> nat \<Rightarrow> string option option" where
  "effective_prompt fuel g a = map_option snd (resolve fuel g (Resolve_agent None a) [(None, create_state)])"

section \<open>How much fuel is enough\<close>

text \<open>
  What is left to visit: in every state there is, the agents and tools not on its stacks, and for every
  description state that could still be made, all of them and one more.
\<close>

definition state_keys :: "prompt_graph \<Rightarrow> nat option list" where
  "state_keys g = None # map (\<lambda>p. Some (fst p)) (pg_tools g)"

definition unvisited :: "prompt_graph \<Rightarrow> prompt_state \<Rightarrow> nat" where
  "unvisited g s =
     length (filter (\<lambda>p. fst p \<notin> set (ps_agent_stack s)) (pg_agents g))
     + length (filter (\<lambda>p. fst p \<notin> set (ps_tool_stack s)) (pg_tools g))"

definition state_weight :: "prompt_graph \<Rightarrow> prompt_states \<Rightarrow> nat option \<Rightarrow> nat" where
  "state_weight g ss k =
     (case map_of ss k of
        None \<Rightarrow> Suc (length (pg_agents g) + length (pg_tools g))
      | Some s \<Rightarrow> unvisited g s)"

definition left_to_visit :: "prompt_graph \<Rightarrow> prompt_states \<Rightarrow> nat" where
  "left_to_visit g ss = sum_list (map (state_weight g ss) (state_keys g))"

text \<open>The states after a call: the same ones, with nothing taken off their stacks.\<close>

definition grown :: "prompt_states \<Rightarrow> prompt_states \<Rightarrow> bool" where
  "grown ss ss' \<longleftrightarrow>
     (\<forall>k. case map_of ss k of
        None \<Rightarrow> map_of ss' k = None
      | Some s \<Rightarrow> (case map_of ss' k of None \<Rightarrow> False | Some s' \<Rightarrow>
          set (ps_agent_stack s) \<subseteq> set (ps_agent_stack s') \<and> set (ps_tool_stack s) \<subseteq> set (ps_tool_stack s')))"

lemma grown_refl [simp]: "grown ss ss"
  by (auto simp: grown_def split: option.splits)

lemma grown_trans: "grown a b \<Longrightarrow> grown b c \<Longrightarrow> grown a c"
  unfolding grown_def by (intro allI) (drule_tac x = k in spec, drule_tac x = k in spec, force split: option.splits)

lemma grown_present: "grown ss ss' \<Longrightarrow> (map_of ss' k = None) = (map_of ss k = None)"
  by (auto simp: grown_def split: option.splits dest: spec[of _ k])

lemma filter_length_mono: "(\<And>x. x \<in> set xs \<Longrightarrow> P x \<Longrightarrow> Q x) \<Longrightarrow> length (filter P xs) \<le> length (filter Q xs)"
  by (induction xs) auto

lemma filter_length_less:
  "(\<And>x. x \<in> set xs \<Longrightarrow> P x \<Longrightarrow> Q x) \<Longrightarrow> y \<in> set xs \<Longrightarrow> Q y \<Longrightarrow> \<not> P y \<Longrightarrow> length (filter P xs) < length (filter Q xs)"
proof (induction xs)
  case (Cons x xs)
  then have "length (filter P xs) \<le> length (filter Q xs)" by (intro filter_length_mono) auto
  with Cons show ?case by (cases "x = y") auto
qed simp

lemma unvisited_mono:
  "set (ps_agent_stack s) \<subseteq> set (ps_agent_stack s') \<Longrightarrow> set (ps_tool_stack s) \<subseteq> set (ps_tool_stack s') \<Longrightarrow>
     unvisited g s' \<le> unvisited g s"
  unfolding unvisited_def by (intro add_mono filter_length_mono) auto

lemma weight_mono: "grown ss ss' \<Longrightarrow> state_weight g ss' k \<le> state_weight g ss k"
  by (auto simp: grown_def state_weight_def split: option.splits dest!: spec[of _ k] intro: unvisited_mono)

lemma sum_list_less:
  "(\<And>x. x \<in> set xs \<Longrightarrow> f x \<le> (h x :: nat)) \<Longrightarrow> y \<in> set xs \<Longrightarrow> f y < h y \<Longrightarrow> sum_list (map f xs) < sum_list (map h xs)"
proof (induction xs)
  case (Cons x xs)
  then have "sum_list (map f xs) \<le> sum_list (map h xs)" by (intro sum_list_mono) auto
  with Cons show ?case by (cases "x = y") (auto intro: add_le_less_mono)
qed simp

lemma left_mono: "grown ss ss' \<Longrightarrow> left_to_visit g ss' \<le> left_to_visit g ss"
  unfolding left_to_visit_def by (intro sum_list_mono weight_mono)

lemma change_at: "map_of (change_state k f ss) j = (if j = k then Some (f (state_at ss k)) else map_of ss j)"
  by (simp add: change_state_def map_laws)

lemma grown_change:
  assumes "map_of ss k = Some s" and "set (ps_agent_stack s) \<subseteq> set (ps_agent_stack (f s))"
    and "set (ps_tool_stack s) \<subseteq> set (ps_tool_stack (f s))"
  shows "grown ss (change_state k f ss)"
  using assms by (auto simp: grown_def change_at state_at_def split: option.splits)

lemma cache_stacks [simp]:
  "ps_agent_stack (cache_agent a v s) = ps_agent_stack s" "ps_tool_stack (cache_agent a v s) = ps_tool_stack s"
  "ps_agent_stack (cache_tool t v s) = ps_agent_stack s" "ps_tool_stack (cache_tool t v s) = ps_tool_stack s"
  by (simp_all add: cache_agent_def cache_tool_def)

lemma push_pop_stacks [simp]:
  "set (ps_agent_stack (push_agent a s)) = insert a (set (ps_agent_stack s))" "ps_tool_stack (push_agent a s) = ps_tool_stack s"
  "set (ps_tool_stack (push_tool t s)) = insert t (set (ps_tool_stack s))" "ps_agent_stack (push_tool t s) = ps_agent_stack s"
  "set (ps_agent_stack (pop_agent a s)) = set (ps_agent_stack s) - {a}" "ps_tool_stack (pop_agent a s) = ps_tool_stack s"
  "set (ps_tool_stack (pop_tool t s)) = set (ps_tool_stack s) - {t}" "ps_agent_stack (pop_tool t s) = ps_agent_stack s"
  by (auto simp: push_agent_def push_tool_def pop_agent_def pop_tool_def)

lemma push_less:
  assumes "k \<in> set (state_keys g)" and "map_of ss k = Some s" and "unvisited g (f s) < unvisited g s"
    and "grown ss (change_state k f ss)"
  shows "left_to_visit g (change_state k f ss) < left_to_visit g ss"
  unfolding left_to_visit_def
proof (rule sum_list_less[OF weight_mono[OF assms(4)] assms(1)])
  show "state_weight g (change_state k f ss) k < state_weight g ss k"
    using assms(2,3) by (simp add: state_weight_def change_at state_at_def)
qed

lemma push_agent_less:
  assumes "a \<in> fst ` set (pg_agents g)" and "a \<notin> set (ps_agent_stack s)"
  shows "unvisited g (push_agent a s) < unvisited g s"
proof -
  from assms(1) obtain p where "p \<in> set (pg_agents g)" "fst p = a" by auto
  with assms(2) have "length (filter (\<lambda>p. fst p \<notin> set (ps_agent_stack (push_agent a s))) (pg_agents g))
      < length (filter (\<lambda>p. fst p \<notin> set (ps_agent_stack s)) (pg_agents g))"
    by (intro filter_length_less[of _ _ _ p]) auto
  then show ?thesis by (simp add: unvisited_def)
qed

lemma push_tool_less:
  assumes "t \<in> fst ` set (pg_tools g)" and "t \<notin> set (ps_tool_stack s)"
  shows "unvisited g (push_tool t s) < unvisited g s"
proof -
  from assms(1) obtain p where "p \<in> set (pg_tools g)" "fst p = t" by auto
  with assms(2) have "length (filter (\<lambda>p. fst p \<notin> set (ps_tool_stack (push_tool t s))) (pg_tools g))
      < length (filter (\<lambda>p. fst p \<notin> set (ps_tool_stack s)) (pg_tools g))"
    by (intro filter_length_less[of _ _ _ p]) auto
  then show ?thesis by (simp add: unvisited_def)
qed

text \<open>Requests the resolution makes, and what it means that a resolver answers those of a given size.\<close>

definition proper_key :: "prompt_graph \<Rightarrow> prompt_states \<Rightarrow> nat option \<Rightarrow> bool" where
  "proper_key g ss k \<longleftrightarrow> k \<in> set (state_keys g) \<and> map_of ss k \<noteq> None"

definition proper :: "prompt_graph \<Rightarrow> prompt_states \<Rightarrow> request \<Rightarrow> bool" where
  "proper g ss req =
     (case req of
        Resolve_agent k a \<Rightarrow> proper_key g ss k
      | Resolve_manage k m \<Rightarrow> proper_key g ss k
      | Describe m \<Rightarrow> m \<in> fst ` set (pg_tools g))"

definition ends :: "prompt_states \<Rightarrow> (prompt_states \<times> 'a) option \<Rightarrow> bool" where
  "ends ss r = (case r of None \<Rightarrow> False | Some (ss', v) \<Rightarrow> grown ss ss')"

definition call_answers :: "prompt_graph \<Rightarrow> nat \<Rightarrow> resolver \<Rightarrow> bool" where
  "call_answers g n call \<longleftrightarrow> (\<forall>req ss. proper g ss req \<and> left_to_visit g ss < n \<longrightarrow> ends ss (call req ss))"

lemma ends_Some [simp]: "ends ss (Some (ss', v)) = grown ss ss'" and ends_None [simp]: "\<not> ends ss None"
  by (simp_all add: ends_def)

lemma endsE: "ends ss r \<Longrightarrow> (\<And>ss' v. r = Some (ss', v) \<Longrightarrow> grown ss ss' \<Longrightarrow> thesis) \<Longrightarrow> thesis"
  by (auto simp: ends_def split: option.splits)

lemma proper_grown: "proper_key g ss k \<Longrightarrow> grown ss ss' \<Longrightarrow> proper_key g ss' k"
  by (auto simp: proper_key_def dest: grown_present[of _ _ k])

lemma key_in_tools: "m \<in> fst ` set (pg_tools g) \<Longrightarrow> Some m \<in> set (state_keys g)"
  by (auto simp: state_keys_def image_iff)

lemma answers_call:
  "call_answers g n call \<Longrightarrow> proper g ss req \<Longrightarrow> left_to_visit g ss < n \<Longrightarrow> ends ss (call req ss)"
  by (simp add: call_answers_def)

lemma less_grown: "left_to_visit g ss < n \<Longrightarrow> grown ss ss' \<Longrightarrow> left_to_visit g ss' < n"
  using left_mono le_less_trans by blast

lemma ends_bind:
  "ends ss r \<Longrightarrow> (\<And>ss1 v. r = Some (ss1, v) \<Longrightarrow> grown ss ss1 \<Longrightarrow> ends ss (h ss1 v)) \<Longrightarrow>
     ends ss (case r of None \<Rightarrow> None | Some (ss1, v) \<Rightarrow> h ss1 v)"
  by (auto elim: endsE)

lemma ends_bind_opt:
  "ends ss r \<Longrightarrow> (\<And>ss1 v. grown ss ss1 \<Longrightarrow> ends ss (h ss1 v)) \<Longrightarrow>
     ends ss (case r of None \<Rightarrow> None | Some (ss1, None) \<Rightarrow> Some (ss1, None) | Some (ss1, Some v) \<Rightarrow> h ss1 v)"
  by (auto elim!: endsE split: option.splits)

lemma ends_trans: "grown ss ss1 \<Longrightarrow> ends ss1 r \<Longrightarrow> ends ss r"
  by (auto elim!: endsE intro: grown_trans)

lemma lookup_key: "map_of m x = Some v \<Longrightarrow> x \<in> fst ` set m"
  by (auto dest: map_of_SomeD intro: rev_image_eqI)

lemma description_ends:
  "call_answers g n call \<Longrightarrow> left_to_visit g ss < n \<Longrightarrow> ends ss (tool_description g call t ss)"
  by (auto simp: tool_description_def proper_def lookup_key intro!: answers_call split: option.splits)

lemma cache_grown: "proper_key g ss k \<Longrightarrow> grown ss (change_state k (cache_tool m r) ss)"
    "proper_key g ss k \<Longrightarrow> grown ss (change_state k (cache_agent m r) ss)"
  by (auto simp: proper_key_def intro: grown_change)

lemma tool_prompt_ends:
  assumes "call_answers g n call" and "proper_key g ss k" and "left_to_visit g ss < n"
  shows "ends ss (resolve_tool_prompt g call k t fallback ss)"
proof (cases "Option.bind (pt_node t) (\<lambda>n. map_option (Pair n) (map_of (pg_tools g) n))")
  case (Some q)
  obtain m i where q: "q = (m, i)" by (cases q)
  have "ends ss (call (Resolve_manage k m) ss)"
    using assms by (intro answers_call) (auto simp: proper_def)
  then obtain ss1 v where r: "call (Resolve_manage k m) ss = Some (ss1, v)" "grown ss ss1" by (rule endsE)
  have "grown ss (change_state k (cache_tool m u) ss1)" for u
    using cache_grown(1)[OF proper_grown[OF assms(2) r(2)]] r(2) grown_trans by blast
  then show ?thesis
    by (cases "ni_manage i") (auto simp: resolve_tool_prompt_def Some q r(1) Let_def cache_grown[OF assms(2)] split: option.split)
qed (simp add: resolve_tool_prompt_def)

lemma entry_ends:
  assumes "call_answers g n call" and "proper_key g ss k" and "left_to_visit g ss < n"
  shows "ends ss (tool_entry_of g call k t ss)"
proof -
  have d: "ends ss (tool_description g call t ss1)" if "grown ss ss1" for ss1
    using description_ends[OF assms(1) less_grown[OF assms(3) that]] ends_trans[OF that] by blast
  have p: "ends ss (resolve_tool_prompt g call k t fallback ss1)" if "grown ss ss1" for fallback ss1
    using tool_prompt_ends[OF assms(1) proper_grown[OF assms(2) that] less_grown[OF assms(3) that]] ends_trans[OF that]
    by blast
  show ?thesis
    unfolding tool_entry_of_def Let_def
    by (intro ends_bind_opt d p grown_refl) simp_all
qed

lemma entries_ends:
  assumes "call_answers g n call" and "proper_key g ss k" and "left_to_visit g ss < n"
  shows "ends ss (tool_entries (tool_entry_of g call k) ts ss)"
  using assms(2,3)
proof (induction ts arbitrary: ss)
  case (Cons t ts)
  have rest: "ends ss (tool_entries (tool_entry_of g call k) ts ss1)" if "grown ss ss1" for ss1
    using Cons.IH[OF proper_grown[OF Cons.prems(1) that] less_grown[OF Cons.prems(2) that]] ends_trans[OF that] by blast
  show ?case
    unfolding tool_entries.simps by (intro ends_bind_opt entry_ends[OF assms(1) Cons.prems] rest) simp_all
qed simp

lemma worker_ends:
  assumes "call_answers g n call" and "proper_key g ss k" and "left_to_visit g ss < n"
  shows "ends ss (worker_prompt g call k a i ss)"
proof -
  have "ends ss (call (Resolve_agent k a) ss)"
    using assms by (intro answers_call) (auto simp: proper_def)
  then obtain ss1 v where "call (Resolve_agent k a) ss = Some (ss1, v)" "grown ss ss1" by (rule endsE)
  then show ?thesis by (auto simp: worker_prompt_def Let_def cache_grown[OF assms(2)] split: option.split)
qed

lemma workers_ends:
  assumes "call_answers g n call" and "proper_key g ss k" and "left_to_visit g ss < n"
  shows "ends ss (worker_entries g call k as ss)"
  using assms(2,3)
proof (induction as arbitrary: ss)
  case (Cons a as)
  show ?case
  proof (cases "map_of (pg_agents g) a")
    case (Some i)
    obtain ss1 p where w: "worker_prompt g call k a i ss = Some (ss1, p)" "grown ss ss1"
      using worker_ends[OF assms(1) Cons.prems] by (rule endsE)
    obtain ss2 es where "worker_entries g call k as ss1 = Some (ss2, es)" "grown ss1 ss2"
      using Cons.IH[OF proper_grown[OF Cons.prems(1) w(2)] less_grown[OF Cons.prems(2) w(2)]] by (rule endsE)
    with Some w show ?thesis by (auto intro: grown_trans)
  qed (use Cons in simp)
qed simp

text \<open>Both bodies push first, so their calls have less left to visit.\<close>

lemma undo_grown:
  assumes "map_of ss k = Some s" and "grown (change_state k f ss) ss2"
    and "\<And>s2. set (ps_agent_stack (f s)) \<subseteq> set (ps_agent_stack s2) \<Longrightarrow> set (ps_tool_stack (f s)) \<subseteq> set (ps_tool_stack s2) \<Longrightarrow>
      set (ps_agent_stack s) \<subseteq> set (ps_agent_stack (h s2)) \<and> set (ps_tool_stack s) \<subseteq> set (ps_tool_stack (h s2))"
  shows "grown ss (change_state k h ss2)"
  unfolding grown_def
proof
  fix j
  have g: "case map_of (change_state k f ss) j of
        None \<Rightarrow> map_of ss2 j = None
      | Some s \<Rightarrow> (case map_of ss2 j of None \<Rightarrow> False | Some s' \<Rightarrow>
          set (ps_agent_stack s) \<subseteq> set (ps_agent_stack s') \<and> set (ps_tool_stack s) \<subseteq> set (ps_tool_stack s'))"
    using assms(2) unfolding grown_def by blast
  show "case map_of ss j of
        None \<Rightarrow> map_of (change_state k h ss2) j = None
      | Some s \<Rightarrow> (case map_of (change_state k h ss2) j of None \<Rightarrow> False | Some s' \<Rightarrow>
          set (ps_agent_stack s) \<subseteq> set (ps_agent_stack s') \<and> set (ps_tool_stack s) \<subseteq> set (ps_tool_stack s'))"
  proof (cases "j = k")
    case True
    then obtain s2 where "map_of ss2 k = Some s2" "set (ps_agent_stack (f s)) \<subseteq> set (ps_agent_stack s2)"
        "set (ps_tool_stack (f s)) \<subseteq> set (ps_tool_stack s2)"
      using g assms(1) by (auto simp: change_at state_at_def split: option.splits)
    then show ?thesis using assms(3)[of s2] assms(1) True by (simp add: change_at state_at_def)
  next
    case False
    then show ?thesis using g by (simp add: change_at cong: option.case_cong)
  qed
qed

lemma pop_grown:
  assumes "map_of ss k = Some s" and "a \<notin> set (ps_agent_stack s)" and "grown (change_state k (push_agent a) ss) ss2"
  shows "grown ss (change_state k (\<lambda>s. cache_agent b v (pop_agent a s)) ss2)"
  by (rule undo_grown[OF assms(1,3)]) (use assms(2) in auto)

lemma pop_tool_grown:
  assumes "map_of ss k = Some s" and "t \<notin> set (ps_tool_stack s)" and "grown (change_state k (push_tool t) ss) ss2"
  shows "grown ss (change_state k (\<lambda>s. pop_tool t (cache_tool b v s)) ss2)"
    and "grown ss (change_state k (pop_tool t) ss2)"
  by (rule undo_grown[OF assms(1,3)]; use assms(2) in auto)+

lemma agent_ends:
  assumes "call_answers g n call" and "proper_key g ss k" and "left_to_visit g ss \<le> n"
  shows "ends ss (agent_prompt g call k a ss)"
proof (cases "map_of (pg_agents g) a")
  case (Some i)
  obtain s where s: "map_of ss k = Some s" "state_at ss k = s" and k: "k \<in> set (state_keys g)"
    using assms(2) by (auto simp: proper_key_def state_at_def)
  show ?thesis
  proof (cases "map_of (ps_agents s) a \<noteq> None \<or> a \<in> set (ps_agent_stack s)")
    case True
    then show ?thesis using Some s cache_grown(2)[OF assms(2)] by (auto simp: agent_prompt_def Let_def split: option.split)
  next
    case False
    define ss1 where "ss1 = change_state k (push_agent a) ss"
    have g1: "grown ss ss1" unfolding ss1_def using s(1) by (rule grown_change) auto
    have "unvisited g (push_agent a s) < unvisited g s"
      using False Some by (intro push_agent_less lookup_key) auto
    from push_less[OF k s(1) this g1[unfolded ss1_def]] have l1: "left_to_visit g ss1 < n"
      using assms(3) by (simp add: ss1_def)
    obtain ss2 v where e: "tool_entries (tool_entry_of g call k) (ai_tools i) ss1 = Some (ss2, v)" "grown ss1 ss2"
      using entries_ends[OF assms(1) proper_grown[OF assms(2) g1] l1] by (rule endsE)
    have "grown ss (change_state k (\<lambda>s. cache_agent a p (pop_agent a s)) ss2)" for p
      using pop_grown[OF s(1) _ e(2)[unfolded ss1_def]] False by simp
    then show ?thesis using Some s False e g1 grown_trans[OF g1 e(2)]
      by (auto simp: agent_prompt_def Let_def ss1_def[symmetric] split: option.split)
  qed
qed (simp add: agent_prompt_def)

lemma manage_ends:
  assumes "call_answers g n call" and "proper_key g ss k" and "left_to_visit g ss \<le> n"
  shows "ends ss (manage_prompt g call k m ss)"
proof (cases "map_of (pg_tools g) m")
  case (Some i)
  obtain s where s: "map_of ss k = Some s" "state_at ss k = s" and k: "k \<in> set (state_keys g)"
    using assms(2) by (auto simp: proper_key_def state_at_def)
  show ?thesis
  proof (cases "map_of (ps_tools s) m \<noteq> None \<or> m \<in> set (ps_tool_stack s)")
    case True
    then show ?thesis using Some s cache_grown(1)[OF assms(2)] by (auto simp: manage_prompt_def Let_def split: option.split)
  next
    case False
    define ss1 where "ss1 = change_state k (push_tool m) ss"
    have g1: "grown ss ss1" unfolding ss1_def using s(1) by (rule grown_change) auto
    have "unvisited g (push_tool m s) < unvisited g s"
      using False Some by (intro push_tool_less lookup_key) auto
    from push_less[OF k s(1) this g1[unfolded ss1_def]] have l1: "left_to_visit g ss1 < n"
      using assms(3) by (simp add: ss1_def)
    obtain ss2 v where e: "worker_entries g call k (ni_workers i) ss1 = Some (ss2, v)" "grown ss1 ss2"
      using workers_ends[OF assms(1) proper_grown[OF assms(2) g1] l1] by (rule endsE)
    have "grown ss (change_state k (\<lambda>s. pop_tool m (cache_tool m p s)) ss2)" for p
      using pop_tool_grown(1)[OF s(1) _ e(2)[unfolded ss1_def]] False by simp
    moreover have "grown ss (change_state k (pop_tool m) ss1)"
      using pop_tool_grown(2)[OF s(1) _ grown_refl] False by (simp add: ss1_def)
    ultimately show ?thesis using Some s False e cache_grown(1)[OF assms(2)]
      by (auto simp: manage_prompt_def Let_def ss1_def[symmetric] split: option.split)
  qed
qed (simp add: manage_prompt_def)

lemma describe_ends:
  assumes "call_answers g n call" and "m \<in> fst ` set (pg_tools g)" and "left_to_visit g ss \<le> n"
  shows "ends ss (describe_manage g call m ss)"
proof (cases "map_of ss (Some m)")
  case (Some s)
  then have "proper_key g ss (Some m)" using key_in_tools[OF assms(2)] by (simp add: proper_key_def)
  then show ?thesis using manage_ends[OF assms(1) _ assms(3)] Some by (simp add: describe_manage_def)
next
  case None
  define ss1 where "ss1 = AList.update (Some m) create_state ss"
  have at: "map_of ss1 j = (if j = Some m then Some create_state else map_of ss j)" for j
    by (simp add: ss1_def map_laws)
  have "proper_key g ss1 (Some m)" using key_in_tools[OF assms(2)] by (simp add: proper_key_def at)
  moreover have "left_to_visit g ss1 < left_to_visit g ss"
    unfolding left_to_visit_def
  proof (rule sum_list_less[OF _ key_in_tools[OF assms(2)]])
    show "state_weight g ss1 (Some m) < state_weight g ss (Some m)"
      using None by (simp add: state_weight_def at unvisited_def le_imp_less_Suc add_mono)
    show "state_weight g ss1 j \<le> state_weight g ss j" for j
      using None by (auto simp: state_weight_def at unvisited_def le_SucI add_mono)
  qed
  ultimately obtain ss2 r where r: "manage_prompt g call (Some m) m ss1 = Some (ss2, r)" "grown ss1 ss2"
    using manage_ends[OF assms(1)] assms(3) by (metis endsE less_imp_le order_trans)
  have "grown ss (AList.delete (Some m) ss2)"
    unfolding grown_def
  proof
    fix j
    show "case map_of ss j of
        None \<Rightarrow> map_of (AList.delete (Some m) ss2) j = None
      | Some s \<Rightarrow> (case map_of (AList.delete (Some m) ss2) j of None \<Rightarrow> False | Some s' \<Rightarrow>
          set (ps_agent_stack s) \<subseteq> set (ps_agent_stack s') \<and> set (ps_tool_stack s) \<subseteq> set (ps_tool_stack s'))"
      using r(2)[unfolded grown_def, rule_format, of j] None by (cases "j = Some m") (simp_all add: map_laws at cong: option.case_cong)
  qed
  then show ?thesis using None r(1) by (simp add: describe_manage_def ss1_def)
qed

lemma resolve_answers: "call_answers g n (resolve n g)"
proof (induction n)
  case (Suc n)
  show ?case
    unfolding call_answers_def
    using agent_ends[OF Suc] manage_ends[OF Suc] describe_ends[OF Suc]
    by (auto simp: proper_def less_Suc_eq_le split: request.splits)
qed (simp add: call_answers_def)

section \<open>Properties\<close>

text \<open>
  C32. Resolving a prompt ends on every graph of agents and manage tools, cyclic ones included: the depth
  of the recursion is at most the number of agents and tools, once for the main state and once more
  for the description state of every tool.
\<close>

theorem prompt_resolution_ends:
  "effective_prompt (Suc (Suc (length (pg_tools g)) * Suc (length (pg_agents g) + length (pg_tools g)))) g a \<noteq> None"
proof -
  let ?A = "length (pg_agents g)" and ?T = "length (pg_tools g)" and ?s = "[(None, create_state)]"
  have "proper g ?s (Resolve_agent None a)" by (simp add: proper_def proper_key_def state_keys_def)
  moreover have "left_to_visit g ?s \<le> Suc ?T * Suc (?A + ?T)"
  proof -
    have "state_weight g ?s k \<le> Suc (?A + ?T)" for k
      by (auto simp: state_weight_def unvisited_def create_state_def)
    then have "left_to_visit g ?s \<le> sum_list (map (\<lambda>k. Suc (?A + ?T)) (state_keys g))"
      unfolding left_to_visit_def by (intro sum_list_mono)
    also have "\<dots> = length (state_keys g) * Suc (?A + ?T)" by (simp only: sum_list_triv of_nat_id)
    also have "length (state_keys g) = Suc ?T" by (simp add: state_keys_def)
    finally show ?thesis .
  qed
  ultimately have "ends ?s (resolve (Suc (Suc ?T * Suc (?A + ?T))) g (Resolve_agent None a) ?s)"
    using resolve_answers unfolding call_answers_def by (metis le_imp_less_Suc)
  then show ?thesis by (auto simp: effective_prompt_def elim: endsE)
qed

lemma pick_non_empty: "js_trim v \<noteq> [] \<Longrightarrow> Some v \<in> set vs \<Longrightarrow> pick_first_non_empty vs \<noteq> []"
  by (induction vs rule: pick_first_non_empty.induct) auto

lemma default_prompt_trim: "js_trim default_prompt \<noteq> []"
  by code_simp

text \<open>
  An agent that is resolved from scratch never gets an empty prompt: what a run sends to the model
  is the rendered template, the template itself, or the default prompt.
\<close>

theorem prompt_never_empty:
  "case effective_prompt fuel g a of Some (Some p) \<Rightarrow> p \<noteq> [] | _ \<Rightarrow> True"
proof (cases fuel)
  case (Suc n)
  have p: "pick_first_non_empty [u, v, Some default_prompt] \<noteq> []" for u v
    using default_prompt_trim by (intro pick_non_empty) auto
  show ?thesis
    by (auto simp: effective_prompt_def Suc agent_prompt_def state_at_def create_state_def change_at Let_def p default_prompt_trim
        split: option.splits)
qed (simp add: effective_prompt_def)

end
