(* ===== verification/Manage_Tool.thy ===== *)
theory Manage_Tool
  imports JsString
begin

text \<open>
  The manage tool, \<^verbatim>\<open>nodes/tools/manage/manage.node.ts\<close> and \<^verbatim>\<open>manage.tool.ts\<close>: the registry of
  workers by name, the channel through which workers answer, and the \<open>send_message\<close> command.

  A worker is its address; its configured name is read when needed, from the argument \<open>cfg\<close>:
  \<^const>\<open>None\<close> for a worker without configuration.  \<open>normalize('NFKC').toLowerCase()\<close> is the argument
  \<open>norm\<close>.  A promise has an address, and settling it adds to a list.
\<close>

section \<open>State\<close>

datatype manage_mode = Sync | Async

record worker_name =
  wn_name :: string
  wn_normalized :: string

record invocation_context =
  ic_parent :: string
  ic_worker :: string

record manage_node =
  mn_workers :: "nat list"
  mn_names :: "(nat \<times> worker_name) list"
  mn_by_name :: "(string \<times> nat) list"
  mn_contexts :: "(string \<times> invocation_context) list"
  mn_waiters :: "(string \<times> nat) list"
  mn_timers :: "(string \<times> nat) list"
  mn_queued :: "(string \<times> string list) list"
  mn_promises :: nat
  mn_settled :: "(nat \<times> (string + string)) list"
  mn_forwarded :: "(string \<times> string) list"
  mn_mode :: manage_mode
  mn_timeout :: "int option"

definition new_manage :: "manage_mode \<Rightarrow> int option \<Rightarrow> manage_node" where
  "new_manage mode timeout =
     \<lparr>mn_workers = [], mn_names = [], mn_by_name = [], mn_contexts = [], mn_waiters = [], mn_timers = [],
      mn_queued = [], mn_promises = 0, mn_settled = [], mn_forwarded = [], mn_mode = mode, mn_timeout = timeout\<rparr>"

datatype manage_error =
    Worker_unconfigured
  | Worker_unnamed
  | Name_taken string
  | Invalid_child
  | Waiter_exists
  | Missing_thread
  | No_agents
  | Worker_required
  | Message_required
  | Unknown_worker string
  | Caller_unavailable
  | Invalid_alias
  | Subthread_failed string
  | No_child
  | Channel_failed string
  | Forward_failed

section \<open>Workers\<close>

type_synonym worker_config = "nat \<Rightarrow> string option option"

definition extract_worker_name ::
  "(string \<Rightarrow> string) \<Rightarrow> worker_config \<Rightarrow> nat \<Rightarrow> manage_error + worker_name" where
  "extract_worker_name norm cfg a =
     (case cfg a of
        None \<Rightarrow> Inl Worker_unconfigured
      | Some name \<Rightarrow>
          (let raw = js_trim (case name of None \<Rightarrow> [] | Some n \<Rightarrow> n)
           in if raw = [] then Inl Worker_unnamed else Inr \<lparr>wn_name = raw, wn_normalized = norm raw\<rparr>))"

definition drop_name :: "nat \<Rightarrow> string \<Rightarrow> manage_node \<Rightarrow> manage_node" where
  "drop_name a n s =
     (if map_of (mn_by_name s) n = Some a then s\<lparr>mn_by_name := AList.delete n (mn_by_name s)\<rparr> else s)"

definition sync_worker ::
  "(string \<Rightarrow> string) \<Rightarrow> worker_config \<Rightarrow> nat \<Rightarrow> manage_node \<Rightarrow> manage_node \<times> (manage_error + worker_name)" where
  "sync_worker norm cfg a s =
     (case extract_worker_name norm cfg a of
        Inl e \<Rightarrow> (s, Inl e)
      | Inr latest \<Rightarrow>
          (let current = map_of (mn_names s) a
           in if current = Some latest then (s, Inr latest)
              else
                (let s1 = (case current of None \<Rightarrow> s | Some c \<Rightarrow> drop_name a (wn_normalized c) s)
                 in case map_of (mn_by_name s1) (wn_normalized latest) of
                      Some b \<Rightarrow>
                        if b \<noteq> a then (s1, Inl (Name_taken (wn_name latest)))
                        else (s1\<lparr>mn_names := AList.update a latest (mn_names s1),
                                 mn_by_name := AList.update (wn_normalized latest) a (mn_by_name s1)\<rparr>, Inr latest)
                    | None \<Rightarrow>
                        (s1\<lparr>mn_names := AList.update a latest (mn_names s1),
                            mn_by_name := AList.update (wn_normalized latest) a (mn_by_name s1)\<rparr>, Inr latest))))"

definition add_worker ::
  "(string \<Rightarrow> string) \<Rightarrow> worker_config \<Rightarrow> nat \<Rightarrow> manage_node \<Rightarrow> manage_node \<times> (manage_error + unit)" where
  "add_worker norm cfg a s =
     (case sync_worker norm cfg a (s\<lparr>mn_workers := set_add a (mn_workers s)\<rparr>) of
        (s1, Inl e) \<Rightarrow> (s1\<lparr>mn_workers := removeAll a (mn_workers s1)\<rparr>, Inl e)
      | (s1, Inr i) \<Rightarrow> (s1, Inr ()))"

definition remove_worker :: "nat \<Rightarrow> manage_node \<Rightarrow> manage_node" where
  "remove_worker a s =
     (let s1 = s\<lparr>mn_workers := removeAll a (mn_workers s)\<rparr>
      in case map_of (mn_names s1) a of
           None \<Rightarrow> s1
         | Some info \<Rightarrow>
             (let s2 = drop_name a (wn_normalized info) s1
              in s2\<lparr>mn_names := AList.delete a (mn_names s2)\<rparr>))"

fun refresh_workers ::
  "(string \<Rightarrow> string) \<Rightarrow> worker_config \<Rightarrow> nat list \<Rightarrow> manage_node \<Rightarrow> manage_node \<times> (manage_error + unit)" where
  "refresh_workers norm cfg [] s = (s, Inr ())"
| "refresh_workers norm cfg (a # as) s =
     (case sync_worker norm cfg a s of
        (s1, Inl e) \<Rightarrow> (s1, Inl e)
      | (s1, Inr i) \<Rightarrow> refresh_workers norm cfg as s1)"

definition list_workers ::
  "(string \<Rightarrow> string) \<Rightarrow> worker_config \<Rightarrow> manage_node \<Rightarrow> manage_node \<times> (manage_error + string option list)" where
  "list_workers norm cfg s =
     (case refresh_workers norm cfg (mn_workers s) s of
        (s1, Inl e) \<Rightarrow> (s1, Inl e)
      | (s1, Inr u) \<Rightarrow> (s1, Inr (map (\<lambda>a. map_option wn_name (map_of (mn_names s1) a)) (mn_workers s1))))"

definition get_worker_by_name ::
  "(string \<Rightarrow> string) \<Rightarrow> worker_config \<Rightarrow> string \<Rightarrow> manage_node \<Rightarrow> manage_node \<times> (manage_error + nat option)" where
  "get_worker_by_name norm cfg name s =
     (case refresh_workers norm cfg (mn_workers s) s of
        (s1, Inl e) \<Rightarrow> (s1, Inl e)
      | (s1, Inr u) \<Rightarrow>
          (let key = norm (js_trim name)
           in if key = [] then (s1, Inr None)
              else
                (case map_of (mn_by_name s1) key of
                   None \<Rightarrow> (s1, Inr None)
                 | Some a \<Rightarrow>
                     (case sync_worker norm cfg a s1 of
                        (s2, Inl e) \<Rightarrow> (s2, Inl e)
                      | (s2, Inr i) \<Rightarrow> (s2, Inr (Some a))))))"

definition get_worker_name ::
  "(string \<Rightarrow> string) \<Rightarrow> worker_config \<Rightarrow> nat \<Rightarrow> manage_node \<Rightarrow> manage_node \<times> (manage_error + string)" where
  "get_worker_name norm cfg a s =
     (case sync_worker norm cfg a s of (s1, Inl e) \<Rightarrow> (s1, Inl e) | (s1, Inr i) \<Rightarrow> (s1, Inr (wn_name i)))"

section \<open>The channel\<close>

definition get_timeout_ms :: "manage_node \<Rightarrow> int" where
  "get_timeout_ms s = (case mn_timeout s of None \<Rightarrow> 0 | Some t \<Rightarrow> max 0 t)"

definition render_worker_response :: "string \<Rightarrow> string \<Rightarrow> string" where
  "render_worker_response worker t =
     (if t = [] then ''Response from: '' @ worker else ''Response from: '' @ worker @ [CHR 0x0A] @ t)"

definition render_async_acknowledgement :: "string \<Rightarrow> string" where
  "render_async_acknowledgement worker = ''Request sent to '' @ worker @ ''; response will follow asynchronously.''"

definition forward_to_parent :: "bool \<Rightarrow> invocation_context \<Rightarrow> string \<Rightarrow> manage_node \<Rightarrow> manage_node \<times> bool" where
  "forward_to_parent reachable c t s =
     (if reachable
      then (s\<lparr>mn_forwarded := mn_forwarded s @ [(ic_parent c, render_worker_response (ic_worker c) t)]\<rparr>, True)
      else (s, False))"

fun forward_all :: "bool \<Rightarrow> invocation_context \<Rightarrow> string list \<Rightarrow> manage_node \<Rightarrow> manage_node \<times> bool" where
  "forward_all reachable c [] s = (s, True)"
| "forward_all reachable c (t # ts) s =
     (case forward_to_parent reachable c t s of
        (s1, True) \<Rightarrow> forward_all reachable c ts s1
      | (s1, False) \<Rightarrow> (s1, False))"

definition flush_queued :: "bool \<Rightarrow> string \<Rightarrow> invocation_context option \<Rightarrow> manage_node \<Rightarrow> manage_node \<times> bool" where
  "flush_queued reachable child c s =
     (case map_of (mn_queued s) child of
        None \<Rightarrow> (s, True)
      | Some q \<Rightarrow>
          if q = [] then (s, True)
          else
            (let s1 = s\<lparr>mn_queued := AList.delete child (mn_queued s)\<rparr>
             in case c of None \<Rightarrow> (s1, True) | Some x \<Rightarrow> forward_all reachable x q s1))"

text \<open>The flag says whether registering went through.\<close>

definition register_invocation :: "bool \<Rightarrow> string \<Rightarrow> invocation_context \<Rightarrow> manage_node \<Rightarrow> manage_node \<times> bool" where
  "register_invocation reachable child c s =
     (let k = js_trim child
      in if k = [] then (s, True)
         else
           (case flush_queued reachable k (map_of (mn_contexts s) k) s of
              (s1, False) \<Rightarrow> (s1, False)
            | (s1, True) \<Rightarrow> (s1\<lparr>mn_contexts := AList.update k c (mn_contexts s1)\<rparr>, True)))"

definition dequeue_message :: "string \<Rightarrow> manage_node \<Rightarrow> manage_node \<times> string option" where
  "dequeue_message child s =
     (case map_of (mn_queued s) child of
        Some (t # ts) \<Rightarrow>
          (s\<lparr>mn_queued := (if ts = [] then AList.delete child (mn_queued s) else AList.update child ts (mn_queued s))\<rparr>,
           Some t)
      | _ \<Rightarrow> (s, None))"

datatype awaited = Answered string | Promise nat

definition await_child_response :: "string \<Rightarrow> int option \<Rightarrow> manage_node \<Rightarrow> manage_node \<times> (manage_error + awaited)" where
  "await_child_response child timeout s =
     (let k = js_trim child
      in if k = [] then (s, Inl Invalid_child)
         else
           (case dequeue_message k s of
              (s1, Some t) \<Rightarrow> (s1, Inr (Answered t))
            | (s1, None) \<Rightarrow>
                if map_of (mn_waiters s1) k \<noteq> None then (s1, Inl Waiter_exists)
                else
                  (let safe = max 0 (case timeout of Some t \<Rightarrow> t | None \<Rightarrow> get_timeout_ms s1); p = mn_promises s1
                   in (s1\<lparr>mn_promises := Suc p,
                          mn_timers := (if safe > 0 then AList.update k p (mn_timers s1) else AList.delete k (mn_timers s1)),
                          mn_waiters := AList.update k p (mn_waiters s1)\<rparr>,
                       Inr (Promise p)))))"

text \<open>The closures a waiter is made of.\<close>

definition settle_waiter :: "string \<Rightarrow> nat \<Rightarrow> string + string \<Rightarrow> manage_node \<Rightarrow> manage_node" where
  "settle_waiter k p r s =
     s\<lparr>mn_timers := (if map_of (mn_timers s) k = Some p then AList.delete k (mn_timers s) else mn_timers s),
       mn_waiters := AList.delete k (mn_waiters s),
       mn_settled := mn_settled s @ [(p, r)]\<rparr>"

definition fire_timeout :: "string \<Rightarrow> manage_node \<Rightarrow> manage_node" where
  "fire_timeout k s =
     (case map_of (mn_timers s) k of
        None \<Rightarrow> s
      | Some p \<Rightarrow>
          s\<lparr>mn_waiters := AList.delete k (mn_waiters s), mn_timers := AList.delete k (mn_timers s),
            mn_settled := mn_settled s @ [(p, Inl ''manage_timeout'')]\<rparr>)"

datatype send_result = Sent string | Send_error string "string option"

definition send_to_channel :: "bool \<Rightarrow> string \<Rightarrow> string \<Rightarrow> manage_node \<Rightarrow> manage_node \<times> send_result" where
  "send_to_channel reachable thread t s =
     (let k = js_trim thread
      in if k = [] then (s, Send_error ''missing_thread_id'' None)
         else if js_trim t = [] then (s, Send_error ''empty_message'' None)
         else
           (case map_of (mn_waiters s) k of
              Some p \<Rightarrow> (settle_waiter k p (Inr t) s, Sent k)
            | None \<Rightarrow>
                if mn_mode s = Sync then (s, Send_error ''missing_waiter'' (Some k))
                else
                  (case map_of (mn_contexts s) k of
                     None \<Rightarrow> (s, Send_error ''missing_invocation_context'' (Some k))
                   | Some c \<Rightarrow>
                       (case forward_to_parent reachable c t s of
                          (s1, True) \<Rightarrow> (s1, Sent k)
                        | (s1, False) \<Rightarrow> (s1, Send_error ''forward_failed'' (Some k))))))"

section \<open>The command\<close>

definition ascii_lower :: "char \<Rightarrow> char" where
  "ascii_lower c = (if 65 \<le> (of_char c :: nat) \<and> (of_char c :: nat) \<le> 90 then char_of ((of_char c :: nat) + 32) else c)"

definition alias_letter :: "char \<Rightarrow> bool" where
  "alias_letter c \<longleftrightarrow>
     (97 \<le> (of_char c :: nat) \<and> (of_char c :: nat) \<le> 122) \<or> (48 \<le> (of_char c :: nat) \<and> (of_char c :: nat) \<le> 57)"

definition alias_char :: "char \<Rightarrow> bool" where
  "alias_char c \<longleftrightarrow> alias_letter c \<or> c = CHR ''.'' \<or> c = CHR ''_'' \<or> c = CHR ''-''"

text \<open>Runs of white space, and then runs of hyphens, become one hyphen.\<close>

fun hyphenate :: "bool \<Rightarrow> string \<Rightarrow> string" where
  "hyphenate inside [] = []"
| "hyphenate inside (c # cs) =
     (if js_space c then (if inside then hyphenate True cs else CHR ''-'' # hyphenate True cs)
      else c # hyphenate False cs)"

fun collapse_hyphens :: "bool \<Rightarrow> string \<Rightarrow> string" where
  "collapse_hyphens inside [] = []"
| "collapse_hyphens inside (c # cs) =
     (if c = CHR ''-'' then (if inside then collapse_hyphens True cs else c # collapse_hyphens True cs)
      else c # collapse_hyphens False cs)"

definition sanitize_alias :: "string \<Rightarrow> string option" where
  "sanitize_alias raw =
     (let collapsed = collapse_hyphens False (filter alias_char (hyphenate False (map ascii_lower raw)));
          truncated = take 64 collapsed
      in if truncated = [] \<or> \<not> list_ex alias_letter truncated then None else Some truncated)"

record manage_env =
  me_subthread :: "string \<Rightarrow> string + string"
  me_channel :: "string option"
  me_run_id :: string
  me_caller :: bool
  me_reachable :: bool

datatype manage_effect = Linked string string | Channel_set string | Worker_invoked nat string string

datatype manage_reply = Acknowledged string | Waiting nat string | Immediate string

definition choose_subthread ::
  "(string \<Rightarrow> string + string) \<Rightarrow> string option \<Rightarrow> string \<Rightarrow> manage_error + string" where
  "choose_subthread create provided resolved_name =
     (case provided of
        None \<Rightarrow>
          (case sanitize_alias resolved_name of
             None \<Rightarrow> Inl Invalid_alias
           | Some alias \<Rightarrow> (case create alias of Inl e \<Rightarrow> Inl (Subthread_failed e) | Inr i \<Rightarrow> Inr i))
      | Some alias \<Rightarrow>
          (case create alias of
             Inr i \<Rightarrow> Inr i
           | Inl e \<Rightarrow>
               (case sanitize_alias alias of
                  None \<Rightarrow> Inl (Subthread_failed e)
                | Some fallback \<Rightarrow>
                    if fallback \<noteq> alias then (case create fallback of Inl e' \<Rightarrow> Inl (Subthread_failed e') | Inr i \<Rightarrow> Inr i)
                    else Inl (Subthread_failed e))))"

text \<open>
  \<open>awaitChildResponse\<close> is asynchronous: when it fails, the failure is seen only after the worker has been
  invoked.
\<close>

text \<open>\<open>worker.trim()\<close> and the like, of an optional argument.\<close>

definition trimmed :: "string option \<Rightarrow> string" where
  "trimmed v = js_trim (case v of None \<Rightarrow> [] | Some s \<Rightarrow> s)"

definition dispatch_message ::
  "manage_env \<Rightarrow> nat \<Rightarrow> string \<Rightarrow> string \<Rightarrow> string \<Rightarrow> string \<Rightarrow> manage_node \<Rightarrow>
   manage_node \<times> manage_effect list \<times> (manage_error + manage_reply)" where
  "dispatch_message env target name parent child t s =
     (case me_channel env of
        Some e \<Rightarrow> (s, [], Inl (Channel_failed e))
      | None \<Rightarrow>
          (let effs = Channel_set child # (if me_run_id env \<noteq> [] then [Linked (me_run_id env) child] else [])
           in case register_invocation (me_reachable env) child \<lparr>ic_parent = parent, ic_worker = name\<rparr> s of
                (s1, False) \<Rightarrow> (s1, effs, Inl Forward_failed)
              | (s1, True) \<Rightarrow>
                  if mn_mode s1 = Sync then
                    (case await_child_response child (Some (get_timeout_ms s1)) s1 of
                       (s2, Inl e) \<Rightarrow> (s2, effs @ [Worker_invoked target child t], Inl e)
                     | (s2, Inr (Answered r)) \<Rightarrow>
                         (s2, effs @ [Worker_invoked target child t], Inr (Immediate (render_worker_response name r)))
                     | (s2, Inr (Promise p)) \<Rightarrow> (s2, effs @ [Worker_invoked target child t], Inr (Waiting p name)))
                  else (s1, effs @ [Worker_invoked target child t], Inr (Acknowledged (render_async_acknowledgement name)))))"

definition send_message_command ::
  "(string \<Rightarrow> string) \<Rightarrow> worker_config \<Rightarrow> manage_env \<Rightarrow> string \<Rightarrow> string option \<Rightarrow> string option \<Rightarrow> string option \<Rightarrow>
   manage_node \<Rightarrow> manage_node \<times> manage_effect list \<times> (manage_error + manage_reply)" where
  "send_message_command norm cfg env parent worker message alias s =
     (if parent = [] then (s, [], Inl Missing_thread)
      else
        (case list_workers norm cfg s of
           (s1, Inl e) \<Rightarrow> (s1, [], Inl e)
         | (s1, Inr names) \<Rightarrow>
             if names = [] then (s1, [], Inl No_agents)
             else if trimmed worker = [] then (s1, [], Inl Worker_required)
             else if trimmed message = [] then (s1, [], Inl Message_required)
             else
               (case get_worker_by_name norm cfg (trimmed worker) s1 of
                  (s2, Inl e) \<Rightarrow> (s2, [], Inl e)
                | (s2, Inr None) \<Rightarrow> (s2, [], Inl (Unknown_worker (trimmed worker)))
                | (s2, Inr (Some target)) \<Rightarrow>
                    (case get_worker_name norm cfg target s2 of
                       (s3, Inl e) \<Rightarrow> (s3, [], Inl e)
                     | (s3, Inr name) \<Rightarrow>
                         if \<not> me_caller env then (s3, [], Inl Caller_unavailable)
                         else if alias \<noteq> None \<and> trimmed alias = [] then (s3, [], Inl Invalid_alias)
                         else
                           (case choose_subthread (me_subthread env) (map_option js_trim alias) name of
                              Inl e \<Rightarrow> (s3, [], Inl e)
                            | Inr child \<Rightarrow>
                                if child = [] then (s3, [], Inl No_child)
                                else dispatch_message env target name parent child (trimmed message) s3)))))"

section \<open>Aliases\<close>

fun single_hyphens :: "bool \<Rightarrow> string \<Rightarrow> bool" where
  "single_hyphens inside [] = True"
| "single_hyphens inside (c # cs) = (if c = CHR ''-'' then \<not> inside \<and> single_hyphens True cs else single_hyphens False cs)"

lemma alias_char_plain: "alias_char c \<Longrightarrow> ascii_lower c = c \<and> \<not> js_space c"
  by (auto simp: alias_char_def alias_letter_def ascii_lower_def js_space_def)

lemma hyphenate_id: "list_all (\<lambda>c. \<not> js_space c) s \<Longrightarrow> hyphenate b s = s"
  by (induction s arbitrary: b) auto

lemma collapse_single: "single_hyphens b (collapse_hyphens b s)"
  by (induction b s rule: collapse_hyphens.induct) auto

lemma collapse_id: "single_hyphens b s \<Longrightarrow> collapse_hyphens b s = s"
  by (induction b s rule: collapse_hyphens.induct) (auto split: if_splits)

lemma single_take: "single_hyphens b s \<Longrightarrow> single_hyphens b (take n s)"
  by (induction b s arbitrary: n rule: single_hyphens.induct) (auto simp: take_Cons split: if_splits nat.splits)

lemma set_collapse: "set (collapse_hyphens b s) \<subseteq> set s"
  by (induction b s rule: collapse_hyphens.induct) auto

lemma sanitize_alias_form:
  assumes "sanitize_alias raw = Some a"
  shows "list_all alias_char a \<and> single_hyphens False a \<and> length a \<le> 64 \<and> list_ex alias_letter a"
proof -
  define c where "c = collapse_hyphens False (filter alias_char (hyphenate False (map ascii_lower raw)))"
  have a: "a = take 64 c" "list_ex alias_letter a"
    using assms by (auto simp: sanitize_alias_def c_def[symmetric] Let_def split: if_splits)
  have "set c \<subseteq> {x. alias_char x}"
    unfolding c_def using set_collapse by fastforce
  then have "list_all alias_char a" unfolding a list_all_iff by (auto dest: in_set_takeD)
  moreover have "single_hyphens False a" unfolding a(1) c_def by (intro single_take collapse_single)
  ultimately show ?thesis using a by simp
qed

text \<open>
  C35. Thread aliases.  A sanitised alias has only lower-case letters, digits, dots, underscores and
  single hyphens, at most 64 characters and at least one letter or digit; sanitising it again gives
  the same alias.
\<close>

theorem sanitize_alias_canonical:
  "case sanitize_alias raw of
     None \<Rightarrow> True
   | Some a \<Rightarrow> list_all alias_char a \<and> single_hyphens False a \<and> length a \<le> 64 \<and> list_ex alias_letter a
       \<and> sanitize_alias a = Some a"
proof (cases "sanitize_alias raw")
  case (Some a)
  note f = sanitize_alias_form[OF Some]
  have "map ascii_lower a = a" using f alias_char_plain by (simp add: list_all_iff map_idI)
  moreover have "hyphenate False a = a" using f alias_char_plain by (intro hyphenate_id) (simp add: list_all_iff)
  moreover have "filter alias_char a = a" using f by (simp add: list_all_iff)
  moreover have "collapse_hyphens False a = a" using f by (simp add: collapse_id)
  moreover have "a \<noteq> []" using f by auto
  ultimately have "sanitize_alias a = Some a" using f by (simp add: sanitize_alias_def)
  then show ?thesis using Some f by simp
qed simp

section \<open>The registry of workers\<close>

text \<open>A name leads to a worker that has it.\<close>

definition names_ok :: "manage_node \<Rightarrow> bool" where
  "names_ok s \<longleftrightarrow>
     (\<forall>n. case map_of (mn_by_name s) n of
        None \<Rightarrow> True
      | Some a \<Rightarrow> a \<in> set (mn_workers s) \<and> map_option wn_normalized (map_of (mn_names s) a) = Some n)"

lemma names_okD: "names_ok s \<Longrightarrow> map_of (mn_by_name s) n = Some a \<Longrightarrow>
    a \<in> set (mn_workers s) \<and> (\<exists>i. map_of (mn_names s) a = Some i \<and> wn_normalized i = n)"
  by (auto simp: names_ok_def dest!: spec[of _ n])

lemma names_okI:
  "(\<And>n a. map_of (mn_by_name s) n = Some a \<Longrightarrow>
      a \<in> set (mn_workers s) \<and> (\<exists>i. map_of (mn_names s) a = Some i \<and> wn_normalized i = n)) \<Longrightarrow> names_ok s"
  by (auto simp: names_ok_def split: option.split)

lemma drop_name_fields [simp]:
  "mn_workers (drop_name a n s) = mn_workers s" "mn_names (drop_name a n s) = mn_names s"
  by (simp_all add: drop_name_def)

lemma drop_name_at:
  "map_of (mn_by_name (drop_name a n s)) m = (if m = n \<and> map_of (mn_by_name s) m = Some a then None else map_of (mn_by_name s) m)"
  by (auto simp: drop_name_def map_laws)

lemma sync_worker_workers: "sync_worker norm cfg a s = (s', r) \<Longrightarrow> mn_workers s' = mn_workers s"
  by (auto simp: sync_worker_def Let_def split: sum.splits option.splits if_splits)

lemma sync_worker_names:
  "sync_worker norm cfg a s = (s', r) \<Longrightarrow> b \<noteq> a \<Longrightarrow> map_of (mn_names s') b = map_of (mn_names s) b"
  by (auto simp: sync_worker_def Let_def map_laws split: sum.splits option.splits if_splits)

lemma sync_worker_result:
  "sync_worker norm cfg a s = (s', Inr i) \<Longrightarrow>
     extract_worker_name norm cfg a = Inr i \<and> map_of (mn_names s') a = Some i"
  by (auto simp: sync_worker_def Let_def map_laws split: sum.splits option.splits if_splits)

lemma sync_worker_ok:
  assumes "names_ok s" and "a \<in> set (mn_workers s)" and "sync_worker norm cfg a s = (s', r)"
  shows "names_ok s'"
proof (cases "extract_worker_name norm cfg a")
  case (Inl e)
  then show ?thesis using assms by (simp add: sync_worker_def)
next
  case (Inr latest)
  define s1 where "s1 = (case map_of (mn_names s) a of None \<Rightarrow> s | Some c \<Rightarrow> drop_name a (wn_normalized c) s)"
  have byn: "map_of (mn_by_name s1) n = (if map_of (mn_by_name s) n = Some a then None else map_of (mn_by_name s) n)" for n
    using names_okD[OF assms(1), of n a] by (auto simp: s1_def drop_name_at split: option.splits)
  have s1: "mn_workers s1 = mn_workers s" "mn_names s1 = mn_names s" by (auto simp: s1_def split: option.splits)
  have ok1: "names_ok s1" using names_okD[OF assms(1)] by (intro names_okI) (auto simp: byn s1 split: if_splits)
  let ?s2 = "s1\<lparr>mn_names := AList.update a latest (mn_names s1),
      mn_by_name := AList.update (wn_normalized latest) a (mn_by_name s1)\<rparr>"
  have "names_ok ?s2"
    using names_okD[OF ok1] assms(2) s1(1) by (intro names_okI) (auto simp: map_laws byn split: if_splits)
  then show ?thesis
    using assms Inr ok1
    by (auto simp: sync_worker_def Let_def s1_def[symmetric] split: if_splits option.splits)
qed

lemma refresh_result:
  "refresh_workers norm cfg as s = (s', r) \<Longrightarrow> names_ok s \<Longrightarrow> set as \<subseteq> set (mn_workers s) \<Longrightarrow>
     names_ok s' \<and> mn_workers s' = mn_workers s
     \<and> (\<forall>b. b \<notin> set as \<longrightarrow> map_of (mn_names s') b = map_of (mn_names s) b)
     \<and> (case r of Inl e \<Rightarrow> True | Inr u \<Rightarrow>
          \<forall>a \<in> set as. \<exists>i. extract_worker_name norm cfg a = Inr i \<and> map_of (mn_names s') a = Some i)"
proof (induction as arbitrary: s)
  case (Cons a as)
  obtain s1 r1 where one: "sync_worker norm cfg a s = (s1, r1)" by fastforce
  have ok: "names_ok s1" "mn_workers s1 = mn_workers s"
    using sync_worker_ok[OF Cons.prems(2) _ one] sync_worker_workers[OF one] Cons.prems(3) by auto
  note nm = sync_worker_names[OF one]
  show ?case
  proof (cases r1)
    case (Inl e)
    then show ?thesis using Cons.prems one ok nm by auto
  next
    case (Inr i)
    note res = sync_worker_result[OF one[unfolded Inr]]
    have "refresh_workers norm cfg as s1 = (s', r)" using Cons.prems(1) one Inr by simp
    note IH = Cons.IH[OF this ok(1)]
    show ?thesis
    proof (cases "a \<in> set as")
      case True
      then show ?thesis using IH ok(2) Cons.prems(3) nm by (auto split: sum.splits)
    next
      case False
      then show ?thesis using IH ok(2) Cons.prems(3) nm res by (auto split: sum.splits)
    qed
  qed
qed (auto split: sum.splits)

lemma sync_worker_fails:
  assumes "names_ok s" and "sync_worker norm cfg a s = (s', Inl e)" and "\<not> isl (extract_worker_name norm cfg a)"
  shows "map_of (mn_by_name s') n \<noteq> Some a"
proof -
  obtain latest where l: "extract_worker_name norm cfg a = Inr latest" using assms(3) by (cases "extract_worker_name norm cfg a") auto
  define s1 where "s1 = (case map_of (mn_names s) a of None \<Rightarrow> s | Some c \<Rightarrow> drop_name a (wn_normalized c) s)"
  have "map_of (mn_by_name s1) n \<noteq> Some a"
    using names_okD[OF assms(1), of n a] by (auto simp: s1_def drop_name_at split: option.splits if_splits)
  then show ?thesis
    using assms(2) l by (auto simp: sync_worker_def Let_def s1_def[symmetric] split: if_splits option.splits)
qed

inductive worker_step :: "(string \<Rightarrow> string) \<Rightarrow> manage_node \<Rightarrow> manage_node \<Rightarrow> bool" for norm where
  worker_add: "a \<notin> set (mn_workers s) \<or> \<not> isl (extract_worker_name norm cfg a) \<Longrightarrow>
    worker_step norm s (fst (add_worker norm cfg a s))"
| worker_remove: "worker_step norm s (remove_worker a s)"
| worker_list: "worker_step norm s (fst (list_workers norm cfg s))"
| worker_get: "worker_step norm s (fst (get_worker_by_name norm cfg name s))"

lemma names_ok_by: "names_ok s \<Longrightarrow> mn_by_name s' = mn_by_name s \<Longrightarrow> mn_names s' = mn_names s \<Longrightarrow>
    set (mn_workers s) \<subseteq> set (mn_workers s') \<Longrightarrow> names_ok s'"
  by (intro names_okI) (auto dest: names_okD)

lemma names_ok_shrink:
  "names_ok s \<Longrightarrow> (\<And>n. map_of (mn_by_name s) n \<noteq> Some a) \<Longrightarrow> names_ok (s\<lparr>mn_workers := removeAll a (mn_workers s)\<rparr>)"
  by (intro names_okI) (auto dest: names_okD)

lemma add_worker_ok:
  assumes "names_ok s" and "a \<notin> set (mn_workers s) \<or> \<not> isl (extract_worker_name norm cfg a)"
  shows "names_ok (fst (add_worker norm cfg a s))"
proof -
  let ?s = "s\<lparr>mn_workers := set_add a (mn_workers s)\<rparr>"
  have ok: "names_ok ?s" by (rule names_ok_by[OF assms(1)]) auto
  obtain s1 r where one: "sync_worker norm cfg a ?s = (s1, r)" by fastforce
  have ok1: "names_ok s1" by (rule sync_worker_ok[OF ok _ one]) simp
  show ?thesis
  proof (cases r)
    case (Inl e)
    have "map_of (mn_by_name s1) n \<noteq> Some a" for n
    proof (cases "isl (extract_worker_name norm cfg a)")
      case True
      then have "mn_by_name s1 = mn_by_name s" using one by (auto simp: sync_worker_def isl_def)
      moreover have "a \<notin> set (mn_workers s)" using assms(2) True by simp
      ultimately show ?thesis using names_okD[OF assms(1), of n a] by auto
    next
      case False
      then show ?thesis using sync_worker_fails[OF ok one[unfolded Inl]] by blast
    qed
    then show ?thesis using names_ok_shrink[OF ok1] one Inl by (simp add: add_worker_def)
  next
    case (Inr i)
    then show ?thesis using ok1 one by (simp add: add_worker_def)
  qed
qed

lemma remove_worker_ok:
  assumes "names_ok s"
  shows "names_ok (remove_worker a s)"
proof (rule names_okI)
  fix n b
  assume at: "map_of (mn_by_name (remove_worker a s)) n = Some b"
  have "map_of (mn_by_name s) n = Some b \<and> b \<noteq> a"
    using at names_okD[OF assms, of n a]
    by (cases "map_of (mn_names s) a") (auto simp: remove_worker_def Let_def drop_name_at split: if_splits)
  moreover have "set (mn_workers (remove_worker a s)) = set (mn_workers s) - {a}"
    by (auto simp: remove_worker_def Let_def split: option.splits)
  moreover have "c \<noteq> a \<Longrightarrow> map_of (mn_names (remove_worker a s)) c = map_of (mn_names s) c" for c
    by (auto simp: remove_worker_def Let_def map_laws split: option.splits)
  ultimately show "b \<in> set (mn_workers (remove_worker a s))
      \<and> (\<exists>i. map_of (mn_names (remove_worker a s)) b = Some i \<and> wn_normalized i = n)"
    using names_okD[OF assms, of n b] by auto
qed

lemma list_workers_ok: "names_ok s \<Longrightarrow> names_ok (fst (list_workers norm cfg s))"
proof -
  assume ok: "names_ok s"
  obtain s1 r where one: "refresh_workers norm cfg (mn_workers s) s = (s1, r)" by fastforce
  have "names_ok s1" using refresh_result[OF one ok] by simp
  then show ?thesis using one by (cases r) (simp_all add: list_workers_def)
qed

lemma get_worker_result:
  assumes "names_ok s" and "get_worker_by_name norm cfg name s = (s', r)"
  shows "names_ok s' \<and> (case r of Inr (Some a) \<Rightarrow>
      a \<in> set (mn_workers s') \<and> (\<exists>i. extract_worker_name norm cfg a = Inr i \<and> wn_normalized i = norm (js_trim name))
    | _ \<Rightarrow> True)"
proof -
  obtain s1 r1 where one: "refresh_workers norm cfg (mn_workers s) s = (s1, r1)" by fastforce
  note ref = refresh_result[OF one assms(1)]
  show ?thesis
  proof (cases "r1 = Inr () \<and> norm (js_trim name) \<noteq> [] \<and> map_of (mn_by_name s1) (norm (js_trim name)) \<noteq> None")
    case True
    then obtain a where a: "map_of (mn_by_name s1) (norm (js_trim name)) = Some a" by auto
    have ok1: "names_ok s1" "mn_workers s1 = mn_workers s" using ref by auto
    have d: "a \<in> set (mn_workers s1)" "\<exists>i. map_of (mn_names s1) a = Some i \<and> wn_normalized i = norm (js_trim name)"
      using names_okD[OF ok1(1) a] by auto
    obtain s2 r2 where two: "sync_worker norm cfg a s1 = (s2, r2)" by fastforce
    have "names_ok s2" "mn_workers s2 = mn_workers s1"
      using sync_worker_ok[OF ok1(1) d(1) two] sync_worker_workers[OF two] by auto
    moreover have "\<exists>i. extract_worker_name norm cfg a = Inr i \<and> wn_normalized i = norm (js_trim name)"
      using ref True d ok1(2) by fastforce
    ultimately show ?thesis
      using assms(2) True a one two d by (auto simp: get_worker_by_name_def split: sum.splits)
  next
    case False
    then show ?thesis
      using assms(2) one ref by (auto simp: get_worker_by_name_def Let_def split: sum.splits if_splits option.splits)
  qed
qed

lemma worker_step_ok: "worker_step norm s s' \<Longrightarrow> names_ok s \<Longrightarrow> names_ok s'"
proof (induction rule: worker_step.induct)
  case (worker_get s cfg name)
  then show ?case using get_worker_result[of s norm cfg name] by (cases "get_worker_by_name norm cfg name s") simp
qed (simp_all add: add_worker_ok remove_worker_ok list_workers_ok)

text \<open>
  A name never leads to the wrong worker.  Whatever workers were added, removed and renamed before,
  the worker found by a name is attached, and its configured name at the time of the lookup is that
  name, up to normalisation.
\<close>

theorem worker_lookup_sound:
  assumes "(worker_step norm)\<^sup>*\<^sup>* (new_manage mode timeout) s"
    and "get_worker_by_name norm cfg name s = (s', Inr (Some a))"
  shows "a \<in> set (mn_workers s')
    \<and> (\<exists>raw. cfg a = Some (Some raw) \<and> norm (js_trim raw) = norm (js_trim name))"
proof -
  have "names_ok (new_manage mode timeout)" by (intro names_okI) (simp add: new_manage_def)
  with assms(1) have "names_ok s" by (induction rule: rtranclp_induct) (auto intro: worker_step_ok)
  from get_worker_result[OF this assms(2)] show ?thesis
    by (auto simp: extract_worker_name_def Let_def js_trim_def js_trim_end_def split: option.splits if_splits)
qed

text \<open>Two workers, the first one renamed to the second one's name and back.\<close>

definition cfg_apart :: worker_config where
  "cfg_apart a = (if a = 1 then Some (Some ''ada'') else if a = 2 then Some (Some ''bob'') else None)"

definition cfg_same :: worker_config where
  "cfg_same a = (if a = 1 \<or> a = 2 then Some (Some ''bob'') else None)"

definition two_workers :: manage_node where
  "two_workers = fst (add_worker id cfg_apart 2 (fst (add_worker id cfg_apart 1 (new_manage Sync None))))"

lemma two_reachable: "(worker_step id)\<^sup>*\<^sup>* (new_manage Sync None) two_workers"
proof -
  let ?s = "fst (add_worker id cfg_apart 1 (new_manage Sync None))"
  have "worker_step id (new_manage Sync None) ?s"
    by (rule worker_add) (simp add: new_manage_def)
  moreover have "worker_step id ?s two_workers"
    unfolding two_workers_def by (rule worker_add) (simp add: extract_worker_name_def cfg_apart_def Let_def js_trim_def js_trim_end_def js_space_def)
  ultimately show ?thesis by (meson r_into_rtranclp rtranclp_trans)
qed

theorem worker_lookup_sound_witness:
  "\<exists>raw. cfg_apart 1 = Some (Some raw) \<and> id (js_trim raw) = id (js_trim '' ada'')"
proof -
  have "snd (get_worker_by_name id cfg_apart '' ada'' two_workers) = Inr (Some 1)" by code_simp
  then obtain s' where "get_worker_by_name id cfg_apart '' ada'' two_workers = (s', Inr (Some 1))"
    by (metis prod.collapse)
  from worker_lookup_sound[OF two_reachable this] show ?thesis by blast
qed

text \<open>
  A worker can get lost.  A worker that is renamed to a name already taken, and then renamed back, is
  still attached and listed under its name, but is no longer found by it.
\<close>

theorem renamed_back_worker_lost:
  "case list_workers id cfg_same two_workers of
     (s1, failed) \<Rightarrow> failed = Inl (Name_taken ''bob'')
       \<and> (case list_workers id cfg_apart s1 of
            (s2, names) \<Rightarrow> names = Inr [Some ''ada'', Some ''bob'']
              \<and> snd (get_worker_by_name id cfg_apart ''ada'' s2) = Inr None)"
  by code_simp

section \<open>Waiting for an answer\<close>

inductive channel_step :: "manage_node \<Rightarrow> manage_node \<Rightarrow> bool" where
  channel_register: "channel_step s (fst (register_invocation reachable child c s))"
| channel_await: "channel_step s (fst (await_child_response child timeout s))"
| channel_send: "channel_step s (fst (send_to_channel reachable thread t s))"
| channel_timeout: "channel_step s (fire_timeout thread s)"

definition waiting :: "manage_node \<Rightarrow> nat \<Rightarrow> bool" where
  "waiting s p \<longleftrightarrow> list_ex (\<lambda>(k, q). q = p \<and> map_of (mn_waiters s) k = Some p) (mn_waiters s)"

definition settled_once :: "manage_node \<Rightarrow> nat \<Rightarrow> bool" where
  "settled_once s p \<longleftrightarrow> length (filter (\<lambda>e. fst e = p) (mn_settled s)) = 1"

lemma waiting_iff: "waiting s p \<longleftrightarrow> (\<exists>k. map_of (mn_waiters s) k = Some p)"
  by (auto simp: waiting_def list_ex_iff dest: map_of_SomeD)

definition channel_ok :: "manage_node \<Rightarrow> bool" where
  "channel_ok s \<longleftrightarrow>
     mn_queued s = []
     \<and> (\<forall>k p. map_of (mn_waiters s) k = Some p \<longrightarrow> p < mn_promises s)
     \<and> (\<forall>k j p. map_of (mn_waiters s) k = Some p \<and> map_of (mn_waiters s) j = Some p \<longrightarrow> k = j)
     \<and> (\<forall>k p. map_of (mn_timers s) k = Some p \<longrightarrow> map_of (mn_waiters s) k = Some p)
     \<and> (\<forall>p < mn_promises s. length (filter (\<lambda>e. fst e = p) (mn_settled s)) = (if waiting s p then 0 else 1))
     \<and> (\<forall>p \<ge> mn_promises s. filter (\<lambda>e. fst e = p) (mn_settled s) = [])"

lemma channel_okD:
  assumes "channel_ok s"
  shows "mn_queued s = []"
    and "map_of (mn_waiters s) k = Some p \<Longrightarrow> p < mn_promises s"
    and "map_of (mn_waiters s) k = Some p \<Longrightarrow> map_of (mn_waiters s) j = Some p \<Longrightarrow> k = j"
    and "map_of (mn_timers s) k = Some p \<Longrightarrow> map_of (mn_waiters s) k = Some p"
    and "p < mn_promises s \<Longrightarrow> length (filter (\<lambda>e. fst e = p) (mn_settled s)) = (if waiting s p then 0 else 1)"
    and "mn_promises s \<le> p \<Longrightarrow> filter (\<lambda>e. fst e = p) (mn_settled s) = []"
  using assms unfolding channel_ok_def by blast+

text \<open>Settling the waiter of a thread, by an answer or by its timer.\<close>

lemma settle_ok:
  assumes "channel_ok s" and "map_of (mn_waiters s) k = Some p"
    and "s' = s\<lparr>mn_waiters := AList.delete k (mn_waiters s), mn_timers := AList.delete k (mn_timers s),
      mn_settled := mn_settled s @ [(p, r)]\<rparr>"
  shows "channel_ok s'"
proof -
  note d = channel_okD[OF assms(1)]
  have w: "map_of (mn_waiters s') j = (if j = k then None else map_of (mn_waiters s) j)" for j
    by (simp add: assms(3) map_laws)
  have wt: "waiting s' q \<longleftrightarrow> q \<noteq> p \<and> waiting s q" for q
  proof -
    have "waiting s' q \<longleftrightarrow> (\<exists>j. j \<noteq> k \<and> map_of (mn_waiters s) j = Some q)" by (auto simp: waiting_iff w)
    also have "\<dots> \<longleftrightarrow> q \<noteq> p \<and> waiting s q"
    proof (cases "q = p")
      case True
      then show ?thesis using d(3)[OF assms(2)] by blast
    next
      case False
      then have "map_of (mn_waiters s) j = Some q \<Longrightarrow> j \<noteq> k" for j using assms(2) by auto
      then show ?thesis using False unfolding waiting_iff by blast
    qed
    finally show ?thesis .
  qed
  have st: "mn_settled s' = mn_settled s @ [(p, r)]" "mn_promises s' = mn_promises s" by (simp_all add: assms(3))
  have wp: "waiting s p" using assms(2) by (auto simp: waiting_iff)
  show ?thesis
    unfolding channel_ok_def
  proof (intro conjI allI impI)
    show "mn_queued s' = []" using d(1) assms(3) by simp
    show "q < mn_promises s'" if "map_of (mn_waiters s') j = Some q" for j q
      using that[unfolded w] d(2)[of j q] assms(3) by (simp split: if_splits)
    show "j = i" if "map_of (mn_waiters s') j = Some q \<and> map_of (mn_waiters s') i = Some q" for j i q
      using that d(3) by (auto simp: w split: if_splits)
    show "map_of (mn_waiters s') j = Some q" if "map_of (mn_timers s') j = Some q" for j q
      using that d(4) by (auto simp: w assms(3) map_laws split: if_splits)
    show "length (filter (\<lambda>e. fst e = q) (mn_settled s')) = (if waiting s' q then 0 else 1)" if "q < mn_promises s'" for q
      using d(5)[of q] that wp by (cases "q = p") (simp_all add: wt st)
    show "filter (\<lambda>e. fst e = q) (mn_settled s') = []" if "mn_promises s' \<le> q" for q
      using d(6)[of q] d(2)[OF assms(2)] that by (auto simp: assms(3))
  qed
qed

lemma timer_deleted: "channel_ok s \<Longrightarrow> map_of (mn_waiters s) k = Some p \<Longrightarrow>
    (if map_of (mn_timers s) k = Some p then AList.delete k (mn_timers s) else mn_timers s) = AList.delete k (mn_timers s)"
proof -
  assume a: "channel_ok s" "map_of (mn_waiters s) k = Some p"
  have "map_of (mn_timers s) k = None \<or> map_of (mn_timers s) k = Some p"
    using channel_okD(4)[OF a(1), of k] a(2) by (cases "map_of (mn_timers s) k") auto
  then show ?thesis
    by (auto simp: map_of_eq_None_keys intro: delete_id[symmetric] sym)
qed

lemma channel_step_ok: "channel_step s s' \<Longrightarrow> channel_ok s \<Longrightarrow> channel_ok s'"
proof (induction rule: channel_step.induct)
  case (channel_register s reachable child c)
  have "flush_queued reachable k x s = (s, True)" for k x
    using channel_okD(1)[OF channel_register] by (simp add: flush_queued_def)
  then show ?case using channel_register
    by (simp add: register_invocation_def Let_def channel_ok_def waiting_iff)
next
  case (channel_await s child timeout)
  note d = channel_okD[OF channel_await]
  let ?k = "js_trim child"
  have dq: "dequeue_message ?k s = (s, None)" using d(1) by (simp add: dequeue_message_def)
  show ?case
  proof (cases "?k = [] \<or> map_of (mn_waiters s) ?k \<noteq> None")
    case True
    then show ?thesis using channel_await dq by (auto simp: await_child_response_def Let_def)
  next
    case False
    define s' where "s' = fst (await_child_response child timeout s)"
    define safe where "safe = max 0 (case timeout of None \<Rightarrow> get_timeout_ms s | Some t \<Rightarrow> t)"
    have s': "mn_promises s' = Suc (mn_promises s)" "mn_queued s' = []" "mn_settled s' = mn_settled s"
      "map_of (mn_waiters s') j = (if j = ?k then Some (mn_promises s) else map_of (mn_waiters s) j)"
      "map_of (mn_timers s') j = (if j = ?k then (if safe > 0 then Some (mn_promises s) else None) else map_of (mn_timers s) j)" for j
      using False dq d(1) by (auto simp: s'_def safe_def await_child_response_def Let_def map_laws)
    have wt: "waiting s' q \<longleftrightarrow> q = mn_promises s \<or> waiting s q" for q
    proof -
      have "waiting s' q \<longleftrightarrow> (\<exists>j. (if j = ?k then Some (mn_promises s) else map_of (mn_waiters s) j) = Some q)"
        by (simp only: waiting_iff s'(4))
      also have "\<dots> \<longleftrightarrow> q = mn_promises s \<or> (\<exists>j. map_of (mn_waiters s) j = Some q)"
        using False by (metis option.inject option.distinct(1))
      finally show ?thesis by (simp only: waiting_iff)
    qed
    have "channel_ok s'"
      unfolding channel_ok_def
    proof (intro conjI allI impI)
      show "mn_queued s' = []" by (rule s'(2))
      show "q < mn_promises s'" if "map_of (mn_waiters s') j = Some q" for j q
        using that d(2)[of j q] by (auto simp: s' split: if_splits)
      show "j = i" if "map_of (mn_waiters s') j = Some q \<and> map_of (mn_waiters s') i = Some q" for j i q
        using that d(3)[of j q i] d(2)[of j q] d(2)[of i q] by (auto simp: s' split: if_splits)
      show "map_of (mn_waiters s') j = Some q" if "map_of (mn_timers s') j = Some q" for j q
        using that d(4)[of j q] by (auto simp: s' split: if_splits)
      show "length (filter (\<lambda>e. fst e = q) (mn_settled s')) = (if waiting s' q then 0 else 1)" if "q < mn_promises s'" for q
        using d(5)[of q] d(6)[of q] that by (cases "q = mn_promises s") (auto simp: wt s')
      show "filter (\<lambda>e. fst e = q) (mn_settled s') = []" if "mn_promises s' \<le> q" for q
        using d(6)[of q] that by (simp add: s')
    qed
    then show ?thesis by (simp add: s'_def)
  qed
next
  case (channel_send s reachable thread t)
  show ?case
  proof (cases "js_trim thread \<noteq> [] \<and> js_trim t \<noteq> [] \<and> map_of (mn_waiters s) (js_trim thread) \<noteq> None")
    case True
    then obtain p where p: "map_of (mn_waiters s) (js_trim thread) = Some p" by auto
    have "channel_ok (settle_waiter (js_trim thread) p (Inr t) s)"
      by (rule settle_ok[OF channel_send p, where r = "Inr t"]) (simp add: settle_waiter_def timer_deleted[OF channel_send p])
    then show ?thesis using True p by (simp add: send_to_channel_def Let_def)
  next
    case False
    then have "fst (send_to_channel reachable thread t s) = s \<or> (\<exists>f. fst (send_to_channel reachable thread t s) = s\<lparr>mn_forwarded := f\<rparr>)"
      by (auto simp: send_to_channel_def Let_def forward_to_parent_def split: option.splits)
    then show ?thesis
    proof (elim disjE exE)
      fix f
      assume f: "fst (send_to_channel reachable thread t s) = s\<lparr>mn_forwarded := f\<rparr>"
      show ?thesis unfolding f using channel_send by (simp add: channel_ok_def waiting_iff)
    qed (use channel_send in simp)
  qed
next
  case (channel_timeout s thread)
  show ?case
  proof (cases "map_of (mn_timers s) thread")
    case (Some p)
    show ?thesis
      by (rule settle_ok[OF channel_timeout channel_okD(4)[OF channel_timeout Some]]) (simp add: fire_timeout_def Some)
  qed (use channel_timeout in \<open>simp add: fire_timeout_def\<close>)
qed


definition waited :: manage_node where
  "waited = fst (send_to_channel True ''child'' ''done'' (fst (await_child_response ''child'' (Some 100) (new_manage Sync None))))"


text \<open>
  The first answer counts.  In synchronous mode the answer to a thread that is waited on settles its
  promise with the text; a second answer finds nobody waiting and is reported as an error.
\<close>

theorem first_answer_counts:
  assumes "map_of (mn_waiters s) (js_trim thread) = Some p" and "mn_mode s = Sync"
    and "js_trim thread \<noteq> []" and "js_trim t \<noteq> []" and "js_trim u \<noteq> []"
  shows "case send_to_channel r1 thread t s of
     (s1, result) \<Rightarrow> result = Sent (js_trim thread) \<and> mn_settled s1 = mn_settled s @ [(p, Inr t)]
       \<and> send_to_channel r2 thread u s1 = (s1, Send_error ''missing_waiter'' (Some (js_trim thread)))"
  using assms by (simp add: send_to_channel_def Let_def settle_waiter_def)

theorem first_answer_counts_witness:
  "snd (send_to_channel True ''child'' ''again'' waited) = Send_error ''missing_waiter'' (Some ''child'')"
proof -
  let ?s = "fst (await_child_response ''child'' (Some 100) (new_manage Sync None))"
  have t: "js_trim ''child'' = ''child''" "js_trim ''done'' \<noteq> []" "js_trim ''again'' \<noteq> []" by code_simp+
  have "map_of (mn_waiters ?s) (js_trim ''child'') = Some 0" "mn_mode ?s = Sync" by code_simp+
  from first_answer_counts[OF this _ t(2,3), of True True] t(1)
  show ?thesis by (simp add: waited_def split: prod.splits)
qed

end
