(* ===== verification/Containers.thy ===== *)
theory Containers
  imports JsString Json
begin

text \<open>
  The registry of containers, \<^verbatim>\<open>infra/container/container.registry.ts\<close> and \<^verbatim>\<open>container.mounts.ts\<close>, the clean-up
  of expired containers, \<^verbatim>\<open>containerCleanup.job.ts\<close>, and their termination with a thread,
  \<^verbatim>\<open>containerThreadTermination.service.ts\<close>.

  The table is a list of rows.  Times are milliseconds; the texts they are stored as in the metadata
  column, and how the language and the database read them back, are arguments.  Metadata is a JSON
  object or absent.  The container runner's answers are arguments as well.
\<close>

datatype container_status = Running | Stopped | Terminating | Failed

datatype container_health = Healthy | Unhealthy | Starting

fun health_text :: "container_health \<Rightarrow> string" where
  "health_text Healthy = ''healthy''"
| "health_text Unhealthy = ''unhealthy''"
| "health_text Starting = ''starting''"

definition health_of_text :: "string \<Rightarrow> container_health option" where
  "health_of_text s =
     (if s = ''healthy'' then Some Healthy else if s = ''unhealthy'' then Some Unhealthy
      else if s = ''starting'' then Some Starting else None)"

record container_metadata =
  md_labels :: json
  md_platform :: "string option"
  md_ttl :: int
  md_last_error :: "string option"
  md_retry_after :: "string option"
  md_attempts :: "int option"
  md_claim :: "string option"
  md_mounts :: "(string \<times> string) list"
  md_auto_removed :: "bool option"
  md_health :: "container_health option"
  md_last_event :: "string option"

record container_row =
  cr_id :: nat
  cr_container :: string
  cr_docker :: string
  cr_node :: string
  cr_thread :: "string option"
  cr_image :: string
  cr_name :: string
  cr_status :: container_status
  cr_last_used :: int
  cr_kill_after :: "int option"
  cr_deleted :: "int option"
  cr_reason :: "string option"
  cr_meta :: "json option"
  cr_updated :: int

record container_db =
  cd_rows :: "container_row list"
  cd_next :: nat

record time_texts =
  tt_iso :: "int \<Rightarrow> string"
  tt_parse :: "string \<Rightarrow> int option"

section \<open>Mounts and metadata\<close>

definition trimmed_field :: "json \<Rightarrow> string \<Rightarrow> string" where
  "trimmed_field j k = (case jget j k of Some (JStr s) \<Rightarrow> js_trim s | _ \<Rightarrow> [])"

definition sanitize_mounts :: "json option \<Rightarrow> (string \<times> string) list" where
  "sanitize_mounts input =
     filter (\<lambda>(s, d). s \<noteq> [] \<and> d \<noteq> [])
       (map (\<lambda>e. (trimmed_field e ''source'', trimmed_field e ''destination'')) (as_list input))"

text \<open>\<open>mapInspectMounts\<close>: the mounts the container runner reports, by name or else by source.\<close>

definition map_inspect_mounts :: "json option \<Rightarrow> (string \<times> string) list" where
  "map_inspect_mounts mounts =
     filter (\<lambda>(s, d). s \<noteq> [] \<and> d \<noteq> [])
       (map (\<lambda>m. (if trimmed_field m ''Name'' \<noteq> [] then trimmed_field m ''Name'' else trimmed_field m ''Source'',
                  trimmed_field m ''Destination'')) (as_list mounts))"

definition as_bool :: "json option \<Rightarrow> bool option" where
  "as_bool v = (case v of Some (JBool b) \<Rightarrow> Some b | _ \<Rightarrow> None)"

definition as_object :: "json option \<Rightarrow> json" where
  "as_object v = (case v of Some j \<Rightarrow> if is_object_like j then j else JObj [] | None \<Rightarrow> JObj [])"

definition normalize_container_metadata :: "json option \<Rightarrow> container_metadata" where
  "normalize_container_metadata meta =
     (let m = as_object meta
      in \<lparr>md_labels = as_object (jget m ''labels''),
          md_platform = as_string (jget m ''platform''),
          md_ttl = (case as_int (jget m ''ttlSeconds'') of None \<Rightarrow> 86400 | Some n \<Rightarrow> n),
          md_last_error = as_string (jget m ''lastError''),
          md_retry_after = as_string (jget m ''retryAfter''),
          md_attempts = as_int (jget m ''terminationAttempts''),
          md_claim = as_string (jget m ''claimId''),
          md_mounts = sanitize_mounts (jget m ''mounts''),
          md_auto_removed = as_bool (jget m ''autoRemoved''),
          md_health = Option.bind (as_string (jget m ''health'')) health_of_text,
          md_last_event = as_string (jget m ''lastEventAt'')\<rparr>)"

text \<open>What the column holds after a typed record is written: absent properties are left out.\<close>

definition present :: "string \<Rightarrow> json option \<Rightarrow> (string \<times> json) list" where
  "present k v = (case v of None \<Rightarrow> [] | Some j \<Rightarrow> [(k, j)])"

definition mount_json :: "string \<times> string \<Rightarrow> json" where
  "mount_json m = JObj [(''source'', JStr (fst m)), (''destination'', JStr (snd m))]"

definition metadata_json :: "container_metadata \<Rightarrow> json" where
  "metadata_json m =
     JObj ([(''labels'', md_labels m)] @ present ''platform'' (map_option JStr (md_platform m))
       @ [(''ttlSeconds'', JNum (md_ttl m))]
       @ present ''lastError'' (map_option JStr (md_last_error m))
       @ present ''retryAfter'' (map_option JStr (md_retry_after m))
       @ present ''terminationAttempts'' (map_option JNum (md_attempts m))
       @ present ''claimId'' (map_option JStr (md_claim m))
       @ present ''mounts'' (if md_mounts m = [] then None else Some (JArr (map mount_json (md_mounts m))))
       @ present ''autoRemoved'' (map_option JBool (md_auto_removed m))
       @ present ''health'' (map_option (JStr \<circ> health_text) (md_health m))
       @ present ''lastEventAt'' (map_option JStr (md_last_event m)))"

section \<open>The registry\<close>

definition row_of :: "string \<Rightarrow> container_db \<Rightarrow> container_row option" where
  "row_of c db = find (\<lambda>r. cr_container r = c) (cd_rows db)"

text \<open>\<open>update\<close> by the unique container identifier; \<open>updatedAt\<close> is maintained by the client.\<close>

definition update_row :: "int \<Rightarrow> string \<Rightarrow> (container_row \<Rightarrow> container_row) \<Rightarrow> container_db \<Rightarrow> container_db" where
  "update_row now c f db =
     db\<lparr>cd_rows := map (\<lambda>r. if cr_container r = c then (f r)\<lparr>cr_updated := now\<rparr> else r) (cd_rows db)\<rparr>"

definition compute_kill_after :: "int \<Rightarrow> int option \<Rightarrow> int option" where
  "compute_kill_after last_used ttl_seconds =
     (let ttl = (case ttl_seconds of None \<Rightarrow> 86400 | Some n \<Rightarrow> n)
      in if ttl \<le> 0 then None else Some (last_used + ttl * 1000))"

datatype registry_error = Name_required | Name_empty | Duplicate_docker_id

definition sanitize_container_name :: "string option \<Rightarrow> registry_error + string" where
  "sanitize_container_name value =
     (case value of
        None \<Rightarrow> Inl Name_required
      | Some v \<Rightarrow>
          (let t = js_trim v
           in if t = [] then Inl Name_empty else Inr (if js_starts_with ''/'' t then tl t else t)))"

record start_args =
  sa_container :: string
  sa_node :: string
  sa_thread :: string
  sa_image :: string
  sa_labels :: "json option"
  sa_platform :: "string option"
  sa_ttl :: "int option"
  sa_mounts :: "json option"
  sa_name :: "string option"

definition register_start :: "time_texts \<Rightarrow> int \<Rightarrow> start_args \<Rightarrow> container_db \<Rightarrow> container_db \<times> (registry_error + unit)" where
  "register_start tt now a db =
     (let meta = \<lparr>md_labels = (case sa_labels a of None \<Rightarrow> JObj [] | Some l \<Rightarrow> l), md_platform = sa_platform a,
            md_ttl = (case sa_ttl a of None \<Rightarrow> 86400 | Some n \<Rightarrow> n), md_last_error = None, md_retry_after = None,
            md_attempts = None, md_claim = None, md_mounts = sanitize_mounts (sa_mounts a), md_auto_removed = None,
            md_health = None, md_last_event = Some (tt_iso tt now)\<rparr>
      in case sanitize_container_name (sa_name a) of
           Inl e \<Rightarrow> (db, Inl e)
         | Inr name \<Rightarrow>
             if \<exists>r \<in> set (cd_rows db). cr_docker r = sa_container a \<and> cr_container r \<noteq> sa_container a
             then (db, Inl Duplicate_docker_id)
             else
               (let fill = (\<lambda>r. r\<lparr>cr_docker := sa_container a, cr_node := sa_node a,
                      cr_thread := (if sa_thread a = [] then None else Some (sa_thread a)), cr_image := sa_image a,
                      cr_name := name, cr_status := Running, cr_last_used := now,
                      cr_kill_after := compute_kill_after now (sa_ttl a), cr_deleted := None, cr_reason := None,
                      cr_meta := Some (metadata_json meta)\<rparr>)
                in case row_of (sa_container a) db of
                     Some r \<Rightarrow> (update_row now (sa_container a) fill db, Inr ())
                   | None \<Rightarrow>
                       (db\<lparr>cd_rows := cd_rows db @ [fill \<lparr>cr_id = cd_next db, cr_container = sa_container a, cr_docker = [],
                              cr_node = [], cr_thread = None, cr_image = [], cr_name = [], cr_status = Running,
                              cr_last_used = now, cr_kill_after = None, cr_deleted = None, cr_reason = None,
                              cr_meta = None, cr_updated = now\<rparr>],
                           cd_next := Suc (cd_next db)\<rparr>, Inr ())))"

definition update_last_used :: "string \<Rightarrow> int \<Rightarrow> int option \<Rightarrow> container_db \<Rightarrow> container_db" where
  "update_last_used c now override db =
     update_row now c (\<lambda>r.
       r\<lparr>cr_last_used := now,
         cr_kill_after := compute_kill_after now
           (Some (case override of Some n \<Rightarrow> n | None \<Rightarrow> md_ttl (normalize_container_metadata (cr_meta r))))\<rparr>) db"

definition mark_terminating :: "int \<Rightarrow> string \<Rightarrow> string \<Rightarrow> string option \<Rightarrow> container_db \<Rightarrow> container_db" where
  "mark_terminating now c reason claim db =
     update_row now c (\<lambda>r.
       (let m = normalize_container_metadata (cr_meta r);
            m1 = (case claim of Some k \<Rightarrow> if k = [] then m else m\<lparr>md_claim := Some k\<rparr> | None \<Rightarrow> m)
        in r\<lparr>cr_status := Terminating, cr_reason := Some reason, cr_meta := Some (metadata_json m1)\<rparr>)) db"

definition mark_stopped :: "time_texts \<Rightarrow> int \<Rightarrow> string \<Rightarrow> string \<Rightarrow> container_db \<Rightarrow> container_db" where
  "mark_stopped tt now c reason db =
     update_row now c (\<lambda>r.
       r\<lparr>cr_status := Stopped, cr_deleted := None, cr_reason := Some reason,
         cr_meta := Some (metadata_json ((normalize_container_metadata (cr_meta r))\<lparr>md_last_event := Some (tt_iso tt now)\<rparr>))\<rparr>) db"

definition mark_deleted :: "time_texts \<Rightarrow> int \<Rightarrow> string \<Rightarrow> string \<Rightarrow> container_db \<Rightarrow> container_db" where
  "mark_deleted tt now c reason db =
     update_row now c (\<lambda>r.
       r\<lparr>cr_status := Stopped, cr_deleted := Some now, cr_reason := Some reason,
         cr_meta := Some (metadata_json ((normalize_container_metadata (cr_meta r))\<lparr>md_last_event := Some (tt_iso tt now)\<rparr>))\<rparr>) db"

text \<open>
  Claiming a container reads its metadata and then updates the row if it is still running: two
  statements, between which others may write.
\<close>

definition claim_read :: "string \<Rightarrow> container_db \<Rightarrow> container_metadata" where
  "claim_read c db = normalize_container_metadata (Option.bind (row_of c db) cr_meta)"

definition claim_write :: "int \<Rightarrow> string \<Rightarrow> string \<Rightarrow> container_metadata \<Rightarrow> container_db \<Rightarrow> container_db \<times> bool" where
  "claim_write now c claim m db =
     (case row_of c db of
        None \<Rightarrow> (db, False)
      | Some r \<Rightarrow>
          if cr_status r = Running
          then (update_row now c (\<lambda>r. r\<lparr>cr_status := Terminating,
                  cr_meta := Some (metadata_json (m\<lparr>md_claim := Some claim\<rparr>))\<rparr>) db, True)
          else (db, False))"

definition claim_for_termination :: "int \<Rightarrow> string \<Rightarrow> string \<Rightarrow> container_db \<Rightarrow> container_db \<times> bool" where
  "claim_for_termination now c claim db = claim_write now c claim (claim_read c db) db"

text \<open>
  The expired containers: running ones past their time, terminating ones whose retry is due.
  \<^const>\<open>None\<close>: the database cannot read some \<open>retryAfter\<close> as a time.
\<close>

definition retry_due :: "time_texts \<Rightarrow> int \<Rightarrow> container_row \<Rightarrow> bool option" where
  "retry_due tt now r =
     (case cr_meta r of
        None \<Rightarrow> Some False
      | Some m \<Rightarrow>
          (case jget m ''retryAfter'' of
             None \<Rightarrow> Some True
           | Some (JStr s) \<Rightarrow> map_option (\<lambda>t. t \<le> now) (tt_parse tt s)
           | Some JNull \<Rightarrow> Some False
           | Some _ \<Rightarrow> None))"

definition get_expired :: "time_texts \<Rightarrow> int \<Rightarrow> container_db \<Rightarrow> container_row list option" where
  "get_expired tt now db =
     (let terminating = filter (\<lambda>r. cr_status r = Terminating) (cd_rows db);
          running = filter (\<lambda>r. cr_status r = Running
            \<and> (case cr_kill_after r of None \<Rightarrow> False | Some t \<Rightarrow> t \<le> now)) (cd_rows db)
      in if \<exists>r \<in> set terminating. retry_due tt now r = None then None
         else Some (running @ filter (\<lambda>r. retry_due tt now r = Some True) terminating))"

definition retry_delay :: "int \<Rightarrow> int" where
  "retry_delay attempts =
     min (if attempts < 0 then 1000 div 2 ^ nat (- attempts) else 2 ^ nat attempts * 1000) (15 * 60 * 1000)"

definition record_termination_failure :: "time_texts \<Rightarrow> int \<Rightarrow> string \<Rightarrow> string \<Rightarrow> container_db \<Rightarrow> container_db" where
  "record_termination_failure tt now c message db =
     update_row now c (\<lambda>r.
       (let m = normalize_container_metadata (cr_meta r);
            attempts = (case md_attempts m of None \<Rightarrow> 0 | Some n \<Rightarrow> n)
        in r\<lparr>cr_meta := Some (metadata_json (m\<lparr>md_last_error := Some message,
               md_retry_after := Some (tt_iso tt (now + retry_delay attempts)),
               md_attempts := Some (attempts + 1)\<rparr>))\<rparr>)) db"

definition delete_historical :: "int \<Rightarrow> container_db \<Rightarrow> container_db \<times> nat" where
  "delete_historical cutoff db =
     (let old = (\<lambda>r. (cr_status r = Stopped \<or> cr_status r = Failed) \<and> cr_updated r < cutoff)
      in (db\<lparr>cd_rows := filter (\<lambda>r. \<not> old r) (cd_rows db)\<rparr>, length (filter old (cd_rows db))))"

definition list_by_thread :: "string \<Rightarrow> container_db \<Rightarrow> (string \<times> container_status) list" where
  "list_by_thread t db =
     (if t = [] then []
      else map (\<lambda>r. (cr_container r, cr_status r)) (filter (\<lambda>r. cr_thread r = Some t) (cd_rows db)))"

definition has_mount :: "string \<Rightarrow> container_row \<Rightarrow> bool" where
  "has_mount v r =
     list_ex (\<lambda>m. jget m ''source'' = Some (JStr v)) (as_list (Option.bind (cr_meta r) (\<lambda>m. jget m ''mounts'')))"

definition find_by_volume :: "string \<Rightarrow> container_db \<Rightarrow> (string \<times> string option \<times> container_status) list" where
  "find_by_volume v db =
     (if v = [] then []
      else map (\<lambda>r. (cr_container r, cr_thread r, cr_status r)) (filter (has_mount v) (cd_rows db)))"

section \<open>Cleaning up\<close>

datatype docker_reply = Docker_done | Docker_error "int option" string

record sweep_env =
  sw_texts :: time_texts
  sw_now :: int
  sw_claim :: "string \<Rightarrow> string"
  sw_stop :: "string \<Rightarrow> docker_reply"
  sw_remove :: "string \<Rightarrow> docker_reply"

definition stop_and_remove :: "docker_reply \<Rightarrow> docker_reply \<Rightarrow> string + unit" where
  "stop_and_remove stopped removed =
     (let remove = (case removed of
            Docker_done \<Rightarrow> Inr ()
          | Docker_error sc msg \<Rightarrow> if sc \<in> {Some 404, Some 409} then Inr () else Inl msg)
      in case stopped of
           Docker_done \<Rightarrow> remove
         | Docker_error sc msg \<Rightarrow> if sc \<in> {Some 304, Some 404, Some 409} then remove else Inl msg)"

definition settle_container :: "sweep_env \<Rightarrow> string \<Rightarrow> string \<Rightarrow> container_db \<Rightarrow> container_db" where
  "settle_container e reason c db =
     (case stop_and_remove (sw_stop e c) (sw_remove e c) of
        Inr u \<Rightarrow> mark_stopped (sw_texts e) (sw_now e) c reason db
      | Inl msg \<Rightarrow> record_termination_failure (sw_texts e) (sw_now e) c msg db)"

definition sweep_one :: "sweep_env \<Rightarrow> container_row \<Rightarrow> container_db \<Rightarrow> container_db" where
  "sweep_one e r db =
     (let c = cr_container r
      in if cr_status r = Running
         then (case claim_for_termination (sw_now e) c (sw_claim e c) db of
                 (db1, ok) \<Rightarrow> if ok then settle_container e ''ttl_expired'' c db1 else db1)
         else settle_container e ''ttl_expired'' c db)"

definition is_digit_char :: "char \<Rightarrow> bool" where
  "is_digit_char c \<longleftrightarrow> (48 :: nat) \<le> of_char c \<and> of_char c \<le> (57 :: nat)"

text \<open>\<open>Number.parseInt(s, 10)\<close>\<close>

definition js_parse_int :: "string \<Rightarrow> int option" where
  "js_parse_int s =
     (let t = dropWhile js_space s;
          neg = (t \<noteq> [] \<and> hd t = CHR ''-'');
          u = (if t \<noteq> [] \<and> (hd t = CHR ''-'' \<or> hd t = CHR ''+'') then tl t else t);
          ds = takeWhile is_digit_char u
      in if ds = [] then None else Some (if neg then - int (digits_value ds) else int (digits_value ds)))"

definition retention_days :: "string option \<Rightarrow> int" where
  "retention_days raw =
     (case Option.bind raw js_parse_int of None \<Rightarrow> 14 | Some n \<Rightarrow> if n < 0 then 14 else n)"

definition purge_historical :: "int \<Rightarrow> int \<Rightarrow> container_db \<Rightarrow> container_db" where
  "purge_historical days now db =
     (if days > 0 then fst (delete_historical (now - days * (24 * 60 * 60 * 1000)) db) else db)"

text \<open>A sweep whose query fails ends there; the next one is scheduled all the same.\<close>

definition sweep_expired :: "sweep_env \<Rightarrow> container_db \<Rightarrow> container_db option" where
  "sweep_expired e db = map_option (\<lambda>rows. fold (sweep_one e) rows db) (get_expired (sw_texts e) (sw_now e) db)"

definition sweep :: "sweep_env \<Rightarrow> int \<Rightarrow> container_db \<Rightarrow> container_db" where
  "sweep e days db =
     (case sweep_expired e db of None \<Rightarrow> db | Some db1 \<Rightarrow> purge_historical days (sw_now e) db1)"

definition sweep_selective :: "sweep_env \<Rightarrow> string \<Rightarrow> container_db \<Rightarrow> container_db" where
  "sweep_selective e thread db =
     fold (settle_container e ''thread_closed'') (map fst (list_by_thread thread db)) db"

section \<open>Termination with a thread\<close>

definition string_entries :: "json \<Rightarrow> (string \<times> json) list" where
  "string_entries j =
     filter (\<lambda>(k, v). case v of JStr s \<Rightarrow> True | _ \<Rightarrow> False)
       (case j of JObj ps \<Rightarrow> ps | JArr xs \<Rightarrow> zip (map (int_digits \<circ> int) [0..<length xs]) xs | _ \<Rightarrow> [])"

text \<open>The service has a \<open>normalizeMetadata\<close> of its own, which knows fewer properties.\<close>

definition normalize_for_termination :: "json option \<Rightarrow> container_metadata" where
  "normalize_for_termination meta =
     (let m = as_object meta
      in \<lparr>md_labels = JObj (string_entries (as_object (jget m ''labels''))),
          md_platform = as_string (jget m ''platform''),
          md_ttl = (case as_int (jget m ''ttlSeconds'') of None \<Rightarrow> 86400 | Some n \<Rightarrow> n),
          md_last_error = as_string (jget m ''lastError''),
          md_retry_after = as_string (jget m ''retryAfter''),
          md_attempts = as_int (jget m ''terminationAttempts''),
          md_claim = as_string (jget m ''claimId''),
          md_mounts = [], md_auto_removed = None, md_health = None, md_last_event = None\<rparr>)"

definition terminate_container ::
  "sweep_env \<Rightarrow> (string \<times> container_status) list \<Rightarrow> string \<Rightarrow> container_db \<Rightarrow> container_db" where
  "terminate_container e cache c db =
     (case (map_of cache c, row_of c db) of
        (None, None) \<Rightarrow> db
      | (cached, found) \<Rightarrow>
          (let status = (case cached of Some s \<Rightarrow> s | None \<Rightarrow> (case found of Some r \<Rightarrow> cr_status r | None \<Rightarrow> Stopped));
               (db1, claimed) = (if status = Running then claim_for_termination (sw_now e) c (sw_claim e c) db else (db, False))
           in update_row (sw_now e) c (\<lambda>r.
                (let m = normalize_for_termination (cr_meta r);
                     m1 = (if claimed then m\<lparr>md_claim := Some (sw_claim e c)\<rparr> else m)
                 in r\<lparr>cr_status := Terminating, cr_reason := Some ''thread_closed'',
                      cr_meta := Some (metadata_json (m1\<lparr>md_retry_after := Some (tt_iso (sw_texts e) (sw_now e))\<rparr>))\<rparr>)) db1))"

definition terminate_by_thread :: "sweep_env \<Rightarrow> string list \<Rightarrow> string \<Rightarrow> container_db \<Rightarrow> container_db" where
  "terminate_by_thread e discovered thread db =
     (let initial = filter (\<lambda>r. cr_thread r = Some thread \<and> (cr_status r = Running \<or> cr_status r = Terminating)) (cd_rows db);
          cache = map (\<lambda>r. (cr_container r, cr_status r)) initial;
          queue = set_add_all discovered (map cr_container initial)
      in fold (terminate_container e cache) (filter (\<lambda>c. c \<noteq> []) queue) db)"

section \<open>Rows keep their identity\<close>

definition containers_ok :: "container_db \<Rightarrow> bool" where
  "containers_ok db \<longleftrightarrow>
     distinct (map cr_container (cd_rows db)) \<and> distinct (map cr_docker (cd_rows db))
     \<and> distinct (map cr_id (cd_rows db)) \<and> list_all (\<lambda>r. cr_id r < cd_next db) (cd_rows db)"

lemma find_key_unique:
  "distinct (map key xs) \<Longrightarrow> x \<in> set xs \<Longrightarrow> find (\<lambda>y. key y = key x) xs = Some x"
  by (induction xs) auto

lemma row_of_row: "containers_ok db \<Longrightarrow> r \<in> set (cd_rows db) \<Longrightarrow> row_of (cr_container r) db = Some r"
  unfolding row_of_def containers_ok_def by (rule find_key_unique) auto

lemma row_of_Some: "row_of c db = Some r \<Longrightarrow> r \<in> set (cd_rows db) \<and> cr_container r = c"
  by (auto simp: row_of_def find_Some_iff)

lemma row_of_None: "row_of c db = None \<longleftrightarrow> c \<notin> cr_container ` set (cd_rows db)"
  by (auto simp: row_of_def find_None_iff)

text \<open>Changes that touch one row only, and neither of its identifiers.\<close>

definition keeps_keys :: "(container_row \<Rightarrow> container_row) \<Rightarrow> bool" where
  "keeps_keys f \<longleftrightarrow>
     (\<forall>r. cr_id (f r) = cr_id r \<and> cr_container (f r) = cr_container r \<and> cr_docker (f r) = cr_docker r \<and> cr_thread (f r) = cr_thread r)"

definition map_rows :: "(container_row \<Rightarrow> container_row) \<Rightarrow> container_db \<Rightarrow> container_db" where
  "map_rows f db = db\<lparr>cd_rows := map f (cd_rows db)\<rparr>"

lemma update_row_map: "update_row now c f db = map_rows (\<lambda>r. if cr_container r = c then (f r)\<lparr>cr_updated := now\<rparr> else r) db"
  by (simp add: update_row_def map_rows_def)

lemma map_rows_ok: "keeps_keys f \<Longrightarrow> containers_ok (map_rows f db) = containers_ok db"
  by (simp add: keeps_keys_def map_rows_def containers_ok_def o_def list_all_iff)

lemma map_rows_twice [simp]: "map_rows g (map_rows f db) = map_rows (g \<circ> f) db"
  by (simp add: map_rows_def)

lemma rows_map_rows [simp]: "cd_rows (map_rows f db) = map f (cd_rows db)"
  by (simp add: map_rows_def)

lemma map_rows_cong: "(\<And>r. r \<in> set (cd_rows db) \<Longrightarrow> f r = g r) \<Longrightarrow> map_rows f db = map_rows g db"
  by (simp add: map_rows_def)

section \<open>Metadata survives the column\<close>

definition mount_ok :: "string \<times> string \<Rightarrow> bool" where
  "mount_ok m \<longleftrightarrow> js_trim (fst m) = fst m \<and> js_trim (snd m) = snd m \<and> fst m \<noteq> [] \<and> snd m \<noteq> []"

definition metadata_ok :: "container_metadata \<Rightarrow> bool" where
  "metadata_ok m \<longleftrightarrow> is_object_like (md_labels m) \<and> list_all mount_ok (md_mounts m)"

lemma health_text_back [simp]: "health_of_text (health_text h) = Some h"
  by (cases h) (simp_all add: health_of_text_def)

lemma map_of_present [simp]: "map_of (present k v) j = (if j = k then v else None)"
  by (simp add: present_def split: option.splits)

lemma sanitize_mount_json:
  "list_all mount_ok ms \<Longrightarrow> sanitize_mounts (Some (JArr (map mount_json ms))) = ms"
proof (induction ms)
  case (Cons m ms)
  obtain s d where m: "m = (s, d)" by (cases m)
  show ?case using Cons
    by (simp add: sanitize_mounts_def as_list_def mount_json_def trimmed_field_def mount_ok_def m)
qed (simp add: sanitize_mounts_def as_list_def)

lemma sanitize_mounts_none [simp]: "sanitize_mounts None = []"
  by (simp add: sanitize_mounts_def as_list_def)

lemma metadata_fields:
  "jget (metadata_json m) ''labels'' = Some (md_labels m)"
  "jget (metadata_json m) ''platform'' = map_option JStr (md_platform m)"
  "jget (metadata_json m) ''ttlSeconds'' = Some (JNum (md_ttl m))"
  "jget (metadata_json m) ''lastError'' = map_option JStr (md_last_error m)"
  "jget (metadata_json m) ''retryAfter'' = map_option JStr (md_retry_after m)"
  "jget (metadata_json m) ''terminationAttempts'' = map_option JNum (md_attempts m)"
  "jget (metadata_json m) ''claimId'' = map_option JStr (md_claim m)"
  "jget (metadata_json m) ''mounts'' = (if md_mounts m = [] then None else Some (JArr (map mount_json (md_mounts m))))"
  "jget (metadata_json m) ''autoRemoved'' = map_option JBool (md_auto_removed m)"
  "jget (metadata_json m) ''health'' = map_option (JStr \<circ> health_text) (md_health m)"
  "jget (metadata_json m) ''lastEventAt'' = map_option JStr (md_last_event m)"
  by (simp_all add: metadata_json_def map_add_def split: option.splits)

lemma as_back [simp]:
  "as_string (map_option JStr v) = v" "as_int (map_option JNum n) = n" "as_bool (map_option JBool b) = b"
  "as_string (map_option (JStr \<circ> f) x) = map_option f x" "as_int (Some (JNum i)) = Some i"
  by (simp_all add: as_string_def as_int_def as_bool_def split: option.splits)

lemma as_object_json [simp]: "as_object (Some (metadata_json m)) = metadata_json m"
  by (simp add: as_object_def metadata_json_def is_object_like_def)

lemma as_object_like [simp]: "is_object_like l \<Longrightarrow> as_object (Some l) = l"
  by (simp add: as_object_def)

lemma bind_health [simp]: "Option.bind (map_option health_text h) health_of_text = h"
  by (cases h) simp_all

lemma metadata_roundtrip:
  assumes "metadata_ok m"
  shows "normalize_container_metadata (Some (metadata_json m)) = m"
proof -
  have "sanitize_mounts (if md_mounts m = [] then None else Some (JArr (map mount_json (md_mounts m)))) = md_mounts m"
    using assms by (simp add: metadata_ok_def sanitize_mount_json)
  then show ?thesis using assms
    by (simp add: normalize_container_metadata_def Let_def metadata_fields metadata_ok_def)
qed

lemma normalize_ok: "metadata_ok (normalize_container_metadata meta)"
proof -
  have "is_object_like (as_object v)" for v
    by (simp add: as_object_def is_object_like_def split: option.splits)
  moreover have e: "js_trim [] = []" by (simp add: js_trim_def js_trim_end_def)
  have "js_trim (trimmed_field j k) = trimmed_field j k" for j k
    by (simp add: trimmed_field_def e split: option.splits json.splits)
  then have "list_all mount_ok (sanitize_mounts v)" for v
    by (auto simp: sanitize_mounts_def list_all_iff mount_ok_def)
  ultimately show ?thesis by (simp add: metadata_ok_def normalize_container_metadata_def Let_def)
qed

section \<open>What a sweep does\<close>

definition stopped_row :: "sweep_env \<Rightarrow> string \<Rightarrow> container_row \<Rightarrow> container_row" where
  "stopped_row e reason r =
     r\<lparr>cr_status := Stopped, cr_deleted := None, cr_reason := Some reason, cr_updated := sw_now e,
       cr_meta := Some (metadata_json ((normalize_container_metadata (cr_meta r))\<lparr>md_last_event := Some (tt_iso (sw_texts e) (sw_now e))\<rparr>))\<rparr>"

definition attempts_of :: "container_row \<Rightarrow> int" where
  "attempts_of r = (case md_attempts (normalize_container_metadata (cr_meta r)) of None \<Rightarrow> 0 | Some n \<Rightarrow> n)"

definition failed_row :: "sweep_env \<Rightarrow> string \<Rightarrow> container_row \<Rightarrow> container_row" where
  "failed_row e msg r =
     r\<lparr>cr_updated := sw_now e, cr_meta := Some (metadata_json ((normalize_container_metadata (cr_meta r))
         \<lparr>md_last_error := Some msg,
          md_retry_after := Some (tt_iso (sw_texts e) (sw_now e + retry_delay (attempts_of r))),
          md_attempts := Some (attempts_of r + 1)\<rparr>))\<rparr>"

definition settled_row :: "sweep_env \<Rightarrow> string \<Rightarrow> container_row \<Rightarrow> container_row" where
  "settled_row e reason r =
     (case stop_and_remove (sw_stop e (cr_container r)) (sw_remove e (cr_container r)) of
        Inr u \<Rightarrow> stopped_row e reason r
      | Inl msg \<Rightarrow> failed_row e msg r)"

definition claimed_row :: "sweep_env \<Rightarrow> container_row \<Rightarrow> container_row" where
  "claimed_row e r =
     r\<lparr>cr_status := Terminating, cr_updated := sw_now e,
       cr_meta := Some (metadata_json ((normalize_container_metadata (cr_meta r))\<lparr>md_claim := Some (sw_claim e (cr_container r))\<rparr>))\<rparr>"

definition swept_row :: "sweep_env \<Rightarrow> container_row \<Rightarrow> container_row" where
  "swept_row e r = settled_row e ''ttl_expired'' (if cr_status r = Running then claimed_row e r else r)"

lemmas row_effects = stopped_row_def failed_row_def settled_row_def claimed_row_def

lemma row_keys [simp]:
  "cr_container (stopped_row e reason r) = cr_container r" "cr_container (failed_row e msg r) = cr_container r"
  "cr_container (settled_row e reason r) = cr_container r" "cr_container (claimed_row e r) = cr_container r"
  "cr_container (swept_row e r) = cr_container r"
  by (simp_all add: row_effects swept_row_def split: sum.splits)

lemma settled_keeps_keys: "keeps_keys (settled_row e reason)" "keeps_keys (claimed_row e)" "keeps_keys (swept_row e)"
  by (simp_all add: keeps_keys_def row_effects swept_row_def split: sum.splits)

definition on_row :: "string \<Rightarrow> (container_row \<Rightarrow> container_row) \<Rightarrow> container_row \<Rightarrow> container_row" where
  "on_row c f r = (if cr_container r = c then f r else r)"

lemma on_row_keys: "keeps_keys f \<Longrightarrow> keeps_keys (on_row c f)"
  by (simp add: keeps_keys_def on_row_def)

lemma settle_container_map:
  "settle_container e reason c db = map_rows (on_row c (settled_row e reason)) db"
proof (cases "stop_and_remove (sw_stop e c) (sw_remove e c)")
  case (Inl msg)
  then show ?thesis
    by (auto simp: settle_container_def record_termination_failure_def update_row_map settled_row_def failed_row_def
        on_row_def attempts_of_def Let_def intro!: map_rows_cong)
next
  case (Inr u)
  then show ?thesis
    by (auto simp: settle_container_def mark_stopped_def update_row_map settled_row_def stopped_row_def on_row_def
        intro!: map_rows_cong)
qed

lemma claim_for_termination_map:
  assumes "containers_ok db" "r \<in> set (cd_rows db)"
  shows "claim_for_termination (sw_now e) (cr_container r) (sw_claim e (cr_container r)) db =
    (if cr_status r = Running then (map_rows (on_row (cr_container r) (claimed_row e)) db, True) else (db, False))"
proof -
  have r: "row_of (cr_container r) db = Some r" by (rule row_of_row[OF assms])
  have u: "x = r" if "x \<in> set (cd_rows db)" "cr_container x = cr_container r" for x
    using row_of_row[OF assms(1) that(1)] r that(2) by (metis option.inject)
  let ?c = "cr_container r"
  let ?g = "\<lambda>x. if cr_container x = ?c
      then x\<lparr>cr_status := Terminating, cr_meta := Some (metadata_json ((normalize_container_metadata (cr_meta r))\<lparr>md_claim := Some (sw_claim e ?c)\<rparr>)),
             cr_updated := sw_now e\<rparr> else x"
  have "?g x = on_row ?c (claimed_row e) x" if "x \<in> set (cd_rows db)" for x
  proof (cases "cr_container x = ?c")
    case True
    then have "x = r" by (rule u[OF that])
    then show ?thesis by (simp add: on_row_def claimed_row_def)
  qed (simp add: on_row_def)
  then have "map_rows ?g db = map_rows (on_row ?c (claimed_row e)) db" by (rule map_rows_cong)
  then show ?thesis using r
    by (simp add: claim_for_termination_def claim_write_def claim_read_def update_row_map)
qed

lemma map_rows_row: "containers_ok db \<Longrightarrow> r \<in> set (cd_rows db) \<Longrightarrow> x \<in> set (cd_rows db) \<Longrightarrow>
    cr_container x = cr_container r \<Longrightarrow> x = r"
  using row_of_row by (metis option.inject)

lemma sweep_one_map:
  assumes "containers_ok db" "r \<in> set (cd_rows db)"
  shows "sweep_one e r db = map_rows (on_row (cr_container r) (swept_row e)) db"
proof -
  let ?c = "cr_container r" and ?g = "\<lambda>x. settled_row e ''ttl_expired'' (if cr_status r = Running then claimed_row e x else x)"
  have "sweep_one e r db = map_rows (on_row ?c ?g) db"
    by (auto simp: sweep_one_def Let_def claim_for_termination_map[OF assms] settle_container_map on_row_def
        intro!: map_rows_cong)
  also have "\<dots> = map_rows (on_row ?c (swept_row e)) db"
  proof (rule map_rows_cong)
    fix x assume "x \<in> set (cd_rows db)"
    then show "on_row ?c ?g x = on_row ?c (swept_row e) x"
      using map_rows_row[OF assms, of x] by (cases "cr_container x = ?c") (simp_all add: on_row_def swept_row_def)
  qed
  finally show ?thesis .
qed

lemma fold_sweep:
  "containers_ok db \<Longrightarrow> set rs \<subseteq> set (cd_rows db) \<Longrightarrow> distinct (map cr_container rs) \<Longrightarrow>
   fold (sweep_one e) rs db = map_rows (\<lambda>x. if x \<in> set rs then swept_row e x else x) db"
proof (induction rs arbitrary: db)
  case Nil
  then show ?case by (simp add: map_rows_def)
next
  case (Cons r rs)
  let ?f = "on_row (cr_container r) (swept_row e)"
  have r: "r \<in> set (cd_rows db)" using Cons.prems by simp
  have one: "sweep_one e r db = map_rows ?f db" by (rule sweep_one_map[OF Cons.prems(1) r])
  have same: "?f x = x" if "x \<in> set rs" for x
    using that Cons.prems(3) by (auto simp: on_row_def image_iff)
  have sub: "set rs \<subseteq> set (cd_rows (map_rows ?f db))"
  proof
    fix x assume x: "x \<in> set rs"
    then have "x \<in> set (cd_rows db)" using Cons.prems(2) by auto
    then show "x \<in> set (cd_rows (map_rows ?f db))" using same[OF x] by (simp add: image_iff) (metis same x)
  qed
  have ok: "containers_ok (map_rows ?f db)"
    using Cons.prems(1) by (simp add: map_rows_ok on_row_keys settled_keeps_keys)
  have "fold (sweep_one e) (r # rs) db = map_rows (\<lambda>x. if x \<in> set rs then swept_row e x else x) (map_rows ?f db)"
    using Cons.IH[OF ok sub] Cons.prems(3) one by simp
  also have "\<dots> = map_rows (\<lambda>x. if x \<in> set (r # rs) then swept_row e x else x) db"
    unfolding map_rows_twice
  proof (rule map_rows_cong)
    fix x assume x: "x \<in> set (cd_rows db)"
    have notin: "swept_row e r \<notin> set rs" using Cons.prems(3) by (metis distinct.simps(2) imageI list.set_map list.simps(9) row_keys(5))
    show "((\<lambda>x. if x \<in> set rs then swept_row e x else x) \<circ> ?f) x = (if x \<in> set (r # rs) then swept_row e x else x)"
    proof (cases "cr_container x = cr_container r")
      case True
      then have "x = r" using map_rows_row[OF Cons.prems(1) r x] by simp
      then show ?thesis using notin by (simp add: on_row_def)
    qed (auto simp: on_row_def)
  qed
  finally show ?case .
qed

text \<open>When a row is due, and what the sweep makes of it.\<close>

definition expired_row :: "time_texts \<Rightarrow> int \<Rightarrow> container_row \<Rightarrow> bool" where
  "expired_row tt now r \<longleftrightarrow>
     (case cr_status r of
        Running \<Rightarrow> (case cr_kill_after r of None \<Rightarrow> False | Some t \<Rightarrow> t \<le> now)
      | Terminating \<Rightarrow> retry_due tt now r = Some True
      | _ \<Rightarrow> False)"

lemma get_expired_rows:
  assumes "containers_ok db" "get_expired tt now db = Some rs"
  shows "set rs = {r \<in> set (cd_rows db). expired_row tt now r}" "distinct (map cr_container rs)"
proof -
  have d: "distinct (map cr_container (cd_rows db))" using assms(1) by (simp add: containers_ok_def)
  show "set rs = {r \<in> set (cd_rows db). expired_row tt now r}"
  proof (intro set_eqI)
    fix r
    show "r \<in> set rs \<longleftrightarrow> r \<in> {r \<in> set (cd_rows db). expired_row tt now r}"
      using assms(2) by (cases "cr_status r") (auto simp: get_expired_def Let_def expired_row_def split: if_splits)
  qed
  have "distinct (map cr_container (filter P (cd_rows db)))" for P
    using d by (rule distinct_map_filter)
  moreover have "cr_container ` {r \<in> set (cd_rows db). cr_status r = Running \<and> P r}
      \<inter> cr_container ` {r \<in> set (cd_rows db). cr_status r = Terminating \<and> Q r} = {}" for P Q
    using map_rows_row[OF assms(1)] by (auto; metis container_status.distinct(3) container_status.distinct(4))
  ultimately show "distinct (map cr_container rs)"
    using assms(2) by (auto simp: get_expired_def Let_def split: if_splits)
qed

lemma sweep_expired_rows:
  assumes "containers_ok db" "sweep_expired e db = Some db'"
  shows "db' = map_rows (\<lambda>r. if expired_row (sw_texts e) (sw_now e) r then swept_row e r else r) db"
proof -
  obtain rs where rs: "get_expired (sw_texts e) (sw_now e) db = Some rs" "db' = fold (sweep_one e) rs db"
    using assms(2) by (auto simp: sweep_expired_def)
  note x = get_expired_rows[OF assms(1) rs(1)]
  have "db' = map_rows (\<lambda>x. if x \<in> set rs then swept_row e x else x) db"
    unfolding rs(2) by (rule fold_sweep[OF assms(1)]) (use x in auto)
  also have "\<dots> = map_rows (\<lambda>r. if expired_row (sw_texts e) (sw_now e) r then swept_row e r else r) db"
    using x(1) by (intro map_rows_cong) auto
  finally show ?thesis .
qed

lemma failed_metadata:
  "normalize_container_metadata (cr_meta (failed_row e msg r)) = (normalize_container_metadata (cr_meta r))
     \<lparr>md_last_error := Some msg,
      md_retry_after := Some (tt_iso (sw_texts e) (sw_now e + retry_delay (attempts_of r))),
      md_attempts := Some (attempts_of r + 1)\<rparr>"
  using normalize_ok[of "cr_meta r"] by (simp add: failed_row_def metadata_roundtrip metadata_ok_def)

lemma claimed_attempts: "attempts_of (claimed_row e r) = attempts_of r"
  using normalize_ok[of "cr_meta r"] by (simp add: claimed_row_def attempts_of_def metadata_roundtrip metadata_ok_def)

lemma expired_status: "expired_row tt now r \<Longrightarrow> cr_status r = Running \<or> cr_status r = Terminating"
  by (auto simp: expired_row_def split: container_status.splits)


definition sample_times :: time_texts where
  "sample_times = \<lparr>tt_iso = (\<lambda>t. int_digits t),
     tt_parse = (\<lambda>s. Some (if s \<noteq> [] \<and> hd s = CHR ''-'' then - int (digits_value (tl s)) else int (digits_value s)))\<rparr>"

lemma digits_first: "digits n \<noteq> [] \<and> hd (digits n) \<noteq> CHR ''-''"
proof (induction n rule: digits.induct)
  case (1 n)
  show ?case
  proof (cases "n < 10")
    case True
    then have "n \<in> {0, 1, 2, 3, 4, 5, 6, 7, 8, 9}" by auto
    then show ?thesis by (subst (1 2) digits.simps) (auto simp: True char_of_def)
  qed (use 1 in \<open>simp add: digits.simps[of n]\<close>)
qed

lemma sample_times_law: "tt_parse sample_times (tt_iso sample_times t) = Some t"
  using digits_first by (simp add: sample_times_def int_digits_def)

definition sample_sweep :: sweep_env where
  "sample_sweep = \<lparr>sw_texts = sample_times, sw_now = 200000, sw_claim = (\<lambda>c. ''k''), sw_stop = (\<lambda>c. Docker_error (Some 304) ''stopped''),
     sw_remove = (\<lambda>c. if c = ''c1'' then Docker_done else Docker_error (Some 500) ''busy'')\<rparr>"

definition sample_start :: "string \<Rightarrow> start_args" where
  "sample_start c = \<lparr>sa_container = c, sa_node = ''n'', sa_thread = ''t'', sa_image = ''i'', sa_labels = None, sa_platform = None,
     sa_ttl = Some 100, sa_mounts = Some (JArr [mount_json (''ha_ws_t'', ''/workspace'')]), sa_name = Some ''/box''\<rparr>"

definition sample_containers :: container_db where
  "sample_containers =
     fst (register_start sample_times 0 (sample_start ''c2'')
       (fst (register_start sample_times 0 (sample_start ''c1'') \<lparr>cd_rows = [], cd_next = 1\<rparr>)))"


section \<open>Retries\<close>

lemma row_of_update:
  "(\<And>r. cr_container (f r) = cr_container r) \<Longrightarrow>
   row_of c (update_row now c f db) = map_option (\<lambda>r. (f r)\<lparr>cr_updated := now\<rparr>) (row_of c db)"
proof -
  assume f: "\<And>r. cr_container (f r) = cr_container r"
  have "find (\<lambda>r. cr_container r = c) (map (\<lambda>r. if cr_container r = c then (f r)\<lparr>cr_updated := now\<rparr> else r) rs)
      = map_option (\<lambda>r. (f r)\<lparr>cr_updated := now\<rparr>) (find (\<lambda>r. cr_container r = c) rs)" for rs
    by (induction rs) (simp_all add: f)
  then show ?thesis by (simp add: row_of_def update_row_def)
qed

lemma retry_delay_bounds: "n \<ge> 0 \<Longrightarrow> 1000 \<le> retry_delay n \<and> retry_delay n \<le> 900000"
  by (simp add: retry_delay_def)

lemma retry_delay_doubles: "0 \<le> n \<Longrightarrow> retry_delay (n + 1) = min (2 * retry_delay n) 900000"
  by (simp add: retry_delay_def nat_add_distrib min_def)

text \<open>
  A container whose removal failed is tried again, neither too soon nor too late: the clean-up
  finds it due exactly when its delay has passed.  The delay is at least a second, doubles with every
  failure, and never exceeds a quarter of an hour.
\<close>

theorem retry_backoff:
  assumes "\<And>t. tt_parse tt (tt_iso tt t) = Some t"
    and "row_of c db = Some r" "cr_status r = Terminating" "attempts_of r \<ge> 0"
  shows "\<exists>r' d. row_of c (record_termination_failure tt now c msg db) = Some r'
     \<and> (\<forall>later. expired_row tt later r' \<longleftrightarrow> later \<ge> now + d)
     \<and> attempts_of r' = attempts_of r + 1 \<and> d = retry_delay (attempts_of r)
     \<and> 1000 \<le> d \<and> d \<le> 900000 \<and> retry_delay (attempts_of r') = min (2 * d) 900000"
proof -
  let ?e = "\<lparr>sw_texts = tt, sw_now = now, sw_claim = (\<lambda>c. []), sw_stop = (\<lambda>c. Docker_done), sw_remove = (\<lambda>c. Docker_done)\<rparr>"
  let ?r = "failed_row ?e msg r"
  have "row_of c (record_termination_failure tt now c msg db) = Some ?r"
    using assms(2) by (simp add: record_termination_failure_def row_of_update Let_def failed_row_def attempts_of_def)
  moreover have "expired_row tt later ?r \<longleftrightarrow> later \<ge> now + retry_delay (attempts_of r)" for later
    using assms(1,3) by (simp add: expired_row_def failed_row_def retry_due_def metadata_fields)
  moreover have a: "attempts_of ?r = attempts_of r + 1" by (simp add: attempts_of_def[of ?r] failed_metadata)
  ultimately show ?thesis using retry_delay_bounds[OF assms(4)] retry_delay_doubles[OF assms(4)] by (simp add: a)
qed

theorem retry_backoff_witness:
  "\<exists>r r' d. row_of ''c2'' (mark_terminating 5 ''c2'' ''x'' None sample_containers) = Some r
     \<and> row_of ''c2'' (record_termination_failure sample_times 7 ''c2'' ''busy''
          (mark_terminating 5 ''c2'' ''x'' None sample_containers)) = Some r'
     \<and> (\<forall>later. expired_row sample_times later r' \<longleftrightarrow> later \<ge> 7 + d) \<and> 1000 \<le> d"
proof -
  let ?db = "mark_terminating 5 ''c2'' ''x'' None sample_containers"
  have "case row_of ''c2'' ?db of None \<Rightarrow> False | Some r \<Rightarrow> cr_status r = Terminating \<and> attempts_of r \<ge> 0" by code_simp
  then obtain r where r: "row_of ''c2'' ?db = Some r" "cr_status r = Terminating" "attempts_of r \<ge> 0"
    by (auto split: option.splits)
  from retry_backoff[of sample_times, OF sample_times_law r, of 7 "''busy''"] r(1) show ?thesis by metis
qed

end
