(* ===== verification/Container_Events.thy ===== *)
theory Container_Events
  imports Containers
begin

text \<open>
  What the server makes of the events of containers: \<^verbatim>\<open>infra/container/containerEvent.reason.ts\<close> and
  \<^verbatim>\<open>containerEvent.processor.ts\<close>.

  Events are handled one after another.  Upper and lower case are those of ASCII, which is all the
  comparisons depend on.  An action named like a property of \<open>Object.prototype\<close> is not modelled.
\<close>

section \<open>Reasons\<close>

datatype event_type =
    Ev_create | Ev_start | Ev_stop | Ev_die | Ev_kill | Ev_destroy | Ev_restart | Ev_oom | Ev_health

datatype event_reason =
    Container_created | Container_started | Container_restarted | Container_stopped | Container_destroyed
  | Health_healthy | Health_unhealthy | Health_starting | Health_unknown
  | Oom_killed | Sigterm | Sigkill | Sigint | Exited_normally | Exited_with_error

fun reason_text :: "event_reason \<Rightarrow> string" where
  "reason_text Container_created = ''ContainerCreated''"
| "reason_text Container_started = ''ContainerStarted''"
| "reason_text Container_restarted = ''ContainerRestarted''"
| "reason_text Container_stopped = ''ContainerStopped''"
| "reason_text Container_destroyed = ''ContainerDestroyed''"
| "reason_text Health_healthy = ''HealthStatusHealthy''"
| "reason_text Health_unhealthy = ''HealthStatusUnhealthy''"
| "reason_text Health_starting = ''HealthStatusStarting''"
| "reason_text Health_unknown = ''HealthStatusUnknown''"
| "reason_text Oom_killed = ''OOMKilled''"
| "reason_text Sigterm = ''SIGTERM''"
| "reason_text Sigkill = ''SIGKILL''"
| "reason_text Sigint = ''SIGINT''"
| "reason_text Exited_normally = ''ExitedNormally''"
| "reason_text Exited_with_error = ''ExitedWithError''"

definition upper_char :: "char \<Rightarrow> char" where
  "upper_char c = (if (97 :: nat) \<le> of_char c \<and> of_char c \<le> (122 :: nat) then char_of (of_char c - (32 :: nat)) else c)"

definition lower_ascii :: "char \<Rightarrow> char" where
  "lower_ascii c = (if (65 :: nat) \<le> of_char c \<and> of_char c \<le> (90 :: nat) then char_of (of_char c + (32 :: nat)) else c)"

definition signal_reasons :: "(string \<times> event_reason) list" where
  "signal_reasons =
     [(''SIGTERM'', Sigterm), (''TERM'', Sigterm), (''15'', Sigterm),
      (''SIGKILL'', Sigkill), (''KILL'', Sigkill), (''9'', Sigkill),
      (''SIGINT'', Sigint), (''INT'', Sigint), (''2'', Sigint)]"

definition normalize_signal :: "string option \<Rightarrow> string option" where
  "normalize_signal s =
     (case s of None \<Rightarrow> None | Some t \<Rightarrow> if t = [] then None else Some (map upper_char (js_trim t)))"

definition map_event_reason ::
  "event_type \<Rightarrow> int option \<Rightarrow> string option \<Rightarrow> bool \<Rightarrow> container_health option \<Rightarrow> event_reason" where
  "map_event_reason ty exit_code signal recent_oom health =
     (case ty of
        Ev_create \<Rightarrow> Container_created
      | Ev_start \<Rightarrow> Container_started
      | Ev_restart \<Rightarrow> Container_restarted
      | Ev_stop \<Rightarrow> Container_stopped
      | Ev_destroy \<Rightarrow> Container_destroyed
      | Ev_health \<Rightarrow>
          (case health of Some Healthy \<Rightarrow> Health_healthy | Some Unhealthy \<Rightarrow> Health_unhealthy
           | Some Starting \<Rightarrow> Health_starting | None \<Rightarrow> Health_unknown)
      | Ev_oom \<Rightarrow> Oom_killed
      | Ev_kill \<Rightarrow>
          (case Option.bind (normalize_signal signal) (map_of signal_reasons) of
             Some r \<Rightarrow> r | None \<Rightarrow> Exited_with_error)
      | Ev_die \<Rightarrow>
          (if exit_code = Some 0 then Exited_normally
           else if exit_code = Some 137 then (if recent_oom then Oom_killed else Sigkill)
           else if exit_code = Some 143 then Sigterm
           else if exit_code = Some 130 then Sigint
           else Exited_with_error))"

definition status_for_event :: "event_type \<Rightarrow> event_reason \<Rightarrow> container_status option" where
  "status_for_event ty reason =
     (case ty of
        Ev_create \<Rightarrow> Some Running
      | Ev_start \<Rightarrow> Some Running
      | Ev_restart \<Rightarrow> Some Running
      | Ev_stop \<Rightarrow> Some Stopped
      | Ev_oom \<Rightarrow> Some Failed
      | Ev_kill \<Rightarrow> Some Terminating
      | Ev_die \<Rightarrow> Some (if reason = Exited_normally \<or> reason = Sigterm then Stopped else Failed)
      | Ev_destroy \<Rightarrow> None
      | Ev_health \<Rightarrow> None)"

section \<open>Reading an event\<close>

record docker_event =
  de_status :: "string option"
  de_action :: "string option"
  de_type :: "string option"
  de_ids :: "string option list"
  de_time :: "int option"
  de_time_nano :: "int option"
  de_attributes :: "(string \<times> string) list"

text \<open>\<open>a ?? b ?? c\<close>\<close>

fun first_given :: "'a option list \<Rightarrow> 'a option" where
  "first_given [] = None"
| "first_given (None # xs) = first_given xs"
| "first_given (Some x # xs) = Some x"

definition event_types :: "(string \<times> event_type) list" where
  "event_types =
     [(''create'', Ev_create), (''start'', Ev_start), (''stop'', Ev_stop), (''die'', Ev_die), (''kill'', Ev_kill),
      (''destroy'', Ev_destroy), (''restart'', Ev_restart), (''oom'', Ev_oom), (''health_status'', Ev_health)]"

definition text_or_empty :: "string option \<Rightarrow> string" where
  "text_or_empty s = (case s of None \<Rightarrow> [] | Some t \<Rightarrow> t)"

definition resolve_event_type :: "docker_event \<Rightarrow> event_type option" where
  "resolve_event_type ev =
     (case map_of event_types (map lower_ascii (text_or_empty (de_action ev))) of
        Some ty \<Rightarrow> Some ty
      | None \<Rightarrow>
          (let status = map lower_ascii (text_or_empty (de_status ev))
           in map_of event_types (js_trim (takeWhile (\<lambda>c. c \<noteq> CHR '':'') status))))"

definition parse_exit_code :: "(string \<times> string) list \<Rightarrow> int option" where
  "parse_exit_code attrs =
     Option.bind (first_given [map_of attrs ''exitCode'', map_of attrs ''ExitCode'']) js_parse_int"

definition parse_signal :: "(string \<times> string) list \<Rightarrow> string option" where
  "parse_signal attrs =
     (case first_given [map_of attrs ''signal'', map_of attrs ''Signal''] of
        None \<Rightarrow> None | Some s \<Rightarrow> if s = [] then None else Some s)"

definition normalize_health_string :: "string option \<Rightarrow> container_health option" where
  "normalize_health_string v = Option.bind v (\<lambda>s. health_of_text (map lower_ascii (js_trim s)))"

definition parse_health_status :: "(string \<times> string) list \<Rightarrow> string option \<Rightarrow> container_health option" where
  "parse_health_status attrs status =
     (case normalize_health_string
         (first_given [map_of attrs ''health_status'', map_of attrs ''Health_status'', map_of attrs ''healthStatus'']) of
        Some h \<Rightarrow> Some h
      | None \<Rightarrow>
          (case status of
             None \<Rightarrow> None
           | Some s \<Rightarrow>
               (case js_split '':'' s of
                  a # b # rest \<Rightarrow> normalize_health_string (Some b)
                | _ \<Rightarrow> None)))"

definition parse_auto_removed :: "(string \<times> string) list \<Rightarrow> bool" where
  "parse_auto_removed attrs =
     (case first_given [map_of attrs ''autoRemove'', map_of attrs ''AutoRemove'', map_of attrs ''autoremove'', map_of attrs ''auto_remove''] of
        None \<Rightarrow> False
      | Some s \<Rightarrow> map lower_ascii (js_trim s) \<in> {''1'', ''true'', ''yes''})"

definition event_time :: "int \<Rightarrow> docker_event \<Rightarrow> int" where
  "event_time now ev =
     (case de_time_nano ev of
        Some n \<Rightarrow> if n > 0 then n div 1000000
          else (case de_time ev of Some t \<Rightarrow> if t > 0 then t * 1000 else now | None \<Rightarrow> now)
      | None \<Rightarrow> (case de_time ev of Some t \<Rightarrow> if t > 0 then t * 1000 else now | None \<Rightarrow> now))"

definition build_message ::
  "docker_event \<Rightarrow> int option \<Rightarrow> string option \<Rightarrow> container_health option \<Rightarrow> string option" where
  "build_message ev exit_code signal health =
     (let given = (\<lambda>s. case s of None \<Rightarrow> None | Some t \<Rightarrow> if t = [] then None else Some t)
      in first_given
          [given (map_of (de_attributes ev) ''error''), given (de_status ev), given (de_action ev),
           map_option (\<lambda>n. ''exitCode='' @ int_digits n) exit_code,
           map_option (\<lambda>s. ''signal='' @ s) (given signal),
           map_option (\<lambda>h. ''health='' @ health_text h) health])"

definition resolve_thread_id :: "(string \<Rightarrow> bool) \<Rightarrow> string option \<Rightarrow> (string \<times> string) list \<Rightarrow> string option" where
  "resolve_thread_id uuid stored attrs =
     (case stored of
        Some t \<Rightarrow> if t \<noteq> [] \<and> uuid t then Some t
          else (case map_of attrs ''hautech.ai/thread_id'' of
                  Some c \<Rightarrow> if c \<noteq> [] \<and> uuid c then Some c else None | None \<Rightarrow> None)
      | None \<Rightarrow>
          (case map_of attrs ''hautech.ai/thread_id'' of
             Some c \<Rightarrow> if c \<noteq> [] \<and> uuid c then Some c else None | None \<Rightarrow> None))"

section \<open>The processor\<close>

record container_event =
  ce_row :: nat
  ce_type :: event_type
  ce_exit :: "int option"
  ce_signal :: "string option"
  ce_reason :: event_reason
  ce_message :: "string option"
  ce_created :: int
  ce_health :: "container_health option"

record event_processor =
  ep_db :: container_db
  ep_events :: "container_event list"
  ep_oom :: "(string \<times> int) list"
  ep_logged :: "(string \<times> int) list"

record event_env =
  ee_texts :: time_texts
  ee_now :: int
  ee_uuid :: "string \<Rightarrow> bool"
  ee_find_ok :: bool
  ee_create_ok :: bool
  ee_update_ok :: bool

definition clone_metadata :: "json option \<Rightarrow> json" where
  "clone_metadata meta = as_object meta"

text \<open>The time of the last event a row has seen, when the column can be read.\<close>

definition last_event_time :: "time_texts \<Rightarrow> container_row \<Rightarrow> int option" where
  "last_event_time tt r =
     (case jget (clone_metadata (cr_meta r)) ''lastEventAt'' of
        Some (JStr s) \<Rightarrow> if s = [] then None else tt_parse tt s
      | _ \<Rightarrow> None)"

definition is_stale :: "time_texts \<Rightarrow> int \<Rightarrow> container_row \<Rightarrow> bool" where
  "is_stale tt time r = (case last_event_time tt r of None \<Rightarrow> False | Some t \<Rightarrow> time < t)"

definition has_recent_oom :: "(string \<times> int) list \<Rightarrow> string \<Rightarrow> int \<Rightarrow> bool" where
  "has_recent_oom oom docker time = (case map_of oom docker of None \<Rightarrow> False | Some t \<Rightarrow> time - t \<le> 15000)"

definition startup_events :: "event_type list" where
  "startup_events = [Ev_create, Ev_start, Ev_restart]"

definition handle_missing :: "int \<Rightarrow> event_type \<Rightarrow> string \<Rightarrow> int \<Rightarrow> event_processor \<Rightarrow> event_processor" where
  "handle_missing now ty docker time p =
     (let p1 = (if ty = Ev_oom then p\<lparr>ep_oom := AList.update docker time (ep_oom p)\<rparr> else p)
      in if ty \<in> set startup_events
         then (case map_of (ep_logged p1) docker of
                 Some l \<Rightarrow> if l = 0 \<or> now - l \<ge> 10000 then p1\<lparr>ep_logged := AList.update docker now (ep_logged p1)\<rparr> else p1
               | None \<Rightarrow> p1\<lparr>ep_logged := AList.update docker now (ep_logged p1)\<rparr>)
         else p1)"

definition can_transition :: "event_type \<Rightarrow> container_status \<Rightarrow> container_status \<Rightarrow> bool" where
  "can_transition ty status next \<longleftrightarrow>
     \<not> ((next = Terminating \<and> status \<noteq> Running \<and> status \<noteq> Terminating)
        \<or> (next = Stopped \<and> status = Failed \<and> ty = Ev_stop))"

definition status_after_event :: "event_type \<Rightarrow> event_reason \<Rightarrow> container_status \<Rightarrow> container_status option" where
  "status_after_event ty reason status =
     (case status_for_event ty reason of
        None \<Rightarrow> None
      | Some next \<Rightarrow> if can_transition ty status next then Some next else None)"

text \<open>The metadata after an event, and whether it has changed; then the row, and whether it is written.\<close>

definition event_metadata ::
  "time_texts \<Rightarrow> int \<Rightarrow> event_type \<Rightarrow> bool \<Rightarrow> container_health option \<Rightarrow> json option \<Rightarrow> json \<times> bool" where
  "event_metadata tt time ty auto_removed health meta =
     (let m0 = clone_metadata meta;
          c1 = jget m0 ''lastEventAt'' \<noteq> Some (JStr (tt_iso tt time));
          m1 = (if c1 then jset ''lastEventAt'' (JStr (tt_iso tt time)) m0 else m0);
          c2 = (ty = Ev_destroy \<and> auto_removed \<and> jget m1 ''autoRemoved'' \<noteq> Some (JBool True));
          m2 = (if c2 then jset ''autoRemoved'' (JBool True) m1 else m1);
          c3 = (case health of
                  Some h \<Rightarrow> ty = Ev_health \<and> jget m2 ''health'' \<noteq> Some (JStr (health_text h)) | None \<Rightarrow> False);
          m3 = (case health of Some h \<Rightarrow> if c3 then jset ''health'' (JStr (health_text h)) m2 else m2 | None \<Rightarrow> m2)
      in (m3, c1 \<or> c2 \<or> c3))"

definition event_row ::
  "event_env \<Rightarrow> docker_event \<Rightarrow> event_type \<Rightarrow> event_reason \<Rightarrow> string \<Rightarrow> int \<Rightarrow> container_row \<Rightarrow> container_row \<times> bool" where
  "event_row e ev ty reason docker time r =
     (let health = (if ty = Ev_health then parse_health_status (de_attributes ev) (de_status ev) else None);
          auto_removed = (ty = Ev_destroy \<and> parse_auto_removed (de_attributes ev));
          thread = resolve_thread_id (ee_uuid e) (cr_thread r) (de_attributes ev);
          next = status_after_event ty reason (cr_status r);
          (meta, changed) = event_metadata (ee_texts e) time ty auto_removed health (cr_meta r);
          r1 = (case next of None \<Rightarrow> r | Some s \<Rightarrow> r\<lparr>cr_status := s\<rparr>);
          r2 = (if ty \<in> set startup_events then r1\<lparr>cr_reason := None\<rparr>
                else if ty = Ev_kill \<or> ty = Ev_die \<or> ty = Ev_oom \<or> (ty = Ev_stop \<and> next \<noteq> None)
                then r1\<lparr>cr_reason := Some (reason_text reason)\<rparr> else r1);
          r3 = r2\<lparr>cr_docker := docker, cr_thread := (case thread of None \<Rightarrow> cr_thread r | Some t \<Rightarrow> Some t)\<rparr>
      in (if changed then r3\<lparr>cr_meta := Some meta\<rparr> else r3,
          next \<noteq> None \<or> ty \<in> set startup_events \<or> ty = Ev_kill \<or> ty = Ev_die \<or> ty = Ev_oom
            \<or> cr_docker r \<noteq> docker \<or> cr_thread r3 \<noteq> cr_thread r \<or> changed))"

text \<open>
  The update is a statement of its own and may fail, also because the identifier it sets belongs to
  another row; its failure is logged and nothing else is undone.
\<close>

definition apply_event ::
  "event_env \<Rightarrow> docker_event \<Rightarrow> event_type \<Rightarrow> event_reason \<Rightarrow> string \<Rightarrow> int \<Rightarrow> container_row \<Rightarrow> container_db \<Rightarrow> container_db" where
  "apply_event e ev ty reason docker time r db =
     (let (r', touched) = event_row e ev ty reason docker time r
      in if \<not> ee_update_ok e \<or> list_ex (\<lambda>x. cr_docker x = docker \<and> cr_container x \<noteq> cr_container r) (cd_rows db) then db
         else if \<not> touched then db
         else update_row (ee_now e) (cr_container r) (\<lambda>x. r') db)"

definition handle_known ::
  "event_env \<Rightarrow> docker_event \<Rightarrow> event_type \<Rightarrow> string \<Rightarrow> int \<Rightarrow> container_row \<Rightarrow> event_processor \<Rightarrow> event_processor" where
  "handle_known e ev ty docker time r p =
     (let attrs = de_attributes ev; exit_code = parse_exit_code attrs; signal = parse_signal attrs;
          health = (if ty = Ev_health then parse_health_status attrs (de_status ev) else None);
          reason = map_event_reason ty exit_code signal (has_recent_oom (ep_oom p) docker time) health;
          p1 = p\<lparr>ep_logged := AList.delete docker (ep_logged p)\<rparr>
      in if \<not> ee_create_ok e then p1
         else
           (let p2 = p1\<lparr>ep_events := ep_events p1 @ [\<lparr>ce_row = cr_id r, ce_type = ty, ce_exit = exit_code, ce_signal = signal,
                  ce_reason = reason, ce_message = build_message ev exit_code signal health, ce_created = time, ce_health = health\<rparr>]\<rparr>
            in if is_stale (ee_texts e) time r then p2
               else p2\<lparr>ep_oom := (if ty = Ev_oom then AList.update docker time (ep_oom p2)
                        else if ty = Ev_die then AList.delete docker (ep_oom p2) else ep_oom p2),
                      ep_db := apply_event e ev ty reason docker time r (ep_db p2)\<rparr>))"

text \<open>A time beyond what a date can hold makes \<open>toISOString\<close> throw; the event is dropped.\<close>

definition max_date :: int where
  "max_date = 8640000000000000"

definition handle_event :: "event_env \<Rightarrow> docker_event \<Rightarrow> event_processor \<Rightarrow> event_processor" where
  "handle_event e ev p =
     (if de_type ev \<noteq> None \<and> de_type ev \<noteq> Some [] \<and> map lower_ascii (text_or_empty (de_type ev)) \<noteq> ''container'' then p
      else
        (case (resolve_event_type ev, first_given (de_ids ev)) of
           (Some ty, Some docker) \<Rightarrow>
             if docker = [] then p
             else
               (let time = event_time (ee_now e) ev
                in if abs time > max_date \<or> \<not> ee_find_ok e then p
                   else
                     (case find (\<lambda>r. cr_docker r = docker \<or> cr_container r = docker) (cd_rows (ep_db p)) of
                        None \<Rightarrow> handle_missing (ee_now e) ty docker time p
                      | Some r \<Rightarrow> handle_known e ev ty docker time r p))
         | _ \<Rightarrow> p))"

text \<open>\<open>enqueue\<close> chains the handling of each event to that of the ones before it.\<close>

definition drain_events :: "(event_env \<times> docker_event) list \<Rightarrow> event_processor \<Rightarrow> event_processor" where
  "drain_events evs p = fold (\<lambda>(e, ev). handle_event e ev) evs p"

section \<open>What an event does to the rows\<close>

lemma case_option_same [simp]: "(case x of None \<Rightarrow> c | Some y \<Rightarrow> c) = c"
  by (cases x) simp_all

lemmas through_branches = if_distrib option.case_distrib

lemma event_row_id [simp]: "cr_id (fst (event_row e ev ty reason docker time r)) = cr_id r"
  by (cases "status_after_event ty reason (cr_status r)")
    (simp_all add: event_row_def Let_def case_prod_beta through_branches[of cr_id])

lemma event_row_container [simp]: "cr_container (fst (event_row e ev ty reason docker time r)) = cr_container r"
  by (cases "status_after_event ty reason (cr_status r)")
    (simp_all add: event_row_def Let_def case_prod_beta through_branches[of cr_container])

lemma event_row_status:
  "cr_status (fst (event_row e ev ty reason docker time r)) =
     (case status_after_event ty reason (cr_status r) of None \<Rightarrow> cr_status r | Some s \<Rightarrow> s)"
  by (cases "status_after_event ty reason (cr_status r)")
    (simp_all add: event_row_def Let_def case_prod_beta through_branches[of cr_status])

text \<open>An event changes at most the row it is about, and only when it is not stale.\<close>

lemma handle_event_db:
  obtains (same) "ep_db (handle_event e ev p) = ep_db p"
  | (row) ty reason docker r where "r \<in> set (cd_rows (ep_db p))" "resolve_event_type ev = Some ty"
      "\<not> is_stale (ee_texts e) (event_time (ee_now e) ev) r"
      "\<forall>x \<in> set (cd_rows (ep_db p)). cr_docker x = docker \<longrightarrow> cr_container x = cr_container r"
      "ep_db (handle_event e ev p) = update_row (ee_now e) (cr_container r)
         (\<lambda>x. fst (event_row e ev ty reason docker (event_time (ee_now e) ev) r)) (ep_db p)"
proof (cases "resolve_event_type ev")
  case None
  then show thesis using same by (auto simp: handle_event_def split: option.splits)
next
  case (Some ty)
  show thesis
  proof (cases "ep_db (handle_event e ev p) = ep_db p")
    case False
    let ?time = "event_time (ee_now e) ev"
    have m: "ep_db (handle_missing n ty d t p) = ep_db p" for n d t
      by (simp add: handle_missing_def Let_def split: option.splits)
    obtain docker r where f: "find (\<lambda>r. cr_docker r = docker \<or> cr_container r = docker) (cd_rows (ep_db p)) = Some r"
        "ep_db (handle_event e ev p) = ep_db (handle_known e ev ty docker ?time r p)"
      using False Some m by (auto simp: handle_event_def Let_def split: option.splits if_splits)
    have r: "r \<in> set (cd_rows (ep_db p))" using f(1) by (auto simp: find_Some_iff)
    obtain reason where k: "\<not> is_stale (ee_texts e) ?time r"
        "ep_db (handle_event e ev p) = apply_event e ev ty reason docker ?time r (ep_db p)"
      using False f(2) by (auto simp: handle_known_def Let_def split: if_splits)
    have u: "\<not> list_ex (\<lambda>x. cr_docker x = docker \<and> cr_container x \<noteq> cr_container r) (cd_rows (ep_db p))"
      "ep_db (handle_event e ev p) = update_row (ee_now e) (cr_container r)
         (\<lambda>x. fst (event_row e ev ty reason docker ?time r)) (ep_db p)"
      using False k(2) by (auto simp: apply_event_def Let_def split: if_splits prod.splits)
    show thesis by (rule row[OF r Some k(1) _ u(2)]) (use u(1) in \<open>auto simp: list_ex_iff\<close>)
  qed (rule same)
qed

text \<open>
  Events that arrive late change nothing.  An event older than the last one its container has seen
  is added to the container's history, and that is all: no row of the table, no status and no memory
  of kills for lack of memory is touched.
\<close>

theorem stale_events_only_recorded:
  assumes "first_given (de_ids ev) = Some docker"
    and "find (\<lambda>r. cr_docker r = docker \<or> cr_container r = docker) (cd_rows (ep_db p)) = Some r"
    and "is_stale (ee_texts e) (event_time (ee_now e) ev) r"
  shows "ep_db (handle_event e ev p) = ep_db p \<and> ep_oom (handle_event e ev p) = ep_oom p
    \<and> (\<exists>new. ep_events (handle_event e ev p) = ep_events p @ new \<and> length new \<le> 1
         \<and> list_all (\<lambda>c. ce_row c = cr_id r) new)"
  using assms by (auto simp: handle_event_def handle_known_def Let_def split: option.splits)

section \<open>Time goes forward\<close>

definition no_later :: "int option \<Rightarrow> int option \<Rightarrow> bool" where
  "no_later a b = (case a of None \<Rightarrow> True | Some t \<Rightarrow> (case b of None \<Rightarrow> False | Some u \<Rightarrow> t \<le> u))"

lemma no_later_refl [simp]: "no_later a a"
  by (simp add: no_later_def split: option.splits)

lemma event_metadata_time:
  "is_record (clone_metadata meta) \<Longrightarrow>
   jget (fst (event_metadata tt time ty auto health meta)) ''lastEventAt'' = Some (JStr (tt_iso tt time))"
  by (auto simp: event_metadata_def Let_def jget_jset split: option.splits)

lemma event_metadata_changed:
  "\<not> snd (event_metadata tt time ty auto health meta) \<Longrightarrow>
   jget (clone_metadata meta) ''lastEventAt'' = Some (JStr (tt_iso tt time))"
  by (auto simp: event_metadata_def Let_def split: option.splits)

lemma event_row_time:
  assumes "\<And>t. tt_parse (ee_texts e) (tt_iso (ee_texts e) t) = Some t" "\<And>t. tt_iso (ee_texts e) t \<noteq> []"
    and "is_record (clone_metadata (cr_meta r))"
  shows "last_event_time (ee_texts e) (fst (event_row e ev ty reason docker time r)) = Some time"
proof -
  let ?tt = "ee_texts e"
  let ?h = "if ty = Ev_health then parse_health_status (de_attributes ev) (de_status ev) else None"
  let ?m = "event_metadata ?tt time ty (ty = Ev_destroy \<and> parse_auto_removed (de_attributes ev)) ?h (cr_meta r)"
  have m: "cr_meta (fst (event_row e ev ty reason docker time r)) = (if snd ?m then Some (fst ?m) else cr_meta r)"
    by (cases "status_after_event ty reason (cr_status r)")
      (simp_all add: event_row_def Let_def case_prod_beta through_branches[of cr_meta])
  have "jget (clone_metadata (if snd ?m then Some (fst ?m) else cr_meta r)) ''lastEventAt'' = Some (JStr (tt_iso ?tt time))"
  proof (cases "snd ?m")
    case True
    have t: "jget (fst ?m) ''lastEventAt'' = Some (JStr (tt_iso ?tt time))" by (rule event_metadata_time[OF assms(3)])
    then have "is_record (fst ?m)" by (cases "fst ?m") (simp_all add: is_record_def)
    then have "clone_metadata (Some (fst ?m)) = fst ?m"
      by (cases "fst ?m") (simp_all add: clone_metadata_def as_object_def is_object_like_def is_record_def)
    then show ?thesis using True t by simp
  qed (use event_metadata_changed in simp)
  then show ?thesis using assms(1,2) by (simp add: last_event_time_def m)
qed

lemma no_record_no_time: "\<not> is_record (clone_metadata (cr_meta r)) \<Longrightarrow> last_event_time tt r = None"
  by (cases "clone_metadata (cr_meta r)") (simp_all add: last_event_time_def is_record_def)

text \<open>
  C27. A container's clock never runs backwards: whatever event is handled, whichever of the
  database's statements fail, no row's time of its last event decreases.
\<close>

theorem last_event_monotone:
  assumes "\<And>t. tt_parse (ee_texts e) (tt_iso (ee_texts e) t) = Some t" "\<And>t. tt_iso (ee_texts e) t \<noteq> []"
    and "containers_ok (ep_db p)"
  shows "list_all2 (\<lambda>r r'. no_later (last_event_time (ee_texts e) r) (last_event_time (ee_texts e) r'))
    (cd_rows (ep_db p)) (cd_rows (ep_db (handle_event e ev p)))"
proof (cases rule: handle_event_db[of e ev p])
  case same
  then show ?thesis by (simp add: list_all2_refl)
next
  case (row ty reason docker r)
  let ?r' = "fst (event_row e ev ty reason docker (event_time (ee_now e) ev) r)"
  have n: "no_later (last_event_time (ee_texts e) r) (last_event_time (ee_texts e) (?r'\<lparr>cr_updated := ee_now e\<rparr>))"
  proof (cases "is_record (clone_metadata (cr_meta r))")
    case True
    from event_row_time[OF assms(1,2) True] row(3) show ?thesis
      by (auto simp: no_later_def is_stale_def last_event_time_def split: option.splits)
  qed (simp add: no_record_no_time no_later_def)
  have u: "x = r" if "x \<in> set (cd_rows (ep_db p))" "cr_container x = cr_container r" for x
    by (rule map_rows_row[OF assms(3) row(1) that])
  show ?thesis unfolding row(5) update_row_map rows_map_rows list_all2_map2
    by (rule list_all2_same[THEN iffD2]) (use n u in auto)
qed

section \<open>A concrete day\<close>

definition sample_event_env :: event_env where
  "sample_event_env = \<lparr>ee_texts = sample_times, ee_now = 90, ee_uuid = (\<lambda>s. True), ee_find_ok = True, ee_create_ok = True,
     ee_update_ok = True\<rparr>"

definition sample_event :: "string \<Rightarrow> int \<Rightarrow> (string \<times> string) list \<Rightarrow> docker_event" where
  "sample_event action ms attrs = \<lparr>de_status = None, de_action = Some action, de_type = Some ''Container'', de_ids = [None, Some ''c1''],
     de_time = None, de_time_nano = Some (ms * 1000000), de_attributes = attrs\<rparr>"

definition sample_processor :: event_processor where
  "sample_processor = \<lparr>ep_db = sample_containers, ep_events = [], ep_oom = [], ep_logged = []\<rparr>"

definition after_health :: event_processor where
  "after_health = handle_event sample_event_env (sample_event ''start'' 20 []) sample_processor"

theorem stale_events_only_recorded_witness:
  "ep_db (handle_event sample_event_env (sample_event ''stop'' 10 []) after_health) = ep_db after_health"
proof -
  let ?ev = "sample_event ''stop'' 10 []"
  have i: "first_given (de_ids ?ev) = Some ''c1''" by code_simp
  have "case find (\<lambda>r. cr_docker r = ''c1'' \<or> cr_container r = ''c1'') (cd_rows (ep_db after_health)) of
      None \<Rightarrow> False | Some r \<Rightarrow> is_stale sample_times (event_time 90 ?ev) r" by code_simp
  then obtain r where r: "find (\<lambda>r. cr_docker r = ''c1'' \<or> cr_container r = ''c1'') (cd_rows (ep_db after_health)) = Some r"
      "is_stale (ee_texts sample_event_env) (event_time (ee_now sample_event_env) ?ev) r"
    by (auto simp: sample_event_env_def split: option.splits)
  from stale_events_only_recorded[OF i r] show ?thesis by blast
qed

theorem last_event_monotone_witness:
  "list_all2 (\<lambda>r r'. no_later (last_event_time sample_times r) (last_event_time sample_times r'))
    (cd_rows (ep_db sample_processor)) (cd_rows (ep_db after_health))"
proof -
  have t: "ee_texts sample_event_env = sample_times" by (simp add: sample_event_env_def)
  have "tt_iso sample_times t \<noteq> []" for t using digits_first by (simp add: sample_times_def int_digits_def)
  moreover have "containers_ok (ep_db sample_processor)" by code_simp
  ultimately show ?thesis
    using last_event_monotone[of sample_event_env sample_processor "sample_event ''start'' 20 []"] sample_times_law
    by (simp add: t after_health_def)
qed

text \<open>
  Only a start makes a container run.  If a row is not running and is running after an event, the
  event says the container was created, started or restarted, and it is not older than the last event
  the row has seen; whatever else happens, a container that stopped, failed or is terminating does
  not come back.
\<close>

theorem only_starts_revive:
  assumes "containers_ok (ep_db p)"
    and "row_of c (ep_db p) = Some r" "cr_status r \<noteq> Running"
    and "row_of c (ep_db (handle_event e ev p)) = Some r'" "cr_status r' = Running"
  shows "(case resolve_event_type ev of None \<Rightarrow> False | Some ty \<Rightarrow> ty \<in> set startup_events)
    \<and> \<not> is_stale (ee_texts e) (event_time (ee_now e) ev) r"
proof (cases rule: handle_event_db[of e ev p])
  case same
  then show ?thesis using assms by simp
next
  case (row ty reason docker r1)
  let ?x = "fst (event_row e ev ty reason docker (event_time (ee_now e) ev) r1)"
  have rc: "cr_container r = c" "r \<in> set (cd_rows (ep_db p))" using row_of_Some[OF assms(2)] by auto
  have r': "r' \<in> set (cd_rows (ep_db (handle_event e ev p)))" "cr_container r' = c" using row_of_Some[OF assms(4)] by auto
  then obtain y where y: "y \<in> set (cd_rows (ep_db p))"
      "r' = (if cr_container y = cr_container r1 then ?x\<lparr>cr_updated := ee_now e\<rparr> else y)"
    using row(5) by (auto simp: update_row_map)
  then have "cr_container y = c" using r'(2) by (auto split: if_splits)
  then have yr: "y = r" using map_rows_row[OF assms(1) rc(2) y(1)] rc(1) by simp
  then have eq: "cr_container r = cr_container r1" using y(2) assms(3,5) by (auto split: if_splits)
  then have r1: "r1 = r" using map_rows_row[OF assms(1) rc(2) row(1)] by simp
  have "cr_status ?x = Running" using y(2) yr eq assms(5) by simp
  then have "status_after_event ty reason (cr_status r) = Some Running"
    using assms(3) by (auto simp: event_row_status r1 split: option.splits)
  then have "ty \<in> set startup_events"
    by (cases ty) (auto simp: status_after_event_def status_for_event_def startup_events_def split: if_splits)
  then show ?thesis using row(2,3) r1 by simp
qed

theorem only_starts_revive_witness:
  "\<not> is_stale sample_times 20 (the (row_of ''c1'' (mark_terminating 5 ''c1'' ''x'' None sample_containers)))"
proof -
  let ?p = "sample_processor\<lparr>ep_db := mark_terminating 5 ''c1'' ''x'' None sample_containers\<rparr>"
  let ?ev = "sample_event ''start'' 20 []"
  have ok: "containers_ok (ep_db ?p)" by code_simp
  have "case row_of ''c1'' (ep_db ?p) of None \<Rightarrow> False | Some r \<Rightarrow> cr_status r \<noteq> Running" by code_simp
  then obtain r where r: "row_of ''c1'' (ep_db ?p) = Some r" "cr_status r \<noteq> Running" by (auto split: option.splits)
  have "case row_of ''c1'' (ep_db (handle_event sample_event_env ?ev ?p)) of None \<Rightarrow> False | Some r \<Rightarrow> cr_status r = Running"
    by code_simp
  then obtain r' where "row_of ''c1'' (ep_db (handle_event sample_event_env ?ev ?p)) = Some r'" "cr_status r' = Running"
    by (auto split: option.splits)
  from only_starts_revive[OF ok r this] r(1) show ?thesis
    by (simp add: sample_event_env_def sample_event_def event_time_def)
qed

section \<open>Claims\<close>

text \<open>
  Several servers share the table.  A claim's second statement is a step of its own, with whatever
  metadata its first one read; every other operation is a step that may start containers.
\<close>

datatype claim_event = Won string string | Started string

definition running_in :: "container_db \<Rightarrow> string \<Rightarrow> bool" where
  "running_in db c \<longleftrightarrow> (case row_of c db of None \<Rightarrow> False | Some r \<Rightarrow> cr_status r = Running)"

definition new_starts :: "container_db \<Rightarrow> container_db \<Rightarrow> claim_event list" where
  "new_starts db db' =
     map (\<lambda>r. Started (cr_container r))
       (filter (\<lambda>r. running_in db' (cr_container r) \<and> \<not> running_in db (cr_container r)) (cd_rows db'))"

definition registry_writes :: "time_texts \<Rightarrow> int \<Rightarrow> container_db \<Rightarrow> container_db set" where
  "registry_writes tt now db =
     {fst (register_start tt now a db) | a. True} \<union> {update_last_used c now ttl db | c ttl. True}
     \<union> {mark_terminating now c reason k db | c reason k. True} \<union> {mark_stopped tt now c reason db | c reason. True}
     \<union> {mark_deleted tt now c reason db | c reason. True} \<union> {record_termination_failure tt now c msg db | c msg. True}
     \<union> {fst (delete_historical cutoff db) | cutoff. True}"

inductive registry_step :: "event_processor \<times> claim_event list \<Rightarrow> event_processor \<times> claim_event list \<Rightarrow> bool" where
  step_claim: "claim_write now c k m (ep_db p) = (db', won) \<Longrightarrow>
    registry_step (p, log) (p\<lparr>ep_db := db'\<rparr>, log @ (if won then [Won c k] else []))"
| step_registry: "db' \<in> registry_writes tt now (ep_db p) \<Longrightarrow>
    registry_step (p, log) (p\<lparr>ep_db := db'\<rparr>, log @ new_starts (ep_db p) db')"
| step_event: "registry_step (p, log) (handle_event e ev p, log @ new_starts (ep_db p) (ep_db (handle_event e ev p)))"

definition wins :: "string \<Rightarrow> claim_event list \<Rightarrow> nat" where
  "wins c log = length (filter (\<lambda>x. case x of Won d k \<Rightarrow> d = c | Started d \<Rightarrow> False) log)"

definition starts :: "string \<Rightarrow> claim_event list \<Rightarrow> nat" where
  "starts c log = length (filter (\<lambda>x. case x of Won d k \<Rightarrow> False | Started d \<Rightarrow> d = c) log)"

definition claims_ok :: "event_processor \<times> claim_event list \<Rightarrow> bool" where
  "claims_ok s \<longleftrightarrow> (\<forall>c. wins c (snd s) + (if running_in (ep_db (fst s)) c then 1 else 0) \<le> starts c (snd s))"

lemma wins_append [simp]: "wins c (a @ b) = wins c a + wins c b"
  by (simp add: wins_def)

lemma starts_append [simp]: "starts c (a @ b) = starts c a + starts c b"
  by (simp add: starts_def)

lemma wins_of_starts [simp]: "wins c (new_starts db db') = 0"
  by (simp add: wins_def new_starts_def filter_empty_conv)

lemma starts_counted:
  assumes "running_in db' c" "\<not> running_in db c"
  shows "1 \<le> starts c (new_starts db db')"
proof -
  obtain r where "row_of c db' = Some r" using assms(1) by (auto simp: running_in_def split: option.splits)
  then have "r \<in> set (cd_rows db')" "cr_container r = c" using row_of_Some by auto
  then have "Started c \<in> set (new_starts db db')" using assms by (auto simp: new_starts_def)
  then have "filter (\<lambda>x. case x of Won d k \<Rightarrow> False | Started d \<Rightarrow> d = c) (new_starts db db') \<noteq> []"
    by (auto simp: filter_empty_conv intro!: bexI[of _ "Started c"])
  then show ?thesis unfolding starts_def by (cases "filter (\<lambda>x. case x of Won d k \<Rightarrow> False | Started d \<Rightarrow> d = c) (new_starts db db')") auto
qed

lemma claims_other:
  assumes "claims_ok (p, log)"
  shows "claims_ok (p', log @ new_starts (ep_db p) (ep_db p'))"
  unfolding claims_ok_def
proof
  fix c
  have "wins c log + (if running_in (ep_db p) c then 1 else 0) \<le> starts c log" using assms by (simp add: claims_ok_def)
  then show "wins c (snd (p', log @ new_starts (ep_db p) (ep_db p'))) + (if running_in (ep_db (fst (p', log @ new_starts (ep_db p) (ep_db p')))) c then 1 else 0)
      \<le> starts c (snd (p', log @ new_starts (ep_db p) (ep_db p')))"
    using starts_counted[of "ep_db p'" c "ep_db p"] by (auto split: if_splits)
qed

lemma claim_write_running:
  assumes "claim_write now c k m db = (db', won)"
  shows "running_in db' d \<longleftrightarrow> running_in db d \<and> \<not> (won \<and> d = c)" "won \<Longrightarrow> running_in db c"
proof -
  let ?f = "\<lambda>r. r\<lparr>cr_status := Terminating, cr_meta := Some (metadata_json (m\<lparr>md_claim := Some k\<rparr>))\<rparr>"
  have other: "row_of d (update_row now c f db) = row_of d db" if "d \<noteq> c" "\<And>r. cr_container (f r) = cr_container r" for f
  proof -
    have "find (\<lambda>r. cr_container r = d) (map (\<lambda>r. if cr_container r = c then (f r)\<lparr>cr_updated := now\<rparr> else r) rs)
        = find (\<lambda>r. cr_container r = d) rs" for rs
      using that by (induction rs) auto
    then show ?thesis by (simp add: row_of_def update_row_def)
  qed
  show "won \<Longrightarrow> running_in db c"
    using assms by (auto simp: claim_write_def running_in_def split: option.splits if_splits)
  show "running_in db' d \<longleftrightarrow> running_in db d \<and> \<not> (won \<and> d = c)"
  proof (cases won)
    case True
    then have db': "db' = update_row now c ?f db" using assms by (auto simp: claim_write_def split: option.splits if_splits)
    show ?thesis
    proof (cases "d = c")
      case True
      have "row_of c db' = map_option (\<lambda>r. (?f r)\<lparr>cr_updated := now\<rparr>) (row_of c db)"
        unfolding db' by (rule row_of_update) simp
      then show ?thesis using True \<open>won\<close> by (auto simp: running_in_def split: option.splits)
    next
      case False
      then show ?thesis using other[of ?f] by (simp add: running_in_def db')
    qed
  next
    case False
    then have "db' = db" using assms by (auto simp: claim_write_def split: option.splits if_splits)
    then show ?thesis using False by simp
  qed
qed

lemma registry_step_ok: "registry_step s s' \<Longrightarrow> claims_ok s \<Longrightarrow> claims_ok s'"
proof (induction rule: registry_step.induct)
  case (step_claim now c k m p db' won log)
  show ?case unfolding claims_ok_def
  proof
    fix d
    have "wins d log + (if running_in (ep_db p) d then 1 else 0) \<le> starts d log"
      using step_claim.prems by (simp add: claims_ok_def)
    then show "wins d (snd (p\<lparr>ep_db := db'\<rparr>, log @ (if won then [Won c k] else [])))
        + (if running_in (ep_db (fst (p\<lparr>ep_db := db'\<rparr>, log @ (if won then [Won c k] else [])))) d then 1 else 0)
        \<le> starts d (snd (p\<lparr>ep_db := db'\<rparr>, log @ (if won then [Won c k] else [])))"
      using claim_write_running[OF step_claim.hyps] by (auto simp: wins_def starts_def split: if_splits)
  qed
next
  case (step_registry db' tt now p log)
  then show ?case using claims_other[of p log "p\<lparr>ep_db := db'\<rparr>"] by simp
next
  case (step_event p log e ev)
  then show ?case by (rule claims_other)
qed


definition empty_processor :: event_processor where
  "empty_processor = \<lparr>ep_db = \<lparr>cd_rows = [], cd_next = 1\<rparr>, ep_events = [], ep_oom = [], ep_logged = []\<rparr>"

definition started_db :: container_db where
  "started_db = fst (register_start sample_times 0 (sample_start ''c1'') (ep_db empty_processor))"


text \<open>
  Closing a thread makes its containers forget.  The termination service rewrites the metadata with
  the properties it knows, and the time of the last event and the mounts are not among them: a start
  event that arrives late, which was ignored before, makes the terminating container running again,
  and the container is no longer found by the volume it uses.
\<close>

theorem termination_forgets:
  "let db = ep_db after_health;
       late = sample_event ''start'' 10 [];
       closed = terminate_by_thread (sample_sweep\<lparr>sw_now := 50\<rparr>) [] ''t'' db
   in map fst (find_by_volume ''ha_ws_t'' db) = [''c1'', ''c2''] \<and> find_by_volume ''ha_ws_t'' closed = []
      \<and> ep_db (handle_event sample_event_env late after_health) = db
      \<and> \<not> running_in closed ''c1''
      \<and> running_in (ep_db (handle_event sample_event_env late (after_health\<lparr>ep_db := closed\<rparr>))) ''c1''"
  by code_simp

end
