(* ===== verification/Reminders.thy ===== *)
theory Reminders
  imports Prelude
begin

text \<open>
  Reminders: the tool that schedules them, \<^verbatim>\<open>nodes/tools/remind_me/remind_me.tool.ts\<close>, and the service that
  cancels them, \<^verbatim>\<open>agents/reminders.service.ts\<close>.

  A call of the tool waits for the database twice, and so does a timer that fires once; the parts
  between the waits are separate steps, so that calls, timers and cancellations interleave.  Database
  statements of the service may fail.  \<open>remindMeTool\<close> nodes are a list of tools.
\<close>

record reminder =
  rm_id :: string
  rm_thread :: string
  rm_note :: string
  rm_at :: int
  rm_completed :: "int option"
  rm_cancelled :: "int option"

record remind_tool =
  tl_active :: "(string \<times> reminder) list"
  tl_destroyed :: bool

datatype remind_error =
    Tool_destroyed
  | Too_many_reminders
  | Thread_not_found
  | Thread_closed

definition max_active :: nat where
  "max_active = 1000"

definition open_reminder :: "reminder \<Rightarrow> bool" where
  "open_reminder r \<longleftrightarrow> rm_completed r = None \<and> rm_cancelled r = None"

section \<open>The tool\<close>

definition get_active_reminders :: "remind_tool \<Rightarrow> reminder list" where
  "get_active_reminders t = map snd (tl_active t)"

definition destroy_tool :: "remind_tool \<Rightarrow> remind_tool" where
  "destroy_tool t = t\<lparr>tl_destroyed := True, tl_active := []\<rparr>"

text \<open>The guards before the first wait.\<close>

definition execute_guard :: "remind_tool \<Rightarrow> remind_error option" where
  "execute_guard t =
     (if tl_destroyed t then Some Tool_destroyed
      else if length (tl_active t) \<ge> max_active then Some Too_many_reminders else None)"

text \<open>The thread's row, when the context names a thread: \<open>Some closed\<close>.\<close>

definition thread_guard :: "string \<Rightarrow> bool option \<Rightarrow> remind_error option" where
  "thread_guard thread status =
     (if thread = [] then None
      else (case status of None \<Rightarrow> Some Thread_not_found | Some closed \<Rightarrow> if closed then Some Thread_closed else None))"

definition new_reminder :: "string \<Rightarrow> string \<Rightarrow> string \<Rightarrow> int \<Rightarrow> reminder" where
  "new_reminder i thread note at =
     \<lparr>rm_id = i, rm_thread = thread, rm_note = note, rm_at = at, rm_completed = None, rm_cancelled = None\<rparr>"

text \<open>After the row is created: the timer, and the entry of the registry.\<close>

definition arm_timer :: "reminder \<Rightarrow> remind_tool \<Rightarrow> remind_tool" where
  "arm_timer r t = t\<lparr>tl_active := AList.update (rm_id r) r (tl_active t)\<rparr>"

definition clear_timers_by_thread :: "string \<Rightarrow> remind_tool \<Rightarrow> remind_tool \<times> string list" where
  "clear_timers_by_thread thread t =
     (let mine = filter (\<lambda>(i, r). rm_thread r = thread) (tl_active t)
      in (t\<lparr>tl_active := filter (\<lambda>(i, r). rm_thread r \<noteq> thread) (tl_active t)\<rparr>, map fst mine))"

definition clear_timer_by_id :: "string \<Rightarrow> remind_tool \<Rightarrow> remind_tool \<times> string option" where
  "clear_timer_by_id i t =
     (case map_of (tl_active t) i of
        None \<Rightarrow> (t, None)
      | Some r \<Rightarrow> (t\<lparr>tl_active := AList.delete i (tl_active t)\<rparr>, Some (rm_thread r)))"

section \<open>The table and the service\<close>

type_synonym reminder_table = "reminder list"

definition complete_row :: "int \<Rightarrow> string \<Rightarrow> reminder_table \<Rightarrow> reminder_table" where
  "complete_row now i = map (\<lambda>r. if rm_id r = i then r\<lparr>rm_completed := Some now\<rparr> else r)"

definition cancel_row :: "int \<Rightarrow> string \<Rightarrow> reminder_table \<Rightarrow> reminder_table" where
  "cancel_row now i = map (\<lambda>r. if rm_id r = i then r\<lparr>rm_cancelled := Some now\<rparr> else r)"

definition cancel_rows :: "int \<Rightarrow> string \<Rightarrow> reminder_table \<Rightarrow> reminder_table \<times> nat" where
  "cancel_rows now thread rows =
     (map (\<lambda>r. if rm_thread r = thread \<and> open_reminder r then r\<lparr>rm_cancelled := Some now\<rparr> else r) rows,
      length (filter (\<lambda>r. rm_thread r = thread \<and> open_reminder r) rows))"

definition clear_in_tools :: "string \<Rightarrow> remind_tool list \<Rightarrow> remind_tool list \<times> nat" where
  "clear_in_tools thread tools =
     (map (fst \<circ> clear_timers_by_thread thread) tools,
      sum_list (map (length \<circ> snd \<circ> clear_timers_by_thread thread) tools))"

definition cancel_thread_reminders ::
  "bool \<Rightarrow> int \<Rightarrow> string \<Rightarrow> reminder_table \<times> remind_tool list \<Rightarrow> (reminder_table \<times> remind_tool list) \<times> nat \<times> nat" where
  "cancel_thread_reminders db_ok now thread s =
     (let (rows, cancelled) = (if db_ok then cancel_rows now thread (fst s) else (fst s, 0));
          (tools, cleared) = clear_in_tools thread (snd s)
      in ((rows, tools), cancelled, cleared))"

text \<open>The first tool that holds the reminder clears it.\<close>

fun clear_first :: "string \<Rightarrow> remind_tool list \<Rightarrow> remind_tool list \<times> string option" where
  "clear_first i [] = ([], None)"
| "clear_first i (t # ts) =
     (case clear_timer_by_id i t of
        (t', Some th) \<Rightarrow> (t' # ts, Some th)
      | (t', None) \<Rightarrow> (case clear_first i ts of (ts', r) \<Rightarrow> (t' # ts', r)))"

record cancel_result =
  cx_thread :: string
  cx_db :: bool
  cx_runtime :: nat

definition cancel_reminder ::
  "bool \<Rightarrow> int \<Rightarrow> string \<Rightarrow> reminder_table \<times> remind_tool list \<Rightarrow> (reminder_table \<times> remind_tool list) \<times> cancel_result option" where
  "cancel_reminder db_ok now i s =
     (case find (\<lambda>r. rm_id r = i) (fst s) of
        None \<Rightarrow> (s, None)
      | Some r \<Rightarrow>
          (let hit = (open_reminder r \<and> db_ok);
               rows = (if hit then cancel_row now i (fst s) else fst s);
               (tools, cleared) = clear_first i (snd s)
           in ((rows, tools),
               Some \<lparr>cx_thread = (case cleared of Some t \<Rightarrow> t | None \<Rightarrow> rm_thread r), cx_db = hit,
                     cx_runtime = (if cleared = None then 0 else 1)\<rparr>)))"

section \<open>Calls, timers and cancellations interleaved\<close>

text \<open>
  Where a call is: its guards passed; its thread checked; its row created.  \<open>w_firing\<close> holds the timers
  that have found their entry and wait for the row to be marked, \<open>w_delivered\<close> the reminders given to
  their agents.
\<close>

datatype call_stage =
    Guarded string string int
  | Checked string string int
  | Row_created reminder

record remind_world =
  w_tool :: remind_tool
  w_rows :: reminder_table
  w_closed :: "string list"
  w_calls :: "call_stage list"
  w_firing :: "reminder list"
  w_delivered :: "string list"

inductive remind_step :: "remind_world \<Rightarrow> remind_world \<Rightarrow> bool" where
  step_call: "execute_guard (w_tool w) = None \<Longrightarrow>
    remind_step w (w\<lparr>w_calls := Guarded thread note at # w_calls w\<rparr>)"
| step_check: "Guarded thread note at \<in> set (w_calls w) \<Longrightarrow> thread_guard thread (Some (thread \<in> set (w_closed w))) = None \<Longrightarrow>
    remind_step w (w\<lparr>w_calls := Checked thread note at # remove1 (Guarded thread note at) (w_calls w)\<rparr>)"
| step_refused: "Guarded thread note at \<in> set (w_calls w) \<Longrightarrow> thread_guard thread (Some (thread \<in> set (w_closed w))) \<noteq> None \<Longrightarrow>
    remind_step w (w\<lparr>w_calls := remove1 (Guarded thread note at) (w_calls w)\<rparr>)"
| step_create: "Checked thread note at \<in> set (w_calls w) \<Longrightarrow> i \<notin> rm_id ` set (w_rows w) \<Longrightarrow>
    remind_step w (w\<lparr>w_rows := w_rows w @ [new_reminder i thread note at],
      w_calls := Row_created (new_reminder i thread note at) # remove1 (Checked thread note at) (w_calls w)\<rparr>)"
| step_arm: "Row_created r \<in> set (w_calls w) \<Longrightarrow>
    remind_step w (w\<lparr>w_tool := arm_timer r (w_tool w), w_calls := remove1 (Row_created r) (w_calls w)\<rparr>)"
| step_fire: "map_of (tl_active (w_tool w)) i = Some r \<Longrightarrow> i \<notin> rm_id ` set (w_firing w) \<Longrightarrow>
    remind_step w (w\<lparr>w_firing := r # w_firing w\<rparr>)"
| step_deliver: "r \<in> set (w_firing w) \<Longrightarrow>
    remind_step w (w\<lparr>w_rows := (if marked then complete_row now (rm_id r) (w_rows w) else w_rows w),
      w_tool := (w_tool w)\<lparr>tl_active := AList.delete (rm_id r) (tl_active (w_tool w))\<rparr>,
      w_firing := remove1 r (w_firing w), w_delivered := rm_id r # w_delivered w\<rparr>)"
| step_close: "remind_step w (w\<lparr>w_closed := thread # w_closed w\<rparr>)"
| step_cancel_thread: "cancel_thread_reminders db_ok now thread (w_rows w, [w_tool w]) = ((rows, [t]), n, m) \<Longrightarrow>
    remind_step w (w\<lparr>w_rows := rows, w_tool := t\<rparr>)"
| step_cancel: "cancel_reminder db_ok now i (w_rows w, [w_tool w]) = ((rows, [t]), res) \<Longrightarrow>
    remind_step w (w\<lparr>w_rows := rows, w_tool := t\<rparr>)"
| step_destroy: "remind_step w (w\<lparr>w_tool := destroy_tool (w_tool w)\<rparr>)"

inductive_cases remind_step_cases: "remind_step w w'"

definition empty_world :: remind_world where
  "empty_world = \<lparr>w_tool = \<lparr>tl_active = [], tl_destroyed = False\<rparr>, w_rows = [], w_closed = [], w_calls = [], w_firing = [],
     w_delivered = []\<rparr>"

section \<open>Each reminder at most once\<close>

fun call_ids :: "call_stage list \<Rightarrow> string list" where
  "call_ids [] = []"
| "call_ids (Row_created r # cs) = rm_id r # call_ids cs"
| "call_ids (c # cs) = call_ids cs"

definition created_ids :: "remind_world \<Rightarrow> string list" where
  "created_ids w = call_ids (w_calls w)"

definition active_ids :: "remind_world \<Rightarrow> string list" where
  "active_ids w = map fst (tl_active (w_tool w))"

definition firing_ids :: "remind_world \<Rightarrow> string list" where
  "firing_ids w = map rm_id (w_firing w)"

definition row_ids :: "remind_world \<Rightarrow> string list" where
  "row_ids w = map rm_id (w_rows w)"

text \<open>Where a reminder may be at a time: not armed yet, armed, firing, delivered.\<close>

definition remind_ok :: "remind_world \<Rightarrow> bool" where
  "remind_ok w \<longleftrightarrow>
     distinct (row_ids w) \<and> distinct (created_ids w) \<and> distinct (active_ids w) \<and> distinct (firing_ids w)
     \<and> distinct (w_delivered w)
     \<and> set (created_ids w) \<union> set (active_ids w) \<union> set (firing_ids w) \<union> set (w_delivered w) \<subseteq> set (row_ids w)
     \<and> set (created_ids w) \<inter> (set (active_ids w) \<union> set (firing_ids w) \<union> set (w_delivered w)) = {}
     \<and> set (w_delivered w) \<inter> (set (active_ids w) \<union> set (firing_ids w)) = {}
     \<and> (\<forall>(i, r) \<in> set (tl_active (w_tool w)). rm_id r = i)"

lemma call_ids_remove_other:
  "(case c of Row_created r \<Rightarrow> False | _ \<Rightarrow> True) \<Longrightarrow> call_ids (remove1 c cs) = call_ids cs"
  by (induction cs rule: call_ids.induct) auto

lemma call_ids_mem: "Row_created r \<in> set cs \<Longrightarrow> rm_id r \<in> set (call_ids cs)"
  by (induction cs rule: call_ids.induct) auto

lemma call_ids_remove:
  "distinct (call_ids cs) \<Longrightarrow> Row_created r \<in> set cs \<Longrightarrow>
   distinct (call_ids (remove1 (Row_created r) cs)) \<and> set (call_ids (remove1 (Row_created r) cs)) = set (call_ids cs) - {rm_id r}"
proof (induction cs rule: call_ids.induct)
  case (2 x cs)
  show ?case
  proof (cases "x = r")
    case False
    then have r: "Row_created r \<in> set cs" using "2.prems" by simp
    then have "rm_id x \<noteq> rm_id r" using "2.prems"(1) call_ids_mem[OF r] by auto
    then show ?thesis using "2.IH"[OF _ r] "2.prems"(1) False by auto
  qed (use "2.prems" in auto)
qed auto

lemma remove_firing:
  "distinct (map rm_id fs) \<Longrightarrow> r \<in> set fs \<Longrightarrow>
   distinct (map rm_id (remove1 r fs)) \<and> rm_id ` set (remove1 r fs) = rm_id ` set fs - {rm_id r}"
  by (induction fs) (auto simp: image_iff)

text \<open>Cancelling only cancels rows and takes entries away.\<close>

definition row_keys :: "reminder_table \<Rightarrow> (string \<times> string) list" where
  "row_keys = map (\<lambda>r. (rm_id r, rm_thread r))"

lemma row_keys_ids: "row_keys a = row_keys b \<Longrightarrow> map rm_id a = map rm_id b"
  by (metis (no_types, lifting) fst_conv list.map_comp map_map map_eq_conv o_apply row_keys_def)

definition only_removes :: "reminder_table \<times> remind_tool \<Rightarrow> reminder_table \<times> remind_tool \<Rightarrow> bool" where
  "only_removes s s' \<longleftrightarrow>
     row_keys (fst s') = row_keys (fst s) \<and> set (tl_active (snd s')) \<subseteq> set (tl_active (snd s))
     \<and> (distinct (map fst (tl_active (snd s))) \<longrightarrow> distinct (map fst (tl_active (snd s'))))"

lemma cancel_thread_removes:
  assumes "cancel_thread_reminders db_ok now thread (rows, [t]) = ((rows', [t']), n, m)"
  shows "only_removes (rows, t) (rows', t')"
proof -
  have "row_keys (fst (cancel_rows now thread rows)) = row_keys rows" by (simp add: cancel_rows_def row_keys_def)
  then show ?thesis using assms
    by (auto simp: cancel_thread_reminders_def clear_in_tools_def clear_timers_by_thread_def only_removes_def Let_def
        distinct_map_filter split: prod.splits if_splits)
qed

lemma cancel_removes:
  assumes "cancel_reminder db_ok now i (rows, [t]) = ((rows', [t']), res)"
  shows "only_removes (rows, t) (rows', t')"
proof -
  have c: "row_keys (cancel_row now i rows) = row_keys rows" by (simp add: cancel_row_def row_keys_def)
  have t: "only_removes (rows, t) (rs, fst (clear_timer_by_id i t))" if "row_keys rs = row_keys rows" for rs
    using that by (auto simp: clear_timer_by_id_def only_removes_def set_delete_conv distinct_delete split: option.splits)
  show ?thesis
  proof (cases "find (\<lambda>r. rm_id r = i) rows")
    case None
    then show ?thesis using assms by (auto simp: cancel_reminder_def only_removes_def)
  next
    case (Some r)
    then have "rows' = (if open_reminder r \<and> db_ok then cancel_row now i rows else rows)" "t' = fst (clear_timer_by_id i t)"
      using assms by (auto simp: cancel_reminder_def Let_def split: prod.splits option.splits)
    then show ?thesis using t c by simp
  qed
qed

lemma remind_ok_removes:
  assumes "remind_ok w" "only_removes (w_rows w, w_tool w) (rows, t)"
  shows "remind_ok (w\<lparr>w_rows := rows, w_tool := t\<rparr>)"
proof -
  let ?w = "w\<lparr>w_rows := rows, w_tool := t\<rparr>"
  have same: "row_ids ?w = row_ids w" "created_ids ?w = created_ids w" "firing_ids ?w = firing_ids w" "w_delivered ?w = w_delivered w"
    using row_keys_ids[of rows "w_rows w"] assms(2)
    by (simp_all add: only_removes_def row_ids_def firing_ids_def created_ids_def)
  have d: "distinct (active_ids w) \<longrightarrow> distinct (active_ids ?w)"
    using assms(2) by (simp add: only_removes_def active_ids_def)
  have e: "set (tl_active (w_tool ?w)) \<subseteq> set (tl_active (w_tool w))" using assms(2) by (simp add: only_removes_def)
  then have a: "set (active_ids ?w) \<subseteq> set (active_ids w)" by (auto simp: active_ids_def)
  show ?thesis using assms(1) d a e unfolding remind_ok_def same by blast
qed

lemma update_new_key: "k \<notin> fst ` set m \<Longrightarrow> AList.update k v m = m @ [(k, v)]"
  by (induction m) auto

lemma remind_step_ok: "remind_step w w' \<Longrightarrow> remind_ok w \<Longrightarrow> remind_ok w'"
proof (induction rule: remind_step.induct)
  case (step_create thread body due w i)
  then show ?case
    by (auto simp: remind_ok_def created_ids_def call_ids_remove_other row_ids_def active_ids_def firing_ids_def new_reminder_def)
next
  case (step_arm r w)
  let ?w = "w\<lparr>w_tool := arm_timer r (w_tool w), w_calls := remove1 (Row_created r) (w_calls w)\<rparr>"
  have d: "distinct (call_ids (w_calls w))" using step_arm.prems by (simp add: remind_ok_def created_ids_def)
  note c = call_ids_remove[OF d step_arm.hyps] call_ids_mem[OF step_arm.hyps]
  have new: "rm_id r \<notin> set (active_ids w)" "rm_id r \<in> set (row_ids w)"
    using step_arm.prems c by (auto simp: remind_ok_def created_ids_def)
  have same: "row_ids ?w = row_ids w" "firing_ids ?w = firing_ids w" "w_delivered ?w = w_delivered w"
    by (simp_all add: row_ids_def firing_ids_def)
  have cr: "distinct (created_ids ?w)" "set (created_ids ?w) = set (created_ids w) - {rm_id r}" "rm_id r \<in> set (created_ids w)"
    using c by (simp_all add: created_ids_def)
  have t: "tl_active (w_tool ?w) = tl_active (w_tool w) @ [(rm_id r, r)]"
    using new(1) by (simp add: arm_timer_def active_ids_def update_new_key)
  then have a: "active_ids ?w = active_ids w @ [rm_id r]" by (simp add: active_ids_def)
  have e: "\<forall>(i, x) \<in> set (tl_active (w_tool ?w)). rm_id x = i" using step_arm.prems unfolding t by (auto simp: remind_ok_def)
  show ?case using step_arm.prems new cr e unfolding remind_ok_def same a by auto
next
  case (step_fire w i r)
  then have "(i, r) \<in> set (tl_active (w_tool w))" by (simp add: map_of_SomeD)
  then have i: "rm_id r = i" "i \<in> set (active_ids w)" using step_fire.prems
    by (auto simp: remind_ok_def active_ids_def intro: rev_image_eqI)
  let ?w = "w\<lparr>w_firing := r # w_firing w\<rparr>"
  have same: "row_ids ?w = row_ids w" "created_ids ?w = created_ids w" "active_ids ?w = active_ids w"
      "w_delivered ?w = w_delivered w" "w_tool ?w = w_tool w" "firing_ids ?w = rm_id r # firing_ids w"
    by (simp_all add: row_ids_def created_ids_def active_ids_def firing_ids_def)
  have "rm_id r \<notin> set (firing_ids w)" using step_fire.hyps i by (simp add: firing_ids_def)
  then show ?case using step_fire.prems i unfolding remind_ok_def same by auto
next
  case (step_deliver r w marked now)
  let ?w = "w\<lparr>w_rows := (if marked then complete_row now (rm_id r) (w_rows w) else w_rows w),
      w_tool := (w_tool w)\<lparr>tl_active := AList.delete (rm_id r) (tl_active (w_tool w))\<rparr>,
      w_firing := remove1 r (w_firing w), w_delivered := rm_id r # w_delivered w\<rparr>"
  have f: "distinct (map rm_id (w_firing w))" using step_deliver.prems by (simp add: remind_ok_def firing_ids_def)
  have "map rm_id (complete_row now (rm_id r) (w_rows w)) = map rm_id (w_rows w)" by (simp add: complete_row_def)
  then have same: "row_ids ?w = row_ids w" "created_ids ?w = created_ids w" "w_delivered ?w = rm_id r # w_delivered w"
    by (simp_all add: row_ids_def created_ids_def)
  have a: "set (active_ids ?w) = set (active_ids w) - {rm_id r}" "distinct (active_ids w) \<Longrightarrow> distinct (active_ids ?w)"
    by (simp_all add: active_ids_def distinct_delete)
  have g: "distinct (firing_ids ?w)" "set (firing_ids ?w) = set (firing_ids w) - {rm_id r}" "rm_id r \<in> set (firing_ids w)"
    using remove_firing[OF f step_deliver.hyps] step_deliver.hyps by (simp_all add: firing_ids_def)
  have e: "set (tl_active (w_tool ?w)) \<subseteq> set (tl_active (w_tool w))" by (auto simp: set_delete_conv)
  have da: "distinct (active_ids ?w)" and nd: "rm_id r \<notin> set (w_delivered w)"
    using step_deliver.prems a(2) g(3) by (auto simp: remind_ok_def)
  show ?case using step_deliver.prems g da nd e unfolding remind_ok_def same distinct.simps list.set a(1) g(2) by blast
next
  case (step_cancel_thread db_ok now thread w rows t n m)
  then show ?case using remind_ok_removes cancel_thread_removes by blast
next
  case (step_cancel db_ok now i w rows t res)
  then show ?case using remind_ok_removes cancel_removes by blast
qed (auto simp: remind_ok_def created_ids_def call_ids_remove_other row_ids_def active_ids_def firing_ids_def destroy_tool_def)

lemma empty_world_ok: "remind_ok empty_world"
  by (simp add: remind_ok_def empty_world_def created_ids_def row_ids_def active_ids_def firing_ids_def)

definition remind_reaches :: "remind_world \<Rightarrow> remind_world \<Rightarrow> bool" where
  "remind_reaches w w' \<longleftrightarrow> remind_step\<^sup>*\<^sup>* w w'"

lemma reaches_ok: "remind_reaches w w' \<Longrightarrow> remind_ok w \<Longrightarrow> remind_ok w'"
  unfolding remind_reaches_def by (induction rule: rtranclp_induct) (auto intro: remind_step_ok)

text \<open>
  C28. A reminder reaches its agent at most once, however calls of the tool, timers, cancellations and the
  tool's destruction interleave; and only a reminder that was stored is delivered.
\<close>

theorem reminder_at_most_once:
  assumes "remind_reaches empty_world w"
  shows "distinct (w_delivered w) \<and> set (w_delivered w) \<subseteq> rm_id ` set (w_rows w)"
  using reaches_ok[OF assms empty_world_ok] by (auto simp: remind_ok_def row_ids_def)

section \<open>Cancellation\<close>

text \<open>A stored reminder that is nowhere on its way.\<close>

definition laid_to_rest :: "string \<Rightarrow> remind_world \<Rightarrow> bool" where
  "laid_to_rest i w \<longleftrightarrow>
     i \<in> set (row_ids w) \<and> i \<notin> set (created_ids w) \<and> i \<notin> set (active_ids w) \<and> i \<notin> set (firing_ids w)"

lemma laid_to_rest_removes:
  "only_removes (w_rows w, w_tool w) (rows, t) \<Longrightarrow> laid_to_rest i w \<Longrightarrow> laid_to_rest i (w\<lparr>w_rows := rows, w_tool := t\<rparr>)"
proof -
  assume o: "only_removes (w_rows w, w_tool w) (rows, t)" and l: "laid_to_rest i w"
  from o have "map rm_id rows = map rm_id (w_rows w)" "fst ` set (tl_active t) \<subseteq> fst ` set (tl_active (w_tool w))"
    using row_keys_ids[of rows "w_rows w"] by (auto simp: only_removes_def)
  then show ?thesis using l
    unfolding laid_to_rest_def row_ids_def created_ids_def active_ids_def firing_ids_def by auto
qed

lemma update_keys: "fst ` set (AList.update k v m) = insert k (fst ` set m)"
  by (simp add: dom_update[symmetric] update_conv' flip: dom_map_of_conv_image_fst)

lemma call_ids_remove_subset: "set (call_ids (remove1 c cs)) \<subseteq> set (call_ids cs)"
  by (induction cs rule: call_ids.induct) auto

lemma laid_to_rest_step:
  "remind_step w w' \<Longrightarrow> remind_ok w \<Longrightarrow> laid_to_rest i w \<Longrightarrow>
   laid_to_rest i w' \<and> (i \<in> set (w_delivered w') \<longleftrightarrow> i \<in> set (w_delivered w))"
proof (induction rule: remind_step.induct)
  case (step_create thread body due w k)
  then have "k \<noteq> i" by (auto simp: laid_to_rest_def row_ids_def)
  then show ?case using step_create.prems
    by (auto simp: laid_to_rest_def row_ids_def created_ids_def active_ids_def firing_ids_def call_ids_remove_other new_reminder_def)
next
  case (step_arm r w)
  then have r: "rm_id r \<noteq> i" using call_ids_mem[OF step_arm.hyps] by (auto simp: laid_to_rest_def created_ids_def)
  moreover have "i \<notin> set (call_ids (remove1 (Row_created r) (w_calls w)))"
    using step_arm.prems call_ids_remove_subset by (auto simp: laid_to_rest_def created_ids_def)
  ultimately show ?case using step_arm.prems
    by (simp add: laid_to_rest_def row_ids_def created_ids_def active_ids_def firing_ids_def arm_timer_def update_keys)
next
  case (step_fire w k r)
  then have "(k, r) \<in> set (tl_active (w_tool w))" by (simp add: map_of_SomeD)
  then have "rm_id r = k" "k \<in> set (active_ids w)" using step_fire.prems
    by (auto simp: remind_ok_def active_ids_def intro: rev_image_eqI)
  then have "rm_id r \<noteq> i" using step_fire.prems(2) by (auto simp: laid_to_rest_def)
  then show ?case using step_fire.prems(2)
    by (auto simp: laid_to_rest_def row_ids_def created_ids_def active_ids_def firing_ids_def)
next
  case (step_deliver r w marked now)
  then have "rm_id r \<noteq> i" by (auto simp: laid_to_rest_def firing_ids_def)
  moreover have "i \<notin> rm_id ` set (remove1 r (w_firing w))"
    using step_deliver.prems(2) set_remove1_subset[of r "w_firing w"] by (auto simp: laid_to_rest_def firing_ids_def)
  moreover have "rm_id ` set (complete_row now (rm_id r) (w_rows w)) = rm_id ` set (w_rows w)"
    unfolding set_map[symmetric] by (rule arg_cong[of _ _ set]) (simp add: complete_row_def)
  ultimately show ?case using step_deliver.prems(2)
    by (simp add: laid_to_rest_def row_ids_def created_ids_def active_ids_def firing_ids_def)
next
  case (step_cancel_thread db_ok now thread w rows t n m)
  show ?case using laid_to_rest_removes[OF cancel_thread_removes[OF step_cancel_thread.hyps] step_cancel_thread.prems(2)] by simp
next
  case (step_cancel db_ok now k w rows t res)
  show ?case using laid_to_rest_removes[OF cancel_removes[OF step_cancel.hyps] step_cancel.prems(2)] by simp
qed (auto simp: laid_to_rest_def created_ids_def call_ids_remove_other row_ids_def active_ids_def firing_ids_def destroy_tool_def)

lemma laid_to_rest_forever:
  "remind_reaches w w' \<Longrightarrow> remind_ok w \<Longrightarrow> laid_to_rest i w \<Longrightarrow>
   remind_ok w' \<and> laid_to_rest i w' \<and> (i \<in> set (w_delivered w') \<longleftrightarrow> i \<in> set (w_delivered w))"
  unfolding remind_reaches_def
proof (induction rule: rtranclp_induct)
  case (step y z)
  then show ?case using laid_to_rest_step[OF step.hyps(2)] remind_step_ok[OF step.hyps(2)] by blast
qed simp

text \<open>What is armed or about to be has the thread its row has.\<close>

definition stored_ok :: "remind_world \<Rightarrow> bool" where
  "stored_ok w \<longleftrightarrow>
     (\<forall>r. Row_created r \<in> set (w_calls w) \<longrightarrow> (rm_id r, rm_thread r) \<in> set (row_keys (w_rows w)))
     \<and> (\<forall>(i, r) \<in> set (tl_active (w_tool w)). (rm_id r, rm_thread r) \<in> set (row_keys (w_rows w)))"

lemma stored_removes:
  "only_removes (w_rows w, w_tool w) (rows, t) \<Longrightarrow> stored_ok w \<Longrightarrow> stored_ok (w\<lparr>w_rows := rows, w_tool := t\<rparr>)"
  by (auto simp: stored_ok_def only_removes_def)

lemma stored_step: "remind_step w w' \<Longrightarrow> stored_ok w \<Longrightarrow> stored_ok w'"
proof (induction rule: remind_step.induct)
  case (step_arm r w)
  have "(rm_id x, rm_thread x) \<in> set (row_keys (w_rows w))"
    if "(i, x) \<in> set (AList.update (rm_id r) r (tl_active (w_tool w)))" for i x
    using that set_update_subset[of "rm_id r" r "tl_active (w_tool w)"] step_arm by (auto simp: stored_ok_def)
  moreover have "Row_created x \<in> set (w_calls w)" if "Row_created x \<in> set (remove1 (Row_created r) (w_calls w))" for x
    using that set_remove1_subset by fastforce
  ultimately show ?case using step_arm.prems by (auto simp: stored_ok_def arm_timer_def)
next
  case (step_deliver r w marked now)
  have "row_keys (complete_row now i rs) = row_keys rs" for i rs by (simp add: row_keys_def complete_row_def)
  then show ?case using step_deliver.prems by (auto simp: stored_ok_def set_delete_conv)
next
  case (step_cancel_thread db_ok now thread w rows t n m)
  then show ?case using stored_removes cancel_thread_removes by blast
next
  case (step_cancel db_ok now k w rows t res)
  then show ?case using stored_removes cancel_removes by blast
qed (auto simp: stored_ok_def row_keys_def new_reminder_def destroy_tool_def dest: notin_set_remove1)

lemma reaches_stored: "remind_reaches empty_world w \<Longrightarrow> stored_ok w"
  unfolding remind_reaches_def
proof (induction rule: rtranclp_induct)
  case base
  show ?case by (simp add: stored_ok_def empty_world_def)
qed (rule stored_step)

text \<open>
  Cancelling the reminders of a thread works when none of them is on its way: if no call that has
  stored a reminder of the thread waits to arm it and no timer of the thread is firing, then after
  the cancellation none of the thread's reminders is ever delivered, even when marking the rows fails.
\<close>

theorem cancelled_stay_silent:
  assumes "remind_reaches empty_world w"
    and "cancel_thread_reminders db_ok now thread (w_rows w, [w_tool w]) = ((rows, [t]), n, m)"
    and "list_all (\<lambda>r. rm_id r \<notin> set (created_ids w) \<union> set (firing_ids w)) (filter (\<lambda>r. rm_thread r = thread) (w_rows w))"
    and "remind_reaches (w\<lparr>w_rows := rows, w_tool := t\<rparr>) w'"
    and "r \<in> set (w_rows w)" "rm_thread r = thread"
  shows "rm_id r \<in> set (w_delivered w') \<longleftrightarrow> rm_id r \<in> set (w_delivered w)"
proof -
  let ?w = "w\<lparr>w_rows := rows, w_tool := t\<rparr>"
  have ok: "remind_ok w" by (rule reaches_ok[OF assms(1) empty_world_ok])
  have ok': "remind_ok ?w" by (rule remind_ok_removes[OF ok cancel_thread_removes[OF assms(2)]])
  have t: "t = fst (clear_timers_by_thread thread (w_tool w))"
    using assms(2) by (auto simp: cancel_thread_reminders_def clear_in_tools_def Let_def split: prod.splits if_splits)
  have a: "rm_id r \<notin> fst ` set (tl_active t)"
  proof
    assume "rm_id r \<in> fst ` set (tl_active t)"
    then obtain x where x: "(rm_id r, x) \<in> set (tl_active (w_tool w))" "rm_thread x \<noteq> thread"
      by (auto simp: t clear_timers_by_thread_def Let_def)
    then have "rm_id x = rm_id r" "(rm_id x, rm_thread x) \<in> set (row_keys (w_rows w))"
      using ok reaches_stored[OF assms(1)] by (auto simp: remind_ok_def stored_ok_def)
    then obtain y where y: "y \<in> set (w_rows w)" "rm_id y = rm_id r" "rm_thread y = rm_thread x"
      by (auto simp: row_keys_def)
    have "y = r" using ok y(1,2) assms(5) by (metis remind_ok_def row_ids_def distinct_map inj_onD)
    then show False using x(2) y(3) assms(6) by simp
  qed
  have "row_keys rows = row_keys (w_rows w)"
    using cancel_thread_removes[OF assms(2)] by (simp add: only_removes_def)
  then have "set (row_ids ?w) = rm_id ` set (w_rows w)" using row_keys_ids[of rows "w_rows w"]
    by (simp add: row_ids_def flip: set_map)
  then have "laid_to_rest (rm_id r) ?w" using assms(3,5,6) a
    by (auto simp: laid_to_rest_def created_ids_def active_ids_def firing_ids_def list_all_iff)
  from laid_to_rest_forever[OF assms(4) ok' this] show ?thesis by simp
qed

section \<open>Races\<close>

definition first_reminder :: reminder where
  "first_reminder = new_reminder ''r1'' ''t'' ''tea'' 60"

definition row_stored :: remind_world where
  "row_stored = empty_world\<lparr>w_rows := [first_reminder], w_calls := [Row_created first_reminder]\<rparr>"

lemma row_stored_reached: "remind_reaches empty_world row_stored"
proof -
  let ?w1 = "empty_world\<lparr>w_calls := [Guarded ''t'' ''tea'' 60]\<rparr>" and ?w2 = "empty_world\<lparr>w_calls := [Checked ''t'' ''tea'' 60]\<rparr>"
  have "remind_step empty_world ?w1"
    using step_call[of empty_world "''t''" "''tea''" 60] by (simp add: execute_guard_def empty_world_def max_active_def)
  moreover have "remind_step ?w1 ?w2"
    using step_check[of "''t''" "''tea''" 60 ?w1] by (simp add: thread_guard_def empty_world_def)
  moreover have "remind_step ?w2 row_stored"
    using step_create[of "''t''" "''tea''" 60 ?w2 "''r1''"] by (simp add: row_stored_def first_reminder_def empty_world_def)
  ultimately show ?thesis unfolding remind_reaches_def by (meson rtranclp.rtrancl_into_rtrancl rtranclp.rtrancl_refl)
qed

theorem reminder_at_most_once_witness:
  "distinct (w_delivered row_stored) \<and> set (w_delivered row_stored) \<subseteq> rm_id ` set (w_rows row_stored)"
  by (rule reminder_at_most_once[OF row_stored_reached])

definition armed :: remind_world where
  "armed = row_stored\<lparr>w_tool := \<lparr>tl_active = [(''r1'', first_reminder)], tl_destroyed = False\<rparr>, w_calls := []\<rparr>"

theorem cancelled_stay_silent_witness:
  "case cancel_thread_reminders False 5 ''t'' (w_rows armed, [w_tool armed]) of
     ((rows, tools), n, m) \<Rightarrow> n = 0 \<and> m = 1 \<and> rows = w_rows armed
       \<and> (rm_id first_reminder \<in> set (w_delivered (armed\<lparr>w_rows := rows, w_tool := hd tools\<rparr>)) \<longleftrightarrow> False)"
proof -
  let ?t = "\<lparr>tl_active = [], tl_destroyed = False\<rparr>"
  have "remind_step row_stored armed"
    using step_arm[of first_reminder row_stored]
    by (simp add: armed_def row_stored_def arm_timer_def empty_world_def first_reminder_def new_reminder_def)
  then have a: "remind_reaches empty_world armed"
    using row_stored_reached unfolding remind_reaches_def by (rule rtranclp.rtrancl_into_rtrancl[rotated])
  have c: "cancel_thread_reminders False 5 ''t'' (w_rows armed, [w_tool armed]) = ((w_rows armed, [?t]), 0, 1)"
    by (simp add: cancel_thread_reminders_def clear_in_tools_def clear_timers_by_thread_def armed_def first_reminder_def
        new_reminder_def)
  have l: "list_all (\<lambda>r. rm_id r \<notin> set (created_ids armed) \<union> set (firing_ids armed))
      (filter (\<lambda>r. rm_thread r = ''t'') (w_rows armed))" by code_simp
  have m: "first_reminder \<in> set (w_rows armed)" "rm_thread first_reminder = ''t''" "w_delivered armed = []"
    by (simp_all add: armed_def row_stored_def first_reminder_def new_reminder_def empty_world_def)
  have "remind_reaches (armed\<lparr>w_rows := w_rows armed, w_tool := ?t\<rparr>) (armed\<lparr>w_rows := w_rows armed, w_tool := ?t\<rparr>)"
    by (simp add: remind_reaches_def)
  from cancelled_stay_silent[OF a c l this m(1,2)] show ?thesis by (simp add: c m(3))
qed

text \<open>
  A cancellation that arrives between the creation of a reminder's row and the arming of its timer
  is lost, and so is the tool's destruction: the row is marked cancelled, the tool is destroyed, and the
  reminder is armed and delivered all the same.
\<close>

theorem cancelled_reminder_delivered:
  "\<exists>w w'. remind_reaches empty_world w \<and> tl_destroyed (w_tool w) \<and> list_all (\<lambda>r. rm_cancelled r \<noteq> None) (w_rows w)
     \<and> w_delivered w = [] \<and> remind_reaches w w' \<and> w_delivered w' = [''r1'']"
proof -
  let ?c = "first_reminder\<lparr>rm_cancelled := Some 5\<rparr>"
  let ?w1 = "row_stored\<lparr>w_rows := [?c]\<rparr>" and ?d = "\<lparr>tl_active = [], tl_destroyed = True\<rparr>"
  let ?w2 = "?w1\<lparr>w_tool := ?d\<rparr>"
  let ?w3 = "?w2\<lparr>w_tool := arm_timer first_reminder ?d, w_calls := []\<rparr>"
  let ?w4 = "?w3\<lparr>w_firing := [first_reminder]\<rparr>"
  let ?w5 = "?w4\<lparr>w_tool := ?d, w_firing := [], w_delivered := [''r1'']\<rparr>"
  have "remind_step row_stored ?w1"
    using step_cancel_thread[of True 5 "''t''" row_stored "[?c]" "\<lparr>tl_active = [], tl_destroyed = False\<rparr>" 1 0]
    by (simp add: row_stored_def empty_world_def cancel_thread_reminders_def cancel_rows_def clear_in_tools_def
        clear_timers_by_thread_def first_reminder_def new_reminder_def open_reminder_def)
  moreover have "remind_step ?w1 ?w2"
    using step_destroy[of ?w1] by (simp add: destroy_tool_def row_stored_def empty_world_def)
  ultimately have r2: "remind_reaches empty_world ?w2" using row_stored_reached
    unfolding remind_reaches_def by (meson rtranclp.rtrancl_into_rtrancl)
  have "remind_step ?w2 ?w3" using step_arm[of first_reminder ?w2] by (simp add: row_stored_def)
  moreover have "remind_step ?w3 ?w4"
    using step_fire[of ?w3 "''r1''" first_reminder] by (simp add: arm_timer_def first_reminder_def new_reminder_def row_stored_def empty_world_def)
  moreover have "remind_step ?w4 ?w5"
    using step_deliver[of first_reminder ?w4 False 70] by (simp add: arm_timer_def first_reminder_def new_reminder_def row_stored_def empty_world_def)
  ultimately have "remind_reaches ?w2 ?w5"
    unfolding remind_reaches_def by (meson rtranclp.rtrancl_into_rtrancl rtranclp.rtrancl_refl)
  moreover have "tl_destroyed (w_tool ?w2)" "list_all (\<lambda>r. rm_cancelled r \<noteq> None) (w_rows ?w2)" "w_delivered ?w2 = []"
      "w_delivered ?w5 = [''r1'']"
    by (simp_all add: row_stored_def empty_world_def)
  ultimately show ?thesis using r2 by blast
qed

end
