(* ===== verification/Thread_Cleanup.thy ===== *)
theory Thread_Cleanup
  imports Agent_Node Container_Events Reminders
begin

text \<open>
  Closing a thread with everything below it, \<^verbatim>\<open>agents/threadCleanup.coordinator.ts\<close>, and the removal of
  the volumes closed threads leave behind, \<^verbatim>\<open>infra/container/volumeGc.job.ts\<close>.

  The table of threads is a list of rows.  Reading the levels of the tree takes fuel, one per level: on
  a table whose parents form a cycle the code does not stop.  The container runner's answers are
  arguments; metrics events are left out.
\<close>

section \<open>The tree of threads\<close>

record thread_row =
  th_id :: string
  th_parent :: "string option"
  th_closed :: bool
  th_created :: int

definition children_in :: "thread_row list \<Rightarrow> string list \<Rightarrow> thread_row list" where
  "children_in db frontier =
     filter (\<lambda>r. case th_parent r of None \<Rightarrow> False | Some p \<Rightarrow> p \<in> set frontier) db"

fun collect_levels ::
  "nat \<Rightarrow> thread_row list \<Rightarrow> string list \<Rightarrow> (string \<times> thread_row) list \<Rightarrow> (string \<times> thread_row) list option" where
  "collect_levels 0 db frontier nodes = None"
| "collect_levels (Suc n) db frontier nodes =
     (if frontier = [] then Some nodes
      else (let children = children_in db frontier
            in collect_levels n db (map th_id children) (fold (\<lambda>c. AList.update (th_id c) c) children nodes)))"

definition kids_of :: "(string \<times> thread_row) list \<Rightarrow> string \<Rightarrow> string list" where
  "kids_of nodes p = map th_id (filter (\<lambda>r. th_parent r = Some p \<and> p \<noteq> []) (map snd nodes))"

text \<open>\<open>visit\<close>: the identifiers visited, and those put out.\<close>

fun visit :: "nat \<Rightarrow> (string \<Rightarrow> string list) \<Rightarrow> string \<Rightarrow> string list \<times> string list \<Rightarrow> string list \<times> string list" where
  "visit 0 kids i s = s"
| "visit (Suc n) kids i (v, out) =
     (if i \<in> set v then (v, out)
      else (case fold (visit n kids) (kids i) (v @ [i], out) of (v1, out1) \<Rightarrow> (v1, out1 @ [i])))"

text \<open>A call visits one more thread, so the depth of calls is bounded by the number of threads.\<close>

definition post_order :: "(string \<times> thread_row) list \<Rightarrow> string \<Rightarrow> thread_row list" where
  "post_order nodes root =
     List.map_filter (map_of nodes) (snd (visit (Suc (length nodes)) (kids_of nodes) root ([], [])))"

definition collect_thread_nodes :: "nat \<Rightarrow> thread_row list \<Rightarrow> string \<Rightarrow> thread_row list option" where
  "collect_thread_nodes fuel db root =
     (case find (\<lambda>r. th_id r = root) db of
        None \<Rightarrow> Some []
      | Some r \<Rightarrow> map_option (\<lambda>nodes. post_order nodes root) (collect_levels fuel db [root] [(root, r)]))"

section \<open>Closing\<close>

record run_row =
  rn_id :: string
  rn_thread :: string
  rn_running :: bool

record cleanup_world =
  cw_threads :: "thread_row list"
  cw_runs :: "run_row list"
  cw_signals :: run_signals
  cw_reminders :: "reminder_table \<times> remind_tool list"
  cw_containers :: container_db
  cw_volumes :: "string list"

record cleanup_env =
  cl_sweep :: sweep_env
  cl_labelled :: "string \<Rightarrow> string list"
  cl_volume_users :: "string \<Rightarrow> string list option"
  cl_volume_removed :: "string \<Rightarrow> bool"
  cl_reminders_ok :: bool

definition ensure_thread_closed :: "thread_row \<Rightarrow> cleanup_world \<Rightarrow> cleanup_world" where
  "ensure_thread_closed node w =
     (if th_closed node then w
      else w\<lparr>cw_threads := map (\<lambda>r. if th_id r = th_id node then r\<lparr>th_closed := True\<rparr> else r) (cw_threads w)\<rparr>)"

definition list_running_runs :: "string \<Rightarrow> cleanup_world \<Rightarrow> run_row list" where
  "list_running_runs thread w = filter (\<lambda>r. rn_thread r = thread \<and> rn_running r) (cw_runs w)"

definition terminate_active_runs :: "string \<Rightarrow> cleanup_world \<Rightarrow> cleanup_world" where
  "terminate_active_runs thread w =
     w\<lparr>cw_signals := fold activate_terminate (map rn_id (list_running_runs thread w)) (cw_signals w)\<rparr>"

definition volume_name :: "string \<Rightarrow> string" where
  "volume_name thread = ''ha_ws_'' @ thread"

definition reconcile_references :: "cleanup_env \<Rightarrow> string \<Rightarrow> (string \<times> string option \<times> container_status) list \<Rightarrow> container_db \<Rightarrow> container_db" where
  "reconcile_references e thread refs db =
     fold (\<lambda>(c, t, s). mark_stopped (sw_texts (cl_sweep e)) (sw_now (cl_sweep e)) c ''workspace_volume_removed'')
       (filter (\<lambda>(c, t, s). t = Some thread \<and> s \<noteq> Stopped) refs) db"

definition delete_workspace_volume :: "cleanup_env \<Rightarrow> string \<Rightarrow> cleanup_world \<Rightarrow> cleanup_world" where
  "delete_workspace_volume e thread w =
     (let v = volume_name thread
      in case cl_volume_users e v of
           None \<Rightarrow> w
         | Some users \<Rightarrow>
             if users \<noteq> [] then w
             else if \<not> cl_volume_removed e v then w
             else w\<lparr>cw_volumes := removeAll v (cw_volumes w),
                    cw_containers := reconcile_references e thread (find_by_volume v (cw_containers w)) (cw_containers w)\<rparr>)"

definition run_cleanup_pipeline :: "cleanup_env \<Rightarrow> thread_row \<Rightarrow> cleanup_world \<Rightarrow> cleanup_world" where
  "run_cleanup_pipeline e node w =
     (let t = th_id node;
          w1 = w\<lparr>cw_reminders := fst (cancel_thread_reminders (cl_reminders_ok e) (sw_now (cl_sweep e)) t (cw_reminders w))\<rparr>;
          w2 = terminate_active_runs t w1;
          w3 = w2\<lparr>cw_containers := terminate_by_thread (cl_sweep e) (cl_labelled e t) t (cw_containers w2)\<rparr>;
          w4 = w3\<lparr>cw_containers := sweep_selective (cl_sweep e) t (cw_containers w3)\<rparr>
      in delete_workspace_volume e t w4)"

definition close_thread_with_cascade :: "nat \<Rightarrow> cleanup_env \<Rightarrow> string \<Rightarrow> cleanup_world \<Rightarrow> cleanup_world option" where
  "close_thread_with_cascade fuel e root w =
     map_option (\<lambda>nodes. fold (run_cleanup_pipeline e) nodes (fold ensure_thread_closed nodes w))
       (collect_thread_nodes fuel (cw_threads w) root)"

section \<open>Volumes of closed threads\<close>

datatype sweep_outcome = Removed | Referenced | Cooldown | Sweep_error | Not_found

record volume_gc =
  vg_enabled :: bool
  vg_max :: nat
  vg_cooldown :: int
  vg_last :: "(string \<times> int) list"

datatype volume_reply = Volume_removed | Volume_error "int option"

definition remove_unused ::
  "(string \<Rightarrow> string list option) \<Rightarrow> (string \<Rightarrow> volume_reply) \<Rightarrow> string \<Rightarrow> sweep_outcome" where
  "remove_unused users remove volume =
     (case users volume of
        None \<Rightarrow> Sweep_error
      | Some us \<Rightarrow>
          if us \<noteq> [] then Referenced
          else (case remove volume of
                  Volume_removed \<Rightarrow> Removed
                | Volume_error sc \<Rightarrow> if sc = Some 404 then Not_found else Sweep_error))"

definition handle_thread ::
  "(string \<Rightarrow> string list option) \<Rightarrow> (string \<Rightarrow> volume_reply) \<Rightarrow> int \<Rightarrow> string \<Rightarrow> volume_gc \<Rightarrow> volume_gc \<times> sweep_outcome" where
  "handle_thread users remove now thread g =
     (if (case map_of (vg_last g) thread of None \<Rightarrow> False | Some l \<Rightarrow> now - l < vg_cooldown g) then (g, Cooldown)
      else (g\<lparr>vg_last := AList.update thread now (vg_last g)\<rparr>, remove_unused users remove (volume_name thread)))"

text \<open>The candidates: the newest closed threads, at most \<open>maxPerSweep\<close> of them.\<close>

definition gc_candidates :: "nat \<Rightarrow> thread_row list \<Rightarrow> string list" where
  "gc_candidates m threads =
     map th_id (take m (sort_by (\<lambda>a b. th_created a \<ge> th_created b) (filter th_closed threads)))"

definition volume_sweep ::
  "(string \<Rightarrow> string list option) \<Rightarrow> (string \<Rightarrow> volume_reply) \<Rightarrow> bool \<Rightarrow> int \<Rightarrow> thread_row list \<Rightarrow> volume_gc \<Rightarrow>
   volume_gc \<times> (string \<times> sweep_outcome) list" where
  "volume_sweep users remove runner_up now threads g =
     (if \<not> vg_enabled g \<or> \<not> runner_up then (g, [])
      else
        fold (\<lambda>t (g, out). case handle_thread users remove now t g of (g', o') \<Rightarrow> (g', out @ [(t, o')]))
          (gc_candidates (vg_max g) threads) (g, []))"

text \<open>The sweeps the timer starts, one after another.\<close>

definition volume_sweeps ::
  "((string \<Rightarrow> string list option) \<times> (string \<Rightarrow> volume_reply) \<times> bool \<times> int \<times> thread_row list) list \<Rightarrow> volume_gc \<Rightarrow>
   volume_gc \<times> (string \<times> sweep_outcome) list" where
  "volume_sweeps runs g =
     fold (\<lambda>(users, remove, up, now, threads) (g, out).
         case volume_sweep users remove up now threads g of (g', o') \<Rightarrow> (g', out @ o')) runs (g, [])"

definition resolve_boolean :: "string option \<Rightarrow> bool \<Rightarrow> bool" where
  "resolve_boolean input fallback =
     (case input of
        None \<Rightarrow> fallback
      | Some s \<Rightarrow>
          (let n = map lower_ascii (js_trim s)
           in if n = ''true'' then True else if n = ''false'' then False else fallback))"

definition resolve_integer :: "string option \<Rightarrow> int \<Rightarrow> int \<Rightarrow> int" where
  "resolve_integer input fallback least =
     (case js_parse_int (js_trim (case input of None \<Rightarrow> [] | Some s \<Rightarrow> s)) of
        None \<Rightarrow> fallback
      | Some n \<Rightarrow> if n \<ge> least then n else fallback)"

text \<open>The service as the environment variables configure it.\<close>

definition new_volume_gc :: "string option \<Rightarrow> string option \<Rightarrow> string option \<Rightarrow> volume_gc" where
  "new_volume_gc enabled max_per_sweep cooldown =
     \<lparr>vg_enabled = resolve_boolean enabled True,
      vg_max = nat (resolve_integer max_per_sweep 100 1),
      vg_cooldown = resolve_integer cooldown (10 * 60 * 1000) 0, vg_last = []\<rparr>"

section \<open>The order of the threads\<close>

text \<open>\<open>ranked\<close>: no thread is its own ancestor; children have a greater rank than their parents.\<close>

definition ranked :: "(string \<Rightarrow> nat) \<Rightarrow> (string \<Rightarrow> string list) \<Rightarrow> bool" where
  "ranked rank kids \<longleftrightarrow> (\<forall>p. \<forall>c \<in> set (kids p). rank p < rank c)"

inductive below :: "(string \<Rightarrow> string list) \<Rightarrow> string \<Rightarrow> string \<Rightarrow> bool" for kids where
  below_self: "below kids i i"
| below_kid: "below kids i p \<Longrightarrow> c \<in> set (kids p) \<Longrightarrow> below kids i c"

lemma below_trans: "below kids j c \<Longrightarrow> below kids i j \<Longrightarrow> below kids i c"
  by (induction rule: below.induct) (auto intro: below.intros)

lemma below_first: "c \<in> set (kids i) \<Longrightarrow> below kids c x \<Longrightarrow> below kids i x"
  using below_trans below.intros by metis

lemma below_rank: "below kids i c \<Longrightarrow> ranked rank kids \<Longrightarrow> rank i \<le> rank c"
  by (induction rule: below.induct) (fastforce simp: ranked_def)+

text \<open>What a visit adds, given that everything put out before has its children visited.\<close>

definition visit_adds ::
  "(string \<Rightarrow> string list) \<Rightarrow> string list \<Rightarrow> string list \<times> string list \<Rightarrow> string list \<times> string list \<Rightarrow> bool" where
  "visit_adds kids roots s s' \<longleftrightarrow>
     (\<exists>new. snd s' = snd s @ new \<and> set (fst s') = set (fst s) \<union> set new \<and> distinct new \<and> set new \<inter> set (fst s) = {}
        \<and> set roots \<subseteq> set (fst s') \<and> (\<forall>a \<in> set new. set (kids a) \<subseteq> set (fst s') \<and> (\<exists>i \<in> set roots. below kids i a))
        \<and> sorted_wrt (\<lambda>a b. b \<notin> set (kids a)) new)"

lemma visit_adds_refl: "set roots \<subseteq> set (fst s) \<Longrightarrow> visit_adds kids roots s s"
  unfolding visit_adds_def by (rule exI[of _ "[]"]) auto

lemma visit_adds_trans:
  assumes "visit_adds kids is s s1" "visit_adds kids js s1 s2"
  shows "visit_adds kids (is @ js) s s2"
proof -
  obtain n1 where n1: "snd s1 = snd s @ n1" "set (fst s1) = set (fst s) \<union> set n1" "distinct n1" "set n1 \<inter> set (fst s) = {}"
      "set is \<subseteq> set (fst s1)" "\<forall>a \<in> set n1. set (kids a) \<subseteq> set (fst s1) \<and> (\<exists>i \<in> set is. below kids i a)"
      "sorted_wrt (\<lambda>a b. b \<notin> set (kids a)) n1"
    using assms(1) unfolding visit_adds_def by blast
  obtain n2 where n2: "snd s2 = snd s1 @ n2" "set (fst s2) = set (fst s1) \<union> set n2" "distinct n2" "set n2 \<inter> set (fst s1) = {}"
      "set js \<subseteq> set (fst s2)" "\<forall>a \<in> set n2. set (kids a) \<subseteq> set (fst s2) \<and> (\<exists>i \<in> set js. below kids i a)"
      "sorted_wrt (\<lambda>a b. b \<notin> set (kids a)) n2"
    using assms(2) unfolding visit_adds_def by blast
  have "\<forall>a \<in> set n1. \<forall>b \<in> set n2. b \<notin> set (kids a)" using n1(6) n2(4) by blast
  then have "sorted_wrt (\<lambda>a b. b \<notin> set (kids a)) (n1 @ n2)" using n1(7) n2(7) by (simp add: sorted_wrt_append)
  moreover have "distinct (n1 @ n2)" using n1 n2 by auto
  moreover have "set (is @ js) \<subseteq> set (fst s2)" using n1 n2 by auto
  moreover have "\<forall>a \<in> set (n1 @ n2). set (kids a) \<subseteq> set (fst s2) \<and> (\<exists>i \<in> set (is @ js). below kids i a)"
    using n1 n2 by auto
  moreover have "set (n1 @ n2) \<inter> set (fst s) = {}" "set (fst s2) = set (fst s) \<union> set (n1 @ n2)" "snd s2 = snd s @ (n1 @ n2)"
    using n1 n2 by auto
  ultimately show ?thesis unfolding visit_adds_def by blast
qed

lemma visit_correct:
  assumes "ranked rank kids" "\<And>p. set (kids p) \<subseteq> K" "finite K"
  shows "i \<in> K \<Longrightarrow> card (K - set (fst s)) < n \<Longrightarrow> visit_adds kids [i] s (visit n kids i s)"
proof (induction n arbitrary: i s)
  case (Suc n)
  obtain v out where s: "s = (v, out)" by (cases s)
  show ?case
  proof (cases "i \<in> set v")
    case True
    then show ?thesis by (simp add: s visit_adds_refl)
  next
    case False
    have fold: "visit_adds kids cs t (fold (visit n kids) cs t)"
      if "set cs \<subseteq> K" "card (K - set (fst t)) < n" for cs t
      using that
    proof (induction cs arbitrary: t)
      case (Cons c cs)
      have one: "visit_adds kids [c] t (visit n kids c t)" using Suc.IH Cons.prems by simp
      then have "set (fst t) \<subseteq> set (fst (visit n kids c t))" by (auto simp: visit_adds_def)
      then have "card (K - set (fst (visit n kids c t))) < n"
        using Cons.prems(2) assms(3) by (meson Diff_mono card_mono finite_Diff le_less_trans subset_refl)
      then have "visit_adds kids cs (visit n kids c t) (fold (visit n kids) cs (visit n kids c t))"
        using Cons by simp
      from visit_adds_trans[OF one this] show ?case by simp
    qed (simp add: visit_adds_refl)
    let ?t = "(v @ [i], out)"
    obtain v1 out1 where f: "fold (visit n kids) (kids i) ?t = (v1, out1)" by fastforce
    have "card (K - set (fst ?t)) < card (K - set v)"
      by (rule psubset_card_mono) (use assms(3) Suc.prems(1) False in auto)
    then have "card (K - set (fst ?t)) < n" using Suc.prems(2) s by simp
    from fold[OF assms(2)[of i] this] f have "visit_adds kids (kids i) ?t (v1, out1)" by simp
    then obtain new where new: "out1 = out @ new" "set v1 = set v \<union> {i} \<union> set new" "distinct new" "set new \<inter> set (v @ [i]) = {}"
        "set (kids i) \<subseteq> set v1" "\<forall>a \<in> set new. set (kids a) \<subseteq> set v1 \<and> (\<exists>c \<in> set (kids i). below kids c a)"
        "sorted_wrt (\<lambda>a b. b \<notin> set (kids a)) new"
      unfolding visit_adds_def by auto
    have "i \<notin> set (kids a)" if anew: "a \<in> set new" for a
    proof
      assume a: "i \<in> set (kids a)"
      obtain c where "c \<in> set (kids i)" "below kids c a" using bspec[OF new(6) anew] by auto
      have "rank c \<le> rank a" by (rule below_rank[OF \<open>below kids c a\<close> assms(1)])
      moreover have "rank i < rank c" using \<open>c \<in> set (kids i)\<close> assms(1) by (simp add: ranked_def)
      moreover have "rank a < rank i" using a assms(1) by (simp add: ranked_def)
      ultimately show False by simp
    qed
    then have "sorted_wrt (\<lambda>a b. b \<notin> set (kids a)) (new @ [i])" using new(7) by (simp add: sorted_wrt_append)
    moreover have "visit (Suc n) kids i s = (v1, out1 @ [i])" using False f by (simp add: s)
    moreover have "i \<notin> set new" using new(4) by fastforce
    then have "distinct (new @ [i])" using new(3) by simp
    moreover have "set (new @ [i]) \<inter> set v = {}" using new(4) False by simp
    moreover have "set v1 = set v \<union> set (new @ [i])" using new(2) by simp
    moreover have "\<forall>a \<in> set (new @ [i]). set (kids a) \<subseteq> set v1 \<and> below kids i a"
    proof
      fix a assume "a \<in> set (new @ [i])"
      then consider "a = i" | "a \<in> set new" by auto
      then show "set (kids a) \<subseteq> set v1 \<and> below kids i a"
      proof cases
        case 1
        then show ?thesis using new(5) below_self by simp
      next
        case 2
        then show ?thesis using new(6) below_first by blast
      qed
    qed
    moreover have "out1 @ [i] = out @ (new @ [i])" using new(1) by simp
    ultimately show ?thesis unfolding visit_adds_def s fst_conv snd_conv by (intro exI[of _ "new @ [i]"]) simp
  qed
qed simp

text \<open>The children a thread has in the table.\<close>

definition db_kids :: "thread_row list \<Rightarrow> string \<Rightarrow> string list" where
  "db_kids db p = map th_id (filter (\<lambda>r. th_parent r = Some p) db)"

definition threads_ok :: "(string \<Rightarrow> nat) \<Rightarrow> thread_row list \<Rightarrow> bool" where
  "threads_ok rank db \<longleftrightarrow>
     distinct (map th_id db) \<and> list_all (\<lambda>r. th_id r \<noteq> []) db
     \<and> list_all (\<lambda>r. case th_parent r of None \<Rightarrow> True | Some p \<Rightarrow> rank p < rank (th_id r)) db"

lemma db_kids_mem: "c \<in> set (db_kids db p) \<longleftrightarrow> (\<exists>r \<in> set db. th_id r = c \<and> th_parent r = Some p)"
  by (auto simp: db_kids_def)

lemma children_in_mem: "r \<in> set (children_in db ps) \<longleftrightarrow> r \<in> set db \<and> (\<exists>p \<in> set ps. th_parent r = Some p)"
  by (auto simp: children_in_def split: option.splits)

lemma children_ids: "th_id ` set (children_in db ps) = (\<Union>p \<in> set ps. set (db_kids db p))"
  unfolding set_eq_iff image_iff UN_iff Bex_def children_in_mem db_kids_mem by blast

lemma threads_ranked: "threads_ok rank db \<Longrightarrow> ranked rank (db_kids db)"
  by (fastforce simp: ranked_def db_kids_mem threads_ok_def list_all_iff)

definition nodes_ok :: "thread_row list \<Rightarrow> string \<Rightarrow> string list \<Rightarrow> (string \<times> thread_row) list \<Rightarrow> bool" where
  "nodes_ok db root frontier nodes \<longleftrightarrow>
     distinct (map fst nodes) \<and> root \<in> fst ` set nodes \<and> set frontier \<subseteq> fst ` set nodes
     \<and> (\<forall>(i, r) \<in> set nodes. r \<in> set db \<and> th_id r = i \<and> below (db_kids db) root i
          \<and> (i \<in> set frontier \<or> set (db_kids db i) \<subseteq> fst ` set nodes))"

lemma fold_update_nodes:
  "fst ` set (fold (\<lambda>c. AList.update (th_id c) c) cs m) = fst ` set m \<union> th_id ` set cs"
  "distinct (map fst m) \<Longrightarrow> distinct (map fst (fold (\<lambda>c. AList.update (th_id c) c) cs m))"
  "(i, r) \<in> set (fold (\<lambda>c. AList.update (th_id c) c) cs m) \<Longrightarrow> (i, r) \<in> set m \<or> (r \<in> set cs \<and> th_id r = i)"
proof -
  show "fst ` set (fold (\<lambda>c. AList.update (th_id c) c) cs m) = fst ` set m \<union> th_id ` set cs"
    by (induction cs arbitrary: m) (auto simp: update_keys)
  show "distinct (map fst m) \<Longrightarrow> distinct (map fst (fold (\<lambda>c. AList.update (th_id c) c) cs m))"
    by (induction cs arbitrary: m) (simp_all add: distinct_update)
  show "(i, r) \<in> set (fold (\<lambda>c. AList.update (th_id c) c) cs m) \<Longrightarrow> (i, r) \<in> set m \<or> (r \<in> set cs \<and> th_id r = i)"
  proof (induction cs arbitrary: m)
    case (Cons c cs)
    then show ?case using set_update_subset[of "th_id c" c m] by fastforce
  qed simp
qed

lemma nodes_ok_level:
  assumes "nodes_ok db root frontier nodes"
  shows "nodes_ok db root (map th_id (children_in db frontier))
    (fold (\<lambda>c. AList.update (th_id c) c) (children_in db frontier) nodes)"
    (is "nodes_ok db root ?f ?n")
proof -
  have keys: "fst ` set ?n = fst ` set nodes \<union> set ?f" by (simp add: fold_update_nodes(1))
  have d: "distinct (map fst ?n)" using assms by (simp add: nodes_ok_def fold_update_nodes(2))
  have entry: "r \<in> set db \<and> th_id r = i \<and> below (db_kids db) root i \<and> (i \<in> set ?f \<or> set (db_kids db i) \<subseteq> fst ` set ?n)"
    if e: "(i, r) \<in> set ?n" for i r
    using fold_update_nodes(3)[OF e]
  proof
    assume old: "(i, r) \<in> set nodes"
    then have o: "r \<in> set db" "th_id r = i" "below (db_kids db) root i"
        "i \<in> set frontier \<or> set (db_kids db i) \<subseteq> fst ` set nodes"
      using assms by (auto simp: nodes_ok_def)
    have "set (db_kids db i) \<subseteq> fst ` set ?n"
    proof (cases "i \<in> set frontier")
      case True
      then have "set (db_kids db i) \<subseteq> set ?f" using children_ids[of db frontier] by auto
      then show ?thesis using keys by blast
    qed (use o keys in blast)
    then show ?thesis using o by blast
  next
    assume new: "r \<in> set (children_in db frontier) \<and> th_id r = i"
    then obtain p where p: "p \<in> set frontier" "th_parent r = Some p" "r \<in> set db" by (auto simp: children_in_mem)
    have "p \<in> fst ` set nodes" using assms p(1) by (auto simp: nodes_ok_def)
    then obtain q where "(p, q) \<in> set nodes" by auto
    then have "below (db_kids db) root p" using assms by (auto simp: nodes_ok_def)
    moreover have "i \<in> set (db_kids db p)" using new p by (auto simp: db_kids_mem)
    ultimately have "below (db_kids db) root i" by (rule below_kid)
    then show ?thesis using new p(3) by auto
  qed
  show ?thesis using assms d entry keys unfolding nodes_ok_def by auto
qed

lemma collect_levels_ok:
  "nodes_ok db root frontier nodes \<Longrightarrow> collect_levels n db frontier nodes = Some nodes' \<Longrightarrow> nodes_ok db root [] nodes'"
proof (induction n arbitrary: frontier nodes)
  case (Suc n)
  show ?case
  proof (cases "frontier = []")
    case True
    then show ?thesis using Suc.prems by simp
  next
    case False
    then show ?thesis using Suc.IH[OF nodes_ok_level[OF Suc.prems(1)]] Suc.prems(2) by (simp add: Let_def)
  qed
qed simp

lemma collect_levels_ends:
  assumes "threads_ok rank db" "\<And>r. r \<in> set db \<Longrightarrow> rank (th_id r) < N"
  shows "\<forall>i \<in> set frontier. i \<in> th_id ` set db \<and> k \<le> rank i \<Longrightarrow> N \<le> k + n \<Longrightarrow>
    collect_levels (Suc n) db frontier nodes \<noteq> None"
proof (induction n arbitrary: frontier nodes k)
  case 0
  have "frontier = []"
  proof (rule ccontr)
    assume "frontier \<noteq> []"
    then obtain i where "i \<in> set frontier" by (cases frontier) auto
    with 0 assms(2) show False by fastforce
  qed
  then show ?case by simp
next
  case (Suc n)
  let ?cs = "children_in db frontier"
  have "\<forall>i \<in> set (map th_id ?cs). i \<in> th_id ` set db \<and> Suc k \<le> rank i"
  proof
    fix i assume "i \<in> set (map th_id ?cs)"
    then obtain r p where r: "r \<in> set db" "th_id r = i" "th_parent r = Some p" "p \<in> set frontier"
      by (auto simp: children_in_mem)
    then have "rank p < rank i" using assms(1) by (fastforce simp: threads_ok_def list_all_iff)
    then show "i \<in> th_id ` set db \<and> Suc k \<le> rank i" using Suc.prems(1) r by fastforce
  qed
  from Suc.IH[OF this, of "fold (\<lambda>c. AList.update (th_id c) c) ?cs nodes"] Suc.prems(2)
  have "collect_levels (Suc n) db (map th_id ?cs) (fold (\<lambda>c. AList.update (th_id c) c) ?cs nodes) \<noteq> None"
    by (simp add: Let_def)
  then show ?case by (subst collect_levels.simps) (simp del: collect_levels.simps add: Let_def)
qed

lemma visit_incl: "set (fst s) \<subseteq> set (fst (visit n kids i s))"
proof (induction n arbitrary: i s)
  case (Suc n)
  obtain v out where s: "s = (v, out)" by (cases s)
  have f: "set (fst t) \<subseteq> set (fst (fold (visit n kids) cs t))" for cs t
  proof (induction cs arbitrary: t)
    case (Cons c cs)
    from subset_trans[OF Suc.IH[of t c] Cons.IH[of "visit n kids c t"]] show ?case by simp
  qed simp
  show ?case using f[of "(v @ [i], out)" "kids i"] by (auto simp: s split: prod.splits)
qed simp

lemma node_row:
  assumes "nodes_ok db root [] nodes" "(i, r) \<in> set nodes"
  shows "r \<in> set db" "th_id r = i" "below (db_kids db) root i" "set (db_kids db i) \<subseteq> fst ` set nodes"
  using assms by (auto simp: nodes_ok_def)

lemma thread_rows_unique:
  "threads_ok rank db \<Longrightarrow> r \<in> set db \<Longrightarrow> q \<in> set db \<Longrightarrow> th_id r = th_id q \<Longrightarrow> r = q"
  by (auto simp: threads_ok_def distinct_map inj_on_def)

text \<open>The children read from the collected threads are the children in the table.\<close>

lemma kids_of_nodes:
  assumes "threads_ok rank db" "nodes_ok db root [] nodes" "p \<in> fst ` set nodes"
  shows "set (kids_of nodes p) = set (db_kids db p)"
proof
  show "set (kids_of nodes p) \<subseteq> set (db_kids db p)"
    using node_row[OF assms(2)] by (force simp: kids_of_def db_kids_mem)
  show "set (db_kids db p) \<subseteq> set (kids_of nodes p)"
  proof
    fix c assume c: "c \<in> set (db_kids db p)"
    then obtain r where r: "r \<in> set db" "th_id r = c" "th_parent r = Some p" by (auto simp: db_kids_mem)
    obtain q where q: "(p, q) \<in> set nodes" using assms(3) by auto
    then have "p \<noteq> []" using node_row[OF assms(2) q] assms(1) by (auto simp: threads_ok_def list_all_iff)
    have "c \<in> fst ` set nodes" using node_row(4)[OF assms(2) q] c by blast
    then obtain r' where r': "(c, r') \<in> set nodes" by auto
    then have "r' = r" using node_row[OF assms(2) r'] r thread_rows_unique[OF assms(1)] by blast
    then show "c \<in> set (kids_of nodes p)" using r r' \<open>p \<noteq> []\<close> by (force simp: kids_of_def)
  qed
qed

lemma nodes_ranked:
  assumes "threads_ok rank db" "nodes_ok db root [] nodes"
  shows "ranked rank (kids_of nodes)"
  unfolding ranked_def
proof (intro allI ballI)
  fix p c assume "c \<in> set (kids_of nodes p)"
  then obtain i r where r: "(i, r) \<in> set nodes" "th_id r = c" "th_parent r = Some p" by (auto simp: kids_of_def)
  then show "rank p < rank c" using node_row(1)[OF assms(2) r(1)] assms(1) by (fastforce simp: threads_ok_def list_all_iff)
qed

lemma visited_threads:
  assumes "threads_ok rank db" "nodes_ok db root [] nodes"
    "vis = snd (visit (Suc (length nodes)) (kids_of nodes) root ([], []))"
  shows "set vis = {i. below (db_kids db) root i}" "distinct vis" "set vis \<subseteq> fst ` set nodes"
    "sorted_wrt (\<lambda>a b. b \<notin> set (db_kids db a)) vis"
proof -
  let ?K = "fst ` set nodes" and ?kids = "kids_of nodes"
  obtain v where v: "visit (Suc (length nodes)) ?kids root ([], []) = (v, vis)" using assms(3) by (metis prod.collapse)
  have root: "root \<in> ?K" using assms(2) by (simp add: nodes_ok_def)
  have inK: "set (?kids p) \<subseteq> ?K" for p using node_row[OF assms(2)] by (force simp: kids_of_def)
  have "card (?K - set []) < Suc (length nodes)"
    using card_image_le[of "set nodes" fst] card_length[of nodes] by simp
  then have "visit_adds ?kids [root] ([], []) (v, vis)"
    using visit_correct[OF nodes_ranked[OF assms(1,2)] inK _ root, of "([], [])" "Suc (length nodes)"] v by simp
  then have a: "distinct vis" "root \<in> set vis" "sorted_wrt (\<lambda>a b. b \<notin> set (?kids a)) vis"
      and closed: "\<And>i. i \<in> set vis \<Longrightarrow> set (?kids i) \<subseteq> set vis \<and> below ?kids root i"
    by (auto simp: visit_adds_def)
  have upK: "i \<in> ?K" if "below ?kids root i" for i
    using that root by (induction rule: below.induct) (auto dest: subsetD[OF inK])
  then show visK: "set vis \<subseteq> ?K" using closed by blast
  have kids: "set (?kids i) = set (db_kids db i)" if "i \<in> set vis" for i
    using kids_of_nodes[OF assms(1,2)] visK that by blast
  show "distinct vis" by (rule a(1))
  show "sorted_wrt (\<lambda>a b. b \<notin> set (db_kids db a)) vis"
    by (rule sorted_wrt_mono_rel[OF _ a(3)]) (simp add: kids)
  have step: "c \<in> set vis" if "p \<in> set vis" "c \<in> set (db_kids db p)" for p c using that closed kids by blast
  have "i \<in> set vis" if "below (db_kids db) root i" for i
    using that a(2) by (induction rule: below.induct) (auto dest: step)
  moreover have "below (db_kids db) root i" if i: "i \<in> set vis" for i
  proof -
    obtain r where "(i, r) \<in> set nodes" using i visK by auto
    then show ?thesis by (rule node_row(3)[OF assms(2)])
  qed
  ultimately show "set vis = {i. below (db_kids db) root i}" by blast
qed

lemma post_order_spec:
  assumes "threads_ok rank db" "nodes_ok db root [] nodes"
  shows "set (map th_id (post_order nodes root)) = {i. below (db_kids db) root i}"
    "set (post_order nodes root) \<subseteq> set db" "distinct (map th_id (post_order nodes root))"
    "sorted_wrt (\<lambda>a b. th_parent b \<noteq> Some (th_id a)) (post_order nodes root)"
proof -
  define vis where vis: "vis = snd (visit (Suc (length nodes)) (kids_of nodes) root ([], []))"
  note V = visited_threads[OF assms vis]
  let ?row = "\<lambda>i. the (map_of nodes i)"
  have rows: "map_of nodes i = Some (?row i)" "?row i \<in> set db" "th_id (?row i) = i" if i: "i \<in> set vis" for i
  proof -
    show m: "map_of nodes i = Some (?row i)" using i V(3) map_of_eq_None_iff[of nodes i] by (cases "map_of nodes i") auto
    show "?row i \<in> set db" "th_id (?row i) = i" using node_row(1,2)[OF assms(2) map_of_SomeD[OF m]] by auto
  qed
  have "filter (\<lambda>i. map_of nodes i \<noteq> None) vis = vis" unfolding filter_id_conv using rows(1) by (metis option.distinct(1))
  then have po: "post_order nodes root = map ?row vis" by (simp add: post_order_def vis List.map_filter_def del: visit.simps)
  have ids: "map th_id (post_order nodes root) = vis" unfolding po using rows(3) by (simp add: map_idI)
  show "set (map th_id (post_order nodes root)) = {i. below (db_kids db) root i}"
    "distinct (map th_id (post_order nodes root))" using ids V by simp_all
  show "set (post_order nodes root) \<subseteq> set db" unfolding po using rows(2) by auto
  show "sorted_wrt (\<lambda>a b. th_parent b \<noteq> Some (th_id a)) (post_order nodes root)"
    unfolding po sorted_wrt_map
  proof (rule sorted_wrt_mono_rel[OF _ V(4)])
    fix a b assume ab: "a \<in> set vis" "b \<in> set vis" "b \<notin> set (db_kids db a)"
    then show "th_parent (?row b) \<noteq> Some (th_id (?row a))"
      using rows(2,3)[OF ab(1)] rows(2,3)[OF ab(2)] unfolding db_kids_mem by metis
  qed
qed

lemma collect_spec:
  assumes "threads_ok rank db" "\<And>r. r \<in> set db \<Longrightarrow> rank (th_id r) < N" "root \<in> th_id ` set db"
  shows "\<exists>nodes. collect_thread_nodes (Suc N) db root = Some nodes
    \<and> set (map th_id nodes) = {i. below (db_kids db) root i} \<and> set nodes \<subseteq> set db \<and> distinct (map th_id nodes)
    \<and> sorted_wrt (\<lambda>a b. th_parent b \<noteq> Some (th_id a)) nodes"
proof -
  obtain r where f: "find (\<lambda>r. th_id r = root) db = Some r" "r \<in> set db" "th_id r = root"
    using assms(3) find_None_iff[of "\<lambda>r. th_id r = root" db]
    by (cases "find (\<lambda>r. th_id r = root) db") (auto simp: find_Some_iff)
  have "nodes_ok db root [root] [(root, r)]" using f by (simp add: nodes_ok_def below_self)
  moreover have "collect_levels (Suc N) db [root] [(root, r)] \<noteq> None"
    by (rule collect_levels_ends[OF assms(1,2), where k = 0]) (use assms(3) in auto)
  then obtain nodes where c: "collect_levels (Suc N) db [root] [(root, r)] = Some nodes" by blast
  ultimately have n: "nodes_ok db root [] nodes" by (rule collect_levels_ok)
  have p: "collect_thread_nodes (Suc N) db root = Some (post_order nodes root)"
    unfolding collect_thread_nodes_def f(1) by (simp add: c del: collect_levels.simps)
  show ?thesis by (rule exI[of _ "post_order nodes root"]) (use p post_order_spec[OF assms(1) n] in simp)
qed

section \<open>What closing a thread does\<close>

text \<open>The effect on the containers is a map over their rows which keeps their identifiers.\<close>

definition rows_become :: "container_db \<Rightarrow> container_db \<Rightarrow> (container_row \<Rightarrow> container_row \<Rightarrow> bool) \<Rightarrow> bool" where
  "rows_become db db' P \<longleftrightarrow> (\<exists>f. keeps_keys f \<and> db' = map_rows f db \<and> (\<forall>r \<in> set (cd_rows db). P r (f r)))"

lemma rows_becomeI:
  "keeps_keys f \<Longrightarrow> db' = map_rows f db \<Longrightarrow> (\<And>r. r \<in> set (cd_rows db) \<Longrightarrow> P r (f r)) \<Longrightarrow> rows_become db db' P"
  by (auto simp: rows_become_def)

lemma rows_become_refl: "(\<And>r. P r r) \<Longrightarrow> rows_become db db P"
  by (rule rows_becomeI[of id]) (simp_all add: keeps_keys_def map_rows_def)

lemma keeps_keys_comp: "keeps_keys f \<Longrightarrow> keeps_keys g \<Longrightarrow> keeps_keys (g \<circ> f)"
  by (simp add: keeps_keys_def)

lemma rows_become_trans:
  assumes "rows_become db db1 P" "rows_become db1 db2 Q" "\<And>r r1 r2. P r r1 \<Longrightarrow> Q r1 r2 \<Longrightarrow>
    cr_container r1 = cr_container r \<Longrightarrow> cr_thread r1 = cr_thread r \<Longrightarrow> R r r2"
  shows "rows_become db db2 R"
proof -
  obtain f where f: "keeps_keys f" "db1 = map_rows f db" "\<forall>r \<in> set (cd_rows db). P r (f r)"
    using assms(1) by (auto simp: rows_become_def)
  obtain g where g: "keeps_keys g" "db2 = map_rows g db1" "\<forall>r \<in> set (cd_rows db1). Q r (g r)"
    using assms(2) by (auto simp: rows_become_def)
  show ?thesis
  proof (rule rows_becomeI[of "g \<circ> f"])
    show "keeps_keys (g \<circ> f)" by (rule keeps_keys_comp[OF f(1) g(1)])
    show "db2 = map_rows (g \<circ> f) db" using f(2) g(2) by simp
    fix r assume r: "r \<in> set (cd_rows db)"
    then have "P r (f r)" "Q (f r) (g (f r))" using f g by simp_all
    then show "R r ((g \<circ> f) r)" using assms(3) f(1) by (simp add: keeps_keys_def)
  qed
qed

lemma rows_become_mono:
  "rows_become db db' P \<Longrightarrow> (\<And>r r'. r \<in> set (cd_rows db) \<Longrightarrow> P r r' \<Longrightarrow> Q r r') \<Longrightarrow> rows_become db db' Q"
  unfolding rows_become_def by blast

text \<open>A change of one row after another.\<close>

lemma rows_become_fold:
  assumes "\<And>c db. rows_become db (step c db) (\<lambda>r r'. if cr_container r = c then P c (cr_status r) (cr_status r') else r' = r)"
    "\<And>c a b d. P c a b \<Longrightarrow> P c b d \<Longrightarrow> P c a d"
  shows "rows_become db (fold step cs db)
    (\<lambda>r r'. if cr_container r \<in> set cs then P (cr_container r) (cr_status r) (cr_status r') else r' = r)"
proof (induction cs arbitrary: db)
  case (Cons c cs)
  have "rows_become db (fold step cs (step c db))
    (\<lambda>r r'. if cr_container r \<in> set (c # cs) then P (cr_container r) (cr_status r) (cr_status r') else r' = r)"
    by (rule rows_become_trans[OF assms(1) Cons.IH]) (use assms(2) in \<open>auto split: if_splits\<close>)
  then show ?case by simp
qed (simp add: rows_become_refl)

lemma terminate_container_rows:
  "rows_become db (terminate_container e cache c db)
    (\<lambda>r r'. if cr_container r = c then cr_status r' = Terminating else r' = r)"
proof -
  let ?up = "\<lambda>k r. r\<lparr>cr_status := Terminating, cr_reason := Some ''thread_closed'',
      cr_meta := Some (metadata_json ((if k then (normalize_for_termination (cr_meta r))\<lparr>md_claim := Some (sw_claim e c)\<rparr>
        else normalize_for_termination (cr_meta r))\<lparr>md_retry_after := Some (tt_iso (sw_texts e) (sw_now e))\<rparr>))\<rparr>"
  have up: "rows_become db1 (update_row (sw_now e) c (?up k) db1)
      (\<lambda>r r'. if cr_container r = c then cr_status r' = Terminating else r' = r)" for db1 k
    by (rule rows_becomeI[OF _ update_row_map]) (auto simp: keeps_keys_def)
  have claim: "rows_become db (fst (claim_for_termination now c claim db))
      (\<lambda>r r'. if cr_container r = c then cr_status r' = cr_status r \<or> cr_status r' = Terminating else r' = r)" for now claim
    unfolding claim_for_termination_def claim_write_def
    by (cases "row_of c db") (auto simp: update_row_map keeps_keys_def intro!: rows_become_refl rows_becomeI[OF _ refl])
  have none: "rows_become db db (\<lambda>r r'. if cr_container r = c then cr_status r' = Terminating else r' = r)" if "row_of c db = None"
    by (rule rows_becomeI[of id]) (use that in \<open>auto simp: keeps_keys_def map_rows_def row_of_None\<close>)
  have some: "terminate_container e cache c db
      = update_row (sw_now e) c (?up (snd p)) (fst p)"
    if "\<not> (map_of cache c = None \<and> row_of c db = None)"
      "p = (if (case map_of cache c of Some s \<Rightarrow> s | None \<Rightarrow> (case row_of c db of Some r \<Rightarrow> cr_status r | None \<Rightarrow> Stopped)) = Running
            then claim_for_termination (sw_now e) c (sw_claim e c) db else (db, False))" for p
    using that unfolding terminate_container_def
    by (cases "map_of cache c"; cases "row_of c db") (simp_all add: Let_def case_prod_beta)
  show ?thesis
  proof (cases "map_of cache c = None \<and> row_of c db = None")
    case True
    then show ?thesis using none by (simp add: terminate_container_def)
  next
    case False
    define p where "p = (if (case map_of cache c of Some s \<Rightarrow> s | None \<Rightarrow> (case row_of c db of Some r \<Rightarrow> cr_status r | None \<Rightarrow> Stopped)) = Running
            then claim_for_termination (sw_now e) c (sw_claim e c) db else (db, False))"
    have "rows_become db (fst p)
      (\<lambda>r r'. if cr_container r = c then cr_status r' = cr_status r \<or> cr_status r' = Terminating else r' = r)"
      using claim unfolding p_def by (auto intro: rows_become_refl)
    from rows_become_trans[OF this up[of "fst p" "snd p"]] show ?thesis
      unfolding some[OF False p_def] by (rule rows_become_mono) (auto split: if_splits)
  qed
qed

lemma rows_become_ok: "rows_become db db' P \<Longrightarrow> containers_ok db \<Longrightarrow> containers_ok db'"
  by (auto simp: rows_become_def map_rows_ok)

lemma terminate_by_thread_rows:
  assumes "containers_ok db" "list_all (\<lambda>r. cr_container r \<noteq> []) (cd_rows db)"
  shows "rows_become db (terminate_by_thread e discovered t db)
    (\<lambda>r r'. (cr_status r' = Running \<longrightarrow> cr_status r = Running \<and> cr_thread r \<noteq> Some t)
      \<and> (cr_thread r \<noteq> Some t \<longrightarrow> cr_container r \<notin> set discovered \<longrightarrow> r' = r))"
proof -
  define mine where "mine = filter (\<lambda>r. cr_thread r = Some t \<and> (cr_status r = Running \<or> cr_status r = Terminating)) (cd_rows db)"
  define cs where "cs = filter (\<lambda>c. c \<noteq> []) (set_add_all discovered (map cr_container mine))"
  have fold: "rows_become db (fold (terminate_container e (map (\<lambda>r. (cr_container r, cr_status r)) mine)) cs db)
    (\<lambda>r r'. if cr_container r \<in> set cs then cr_status r' = Terminating else r' = r)"
    by (rule rows_become_fold[where P = "\<lambda>c a b. b = Terminating", OF terminate_container_rows])
  have eq: "terminate_by_thread e discovered t db = fold (terminate_container e (map (\<lambda>r. (cr_container r, cr_status r)) mine)) cs db"
    by (simp add: terminate_by_thread_def Let_def mine_def cs_def)
  show ?thesis
    unfolding eq
  proof (rule rows_become_mono[OF fold])
    fix r r' assume r: "r \<in> set (cd_rows db)" and p: "if cr_container r \<in> set cs then cr_status r' = Terminating else r' = r"
    have running: "cr_container r \<in> set cs" if "cr_thread r = Some t" "cr_status r = Running"
      using that r assms(2) by (auto simp: cs_def mine_def list_all_iff)
    have other: "cr_container r \<notin> set cs" if "cr_thread r \<noteq> Some t" "cr_container r \<notin> set discovered"
      using that map_rows_row[OF assms(1) r] by (auto simp: cs_def mine_def)
    show "(cr_status r' = Running \<longrightarrow> cr_status r = Running \<and> cr_thread r \<noteq> Some t)
      \<and> (cr_thread r \<noteq> Some t \<longrightarrow> cr_container r \<notin> set discovered \<longrightarrow> r' = r)"
      using p running other by (auto split: if_splits)
  qed
qed

definition goes_away :: "sweep_env \<Rightarrow> string \<Rightarrow> bool" where
  "goes_away e c \<longleftrightarrow> stop_and_remove (sw_stop e c) (sw_remove e c) = Inr ()"

lemma settle_rows:
  "rows_become db (settle_container e reason c db)
    (\<lambda>r r'. if cr_container r = c
      then (cr_status r' = cr_status r \<or> cr_status r' = Stopped) \<and> (goes_away e c \<longrightarrow> cr_status r' = Stopped)
      else r' = r)"
  unfolding settle_container_map
  by (rule rows_becomeI[OF on_row_keys[OF settled_keeps_keys(1)] refl])
    (auto simp: on_row_def row_effects goes_away_def split: sum.splits)

lemma sweep_selective_rows:
  assumes "containers_ok db" "t \<noteq> []"
  shows "rows_become db (sweep_selective e t db)
    (\<lambda>r r'. if cr_thread r = Some t
      then (cr_status r' = cr_status r \<or> cr_status r' = Stopped) \<and> (goes_away e (cr_container r) \<longrightarrow> cr_status r' = Stopped)
      else r' = r)"
proof -
  let ?cs = "map fst (list_by_thread t db)"
  have "rows_become db (fold (settle_container e ''thread_closed'') ?cs db)
    (\<lambda>r r'. if cr_container r \<in> set ?cs
      then (cr_status r' = cr_status r \<or> cr_status r' = Stopped) \<and> (goes_away e (cr_container r) \<longrightarrow> cr_status r' = Stopped)
      else r' = r)"
    by (rule rows_become_fold[where P = "\<lambda>c a b. (b = a \<or> b = Stopped) \<and> (goes_away e c \<longrightarrow> b = Stopped)", OF settle_rows]) auto
  then show ?thesis
    unfolding sweep_selective_def
  proof (rule rows_become_mono)
    fix r r'
    assume r: "r \<in> set (cd_rows db)"
    have "cr_container r \<in> set ?cs \<longleftrightarrow> cr_thread r = Some t"
      
    proof
      assume "cr_container r \<in> set ?cs"
      then obtain q where "q \<in> set (cd_rows db)" "cr_container q = cr_container r" "cr_thread q = Some t"
        using assms(2) by (auto simp: list_by_thread_def)
      moreover from this have "q = r" by (intro map_rows_row[OF assms(1) r])
      ultimately show "cr_thread r = Some t" by simp
    qed (use r assms(2) in \<open>auto simp: list_by_thread_def\<close>)
    then show "(if cr_container r \<in> set ?cs
      then (cr_status r' = cr_status r \<or> cr_status r' = Stopped) \<and> (goes_away e (cr_container r) \<longrightarrow> cr_status r' = Stopped)
      else r' = r) \<Longrightarrow> (if cr_thread r = Some t
      then (cr_status r' = cr_status r \<or> cr_status r' = Stopped) \<and> (goes_away e (cr_container r) \<longrightarrow> cr_status r' = Stopped)
      else r' = r)" by simp
  qed
qed

lemma reconcile_rows:
  assumes "containers_ok db" "set refs \<subseteq> (\<lambda>r. (cr_container r, cr_thread r, cr_status r)) ` set (cd_rows db)"
  shows "rows_become db (reconcile_references e t refs db)
    (\<lambda>r r'. if cr_thread r = Some t then cr_status r' = cr_status r \<or> cr_status r' = Stopped else r' = r)"
proof -
  let ?cs = "map fst (filter (\<lambda>(c, th, s). th = Some t \<and> s \<noteq> Stopped) refs)"
  let ?f = "\<lambda>c. mark_stopped (sw_texts (cl_sweep e)) (sw_now (cl_sweep e)) c ''workspace_volume_removed''"
  have one: "rows_become db (?f c db) (\<lambda>r r'. if cr_container r = c then cr_status r' = Stopped else r' = r)" for c db
    unfolding mark_stopped_def by (rule rows_becomeI[OF _ update_row_map]) (auto simp: keeps_keys_def)
  have eq: "reconcile_references e t refs db = fold ?f ?cs db"
    by (simp add: reconcile_references_def fold_map o_def case_prod_unfold)
  have fold: "rows_become db (fold ?f ?cs db) (\<lambda>r r'. if cr_container r \<in> set ?cs then cr_status r' = Stopped else r' = r)"
    by (rule rows_become_fold[where P = "\<lambda>c a b. b = Stopped", OF one])
  show ?thesis
    unfolding eq
  proof (rule rows_become_mono[OF fold])
    fix r r' assume r: "r \<in> set (cd_rows db)" and p: "if cr_container r \<in> set ?cs then cr_status r' = Stopped else r' = r"
    have "cr_thread r = Some t" if "cr_container r \<in> set ?cs"
      using that assms(2) map_rows_row[OF assms(1) r] by fastforce
    then show "if cr_thread r = Some t then cr_status r' = cr_status r \<or> cr_status r' = Stopped else r' = r"
      using p by (auto split: if_splits)
  qed
qed

text \<open>The label of a container names the thread its row names.\<close>

definition labels_agree :: "cleanup_env \<Rightarrow> container_db \<Rightarrow> bool" where
  "labels_agree e db \<longleftrightarrow> (\<forall>r \<in> set (cd_rows db). \<forall>t. cr_container r \<in> set (cl_labelled e t) \<longrightarrow> cr_thread r = Some t)"

definition containers_fit :: "cleanup_env \<Rightarrow> container_db \<Rightarrow> bool" where
  "containers_fit e db \<longleftrightarrow> containers_ok db \<and> list_all (\<lambda>r. cr_container r \<noteq> []) (cd_rows db) \<and> labels_agree e db"

lemma rows_become_fit: "rows_become db db' P \<Longrightarrow> containers_fit e db \<Longrightarrow> containers_fit e db'"
  by (auto simp: rows_become_def containers_fit_def labels_agree_def map_rows_ok list_all_iff keeps_keys_def)

text \<open>What happens to the containers when the threads in \<open>T\<close> are cleaned up.\<close>

definition cleaned_row :: "cleanup_env \<Rightarrow> string set \<Rightarrow> container_row \<Rightarrow> container_row \<Rightarrow> bool" where
  "cleaned_row e T r r' \<longleftrightarrow>
     (if \<exists>t \<in> T. cr_thread r = Some t
      then cr_status r' \<noteq> Running \<and> (goes_away (cl_sweep e) (cr_container r) \<longrightarrow> cr_status r' = Stopped)
      else cr_status r' = cr_status r)"

lemma delete_workspace_rows:
  assumes "containers_ok (cw_containers w)"
  shows "rows_become (cw_containers w) (cw_containers (delete_workspace_volume e t w))
    (\<lambda>r r'. if cr_thread r = Some t then cr_status r' = cr_status r \<or> cr_status r' = Stopped else r' = r)"
proof -
  have refl: "rows_become (cw_containers w) (cw_containers w)
    (\<lambda>r r'. if cr_thread r = Some t then cr_status r' = cr_status r \<or> cr_status r' = Stopped else r' = r)"
    by (rule rows_become_refl) simp
  have "set (find_by_volume v db) \<subseteq> (\<lambda>r. (cr_container r, cr_thread r, cr_status r)) ` set (cd_rows db)" for v db
    by (auto simp: find_by_volume_def)
  note rec = reconcile_rows[OF assms this]
  have "cw_containers (delete_workspace_volume e t w) \<in> {cw_containers w,
      reconcile_references e t (find_by_volume (volume_name t) (cw_containers w)) (cw_containers w)}"
    by (auto simp: delete_workspace_volume_def Let_def split: option.splits)
  then show ?thesis
  proof (elim insertE)
    assume c: "cw_containers (delete_workspace_volume e t w) = cw_containers w"
    show ?thesis unfolding c by (rule refl)
  next
    assume c: "cw_containers (delete_workspace_volume e t w)
      = reconcile_references e t (find_by_volume (volume_name t) (cw_containers w)) (cw_containers w)"
    show ?thesis unfolding c by (rule rec)
  qed simp
qed

lemma pipeline_rows:
  assumes "containers_fit e (cw_containers w)" "th_id node \<noteq> []"
  shows "rows_become (cw_containers w) (cw_containers (run_cleanup_pipeline e node w)) (cleaned_row e {th_id node})"
proof -
  let ?t = "th_id node" and ?s = "cl_sweep e"
  let ?db1 = "terminate_by_thread ?s (cl_labelled e ?t) ?t (cw_containers w)"
  let ?db2 = "sweep_selective ?s ?t ?db1"
  have ok: "containers_ok (cw_containers w)" "list_all (\<lambda>r. cr_container r \<noteq> []) (cd_rows (cw_containers w))"
    "labels_agree e (cw_containers w)" using assms(1) by (simp_all add: containers_fit_def)
  have "rows_become (cw_containers w) ?db1 (\<lambda>r r'. (cr_status r' = Running \<longrightarrow> cr_thread r \<noteq> Some ?t)
      \<and> (cr_thread r \<noteq> Some ?t \<longrightarrow> cr_status r' = cr_status r))"
    by (rule rows_become_mono[OF terminate_by_thread_rows[OF ok(1,2)]]) (use ok(3) in \<open>auto simp: labels_agree_def\<close>)
  from rows_become_trans[OF this sweep_selective_rows[OF rows_become_ok[OF this ok(1)] assms(2), of ?s]]
  have two: "rows_become (cw_containers w) ?db2 (cleaned_row e {?t})"
    by (rule rows_become_mono) (auto simp: cleaned_row_def split: if_splits)
  obtain w2 where w2: "run_cleanup_pipeline e node w = delete_workspace_volume e ?t w2" "cw_containers w2 = ?db2"
    by (simp add: run_cleanup_pipeline_def Let_def terminate_active_runs_def)
  have "containers_ok (cw_containers w2)" using rows_become_ok[OF two ok(1)] w2(2) by simp
  from rows_become_trans[OF two[folded w2(2)] delete_workspace_rows[OF this]] show ?thesis
    unfolding w2(1) by (rule rows_become_mono) (auto simp: cleaned_row_def split: if_splits)
qed

lemma cascade_rows:
  assumes "containers_fit e (cw_containers w)" "\<forall>n \<in> set nodes. th_id n \<noteq> []"
  shows "rows_become (cw_containers w) (cw_containers (fold (run_cleanup_pipeline e) nodes w))
    (cleaned_row e (th_id ` set nodes))"
  using assms
proof (induction nodes arbitrary: w)
  case Nil
  then show ?case by (simp add: rows_become_refl cleaned_row_def)
next
  case (Cons n nodes)
  have one: "rows_become (cw_containers w) (cw_containers (run_cleanup_pipeline e n w)) (cleaned_row e {th_id n})"
    using pipeline_rows Cons.prems by simp
  have "rows_become (cw_containers (run_cleanup_pipeline e n w))
    (cw_containers (fold (run_cleanup_pipeline e) nodes (run_cleanup_pipeline e n w))) (cleaned_row e (th_id ` set nodes))"
    using Cons rows_become_fit[OF one] by simp
  from rows_become_trans[OF one this] show ?case
    by simp (rule rows_become_mono, auto simp: cleaned_row_def split: if_splits)
qed

section \<open>The rest of the world\<close>

definition told :: "string \<Rightarrow> run_signals \<Rightarrow> bool" where
  "told run s \<longleftrightarrow> (\<exists>p. map_of (rs_entries s) run = Some p \<and> is_active s p)"

lemma told_activate:
  assumes "signals_ok s"
  shows "told run (activate_terminate run s)" "told other s \<Longrightarrow> told other (activate_terminate run s)"
    "signals_ok (activate_terminate run s)"
proof -
  show "told run (activate_terminate run s)" "told other s \<Longrightarrow> told other (activate_terminate run s)"
    using lookup_ok[OF assms, of run]
    by (auto simp: told_def activate_terminate_def new_signal_def Let_def is_active_def activate_signal_def map_laws
      nth_append nth_list_update split: option.splits)
  have "set (AList.update run (length (rs_active s)) (rs_entries s)) \<subseteq> insert (run, length (rs_active s)) (set (rs_entries s))"
    using set_update_subset by fastforce
  then show "signals_ok (activate_terminate run s)"
    using assms by (fastforce simp: signals_ok_def activate_terminate_def new_signal_def activate_signal_def Let_def
        list_all_iff split: option.splits)
qed

lemma told_fold:
  "signals_ok s \<Longrightarrow> signals_ok (fold activate_terminate runs s)
    \<and> (\<forall>run. run \<in> set runs \<or> told run s \<longrightarrow> told run (fold activate_terminate runs s))"
proof (induction runs arbitrary: s)
  case (Cons r runs)
  from Cons.IH[OF told_activate(3)[OF Cons.prems, of r]] show ?case
    using told_activate(1)[OF Cons.prems, of r] told_activate(2)[OF Cons.prems, of _ r] by auto
qed simp

text \<open>One thread's pipeline, part by part.\<close>

lemma delete_workspace_frame [simp]:
  "cw_threads (delete_workspace_volume e t w) = cw_threads w" "cw_runs (delete_workspace_volume e t w) = cw_runs w"
  "cw_signals (delete_workspace_volume e t w) = cw_signals w" "cw_reminders (delete_workspace_volume e t w) = cw_reminders w"
  "cw_volumes (delete_workspace_volume e t w) =
     (if cl_volume_users e (volume_name t) = Some [] \<and> cl_volume_removed e (volume_name t)
      then removeAll (volume_name t) (cw_volumes w) else cw_volumes w)"
  by (auto simp: delete_workspace_volume_def Let_def split: option.splits)

lemma pipeline_frame [simp]:
  "cw_threads (run_cleanup_pipeline e n w) = cw_threads w" "cw_runs (run_cleanup_pipeline e n w) = cw_runs w"
  "cw_signals (run_cleanup_pipeline e n w) = fold activate_terminate (map rn_id (list_running_runs (th_id n) w)) (cw_signals w)"
  "cw_reminders (run_cleanup_pipeline e n w) =
     fst (cancel_thread_reminders (cl_reminders_ok e) (sw_now (cl_sweep e)) (th_id n) (cw_reminders w))"
  "cw_volumes (run_cleanup_pipeline e n w) =
     (if cl_volume_users e (volume_name (th_id n)) = Some [] \<and> cl_volume_removed e (volume_name (th_id n))
      then removeAll (volume_name (th_id n)) (cw_volumes w) else cw_volumes w)"
  by (simp_all add: run_cleanup_pipeline_def Let_def terminate_active_runs_def list_running_runs_def)

definition timers_of :: "string \<Rightarrow> remind_tool list \<Rightarrow> bool" where
  "timers_of t tools \<longleftrightarrow> list_ex (\<lambda>tool. list_ex (\<lambda>(i, r). rm_thread r = t) (tl_active tool)) tools"

lemma cancelled_timers:
  "\<not> timers_of t (snd (fst (cancel_thread_reminders ok now t s)))"
  "\<not> timers_of u (snd s) \<Longrightarrow> \<not> timers_of u (snd (fst (cancel_thread_reminders ok now t s)))"
  by (auto simp: timers_of_def cancel_thread_reminders_def clear_in_tools_def clear_timers_by_thread_def list_ex_iff
      split: prod.splits)

lemma cascade_keeps [simp]:
  "cw_threads (fold (run_cleanup_pipeline e) nodes w) = cw_threads w"
  "cw_runs (fold (run_cleanup_pipeline e) nodes w) = cw_runs w"
  by (induction nodes arbitrary: w) simp_all

lemma cascade_told:
  "signals_ok (cw_signals w) \<Longrightarrow>
   told run (cw_signals w) \<or> (\<exists>r \<in> set (cw_runs w). rn_id r = run \<and> rn_running r \<and> rn_thread r \<in> th_id ` set nodes) \<Longrightarrow>
   told run (cw_signals (fold (run_cleanup_pipeline e) nodes w))"
proof (induction nodes arbitrary: w)
  case (Cons n nodes)
  let ?w = "run_cleanup_pipeline e n w"
  note f = told_fold[OF Cons.prems(1), of "map rn_id (list_running_runs (th_id n) w)"]
  have "told run (cw_signals ?w) \<or> (\<exists>r \<in> set (cw_runs ?w). rn_id r = run \<and> rn_running r \<and> rn_thread r \<in> th_id ` set nodes)"
    using Cons.prems(2) f by (auto simp: list_running_runs_def)
  then show ?case using Cons.IH[of ?w] f by simp
qed simp

lemma cascade_timers:
  "\<not> timers_of t (snd (cw_reminders w)) \<or> t \<in> th_id ` set nodes \<Longrightarrow>
   \<not> timers_of t (snd (cw_reminders (fold (run_cleanup_pipeline e) nodes w)))"
proof (induction nodes arbitrary: w)
  case (Cons n nodes)
  have "\<not> timers_of t (snd (cw_reminders (run_cleanup_pipeline e n w))) \<or> t \<in> th_id ` set nodes"
    using Cons.prems cancelled_timers(1)[of "th_id n" "cl_reminders_ok e" "sw_now (cl_sweep e)" "cw_reminders w"]
      cancelled_timers(2)[of t "cw_reminders w" "cl_reminders_ok e" "sw_now (cl_sweep e)" "th_id n"] by auto
  from Cons.IH[OF this] show ?case by simp
qed simp

lemma cascade_volumes:
  "set (cw_volumes (fold (run_cleanup_pipeline e) nodes w)) = {v \<in> set (cw_volumes w).
     \<not> (\<exists>t \<in> th_id ` set nodes. v = volume_name t \<and> cl_volume_users e v = Some [] \<and> cl_volume_removed e v)}"
  by (induction nodes arbitrary: w) auto

text \<open>The threads are closed before the first pipeline starts.\<close>

definition close_row :: "thread_row \<Rightarrow> thread_row" where
  "close_row r = r\<lparr>th_closed := True\<rparr>"

lemma closing_frame [simp]:
  "cw_runs (fold ensure_thread_closed ns w) = cw_runs w" "cw_signals (fold ensure_thread_closed ns w) = cw_signals w"
  "cw_reminders (fold ensure_thread_closed ns w) = cw_reminders w" "cw_containers (fold ensure_thread_closed ns w) = cw_containers w"
  "cw_volumes (fold ensure_thread_closed ns w) = cw_volumes w"
  by (induction ns arbitrary: w) (simp_all add: ensure_thread_closed_def)

lemma closing_threads:
  "cw_threads (fold ensure_thread_closed ns w) =
     map (\<lambda>r. if \<exists>n \<in> set ns. th_id n = th_id r \<and> \<not> th_closed n then close_row r else r) (cw_threads w)"
proof (induction ns arbitrary: w)
  case (Cons n ns)
  have "cw_threads (ensure_thread_closed n w)
      = map (\<lambda>r. if th_id n = th_id r \<and> \<not> th_closed n then close_row r else r) (cw_threads w)"
    by (simp add: ensure_thread_closed_def close_row_def)
  then show ?case by (auto simp: Cons.IH close_row_def)
qed simp

lemma closed_threads:
  assumes "threads_ok rank (cw_threads w)" "set nodes \<subseteq> set (cw_threads w)" "set (map th_id nodes) = S"
  shows "cw_threads (fold ensure_thread_closed nodes w) = map (\<lambda>r. if th_id r \<in> S then close_row r else r) (cw_threads w)"
  unfolding closing_threads
proof (rule map_cong[OF refl])
  fix r assume r: "r \<in> set (cw_threads w)"
  have "n = r" if "n \<in> set nodes" "th_id n = th_id r" for n
    using thread_rows_unique[OF assms(1) _ r] that assms(2) by blast
  then show "(if \<exists>n \<in> set nodes. th_id n = th_id r \<and> \<not> th_closed n then close_row r else r) = (if th_id r \<in> S then close_row r else r)"
    using assms(3) by (cases "th_closed r") (auto simp: close_row_def image_iff)
qed

definition subtree :: "thread_row list \<Rightarrow> string \<Rightarrow> string set" where
  "subtree db root = {i. below (db_kids db) root i}"

definition cascade_result :: "cleanup_env \<Rightarrow> string set \<Rightarrow> cleanup_world \<Rightarrow> cleanup_world \<Rightarrow> bool" where
  "cascade_result e S w w' \<longleftrightarrow>
     cw_threads w' = map (\<lambda>r. if th_id r \<in> S then close_row r else r) (cw_threads w) \<and> cw_runs w' = cw_runs w
     \<and> (\<forall>r \<in> set (cw_runs w). rn_running r \<and> rn_thread r \<in> S \<longrightarrow> told (rn_id r) (cw_signals w'))
     \<and> (\<forall>t \<in> S. \<not> timers_of t (snd (cw_reminders w')))
     \<and> rows_become (cw_containers w) (cw_containers w') (cleaned_row e S)
     \<and> set (cw_volumes w') = {v \<in> set (cw_volumes w).
          \<not> (\<exists>t \<in> S. v = volume_name t \<and> cl_volume_users e v = Some [] \<and> cl_volume_removed e v)}"


text \<open>
  The threads below a thread are cleaned up children first: no thread's pipeline runs before that of a
  thread it is the parent of.
\<close>

theorem children_are_cleaned_first:
  assumes "threads_ok rank db" "\<And>r. r \<in> set db \<Longrightarrow> rank (th_id r) < N" "root \<in> th_id ` set db"
  shows "\<exists>nodes. collect_thread_nodes (Suc N) db root = Some nodes \<and> set (map th_id nodes) = subtree db root
    \<and> distinct (map th_id nodes) \<and> sorted_wrt (\<lambda>a b. th_parent b \<noteq> Some (th_id a)) nodes"
  using collect_spec[OF assms] by (auto simp: subtree_def)

section \<open>Which volumes a sweep reaches\<close>

lemma sorted_sort_by:
  assumes "\<And>a b. le a b \<or> le b a" "\<And>a b c. le a b \<Longrightarrow> le b c \<Longrightarrow> le a c"
  shows "sorted_wrt le (sort_by le xs)"
proof -
  have ins: "sorted_wrt le ys \<Longrightarrow> sorted_wrt le (insert_by le x ys)" for x ys
  proof (induction ys)
    case (Cons y ys)
    have "set (insert_by le x ys) = insert x (set ys)" by (metis mset_insert_by set_mset_add_mset_insert set_mset_mset)
    then show ?case using Cons assms(1)[of x y] assms(2)[of x y] by auto
  qed simp
  show ?thesis unfolding sort_by_def by (induction xs) (simp_all add: ins)
qed

lemma take_sorted_misses:
  assumes "sorted_wrt (\<lambda>a b. f a \<ge> (f b :: int)) xs" "r \<in> set (take m xs)"
  shows "length (filter (\<lambda>x. f x > f r) xs) < m"
proof -
  obtain i where i: "i < length xs" "i < m" "xs ! i = r" using assms(2) by (auto simp: in_set_conv_nth)
  have "xs = take i xs @ drop i xs" by simp
  moreover have "filter (\<lambda>x. f x > f r) (drop i xs) = []"
  proof -
    have "f x \<le> f r" if x: "x \<in> set (drop i xs)" for x
    proof -
      obtain j where j: "j < length xs - i" "x = xs ! (i + j)" using x by (auto simp: in_set_conv_nth)
      then show ?thesis using i assms(1) by (cases "j = 0") (auto simp: sorted_wrt_iff_nth_less)
    qed
    then show ?thesis by (fastforce simp: filter_empty_conv)
  qed
  ultimately have "length (filter (\<lambda>x. f x > f r) xs) = length (filter (\<lambda>x. f x > f r) (take i xs))"
    by (metis append_Nil2 filter_append)
  also have "\<dots> \<le> i" using length_filter_le[of _ "take i xs"] i(1) by (simp add: le_trans)
  finally show ?thesis using i(2) by simp
qed

lemma candidates_newest:
  assumes "distinct (map th_id threads)" "r \<in> set threads" "th_id r \<in> set (gc_candidates m threads)"
  shows "th_closed r" "length (filter (\<lambda>x. th_closed x \<and> th_created x > th_created r) threads) < m"
proof -
  let ?le = "\<lambda>a b. th_created a \<ge> th_created b"
  let ?xs = "sort_by ?le (filter th_closed threads)"
  obtain q where q: "q \<in> set (take m ?xs)" "th_id q = th_id r" using assms(3) by (auto simp: gc_candidates_def)
  then have "q \<in> set threads" "th_closed q" using in_set_takeD[OF q(1)] by auto
  then have "q = r" using assms(1,2) q(2) by (auto simp: distinct_map inj_on_def)
  then show "th_closed r" using \<open>th_closed q\<close> by simp
  have "sorted_wrt ?le ?xs" by (rule sorted_sort_by) auto
  from take_sorted_misses[OF this] have "length (filter (\<lambda>x. th_created x > th_created r) ?xs) < m"
    using q(1) \<open>q = r\<close> by blast
  moreover have "length (filter P ?xs) = length (filter P (filter th_closed threads))" for P
    by (metis mset_filter mset_sort_by size_mset)
  ultimately show "length (filter (\<lambda>x. th_closed x \<and> th_created x > th_created r) threads) < m"
    by (simp add: conj_commute)
qed

definition sweep_step ::
  "(string \<Rightarrow> string list option) \<Rightarrow> (string \<Rightarrow> volume_reply) \<Rightarrow> int \<Rightarrow> string \<Rightarrow>
   volume_gc \<times> (string \<times> sweep_outcome) list \<Rightarrow> volume_gc \<times> (string \<times> sweep_outcome) list" where
  "sweep_step users remove now t = (\<lambda>(g, out). case handle_thread users remove now t g of (g', o') \<Rightarrow> (g', out @ [(t, o')]))"

definition outcome_ok :: "(string \<Rightarrow> string list option) \<Rightarrow> (string \<Rightarrow> volume_reply) \<Rightarrow> string \<times> sweep_outcome \<Rightarrow> bool" where
  "outcome_ok users remove x \<longleftrightarrow> snd x = Cooldown \<or> snd x = remove_unused users remove (volume_name (fst x))"

lemma sweep_outcomes:
  "fold (sweep_step users remove now) ts (g, out) = (g', out') \<Longrightarrow>
   vg_max g' = vg_max g \<and> fst ` set out' = fst ` set out \<union> set ts
   \<and> (\<forall>x \<in> set out'. x \<in> set out \<or> outcome_ok users remove x)"
proof (induction ts arbitrary: g out)
  case (Cons t ts)
  obtain g1 oc where h: "handle_thread users remove now t g = (g1, oc)" by fastforce
  have h': "outcome_ok users remove (t, oc)" "vg_max g1 = vg_max g"
    using h by (auto simp: handle_thread_def outcome_ok_def split: if_splits)
  have "sweep_step users remove now t (g, out) = (g1, out @ [(t, oc)])" using h by (simp add: sweep_step_def)
  then have "fold (sweep_step users remove now) ts (g1, out @ [(t, oc)]) = (g', out')" using Cons.prems by simp
  from Cons.IH[OF this] h' show ?case by auto
qed auto

lemma volume_sweep_spec:
  assumes "volume_sweep users remove up now threads g = (g', out)"
  shows "vg_max g' = vg_max g" "fst ` set out \<subseteq> set (gc_candidates (vg_max g) threads)"
    "\<forall>x \<in> set out. outcome_ok users remove x"
proof -
  have "(g', out) = (g, []) \<or> fold (sweep_step users remove now) (gc_candidates (vg_max g) threads) (g, []) = (g', out)"
    using assms unfolding volume_sweep_def sweep_step_def by (auto split: if_splits)
  then have "vg_max g' = vg_max g \<and> fst ` set out \<subseteq> set (gc_candidates (vg_max g) threads) \<and> (\<forall>x \<in> set out. outcome_ok users remove x)"
  proof
    assume "fold (sweep_step users remove now) (gc_candidates (vg_max g) threads) (g, []) = (g', out)"
    from sweep_outcomes[OF this] show ?thesis by simp
  qed simp
  then show "vg_max g' = vg_max g" "fst ` set out \<subseteq> set (gc_candidates (vg_max g) threads)"
    "\<forall>x \<in> set out. outcome_ok users remove x" by blast+
qed

text \<open>
  A sweep of the volumes removes a workspace volume only if its thread is closed and no container
  uses it.
\<close>

theorem gc_removes_only_unused:
  assumes "(t, Removed) \<in> set (snd (volume_sweep users remove up now threads g))"
  shows "(\<exists>r \<in> set threads. th_id r = t \<and> th_closed r) \<and> users (volume_name t) = Some [] \<and> remove (volume_name t) = Volume_removed"
proof -
  obtain g' out where s: "volume_sweep users remove up now threads g = (g', out)" by fastforce
  then have m: "(t, Removed) \<in> set out" using assms by simp
  then have "t \<in> set (gc_candidates (vg_max g) threads)" using volume_sweep_spec(2)[OF s] by force
  then obtain r where "r \<in> set threads" "th_id r = t" "th_closed r"
    by (auto simp: gc_candidates_def dest!: in_set_takeD)
  moreover have "Removed = remove_unused users remove (volume_name t)"
    using bspec[OF volume_sweep_spec(3)[OF s] m] by (simp add: outcome_ok_def)
  ultimately show ?thesis by (auto simp: remove_unused_def split: option.splits if_splits volume_reply.splits)
qed

theorem gc_removes_only_unused_witness:
  "let threads = [\<lparr>th_id = ''a'', th_parent = None, th_closed = True, th_created = 1\<rparr>];
       g = \<lparr>vg_enabled = True, vg_max = 1, vg_cooldown = 60, vg_last = []\<rparr>
   in (\<exists>r \<in> set threads. th_id r = ''a'' \<and> th_closed r)"
proof -
  have "(''a'', Removed) \<in> set (snd (volume_sweep (\<lambda>v. Some []) (\<lambda>v. Volume_removed) True 5
      [\<lparr>th_id = ''a'', th_parent = None, th_closed = True, th_created = 1\<rparr>]
      \<lparr>vg_enabled = True, vg_max = 1, vg_cooldown = 60, vg_last = []\<rparr>))" by code_simp
  from gc_removes_only_unused[OF this] show ?thesis by (simp add: Let_def)
qed

text \<open>
  C40. The sweep takes the newest closed threads every time: a closed thread with as many newer ones as a
  sweep takes is never reached, however often the sweep runs, and its volume stays.
\<close>

theorem gc_starves_old_threads:
  assumes "\<forall>(users, remove, up, now, threads) \<in> set runs. distinct (map th_id threads) \<and> r \<in> set threads
    \<and> vg_max g \<le> length (filter (\<lambda>x. th_closed x \<and> th_created x > th_created r) threads)"
  shows "th_id r \<notin> fst ` set (snd (volume_sweeps runs g))"
proof -
  let ?f = "\<lambda>(users, remove, up, now, threads) (g, out). case volume_sweep users remove up now threads g of (g', o') \<Rightarrow> (g', out @ o')"
  have "th_id r \<notin> fst ` set (snd (fold ?f runs (h, out)))"
    if "vg_max h = vg_max g" "th_id r \<notin> fst ` set out" for h out
    using assms that
  proof (induction runs arbitrary: h out)
    case (Cons x runs)
    obtain users remove up now threads where x: "x = (users, remove, up, now, threads)" by (cases x)
    obtain h' o' where s: "volume_sweep users remove up now threads h = (h', o')" by fastforce
    have p: "distinct (map th_id threads)" "r \<in> set threads"
        "vg_max h \<le> length (filter (\<lambda>x. th_closed x \<and> th_created x > th_created r) threads)"
      using Cons.prems(1,2) by (auto simp: x)
    have "th_id r \<notin> set (gc_candidates (vg_max h) threads)" using candidates_newest(2)[OF p(1,2)] p(3) by fastforce
    then have "th_id r \<notin> fst ` set o'" using volume_sweep_spec(2)[OF s] by blast
    then have "th_id r \<notin> fst ` set (snd (fold ?f runs (h', out @ o')))"
      using Cons volume_sweep_spec(1)[OF s] by (intro Cons.IH) auto
    then show ?case using s by (simp add: x)
  qed simp
  from this[of g "[]"] show ?thesis by (simp add: volume_sweeps_def)
qed

text \<open>A sweep of one thread at a time, three times, with an older closed thread.\<close>

definition old_and_new :: "thread_row list" where
  "old_and_new = [\<lparr>th_id = ''old'', th_parent = None, th_closed = True, th_created = 1\<rparr>,
     \<lparr>th_id = ''new'', th_parent = None, th_closed = True, th_created = 2\<rparr>]"

theorem gc_starves_old_threads_witness:
  "''old'' \<notin> fst ` set (snd (volume_sweeps
     (map (\<lambda>now. (\<lambda>v. Some [], \<lambda>v. Volume_removed, True, now, old_and_new)) [0, 100, 200])
     \<lparr>vg_enabled = True, vg_max = 1, vg_cooldown = 60, vg_last = []\<rparr>))"
  using gc_starves_old_threads[of "map (\<lambda>now. (\<lambda>v. Some [], \<lambda>v. Volume_removed, True, now, old_and_new)) [0, 100, 200]"
      "hd old_and_new" "\<lparr>vg_enabled = True, vg_max = 1, vg_cooldown = 60, vg_last = []\<rparr>"]
  by (simp add: old_and_new_def)

section \<open>A tree of threads closed\<close>

definition small_world :: cleanup_world where
  "small_world =
     \<lparr>cw_threads = [\<lparr>th_id = ''p'', th_parent = None, th_closed = False, th_created = 1\<rparr>,
        \<lparr>th_id = ''c'', th_parent = Some ''p'', th_closed = False, th_created = 2\<rparr>],
      cw_runs = [\<lparr>rn_id = ''r'', rn_thread = ''c'', rn_running = True\<rparr>],
      cw_signals = \<lparr>rs_active = [], rs_entries = []\<rparr>,
      cw_reminders = ([], []),
      cw_containers = sample_containers,
      cw_volumes = [''ha_ws_c'', ''ha_ws_x'']\<rparr>"

definition small_env :: cleanup_env where
  "small_env = \<lparr>cl_sweep = sample_sweep, cl_labelled = (\<lambda>t. []), cl_volume_users = (\<lambda>v. Some []),
     cl_volume_removed = (\<lambda>v. True), cl_reminders_ok = True\<rparr>"

theorem children_are_cleaned_first_witness:
  "\<exists>nodes. collect_thread_nodes 3 (cw_threads small_world) ''p'' = Some nodes
    \<and> sorted_wrt (\<lambda>a b. th_parent b \<noteq> Some (th_id a)) nodes"
proof -
  let ?rank = "\<lambda>t. if t = ''p'' then 0 else 1 :: nat"
  have "threads_ok ?rank (cw_threads small_world)" "\<And>r. r \<in> set (cw_threads small_world) \<Longrightarrow> ?rank (th_id r) < 2"
    "''p'' \<in> th_id ` set (cw_threads small_world)" by (auto simp: small_world_def threads_ok_def)
  from children_are_cleaned_first[OF this] show ?thesis by (auto simp: numeral_3_eq_3)
qed


end
