(* ===== verification/Graph_Files.thy ===== *)
theory Graph_Files
  imports JsString Json
begin

text \<open>
  The file-based graph repository, \<^verbatim>\<open>graph/fsGraph.repository.ts\<close>, and the validation of graphs,
  \<^verbatim>\<open>graph/graphSchema.validator.ts\<close>.

  A working tree is a directory with a meta file, one file per node and per edge, a variables file and
  possibly a \<^verbatim>\<open>.git\<close> directory; a file holds the data that \<open>stringifyYaml\<close> wrote and \<open>parseYaml\<close> reads
  back, or \<^const>\<open>None\<close> when it cannot be read.  Around the root there are backup and staging
  directories.  Renaming a directory is atomic; \<open>encodeURIComponent\<close> and its inverse are arguments.
  What the file system answers is an argument too: \<open>swap_faults\<close> says which operations fail.
\<close>

section \<open>Graphs\<close>

record graph_node =
  gn_id :: string
  gn_template :: string
  gn_config :: "json option"
  gn_state :: "json option"
  gn_position :: "json option"

record graph_edge =
  ge_id :: "string option"
  ge_source :: string
  ge_source_handle :: string
  ge_target :: string
  ge_target_handle :: string

type_synonym graph_variables = "(string \<times> string) list"

record stored_graph =
  sg_name :: string
  sg_version :: int
  sg_updated :: string
  sg_nodes :: "graph_node list"
  sg_edges :: "graph_edge list"
  sg_variables :: "graph_variables option"

record graph_request =
  gr_name :: string
  gr_version :: "int option"
  gr_nodes :: "graph_node list"
  gr_edges :: "graph_edge list"
  gr_variables :: "graph_variables option"

record node_schema =
  sc_name :: string
  sc_source_ports :: "string list"
  sc_target_ports :: "string list"

datatype invalid_graph =
    Node_missing_id
  | Duplicate_node string
  | Unknown_template string
  | Edge_source_missing string
  | Edge_target_missing string
  | Invalid_source_handle string string
  | Invalid_target_handle string string
  | Variable_missing_key
  | Variable_missing_value string
  | Duplicate_variable string

section \<open>Validation\<close>

fun check_nodes :: "node_schema list \<Rightarrow> graph_node list \<Rightarrow> string list \<Rightarrow> invalid_graph + string list" where
  "check_nodes schema [] seen = Inr seen"
| "check_nodes schema (n # ns) seen =
     (if gn_id n = [] then Inl Node_missing_id
      else if gn_id n \<in> set seen then Inl (Duplicate_node (gn_id n))
      else if gn_template n \<notin> sc_name ` set schema then Inl (Unknown_template (gn_template n))
      else check_nodes schema ns (set_add (gn_id n) seen))"

text \<open>\<open>new Map(schema.map((s) => [s.name, s]))\<close>, and the template of the first node with an identifier.\<close>

definition schema_of :: "node_schema list \<Rightarrow> graph_node list \<Rightarrow> string \<Rightarrow> node_schema option" where
  "schema_of schema ns i =
     Option.bind (find (\<lambda>n. gn_id n = i) ns) (\<lambda>n. map_of (index_by sc_name schema) (gn_template n))"

definition template_of :: "graph_node list \<Rightarrow> string \<Rightarrow> string" where
  "template_of ns i = (case find (\<lambda>n. gn_id n = i) ns of None \<Rightarrow> [] | Some n \<Rightarrow> gn_template n)"

fun check_edges :: "node_schema list \<Rightarrow> graph_node list \<Rightarrow> string list \<Rightarrow> graph_edge list \<Rightarrow> invalid_graph + unit" where
  "check_edges schema ns ids [] = Inr ()"
| "check_edges schema ns ids (e # es) =
     (if ge_source e \<notin> set ids then Inl (Edge_source_missing (ge_source e))
      else if ge_target e \<notin> set ids then Inl (Edge_target_missing (ge_target e))
      else
        (case (schema_of schema ns (ge_source e), schema_of schema ns (ge_target e)) of
           (Some src, Some tgt) \<Rightarrow>
             if ge_source_handle e \<notin> set (sc_source_ports src)
             then Inl (Invalid_source_handle (ge_source_handle e) (template_of ns (ge_source e)))
             else if ge_target_handle e \<notin> set (sc_target_ports tgt)
             then Inl (Invalid_target_handle (ge_target_handle e) (template_of ns (ge_target e)))
             else check_edges schema ns ids es
         | _ \<Rightarrow> Inl (Unknown_template [])))"

fun check_variables :: "graph_variables \<Rightarrow> string list \<Rightarrow> invalid_graph + unit" where
  "check_variables [] seen = Inr ()"
| "check_variables ((k, v) # vs) seen =
     (if js_trim k = [] then Inl Variable_missing_key
      else if js_trim v = [] then Inl (Variable_missing_value (js_trim k))
      else if js_trim k \<in> set seen then Inl (Duplicate_variable (js_trim k))
      else check_variables vs (set_add (js_trim k) seen))"

definition validate_graph :: "node_schema list \<Rightarrow> graph_request \<Rightarrow> invalid_graph + unit" where
  "validate_graph schema req =
     (case check_nodes schema (gr_nodes req) [] of
        Inl e \<Rightarrow> Inl e
      | Inr ids \<Rightarrow>
          (case check_edges schema (gr_nodes req) ids (gr_edges req) of
             Inl e \<Rightarrow> Inl e
           | Inr u \<Rightarrow> (case gr_variables req of None \<Rightarrow> Inr () | Some vs \<Rightarrow> check_variables vs [])))"

section \<open>Files\<close>

record graph_meta =
  gm_name :: "string option"
  gm_version :: "int option"
  gm_updated :: "string option"

record graph_tree =
  ft_meta :: "graph_meta option"
  ft_nodes :: "(string \<times> graph_node option) list"
  ft_edges :: "(string \<times> graph_edge option) list"
  ft_variables :: "graph_variables option"
  ft_git :: bool

record graph_fs =
  fs_root :: "graph_tree option"
  fs_backups :: "(nat \<times> int \<times> graph_tree) list"
  fs_staging :: "(nat \<times> graph_tree) list"

definition empty_tree :: graph_tree where
  "empty_tree = \<lparr>ft_meta = None, ft_nodes = [], ft_edges = [], ft_variables = None, ft_git = False\<rparr>"

definition edge_id :: "graph_edge \<Rightarrow> string" where
  "edge_id e = ge_source e @ ''-'' @ ge_source_handle e @ ''__'' @ ge_target e @ ''-'' @ ge_target_handle e"

definition yaml_name :: "(string \<Rightarrow> string) \<Rightarrow> string \<Rightarrow> string" where
  "yaml_name enc i = enc i @ ''.yaml''"

text \<open>Writing a file replaces the one with its name.\<close>

definition write_nodes :: "(string \<Rightarrow> string) \<Rightarrow> graph_node list \<Rightarrow> (string \<times> graph_node option) list" where
  "write_nodes enc ns = fold (\<lambda>n. AList.update (yaml_name enc (gn_id n)) (Some n)) ns []"

definition write_edges :: "(string \<Rightarrow> string) \<Rightarrow> graph_edge list \<Rightarrow> (string \<times> graph_edge option) list" where
  "write_edges enc es =
     fold (\<lambda>e. AList.update (yaml_name enc (case ge_id e of None \<Rightarrow> [] | Some i \<Rightarrow> i)) (Some e)) es []"

definition create_staging_tree :: "(string \<Rightarrow> string) \<Rightarrow> stored_graph \<Rightarrow> graph_tree" where
  "create_staging_tree enc g =
     \<lparr>ft_meta = Some \<lparr>gm_name = Some (sg_name g), gm_version = Some (sg_version g), gm_updated = Some (sg_updated g)\<rparr>,
      ft_nodes = write_nodes enc (sg_nodes g), ft_edges = write_edges enc (sg_edges g),
      ft_variables = Some (case sg_variables g of None \<Rightarrow> [] | Some vs \<Rightarrow> vs), ft_git = False\<rparr>"

section \<open>Reading\<close>

definition is_yaml :: "string \<Rightarrow> bool" where
  "is_yaml f \<longleftrightarrow> length f \<ge> 5 \<and> drop (length f - 5) f = ''.yaml''"

definition base_name :: "string \<Rightarrow> string" where
  "base_name f = take (length f - 5) f"

text \<open>
  \<^const>\<open>None\<close> when some file cannot be read, or its name cannot be decoded; files of other kinds are
  skipped.  The list is in the order in which the directory is listed.
\<close>

fun read_nodes :: "(string \<Rightarrow> string option) \<Rightarrow> (string \<times> graph_node option) list \<Rightarrow> graph_node list option" where
  "read_nodes dec [] = Some []"
| "read_nodes dec ((f, c) # fs) =
     (if \<not> is_yaml f then read_nodes dec fs
      else
        (case (c, dec (base_name f), read_nodes dec fs) of
           (Some n, Some i, Some ns) \<Rightarrow> Some ((if gn_id n = [] then n\<lparr>gn_id := i\<rparr> else n) # ns)
         | _ \<Rightarrow> None))"

fun read_edges :: "(string \<Rightarrow> string option) \<Rightarrow> (string \<times> graph_edge option) list \<Rightarrow> graph_edge list option" where
  "read_edges dec [] = Some []"
| "read_edges dec ((f, c) # fs) =
     (if \<not> is_yaml f then read_edges dec fs
      else
        (case (c, dec (base_name f), read_edges dec fs) of
           (Some e, Some i, Some es) \<Rightarrow>
             Some ((if ge_id e = None \<or> ge_id e = Some [] then e\<lparr>ge_id := Some i\<rparr> else e) # es)
         | _ \<Rightarrow> None))"

definition normalize_variables :: "graph_variables \<Rightarrow> graph_variables option" where
  "normalize_variables raw = (let out = filter (\<lambda>(k, v). k \<noteq> []) raw in if out = [] then None else Some out)"

datatype read_result = No_graph | Read_error | Graph_read stored_graph

definition read_tree :: "(string \<Rightarrow> string option) \<Rightarrow> string \<Rightarrow> string \<Rightarrow> graph_tree option \<Rightarrow> read_result" where
  "read_tree dec now name root =
     (case root of
        None \<Rightarrow> No_graph
      | Some t \<Rightarrow>
          (case ft_meta t of
             None \<Rightarrow> No_graph
           | Some m \<Rightarrow>
               (case (read_nodes dec (ft_nodes t), read_edges dec (ft_edges t)) of
                  (Some ns, Some es) \<Rightarrow>
                    Graph_read \<lparr>sg_name = (case gm_name m of None \<Rightarrow> name | Some n \<Rightarrow> n),
                      sg_version = (case gm_version m of None \<Rightarrow> 0 | Some v \<Rightarrow> v),
                      sg_updated = (case gm_updated m of None \<Rightarrow> now | Some u \<Rightarrow> u),
                      sg_nodes = ns, sg_edges = es,
                      sg_variables = Option.bind (ft_variables t) normalize_variables\<rparr>
                | _ \<Rightarrow> Read_error)))"

section \<open>Swapping trees\<close>

text \<open>
  The steps of \<open>swapWorkingTree\<close> one by one, each the state it leaves behind; a crash can happen after
  any of them.  \<open>uid\<close> names the staging and the backup directory.
\<close>

record swap_faults =
  sf_prepare :: bool
  sf_backup :: bool
  sf_activate :: bool
  sf_undo :: bool
  sf_git :: bool

definition mkstaging :: "nat \<Rightarrow> graph_tree \<Rightarrow> graph_fs \<Rightarrow> graph_fs" where
  "mkstaging uid t f = f\<lparr>fs_staging := (uid, t) # fs_staging f\<rparr>"

definition root_to_backup :: "nat \<Rightarrow> int \<Rightarrow> graph_fs \<Rightarrow> graph_fs" where
  "root_to_backup uid mtime f =
     (case fs_root f of
        None \<Rightarrow> f
      | Some t \<Rightarrow> f\<lparr>fs_root := None, fs_backups := (uid, mtime, t) # fs_backups f\<rparr>)"

definition staging_to_root :: "nat \<Rightarrow> graph_fs \<Rightarrow> graph_fs" where
  "staging_to_root uid f =
     (case map_of (fs_staging f) uid of
        None \<Rightarrow> f
      | Some t \<Rightarrow> f\<lparr>fs_root := Some t, fs_staging := AList.delete uid (fs_staging f)\<rparr>)"

definition backup_to_root :: "nat \<Rightarrow> graph_fs \<Rightarrow> graph_fs" where
  "backup_to_root uid f =
     (case map_of (fs_backups f) uid of
        None \<Rightarrow> f
      | Some (mtime, t) \<Rightarrow> f\<lparr>fs_root := Some t, fs_backups := AList.delete uid (fs_backups f)\<rparr>)"

definition restore_git :: "nat \<Rightarrow> bool \<Rightarrow> graph_fs \<Rightarrow> graph_fs" where
  "restore_git uid fails f =
     (case (map_of (fs_backups f) uid, fs_root f) of
        (Some (mtime, t), Some r) \<Rightarrow>
          if ft_git t then
            (if fails then f\<lparr>fs_root := Some (r\<lparr>ft_git := False\<rparr>)\<rparr>
             else f\<lparr>fs_root := Some (r\<lparr>ft_git := True\<rparr>),
                    fs_backups := AList.update uid (mtime, t\<lparr>ft_git := False\<rparr>) (fs_backups f)\<rparr>)
          else f
      | _ \<Rightarrow> f)"

definition discard :: "nat \<Rightarrow> graph_fs \<Rightarrow> graph_fs" where
  "discard uid f = f\<lparr>fs_staging := AList.delete uid (fs_staging f), fs_backups := AList.delete uid (fs_backups f)\<rparr>"

definition discard_staging :: "nat \<Rightarrow> graph_fs \<Rightarrow> graph_fs" where
  "discard_staging uid f = f\<lparr>fs_staging := AList.delete uid (fs_staging f)\<rparr>"

text \<open>The states along the way, the last one first.\<close>

definition swap_states :: "nat \<Rightarrow> int \<Rightarrow> swap_faults \<Rightarrow> graph_fs \<Rightarrow> graph_fs list \<times> bool" where
  "swap_states uid mtime sf f0 =
     (if sf_prepare sf \<or> sf_backup sf \<or> fs_root f0 = None
      then ([discard uid f0, discard_staging uid f0, f0], False)
      else
        (let f1 = root_to_backup uid mtime f0
         in if sf_activate sf
            then
              (let f2 = (if sf_undo sf then f1 else backup_to_root uid f1)
               in ([discard uid f2, discard_staging uid f2, f2, f1, f0], False))
            else
              (let f2 = staging_to_root uid f1; f3 = restore_git uid (sf_git sf) f2
               in ([discard uid f3, discard_staging uid f3, f3, f2, f1, f0], True))))"

definition swap_working_tree :: "nat \<Rightarrow> int \<Rightarrow> swap_faults \<Rightarrow> graph_fs \<Rightarrow> graph_fs \<times> bool" where
  "swap_working_tree uid mtime sf f = (case swap_states uid mtime sf f of (states, ok) \<Rightarrow> (hd states, ok))"

text \<open>\<open>initIfNeeded\<close>: what a start of the server makes of the directories it finds.\<close>

fun newest :: "(nat \<times> int \<times> graph_tree) list \<Rightarrow> (nat \<times> int \<times> graph_tree) option" where
  "newest [] = None"
| "newest (b # bs) =
     (case newest bs of
        None \<Rightarrow> Some b
      | Some c \<Rightarrow> if fst (snd c) > fst (snd b) then Some c else Some b)"

definition cleanup_artifacts :: "graph_fs \<Rightarrow> graph_fs" where
  "cleanup_artifacts f =
     (let f1 = (case fs_root f of
                  Some t \<Rightarrow> f
                | None \<Rightarrow> (case newest (fs_backups f) of None \<Rightarrow> f | Some (uid, mtime, t) \<Rightarrow> f\<lparr>fs_root := Some t\<rparr>))
      in f1\<lparr>fs_backups := [], fs_staging := []\<rparr>)"

definition init_if_needed :: "string \<Rightarrow> graph_fs \<Rightarrow> graph_fs" where
  "init_if_needed now f =
     (let f1 = cleanup_artifacts f;
          t = (case fs_root f1 of None \<Rightarrow> empty_tree | Some t \<Rightarrow> t);
          t1 = (case ft_meta t of
                  Some m \<Rightarrow> t
                | None \<Rightarrow> t\<lparr>ft_meta := Some \<lparr>gm_name = Some ''main'', gm_version = Some 0, gm_updated = Some now\<rparr>\<rparr>)
      in f1\<lparr>fs_root := Some t1\<rparr>)"

section \<open>Storing a graph\<close>

datatype graph_store_error =
    Invalid invalid_graph
  | Lock_timeout
  | Lock_failed
  | Unreadable
  | Version_conflict stored_graph
  | Edge_id_mismatch string string
  | Persist_failed

datatype lock_attempt = Created | Lock_exists int | Open_failed

text \<open>\<^const>\<open>None\<close>: still waiting after these attempts.\<close>

fun acquire_lock :: "int \<Rightarrow> lock_attempt list \<Rightarrow> (graph_store_error + unit) option" where
  "acquire_lock timeout [] = None"
| "acquire_lock timeout (Created # rest) = Some (Inr ())"
| "acquire_lock timeout (Open_failed # rest) = Some (Inl Lock_failed)"
| "acquire_lock timeout (Lock_exists elapsed # rest) =
     (if elapsed > timeout then Some (Inl Lock_timeout) else acquire_lock timeout rest)"

fun strip_edges :: "graph_edge list \<Rightarrow> graph_store_error + graph_edge list" where
  "strip_edges [] = Inr []"
| "strip_edges (e # es) =
     (case ge_id e of
        Some i \<Rightarrow>
          if i \<noteq> [] \<and> i \<noteq> edge_id e then Inl (Edge_id_mismatch (edge_id e) i)
          else (case strip_edges es of Inl err \<Rightarrow> Inl err | Inr es' \<Rightarrow> Inr (e\<lparr>ge_id := Some (edge_id e)\<rparr> # es'))
      | None \<Rightarrow> (case strip_edges es of Inl err \<Rightarrow> Inl err | Inr es' \<Rightarrow> Inr (e\<lparr>ge_id := Some (edge_id e)\<rparr> # es')))"

definition keep_state :: "stored_graph option \<Rightarrow> graph_node \<Rightarrow> graph_node" where
  "keep_state existing n =
     (case (gn_state n, existing) of
        (None, Some g) \<Rightarrow>
          (case find (\<lambda>p. gn_id p = gn_id n) (sg_nodes g) of
             Some p \<Rightarrow> if gn_state p \<noteq> None then n\<lparr>gn_state := gn_state p\<rparr> else n
           | None \<Rightarrow> n)
      | _ \<Rightarrow> n)"

definition empty_graph :: "string \<Rightarrow> string \<Rightarrow> stored_graph" where
  "empty_graph name now =
     \<lparr>sg_name = name, sg_version = 0, sg_updated = now, sg_nodes = [], sg_edges = [], sg_variables = Some []\<rparr>"

definition graph_target :: "stored_graph option \<Rightarrow> graph_request \<Rightarrow> string \<Rightarrow> graph_store_error + stored_graph" where
  "graph_target existing req now =
     (let current = (case existing of None \<Rightarrow> empty_graph (gr_name req) now | Some g \<Rightarrow> g);
          conflict = (case existing of
                        None \<Rightarrow> gr_version req \<noteq> None \<and> gr_version req \<noteq> Some 0
                      | Some g \<Rightarrow> gr_version req \<noteq> None \<and> gr_version req \<noteq> Some (sg_version g))
      in if conflict
         then Inl (Version_conflict
                (case existing of None \<Rightarrow> (empty_graph (gr_name req) now)\<lparr>sg_variables := None\<rparr> | Some g \<Rightarrow> g))
         else
           (case strip_edges (gr_edges req) of
              Inl e \<Rightarrow> Inl e
            | Inr es \<Rightarrow>
                Inr \<lparr>sg_name = gr_name req, sg_version = sg_version current + 1, sg_updated = now,
                  sg_nodes = map (keep_state existing) (gr_nodes req), sg_edges = es,
                  sg_variables = (case gr_variables req of None \<Rightarrow> sg_variables current | Some vs \<Rightarrow> Some vs)\<rparr>))"

text \<open>The best-effort rollback writes the old graph into whatever root there is.\<close>

definition restore_working_tree :: "(string \<Rightarrow> string) \<Rightarrow> string \<Rightarrow> stored_graph option \<Rightarrow> graph_fs \<Rightarrow> graph_fs" where
  "restore_working_tree enc now existing f =
     (let git = (case fs_root f of None \<Rightarrow> False | Some t \<Rightarrow> ft_git t);
          g = (case existing of
                 None \<Rightarrow> \<lparr>sg_name = ''main'', sg_version = 0, sg_updated = now, sg_nodes = [], sg_edges = [], sg_variables = None\<rparr>
               | Some g \<Rightarrow> g)
      in f\<lparr>fs_root := Some ((create_staging_tree enc g)\<lparr>ft_git := git\<rparr>)\<rparr>)"

definition persist_graph :: "(string \<Rightarrow> string) \<Rightarrow> nat \<Rightarrow> int \<Rightarrow> swap_faults \<Rightarrow> stored_graph \<Rightarrow> graph_fs \<Rightarrow> graph_fs \<times> bool" where
  "persist_graph enc uid mtime sf g f = swap_working_tree uid mtime sf (mkstaging uid (create_staging_tree enc g) f)"

record store_env =
  se_enc :: "string \<Rightarrow> string"
  se_dec :: "string \<Rightarrow> string option"
  se_schema :: "node_schema list"
  se_now :: string
  se_uid :: nat
  se_mtime :: int
  se_faults :: swap_faults

definition upsert_locked :: "store_env \<Rightarrow> graph_request \<Rightarrow> graph_fs \<Rightarrow> graph_fs \<times> (graph_store_error + stored_graph)" where
  "upsert_locked e req f =
     (let upsert = (\<lambda>existing.
            (case graph_target existing req (se_now e) of
               Inl err \<Rightarrow> (f, Inl err)
             | Inr target \<Rightarrow>
                 (case persist_graph (se_enc e) (se_uid e) (se_mtime e) (se_faults e) target f of
                    (f1, True) \<Rightarrow> (f1, Inr target)
                  | (f1, False) \<Rightarrow> (restore_working_tree (se_enc e) (se_now e) existing f1, Inl Persist_failed))))
      in case read_tree (se_dec e) (se_now e) (gr_name req) (fs_root f) of
           Read_error \<Rightarrow> (f, Inl Unreadable)
         | No_graph \<Rightarrow> upsert None
         | Graph_read g \<Rightarrow> upsert (Some g))"

definition upsert_graph ::
  "store_env \<Rightarrow> int \<Rightarrow> lock_attempt list \<Rightarrow> graph_request \<Rightarrow> graph_fs \<Rightarrow> (graph_fs \<times> (graph_store_error + stored_graph)) option" where
  "upsert_graph e timeout attempts req f =
     (case validate_graph (se_schema e) req of
        Inl err \<Rightarrow> Some (f, Inl (Invalid err))
      | Inr u \<Rightarrow>
          (case acquire_lock timeout attempts of
             None \<Rightarrow> None
           | Some (Inl err) \<Rightarrow> Some (f, Inl err)
           | Some (Inr l) \<Rightarrow> Some (upsert_locked e req f)))"

definition upsert_node_state ::
  "store_env \<Rightarrow> int \<Rightarrow> lock_attempt list \<Rightarrow> string \<Rightarrow> string \<Rightarrow> json \<Rightarrow> graph_fs \<Rightarrow>
   (graph_fs \<times> (graph_store_error + stored_graph)) option" where
  "upsert_node_state e timeout attempts name node patch f =
     (let store = (\<lambda>g. upsert_graph e timeout attempts
            \<lparr>gr_name = name, gr_version = Some (sg_version g),
             gr_nodes = (if node \<in> gn_id ` set (sg_nodes g)
               then (let pre = takeWhile (\<lambda>n. gn_id n \<noteq> node) (sg_nodes g); rest = dropWhile (\<lambda>n. gn_id n \<noteq> node) (sg_nodes g)
                     in pre @ (hd rest)\<lparr>gn_state := Some patch\<rparr> # tl rest)
               else sg_nodes g @ [\<lparr>gn_id = node, gn_template = ''unknown'', gn_config = None, gn_state = Some patch, gn_position = None\<rparr>]),
             gr_edges = sg_edges g, gr_variables = None\<rparr> f)
      in case read_tree (se_dec e) (se_now e) name (fs_root f) of
           Read_error \<Rightarrow> Some (f, Inl Unreadable)
         | No_graph \<Rightarrow> store (empty_graph name (se_now e))
         | Graph_read g \<Rightarrow> store g)"

section \<open>Valid graphs\<close>

text \<open>What the validator accepts, said without its loops.\<close>

definition valid_nodes :: "node_schema list \<Rightarrow> graph_node list \<Rightarrow> bool" where
  "valid_nodes schema ns \<longleftrightarrow>
     distinct (map gn_id ns) \<and> list_all (\<lambda>n. gn_id n \<noteq> [] \<and> gn_template n \<in> sc_name ` set schema) ns"

definition port_exists :: "(node_schema \<Rightarrow> string list) \<Rightarrow> node_schema list \<Rightarrow> graph_node list \<Rightarrow> string \<Rightarrow> string \<Rightarrow> bool" where
  "port_exists ports schema ns i handle \<longleftrightarrow>
     list_ex (\<lambda>n. gn_id n = i \<and> (case map_of (index_by sc_name schema) (gn_template n) of
        None \<Rightarrow> False | Some s \<Rightarrow> handle \<in> set (ports s))) ns"

definition valid_edge :: "node_schema list \<Rightarrow> graph_node list \<Rightarrow> graph_edge \<Rightarrow> bool" where
  "valid_edge schema ns e \<longleftrightarrow>
     port_exists sc_source_ports schema ns (ge_source e) (ge_source_handle e) \<and>
     port_exists sc_target_ports schema ns (ge_target e) (ge_target_handle e)"

definition valid_variables :: "graph_variables \<Rightarrow> bool" where
  "valid_variables vs \<longleftrightarrow>
     distinct (map (js_trim \<circ> fst) vs) \<and> list_all (\<lambda>(k, v). js_trim k \<noteq> [] \<and> js_trim v \<noteq> []) vs"

definition valid_graph :: "node_schema list \<Rightarrow> graph_request \<Rightarrow> bool" where
  "valid_graph schema req \<longleftrightarrow>
     valid_nodes schema (gr_nodes req) \<and> list_all (valid_edge schema (gr_nodes req)) (gr_edges req) \<and>
     (case gr_variables req of None \<Rightarrow> True | Some vs \<Rightarrow> valid_variables vs)"

lemma check_nodes_Inr:
  "check_nodes schema ns seen = Inr ids \<longleftrightarrow>
     valid_nodes schema ns \<and> set (map gn_id ns) \<inter> set seen = {} \<and> ids = seen @ map gn_id ns"
proof (induction ns arbitrary: seen)
  case (Cons n ns)
  show ?case
  proof (cases "gn_id n = [] \<or> gn_id n \<in> set seen \<or> gn_template n \<notin> sc_name ` set schema")
    case True
    then show ?thesis by (auto simp: valid_nodes_def)
  next
    case False
    then have "check_nodes schema (n # ns) seen = check_nodes schema ns (set_add (gn_id n) seen)" by simp
    moreover have "set_add (gn_id n) seen = seen @ [gn_id n]" using False by (simp add: set_add_def)
    ultimately show ?thesis using Cons.IH[of "seen @ [gn_id n]"] False by (auto simp: valid_nodes_def)
  qed
qed (auto simp: valid_nodes_def)

lemma schema_of_port:
  assumes "distinct (map gn_id ns)"
  shows "port_exists ports schema ns i h \<longleftrightarrow>
    (case schema_of schema ns i of None \<Rightarrow> False | Some s \<Rightarrow> h \<in> set (ports s))"
proof (cases "find (\<lambda>n. gn_id n = i) ns")
  case None
  then have "\<forall>n \<in> set ns. gn_id n \<noteq> i" by (auto simp: find_None_iff)
  then show ?thesis using None by (auto simp: schema_of_def port_exists_def list_ex_iff)
next
  case (Some n)
  have n: "n \<in> set ns" "gn_id n = i" using Some by (auto simp: find_Some_iff)
  have u: "m = n" if "m \<in> set ns" "gn_id m = i" for m
    using assms n that by (metis distinct_map inj_onD)
  let ?Q = "\<lambda>m. case map_of (index_by sc_name schema) (gn_template m) of None \<Rightarrow> False | Some s \<Rightarrow> h \<in> set (ports s)"
  have "port_exists ports schema ns i h \<longleftrightarrow> (\<exists>m \<in> set ns. gn_id m = i \<and> ?Q m)"
    by (simp add: port_exists_def list_ex_iff)
  also have "\<dots> \<longleftrightarrow> ?Q n" using n u by blast
  finally show ?thesis using Some by (simp add: schema_of_def)
qed

lemma schema_of_node:
  assumes "valid_nodes schema ns" "i \<in> gn_id ` set ns"
  shows "\<exists>s. schema_of schema ns i = Some s"
proof -
  obtain n where n: "find (\<lambda>n. gn_id n = i) ns = Some n" "n \<in> set ns"
    using assms(2) by (metis (mono_tags, lifting) find_None_iff find_Some_iff imageE not_None_eq nth_mem)
  then have "gn_template n \<in> sc_name ` set schema" using assms(1) by (auto simp: valid_nodes_def list_all_iff)
  then have "map_of (index_by sc_name schema) (gn_template n) \<noteq> None" by (simp add: map_of_index_by_None)
  then show ?thesis using n by (auto simp: schema_of_def)
qed

lemma port_exists_node: "port_exists ports schema ns i h \<Longrightarrow> i \<in> gn_id ` set ns"
  by (auto simp: port_exists_def list_ex_iff)

lemma check_edges_Inr:
  assumes "valid_nodes schema ns"
  shows "check_edges schema ns (map gn_id ns) es = Inr () \<longleftrightarrow> list_all (valid_edge schema ns) es"
proof (induction es)
  case (Cons e es)
  have d: "distinct (map gn_id ns)" using assms by (simp add: valid_nodes_def)
  show ?case
  proof (cases "ge_source e \<in> gn_id ` set ns \<and> ge_target e \<in> gn_id ` set ns")
    case False
    then show ?thesis by (auto simp: valid_edge_def dest: port_exists_node)
  next
    case True
    then obtain s t where "schema_of schema ns (ge_source e) = Some s" "schema_of schema ns (ge_target e) = Some t"
      using schema_of_node[OF assms] by blast
    then show ?thesis using True Cons.IH by (simp add: valid_edge_def schema_of_port[OF d])
  qed
qed simp

lemma check_variables_Inr:
  "check_variables vs seen = Inr () \<longleftrightarrow> valid_variables vs \<and> (js_trim \<circ> fst) ` set vs \<inter> set seen = {}"
proof (induction vs seen rule: check_variables.induct)
  case (2 k v vs seen)
  show ?case
  proof (cases "js_trim k = [] \<or> js_trim v = [] \<or> js_trim k \<in> set seen")
    case True
    then show ?thesis by (auto simp: valid_variables_def)
  next
    case False
    then show ?thesis using 2 by (auto simp: valid_variables_def)
  qed
qed (simp add: valid_variables_def)

text \<open>
  A graph passes the validator exactly when it is well formed: node identifiers are present and
  distinct, templates are known, every edge connects a source port of its source node's template to a
  target port of its target node's template, and variables have distinct, non-blank keys and values.
\<close>

theorem validator_exact: "validate_graph schema req = Inr () \<longleftrightarrow> valid_graph schema req"
proof (cases "valid_nodes schema (gr_nodes req)")
  case True
  then have "check_nodes schema (gr_nodes req) [] = Inr (map gn_id (gr_nodes req))" by (simp add: check_nodes_Inr)
  then show ?thesis using check_edges_Inr[OF True, of "gr_edges req"] True
    by (auto simp: validate_graph_def valid_graph_def check_variables_Inr split: sum.splits option.splits)
next
  case False
  have "\<exists>e. validate_graph schema req = Inl e"
  proof (cases "check_nodes schema (gr_nodes req) []")
    case (Inr ids)
    then show ?thesis using False by (simp add: check_nodes_Inr)
  qed (simp add: validate_graph_def)
  then show ?thesis using False by (auto simp: valid_graph_def)
qed

section \<open>What is stored is what is read\<close>

lemma is_yaml_name [simp]: "is_yaml (yaml_name enc i)"
  by (simp add: is_yaml_def yaml_name_def)

lemma base_yaml_name [simp]: "base_name (yaml_name enc i) = enc i"
  by (simp add: base_name_def yaml_name_def)

lemma update_fresh: "k \<notin> fst ` set m \<Longrightarrow> AList.update k v m = m @ [(k, v)]"
  by (induction m) auto

lemma fold_update_fresh:
  "distinct (map key xs) \<Longrightarrow> fold (\<lambda>x. AList.update (key x) (val x)) xs [] = map (\<lambda>x. (key x, val x)) xs"
proof (induction xs rule: rev_induct)
  case (snoc x xs)
  then show ?case by (auto simp: update_fresh image_image)
qed simp

lemma write_nodes_distinct:
  assumes "inj enc" "distinct (map gn_id ns)"
  shows "write_nodes enc ns = map (\<lambda>n. (yaml_name enc (gn_id n), Some n)) ns"
  unfolding write_nodes_def
proof (rule fold_update_fresh)
  show "distinct (map (\<lambda>n. yaml_name enc (gn_id n)) ns)"
    using assms by (auto simp: distinct_map yaml_name_def inj_on_def inj_def)
qed

definition stored_edge_key :: "graph_edge \<Rightarrow> string" where
  "stored_edge_key e = (case ge_id e of None \<Rightarrow> [] | Some i \<Rightarrow> i)"

lemma write_edges_distinct:
  assumes "inj enc" "distinct (map stored_edge_key es)"
  shows "write_edges enc es = map (\<lambda>e. (yaml_name enc (stored_edge_key e), Some e)) es"
  unfolding write_edges_def stored_edge_key_def[symmetric]
proof (rule fold_update_fresh)
  show "distinct (map (\<lambda>e. yaml_name enc (stored_edge_key e)) es)"
    using assms by (auto simp: distinct_map yaml_name_def inj_on_def inj_def)
qed

text \<open>Files listed in any order, with an entry of their own in each.\<close>

lemma read_nodes_all:
  assumes "\<And>f c. (f, c) \<in> set fs \<Longrightarrow> \<exists>n. c = Some n \<and> f = yaml_name enc (gn_id n) \<and> gn_id n \<noteq> []"
    and "\<And>i. dec (enc i) = Some i"
  shows "read_nodes dec fs = Some (map (the \<circ> snd) fs)"
  using assms(1)
proof (induction fs)
  case (Cons p fs)
  obtain f c where p: "p = (f, c)" by (cases p)
  obtain n where "c = Some n" "f = yaml_name enc (gn_id n)" "gn_id n \<noteq> []" using Cons.prems p by auto
  moreover have "read_nodes dec fs = Some (map (the \<circ> snd) fs)" using Cons by (meson list.set_intros(2))
  ultimately show ?case by (simp add: p assms(2))
qed simp

lemma read_edges_all:
  assumes "\<And>f c. (f, c) \<in> set fs \<Longrightarrow> \<exists>e. c = Some e \<and> f = yaml_name enc (stored_edge_key e) \<and> stored_edge_key e \<noteq> []"
    and "\<And>i. dec (enc i) = Some i"
  shows "read_edges dec fs = Some (map (the \<circ> snd) fs)"
  using assms(1)
proof (induction fs)
  case (Cons p fs)
  obtain f c where p: "p = (f, c)" by (cases p)
  obtain e where "c = Some e" "f = yaml_name enc (stored_edge_key e)" "stored_edge_key e \<noteq> []" using Cons.prems p by auto
  moreover have "read_edges dec fs = Some (map (the \<circ> snd) fs)" using Cons by (meson list.set_intros(2))
  ultimately show ?case by (auto simp: p assms(2) stored_edge_key_def split: option.splits)
qed simp

lemma inj_of_inverse: "(\<And>i. dec (enc i) = Some i) \<Longrightarrow> inj enc"
  unfolding inj_def by (metis option.inject)

definition graph_listing :: "graph_tree \<Rightarrow> graph_tree \<Rightarrow> bool" where
  "graph_listing t t' \<longleftrightarrow>
     ft_meta t' = ft_meta t \<and> ft_variables t' = ft_variables t \<and>
     mset (ft_nodes t') = mset (ft_nodes t) \<and> mset (ft_edges t') = mset (ft_edges t)"

definition same_graph :: "stored_graph \<Rightarrow> stored_graph \<Rightarrow> bool" where
  "same_graph g g' \<longleftrightarrow>
     sg_name g' = sg_name g \<and> sg_version g' = sg_version g \<and> sg_updated g' = sg_updated g \<and>
     mset (sg_nodes g') = mset (sg_nodes g) \<and> mset (sg_edges g') = mset (sg_edges g) \<and>
     sg_variables g' = Option.bind (sg_variables g) normalize_variables"

definition storable_graph :: "stored_graph \<Rightarrow> bool" where
  "storable_graph g \<longleftrightarrow>
     distinct (map gn_id (sg_nodes g)) \<and> list_all (\<lambda>n. gn_id n \<noteq> []) (sg_nodes g) \<and>
     distinct (map stored_edge_key (sg_edges g)) \<and> list_all (\<lambda>e. stored_edge_key e \<noteq> []) (sg_edges g)"

lemma read_written_tree:
  assumes law: "\<And>i. dec (enc i) = Some i" and g: "storable_graph g" and l: "graph_listing (create_staging_tree enc g) t"
  shows "\<exists>g'. read_tree dec now name (Some t) = Graph_read g' \<and> same_graph g g'"
proof -
  note inj = inj_of_inverse[of dec enc, OF law]
  have nd: "distinct (map gn_id (sg_nodes g))" and ed: "distinct (map stored_edge_key (sg_edges g))"
    using g by (auto simp: storable_graph_def)
  have wn: "mset (ft_nodes t) = mset (map (\<lambda>n. (yaml_name enc (gn_id n), Some n)) (sg_nodes g))"
    using l by (simp add: graph_listing_def create_staging_tree_def write_nodes_distinct[OF inj nd] del: mset_map)
  have we: "mset (ft_edges t) = mset (map (\<lambda>e. (yaml_name enc (stored_edge_key e), Some e)) (sg_edges g))"
    using l by (simp add: graph_listing_def create_staging_tree_def write_edges_distinct[OF inj ed] del: mset_map)
  have sn: "set (ft_nodes t) = (\<lambda>n. (yaml_name enc (gn_id n), Some n)) ` set (sg_nodes g)"
    using arg_cong[OF wn, of set_mset] by simp
  have se: "set (ft_edges t) = (\<lambda>e. (yaml_name enc (stored_edge_key e), Some e)) ` set (sg_edges g)"
    using arg_cong[OF we, of set_mset] by simp
  have rn: "read_nodes dec (ft_nodes t) = Some (map (the \<circ> snd) (ft_nodes t))"
    by (rule read_nodes_all[of _ enc dec, OF _ law]) (use g sn in \<open>auto simp: storable_graph_def list_all_iff\<close>)
  have re: "read_edges dec (ft_edges t) = Some (map (the \<circ> snd) (ft_edges t))"
    by (rule read_edges_all[of _ enc dec, OF _ law]) (use g se in \<open>auto simp: storable_graph_def list_all_iff\<close>)
  have mn: "mset (map (the \<circ> snd) (ft_nodes t)) = mset (sg_nodes g)"
    using arg_cong[OF wn, of "image_mset (the \<circ> snd)"] by (simp add: multiset.map_comp o_def)
  have me: "mset (map (the \<circ> snd) (ft_edges t)) = mset (sg_edges g)"
    using arg_cong[OF we, of "image_mset (the \<circ> snd)"] by (simp add: multiset.map_comp o_def)
  have m: "ft_meta t = Some \<lparr>gm_name = Some (sg_name g), gm_version = Some (sg_version g), gm_updated = Some (sg_updated g)\<rparr>"
    and v: "ft_variables t = Some (case sg_variables g of None \<Rightarrow> [] | Some vs \<Rightarrow> vs)"
    using l by (simp_all add: graph_listing_def create_staging_tree_def)
  have "Option.bind (ft_variables t) normalize_variables = Option.bind (sg_variables g) normalize_variables"
    by (cases "sg_variables g") (simp_all add: v normalize_variables_def)
  then show ?thesis using mn me
    by (simp add: read_tree_def m rn re same_graph_def del: mset_map)
qed

lemma staged_tree [simp]: "map_of (fs_staging (mkstaging uid t f)) uid = Some t"
  by (simp add: mkstaging_def)

lemma root_to_backup_staging [simp]: "fs_staging (root_to_backup uid mtime f) = fs_staging f"
  by (simp add: root_to_backup_def split: option.splits)

lemma restore_git_root:
  "fs_root f = Some t \<Longrightarrow> \<exists>b. fs_root (restore_git uid fails f) = Some (t\<lparr>ft_git := b\<rparr>)"
  by (cases t) (auto simp: restore_git_def split: option.splits)

lemma discard_root [simp]: "fs_root (discard uid f) = fs_root f" "fs_root (discard_staging uid f) = fs_root f"
  by (simp_all add: discard_def discard_staging_def)

lemma persist_root:
  assumes "persist_graph enc uid mtime sf g f = (f1, True)"
  shows "\<exists>b. fs_root f1 = Some ((create_staging_tree enc g)\<lparr>ft_git := b\<rparr>)"
proof -
  let ?f2 = "staging_to_root uid (root_to_backup uid mtime (mkstaging uid (create_staging_tree enc g) f))"
  have "fs_root ?f2 = Some (create_staging_tree enc g)" by (simp add: staging_to_root_def)
  from restore_git_root[OF this] show ?thesis using assms
    by (auto simp: persist_graph_def swap_working_tree_def swap_states_def Let_def split: if_splits)
qed

lemma keep_state_id [simp]: "gn_id (keep_state existing n) = gn_id n"
  by (auto simp: keep_state_def split: option.splits)

lemma strip_edges_keys:
  "strip_edges es = Inr es' \<Longrightarrow> map stored_edge_key es' = map edge_id es"
proof (induction es arbitrary: es')
  case (Cons e es)
  then obtain es0 where "strip_edges es = Inr es0" "es' = e\<lparr>ge_id := Some (edge_id e)\<rparr> # es0"
    by (auto split: option.splits if_splits sum.splits)
  then show ?case using Cons.IH by (simp add: stored_edge_key_def)
qed simp

lemma edge_id_nonempty [simp]: "edge_id e \<noteq> []"
  by (simp add: edge_id_def)

lemma graph_target_storable:
  assumes "graph_target existing req now = Inr g" "valid_nodes schema (gr_nodes req)"
    "distinct (map edge_id (gr_edges req))"
  shows "storable_graph g"
proof -
  obtain es where es: "strip_edges (gr_edges req) = Inr es" "sg_edges g = es"
      "sg_nodes g = map (keep_state existing) (gr_nodes req)"
    using assms(1) by (auto simp: graph_target_def Let_def split: if_splits sum.splits)
  have k: "map stored_edge_key es = map edge_id (gr_edges req)" by (rule strip_edges_keys[OF es(1)])
  have "list_all (\<lambda>i. i \<noteq> []) (map stored_edge_key es)" unfolding k by (simp add: list_all_iff)
  then have "list_all (\<lambda>e. stored_edge_key e \<noteq> []) es" by (simp add: list_all_iff)
  then show ?thesis using assms(2,3) k es by (simp add: storable_graph_def valid_nodes_def list_all_iff o_def)
qed

lemma upsert_locked_Inr:
  assumes "upsert_locked e req f = (f1, Inr g)"
  obtains existing where "graph_target existing req (se_now e) = Inr g"
    "persist_graph (se_enc e) (se_uid e) (se_mtime e) (se_faults e) g f = (f1, True)"
    "existing = (case read_tree (se_dec e) (se_now e) (gr_name req) (fs_root f) of Graph_read g0 \<Rightarrow> Some g0 | _ \<Rightarrow> None)"
  using assms that
  by (auto simp: upsert_locked_def Let_def split: read_result.splits sum.splits prod.splits bool.splits)

lemma validated_nodes: "validate_graph schema req = Inr () \<Longrightarrow> valid_nodes schema (gr_nodes req)"
  by (auto simp: validate_graph_def check_nodes_Inr split: sum.splits)

lemma upsert_graph_Inr:
  assumes "upsert_graph e timeout attempts req f = Some (f1, Inr g)"
  shows "valid_nodes (se_schema e) (gr_nodes req)" "upsert_locked e req f = (f1, Inr g)"
  using assms by (auto simp: upsert_graph_def validated_nodes split: sum.splits option.splits)

lemma stored_is_read:
  assumes law: "\<And>i. se_dec e (se_enc e i) = Some i"
    and ok: "upsert_graph e timeout attempts req f = Some (f1, Inr g)"
    and d: "distinct (map edge_id (gr_edges req))"
  shows "\<exists>t. fs_root f1 = Some t \<and>
    (\<forall>t'. graph_listing t t' \<longrightarrow>
      (\<exists>g'. read_tree (se_dec e) now name (Some t') = Graph_read g' \<and> same_graph g g'))"
proof -
  note v = upsert_graph_Inr[OF ok]
  obtain existing where x: "graph_target existing req (se_now e) = Inr g"
      "persist_graph (se_enc e) (se_uid e) (se_mtime e) (se_faults e) g f = (f1, True)"
    using upsert_locked_Inr[OF v(2)] by metis
  obtain b where r: "fs_root f1 = Some ((create_staging_tree (se_enc e) g)\<lparr>ft_git := b\<rparr>)"
    using persist_root[OF x(2)] by blast
  have "graph_listing (create_staging_tree (se_enc e) g) t'"
    if "graph_listing ((create_staging_tree (se_enc e) g)\<lparr>ft_git := b\<rparr>) t'" for t'
    using that by (simp add: graph_listing_def)
  then show ?thesis
    using r read_written_tree[of "se_dec e" "se_enc e" g, OF law graph_target_storable[OF x(1) v(1) d]] by blast
qed

lemma graph_listing_refl: "graph_listing t t"
  by (simp add: graph_listing_def)

text \<open>
  C5. When storing a graph succeeds, reading it back gives the graph that was returned: same name,
  version and time, the same nodes and edges (as multisets: a directory may be listed in any order) and
  the same variables less the ones with an empty key.  It relies on \<open>decodeURIComponent\<close> undoing
  \<open>encodeURIComponent\<close> and on no two edges having the same identifier.
\<close>

theorem upsert_then_get:
  assumes "\<And>i. se_dec e (se_enc e i) = Some i"
    and "upsert_graph e timeout attempts req f = Some (f1, Inr g)"
    and "distinct (map edge_id (gr_edges req))"
  shows "\<exists>t. fs_root f1 = Some t \<and>
    (\<forall>t'. graph_listing t t' \<longrightarrow>
      (\<exists>g'. read_tree (se_dec e) now name (Some t') = Graph_read g' \<and> same_graph g g'))"
  using assms by (rule stored_is_read)

definition repo_sample :: store_env where
  "repo_sample = \<lparr>se_enc = id, se_dec = Some,
     se_schema = [\<lparr>sc_name = ''agent'', sc_source_ports = [''tools'', ''b-c'', ''c''], sc_target_ports = [''$self'']\<rparr>],
     se_now = ''t1'', se_uid = 7, se_mtime = 3,
     se_faults = \<lparr>sf_prepare = False, sf_backup = False, sf_activate = False, sf_undo = False, sf_git = False\<rparr>\<rparr>"

definition sample_request :: graph_request where
  "sample_request = \<lparr>gr_name = ''main'', gr_version = Some 0,
     gr_nodes = [\<lparr>gn_id = ''a'', gn_template = ''agent'', gn_config = None, gn_state = None, gn_position = None\<rparr>,
                 \<lparr>gn_id = ''b'', gn_template = ''agent'', gn_config = None, gn_state = None, gn_position = None\<rparr>],
     gr_edges = [\<lparr>ge_id = None, ge_source = ''a'', ge_source_handle = ''tools'', ge_target = ''b'', ge_target_handle = ''$self''\<rparr>],
     gr_variables = None\<rparr>"

definition sample_fs :: graph_fs where
  "sample_fs = \<lparr>fs_root = Some (empty_tree\<lparr>ft_git := True, ft_meta :=
     Some \<lparr>gm_name = Some ''main'', gm_version = Some 0, gm_updated = None\<rparr>\<rparr>), fs_backups = [], fs_staging = []\<rparr>"

lemma sample_upsert:
  "\<exists>f1 g. upsert_graph repo_sample 5000 [Lock_exists 10, Created] sample_request sample_fs = Some (f1, Inr g)"
proof -
  let ?r = "upsert_graph repo_sample 5000 [Lock_exists 10, Created] sample_request sample_fs"
  have "case ?r of None \<Rightarrow> False | Some p \<Rightarrow> \<not> isl (snd p)" by code_simp
  then obtain p where "?r = Some p" "\<not> isl (snd p)" by (auto split: option.splits)
  then show ?thesis by (metis prod.collapse sum.collapse(2))
qed

lemma sample_law: "se_dec repo_sample (se_enc repo_sample i) = Some i"
  by (simp add: repo_sample_def)

theorem upsert_then_get_witness:
  "\<exists>f1 g t g'. upsert_graph repo_sample 5000 [Lock_exists 10, Created] sample_request sample_fs = Some (f1, Inr g) \<and>
     fs_root f1 = Some t \<and> read_tree (se_dec repo_sample) ''now'' ''main'' (Some t) = Graph_read g' \<and> same_graph g g'"
proof -
  obtain f1 g where r: "upsert_graph repo_sample 5000 [Lock_exists 10, Created] sample_request sample_fs = Some (f1, Inr g)"
    using sample_upsert by blast
  have "distinct (map edge_id (gr_edges sample_request))" by code_simp
  from upsert_then_get[OF sample_law r this] r graph_listing_refl show ?thesis by blast
qed

section \<open>Two writers\<close>

lemma graph_target_version:
  assumes "graph_target existing req now = Inr g" "gr_version req = Some v"
  shows "sg_version g = v + 1"
  using assms by (auto simp: graph_target_def Let_def empty_graph_def split: if_splits sum.splits option.splits)

lemma graph_target_conflict:
  "gr_version req = Some v \<Longrightarrow> v \<noteq> sg_version g \<Longrightarrow>
   graph_target (Some g) req now = Inl (Version_conflict g)"
  by (simp add: graph_target_def)

text \<open>
  C11. Of two writers that start from the same version of the graph only one succeeds: once the first
  has stored its graph, the second gets a version conflict that carries the stored graph, and the files
  stay as the first one left them.  No update is lost.
\<close>

theorem no_lost_update:
  assumes "\<And>i. se_dec e (se_enc e i) = Some i"
    and "upsert_graph e timeout attempts req f = Some (f1, Inr g)"
    and "distinct (map edge_id (gr_edges req))"
    and "gr_version req = Some v" "gr_version req2 = Some v" "validate_graph (se_schema e) req2 = Inr ()"
  shows "\<exists>g'. upsert_graph e timeout (Created # waiting) req2 f1 = Some (f1, Inl (Version_conflict g')) \<and> same_graph g g'"
proof -
  obtain t g' where t: "fs_root f1 = Some t"
      "read_tree (se_dec e) (se_now e) (gr_name req2) (Some t) = Graph_read g'" "same_graph g g'"
    using stored_is_read[of e, OF assms(1-3)] graph_listing_refl by blast
  obtain existing where "graph_target existing req (se_now e) = Inr g"
    using upsert_locked_Inr[OF upsert_graph_Inr(2)[OF assms(2)]] by metis
  from graph_target_version[OF this assms(4)] have "v \<noteq> sg_version g'"
    using t(3) by (simp add: same_graph_def)
  from graph_target_conflict[OF assms(5) this] show ?thesis
    using assms(6) t by (simp add: upsert_graph_def upsert_locked_def)
qed

theorem no_lost_update_witness:
  "\<exists>f1 g g'. upsert_graph repo_sample 5000 [Lock_exists 10, Created] sample_request sample_fs = Some (f1, Inr g) \<and>
     upsert_graph repo_sample 5000 [Created] sample_request f1 = Some (f1, Inl (Version_conflict g')) \<and> same_graph g g'"
proof -
  obtain f1 g where r: "upsert_graph repo_sample 5000 [Lock_exists 10, Created] sample_request sample_fs = Some (f1, Inr g)"
    using sample_upsert by blast
  have d: "distinct (map edge_id (gr_edges sample_request))" by code_simp
  have v: "gr_version sample_request = Some 0" by (simp add: sample_request_def)
  have ok: "validate_graph (se_schema repo_sample) sample_request = Inr ()" by code_simp
  from no_lost_update[OF sample_law r d v v ok] r show ?thesis by blast
qed

section \<open>Crashes\<close>

text \<open>Same files apart from the \<^verbatim>\<open>.git\<close> directory.\<close>

definition same_files :: "graph_tree \<Rightarrow> graph_tree \<Rightarrow> bool" where
  "same_files t t' \<longleftrightarrow> ft_meta t' = ft_meta t \<and> ft_nodes t' = ft_nodes t \<and> ft_edges t' = ft_edges t \<and>
     ft_variables t' = ft_variables t"

lemma init_with_root:
  "fs_root s = Some t \<Longrightarrow> ft_meta t \<noteq> None \<Longrightarrow> fs_root (init_if_needed now s) = Some t"
  by (auto simp: init_if_needed_def cleanup_artifacts_def)

lemma init_with_backup:
  "fs_root s = None \<Longrightarrow> fs_backups s = [b] \<Longrightarrow> ft_meta (snd (snd b)) \<noteq> None \<Longrightarrow>
   fs_root (init_if_needed now s) = Some (snd (snd b))"
  by (cases b) (auto simp: init_if_needed_def cleanup_artifacts_def)

text \<open>A state from which a restart recovers a tree that satisfies \<open>P\<close>.\<close>

definition recoverable :: "(graph_tree \<Rightarrow> bool) \<Rightarrow> graph_fs \<Rightarrow> bool" where
  "recoverable P s \<longleftrightarrow>
     (case fs_root s of
        Some t \<Rightarrow> P t \<and> ft_meta t \<noteq> None
      | None \<Rightarrow> (case fs_backups s of [b] \<Rightarrow> P (snd (snd b)) \<and> ft_meta (snd (snd b)) \<noteq> None | _ \<Rightarrow> False))"

lemma recoverable_init:
  "recoverable P s \<Longrightarrow> \<exists>t. fs_root (init_if_needed now s) = Some t \<and> P t"
  unfolding recoverable_def
  by (auto split: option.splits list.splits prod.splits intro: init_with_root init_with_backup)

lemma swap_recoverable:
  assumes root: "fs_root f = Some old" "ft_meta old \<noteq> None" "fs_backups f = []"
    and staged: "map_of (fs_staging f) uid = Some new" "ft_meta new \<noteq> None"
    and faults: "\<not> (sf_activate sf \<and> sf_undo sf)"
    and s: "s \<in> set (fst (swap_states uid mtime sf f))"
  shows "recoverable (\<lambda>t. same_files old t \<or> same_files new t) s"
proof -
  let ?P = "\<lambda>t. same_files old t \<or> same_files new t"
  let ?f1 = "root_to_backup uid mtime f"
  have f1: "fs_root ?f1 = None" "fs_backups ?f1 = [(uid, mtime, old)]" "fs_staging ?f1 = fs_staging f"
    using root by (simp_all add: root_to_backup_def)
  have r0: "recoverable ?P f" using root by (simp add: recoverable_def same_files_def)
  have r1: "recoverable ?P ?f1" using f1 root by (simp add: recoverable_def same_files_def)
  have disc: "recoverable ?P (discard uid x)" "recoverable ?P (discard_staging uid x)"
    if "recoverable ?P x" "fs_root x \<noteq> None" for x
    using that by (auto simp: recoverable_def split: option.splits)
  have b: "backup_to_root uid ?f1 = ?f1\<lparr>fs_root := Some old, fs_backups := []\<rparr>"
    using f1 by (simp add: backup_to_root_def)
  have r2: "recoverable ?P (backup_to_root uid ?f1)" "fs_root (backup_to_root uid ?f1) \<noteq> None"
    using root by (simp_all add: b recoverable_def same_files_def)
  have a: "fs_root (staging_to_root uid ?f1) = Some new" using staged f1 by (simp add: staging_to_root_def)
  have r3: "recoverable ?P (staging_to_root uid ?f1)" using a staged by (simp add: recoverable_def same_files_def)
  obtain g where g: "fs_root (restore_git uid (sf_git sf) (staging_to_root uid ?f1)) = Some (new\<lparr>ft_git := g\<rparr>)"
    using restore_git_root[OF a] by blast
  have r4: "recoverable ?P (restore_git uid (sf_git sf) (staging_to_root uid ?f1))"
    using g staged by (simp add: recoverable_def same_files_def)
  show ?thesis using s r0 r1 r2 r3 r4 disc a g root(1) faults
    unfolding swap_states_def Let_def by (auto split: if_splits)
qed


definition sample_tree :: graph_tree where
  "sample_tree = create_staging_tree id \<lparr>sg_name = ''main'', sg_version = 1, sg_updated = ''t1'', sg_nodes = gr_nodes sample_request,
     sg_edges = [], sg_variables = None\<rparr>"


text \<open>
  The repository's history does not share that guarantee: if the process stops right after the new
  tree was moved in, the old \<^verbatim>\<open>.git\<close> directory is still in the backup, and the next start deletes the
  backup because the root exists.
\<close>

theorem crash_can_lose_history:
  "\<exists>s \<in> set (fst (swap_states 7 3 (se_faults repo_sample) (mkstaging 7 sample_tree sample_fs))).
     ft_git (the (fs_root sample_fs)) \<and> \<not> ft_git (the (fs_root (init_if_needed ''t2'' s))) \<and>
     fs_backups (init_if_needed ''t2'' s) = []"
  by code_simp

section \<open>Edges with the same identifier\<close>

definition colliding_request :: graph_request where
  "colliding_request = \<lparr>gr_name = ''main'', gr_version = Some 0,
     gr_nodes = [\<lparr>gn_id = ''a'', gn_template = ''agent'', gn_config = None, gn_state = None, gn_position = None\<rparr>,
                 \<lparr>gn_id = ''a-b'', gn_template = ''agent'', gn_config = None, gn_state = None, gn_position = None\<rparr>],
     gr_edges = [\<lparr>ge_id = None, ge_source = ''a'', ge_source_handle = ''b-c'', ge_target = ''a'', ge_target_handle = ''$self''\<rparr>,
                 \<lparr>ge_id = None, ge_source = ''a-b'', ge_source_handle = ''c'', ge_target = ''a'', ge_target_handle = ''$self''\<rparr>],
     gr_variables = None\<rparr>"

text \<open>
  An edge identifier does not determine its edge: identifiers join node and handle names with a
  hyphen that both may contain.  A valid graph with two such edges is stored without complaint, the
  response has both, and only one of them is read back.
\<close>

theorem colliding_edges_lost:
  "case upsert_graph repo_sample 5000 [Created] colliding_request sample_fs of
     Some (f1, Inr g) \<Rightarrow> length (sg_edges g) = 2 \<and> sg_edges g ! 0 \<noteq> sg_edges g ! 1 \<and>
       (case read_tree (se_dec repo_sample) ''now'' ''main'' (fs_root f1) of
          Graph_read g' \<Rightarrow> length (sg_edges g') = 1
        | _ \<Rightarrow> False)
   | _ \<Rightarrow> False"
  by code_simp

end
