(* ===== verification/Graph_Variables.thy ===== *)
theory Graph_Variables
  imports Graph_Files
begin

text \<open>
  The variables of a graph, \<^verbatim>\<open>graph/services/graphVariables.service.ts\<close>, and their HTTP interface,
  \<^verbatim>\<open>graph/controllers/graphVariables.controller.ts\<close>.

  The service is given a graph repository; so are its operations here, and the locale \<open>variable_repository\<close>
  says what they rely on.  It is interpreted on the file repository.  A world is the repository's state
  and the table of local values.  \<^const>\<open>None\<close> as a result: the repository is still waiting for its lock.
\<close>

section \<open>The service\<close>

record var_item =
  vi_key :: string
  vi_graph :: "string option"
  vi_local :: "string option"

datatype var_error =
    Store_error graph_store_error
  | Duplicate_key
  | Graph_not_found
  | Key_not_found

type_synonym 'w repository_get = "string \<Rightarrow> 'w \<Rightarrow> read_result"
type_synonym 'w repository_upsert = "graph_request \<Rightarrow> 'w \<Rightarrow> ('w \<times> (graph_store_error + stored_graph)) option"
type_synonym 'w var_world = "'w \<times> (string \<times> string) list"

definition graph_vars :: "stored_graph \<Rightarrow> graph_variables" where
  "graph_vars g = (case sg_variables g of None \<Rightarrow> [] | Some vs \<Rightarrow> vs)"

text \<open>\<open>(await this.graphs.get(name)) || {...}\<close>\<close>

definition graph_or_empty :: "string \<Rightarrow> string \<Rightarrow> read_result \<Rightarrow> var_error + stored_graph" where
  "graph_or_empty name now r =
     (case r of
        Read_error \<Rightarrow> Inl (Store_error Unreadable)
      | No_graph \<Rightarrow> Inr (empty_graph name now)
      | Graph_read g \<Rightarrow> Inr g)"

definition graph_items :: "graph_variables \<Rightarrow> (string \<times> var_item) list" where
  "graph_items vs = fold (\<lambda>(k, v). AList.update k \<lparr>vi_key = k, vi_graph = Some v, vi_local = None\<rparr>) vs []"

definition add_local :: "string \<times> string \<Rightarrow> (string \<times> var_item) list \<Rightarrow> (string \<times> var_item) list" where
  "add_local kv items =
     (case map_of items (fst kv) of
        Some it \<Rightarrow> AList.update (fst kv) (it\<lparr>vi_local := Some (snd kv)\<rparr>) items
      | None \<Rightarrow> AList.update (fst kv) \<lparr>vi_key = fst kv, vi_graph = None, vi_local = Some (snd kv)\<rparr> items)"

definition list_variables :: "'w repository_get \<Rightarrow> string \<Rightarrow> string \<Rightarrow> 'w var_world \<Rightarrow> var_error + var_item list" where
  "list_variables get now name w =
     (case graph_or_empty name now (get name (fst w)) of
        Inl e \<Rightarrow> Inl e
      | Inr g \<Rightarrow> Inr (map snd (fold add_local (snd w) (graph_items (graph_vars g)))))"

text \<open>Storing the graph as it was read, with other variables.\<close>

definition store_variables ::
  "'w repository_upsert \<Rightarrow> string \<Rightarrow> stored_graph \<Rightarrow> graph_variables \<Rightarrow> 'w \<Rightarrow> ('w \<times> (var_error + unit)) option" where
  "store_variables upsert name g vs w =
     map_option (\<lambda>(w', r). (w', case r of Inl e \<Rightarrow> Inl (Store_error e) | Inr _ \<Rightarrow> Inr ()))
       (upsert \<lparr>gr_name = name, gr_version = Some (sg_version g), gr_nodes = sg_nodes g, gr_edges = sg_edges g,
                gr_variables = Some vs\<rparr> w)"

definition create_variable ::
  "'w repository_get \<Rightarrow> 'w repository_upsert \<Rightarrow> string \<Rightarrow> string \<Rightarrow> string \<Rightarrow> string \<Rightarrow> 'w var_world \<Rightarrow>
   ('w var_world \<times> (var_error + string \<times> string)) option" where
  "create_variable get upsert now name key v w =
     (case graph_or_empty name now (get name (fst w)) of
        Inl e \<Rightarrow> Some (w, Inl e)
      | Inr g \<Rightarrow>
          if key \<in> fst ` set (graph_vars g) then Some (w, Inl Duplicate_key)
          else
            map_option (\<lambda>(w', r). ((w', snd w), case r of Inl e \<Rightarrow> Inl e | Inr u \<Rightarrow> Inr (key, v)))
              (store_variables upsert name g (graph_vars g @ [(key, v)]) (fst w)))"

definition trimmed_local :: "string option \<Rightarrow> string option" where
  "trimmed_local req = (let t = js_trim (case req of None \<Rightarrow> [] | Some s \<Rightarrow> s) in if t = [] then None else Some t)"

definition set_local :: "string \<Rightarrow> string option \<Rightarrow> (string \<times> string) list \<Rightarrow> (string \<times> string) list" where
  "set_local key req locals =
     (case trimmed_local req of None \<Rightarrow> AList.delete key locals | Some t \<Rightarrow> AList.update key t locals)"

text \<open>The first variable with the key gets the value.\<close>

fun replace_first :: "string \<Rightarrow> string \<Rightarrow> graph_variables \<Rightarrow> graph_variables option" where
  "replace_first key v [] = None"
| "replace_first key v ((k, u) # vs) =
     (if k = key then Some ((key, v) # vs) else map_option ((#) (k, u)) (replace_first key v vs))"

definition update_graph_variable ::
  "'w repository_get \<Rightarrow> 'w repository_upsert \<Rightarrow> string \<Rightarrow> string \<Rightarrow> string \<Rightarrow> 'w \<Rightarrow> ('w \<times> (var_error + unit)) option" where
  "update_graph_variable get upsert name key v w =
     (case get name w of
        Read_error \<Rightarrow> Some (w, Inl (Store_error Unreadable))
      | No_graph \<Rightarrow> Some (w, Inl Graph_not_found)
      | Graph_read g \<Rightarrow>
          (case replace_first key v (graph_vars g) of
             None \<Rightarrow> Some (w, Inl Key_not_found)
           | Some vs \<Rightarrow> store_variables upsert name g vs w))"

record var_update =
  vu_key :: string
  vu_graph :: "string option"
  vu_local :: "string option option"

definition update_variable ::
  "'w repository_get \<Rightarrow> 'w repository_upsert \<Rightarrow> string \<Rightarrow> string \<Rightarrow> string option \<Rightarrow> string option option \<Rightarrow> 'w var_world \<Rightarrow>
   ('w var_world \<times> (var_error + var_update)) option" where
  "update_variable get upsert name key graph local w =
     map_option (\<lambda>(w', r).
         case r of
           Inl e \<Rightarrow> ((w', snd w), Inl e)
         | Inr u \<Rightarrow>
             ((w', case local of None \<Rightarrow> snd w | Some req \<Rightarrow> set_local key req (snd w)),
              Inr \<lparr>vu_key = key, vu_graph = graph, vu_local = map_option trimmed_local local\<rparr>))
       (case graph of
          None \<Rightarrow> Some (fst w, Inr ())
        | Some v \<Rightarrow> update_graph_variable get upsert name key v (fst w))"

definition remove_variable ::
  "'w repository_get \<Rightarrow> 'w repository_upsert \<Rightarrow> string \<Rightarrow> string \<Rightarrow> 'w var_world \<Rightarrow> ('w var_world \<times> (var_error + unit)) option" where
  "remove_variable get upsert name key w =
     map_option (\<lambda>(w', r).
         case r of
           Inl e \<Rightarrow> ((w', snd w), Inl e)
         | Inr u \<Rightarrow> ((w', AList.delete key (snd w)), Inr ()))
       (case get name (fst w) of
          Read_error \<Rightarrow> Some (fst w, Inl (Store_error Unreadable))
        | No_graph \<Rightarrow> Some (fst w, Inr ())
        | Graph_read g \<Rightarrow> store_variables upsert name g (filter (\<lambda>(k, v). k \<noteq> key) (graph_vars g)) (fst w))"

definition given_text :: "string option \<Rightarrow> string option" where
  "given_text s = (case s of None \<Rightarrow> None | Some t \<Rightarrow> if t = [] then None else Some t)"

definition resolve_value :: "'w repository_get \<Rightarrow> string \<Rightarrow> string \<Rightarrow> 'w var_world \<Rightarrow> var_error + string option" where
  "resolve_value get name key w =
     (case given_text (map_of (snd w) key) of
        Some v \<Rightarrow> Inr (Some v)
      | None \<Rightarrow>
          (case get name (fst w) of
             Read_error \<Rightarrow> Inl (Store_error Unreadable)
           | No_graph \<Rightarrow> Inr None
           | Graph_read g \<Rightarrow> Inr (given_text (map_of (graph_vars g) key))))"

section \<open>The HTTP interface\<close>

text \<open>A reply: a status with a value, or a status with an error code and perhaps the current graph.\<close>

datatype 'a http_reply = Replied nat 'a | Refused nat string "stored_graph option" | Not_mapped var_error

definition text_field :: "json \<Rightarrow> string \<Rightarrow> string option" where
  "text_field j k = as_string (jget j k)"

definition parse_create_body :: "json option \<Rightarrow> string + string \<times> string" where
  "parse_create_body body =
     (case body of
        None \<Rightarrow> Inl ''BAD_SCHEMA''
      | Some j \<Rightarrow>
          if \<not> is_object_like j then Inl ''BAD_SCHEMA''
          else
            (case text_field j ''key'' of
               None \<Rightarrow> Inl ''BAD_KEY''
             | Some k \<Rightarrow>
                 (case text_field j ''graph'' of
                    None \<Rightarrow> Inl ''BAD_VALUE''
                  | Some v \<Rightarrow>
                      if js_trim k = [] then Inl ''BAD_KEY''
                      else if js_trim v = [] then Inl ''BAD_VALUE''
                      else Inr (js_trim k, js_trim v))))"

definition parse_update_body :: "json option \<Rightarrow> string + string option \<times> string option option" where
  "parse_update_body body =
     (case body of
        None \<Rightarrow> Inl ''BAD_SCHEMA''
      | Some j \<Rightarrow>
          if \<not> is_object_like j then Inl ''BAD_SCHEMA''
          else
            (let graph = (case jget j ''graph'' of
                    None \<Rightarrow> Inr None
                  | Some (JStr s) \<Rightarrow> if js_trim s = [] then Inl ''BAD_VALUE'' else Inr (Some (js_trim s))
                  | Some _ \<Rightarrow> Inl ''BAD_VALUE'');
                 local = (case jget j ''local'' of
                    None \<Rightarrow> Inr None
                  | Some JNull \<Rightarrow> Inr (Some None)
                  | Some (JStr s) \<Rightarrow> Inr (Some (Some s))
                  | Some _ \<Rightarrow> Inl ''BAD_VALUE'')
             in case (graph, local) of
                  (Inl e, _) \<Rightarrow> Inl e
                | (Inr g, Inl e) \<Rightarrow> Inl e
                | (Inr g, Inr l) \<Rightarrow> Inr (g, l)))"

definition conflict_reply :: "var_error \<Rightarrow> 'a http_reply" where
  "conflict_reply e =
     (case e of Store_error (Version_conflict g) \<Rightarrow> Refused 409 ''VERSION_CONFLICT'' (Some g) | _ \<Rightarrow> Not_mapped e)"

definition create_reply :: "var_error + string \<times> string \<Rightarrow> (string \<times> string) http_reply" where
  "create_reply r =
     (case r of
        Inr kv \<Rightarrow> Replied 201 kv
      | Inl Duplicate_key \<Rightarrow> Refused 409 ''DUPLICATE_KEY'' None
      | Inl e \<Rightarrow> conflict_reply e)"

definition update_reply :: "var_error + var_update \<Rightarrow> var_update http_reply" where
  "update_reply r =
     (case r of
        Inr u \<Rightarrow> Replied 200 u
      | Inl Graph_not_found \<Rightarrow> Refused 404 ''GRAPH_NOT_FOUND'' None
      | Inl Key_not_found \<Rightarrow> Refused 404 ''KEY_NOT_FOUND'' None
      | Inl e \<Rightarrow> conflict_reply e)"

definition remove_reply :: "var_error + unit \<Rightarrow> unit http_reply" where
  "remove_reply r = (case r of Inr u \<Rightarrow> Replied 204 u | Inl e \<Rightarrow> conflict_reply e)"

definition post_variable ::
  "'w repository_get \<Rightarrow> 'w repository_upsert \<Rightarrow> string \<Rightarrow> json option \<Rightarrow> 'w var_world \<Rightarrow>
   ('w var_world \<times> (string \<times> string) http_reply) option" where
  "post_variable get upsert now body w =
     (case parse_create_body body of
        Inl code \<Rightarrow> Some (w, Refused 400 code None)
      | Inr (k, v) \<Rightarrow> map_option (\<lambda>(w', r). (w', create_reply r)) (create_variable get upsert now ''main'' k v w))"

definition put_variable ::
  "'w repository_get \<Rightarrow> 'w repository_upsert \<Rightarrow> string \<Rightarrow> json option \<Rightarrow> 'w var_world \<Rightarrow>
   ('w var_world \<times> var_update http_reply) option" where
  "put_variable get upsert key body w =
     (case parse_update_body body of
        Inl code \<Rightarrow> Some (w, Refused 400 code None)
      | Inr (g, l) \<Rightarrow> map_option (\<lambda>(w', r). (w', update_reply r)) (update_variable get upsert ''main'' key g l w))"

definition delete_variable ::
  "'w repository_get \<Rightarrow> 'w repository_upsert \<Rightarrow> string \<Rightarrow> 'w var_world \<Rightarrow> ('w var_world \<times> unit http_reply) option" where
  "delete_variable get upsert key w =
     map_option (\<lambda>(w', r). (w', remove_reply r)) (remove_variable get upsert ''main'' key w)"

section \<open>Two maps\<close>

text \<open>
  What the service stands for: the graph's values and the local ones, each a finite map.  Storing
  variables must make them readable; a refused request must leave the repository alone.
\<close>

type_synonym two_maps = "(string \<rightharpoonup> string) \<times> (string \<rightharpoonup> string)"

definition graph_map :: "read_result \<Rightarrow> string \<rightharpoonup> string" where
  "graph_map r = (case r of Graph_read g \<Rightarrow> map_of (graph_vars g) | _ \<Rightarrow> Map.empty)"

definition same_request :: "string \<Rightarrow> stored_graph \<Rightarrow> graph_variables \<Rightarrow> graph_request" where
  "same_request name g vs =
     \<lparr>gr_name = name, gr_version = Some (sg_version g), gr_nodes = sg_nodes g, gr_edges = sg_edges g, gr_variables = Some vs\<rparr>"

definition local_map :: "string \<Rightarrow> string option option \<Rightarrow> (string \<rightharpoonup> string) \<Rightarrow> string \<rightharpoonup> string" where
  "local_map key local m = (case local of None \<Rightarrow> m | Some req \<Rightarrow> m(key := trimmed_local req))"

datatype var_command =
    Create_var string string
  | Update_var string "string option" "string option option"
  | Remove_var string

definition outcome_error :: "'e + 'a \<Rightarrow> 'e option" where
  "outcome_error r = (case r of Inl e \<Rightarrow> Some e | Inr u \<Rightarrow> None)"

lemma outcome_error_simps [simp]:
  "outcome_error r = None \<longleftrightarrow> (\<exists>u. r = Inr u)" "outcome_error r = Some e \<longleftrightarrow> r = Inl e"
  "None = outcome_error r \<longleftrightarrow> (\<exists>u. r = Inr u)" "Some e = outcome_error r \<longleftrightarrow> r = Inl e"
  by (auto simp: outcome_error_def split: sum.splits)

definition run_command ::
  "'w repository_get \<Rightarrow> 'w repository_upsert \<Rightarrow> string \<Rightarrow> string \<Rightarrow> var_command \<Rightarrow> 'w var_world \<Rightarrow>
   ('w var_world \<times> var_error option) option" where
  "run_command get upsert now name c w =
     (case c of
           Create_var k v \<Rightarrow> map_option (apsnd outcome_error) (create_variable get upsert now name k v w)
         | Update_var k g l \<Rightarrow> map_option (apsnd outcome_error) (update_variable get upsert name k g l w)
         | Remove_var k \<Rightarrow> map_option (apsnd outcome_error) (remove_variable get upsert name k w))"

text \<open>The specification: the commands on two maps; \<^const>\<open>None\<close> where the service must refuse.\<close>

definition spec_command :: "var_command \<Rightarrow> two_maps \<Rightarrow> two_maps option" where
  "spec_command c m =
     (case c of
        Create_var k v \<Rightarrow> if k \<in> dom (fst m) then None else Some ((fst m)(k \<mapsto> v), snd m)
      | Update_var k None l \<Rightarrow> Some (fst m, local_map k l (snd m))
      | Update_var k (Some v) l \<Rightarrow> if k \<in> dom (fst m) then Some ((fst m)(k \<mapsto> v), local_map k l (snd m)) else None
      | Remove_var k \<Rightarrow> Some ((fst m)(k := None), (snd m)(k := None)))"

lemma neither_side: "\<forall>x. b \<noteq> Inl x \<Longrightarrow> b \<noteq> Inr () \<Longrightarrow> False"
  by (cases b) auto

lemma pass_error: "(case r of Inl x \<Rightarrow> Inl x | Inr u \<Rightarrow> Inr (f u)) = Inl e \<longleftrightarrow> r = Inl e"
  by (cases r) auto

lemma pass_error_pair:
  "(case r of Inl x \<Rightarrow> (a, Inl x) | Inr u \<Rightarrow> (b u, Inr (f u))) = (w, Inl e) \<longleftrightarrow> r = Inl e \<and> w = a"
  by (cases r) auto

locale variable_repository =
  fixes get :: "'w repository_get" and upsert :: "'w repository_upsert" and ok :: "'w \<Rightarrow> bool"
    and name :: string and now :: string
  assumes stored: "ok w \<Longrightarrow> graph_or_empty name now (get name w) = Inr g \<Longrightarrow>
      upsert (same_request name g vs) w = Some (w', Inr g1) \<Longrightarrow> ok w' \<and> graph_map (get name w') = map_of vs
        \<and> (\<exists>g'. get name w' = Graph_read g')"
    and refused: "ok w \<Longrightarrow> upsert req w = Some (w', Inl e) \<Longrightarrow> e \<noteq> Persist_failed \<Longrightarrow> w' = w"
begin

definition maps_of :: "'w var_world \<Rightarrow> two_maps" where
  "maps_of w = (graph_map (get name (fst w)), map_of (snd w))"

lemma store_ok:
  assumes "ok w" "graph_or_empty name now (get name w) = Inr g" "store_variables upsert name g vs w = Some (w', Inr ())"
  shows "ok w'" "graph_map (get name w') = map_of vs"
proof -
  obtain r where r: "upsert (same_request name g vs) w = Some (w', r)" "(case r of Inl e \<Rightarrow> Inl (Store_error e) | Inr _ \<Rightarrow> Inr ()) = Inr ()"
    using assms(3) unfolding store_variables_def same_request_def[symmetric] by auto
  then obtain g1 where "upsert (same_request name g vs) w = Some (w', Inr g1)" by (cases r) auto
  from stored[OF assms(1,2) this] show "ok w'" "graph_map (get name w') = map_of vs" by simp_all
qed

lemma store_refused:
  assumes "ok w" "store_variables upsert name g vs w = Some (w', Inl e)" "e \<noteq> Store_error Persist_failed"
  shows "w' = w"
proof -
  obtain r where r: "upsert (same_request name g vs) w = Some (w', r)" "(case r of Inl e \<Rightarrow> Inl (Store_error e) | Inr _ \<Rightarrow> Inr ()) = Inl e"
    using assms(2) unfolding store_variables_def same_request_def[symmetric] by auto
  then obtain e' where "upsert (same_request name g vs) w = Some (w', Inl e')" "e = Store_error e'" by (cases r) auto
  then show ?thesis using refused[OF assms(1)] assms(3) by blast
qed

lemma empty_or_read:
  assumes "graph_or_empty name now r = Inr g"
  shows "graph_map r = map_of (graph_vars g)"
  using assms by (auto simp: graph_or_empty_def graph_map_def empty_graph_def graph_vars_def split: read_result.splits)

lemma create_maps:
  assumes "ok (fst w)" "create_variable get upsert now name key v w = Some (w', Inr r)"
  shows "ok (fst w')" "key \<notin> dom (fst (maps_of w))" "r = (key, v)"
    "maps_of w' = ((fst (maps_of w))(key \<mapsto> v), snd (maps_of w))"
proof -
  obtain g w1 where g: "graph_or_empty name now (get name (fst w)) = Inr g" "key \<notin> fst ` set (graph_vars g)"
      "store_variables upsert name g (graph_vars g @ [(key, v)]) (fst w) = Some (w1, Inr ())" "w' = (w1, snd w)" "r = (key, v)"
    using assms(2) by (auto simp: create_variable_def split: sum.splits if_splits dest: neither_side)
  note s = store_ok[OF assms(1) g(1,3)] and e = empty_or_read[OF g(1)]
  have n: "map_of (graph_vars g) key = None" using g(2) by (simp add: map_of_eq_None_iff)
  show "ok (fst w')" "r = (key, v)" using s g by simp_all
  show "key \<notin> dom (fst (maps_of w))" using n e by (simp add: maps_of_def domIff)
  have "map_of (graph_vars g @ [(key, v)]) = (map_of (graph_vars g))(key \<mapsto> v)"
    using n by (auto simp: fun_eq_iff map_add_def split: option.splits)
  then show "maps_of w' = ((fst (maps_of w))(key \<mapsto> v), snd (maps_of w))"
    using s(2) g(4) e by (simp add: maps_of_def)
qed

lemma replace_first_maps:
  "replace_first key v vs = Some vs' \<Longrightarrow> key \<in> dom (map_of vs) \<and> map_of vs' = (map_of vs)(key \<mapsto> v)"
proof (induction vs arbitrary: vs')
  case (Cons p vs)
  then show ?case by (cases p) (auto split: if_splits simp: fun_eq_iff)
qed simp

lemma set_local_map: "map_of (set_local key req locals) = (map_of locals)(key := trimmed_local req)"
  by (auto simp: set_local_def map_laws fun_eq_iff delete_conv' split: option.splits)

lemma update_maps:
  assumes "ok (fst w)" "update_variable get upsert name key graph local w = Some (w', Inr r)"
  shows "ok (fst w')"
    "maps_of w' = (case graph of None \<Rightarrow> fst (maps_of w) | Some v \<Rightarrow> (fst (maps_of w))(key \<mapsto> v), local_map key local (snd (maps_of w)))"
    "graph \<noteq> None \<longrightarrow> key \<in> dom (fst (maps_of w))"
proof -
  obtain w1 where w1: "(case graph of None \<Rightarrow> Some (fst w, Inr ()) | Some v \<Rightarrow> update_graph_variable get upsert name key v (fst w)) = Some (w1, Inr ())"
      "w' = (w1, case local of None \<Rightarrow> snd w | Some req \<Rightarrow> set_local key req (snd w))"
    using assms(2) by (auto simp: update_variable_def split: sum.splits dest: neither_side)
  have l: "map_of (snd w') = local_map key local (map_of (snd w))"
    using w1(2) by (simp add: local_map_def set_local_map split: option.splits)
  have "ok w1 \<and> graph_map (get name w1) = (case graph of None \<Rightarrow> graph_map (get name (fst w)) | Some v \<Rightarrow> (graph_map (get name (fst w)))(key \<mapsto> v))
      \<and> (graph \<noteq> None \<longrightarrow> key \<in> dom (graph_map (get name (fst w))))"
  proof (cases graph)
    case None
    then show ?thesis using w1(1) assms(1) by simp
  next
    case (Some v)
    then obtain g vs where g: "get name (fst w) = Graph_read g" "replace_first key v (graph_vars g) = Some vs"
        "store_variables upsert name g vs (fst w) = Some (w1, Inr ())"
      using w1(1) by (auto simp: update_graph_variable_def split: read_result.splits option.splits)
    have r: "graph_or_empty name now (get name (fst w)) = Inr g" using g(1) by (simp add: graph_or_empty_def)
    show ?thesis using store_ok[OF assms(1) r g(3)] replace_first_maps[OF g(2)] empty_or_read[OF r] Some by simp
  qed
  then show "ok (fst w')" "graph \<noteq> None \<longrightarrow> key \<in> dom (fst (maps_of w))"
    "maps_of w' = (case graph of None \<Rightarrow> fst (maps_of w) | Some v \<Rightarrow> (fst (maps_of w))(key \<mapsto> v), local_map key local (snd (maps_of w)))"
    using l w1(2) by (auto simp: maps_of_def split: option.splits)
qed

lemma remove_maps:
  assumes "ok (fst w)" "remove_variable get upsert name key w = Some (w', Inr r)"
  shows "ok (fst w')" "maps_of w' = ((fst (maps_of w))(key := None), (snd (maps_of w))(key := None))"
proof -
  obtain w1 where w1: "(case get name (fst w) of
          Read_error \<Rightarrow> Some (fst w, Inl (Store_error Unreadable))
        | No_graph \<Rightarrow> Some (fst w, Inr ())
        | Graph_read g \<Rightarrow> store_variables upsert name g (filter (\<lambda>(k, v). k \<noteq> key) (graph_vars g)) (fst w)) = Some (w1, Inr ())"
      "w' = (w1, AList.delete key (snd w))"
    using assms(2) by (auto simp: remove_variable_def split: sum.splits dest: neither_side)
  have "ok w1 \<and> graph_map (get name w1) = (graph_map (get name (fst w)))(key := None)"
  proof (cases "get name (fst w)")
    case (Graph_read g)
    have r: "graph_or_empty name now (get name (fst w)) = Inr g" using Graph_read by (simp add: graph_or_empty_def)
    have "map_of (filter (\<lambda>(k, v). k \<noteq> key) vs) = (map_of vs)(key := None)" for vs :: graph_variables
      by (induction vs) (auto simp: fun_eq_iff)
    then show ?thesis using store_ok[OF assms(1) r] w1(1) empty_or_read[OF r] Graph_read by simp
  qed (use w1(1) assms(1) in \<open>auto simp: graph_map_def\<close>)
  then show "ok (fst w')" "maps_of w' = ((fst (maps_of w))(key := None), (snd (maps_of w))(key := None))"
    using w1(2) by (simp_all add: maps_of_def delete_conv')
qed

lemma command_refines:
  assumes "ok (fst w)" "run_command get upsert now name c w = Some (w', None)"
  shows "ok (fst w') \<and> spec_command c (maps_of w) = Some (maps_of w')"
proof (cases c)
  case (Create_var k v)
  then obtain r where "create_variable get upsert now name k v w = Some (w', Inr r)"
    using assms(2) by (auto simp: run_command_def)
  then show ?thesis using create_maps[OF assms(1)] Create_var by (simp add: spec_command_def)
next
  case (Update_var k g l)
  then obtain r where "update_variable get upsert name k g l w = Some (w', Inr r)"
    using assms(2) by (auto simp: run_command_def)
  then show ?thesis using update_maps[OF assms(1)] Update_var by (simp add: spec_command_def split: option.splits)
next
  case (Remove_var k)
  then obtain r where "remove_variable get upsert name k w = Some (w', Inr r)"
    using assms(2) by (auto simp: run_command_def)
  then show ?thesis using remove_maps[OF assms(1)] Remove_var by (simp add: spec_command_def)
qed

lemma command_refused:
  assumes "ok (fst w)" "run_command get upsert now name c w = Some (w', Some e)" "e \<noteq> Store_error Persist_failed"
  shows "w' = w"
proof -
  have "w' = w \<or> (\<exists>g vs w1. store_variables upsert name g vs (fst w) = Some (w1, Inl e) \<and> w' = (w1, snd w))"
  proof (cases c)
    case (Create_var k v)
    then have "create_variable get upsert now name k v w = Some (w', Inl e)" using assms(2) by (auto simp: run_command_def)
    then show ?thesis
      by (cases "graph_or_empty name now (get name (fst w))") (auto simp: create_variable_def pass_error split: if_splits)
  next
    case (Update_var k g l)
    then have "update_variable get upsert name k g l w = Some (w', Inl e)" using assms(2) by (auto simp: run_command_def)
    then obtain v where "g = Some v" "\<exists>w1. update_graph_variable get upsert name k v (fst w) = Some (w1, Inl e) \<and> w' = (w1, snd w)"
      by (cases g) (auto simp: update_variable_def pass_error_pair)
    then show ?thesis
      by (cases "get name (fst w)") (auto simp: update_graph_variable_def prod_eq_iff split: option.splits)
  next
    case (Remove_var k)
    then have "remove_variable get upsert name k w = Some (w', Inl e)" using assms(2) by (auto simp: run_command_def)
    then show ?thesis
      by (cases "get name (fst w)") (auto simp: remove_variable_def pass_error_pair)
  qed
  then show ?thesis using store_refused[OF assms(1) _ assms(3)] by (metis prod.collapse)
qed

end

section \<open>On the file repository\<close>

definition file_get :: "store_env \<Rightarrow> graph_fs repository_get" where
  "file_get e name f = read_tree (se_dec e) (se_now e) name (fs_root f)"

definition file_upsert :: "store_env \<Rightarrow> int \<Rightarrow> lock_attempt list \<Rightarrow> graph_fs repository_upsert" where
  "file_upsert e timeout attempts = upsert_graph e timeout attempts"

text \<open>
  Names of files can be decoded again, and no two edges of the stored graph have one identifier.
\<close>

definition files_ok :: "store_env \<Rightarrow> string \<Rightarrow> graph_fs \<Rightarrow> bool" where
  "files_ok e name f \<longleftrightarrow> (\<forall>i. se_dec e (se_enc e i) = Some i)
     \<and> (case file_get e name f of Graph_read g \<Rightarrow> distinct (map edge_id (sg_edges g)) | _ \<Rightarrow> True)"

lemma strip_edges_ids: "strip_edges es = Inr es' \<Longrightarrow> map edge_id es' = map edge_id es"
proof (induction es arbitrary: es')
  case (Cons e es)
  then obtain es0 where "strip_edges es = Inr es0" "es' = e\<lparr>ge_id := Some (edge_id e)\<rparr> # es0"
    by (auto split: option.splits if_splits sum.splits)
  then show ?case using Cons.IH by (simp add: edge_id_def)
qed simp

lemma valid_variables_read:
  assumes "valid_variables vs"
  shows "map_of (case normalize_variables vs of None \<Rightarrow> [] | Some us \<Rightarrow> us) = map_of vs"
proof -
  have "js_trim [] = []" by (simp add: js_trim_def js_trim_end_def)
  then have "\<forall>p \<in> set vs. (\<lambda>(k, v). k \<noteq> []) p"
    using assms by (fastforce simp: valid_variables_def list_all_iff)
  then have "filter (\<lambda>(k, v). k \<noteq> []) vs = vs" by (simp add: filter_id_conv)
  then show ?thesis by (simp add: normalize_variables_def)
qed

lemma file_upsert_read:
  assumes "files_ok e name f" "distinct (map edge_id (sg_edges g))"
    "file_upsert e timeout attempts (same_request name g vs) f = Some (f', Inr g1)"
  shows "files_ok e name f'" "\<exists>g'. file_get e name f' = Graph_read g' \<and> same_graph g1 g'" "sg_variables g1 = Some vs"
    "valid_variables vs"
proof -
  have law: "\<And>i. se_dec e (se_enc e i) = Some i" using assms(1) by (simp add: files_ok_def)
  have up: "upsert_graph e timeout attempts (same_request name g vs) f = Some (f', Inr g1)"
    using assms(3) by (simp add: file_upsert_def)
  have d: "distinct (map edge_id (gr_edges (same_request name g vs)))" using assms(2) by (simp add: same_request_def)
  obtain t g' where g': "fs_root f' = Some t" "read_tree (se_dec e) (se_now e) name (Some t) = Graph_read g'" "same_graph g1 g'"
    using stored_is_read[of e, OF law up d] graph_listing_refl by blast
  then show "\<exists>g'. file_get e name f' = Graph_read g' \<and> same_graph g1 g'" by (simp add: file_get_def)
  obtain existing where t: "graph_target existing (same_request name g vs) (se_now e) = Inr g1"
    using upsert_locked_Inr[OF upsert_graph_Inr(2)[OF up]] by metis
  then show "sg_variables g1 = Some vs"
    by (auto simp: graph_target_def same_request_def Let_def split: if_splits sum.splits)
  have "strip_edges (sg_edges g) = Inr (sg_edges g1)"
    using t by (auto simp: graph_target_def same_request_def Let_def split: if_splits sum.splits)
  then have "map edge_id (sg_edges g1) = map edge_id (sg_edges g)" by (rule strip_edges_ids)
  moreover have "mset (map edge_id (sg_edges g')) = mset (map edge_id (sg_edges g1))"
    using g'(3) by (simp add: same_graph_def)
  ultimately have "mset (map edge_id (sg_edges g')) = mset (map edge_id (sg_edges g))" by metis
  then have "distinct (map edge_id (sg_edges g'))" using assms(2) by (metis mset_eq_imp_distinct_iff)
  then show "files_ok e name f'" using law g' by (simp add: files_ok_def file_get_def)
  have "validate_graph (se_schema e) (same_request name g vs) = Inr ()"
    using up by (auto simp: upsert_graph_def split: sum.splits)
  then show "valid_variables vs"
    by (auto simp: validate_graph_def same_request_def check_variables_Inr split: sum.splits)
qed

lemma file_upsert_refused:
  assumes "file_upsert e timeout attempts req f = Some (f', Inl err)" "err \<noteq> Persist_failed"
  shows "f' = f"
  using assms
  by (auto simp: file_upsert_def upsert_graph_def upsert_locked_def Let_def
      split: sum.splits option.splits read_result.splits prod.splits bool.splits)

interpretation files: variable_repository "file_get e" "file_upsert e timeout attempts" "files_ok e name" name now
  for e timeout attempts name now
proof unfold_locales
  fix w g vs w' g1
  assume ok: "files_ok e name w" and g: "graph_or_empty name now (file_get e name w) = Inr g"
    and up: "file_upsert e timeout attempts (same_request name g vs) w = Some (w', Inr g1)"
  have d: "distinct (map edge_id (sg_edges g))"
    using g ok by (auto simp: graph_or_empty_def files_ok_def empty_graph_def split: read_result.splits)
  note r = file_upsert_read[OF ok d up]
  then show "files_ok e name w' \<and> graph_map (file_get e name w') = map_of vs \<and> (\<exists>g'. file_get e name w' = Graph_read g')"
    using valid_variables_read[OF r(4)] by (auto simp: graph_map_def graph_vars_def same_graph_def)
next
  fix w req w' err
  assume "file_upsert e timeout attempts req w = Some (w', Inl err)" "err \<noteq> Persist_failed"
  then show "w' = w" by (rule file_upsert_refused)
qed

definition file_maps :: "store_env \<Rightarrow> string \<Rightarrow> graph_fs var_world \<Rightarrow> two_maps" where
  "file_maps e name w = (graph_map (file_get e name (fst w)), map_of (snd w))"


definition sample_vars :: "graph_fs var_world" where
  "sample_vars = (sample_fs, [(''k'', ''mine'')])"


section \<open>The list and the value used\<close>

lemma add_local_keys: "fst ` set (add_local kv items) = insert (fst kv) (fst ` set items)"
  by (cases kv) (auto simp: add_local_def update_conv dom_map_of_conv_image_fst[symmetric] split: option.splits)

definition item_ok :: "(string \<times> var_item) list \<Rightarrow> bool" where
  "item_ok items \<longleftrightarrow> distinct (map fst items) \<and> (\<forall>(k, it) \<in> set items. vi_key it = k)"

lemma item_ok_update: "item_ok items \<Longrightarrow> vi_key it = k \<Longrightarrow> item_ok (AList.update k it items)"
  using set_update_subset[of k it items] by (fastforce simp: item_ok_def distinct_update)

lemma item_ok_local: "item_ok items \<Longrightarrow> item_ok (add_local kv items)"
  by (cases kv) (auto simp: add_local_def item_ok_def split: option.splits intro!: item_ok_update[unfolded item_ok_def] dest: map_of_SomeD)

lemma graph_items_ok: "item_ok (graph_items vs)"
proof (induction vs rule: rev_induct)
  case (snoc p vs)
  then show ?case by (cases p) (auto simp: graph_items_def intro: item_ok_update)
qed (simp add: graph_items_def item_ok_def)

lemma graph_items_map:
  "distinct (map fst vs) \<Longrightarrow>
   map_of (graph_items vs) k = map_option (\<lambda>v. \<lparr>vi_key = k, vi_graph = Some v, vi_local = None\<rparr>) (map_of vs k)"
proof (induction vs rule: rev_induct)
  case (snoc p vs)
  obtain k' v where p: "p = (k', v)" by (cases p)
  have "map_of vs k' = None" using snoc.prems p by (auto simp: map_of_eq_None_iff)
  then show ?case using snoc p by (auto simp: graph_items_def map_laws map_add_def split: option.splits)
qed (simp add: graph_items_def)

lemma locals_map:
  "distinct (map fst ls) \<Longrightarrow> map_of (fold add_local ls items) k =
    (case map_of ls k of
       None \<Rightarrow> map_of items k
     | Some v \<Rightarrow> Some (case map_of items k of
         Some it \<Rightarrow> it\<lparr>vi_local := Some v\<rparr> | None \<Rightarrow> \<lparr>vi_key = k, vi_graph = None, vi_local = Some v\<rparr>))"
proof (induction ls arbitrary: k rule: rev_induct)
  case (snoc p ls)
  obtain k' v where p: "p = (k', v)" by (cases p)
  have n: "map_of ls k' = None" using snoc.prems p by (auto simp: map_of_eq_None_iff)
  then have "map_of (fold add_local ls items) k' = map_of items k'" using snoc.IH[of k'] snoc.prems by simp
  then have "map_of (add_local p (fold add_local ls items)) k = (if k = k'
      then Some (case map_of items k of Some it \<Rightarrow> it\<lparr>vi_local := Some v\<rparr> | None \<Rightarrow> \<lparr>vi_key = k, vi_graph = None, vi_local = Some v\<rparr>)
      else map_of (fold add_local ls items) k)"
    by (auto simp: p add_local_def map_laws split: option.splits)
  then show ?case using snoc n p by (auto simp: map_add_def split: option.splits)
qed simp

lemma fold_local_ok: "item_ok items \<Longrightarrow> item_ok (fold add_local ls items)"
  by (induction ls arbitrary: items) (simp_all add: item_ok_local)

lemma find_item: "item_ok items \<Longrightarrow> find (\<lambda>it. vi_key it = k) (map snd items) = map_of items k"
  by (induction items) (auto simp: item_ok_def)

text \<open>
  The value a reference resolves to is the one the list of variables shows: the local value if there
  is one, else the graph's; the list has one item per key, and a key with no item has no value.
\<close>

theorem resolve_agrees_with_list:
  assumes "list_variables get now name w = Inr items" "distinct (map fst (snd w))"
    and "\<And>g. get name (fst w) = Graph_read g \<Longrightarrow> distinct (map fst (graph_vars g))"
  shows "distinct (map vi_key items) \<and> resolve_value get name key w =
    Inr (case find (\<lambda>it. vi_key it = key) items of
           None \<Rightarrow> None
         | Some it \<Rightarrow> (case given_text (vi_local it) of Some v \<Rightarrow> Some v | None \<Rightarrow> given_text (vi_graph it)))"
proof -
  obtain g where g: "graph_or_empty name now (get name (fst w)) = Inr g"
      "items = map snd (fold add_local (snd w) (graph_items (graph_vars g)))"
    using assms(1) by (auto simp: list_variables_def split: sum.splits)
  have d: "distinct (map fst (graph_vars g))"
    using g(1) assms(3) by (auto simp: graph_or_empty_def graph_vars_def empty_graph_def split: read_result.splits)
  let ?m = "fold add_local (snd w) (graph_items (graph_vars g))"
  have ok: "item_ok ?m" by (rule fold_local_ok[OF graph_items_ok])
  then have keys: "map vi_key items = map fst ?m" by (auto simp: g(2) item_ok_def)
  have f: "find (\<lambda>it. vi_key it = key) items = map_of ?m key" by (simp add: g(2) find_item[OF ok])
  have r: "resolve_value get name key w = Inr (case given_text (map_of (snd w) key) of Some v \<Rightarrow> Some v
      | None \<Rightarrow> given_text (map_of (graph_vars g) key))"
    using g(1) by (auto simp: resolve_value_def graph_or_empty_def graph_vars_def empty_graph_def given_text_def
        split: read_result.splits option.splits)
  show ?thesis
    unfolding r f locals_map[OF assms(2)] graph_items_map[OF d] using ok keys
    by (cases "map_of (snd w) key"; cases "map_of (graph_vars g) key") (simp_all add: given_text_def item_ok_def)
qed

theorem resolve_agrees_with_list_witness:
  "resolve_value (file_get repo_sample) ''main'' ''k'' sample_vars = Inr (Some ''mine'')
   \<and> (\<exists>items. list_variables (file_get repo_sample) ''now'' ''main'' sample_vars = Inr items \<and> distinct (map vi_key items))"
proof -
  have "case list_variables (file_get repo_sample) ''now'' ''main'' sample_vars of Inl e \<Rightarrow> False
      | Inr items \<Rightarrow> find (\<lambda>it. vi_key it = ''k'') items = Some \<lparr>vi_key = ''k'', vi_graph = None, vi_local = Some ''mine''\<rparr>"
    by code_simp
  then obtain items where i: "list_variables (file_get repo_sample) ''now'' ''main'' sample_vars = Inr items"
      "find (\<lambda>it. vi_key it = ''k'') items = Some \<lparr>vi_key = ''k'', vi_graph = None, vi_local = Some ''mine''\<rparr>"
    by (auto split: sum.splits)
  have d: "distinct (map fst (snd sample_vars))" by code_simp
  have g: "case file_get repo_sample ''main'' (fst sample_vars) of Graph_read g \<Rightarrow> distinct (map fst (graph_vars g)) | _ \<Rightarrow> True"
    by code_simp
  have "\<And>g. file_get repo_sample ''main'' (fst sample_vars) = Graph_read g \<Longrightarrow> distinct (map fst (graph_vars g))"
    using g by simp
  from resolve_agrees_with_list[OF i(1) d this, of "''k''"] i show ?thesis by (simp add: given_text_def)
qed

end
