(* ===== verification/Graph_Api.thy ===== *)
theory Graph_Api
  imports LiveGraph_Sync Graph_Files
begin

text \<open>
  Graphs posted to the server: \<^verbatim>\<open>graph/controllers/graphPersist.controller.ts\<close> with its guard
  \<^verbatim>\<open>graph/graph.guard.ts\<close>, and the states of nodes, \<^verbatim>\<open>graph/nodeState.service.ts\<close> with
  \<^verbatim>\<open>graph/controllers/graph.controller.ts\<close>.  Here the file repository meets the live graph.

  The schema of the body is read off the \<open>zod\<close> object, whose checks are the documented ones;
  lodash's \<open>mergeWith\<close> is an argument.  \<^const>\<open>None\<close> as a result: the repository is still waiting for its
  lock.
\<close>

section \<open>The body of a request\<close>

definition nonempty_text :: "json option \<Rightarrow> string option" where
  "nonempty_text v = (case v of Some (JStr s) \<Rightarrow> if s = [] then None else Some s | _ \<Rightarrow> None)"

text \<open>\<open>.optional()\<close>: absent, or as the check has it.\<close>

definition optional :: "(json \<Rightarrow> 'a option) \<Rightarrow> json option \<Rightarrow> 'a option option" where
  "optional check v = (case v of None \<Rightarrow> Some None | Some j \<Rightarrow> map_option Some (check j))"

definition check_record :: "json \<Rightarrow> json option" where
  "check_record j = (case j of JObj ps \<Rightarrow> Some j | _ \<Rightarrow> None)"

definition check_text :: "json \<Rightarrow> string option" where
  "check_text j = (case j of JStr s \<Rightarrow> Some s | _ \<Rightarrow> None)"

definition check_position :: "json \<Rightarrow> json option" where
  "check_position j =
     (case (jget j ''x'', jget j ''y'') of
        (Some (JNum x), Some (JNum y)) \<Rightarrow> Some (JObj [(''x'', JNum x), (''y'', JNum y)])
      | _ \<Rightarrow> None)"

fun check_all :: "('a \<Rightarrow> 'b option) \<Rightarrow> 'a list \<Rightarrow> 'b list option" where
  "check_all f [] = Some []"
| "check_all f (x # xs) =
     (case (f x, check_all f xs) of (Some y, Some ys) \<Rightarrow> Some (y # ys) | _ \<Rightarrow> None)"

definition check_array :: "(json \<Rightarrow> 'a option) \<Rightarrow> json \<Rightarrow> 'a list option" where
  "check_array f j = (case j of JArr xs \<Rightarrow> check_all f xs | _ \<Rightarrow> None)"

definition at_most :: "int \<Rightarrow> 'a list \<Rightarrow> 'a list option" where
  "at_most n xs = (if int (length xs) \<le> n then Some xs else None)"

definition check_node :: "json \<Rightarrow> graph_node option" where
  "check_node j =
     (case (nonempty_text (jget j ''id''), nonempty_text (jget j ''template''), optional check_record (jget j ''config''),
            optional check_record (jget j ''state''), optional check_position (jget j ''position'')) of
        (Some i, Some t, Some c, Some s, Some p) \<Rightarrow>
          Some \<lparr>gn_id = i, gn_template = t, gn_config = c, gn_state = s, gn_position = p\<rparr>
      | _ \<Rightarrow> None)"

definition check_edge :: "json \<Rightarrow> graph_edge option" where
  "check_edge j =
     (case (optional check_text (jget j ''id''), nonempty_text (jget j ''source''), nonempty_text (jget j ''sourceHandle''),
            nonempty_text (jget j ''target''), nonempty_text (jget j ''targetHandle'')) of
        (Some i, Some s, Some sh, Some t, Some th) \<Rightarrow>
          Some \<lparr>ge_id = i, ge_source = s, ge_source_handle = sh, ge_target = t, ge_target_handle = th\<rparr>
      | _ \<Rightarrow> None)"

definition check_variable :: "json \<Rightarrow> (string \<times> string) option" where
  "check_variable j =
     (case (nonempty_text (jget j ''key''), nonempty_text (jget j ''value'')) of
        (Some k, Some v) \<Rightarrow> Some (k, v) | _ \<Rightarrow> None)"

definition check_version :: "json \<Rightarrow> int option" where
  "check_version j = (case j of JNum n \<Rightarrow> if n \<ge> 0 then Some n else None | _ \<Rightarrow> None)"

definition parse_upsert :: "json \<Rightarrow> graph_request option" where
  "parse_upsert body =
     (case body of
        JObj ps \<Rightarrow>
          if \<not> set (map fst ps) \<subseteq> {''name'', ''version'', ''nodes'', ''edges'', ''variables''} then None
          else
            (case (nonempty_text (jget body ''name''), optional check_version (jget body ''version''),
                   Option.bind (Option.bind (jget body ''nodes'') (check_array check_node)) (at_most 1000),
                   Option.bind (Option.bind (jget body ''edges'') (check_array check_edge)) (at_most 2000),
                   optional (check_array check_variable) (jget body ''variables'')) of
               (Some n, Some v, Some ns, Some es, Some vs) \<Rightarrow>
                 Some \<lparr>gr_name = n, gr_version = v, gr_nodes = ns, gr_edges = es, gr_variables = vs\<rparr>
             | _ \<Rightarrow> None)
      | _ \<Rightarrow> None)"

section \<open>The guard\<close>

text \<open>\<open>===\<close> on values of two parsed documents: no two objects are the same.\<close>

definition same_value :: "json option \<Rightarrow> json option \<Rightarrow> bool" where
  "same_value a b =
     (case (a, b) of
        (None, None) \<Rightarrow> True
      | (Some x, Some y) \<Rightarrow> \<not> is_object_like x \<and> x = y
      | _ \<Rightarrow> False)"

definition node_command :: "graph_node \<Rightarrow> json option" where
  "node_command n = Option.bind (gn_config n) (\<lambda>c. jget c ''command'')"

definition command_mutation :: "stored_graph \<Rightarrow> runtime \<Rightarrow> graph_node \<Rightarrow> bool" where
  "command_mutation before rt n =
     (case map_of (index_by gn_id (sg_nodes before)) (gn_id n) of
        None \<Rightarrow> False
      | Some was \<Rightarrow>
          gn_template n = ''mcpServer'' \<and> \<not> same_value (node_command was) (node_command n)
          \<and> (case get_node_status (gn_id n) rt of None \<Rightarrow> False | Some st \<Rightarrow> st \<noteq> Not_ready))"

definition guard_rejects :: "stored_graph option \<Rightarrow> graph_request \<Rightarrow> runtime \<Rightarrow> bool" where
  "guard_rejects before req rt =
     (case before of None \<Rightarrow> False | Some g \<Rightarrow> list_ex (command_mutation g rt) (gr_nodes req))"

section \<open>The controller\<close>

record graph_server =
  gs_fs :: graph_fs
  gs_live :: live_graph

record api_env =
  ae_store :: store_env
  ae_live :: env
  ae_timeout :: int
  ae_attempts :: "lock_attempt list"

definition config_entries :: "json option \<Rightarrow> (string \<times> json) list option" where
  "config_entries c = (case c of Some (JObj ps) \<Rightarrow> Some ps | _ \<Rightarrow> None)"

definition to_runtime_graph :: "stored_graph \<Rightarrow> graph_def" where
  "to_runtime_graph g =
     \<lparr>g_nodes = map (\<lambda>n. \<lparr>df_id = gn_id n, df_template = gn_template n, df_config = config_entries (gn_config n),
         df_state = config_entries (gn_state n)\<rparr>) (sg_nodes g),
      g_edges = map (\<lambda>e. \<lparr>ed_source = ge_source e, ed_source_handle = ge_source_handle e, ed_target = ge_target e,
         ed_target_handle = ge_target_handle e\<rparr>) (sg_edges g)\<rparr>"

definition read_graph :: "store_env \<Rightarrow> string \<Rightarrow> graph_fs \<Rightarrow> read_result" where
  "read_graph e name f = read_tree (se_dec e) (se_now e) name (fs_root f)"

definition get_graph :: "api_env \<Rightarrow> graph_server \<Rightarrow> graph_store_error + stored_graph" where
  "get_graph e s =
     (case read_graph (ae_store e) ''main'' (gs_fs s) of
        Read_error \<Rightarrow> Inl Unreadable
      | No_graph \<Rightarrow> Inr (empty_graph ''main'' (se_now (ae_store e)))
      | Graph_read g \<Rightarrow> Inr g)"

text \<open>What can go wrong, and the replies: an error code, or the text of the error.\<close>

datatype post_failure = Bad_schema | Command_mutation | Repository_failed graph_store_error

datatype reply_body = Error_code string "stored_graph option" | Error_text post_failure

datatype post_reply = Post_ok stored_graph | Post_refused nat reply_body

text \<open>
  The guard throws a plain error and the handler looks for a \<open>GraphError\<close>, so a refused mutation falls
  through to the last reply.
\<close>

definition failure_reply :: "post_failure \<Rightarrow> post_reply" where
  "failure_reply f =
     (case f of
        Repository_failed (Version_conflict g) \<Rightarrow> Post_refused 409 (Error_code ''VERSION_CONFLICT'' (Some g))
      | Repository_failed Lock_timeout \<Rightarrow> Post_refused 409 (Error_code ''LOCK_TIMEOUT'' None)
      | Repository_failed Persist_failed \<Rightarrow> Post_refused 500 (Error_code ''PERSIST_FAILED'' None)
      | _ \<Rightarrow> Post_refused 400 (Error_text f))"

text \<open>The nodes whose configuration a stored graph changes.\<close>

definition config_or_none :: "graph_node \<Rightarrow> json" where
  "config_or_none n = (case gn_config n of Some c \<Rightarrow> if truthy c then c else JObj [] | None \<Rightarrow> JObj [])"

definition node_config_changes :: "stored_graph \<Rightarrow> stored_graph \<Rightarrow> string list" where
  "node_config_changes before saved =
     (let prev = index_by fst (map (\<lambda>n. (gn_id n, config_or_none n)) (sg_nodes before))
      in map gn_id (filter (\<lambda>n. map_option snd (map_of prev (gn_id n)) \<noteq> Some (config_or_none n)) (sg_nodes saved)))"

definition store_and_apply :: "api_env \<Rightarrow> graph_request \<Rightarrow> graph_server \<Rightarrow> (graph_server \<times> post_reply) option" where
  "store_and_apply e req s =
     map_option (\<lambda>(f, r).
         case r of
           Inl err \<Rightarrow> (s\<lparr>gs_fs := f\<rparr>, failure_reply (Repository_failed err))
         | Inr saved \<Rightarrow>
             (s\<lparr>gs_fs := f, gs_live := fst (apply_graph (ae_live e) (to_runtime_graph saved) (gs_live s))\<rparr>, Post_ok saved))
       (upsert_graph (ae_store e) (ae_timeout e) (ae_attempts e) req (gs_fs s))"

definition post_graph :: "api_env \<Rightarrow> json \<Rightarrow> graph_server \<Rightarrow> (graph_server \<times> post_reply) option" where
  "post_graph e body s =
     (case parse_upsert body of
        None \<Rightarrow> Some (s, failure_reply Bad_schema)
      | Some req \<Rightarrow>
          (case read_graph (ae_store e) (gr_name req) (gs_fs s) of
             Read_error \<Rightarrow> Some (s, failure_reply (Repository_failed Unreadable))
           | No_graph \<Rightarrow> store_and_apply e req s
           | Graph_read before \<Rightarrow>
               if guard_rejects (Some before) req (lg_runtime (gs_live s))
               then Some (s, failure_reply Command_mutation)
               else store_and_apply e req s))"

section \<open>States of nodes\<close>

text \<open>\<open>deepMergeNodeState\<close>, on properties: arrays and plain values replace, objects are merged.\<close>

function deep_merge :: "(string \<times> json) list \<Rightarrow> (string \<times> json) list \<Rightarrow> (string \<times> json) list" where
  "deep_merge prev [] = prev"
| "deep_merge prev ((k, v) # patch) =
     deep_merge
       (AList.update k
         (case (v, map_of prev k) of
            (JObj new, Some (JObj old)) \<Rightarrow> JObj (deep_merge old new)
          | _ \<Rightarrow> v) prev) patch"
  by pat_completeness auto
termination
  by (relation "measure (\<lambda>(prev, patch). size (JObj patch))") auto

text \<open>The service: what is stored, shown by the runtime and given to the instance.\<close>

definition save_node_state ::
  "api_env \<Rightarrow> ((string \<times> json) list \<Rightarrow> (string \<times> json) list \<Rightarrow> (string \<times> json) list) \<Rightarrow> string \<Rightarrow> string \<Rightarrow>
   (string \<times> json) list \<Rightarrow> graph_server \<Rightarrow> (graph_server \<times> (string \<times> (string \<times> json) list) option) option" where
  "save_node_state e merge name node patch s =
     (let rt = lg_runtime (gs_live s);
          prev = (case get_node_state_snapshot node rt of None \<Rightarrow> [] | Some st \<Rightarrow> st);
          merged = merge prev patch
      in map_option (\<lambda>(f, r).
             case r of
               Inl err \<Rightarrow> (s\<lparr>gs_fs := f\<rparr>, None)
             | Inr g \<Rightarrow>
                 (let rt1 = update_node_state node merged rt;
                      rt2 = (case map_of (rt_nodes rt1) node of
                               None \<Rightarrow> rt1
                             | Some live \<Rightarrow> fst (ask (ae_live e) (Set_state (ln_instance live) merged) rt1))
                  in (s\<lparr>gs_fs := f, gs_live := (gs_live s)\<lparr>lg_runtime := rt2\<rparr>\<rparr>, Some (node, merged))))
           (upsert_node_state (ae_store e) (ae_timeout e) (ae_attempts e) name node (JObj merged) (gs_fs s)))"

datatype state_reply = State_ok "(string \<times> json) list" | Bad_state_payload

definition get_node_state :: "string \<Rightarrow> graph_server \<Rightarrow> (string \<times> json) list" where
  "get_node_state node s =
     (case get_node_state_snapshot node (lg_runtime (gs_live s)) of None \<Rightarrow> [] | Some st \<Rightarrow> st)"

definition put_node_state ::
  "api_env \<Rightarrow> ((string \<times> json) list \<Rightarrow> (string \<times> json) list \<Rightarrow> (string \<times> json) list) \<Rightarrow> string \<Rightarrow> json \<Rightarrow>
   graph_server \<Rightarrow> (graph_server \<times> state_reply) option" where
  "put_node_state e merge node body s =
     (case body of
        JObj [(k, JObj next)] \<Rightarrow>
          if k = ''state'' then map_option (\<lambda>(s', emitted). (s', State_ok next)) (save_node_state e merge ''main'' node next s)
          else Some (s, Bad_state_payload)
      | _ \<Rightarrow> Some (s, Bad_state_payload))"

text \<open>Provisioning by hand.\<close>

definition provision_node :: "env \<Rightarrow> string \<Rightarrow> runtime \<Rightarrow> runtime" where
  "provision_node ev node rt =
     (case map_of (rt_nodes rt) node of None \<Rightarrow> rt | Some live \<Rightarrow> provision_instance ev (ln_instance live) rt)"

definition deprovision_node :: "env \<Rightarrow> string \<Rightarrow> runtime \<Rightarrow> runtime" where
  "deprovision_node ev node rt =
     (case map_of (rt_nodes rt) node of None \<Rightarrow> rt | Some live \<Rightarrow> deprovision_instance ev (ln_instance live) rt)"

datatype action_reply = Action_done | Bad_action_payload

definition post_node_action :: "env \<Rightarrow> string \<Rightarrow> json \<Rightarrow> runtime \<Rightarrow> runtime \<times> action_reply" where
  "post_node_action ev node body rt =
     (if jget body ''action'' = Some (JStr ''provision'') then (provision_node ev node rt, Action_done)
      else if jget body ''action'' = Some (JStr ''deprovision'') then (deprovision_node ev node rt, Action_done)
      else (rt, Bad_action_payload))"

section \<open>What is stored is what runs\<close>

lemma failure_replies:
  assumes "Post_refused status reply = failure_reply f"
  shows "(f = Repository_failed Persist_failed \<and> status = 500 \<and> reply = Error_code ''PERSIST_FAILED'' None)
    \<or> (f \<noteq> Repository_failed Persist_failed \<and>
      ((status = 409 \<and> (reply = Error_code ''LOCK_TIMEOUT'' None \<or> (\<exists>g. reply = Error_code ''VERSION_CONFLICT'' (Some g)))) \<or>
       (status = 400 \<and> (\<exists>f. reply = Error_text f))))"
proof (cases f)
  case (Repository_failed err)
  then show ?thesis using assms by (cases err) (auto simp: failure_reply_def)
qed (use assms in \<open>auto simp: failure_reply_def\<close>)

lemma store_and_apply_ok:
  assumes "store_and_apply e req s = Some (s', Post_ok saved)"
  shows "upsert_graph (ae_store e) (ae_timeout e) (ae_attempts e) req (gs_fs s) = Some (gs_fs s', Inr saved)"
    "gs_live s' = fst (apply_graph (ae_live e) (to_runtime_graph saved) (gs_live s))"
proof -
  obtain f r where u: "upsert_graph (ae_store e) (ae_timeout e) (ae_attempts e) req (gs_fs s) = Some (f, r)"
      "(case r of Inl err \<Rightarrow> (s\<lparr>gs_fs := f\<rparr>, failure_reply (Repository_failed err))
        | Inr saved \<Rightarrow> (s\<lparr>gs_fs := f, gs_live := fst (apply_graph (ae_live e) (to_runtime_graph saved) (gs_live s))\<rparr>, Post_ok saved))
        = (s', Post_ok saved)"
    using assms by (auto simp: store_and_apply_def)
  have "failure_reply x \<noteq> Post_ok saved" for x
    by (auto simp: failure_reply_def split: post_failure.splits graph_store_error.splits)
  then obtain g where "r = Inr g" using u(2) by (cases r) auto
  then show "upsert_graph (ae_store e) (ae_timeout e) (ae_attempts e) req (gs_fs s) = Some (gs_fs s', Inr saved)"
    "gs_live s' = fst (apply_graph (ae_live e) (to_runtime_graph saved) (gs_live s))"
    using u by auto
qed

lemma post_graph_ok:
  assumes "post_graph e body s = Some (s', Post_ok saved)"
  obtains req where "parse_upsert body = Some req" "store_and_apply e req s = Some (s', Post_ok saved)"
    "\<And>before. read_graph (ae_store e) (gr_name req) (gs_fs s) = Graph_read before \<Longrightarrow>
      \<not> guard_rejects (Some before) req (lg_runtime (gs_live s))"
proof -
  have "failure_reply x \<noteq> Post_ok saved" for x
    by (auto simp: failure_reply_def split: post_failure.splits graph_store_error.splits)
  then show ?thesis using assms that
    by (auto simp: post_graph_def split: option.splits read_result.splits if_splits)
qed

lemma upsert_graph_target:
  assumes "upsert_graph e timeout attempts req f = Some (f', Inr g)"
  shows "\<exists>existing. graph_target existing req (se_now e) = Inr g"
  using upsert_locked_Inr[OF upsert_graph_Inr(2)[OF assms]] by metis

lemma upsert_graph_edges:
  assumes "upsert_graph e timeout attempts req f = Some (f', Inr g)"
  shows "list_all (valid_edge (se_schema e) (gr_nodes req)) (gr_edges req)"
proof -
  have v: "validate_graph (se_schema e) req = Inr ()"
    using assms by (auto simp: upsert_graph_def split: sum.splits)
  note n = upsert_graph_Inr(1)[OF assms]
  have "check_nodes (se_schema e) (gr_nodes req) [] = Inr (map gn_id (gr_nodes req))" using n by (simp add: check_nodes_Inr)
  then show ?thesis using v check_edges_Inr[OF n, of "gr_edges req"]
    by (auto simp: validate_graph_def split: sum.splits)
qed

lemma strip_edges_map: "strip_edges es = Inr es' \<Longrightarrow> es' = map (\<lambda>e. e\<lparr>ge_id := Some (edge_id e)\<rparr>) es"
proof (induction es arbitrary: es')
  case (Cons e es)
  then show ?case by (auto split: option.splits if_splits sum.splits)
qed simp

definition safe_edge :: "graph_edge \<Rightarrow> bool" where
  "safe_edge e \<longleftrightarrow> CHR '':'' \<notin> set (ge_source e) \<and> CHR ''>'' \<notin> set (ge_source_handle e) \<and> CHR '':'' \<notin> set (ge_target e)"

lemma stored_graph_ok:
  assumes "upsert_graph e timeout attempts req f = Some (f', Inr g)" "list_all safe_edge (gr_edges req)"
  shows "graph_ok (to_runtime_graph g)"
proof -
  obtain existing where t: "graph_target existing req (se_now e) = Inr g" using upsert_graph_target[OF assms(1)] by blast
  then have nodes: "sg_nodes g = map (keep_state existing) (gr_nodes req)" and "strip_edges (gr_edges req) = Inr (sg_edges g)"
    by (auto simp: graph_target_def Let_def split: if_splits sum.splits)
  then have edges: "sg_edges g = map (\<lambda>e. e\<lparr>ge_id := Some (edge_id e)\<rparr>) (gr_edges req)" by (simp add: strip_edges_map)
  note v = upsert_graph_Inr(1)[OF assms(1)] and w = upsert_graph_edges[OF assms(1)]
  have ids: "map df_id (g_nodes (to_runtime_graph g)) = map gn_id (gr_nodes req)"
    by (simp add: to_runtime_graph_def nodes o_def)
  have "ge_source x \<in> gn_id ` set (gr_nodes req) \<and> ge_target x \<in> gn_id ` set (gr_nodes req)" if "x \<in> set (gr_edges req)" for x
    using w that by (auto simp: list_all_iff valid_edge_def dest!: port_exists_node)
  moreover have "df_id ` set (g_nodes (to_runtime_graph g)) = gn_id ` set (gr_nodes req)"
    using ids by (metis list.set_map)
  ultimately show ?thesis
    using v ids assms(2)
    by (auto simp: graph_ok_def valid_nodes_def to_runtime_graph_def edges key_safe_def safe_edge_def list_all_iff)
qed

lemma live_after:
  "lg_applying lg = None \<Longrightarrow> apply_graph_internal ev g (lg_runtime lg) = (rt, Inr res) \<Longrightarrow>
   lg_runtime (fst (apply_graph ev g lg)) = rt"
  by (simp add: apply_graph_def)


text \<open>
  Once an application of a graph has failed, posted graphs are stored and acknowledged as before and
  none of them ever runs: the live graph stays what it was.
\<close>

theorem stored_but_never_run:
  assumes "lg_applying (gs_live s) = Some err" "post_graph e body s = Some (s', Post_ok saved)"
  shows "gs_live s' = gs_live s
    \<and> (\<exists>req. parse_upsert body = Some req
        \<and> upsert_graph (ae_store e) (ae_timeout e) (ae_attempts e) req (gs_fs s) = Some (gs_fs s', Inr saved))"
proof -
  obtain req where req: "parse_upsert body = Some req" "store_and_apply e req s = Some (s', Post_ok saved)"
    using post_graph_ok[OF assms(2)] by metis
  note u = store_and_apply_ok[OF req(2)]
  have "gs_live s' = gs_live s" using u(2) assms(1) by (simp add: apply_graph_def)
  then show ?thesis using req u(1) by blast
qed


text \<open>
  The guard holds through storing: if a post succeeds, the command of an MCP server that is
  provisioned and was in the graph before is the same in the stored graph.
\<close>

theorem provisioned_command_kept:
  assumes "post_graph e body s = Some (s', Post_ok saved)" "parse_upsert body = Some req"
    and "read_graph (ae_store e) (gr_name req) (gs_fs s) = Graph_read before"
    and "map_of (index_by gn_id (sg_nodes before)) (gn_id n) = Some was" "n \<in> set (sg_nodes saved)"
    and "gn_template n = ''mcpServer''" "get_node_status (gn_id n) (lg_runtime (gs_live s)) = Some st" "st \<noteq> Not_ready"
  shows "same_value (node_command was) (node_command n)"
proof -
  obtain req' where r: "parse_upsert body = Some req'" "store_and_apply e req' s = Some (s', Post_ok saved)"
      "\<And>before. read_graph (ae_store e) (gr_name req') (gs_fs s) = Graph_read before \<Longrightarrow>
        \<not> guard_rejects (Some before) req' (lg_runtime (gs_live s))"
    using post_graph_ok[OF assms(1)] by metis
  then have "req' = req" using assms(2) by simp
  have g: "\<not> list_ex (command_mutation before (lg_runtime (gs_live s))) (gr_nodes req)"
    using r(3)[unfolded \<open>req' = req\<close>, OF assms(3)] by (simp add: guard_rejects_def)
  obtain existing where "graph_target existing req (se_now (ae_store e)) = Inr saved"
    using upsert_graph_target[OF store_and_apply_ok(1)[OF r(2)]] \<open>req' = req\<close> by blast
  then have "sg_nodes saved = map (keep_state existing) (gr_nodes req)"
    by (auto simp: graph_target_def Let_def split: if_splits sum.splits)
  then obtain m where m: "m \<in> set (gr_nodes req)" "n = keep_state existing m" using assms(5) by auto
  have k: "gn_template (keep_state existing m) = gn_template m" "gn_config (keep_state existing m) = gn_config m"
    by (auto simp: keep_state_def split: option.splits)
  have "\<not> command_mutation before (lg_runtime (gs_live s)) m" using g m(1) by (auto simp: list_ex_iff)
  then show ?thesis using assms(4,6-8) m(2) k by (auto simp: command_mutation_def node_command_def)
qed

section \<open>A server\<close>

definition api_sample :: api_env where
  "api_sample = \<lparr>ae_store = repo_sample\<lparr>se_schema :=
       [\<lparr>sc_name = ''agent'', sc_source_ports = [''tools''], sc_target_ports = []\<rparr>,
        \<lparr>sc_name = ''shell'', sc_source_ports = [], sc_target_ports = [''$self'']\<rparr>]\<rparr>,
     ae_live = demo_env, ae_timeout = 5000, ae_attempts = [Created]\<rparr>"

definition server_sample :: graph_server where
  "server_sample = \<lparr>gs_fs = sample_fs, gs_live = \<lparr>lg_runtime = new_runtime, lg_applying = None\<rparr>\<rparr>"

definition body_sample :: json where
  "body_sample = JObj [(''name'', JStr ''main''), (''version'', JNum 0),
     (''nodes'', JArr [JObj [(''id'', JStr ''a''), (''template'', JStr ''agent'')], JObj [(''id'', JStr ''t''), (''template'', JStr ''shell'')]]),
     (''edges'', JArr [JObj [(''source'', JStr ''a''), (''sourceHandle'', JStr ''tools''), (''target'', JStr ''t''), (''targetHandle'', JStr ''$self'')]])]"

definition posted_ok :: "(graph_server \<times> post_reply) option \<Rightarrow> bool" where
  "posted_ok r = (case r of Some (s, Post_ok g) \<Rightarrow> lg_applying (gs_live s) = None
     \<and> gd_recreated (compute_diff \<lparr>g_nodes = [], g_edges = []\<rparr> (to_runtime_graph g)) = [] | _ \<Rightarrow> False)"

lemma sample_posted:
  obtains s' g where "post_graph api_sample body_sample server_sample = Some (s', Post_ok g)" "lg_applying (gs_live s') = None"
    "gd_recreated (compute_diff \<lparr>g_nodes = [], g_edges = []\<rparr> (to_runtime_graph g)) = []"
proof -
  have "posted_ok (post_graph api_sample body_sample server_sample)" by code_simp
  then show ?thesis using that by (auto simp: posted_ok_def split: option.splits prod.splits post_reply.splits)
qed

lemma api_sample_law: "se_dec (ae_store api_sample) (se_enc (ae_store api_sample) i) = Some i"
  by (simp add: api_sample_def repo_sample_def)

lemma api_methods_ok: "methods_ok (ae_live api_sample)"
  by (simp add: api_sample_def demo_methods_ok)


definition stuck_server :: graph_server where
  "stuck_server = server_sample\<lparr>gs_live := \<lparr>lg_runtime = new_runtime, lg_applying = Some (Node_init_error ''a'')\<rparr>\<rparr>"

theorem stored_but_never_run_witness:
  "\<exists>s' g. post_graph api_sample body_sample stuck_server = Some (s', Post_ok g) \<and> rt_nodes (lg_runtime (gs_live s')) = []
    \<and> length (sg_nodes g) = 2"
proof -
  have "case post_graph api_sample body_sample stuck_server of Some (s', Post_ok g) \<Rightarrow> length (sg_nodes g) = 2 | _ \<Rightarrow> False" by code_simp
  then obtain s' g where p: "post_graph api_sample body_sample stuck_server = Some (s', Post_ok g)" "length (sg_nodes g) = 2"
    by (auto split: option.splits prod.splits post_reply.splits)
  have "lg_applying (gs_live stuck_server) = Some (Node_init_error ''a'')" by (simp add: stuck_server_def)
  from stored_but_never_run[OF this p(1)] have "gs_live s' = gs_live stuck_server" by (rule conjunct1)
  then show ?thesis using p by (auto simp: stuck_server_def new_runtime_def)
qed

definition stale_body :: json where
  "stale_body = JObj [(''name'', JStr ''main''), (''version'', JNum 3), (''nodes'', JArr []), (''edges'', JArr [])]"


definition mcp_env :: api_env where
  "mcp_env = api_sample\<lparr>ae_store := (ae_store api_sample)\<lparr>se_schema := [\<lparr>sc_name = ''mcpServer'', sc_source_ports = [], sc_target_ports = []\<rparr>]\<rparr>,
     ae_live := demo_env\<lparr>ev_templates := \<lparr>tr_classes = [(''mcpServer'', 1)], tr_meta = []\<rparr>\<rparr>\<rparr>"

definition mcp_body :: "int \<Rightarrow> json" where
  "mcp_body v = JObj [(''name'', JStr ''main''), (''version'', JNum v), (''edges'', JArr []),
     (''nodes'', JArr [JObj [(''id'', JStr ''m''), (''template'', JStr ''mcpServer''), (''config'', JObj [(''command'', JStr ''run'')])]])]"

definition mcp_first :: "(graph_server \<times> post_reply) option" where
  "mcp_first = post_graph mcp_env (mcp_body 0) server_sample"

definition mcp_second :: "(graph_server \<times> post_reply) option" where
  "mcp_second = Option.bind mcp_first (\<lambda>p. post_graph mcp_env (mcp_body 1) (fst p))"

definition mcp_check :: bool where
  "mcp_check =
     (case (mcp_first, mcp_second) of
        (Some (s1, Post_ok g1), Some (s2, Post_ok g2)) \<Rightarrow>
          (case (read_graph (ae_store mcp_env) ''main'' (gs_fs s1), sg_nodes g2) of
             (Graph_read b, [n]) \<Rightarrow>
               (case map_of (index_by gn_id (sg_nodes b)) (gn_id n) of None \<Rightarrow> False | Some was \<Rightarrow> node_command was = Some (JStr ''run''))
               \<and> gn_template n = ''mcpServer'' \<and> get_node_status (gn_id n) (lg_runtime (gs_live s1)) = Some Ready
           | _ \<Rightarrow> False)
      | _ \<Rightarrow> False)"

lemma mcp_checked: mcp_check by code_simp

theorem provisioned_command_kept_witness:
  "\<exists>s1 s2 g1 g2 n. mcp_first = Some (s1, Post_ok g1) \<and> mcp_second = Some (s2, Post_ok g2) \<and> sg_nodes g2 = [n]
    \<and> same_value (Some (JStr ''run'')) (node_command n)"
proof -
  obtain s1 g1 s2 g2 b n was where w: "mcp_first = Some (s1, Post_ok g1)" "mcp_second = Some (s2, Post_ok g2)"
      "read_graph (ae_store mcp_env) ''main'' (gs_fs s1) = Graph_read b" "sg_nodes g2 = [n]"
      "map_of (index_by gn_id (sg_nodes b)) (gn_id n) = Some was" "node_command was = Some (JStr ''run'')"
      "gn_template n = ''mcpServer''" "get_node_status (gn_id n) (lg_runtime (gs_live s1)) = Some Ready"
    using mcp_checked unfolding mcp_check_def
    by (auto split: option.splits prod.splits post_reply.splits read_result.splits list.splits)
  have p: "post_graph mcp_env (mcp_body 1) s1 = Some (s2, Post_ok g2)"
    using w(2)[unfolded mcp_second_def w(1)] by simp
  have "case parse_upsert (mcp_body 1) of None \<Rightarrow> False | Some req \<Rightarrow> gr_name req = ''main''" by code_simp
  then obtain req where req: "parse_upsert (mcp_body 1) = Some req" "gr_name req = ''main''" by (auto split: option.splits)
  have "same_value (node_command was) (node_command n)"
    by (rule provisioned_command_kept[OF p req(1) _ w(5) _ w(7,8)]) (use w req in auto)
  then show ?thesis using w by auto
qed

section \<open>Node states\<close>

text \<open>Merging: what a patch says wins, property by property; objects on both sides are merged.\<close>

lemma deep_merge_lookup:
  assumes "distinct (map fst patch)"
  shows "map_of (deep_merge prev patch) k =
    (case (map_of patch k, map_of prev k) of
       (None, old) \<Rightarrow> old
     | (Some (JObj new), Some (JObj old)) \<Rightarrow> Some (JObj (deep_merge old new))
     | (Some v, old) \<Rightarrow> Some v)"
  using assms
proof (induction prev patch rule: deep_merge.induct)
  case (2 prev k' v patch)
  have "map_of patch k' = None" using "2.prems" by (simp add: map_of_eq_None_iff)
  then show ?case using 2 by (auto simp: map_laws split: option.splits json.splits)
qed (auto split: option.splits json.splits)

text \<open>
  Putting a node's state answers with success and the state that was sent whether or not it could be
  stored: when the repository refuses, nothing changes, and the reply is the same.
\<close>

theorem lost_state_acknowledged:
  assumes "upsert_node_state (ae_store e) (ae_timeout e) (ae_attempts e) ''main'' node
      (JObj (merge (get_node_state node s) next)) (gs_fs s) = Some (f, Inl err)" "err \<noteq> Persist_failed"
  shows "put_node_state e merge node (JObj [(''state'', JObj next)]) s = Some (s, State_ok next)"
proof -
  have "f = gs_fs s"
    using assms by (auto simp: upsert_node_state_def upsert_graph_def upsert_locked_def Let_def
      split: sum.splits option.splits read_result.splits prod.splits bool.splits if_splits)
  then show ?thesis using assms by (simp add: put_node_state_def save_node_state_def get_node_state_def Let_def)
qed

theorem lost_state_acknowledged_witness:
  "put_node_state (api_sample\<lparr>ae_attempts := [Lock_exists 6000]\<rparr>) (\<lambda>a b. b) ''a'' (JObj [(''state'', JObj [(''n'', JNum 1)])])
     server_sample = Some (server_sample, State_ok [(''n'', JNum 1)])"
proof -
  let ?e = "api_sample\<lparr>ae_attempts := [Lock_exists 6000]\<rparr>"
  let ?u = "upsert_node_state (ae_store ?e) (ae_timeout ?e) (ae_attempts ?e) ''main'' ''a''
      (JObj ((\<lambda>a b. b) (get_node_state ''a'' server_sample) [(''n'', JNum 1)])) (gs_fs server_sample)"
  have "case ?u of Some (f, Inl err) \<Rightarrow> err \<noteq> Persist_failed | _ \<Rightarrow> False" by code_simp
  then obtain f err where "?u = Some (f, Inl err)" "err \<noteq> Persist_failed" by (auto split: option.splits prod.splits sum.splits)
  from lost_state_acknowledged[where merge = "\<lambda>a b. b", OF this] show ?thesis .
qed

lemma find_updated:
  "find_index_of p xs = Some i \<Longrightarrow> p (f (xs ! i)) \<Longrightarrow> find p (xs[i := f (xs ! i)]) = Some (f (xs ! i))"
  by (induction xs arbitrary: i) (auto split: if_splits)

lemma snapshot_after_update:
  assumes "rt_last_graph rt = Some g" "node \<in> df_id ` set (g_nodes g)"
  shows "get_node_state_snapshot node (update_node_state node st rt) = Some st"
proof -
  obtain i where i: "find_index_of (\<lambda>d. df_id d = node) (g_nodes g) = Some i"
    using assms(2) find_index_of_None[of "\<lambda>d. df_id d = node" "g_nodes g"] by (cases "find_index_of (\<lambda>d. df_id d = node) (g_nodes g)") auto
  then have "df_id (g_nodes g ! i) = node" using find_index_of_Some by fastforce
  then show ?thesis
    using i find_updated[OF i, of "\<lambda>d. d\<lparr>df_state := Some st\<rparr>"] assms(1)
    by (simp add: get_node_state_snapshot_def update_node_state_def update_first_node_def)
qed

lemma stored_state_node:
  assumes "upsert_node_state e timeout attempts name node st f = Some (f', Inr saved)"
  shows "\<exists>m \<in> set (sg_nodes saved). gn_id m = node \<and> gn_state m = Some st"
proof -
  obtain req where req: "upsert_graph e timeout attempts req f = Some (f', Inr saved)"
      "\<exists>m \<in> set (gr_nodes req). gn_id m = node \<and> gn_state m = Some st"
  proof -
    define nodes where "nodes = (\<lambda>g :: stored_graph. if node \<in> gn_id ` set (sg_nodes g)
       then takeWhile (\<lambda>n. gn_id n \<noteq> node) (sg_nodes g)
         @ (hd (dropWhile (\<lambda>n. gn_id n \<noteq> node) (sg_nodes g)))\<lparr>gn_state := Some st\<rparr>
         # tl (dropWhile (\<lambda>n. gn_id n \<noteq> node) (sg_nodes g))
       else sg_nodes g @ [\<lparr>gn_id = node, gn_template = ''unknown'', gn_config = None, gn_state = Some st, gn_position = None\<rparr>])"
    define req where "req = (\<lambda>g. \<lparr>gr_name = name, gr_version = Some (sg_version g), gr_nodes = nodes g, gr_edges = sg_edges g, gr_variables = None\<rparr>)"
    have m: "\<exists>m \<in> set (gr_nodes (req g)). gn_id m = node \<and> gn_state m = Some st" for g
    proof (cases "node \<in> gn_id ` set (sg_nodes g)")
      case True
      then have "dropWhile (\<lambda>n. gn_id n \<noteq> node) (sg_nodes g) \<noteq> []" by auto
      then have "gn_id (hd (dropWhile (\<lambda>n. gn_id n \<noteq> node) (sg_nodes g))) = node" by (rule hd_dropWhile[where P = "\<lambda>n. gn_id n \<noteq> node", simplified not_not])
      then show ?thesis using True by (simp add: req_def nodes_def)
    qed (simp add: req_def nodes_def)
    have "upsert_node_state e timeout attempts name node st f = (case read_tree (se_dec e) (se_now e) name (fs_root f) of
        Read_error \<Rightarrow> Some (f, Inl Unreadable)
      | No_graph \<Rightarrow> upsert_graph e timeout attempts (req (empty_graph name (se_now e))) f
      | Graph_read g \<Rightarrow> upsert_graph e timeout attempts (req g) f)"
      unfolding upsert_node_state_def Let_def req_def nodes_def by (rule refl)
    then have "\<exists>g. upsert_graph e timeout attempts (req g) f = Some (f', Inr saved)"
      using assms by (cases "read_tree (se_dec e) (se_now e) name (fs_root f)") auto
    then show ?thesis using that m by blast
  qed
  obtain existing where "graph_target existing req (se_now e) = Inr saved" using upsert_graph_target[OF req(1)] by blast
  then have n: "sg_nodes saved = map (keep_state existing) (gr_nodes req)"
    by (auto simp: graph_target_def Let_def split: if_splits sum.splits)
  obtain m where m: "m \<in> set (gr_nodes req)" "gn_id m = node" "gn_state m = Some st" using req(2) by blast
  then have "keep_state existing m = m" by (simp add: keep_state_def)
  then show ?thesis using m n by force
qed

text \<open>
  A saved state is what the runtime shows for the node, and what the stored graph has.
\<close>

theorem saved_state_is_shown:
  assumes "save_node_state e merge name node patch s = Some (s', Some (n, merged))"
    and "rt_last_graph (lg_runtime (gs_live s)) = Some g" "node \<in> df_id ` set (g_nodes g)"
  shows "n = node \<and> merged = merge (get_node_state node s) patch \<and> get_node_state node s' = merged
    \<and> (\<exists>saved. upsert_node_state (ae_store e) (ae_timeout e) (ae_attempts e) name node (JObj merged) (gs_fs s) = Some (gs_fs s', Inr saved)
        \<and> (\<exists>m \<in> set (sg_nodes saved). gn_id m = node \<and> gn_state m = Some (JObj merged)))"
proof -
  let ?rt = "lg_runtime (gs_live s)" and ?m = "merge (get_node_state node s) patch"
  obtain f r where u: "upsert_node_state (ae_store e) (ae_timeout e) (ae_attempts e) name node (JObj ?m) (gs_fs s) = Some (f, r)"
    using assms(1) by (auto simp: save_node_state_def get_node_state_def Let_def)
  obtain saved where r: "r = Inr saved" using assms(1) u by (cases r) (auto simp: save_node_state_def get_node_state_def Let_def)
  define rt1 where "rt1 = update_node_state node ?m ?rt"
  define rt2 where "rt2 = (case map_of (rt_nodes rt1) node of
      None \<Rightarrow> rt1 | Some live \<Rightarrow> fst (ask (ae_live e) (Set_state (ln_instance live) ?m) rt1))"
  have "(s\<lparr>gs_fs := f, gs_live := (gs_live s)\<lparr>lg_runtime := rt2\<rparr>\<rparr>, Some (node, ?m)) = (s', Some (n, merged))"
    using assms(1) unfolding save_node_state_def Let_def get_node_state_def[symmetric] u r option.map prod.case sum.case option.inject
      rt1_def rt2_def by assumption
  then have s': "s' = s\<lparr>gs_fs := f, gs_live := (gs_live s)\<lparr>lg_runtime := rt2\<rparr>\<rparr>" "n = node" "merged = ?m" by auto
  have "rt_last_graph rt2 = rt_last_graph rt1" by (auto simp: rt2_def ask_def split: option.splits)
  then have "get_node_state_snapshot node rt2 = Some ?m"
    using snapshot_after_update[OF assms(2,3), of ?m] by (simp add: get_node_state_snapshot_def rt1_def)
  then have "get_node_state node s' = merged" by (simp add: get_node_state_def s')
  then show ?thesis using s' u r stored_state_node[OF u[unfolded r]] by auto
qed

definition state_saved :: "(graph_server \<times> (string \<times> (string \<times> json) list) option) option" where
  "state_saved = Option.bind mcp_first (\<lambda>p. save_node_state mcp_env (\<lambda>a b. b) ''main'' ''m'' [(''n'', JNum 1)] (fst p))"

definition state_check :: bool where
  "state_check =
     (case (mcp_first, state_saved) of
        (Some (s1, r1), Some (s2, Some (n, merged))) \<Rightarrow>
          (case rt_last_graph (lg_runtime (gs_live s1)) of None \<Rightarrow> False | Some g \<Rightarrow> list_ex (\<lambda>d. df_id d = ''m'') (g_nodes g))
      | _ \<Rightarrow> False)"

lemma state_checked: state_check by code_simp

theorem saved_state_is_shown_witness:
  "\<exists>s2. state_saved = Some (s2, Some (''m'', [(''n'', JNum 1)])) \<and> get_node_state ''m'' s2 = [(''n'', JNum 1)]"
proof -
  obtain s1 r1 s2 n merged g where w: "mcp_first = Some (s1, r1)" "state_saved = Some (s2, Some (n, merged))"
      "rt_last_graph (lg_runtime (gs_live s1)) = Some g" "list_ex (\<lambda>d. df_id d = ''m'') (g_nodes g)"
    using state_checked unfolding state_check_def by (auto split: option.splits prod.splits)
  have p: "save_node_state mcp_env (\<lambda>a b. b) ''main'' ''m'' [(''n'', JNum 1)] s1 = Some (s2, Some (n, merged))"
    using w(2)[unfolded state_saved_def w(1)] by simp
  obtain d where "d \<in> set (g_nodes g)" "df_id d = ''m''" using w(4) unfolding list_ex_iff by blast
  then have "''m'' \<in> df_id ` set (g_nodes g)" by (intro image_eqI[of _ _ d]) simp_all
  from saved_state_is_shown[OF p w(3) this] w(2) show ?thesis by auto
qed

end
