(* ===== verification/Paging.thy ===== *)
theory Paging
  imports Prelude "HOL-Library.Product_Lexorder" "HOL-Library.List_Lexorder" "HOL-Library.Char_ord"
begin

text \<open>
  How the server lists rows: selected, ordered by a key, and cut.  A listing that is too long is
  read page by page; a page says with a cursor where the next one starts.  The locale
  \<open>cursor_listing\<close> is what a client that follows cursors relies on.
\<close>

section \<open>Ordered selections\<close>

datatype sort_order = Ascending | Descending

definition in_order :: "sort_order \<Rightarrow> ('a \<Rightarrow> 'k::linorder) \<Rightarrow> 'a list \<Rightarrow> 'a list" where
  "in_order d key xs = (case d of Ascending \<Rightarrow> sort_key key xs | Descending \<Rightarrow> rev (sort_key key xs))"

definition beyond :: "sort_order \<Rightarrow> 'k::linorder \<Rightarrow> 'k \<Rightarrow> bool" where
  "beyond d a b = (case d of Ascending \<Rightarrow> a < b | Descending \<Rightarrow> b < a)"

text \<open>\<open>findFirst\<close> with an order.\<close>

definition first_by :: "sort_order \<Rightarrow> ('a \<Rightarrow> 'k::linorder) \<Rightarrow> 'a list \<Rightarrow> 'a option" where
  "first_by d key xs = (case in_order d key xs of [] \<Rightarrow> None | x # _ \<Rightarrow> Some x)"

lemma mset_in_order [simp]: "mset (in_order d key xs) = mset xs"
  by (cases d) (simp_all add: in_order_def)

lemma set_in_order [simp]: "set (in_order d key xs) = set xs"
  by (metis mset_in_order set_mset_mset)

lemma length_in_order [simp]: "length (in_order d key xs) = length xs"
  by (metis mset_in_order size_mset)

lemma distinct_in_order [simp]: "distinct (map key (in_order d key' xs)) = distinct (map key xs)"
  by (metis mset_in_order mset_map mset_eq_imp_distinct_iff)

lemma in_order_filter: "in_order d key (filter P xs) = filter P (in_order d key xs)"
  by (cases d) (simp_all add: in_order_def filter_sort flip: rev_filter)

text \<open>What is ordered is strictly ordered when keys are distinct, so a cursor cuts it exactly.\<close>

lemma in_order_sorted:
  assumes "distinct (map key xs)"
  shows "sorted_wrt (\<lambda>x y. beyond d (key x) (key y)) (in_order d key xs)"
proof -
  have "sorted (map key (sort_key key xs))" "distinct (map key (sort_key key xs))"
    using assms by (simp_all add: distinct_map)
  then have "sorted_wrt (<) (map key (sort_key key xs))" by (rule strict_sorted_iff[THEN iffD2, OF conjI])
  then have s: "sorted_wrt (\<lambda>x y. key x < key y) (sort_key key xs)" by (simp add: sorted_wrt_map)
  then show ?thesis by (cases d) (simp_all add: in_order_def beyond_def sorted_wrt_rev)
qed

lemma beyond_irrefl [simp]: "\<not> beyond d a a"
  by (cases d) (simp_all add: beyond_def)

lemma beyond_asym: "beyond d a b \<Longrightarrow> \<not> beyond d b a"
  by (cases d) (auto simp: beyond_def)

lemma in_order_after:
  assumes "distinct (map key xs)" "in_order d key xs = ys @ r # zs"
  shows "filter (\<lambda>x. beyond d (key r) (key x)) (in_order d key xs) = zs"
proof -
  have s: "sorted_wrt (\<lambda>x y. beyond d (key x) (key y)) (ys @ r # zs)" using in_order_sorted[OF assms(1)] assms(2) by metis
  then have "filter (\<lambda>x. beyond d (key r) (key x)) ys = []" "filter (\<lambda>x. beyond d (key r) (key x)) zs = zs"
    by (auto simp: sorted_wrt_append filter_empty_conv filter_id_conv dest: beyond_asym)
  then show ?thesis by (simp add: assms(2))
qed

lemma first_by_bounds:
  assumes "x \<in> set xs"
  shows "\<exists>a b. first_by Ascending key xs = Some a \<and> first_by Descending key xs = Some b \<and> key a \<le> key x \<and> key x \<le> key b"
proof -
  have s: "sorted (map key (sort_key key xs))" and x: "x \<in> set (sort_key key xs)" using assms by simp_all
  obtain a ys where a: "sort_key key xs = a # ys" using x by (cases "sort_key key xs") auto
  obtain b zs where b: "rev (sort_key key xs) = b # zs" unfolding a by (cases "rev (a # ys)") auto
  have "sort_key key xs = rev zs @ [b]" using b by (metis rev_rev_ident rev.simps(2))
  then have "key x \<le> key b" using s x by (auto simp: sorted_append)
  moreover have "key a \<le> key x" using s x by (auto simp: a)
  moreover have "first_by Ascending key xs = Some a" by (simp add: first_by_def in_order_def a)
  moreover have "first_by Descending key xs = Some b" by (simp add: first_by_def in_order_def b)
  ultimately show ?thesis by blast
qed

section \<open>Pages\<close>

text \<open>One row more than a page holds is read, to know whether there is another page.\<close>

definition page :: "('c option \<Rightarrow> nat \<Rightarrow> 'a list) \<Rightarrow> ('a \<Rightarrow> 'c) \<Rightarrow> nat \<Rightarrow> 'c option \<Rightarrow> 'a list \<times> 'c option" where
  "page fetch cursor_of limit c =
     (let rows = fetch c (Suc limit); items = take limit rows
      in (items, if limit < length rows then Some (cursor_of (last items)) else None))"

text \<open>A client that follows cursors for at most so many pages, and one that reads until nothing comes.\<close>

fun follow :: "nat \<Rightarrow> ('c option \<Rightarrow> 'a list \<times> 'c option) \<Rightarrow> 'c option \<Rightarrow> 'a list list option" where
  "follow 0 get c = None"
| "follow (Suc k) get c =
     (case get c of
        (items, None) \<Rightarrow> Some [items]
      | (items, Some c') \<Rightarrow> map_option ((#) items) (follow k get (Some c')))"

fun poll :: "nat \<Rightarrow> ('c option \<Rightarrow> 'a list) \<Rightarrow> ('a \<Rightarrow> 'c) \<Rightarrow> 'c option \<Rightarrow> 'a list list option" where
  "poll 0 get cursor_of c = None"
| "poll (Suc k) get cursor_of c =
     (case get c of
        [] \<Rightarrow> Some []
      | items \<Rightarrow> map_option ((#) items) (poll k get cursor_of (Some (cursor_of (last items)))))"

lemma follow_map:
  "follow k (\<lambda>c. case get c of (items, next) \<Rightarrow> (map f items, next)) c = map_option (map (map f)) (follow k get c)"
proof (induction k arbitrary: c)
  case (Suc k)
  obtain items n where "get c = (items, n)" by (cases "get c")
  then show ?case by (cases n) (simp_all add: Suc.IH option.map_comp comp_def)
qed simp

locale cursor_listing =
  fixes ok :: "'s \<Rightarrow> bool"
    and listing :: "'s \<Rightarrow> 'a list"
    and fetch :: "'s \<Rightarrow> 'c option \<Rightarrow> nat \<Rightarrow> 'a list"
    and cursor_of :: "'a \<Rightarrow> 'c"
  assumes fetch_first: "ok s \<Longrightarrow> fetch s None n = take n (listing s)"
    and fetch_next: "ok s \<Longrightarrow> listing s = xs @ r # ys \<Longrightarrow> fetch s (Some (cursor_of r)) n = take n ys"
begin

definition stands_at :: "'s \<Rightarrow> 'c option \<Rightarrow> 'a list \<Rightarrow> bool" where
  "stands_at s c rest \<longleftrightarrow> (\<forall>n. fetch s c n = take n rest) \<and> (\<exists>xs. listing s = xs @ rest)"

lemma stands_first: "ok s \<Longrightarrow> stands_at s None (listing s)"
  by (simp add: stands_at_def fetch_first)

lemma stands_next:
  assumes "ok s" "stands_at s c rest" "0 < n" "rest \<noteq> []"
  shows "stands_at s (Some (cursor_of (last (take n rest)))) (drop n rest)"
proof -
  obtain xs where xs: "listing s = xs @ rest" using assms(2) by (auto simp: stands_at_def)
  have ne: "take n rest \<noteq> []" using assms by simp
  have "listing s = (xs @ butlast (take n rest)) @ last (take n rest) # drop n rest"
    using xs append_butlast_last_id[OF ne] append_take_drop_id[of n rest] by (metis append.assoc append_Cons append_Nil)
  from fetch_next[OF assms(1) this] xs show ?thesis
    unfolding stands_at_def by (metis append.assoc append_take_drop_id)
qed

lemma follow_rest:
  assumes "ok s" "0 < limit" "stands_at s c rest" "length rest < k"
  shows "\<exists>pages. follow k (page (fetch s) cursor_of limit) c = Some pages \<and> concat pages = rest
    \<and> (\<forall>p \<in> set (butlast pages). length p = limit)"
  using assms(3,4)
proof (induction k arbitrary: c rest)
  case (Suc k)
  have f: "fetch s c (Suc limit) = take (Suc limit) rest" using Suc.prems(1) by (simp add: stands_at_def)
  show ?case
  proof (cases "limit < length rest")
    case False
    then have "page (fetch s) cursor_of limit c = (rest, None)" using f by (simp add: page_def)
    then show ?thesis by simp
  next
    case True
    have "rest \<noteq> []" using True by auto
    from stands_next[OF assms(1) Suc.prems(1) assms(2) this]
    have st: "stands_at s (Some (cursor_of (last (take limit rest)))) (drop limit rest)" .
    have "length (drop limit rest) < k" using Suc.prems(2) True assms(2) by auto
    from Suc.IH[OF st this] obtain pages where p:
      "follow k (page (fetch s) cursor_of limit) (Some (cursor_of (last (take limit rest)))) = Some pages"
      "concat pages = drop limit rest" "\<forall>p \<in> set (butlast pages). length p = limit" by blast
    have "pages \<noteq> []" using p(2) True by auto
    moreover have "page (fetch s) cursor_of limit c = (take limit rest, Some (cursor_of (last (take limit rest))))"
      using f True by (simp add: page_def Let_def min_def)
    ultimately show ?thesis using p True by simp
  qed
qed simp

text \<open>Following the cursors from the start shows every row once, in order; every page but the last is full.\<close>

lemma follow_all:
  assumes "ok s" "0 < limit" "length (listing s) < k"
  shows "\<exists>pages. follow k (page (fetch s) cursor_of limit) None = Some pages \<and> concat pages = listing s
    \<and> (\<forall>p \<in> set (butlast pages). length p = limit)"
  by (rule follow_rest[OF assms(1,2) stands_first[OF assms(1)] assms(3)])

lemma poll_rest:
  assumes "ok s" "0 < limit" "stands_at s c rest" "length rest < k"
  shows "\<exists>pages. poll k (\<lambda>c. fetch s c limit) cursor_of c = Some pages \<and> concat pages = rest"
  using assms(3,4)
proof (induction k arbitrary: c rest)
  case (Suc k)
  have f: "fetch s c limit = take limit rest" using Suc.prems(1) by (simp add: stands_at_def)
  show ?case
  proof (cases "rest = []")
    case True
    then show ?thesis using f by simp
  next
    case False
    from stands_next[OF assms(1) Suc.prems(1) assms(2) this]
    have st: "stands_at s (Some (cursor_of (last (take limit rest)))) (drop limit rest)" .
    have "length (drop limit rest) < k" using Suc.prems(2) False assms(2) by (cases rest) auto
    from Suc.IH[OF st this] obtain pages where
      "poll k (\<lambda>c. fetch s c limit) cursor_of (Some (cursor_of (last (take limit rest)))) = Some pages"
      "concat pages = drop limit rest" by blast
    moreover obtain y ys where "take limit rest = y # ys" using False assms(2) by (cases rest; cases limit) auto
    ultimately show ?thesis using f append_take_drop_id[of limit rest] by (simp del: append_take_drop_id)
  qed
qed simp

lemma poll_all:
  assumes "ok s" "0 < limit" "length (listing s) < k"
  shows "\<exists>pages. poll k (\<lambda>c. fetch s c limit) cursor_of None = Some pages \<and> concat pages = listing s"
  by (rule poll_rest[OF assms(1,2) stands_first[OF assms(1)] assms(3)])

end

section \<open>Grouping\<close>

text \<open>\<open>groupBy\<close> with a count: one row for each value that occurs; and a table of counts that starts with zeros.\<close>

definition group_counts :: "('a \<Rightarrow> 'k) \<Rightarrow> 'a list \<Rightarrow> ('k \<times> nat) list" where
  "group_counts key rows = map (\<lambda>k. (k, length (filter (\<lambda>r. key r = k) rows))) (remdups (map key rows))"

definition counts_over :: "'k list \<Rightarrow> ('k \<times> nat) list \<Rightarrow> ('k \<times> nat) list" where
  "counts_over ks rows = fold (\<lambda>(k, n). AList.update k n) rows (map (\<lambda>k. (k, 0)) ks)"

lemma sum_of_groups:
  assumes "finite K" "key ` set rows \<subseteq> K"
  shows "(\<Sum>k \<in> K. length (filter (\<lambda>r. key r = k) rows)) = length rows"
  using assms(2)
proof (induction rows)
  case (Cons a rows)
  have "(\<Sum>k \<in> K. length (filter (\<lambda>r. key r = k) (a # rows)))
      = (\<Sum>k \<in> K. (if key a = k then 1 else 0) + length (filter (\<lambda>r. key r = k) rows))"
    by (rule sum.cong) auto
  also have "\<dots> = 1 + length rows" using Cons assms(1) by (simp add: sum.distrib sum.delta)
  finally show ?case by simp
qed simp

lemma group_counts_sum: "sum_list (map snd (group_counts key rows)) = length rows"
proof -
  have "sum_list (map snd (group_counts key rows)) = (\<Sum>k \<in> set (map key rows). length (filter (\<lambda>r. key r = k) rows))"
    unfolding group_counts_def map_map comp_def snd_conv by (subst sum_list_distinct_conv_sum_set) simp_all
  also have "\<dots> = length rows" by (rule sum_of_groups) simp_all
  finally show ?thesis .
qed

lemma map_of_fold_update:
  "distinct (map fst rows) \<Longrightarrow>
    map_of (fold (\<lambda>(k, n). AList.update k n) rows m) k = (case map_of rows k of None \<Rightarrow> map_of m k | Some n \<Rightarrow> Some n)"
proof (induction rows arbitrary: m)
  case (Cons r rows)
  then have "map_of rows (fst r) = None" by (simp add: map_of_eq_None_iff)
  then show ?case using Cons by (cases r) (auto simp: map_laws split: option.split)
qed simp

lemma map_of_graph: "k \<in> set ks \<Longrightarrow> map_of (map (\<lambda>k. (k, f k)) ks) k = Some (f k)"
  by (induction ks) auto

lemma map_of_counts:
  assumes "k \<in> set ks"
  shows "map_of (counts_over ks (group_counts key rows)) k = Some (length (filter (\<lambda>r. key r = k) rows))"
proof -
  have d: "distinct (map fst (group_counts key rows))" by (simp add: group_counts_def comp_def)
  have z: "map_of (map (\<lambda>k. (k, 0::nat)) ks) k = Some 0" using assms by (induction ks) auto
  show ?thesis
  proof (cases "k \<in> key ` set rows")
    case True
    then have "map_of (group_counts key rows) k = Some (length (filter (\<lambda>r. key r = k) rows))"
      using map_of_graph[of k "remdups (map key rows)" "\<lambda>k. length (filter (\<lambda>r. key r = k) rows)"] by (simp add: group_counts_def)
    then show ?thesis by (simp add: counts_over_def map_of_fold_update[OF d])
  next
    case False
    then have "map_of (group_counts key rows) k = None" "filter (\<lambda>r. key r = k) rows = []"
      by (auto simp: group_counts_def map_of_eq_None_iff filter_empty_conv)
    then show ?thesis using z by (simp add: counts_over_def map_of_fold_update[OF d])
  qed
qed

section \<open>Listings cut by a key\<close>

text \<open>The rows beyond the key of the cursor, in order.\<close>

definition keyset_fetch :: "sort_order \<Rightarrow> ('a \<Rightarrow> 'k::linorder) \<Rightarrow> 'a list \<Rightarrow> 'k option \<Rightarrow> nat \<Rightarrow> 'a list" where
  "keyset_fetch d key rows c n =
     take n (in_order d key (case c of None \<Rightarrow> rows | Some k \<Rightarrow> filter (\<lambda>r. beyond d k (key r)) rows))"

lemma keyset_first: "keyset_fetch d key rows None n = take n (in_order d key rows)"
  by (simp add: keyset_fetch_def)

lemma keyset_next:
  assumes "distinct (map key rows)" "in_order d key rows = xs @ r # ys"
  shows "keyset_fetch d key rows (Some (key r)) n = take n ys"
  using in_order_after[OF assms] by (simp add: keyset_fetch_def in_order_filter)

text \<open>Pages by number: together the first pages are the first rows.\<close>

definition offset_page :: "nat \<Rightarrow> nat \<Rightarrow> 'a list \<Rightarrow> 'a list" where
  "offset_page per_page number rows = take per_page (drop ((number - 1) * per_page) rows)"

lemma offset_pages:
  "concat (map (\<lambda>i. offset_page per_page (Suc i) rows) [0..<n]) = take (n * per_page) rows"
proof (induction n)
  case (Suc n)
  have "take (n * per_page) rows @ take per_page (drop (n * per_page) rows) = take (per_page + n * per_page) rows"
    unfolding add.commute[of per_page] take_add ..
  with Suc show ?case by (simp add: offset_page_def)
qed simp

end
