(* ===== verification/Run_Events.thy ===== *)
theory Run_Events
  imports Context_Items Paging
begin

text \<open>
  The time line of runs, \<^verbatim>\<open>events/run-events.service.ts\<close>: what a run did, in tables.

  A table is a list of rows.  \<open>uid\<close> gives the identifiers the database generates, numbered by
  \<open>td_next\<close>; context items keep their store.  Times are instants in milliseconds; the rendering of instants as text is left out.  An
  operation that fails leaves the rows it has written; the transaction around it, where there is one,
  discards them.  The checks of foreign keys are left out: callers pass rows that exist.
\<close>

section \<open>Tables\<close>

datatype run_event_type = Invocation_message | Injection | Llm_call | Tool_execution | Summarization_event

datatype run_event_status = Ev_pending | Ev_running | Ev_success | Ev_error | Ev_cancelled

datatype source_kind = Internal | Tracing

datatype run_state = Run_running | Run_finished | Run_terminated

datatype exec_status = Exec_success | Exec_error

datatype stream_source = Stdout | Stderr

datatype stream_status = Out_success | Out_error | Out_timeout | Out_idle_timeout | Out_cancelled | Out_truncated

datatype direction = Input | Reply

definition run_event_types :: "run_event_type list" where
  "run_event_types = [Invocation_message, Injection, Llm_call, Tool_execution, Summarization_event]"

definition run_event_statuses :: "run_event_status list" where
  "run_event_statuses = [Ev_pending, Ev_running, Ev_success, Ev_error, Ev_cancelled]"

record run_row =
  rn_id :: string
  rn_thread :: string
  rn_state :: run_state
  rn_created :: int
  rn_updated :: int

record run_event =
  re_id :: string
  re_run :: string
  re_thread :: string
  re_type :: run_event_type
  re_status :: run_event_status
  re_ts :: int
  re_started :: "int option"
  re_ended :: "int option"
  re_duration :: "int option"
  re_node :: "string option"
  re_source :: source_kind
  re_span :: "string option"
  re_error_code :: "string option"
  re_error_message :: "string option"
  re_metadata :: json
  re_key :: "string option"

record message_row =
  mg_id :: string
  mg_kind :: string
  mg_text :: "string option"
  mg_source :: json
  mg_created :: int

record event_message =
  em_event :: string
  em_message :: string
  em_role :: string

record injection_row =
  in_event :: string
  in_messages :: "string list"
  in_reason :: "string option"

record token_usage =
  tu_input :: "int option"
  tu_cached :: "int option"
  tu_output :: "int option"
  tu_reasoning :: "int option"
  tu_total :: "int option"

record llm_row =
  lc_event :: string
  lc_provider :: "string option"
  lc_model :: "string option"
  lc_temperature :: "int option"
  lc_top_p :: "int option"
  lc_stop_reason :: "string option"
  lc_context :: "string list"
  lc_new_count :: nat
  lc_text :: "string option"
  lc_raw :: json
  lc_usage :: token_usage

record context_link =
  cl_id :: string
  cl_event :: string
  cl_item :: string
  cl_idx :: nat
  cl_direction :: direction
  cl_new :: bool
  cl_created :: int

record llm_tool_call =
  tk_event :: string
  tk_call :: string
  tk_name :: string
  tk_arguments :: json
  tk_idx :: nat

record tool_run =
  tr_event :: string
  tr_llm_event :: "string option"
  tr_name :: string
  tr_call :: "string option"
  tr_input :: json
  tr_output :: json
  tr_status :: exec_status
  tr_error :: "string option"
  tr_raw :: json

record summary_row =
  sm_event :: string
  sm_old_tokens :: "int option"
  sm_text :: string
  sm_new_count :: int
  sm_raw :: json

record output_chunk =
  ck_event :: string
  ck_seq :: int
  ck_stream_seq :: int
  ck_source :: stream_source
  ck_data :: string
  ck_ts :: int
  ck_bytes :: int

record output_terminal =
  ot_event :: string
  ot_exit :: "int option"
  ot_status :: stream_status
  ot_bytes_out :: int
  ot_bytes_err :: int
  ot_chunks :: int
  ot_dropped :: int
  ot_path :: "string option"
  ot_message :: "string option"
  ot_ts :: int

record attachment =
  at_event :: string
  at_id :: string
  at_kind :: string
  at_gzip :: bool
  at_size :: int
  at_json :: json
  at_text :: "string option"

record timeline_db =
  td_next :: nat
  td_runs :: "run_row list"
  td_messages :: "message_row list"
  td_events :: "run_event list"
  td_event_messages :: "event_message list"
  td_injections :: "injection_row list"
  td_llm_calls :: "llm_row list"
  td_context_links :: "context_link list"
  td_tool_calls :: "llm_tool_call list"
  td_tool_runs :: "tool_run list"
  td_summaries :: "summary_row list"
  td_chunks :: "output_chunk list"
  td_terminals :: "output_terminal list"
  td_attachments :: "attachment list"
  td_store :: context_store

datatype db_error = Unique_violation | Record_missing | Guard_refused guard_error

definition find_row :: "('a \<Rightarrow> string) \<Rightarrow> string \<Rightarrow> 'a list \<Rightarrow> 'a option" where
  "find_row key i rows = List.find (\<lambda>r. key r = i) rows"

definition update_rows :: "('a \<Rightarrow> bool) \<Rightarrow> ('a \<Rightarrow> 'a) \<Rightarrow> 'a list \<Rightarrow> 'a list" where
  "update_rows p f rows = map (\<lambda>r. if p r then f r else r) rows"

lemma find_row_Some: "find_row key i rows = Some r \<Longrightarrow> r \<in> set rows \<and> key r = i"
  by (auto simp: find_row_def find_Some_iff)

lemma find_row_None: "find_row key i rows = None \<longleftrightarrow> i \<notin> key ` set rows"
  by (auto simp: find_row_def find_None_iff)

lemma find_row_distinct: "distinct (map key rows) \<Longrightarrow> r \<in> set rows \<Longrightarrow> find_row key (key r) rows = Some r"
proof -
  assume d: "distinct (map key rows)" and r: "r \<in> set rows"
  have "find_row key (key r) rows \<noteq> None" using r by (simp add: find_row_None)
  then obtain x where x: "find_row key (key r) rows = Some x" by blast
  with find_row_Some[OF x] d r show ?thesis by (metis distinct_map inj_onD)
qed

lemma keys_update_rows [simp]: "(\<And>r. key (f r) = key r) \<Longrightarrow> map key (update_rows p f rows) = map key rows"
  by (simp add: update_rows_def)

lemma find_row_update:
  "(\<And>r. key (f r) = key r) \<Longrightarrow> find_row key i (update_rows (\<lambda>r. key r = j) f rows)
    = (if i = j then map_option f (find_row key i rows) else find_row key i rows)"
  by (induction rows) (auto simp: find_row_def update_rows_def)

lemma find_row_append [simp]:
  "find_row key i (rows @ rows') = (case find_row key i rows of None \<Rightarrow> find_row key i rows' | Some r \<Rightarrow> Some r)"
  by (induction rows) (auto simp: find_row_def)

lemma find_row_single [simp]: "find_row key i [r] = (if key r = i then Some r else None)"
  by (simp add: find_row_def)

section \<open>Values on their way into a table\<close>

definition max_inline_text :: nat where
  "max_inline_text = 32768"

text \<open>
  \<open>sanitizeToolOutputText\<close> also strips two replacement characters or a byte order mark at the start;
  strings of the model have no code units above 255.
\<close>

definition sanitize_tool_output_text :: "string option \<Rightarrow> string option" where
  "sanitize_tool_output_text v = map_option (filter (\<lambda>c. c \<noteq> nul)) v"

definition truncate_text :: "string option \<Rightarrow> string option" where
  "truncate_text t = (case t of None \<Rightarrow> None | Some s \<Rightarrow> Some (if length s \<le> max_inline_text then s else take max_inline_text s))"

definition sanitize_inline_text :: "string option \<Rightarrow> string option" where
  "sanitize_inline_text v = map_option (filter (\<lambda>c. c \<noteq> nul)) v"

definition ensure_json :: "json option \<Rightarrow> json option" where
  "ensure_json v = (case v of None \<Rightarrow> None | Some JNull \<Rightarrow> Some JNull | Some w \<Rightarrow> to_prisma_json_value w)"

definition json_or_null :: "json option \<Rightarrow> json" where
  "json_or_null v =
     (case v of
        None \<Rightarrow> JNull
      | Some JNull \<Rightarrow> JNull
      | Some w \<Rightarrow> (case to_prisma_json_value w of None \<Rightarrow> JNull | Some u \<Rightarrow> u))"

record call_record =
  cr_call :: string
  cr_name :: string
  cr_arguments :: "json option"

definition sanitize_call_arguments :: "nat \<Rightarrow> json option \<Rightarrow> json" where
  "sanitize_call_arguments i v =
     (case v of
        None \<Rightarrow> JNull
      | Some JNull \<Rightarrow> JNull
      | Some w \<Rightarrow> (case sanitize_json False In_payload [''toolCalls'', digits i, ''arguments''] w of Inl e \<Rightarrow> w | Inr u \<Rightarrow> u))"

definition sanitize_tool_call_records :: "string \<Rightarrow> call_record list \<Rightarrow> llm_tool_call list" where
  "sanitize_tool_call_records event calls =
     map (\<lambda>(i, c). \<lparr>tk_event = event, tk_call = cr_call c, tk_name = cr_name c,
                     tk_arguments = sanitize_call_arguments i (cr_arguments c), tk_idx = i\<rparr>) (enumerate 0 calls)"

section \<open>Recording what happens\<close>

record new_event =
  nv_run :: string
  nv_thread :: string
  nv_type :: run_event_type
  nv_status :: run_event_status
  nv_ts :: "int option"
  nv_started :: "int option"
  nv_node :: "string option"
  nv_source :: source_kind
  nv_span :: "string option"
  nv_metadata :: "json option"
  nv_key :: "string option"

text \<open>The arguments of \<open>createEvent\<close> with its defaults.\<close>

definition event_data :: "string \<Rightarrow> string \<Rightarrow> run_event_type \<Rightarrow> new_event" where
  "event_data run thread ty =
     \<lparr>nv_run = run, nv_thread = thread, nv_type = ty, nv_status = Ev_success, nv_ts = None, nv_started = None,
      nv_node = None, nv_source = Internal, nv_span = None, nv_metadata = None, nv_key = None\<rparr>"

definition create_event ::
  "(nat \<Rightarrow> string) \<Rightarrow> int \<Rightarrow> new_event \<Rightarrow> 'a timeline_db_scheme \<Rightarrow> 'a timeline_db_scheme \<times> (db_error + run_event)" where
  "create_event uid now d db =
     (if nv_key d \<noteq> None \<and> nv_key d \<in> re_key ` set (td_events db) then (db, Inl Unique_violation)
      else
        let e = \<lparr>re_id = uid (td_next db), re_run = nv_run d, re_thread = nv_thread d, re_type = nv_type d,
                 re_status = nv_status d, re_ts = (case nv_ts d of None \<Rightarrow> now | Some t \<Rightarrow> t), re_started = nv_started d,
                 re_ended = None, re_duration = None, re_node = nv_node d, re_source = nv_source d, re_span = nv_span d,
                 re_error_code = None, re_error_message = None,
                 re_metadata = (case nv_metadata d of None \<Rightarrow> JNull | Some m \<Rightarrow> m), re_key = nv_key d\<rparr>
        in (db\<lparr>td_next := Suc (td_next db), td_events := td_events db @ [e]\<rparr>, Inr e))"

definition record_invocation_message ::
  "(nat \<Rightarrow> string) \<Rightarrow> int \<Rightarrow> new_event \<Rightarrow> string \<Rightarrow> string \<Rightarrow> 'a timeline_db_scheme \<Rightarrow>
   'a timeline_db_scheme \<times> (db_error + run_event)" where
  "record_invocation_message uid now d message role db =
     (case create_event uid now (d\<lparr>nv_metadata := ensure_json (nv_metadata d)\<rparr>) db of
        (db1, Inl e) \<Rightarrow> (db1, Inl e)
      | (db1, Inr e) \<Rightarrow>
          (db1\<lparr>td_event_messages := td_event_messages db1 @ [\<lparr>em_event = re_id e, em_message = message, em_role = role\<rparr>]\<rparr>, Inr e))"

definition record_injection ::
  "(nat \<Rightarrow> string) \<Rightarrow> int \<Rightarrow> new_event \<Rightarrow> string list \<Rightarrow> string option \<Rightarrow> 'a timeline_db_scheme \<Rightarrow>
   'a timeline_db_scheme \<times> (db_error + run_event)" where
  "record_injection uid now d messages reason db =
     (case create_event uid now (d\<lparr>nv_metadata := ensure_json (nv_metadata d)\<rparr>) db of
        (db1, Inl e) \<Rightarrow> (db1, Inl e)
      | (db1, Inr e) \<Rightarrow>
          (db1\<lparr>td_injections := td_injections db1 @ [\<lparr>in_event = re_id e, in_messages = messages, in_reason = reason\<rparr>]\<rparr>, Inr e))"

definition record_summarization ::
  "(nat \<Rightarrow> string) \<Rightarrow> int \<Rightarrow> new_event \<Rightarrow> string \<Rightarrow> int option \<Rightarrow> int \<Rightarrow> json option \<Rightarrow> 'a timeline_db_scheme \<Rightarrow>
   'a timeline_db_scheme \<times> (db_error + run_event)" where
  "record_summarization uid now d summary tokens fresh raw db =
     (case create_event uid now (d\<lparr>nv_metadata := ensure_json (nv_metadata d)\<rparr>) db of
        (db1, Inl e) \<Rightarrow> (db1, Inl e)
      | (db1, Inr e) \<Rightarrow>
          (db1\<lparr>td_summaries := td_summaries db1 @
             [\<lparr>sm_event = re_id e, sm_old_tokens = tokens,
               sm_text = (case truncate_text (Some summary) of None \<Rightarrow> [] | Some t \<Rightarrow> t),
               sm_new_count = fresh, sm_raw = json_or_null raw\<rparr>]\<rparr>, Inr e))"

text \<open>The links of a model call to context items are numbered on from the highest index it has.\<close>

record new_link =
  nl_item :: string
  nl_direction :: direction
  nl_new :: bool
  nl_created :: "int option"

definition next_link_idx :: "string \<Rightarrow> context_link list \<Rightarrow> nat" where
  "next_link_idx event links = foldr max (map (\<lambda>l. Suc (cl_idx l)) (filter (\<lambda>l. cl_event l = event) links)) 0"

definition append_llm_call_context_items ::
  "(nat \<Rightarrow> string) \<Rightarrow> int \<Rightarrow> string \<Rightarrow> new_link list \<Rightarrow> 'a timeline_db_scheme \<Rightarrow> 'a timeline_db_scheme" where
  "append_llm_call_context_items uid now event items db =
     (let kept = filter (\<lambda>i. js_trim (nl_item i) \<noteq> []) items
      in if kept = [] then db
         else
           db\<lparr>td_next := td_next db + length kept,
              td_context_links := td_context_links db @
                map (\<lambda>(n, i). \<lparr>cl_id = uid (td_next db + n), cl_event = event, cl_item = nl_item i,
                                cl_idx = next_link_idx event (td_context_links db) + n, cl_direction = nl_direction i,
                                cl_new = nl_new i, cl_created = (case nl_created i of None \<Rightarrow> now | Some t \<Rightarrow> t)\<rparr>)
                  (enumerate 0 kept)\<rparr>)"

definition resolve_context_item_ids ::
  "bool \<Rightarrow> (string \<Rightarrow> string \<Rightarrow> bool) \<Rightarrow> string list \<Rightarrow> context_item_input list \<Rightarrow> 'a timeline_db_scheme \<Rightarrow>
   'a timeline_db_scheme \<times> (db_error + string list)" where
  "resolve_context_item_ids guard le ids inputs db =
     (let provided = filter (\<lambda>i. js_trim i \<noteq> []) ids
      in if provided \<noteq> [] then (db, Inr provided)
         else if inputs = [] then (db, Inr [])
         else
           (case normalize_context_items guard le inputs of
              Inl e \<Rightarrow> (db, Inl (Guard_refused e))
            | Inr normalized \<Rightarrow>
                (case upsert_normalized guard (td_store db) normalized of
                   (store, Inl e) \<Rightarrow> (db\<lparr>td_store := store\<rparr>, Inr [])
                 | (store, Inr created) \<Rightarrow> (db\<lparr>td_store := store\<rparr>, Inr created))))"

text \<open>The identifiers that are new, each counted where it stands first.\<close>

fun new_context_ids :: "string list \<Rightarrow> string list \<Rightarrow> string list" where
  "new_context_ids candidates [] = []"
| "new_context_ids candidates (i # ids) =
     (if i \<in> set candidates then i # new_context_ids (removeAll i candidates) ids else new_context_ids candidates ids)"

record llm_start =
  ls_provider :: "string option"
  ls_model :: "string option"
  ls_temperature :: "int option"
  ls_top_p :: "int option"
  ls_ids :: "string list"
  ls_items :: "context_item_input list"
  ls_new_ids :: "string list"

definition no_usage :: token_usage where
  "no_usage = \<lparr>tu_input = None, tu_cached = None, tu_output = None, tu_reasoning = None, tu_total = None\<rparr>"

definition begin_llm_call ::
  "(nat \<Rightarrow> string) \<Rightarrow> bool \<Rightarrow> (string \<Rightarrow> string \<Rightarrow> bool) \<Rightarrow> int \<Rightarrow> new_event \<Rightarrow> llm_start \<Rightarrow> 'a timeline_db_scheme \<Rightarrow>
   'a timeline_db_scheme \<times> (db_error + run_event)" where
  "begin_llm_call uid guard le now d a db =
     (let started = (case nv_started d of None \<Rightarrow> now | Some t \<Rightarrow> t)
      in case create_event uid now (d\<lparr>nv_type := Llm_call, nv_status := Ev_running, nv_ts := None, nv_started := Some started,
                                      nv_metadata := ensure_json (nv_metadata d)\<rparr>) db of
           (db1, Inl e) \<Rightarrow> (db1, Inl e)
         | (db1, Inr e) \<Rightarrow>
             (case resolve_context_item_ids guard le (ls_ids a) (ls_items a) db1 of
                (db2, Inl err) \<Rightarrow> (db2, Inl err)
              | (db2, Inr ids) \<Rightarrow>
                  (let fresh = new_context_ids (filter (\<lambda>i. i \<noteq> []) (ls_new_ids a)) ids;
                       db3 = db2\<lparr>td_llm_calls := td_llm_calls db2 @
                               [\<lparr>lc_event = re_id e, lc_provider = ls_provider a, lc_model = ls_model a,
                                 lc_temperature = ls_temperature a, lc_top_p = ls_top_p a, lc_stop_reason = None,
                                 lc_context = ids, lc_new_count = length fresh, lc_text = None, lc_raw = JNull,
                                 lc_usage = no_usage\<rparr>]\<rparr>
                   in (append_llm_call_context_items uid now (re_id e)
                         (map (\<lambda>i. \<lparr>nl_item = i, nl_direction = Input, nl_new = i \<in> set fresh, nl_created = Some started\<rparr>) ids) db3,
                       Inr e))))"

record llm_completion =
  lf_status :: run_event_status
  lf_text :: "string option"
  lf_stop_reason :: "string option"
  lf_raw :: "json option"
  lf_calls :: "call_record list"
  lf_error_code :: "string option"
  lf_error_message :: "string option"
  lf_ended :: "int option"
  lf_metadata :: "json option"
  lf_usage :: "token_usage option"

definition duration_since :: "int \<Rightarrow> int option \<Rightarrow> int option" where
  "duration_since ended started = map_option (\<lambda>t. max 0 (ended - t)) started"

text \<open>
  The event, the model call and the tool calls, one after the other.  A call identifier that comes twice
  violates a unique key of the table of tool calls.
\<close>

definition finish_llm_call ::
  "int \<Rightarrow> string \<Rightarrow> llm_completion \<Rightarrow> 'a timeline_db_scheme \<Rightarrow> 'a timeline_db_scheme \<times> (db_error + unit)" where
  "finish_llm_call now event a db =
     (let ended = (case lf_ended a of None \<Rightarrow> now | Some t \<Rightarrow> t);
          calls = sanitize_tool_call_records event (lf_calls a)
      in case find_row re_id event (td_events db) of
           None \<Rightarrow> (db, Inl Record_missing)
         | Some e \<Rightarrow>
             (let db1 = db\<lparr>td_events := update_rows (\<lambda>r. re_id r = event)
                       (\<lambda>r. r\<lparr>re_status := lf_status a, re_ended := Some ended, re_duration := duration_since ended (re_started e),
                              re_error_code := lf_error_code a, re_error_message := sanitize_inline_text (lf_error_message a),
                              re_metadata := (case ensure_json (lf_metadata a) of None \<Rightarrow> re_metadata r | Some m \<Rightarrow> m)\<rparr>)
                       (td_events db)\<rparr>
              in case find_row lc_event event (td_llm_calls db1) of
                   None \<Rightarrow> (db1, Inl Record_missing)
                 | Some l \<Rightarrow>
                     (let db2 = db1\<lparr>td_llm_calls := update_rows (\<lambda>r. lc_event r = event)
                               (\<lambda>r. r\<lparr>lc_stop_reason := sanitize_inline_text (lf_stop_reason a),
                                      lc_text := truncate_text (sanitize_inline_text (lf_text a)), lc_raw := json_or_null (lf_raw a),
                                      lc_usage := (case lf_usage a of None \<Rightarrow> no_usage | Some u \<Rightarrow> u)\<rparr>)
                               (td_llm_calls db1)\<rparr>
                      in if calls = [] then (db2, Inr ())
                         else
                           (let db3 = db2\<lparr>td_tool_calls := filter (\<lambda>c. tk_event c \<noteq> event) (td_tool_calls db2)\<rparr>
                            in if distinct (map tk_call calls)
                               then (db3\<lparr>td_tool_calls := td_tool_calls db3 @ calls\<rparr>, Inr ())
                               else (db3, Inl Unique_violation)))))"

record tool_start =
  ts_llm_event :: "string option"
  ts_name :: string
  ts_call :: "string option"
  ts_input :: json

definition start_tool_execution ::
  "(nat \<Rightarrow> string) \<Rightarrow> int \<Rightarrow> new_event \<Rightarrow> tool_start \<Rightarrow> 'a timeline_db_scheme \<Rightarrow>
   'a timeline_db_scheme \<times> (db_error + run_event)" where
  "start_tool_execution uid now d a db =
     (case create_event uid now (d\<lparr>nv_type := Tool_execution, nv_status := Ev_running, nv_ts := None,
                 nv_started := Some (case nv_started d of None \<Rightarrow> now | Some t \<Rightarrow> t),
                 nv_metadata := ensure_json (nv_metadata d)\<rparr>) db of
        (db1, Inl e) \<Rightarrow> (db1, Inl e)
      | (db1, Inr e) \<Rightarrow>
          (db1\<lparr>td_tool_runs := td_tool_runs db1 @
             [\<lparr>tr_event = re_id e, tr_llm_event = ts_llm_event a, tr_name = ts_name a, tr_call = ts_call a,
               tr_input = ts_input a, tr_output = JNull, tr_status = Exec_success, tr_error = None, tr_raw = JNull\<rparr>]\<rparr>, Inr e))"

record tool_completion =
  tf_status :: exec_status
  tf_output :: "json option"
  tf_error :: "string option"
  tf_raw :: "json option"
  tf_ended :: "int option"

definition complete_tool_execution ::
  "int \<Rightarrow> string \<Rightarrow> tool_completion \<Rightarrow> 'a timeline_db_scheme \<Rightarrow> 'a timeline_db_scheme \<times> (db_error + unit)" where
  "complete_tool_execution now event a db =
     (let ended = (case tf_ended a of None \<Rightarrow> now | Some t \<Rightarrow> t)
      in case find_row re_id event (td_events db) of
           None \<Rightarrow> (db, Inl Record_missing)
         | Some e \<Rightarrow>
             (let db1 = db\<lparr>td_events := update_rows (\<lambda>r. re_id r = event)
                       (\<lambda>r. r\<lparr>re_status := (if tf_status a = Exec_success then Ev_success else Ev_error), re_ended := Some ended,
                              re_error_message := tf_error a, re_duration := duration_since ended (re_started e)\<rparr>)
                       (td_events db)\<rparr>
              in case find_row tr_event event (td_tool_runs db1) of
                   None \<Rightarrow> (db1, Inl Record_missing)
                 | Some t \<Rightarrow>
                     (db1\<lparr>td_tool_runs := update_rows (\<lambda>r. tr_event r = event)
                            (\<lambda>r. r\<lparr>tr_status := tf_status a, tr_output := json_or_null (tf_output a), tr_error := tf_error a,
                                   tr_raw := json_or_null (tf_raw a)\<rparr>) (td_tool_runs db1)\<rparr>, Inr ())))"

section \<open>The output of a tool, as it comes\<close>

text \<open>
  A chunk whose number is taken, or that cannot be stored because the database is down, is only
  logged; the caller gets it back as it was meant to be stored.
\<close>

record new_chunk =
  nc_event :: string
  nc_seq :: int
  nc_stream_seq :: int
  nc_source :: stream_source
  nc_data :: string
  nc_bytes :: int
  nc_ts :: "int option"

definition chunk_row :: "int \<Rightarrow> new_chunk \<Rightarrow> output_chunk" where
  "chunk_row now c =
     \<lparr>ck_event = nc_event c, ck_seq = nc_seq c, ck_stream_seq = nc_stream_seq c, ck_source = nc_source c,
      ck_data = (case sanitize_tool_output_text (Some (nc_data c)) of None \<Rightarrow> [] | Some t \<Rightarrow> t),
      ck_ts = (case nc_ts c of None \<Rightarrow> now | Some t \<Rightarrow> t), ck_bytes = max 0 (nc_bytes c)\<rparr>"

definition append_tool_output_chunk ::
  "bool \<Rightarrow> int \<Rightarrow> new_chunk \<Rightarrow> 'a timeline_db_scheme \<Rightarrow> 'a timeline_db_scheme \<times> output_chunk" where
  "append_tool_output_chunk up now c db =
     (let row = chunk_row now c
      in if \<not> up \<or> (ck_event row, ck_seq row) \<in> (\<lambda>r. (ck_event r, ck_seq r)) ` set (td_chunks db) then (db, row)
         else (db\<lparr>td_chunks := td_chunks db @ [row]\<rparr>, row))"

definition finalize_tool_output_terminal ::
  "bool \<Rightarrow> int \<Rightarrow> int option \<Rightarrow> output_terminal \<Rightarrow> 'a timeline_db_scheme \<Rightarrow> 'a timeline_db_scheme \<times> output_terminal" where
  "finalize_tool_output_terminal up now ts t db =
     (let row = t\<lparr>ot_bytes_out := max 0 (ot_bytes_out t), ot_bytes_err := max 0 (ot_bytes_err t),
                  ot_chunks := max 0 (ot_chunks t), ot_dropped := max 0 (ot_dropped t),
                  ot_message := sanitize_tool_output_text (ot_message t),
                  ot_ts := (case ts of None \<Rightarrow> now | Some u \<Rightarrow> u)\<rparr>
      in if \<not> up then (db, row)
         else if ot_event row \<in> ot_event ` set (td_terminals db)
         then (db\<lparr>td_terminals := update_rows (\<lambda>r. ot_event r = ot_event row) (\<lambda>r. row) (td_terminals db)\<rparr>, row)
         else (db\<lparr>td_terminals := td_terminals db @ [row]\<rparr>, row))"

text \<open>\<open>getToolOutputSnapshot\<close>: a number of 0 to read from counts as none.\<close>

definition snapshot_limit :: "int option \<Rightarrow> nat" where
  "snapshot_limit l = (case l of None \<Rightarrow> 1000 | Some n \<Rightarrow> if n = 0 then 1000 else nat (min (max 1 n) 5000))"

definition chunks_since :: "string \<Rightarrow> int option \<Rightarrow> sort_order \<Rightarrow> nat \<Rightarrow> 'a timeline_db_scheme \<Rightarrow> output_chunk list" where
  "chunks_since event since order n db =
     (let mine = filter (\<lambda>c. ck_event c = event) (td_chunks db)
      in take n (in_order order ck_seq
           (case since of None \<Rightarrow> mine | Some k \<Rightarrow> if k = 0 then mine else filter (\<lambda>c. k < ck_seq c) mine)))"

definition next_seq :: "output_chunk list \<Rightarrow> int option" where
  "next_seq items = (case items of [] \<Rightarrow> None | c # cs \<Rightarrow> Some (foldl (\<lambda>m x. if m < ck_seq x then ck_seq x else m) (ck_seq c) items))"

record output_snapshot =
  sp_items :: "output_chunk list"
  sp_terminal :: "output_terminal option"
  sp_next :: "int option"

definition get_tool_output_snapshot ::
  "string \<Rightarrow> string \<Rightarrow> int option \<Rightarrow> int option \<Rightarrow> sort_order \<Rightarrow> 'a timeline_db_scheme \<Rightarrow> output_snapshot option" where
  "get_tool_output_snapshot run event since limit order db =
     (case find_row re_id event (td_events db) of
        None \<Rightarrow> None
      | Some e \<Rightarrow>
          if re_run e \<noteq> run then None
          else
            (let items = chunks_since event since order (snapshot_limit limit) db
             in Some \<lparr>sp_items = items, sp_terminal = find_row ot_event event (td_terminals db), sp_next = next_seq items\<rparr>))"

section \<open>Reading the time line\<close>

record input_item =
  ii_id :: string
  ii_item :: string
  ii_role :: context_role
  ii_order :: nat
  ii_created :: int
  ii_new :: bool

datatype delta_status = Delta_available | Delta_empty | Delta_unavailable | Delta_redacted | Delta_first_call | Delta_unknown

record llm_view =
  lv_call :: llm_row
  lv_inputs :: "input_item list"
  lv_delta :: delta_status
  lv_tool_calls :: "llm_tool_call list"
  lv_linked :: "string list option"
  lv_usage :: "token_usage option"

record message_view =
  mw_message :: string
  mw_role :: string
  mw_kind :: "string option"
  mw_text :: "string option"
  mw_source :: json
  mw_created :: int

record timeline_event =
  te_event :: run_event
  te_llm :: "llm_view option"
  te_tool :: "tool_run option"
  te_summary :: "summary_row option"
  te_injection :: "injection_row option"
  te_message :: "message_view option"
  te_attachments :: "attachment list"

definition to_input_context_role :: "context_role option \<Rightarrow> context_role" where
  "to_input_context_role r = (case r of None \<Rightarrow> Role_other | Some x \<Rightarrow> x)"

definition input_items :: "'a timeline_db_scheme \<Rightarrow> string \<Rightarrow> input_item list" where
  "input_items db event =
     map (\<lambda>(n, l). \<lparr>ii_id = cl_id l, ii_item = cl_item l,
                     ii_role = to_input_context_role (map_option it_role (map_of (cs_items (td_store db)) (cl_item l))),
                     ii_order = n, ii_created = cl_created l, ii_new = cl_new l\<rparr>)
       (enumerate 0 (sort_key cl_idx (filter (\<lambda>l. cl_event l = event \<and> cl_direction l = Input) (td_context_links db))))"

definition context_delta_status :: "input_item list \<Rightarrow> delta_status" where
  "context_delta_status items =
     (if items = [] then Delta_unavailable else if list_ex ii_new items then Delta_available else Delta_empty)"

definition serialize_usage :: "llm_row \<Rightarrow> token_usage option" where
  "serialize_usage l = (if lc_usage l = no_usage then None else Some (lc_usage l))"

definition serialize_llm_call :: "'a timeline_db_scheme \<Rightarrow> llm_row \<Rightarrow> llm_view" where
  "serialize_llm_call db l =
     (let linked = map tr_event (filter (\<lambda>t. tr_llm_event t = Some (lc_event l)) (td_tool_runs db));
          inputs = input_items db (lc_event l)
      in \<lparr>lv_call = l, lv_inputs = inputs, lv_delta = context_delta_status inputs,
          lv_tool_calls = sort_key tk_idx (filter (\<lambda>c. tk_event c = lc_event l) (td_tool_calls db)),
          lv_linked = (if linked = [] then None else Some linked), lv_usage = serialize_usage l\<rparr>)"

definition view_message :: "'a timeline_db_scheme \<Rightarrow> run_event \<Rightarrow> event_message \<Rightarrow> message_view" where
  "view_message db e m =
     (case find_row mg_id (em_message m) (td_messages db) of
        None \<Rightarrow> \<lparr>mw_message = em_message m, mw_role = em_role m, mw_kind = None, mw_text = None, mw_source = JNull,
                 mw_created = re_ts e\<rparr>
      | Some g \<Rightarrow> \<lparr>mw_message = em_message m, mw_role = em_role m, mw_kind = Some (mg_kind g), mw_text = mg_text g,
                  mw_source = mg_source g, mw_created = mg_created g\<rparr>)"

definition serialize_event :: "'a timeline_db_scheme \<Rightarrow> run_event \<Rightarrow> timeline_event" where
  "serialize_event db e =
     \<lparr>te_event = e,
      te_llm = map_option (serialize_llm_call db) (find_row lc_event (re_id e) (td_llm_calls db)),
      te_tool = find_row tr_event (re_id e) (td_tool_runs db),
      te_summary = find_row sm_event (re_id e) (td_summaries db),
      te_injection = find_row in_event (re_id e) (td_injections db),
      te_message = map_option (view_message db e) (find_row em_event (re_id e) (td_event_messages db)),
      te_attachments = filter (\<lambda>a. at_event a = re_id e) (td_attachments db)\<rparr>"

definition get_event_snapshot :: "string \<Rightarrow> 'a timeline_db_scheme \<Rightarrow> timeline_event option" where
  "get_event_snapshot i db = map_option (serialize_event db) (find_row re_id i (td_events db))"

record run_summary =
  rs_run :: run_row
  rs_first :: "int option"
  rs_last :: "int option"
  rs_by_type :: "(run_event_type \<times> nat) list"
  rs_by_status :: "(run_event_status \<times> nat) list"
  rs_total :: nat

definition events_of_run :: "string \<Rightarrow> 'a timeline_db_scheme \<Rightarrow> run_event list" where
  "events_of_run run db = filter (\<lambda>e. re_run e = run) (td_events db)"

definition get_run_summary :: "string \<Rightarrow> 'a timeline_db_scheme \<Rightarrow> run_summary option" where
  "get_run_summary run db =
     map_option (\<lambda>r.
         let es = events_of_run run db; types = group_counts re_type es; states = group_counts re_status es
         in \<lparr>rs_run = r, rs_first = map_option re_ts (first_by Ascending re_ts es),
             rs_last = map_option re_ts (first_by Descending re_ts es),
             rs_by_type = counts_over run_event_types types, rs_by_status = counts_over run_event_statuses states,
             rs_total = sum_list (map snd types)\<rparr>)
       (find_row rn_id run (td_runs db))"

record event_query =
  eq_run :: string
  eq_types :: "run_event_type list"
  eq_statuses :: "run_event_status list"

definition matches :: "event_query \<Rightarrow> run_event \<Rightarrow> bool" where
  "matches q e \<longleftrightarrow> re_run e = eq_run q \<and> (eq_types q = [] \<or> re_type e \<in> set (eq_types q))
     \<and> (eq_statuses q = [] \<or> re_status e \<in> set (eq_statuses q))"

definition sum_present :: "int option list \<Rightarrow> int" where
  "sum_present xs = sum_list (map (\<lambda>x. case x of None \<Rightarrow> 0 | Some n \<Rightarrow> n) xs)"

record event_totals =
  eo_count :: nat
  eo_input :: int
  eo_cached :: int
  eo_output :: int
  eo_reasoning :: int
  eo_total :: int

definition get_run_event_totals :: "event_query \<Rightarrow> 'a timeline_db_scheme \<Rightarrow> event_totals" where
  "get_run_event_totals q db =
     (let es = filter (matches q) (td_events db);
          us = map lc_usage (filter (\<lambda>l. lc_event l \<in> re_id ` set es) (td_llm_calls db))
      in \<lparr>eo_count = length es, eo_input = sum_present (map tu_input us), eo_cached = sum_present (map tu_cached us),
          eo_output = sum_present (map tu_output us), eo_reasoning = sum_present (map tu_reasoning us),
          eo_total = sum_present (map tu_total us)\<rparr>)"

text \<open>A cursor: an instant, \<^const>\<open>None\<close> when the text sent is not one, and perhaps an identifier.\<close>

record event_cursor =
  ec_ts :: "int option"
  ec_id :: "string option"

definition event_key :: "run_event \<Rightarrow> int \<times> string" where
  "event_key e = (re_ts e, re_id e)"

definition past_cursor :: "sort_order \<Rightarrow> event_cursor option \<Rightarrow> run_event \<Rightarrow> bool" where
  "past_cursor d c e =
     (case c of
        None \<Rightarrow> True
      | Some cu \<Rightarrow>
          (case ec_ts cu of
             None \<Rightarrow> True
           | Some t \<Rightarrow>
               (case ec_id cu of
                  Some (x # xs) \<Rightarrow> beyond d t (re_ts e) \<or> re_ts e = t \<and> beyond d (x # xs) (re_id e)
                | _ \<Rightarrow> beyond d t (re_ts e))))"

definition event_page_limit :: "int option \<Rightarrow> nat" where
  "event_page_limit l = (case l of None \<Rightarrow> 100 | Some n \<Rightarrow> if n = 0 then 100 else nat (max 1 (min 1000 n)))"

definition fetch_events :: "event_query \<Rightarrow> sort_order \<Rightarrow> 'a timeline_db_scheme \<Rightarrow> event_cursor option \<Rightarrow> nat \<Rightarrow> run_event list" where
  "fetch_events q d db c n = take n (in_order d event_key (filter (\<lambda>e. matches q e \<and> past_cursor d c e) (td_events db)))"

definition event_cursor_of :: "run_event \<Rightarrow> event_cursor" where
  "event_cursor_of e = \<lparr>ec_ts = Some (re_ts e), ec_id = Some (re_id e)\<rparr>"

definition list_run_events ::
  "event_query \<Rightarrow> int option \<Rightarrow> sort_order \<Rightarrow> 'a timeline_db_scheme \<Rightarrow> event_cursor option \<Rightarrow>
   timeline_event list \<times> event_cursor option" where
  "list_run_events q limit d db c =
     (case page (fetch_events q d db) event_cursor_of (event_page_limit limit) c of
        (items, next) \<Rightarrow> (map (serialize_event db) items, next))"

text \<open>The context items a model call saw, the last ones first.\<close>

record link_cursor =
  lk_idx :: nat
  lk_row :: string

definition link_key :: "context_link \<Rightarrow> nat \<times> string" where
  "link_key l = (cl_idx l, cl_id l)"

definition link_cursor_of :: "context_link \<Rightarrow> link_cursor" where
  "link_cursor_of l = \<lparr>lk_idx = cl_idx l, lk_row = cl_id l\<rparr>"

definition fetch_links :: "string \<Rightarrow> 'a timeline_db_scheme \<Rightarrow> link_cursor option \<Rightarrow> nat \<Rightarrow> context_link list" where
  "fetch_links event db c n =
     take n (in_order Descending link_key
       (filter (\<lambda>l. cl_event l = event \<and> cl_direction l = Input
                  \<and> (case c of None \<Rightarrow> True
                      | Some k \<Rightarrow> cl_idx l < lk_idx k \<or> cl_idx l = lk_idx k \<and> cl_id l < lk_row k))
          (td_context_links db)))"

definition list_llm_context_items ::
  "string \<Rightarrow> string \<Rightarrow> nat option \<Rightarrow> 'a timeline_db_scheme \<Rightarrow> link_cursor option \<Rightarrow>
   ((context_link \<times> context_item option) list \<times> link_cursor option) option" where
  "list_llm_context_items run event limit db c =
     (if list_ex (\<lambda>e. re_id e = event \<and> re_run e = run \<and> re_type e = Llm_call) (td_events db)
      then
        (case page (fetch_links event db) link_cursor_of (case limit of None \<Rightarrow> 50 | Some n \<Rightarrow> n) c of
           (items, next) \<Rightarrow>
             Some (map (\<lambda>l. (l, map_of (cs_items (td_store db)) (cl_item l))) items, if items = [] then None else next))
      else None)"

definition get_context_items :: "string list \<Rightarrow> 'a timeline_db_scheme \<Rightarrow> (string \<times> context_item) list" where
  "get_context_items ids db =
     List.map_filter (\<lambda>i. map_option (Pair i) (map_of (cs_items (td_store db)) i)) ids"
end
