(* ===== verification/Timeline.thy ===== *)
theory Timeline
  imports Run_Events
begin

text \<open>
  What the time line of runs promises: its listings are complete whichever way they are paged, its counts
  add up, and what was recorded of a call is what is read.
\<close>

section \<open>Listings are complete\<close>

definition event_listing :: "event_query \<Rightarrow> sort_order \<Rightarrow> 'a timeline_db_scheme \<Rightarrow> run_event list" where
  "event_listing q d db = in_order d event_key (filter (matches q) (td_events db))"

definition events_keyed :: "'a timeline_db_scheme \<Rightarrow> bool" where
  "events_keyed db \<longleftrightarrow> distinct (map re_id (td_events db)) \<and> [] \<notin> re_id ` set (td_events db)"

lemma distinct_event_keys: "distinct (map re_id es) \<Longrightarrow> distinct (map event_key es)"
  by (auto simp: distinct_map inj_on_def event_key_def)

lemma distinct_filtered: "distinct (map f xs) \<Longrightarrow> distinct (map f (filter P xs))"
  by (rule distinct_map_filter)

lemma past_event_cursor: "re_id r \<noteq> [] \<Longrightarrow> past_cursor d (Some (event_cursor_of r)) e = beyond d (event_key r) (event_key e)"
  by (cases "re_id r"; cases d) (auto simp: past_cursor_def event_cursor_of_def event_key_def beyond_def less_prod_def)

interpretation event_pages: cursor_listing
  "\<lambda>(q, d, db). events_keyed db" "\<lambda>(q, d, db). event_listing q d db" "\<lambda>(q, d, db). fetch_events q d db" event_cursor_of
proof
  fix s :: "event_query \<times> sort_order \<times> 'a timeline_db_scheme" and n
  obtain q d db where s: "s = (q, d, db)" by (cases s) auto
  show "(case s of (q, d, db) \<Rightarrow> fetch_events q d db) None n = take n (case s of (q, d, db) \<Rightarrow> event_listing q d db)"
    by (simp add: s fetch_events_def event_listing_def past_cursor_def)
next
  fix s :: "event_query \<times> sort_order \<times> 'a timeline_db_scheme" and xs ys :: "run_event list" and r n
  assume ok: "case s of (q, d, db) \<Rightarrow> events_keyed db" and l: "(case s of (q, d, db) \<Rightarrow> event_listing q d db) = xs @ r # ys"
  obtain q d db where s: "s = (q, d, db)" by (cases s) auto
  have l': "in_order d event_key (filter (matches q) (td_events db)) = xs @ r # ys" using l by (simp add: s event_listing_def)
  then have "r \<in> set (in_order d event_key (filter (matches q) (td_events db)))" by (simp only: set_append) simp
  then have ne: "re_id r \<noteq> []" using ok by (force simp: s events_keyed_def)
  have k: "distinct (map event_key (filter (matches q) (td_events db)))"
    using ok by (simp add: s events_keyed_def distinct_event_keys distinct_filtered)
  have "fetch_events q d db (Some (event_cursor_of r)) n
      = keyset_fetch d event_key (filter (matches q) (td_events db)) (Some (event_key r)) n"
    by (simp add: fetch_events_def keyset_fetch_def past_event_cursor[OF ne] conj_commute)
  also have "\<dots> = take n ys" by (rule keyset_next[OF k l'])
  finally show "(case s of (q, d, db) \<Rightarrow> fetch_events q d db) (Some (event_cursor_of r)) n = take n ys" by (simp add: s)
qed

definition link_listing :: "string \<Rightarrow> 'a timeline_db_scheme \<Rightarrow> context_link list" where
  "link_listing event db =
     in_order Descending link_key (filter (\<lambda>l. cl_event l = event \<and> cl_direction l = Input) (td_context_links db))"

interpretation link_pages: cursor_listing
  "\<lambda>(event, db). distinct (map cl_id (td_context_links db))" "\<lambda>(event, db). link_listing event db"
  "\<lambda>(event, db). fetch_links event db" link_cursor_of
proof
  fix s :: "string \<times> 'a timeline_db_scheme" and n
  obtain event db where s: "s = (event, db)" by (cases s)
  show "(case s of (event, db) \<Rightarrow> fetch_links event db) None n = take n (case s of (event, db) \<Rightarrow> link_listing event db)"
    by (simp add: s fetch_links_def link_listing_def)
next
  fix s :: "string \<times> 'a timeline_db_scheme" and xs ys :: "context_link list" and r n
  assume ok: "case s of (event, db) \<Rightarrow> distinct (map cl_id (td_context_links db))"
    and l: "(case s of (event, db) \<Rightarrow> link_listing event db) = xs @ r # ys"
  obtain event db where s: "s = (event, db)" by (cases s)
  let ?mine = "filter (\<lambda>l. cl_event l = event \<and> cl_direction l = Input) (td_context_links db)"
  have l': "in_order Descending link_key ?mine = xs @ r # ys" using l by (simp add: s link_listing_def)
  have k: "distinct (map link_key ?mine)" using distinct_filtered[of cl_id] ok
    by (force simp: s distinct_map inj_on_def link_key_def)
  have b: "beyond Descending (link_key r) (link_key x)
      \<longleftrightarrow> cl_idx x < cl_idx r \<or> cl_idx x = cl_idx r \<and> cl_id x < cl_id r" for x
    by (auto simp: beyond_def link_key_def less_prod_def)
  have "fetch_links event db (Some (link_cursor_of r)) n = keyset_fetch Descending link_key ?mine (Some (link_key r)) n"
    by (simp add: fetch_links_def keyset_fetch_def b link_cursor_of_def conj_commute conj_left_commute)
  also have "\<dots> = take n ys" by (rule keyset_next[OF k l'])
  finally show "(case s of (event, db) \<Rightarrow> fetch_links event db) (Some (link_cursor_of r)) n = take n ys" by (simp add: s)
qed

text \<open>
  C15. Reading the events of a run page by page, in either order, with any filter and any page size, shows
  each event that matches exactly once and in order; every page but the last is full.
\<close>

theorem timeline_pages_complete:
  assumes "events_keyed db" "length (td_events db) < k"
  shows "\<exists>pages. follow k (list_run_events q limit d db) None = Some pages
    \<and> concat pages = map (serialize_event db) (event_listing q d db)
    \<and> (\<forall>p \<in> set (butlast pages). length p = event_page_limit limit)"
proof -
  have pos: "0 < event_page_limit limit" by (auto simp: event_page_limit_def split: option.split)
  have len: "length (event_listing q d db) < k"
    using le_less_trans[OF length_filter_le assms(2)] by (simp add: event_listing_def)
  from event_pages.follow_all[of "(q, d, db)", simplified, OF assms(1) pos len]
  obtain pages where p: "follow k (page (fetch_events q d db) event_cursor_of (event_page_limit limit)) None = Some pages"
    "concat pages = event_listing q d db" "\<forall>p \<in> set (butlast pages). length p = event_page_limit limit" by blast
  have e: "list_run_events q limit d db = (\<lambda>c. case page (fetch_events q d db) event_cursor_of (event_page_limit limit) c of
      (items, next) \<Rightarrow> (map (serialize_event db) items, next))"
    by (rule ext) (simp add: list_run_events_def)
  have "follow k (list_run_events q limit d db) None = Some (map (map (serialize_event db)) pages)"
    unfolding e follow_map p(1) by simp
  moreover have "concat (map (map (serialize_event db)) pages) = map (serialize_event db) (event_listing q d db)"
    using p(2) by (metis map_concat)
  ultimately show ?thesis using p(3) by (auto simp: map_butlast[symmetric])
qed

section \<open>Counts add up\<close>

text \<open>
  The summary of a run counts every event of it once by its type and once by its status, lists the
  types and statuses that do not occur with zero, and gives the first and the last instant.
\<close>

theorem summary_counts:
  assumes "get_run_summary run db = Some s"
  shows "map_of (rs_by_type s) ty = Some (length (filter (\<lambda>e. re_type e = ty) (events_of_run run db)))
    \<and> map_of (rs_by_status s) st = Some (length (filter (\<lambda>e. re_status e = st) (events_of_run run db)))
    \<and> rs_total s = length (events_of_run run db)
    \<and> (\<forall>e \<in> set (events_of_run run db). \<exists>a b. rs_first s = Some a \<and> rs_last s = Some b \<and> a \<le> re_ts e \<and> re_ts e \<le> b)"
proof -
  let ?es = "events_of_run run db"
  obtain r where s: "rs_first s = map_option re_ts (first_by Ascending re_ts ?es)" "rs_last s = map_option re_ts (first_by Descending re_ts ?es)"
      "rs_by_type s = counts_over run_event_types (group_counts re_type ?es)"
      "rs_by_status s = counts_over run_event_statuses (group_counts re_status ?es)"
      "rs_total s = sum_list (map snd (group_counts re_type ?es))"
    using assms by (auto simp: get_run_summary_def Let_def)
  have ty: "ty \<in> set run_event_types" by (cases ty) (simp_all add: run_event_types_def)
  have st: "st \<in> set run_event_statuses" by (cases st) (simp_all add: run_event_statuses_def)
  have b: "\<exists>a b. rs_first s = Some a \<and> rs_last s = Some b \<and> a \<le> re_ts e \<and> re_ts e \<le> b" if "e \<in> set ?es" for e
    using first_by_bounds[OF that, of re_ts] by (auto simp: s)
  show ?thesis using b by (simp add: s(3,4,5) map_of_counts[OF ty] map_of_counts[OF st] group_counts_sum)
qed

section \<open>The tables stay consistent\<close>

text \<open>
  Identifiers are fresh ones, keys are unique, and rows that belong to an event have one.
\<close>

definition rows_attached :: "'a timeline_db_scheme \<Rightarrow> bool" where
  "rows_attached db \<longleftrightarrow>
     lc_event ` set (td_llm_calls db) \<union> tr_event ` set (td_tool_runs db) \<union> tk_event ` set (td_tool_calls db)
       \<union> cl_event ` set (td_context_links db) \<subseteq> re_id ` set (td_events db)"

definition keys_unique :: "'a timeline_db_scheme \<Rightarrow> bool" where
  "keys_unique db \<longleftrightarrow>
     distinct (map re_id (td_events db)) \<and> distinct (map cl_id (td_context_links db))
     \<and> distinct (map lc_event (td_llm_calls db)) \<and> distinct (map tr_event (td_tool_runs db))
     \<and> distinct (map (\<lambda>l. (cl_event l, cl_idx l)) (td_context_links db))
     \<and> distinct (map (\<lambda>c. (tk_event c, tk_call c)) (td_tool_calls db))
     \<and> distinct (map (\<lambda>c. (ck_event c, ck_seq c)) (td_chunks db))
     \<and> distinct (map ot_event (td_terminals db))"

definition ids_generated :: "(nat \<Rightarrow> string) \<Rightarrow> 'a timeline_db_scheme \<Rightarrow> bool" where
  "ids_generated uid db \<longleftrightarrow> re_id ` set (td_events db) \<union> cl_id ` set (td_context_links db) \<subseteq> uid ` {..<td_next db}"

definition timeline_ok :: "(nat \<Rightarrow> string) \<Rightarrow> 'a timeline_db_scheme \<Rightarrow> bool" where
  "timeline_ok uid db \<longleftrightarrow> rows_attached db \<and> keys_unique db \<and> ids_generated uid db"

lemmas timeline_defs = timeline_ok_def rows_attached_def keys_unique_def ids_generated_def

lemma fresh_id:
  assumes "inj uid" "ids_generated uid db" "td_next db \<le> n"
  shows "uid n \<notin> re_id ` set (td_events db)" "uid n \<notin> cl_id ` set (td_context_links db)"
proof -
  have "uid n \<notin> uid ` {..<td_next db}" using assms(1,3) by (auto dest: injD)
  then show "uid n \<notin> re_id ` set (td_events db)" "uid n \<notin> cl_id ` set (td_context_links db)"
    using assms(2) unfolding ids_generated_def by blast+
qed

lemma create_event_cases:
  assumes "create_event uid now d db = (db1, r)"
  shows "(r = Inl Unique_violation \<and> db1 = db)
    \<or> (\<exists>e. r = Inr e \<and> re_id e = uid (td_next db) \<and> re_started e = nv_started d \<and> re_status e = nv_status d
        \<and> re_run e = nv_run d \<and> re_thread e = nv_thread d \<and> re_type e = nv_type d \<and> re_node e = nv_node d
        \<and> re_metadata e = (case nv_metadata d of None \<Rightarrow> JNull | Some m \<Rightarrow> m)
        \<and> re_ts e = (case nv_ts d of None \<Rightarrow> now | Some t \<Rightarrow> t)
        \<and> db1 = db\<lparr>td_next := Suc (td_next db), td_events := td_events db @ [e]\<rparr>)"
  using assms by (auto simp: create_event_def Let_def split: if_splits)

lemma create_event_ok:
  assumes "create_event uid now d db = (db1, Inr e)" "timeline_ok uid db" "inj uid"
  shows "timeline_ok uid db1" "re_id e \<in> re_id ` set (td_events db1)"
    "re_id e \<notin> lc_event ` set (td_llm_calls db1) \<union> tr_event ` set (td_tool_runs db1) \<union> tk_event ` set (td_tool_calls db1)
       \<union> cl_event ` set (td_context_links db1)"
proof -
  have i: "re_id e = uid (td_next db)" and db1: "db1 = db\<lparr>td_next := Suc (td_next db), td_events := td_events db @ [e]\<rparr>"
    using create_event_cases[OF assms(1)] by auto
  have n: "re_id e \<notin> re_id ` set (td_events db)" using fresh_id(1)[OF assms(3), of db "td_next db"] assms(2) by (simp add: i timeline_ok_def)
  have s: "uid ` {..<td_next db} \<subseteq> uid ` {..<Suc (td_next db)}" "uid (td_next db) \<in> uid ` {..<Suc (td_next db)}" by auto
  show "timeline_ok uid db1" using assms(2) n s unfolding db1 timeline_defs by (auto simp: i)
  show "re_id e \<in> re_id ` set (td_events db1)" by (simp add: db1)
  show "re_id e \<notin> lc_event ` set (td_llm_calls db1) \<union> tr_event ` set (td_tool_runs db1) \<union> tk_event ` set (td_tool_calls db1)
       \<union> cl_event ` set (td_context_links db1)"
    using n assms(2) unfolding db1 timeline_ok_def rows_attached_def by auto
qed

text \<open>An operation that changes no keys and adds no rows.\<close>

lemma timeline_ok_cong:
  assumes "timeline_ok uid db" "td_next db \<le> td_next db'"
    "map re_id (td_events db') = map re_id (td_events db)" "td_context_links db' = td_context_links db"
    "map lc_event (td_llm_calls db') = map lc_event (td_llm_calls db)"
    "map tr_event (td_tool_runs db') = map tr_event (td_tool_runs db)" "td_tool_calls db' = td_tool_calls db"
    "td_chunks db' = td_chunks db" "map ot_event (td_terminals db') = map ot_event (td_terminals db)"
  shows "timeline_ok uid db'"
proof -
  have "re_id ` set (td_events db') = re_id ` set (td_events db)" "lc_event ` set (td_llm_calls db') = lc_event ` set (td_llm_calls db)"
    "tr_event ` set (td_tool_runs db') = tr_event ` set (td_tool_runs db)"
    using assms(3,5,6) by (metis set_map)+
  moreover have "uid ` {..<td_next db} \<subseteq> uid ` {..<td_next db'}" using assms(2) by auto
  ultimately show ?thesis using assms unfolding timeline_defs by auto
qed

lemma below_next_link: "l \<in> set links \<Longrightarrow> cl_event l = event \<Longrightarrow> cl_idx l < next_link_idx event links"
  unfolding next_link_idx_def
proof (induction links)
  case (Cons a links)
  then show ?case by (auto simp: less_max_iff_disj)
qed simp

lemma map_enumerate_from: "map f (enumerate m xs) = map (\<lambda>(n, x). f (m + n, x)) (enumerate 0 xs)"
  by (rule nth_equalityI) (auto simp: nth_enumerate_eq)

lemma appended_links:
  fixes db :: "'a timeline_db_scheme"
  assumes "append_llm_call_context_items uid now event items db = db'"
  shows "\<exists>new. td_context_links db' = td_context_links db @ new \<and> td_next db' = td_next db + length new
    \<and> db' = db\<lparr>td_context_links := td_context_links db', td_next := td_next db'\<rparr>
    \<and> map cl_id new = map uid [td_next db..<td_next db + length new]
    \<and> map cl_idx new = [next_link_idx event (td_context_links db)..<next_link_idx event (td_context_links db) + length new]
    \<and> (\<forall>l \<in> set new. cl_event l = event)
    \<and> map (\<lambda>l. (cl_item l, cl_direction l, cl_new l)) new
        = map (\<lambda>i. (nl_item i, nl_direction i, nl_new i)) (filter (\<lambda>i. js_trim (nl_item i) \<noteq> []) items)"
proof -
  let ?kept = "filter (\<lambda>i. js_trim (nl_item i) \<noteq> []) items"
  let ?row = "\<lambda>(n, i). \<lparr>cl_id = uid (td_next db + n), cl_event = event, cl_item = nl_item i,
      cl_idx = next_link_idx event (td_context_links db) + n, cl_direction = nl_direction i,
      cl_new = nl_new i, cl_created = (case nl_created i of None \<Rightarrow> now | Some t \<Rightarrow> t)\<rparr>"
  define new where "new = map ?row (enumerate 0 ?kept)"
  have l: "length new = length ?kept" by (simp add: new_def)
  have a: "map cl_id new = map uid [td_next db..<td_next db + length new]"
    unfolding l by (rule nth_equalityI) (simp_all add: new_def nth_enumerate_eq)
  have b: "map cl_idx new = [next_link_idx event (td_context_links db)..<next_link_idx event (td_context_links db) + length new]"
    unfolding l by (rule nth_equalityI) (simp_all add: new_def nth_enumerate_eq)
  have c: "map (\<lambda>l. (cl_item l, cl_direction l, cl_new l)) new = map (\<lambda>i. (nl_item i, nl_direction i, nl_new i)) ?kept"
    by (rule nth_equalityI) (simp_all add: new_def nth_enumerate_eq)
  have e: "\<forall>l \<in> set new. cl_event l = event" by (auto simp: new_def)
  have d: "db' = db\<lparr>td_next := td_next db + length new, td_context_links := td_context_links db @ new\<rparr>"
    using assms by (cases "?kept = []") (simp_all add: append_llm_call_context_items_def Let_def new_def l)
  show ?thesis using a b c e by (intro exI[of _ new]) (simp add: d)
qed

lemma append_links_ok:
  assumes "append_llm_call_context_items uid now event items db = db'" "timeline_ok uid db" "inj uid"
    "event \<in> re_id ` set (td_events db)"
  shows "timeline_ok uid db'"
proof -
  obtain new where new: "td_context_links db' = td_context_links db @ new" "td_next db' = td_next db + length new"
    "db' = db\<lparr>td_context_links := td_context_links db', td_next := td_next db'\<rparr>"
    "map cl_id new = map uid [td_next db..<td_next db + length new]"
    "map cl_idx new = [next_link_idx event (td_context_links db)..<next_link_idx event (td_context_links db) + length new]"
    "\<forall>l \<in> set new. cl_event l = event"
    using appended_links[OF assms(1)] by blast
  have ids: "cl_id ` set new = uid ` {td_next db..<td_next db + length new}"
    using arg_cong[OF new(4), of set] by simp
  have "distinct (map cl_id new)" unfolding new(4) using assms(3) by (simp add: distinct_map inj_on_def inj_def)
  moreover have "cl_id ` set (td_context_links db) \<inter> cl_id ` set new = {}"
  proof -
    have "ids_generated uid db" using assms(2) by (simp add: timeline_ok_def)
    from fresh_id(2)[OF assms(3) this] have "\<forall>n \<in> {td_next db..<td_next db + length new}. uid n \<notin> cl_id ` set (td_context_links db)"
      by simp
    then have "uid ` {td_next db..<td_next db + length new} \<subseteq> - (cl_id ` set (td_context_links db))"
      by (intro image_subsetI) blast
    then show ?thesis unfolding ids by blast
  qed
  ultimately have 1: "distinct (map cl_id (td_context_links db'))"
    using assms(2) by (simp add: new(1) timeline_ok_def keys_unique_def)
  have "distinct (map cl_idx new)" unfolding new(5) by simp
  then have "distinct (map (\<lambda>l. (cl_event l, cl_idx l)) new)" by (auto simp: distinct_map inj_on_def)
  moreover have "next_link_idx event (td_context_links db) \<le> cl_idx l" if "l \<in> set new" for l
    using arg_cong[OF new(5), of set] that by force
  then have "(\<lambda>l. (cl_event l, cl_idx l)) ` set (td_context_links db) \<inter> (\<lambda>l. (cl_event l, cl_idx l)) ` set new = {}"
    using new(6) below_next_link[of _ "td_context_links db" event] by (force simp: disjoint_iff)
  ultimately have 2: "distinct (map (\<lambda>l. (cl_event l, cl_idx l)) (td_context_links db'))"
    using assms(2) by (simp add: new(1) timeline_ok_def keys_unique_def)
  have 3: "cl_event ` set (td_context_links db') \<subseteq> re_id ` set (td_events db)"
    using assms(2,4) new(6) by (auto simp: new(1) timeline_ok_def rows_attached_def)
  have m: "uid ` {td_next db..<td_next db + length new} \<subseteq> uid ` {..<td_next db'}" "uid ` {..<td_next db} \<subseteq> uid ` {..<td_next db'}"
    by (auto simp: new(2))
  have u: "cl_id ` set (td_context_links db') = cl_id ` set (td_context_links db) \<union> cl_id ` set new" by (simp add: new(1) image_Un)
  have 4: "cl_id ` set (td_context_links db') \<subseteq> uid ` {..<td_next db'}"
    using assms(2) m unfolding u ids timeline_ok_def ids_generated_def by blast
  have same: "td_events db' = td_events db" "td_llm_calls db' = td_llm_calls db" "td_tool_runs db' = td_tool_runs db"
      "td_tool_calls db' = td_tool_calls db" "td_chunks db' = td_chunks db" "td_terminals db' = td_terminals db"
    by (subst new(3), simp)+
  have "re_id ` set (td_events db) \<subseteq> uid ` {..<td_next db'}"
    using assms(2) m(2) unfolding timeline_ok_def ids_generated_def by blast
  then have "ids_generated uid db'" using 4 unfolding ids_generated_def same by blast
  moreover have "rows_attached db'" using assms(2) 3
    unfolding timeline_ok_def rows_attached_def same Un_subset_iff by (elim conjE) (intro conjI; assumption)
  moreover have "keys_unique db'" using assms(2) 1 2
    unfolding timeline_ok_def keys_unique_def same by (elim conjE) (intro conjI; assumption)
  ultimately show ?thesis by (simp add: timeline_ok_def)
qed

lemma finish_llm_call_ok:
  assumes "finish_llm_call now event a db = (db', r)" "timeline_ok uid db"
  shows "timeline_ok uid db'"
proof -
  let ?calls = "sanitize_tool_call_records event (lf_calls a)"
  have c: "\<forall>c \<in> set ?calls. tk_event c = event" by (auto simp: sanitize_tool_call_records_def)
  define f1 where "f1 e ended = (\<lambda>r :: run_event. r\<lparr>re_status := lf_status a, re_ended := Some ended, re_duration := duration_since ended (re_started e),
      re_error_code := lf_error_code a, re_error_message := sanitize_inline_text (lf_error_message a),
      re_metadata := (case ensure_json (lf_metadata a) of None \<Rightarrow> re_metadata r | Some m \<Rightarrow> m)\<rparr>)" for e :: run_event and ended
  define f2 where "f2 = (\<lambda>r :: llm_row. r\<lparr>lc_stop_reason := sanitize_inline_text (lf_stop_reason a),
      lc_text := truncate_text (sanitize_inline_text (lf_text a)), lc_raw := json_or_null (lf_raw a),
      lc_usage := (case lf_usage a of None \<Rightarrow> no_usage | Some u \<Rightarrow> u)\<rparr>)"
  have k1: "re_id (f1 e t r) = re_id r" for e t r by (simp add: f1_def)
  have k2: "lc_event (f2 r) = lc_event r" for r by (simp add: f2_def)
  define t where "t = (case lf_ended a of None \<Rightarrow> now | Some t \<Rightarrow> t)"
  note run = assms(1)[unfolded finish_llm_call_def Let_def, folded t_def f1_def f2_def]
  show ?thesis
  proof (cases "find_row re_id event (td_events db)")
    case None
    then show ?thesis using run assms(2) by simp
  next
    case (Some e)
    define db1 where "db1 = db\<lparr>td_events := update_rows (\<lambda>r. re_id r = event) (f1 e t) (td_events db)\<rparr>"
    have ok1: "timeline_ok uid db1" by (rule timeline_ok_cong[OF assms(2)]) (simp_all add: db1_def k1)
    note run1 = run[unfolded Some option.case, folded db1_def]
    show ?thesis
    proof (cases "find_row lc_event event (td_llm_calls db1)")
      case None
      then show ?thesis using run1 ok1 by simp
    next
      case (Some l)
      define db2 where "db2 = db1\<lparr>td_llm_calls := update_rows (\<lambda>r. lc_event r = event) f2 (td_llm_calls db1)\<rparr>"
      have ok2: "timeline_ok uid db2" by (rule timeline_ok_cong[OF ok1]) (simp_all add: db2_def k2)
      define db3 where "db3 = db2\<lparr>td_tool_calls := filter (\<lambda>c. tk_event c \<noteq> event) (td_tool_calls db2)\<rparr>"
      have ok3: "timeline_ok uid db3" using ok2 unfolding timeline_defs db3_def by (auto simp: distinct_map_filter)
      have ev: "event \<in> re_id ` set (td_events db3)"
        using ok1 find_row_Some[OF Some] by (auto simp: db3_def db2_def timeline_ok_def rows_attached_def)
      have ok4: "timeline_ok uid (db3\<lparr>td_tool_calls := td_tool_calls db3 @ ?calls\<rparr>)" if d: "distinct (map tk_call ?calls)"
      proof -
        have "distinct (map (\<lambda>c. (tk_event c, tk_call c)) ?calls)" using d by (auto simp: distinct_map inj_on_def)
        moreover have "(\<lambda>c. (tk_event c, tk_call c)) ` set (td_tool_calls db3) \<inter> (\<lambda>c. (tk_event c, tk_call c)) ` set ?calls = {}"
          using c by (auto simp: db3_def)
        ultimately have "distinct (map (\<lambda>c. (tk_event c, tk_call c)) (td_tool_calls db3 @ ?calls))"
          using ok3 by (simp add: timeline_ok_def keys_unique_def)
        then show ?thesis using ok3 c ev unfolding timeline_defs by auto
      qed
      have "db' = db2 \<or> db' = db3 \<or> (distinct (map tk_call ?calls) \<and> db' = db3\<lparr>td_tool_calls := td_tool_calls db3 @ ?calls\<rparr>)"
        using run1[unfolded Some option.case, folded db2_def, folded db3_def] by (auto split: if_splits)
      then show ?thesis using ok2 ok3 ok4 by blast
    qed
  qed
qed

lemma resolve_context_only:
  "resolve_context_item_ids guard le ids inputs db = (db', r) \<Longrightarrow> db' = db\<lparr>td_store := td_store db'\<rparr>"
  by (auto simp: resolve_context_item_ids_def Let_def split: if_splits sum.splits prod.splits)

lemma begin_llm_call_ok:
  assumes "begin_llm_call uid guard le now d a db = (db', r)" "timeline_ok uid db" "inj uid"
  shows "timeline_ok uid db'"
proof -
  define d' where "d' = d\<lparr>nv_type := Llm_call, nv_status := Ev_running, nv_ts := None,
      nv_started := Some (case nv_started d of None \<Rightarrow> now | Some t \<Rightarrow> t), nv_metadata := ensure_json (nv_metadata d)\<rparr>"
  note run = assms(1)[unfolded begin_llm_call_def Let_def, folded d'_def]
  obtain db1 r1 where c: "create_event uid now d' db = (db1, r1)" by (cases "create_event uid now d' db")
  show ?thesis
  proof (cases r1)
    case (Inl e)
    then have "db' = db" using run c create_event_cases[OF c] by auto
    then show ?thesis using assms(2) by simp
  next
    case (Inr e)
    note c = c[unfolded Inr] and ok1 = create_event_ok[OF c[unfolded Inr] assms(2,3)]
    obtain db2 r2 where v: "resolve_context_item_ids guard le (ls_ids a) (ls_items a) db1 = (db2, r2)"
      by (cases "resolve_context_item_ids guard le (ls_ids a) (ls_items a) db1")
    have db2: "db2 = db1\<lparr>td_store := td_store db2\<rparr>" by (rule resolve_context_only[OF v])
    have ok2: "timeline_ok uid db2" by (rule timeline_ok_cong[OF ok1(1)]) (subst db2, simp)+
    show ?thesis
    proof (cases r2)
      case (Inl e)
      then show ?thesis using run c v ok2 by simp
    next
      case (Inr ids)
      define row where "row = \<lparr>lc_event = re_id e, lc_provider = ls_provider a, lc_model = ls_model a,
           lc_temperature = ls_temperature a, lc_top_p = ls_top_p a, lc_stop_reason = None, lc_context = ids,
           lc_new_count = length (new_context_ids (filter (\<lambda>i. i \<noteq> []) (ls_new_ids a)) ids), lc_text = None, lc_raw = JNull,
           lc_usage = no_usage\<rparr>"
      define db3 where "db3 = db2\<lparr>td_llm_calls := td_llm_calls db2 @ [row]\<rparr>"
      have "td_llm_calls db2 = td_llm_calls db1" "td_events db2 = td_events db1" by (subst db2, simp)+
      then have ok3: "timeline_ok uid db3" "re_id e \<in> re_id ` set (td_events db3)"
        using ok2 ok1(2,3) unfolding timeline_defs by (auto simp: db3_def row_def)
      have "\<exists>items. append_llm_call_context_items uid now (re_id e) items db3 = db'"
        using run c v Inr by (auto simp flip: row_def db3_def)
      then show ?thesis using append_links_ok[OF _ ok3(1) assms(3) ok3(2)] by blast
    qed
  qed
qed

lemma recorded_event_ok:
  assumes "create_event uid now d db = (db1, r)" "timeline_ok uid db" "inj uid"
  shows "timeline_ok uid db1"
  using create_event_cases[OF assms(1)] create_event_ok(1)[OF _ assms(2,3)] assms by (cases r) auto

lemma timeline_ok_unkeyed:
  "timeline_ok uid db \<Longrightarrow> timeline_ok uid (db\<lparr>td_event_messages := x\<rparr>)"
  "timeline_ok uid db \<Longrightarrow> timeline_ok uid (db\<lparr>td_injections := y\<rparr>)"
  "timeline_ok uid db \<Longrightarrow> timeline_ok uid (db\<lparr>td_summaries := z\<rparr>)"
  by (simp_all add: timeline_defs)

lemma records_ok:
  assumes "timeline_ok uid db" "inj uid"
  shows "record_invocation_message uid now d m role db = (db', r) \<Longrightarrow> timeline_ok uid db'"
    "record_injection uid now d ms reason db = (db', r) \<Longrightarrow> timeline_ok uid db'"
    "record_summarization uid now d summary tokens n raw db = (db', r) \<Longrightarrow> timeline_ok uid db'"
  using recorded_event_ok[OF _ assms]
  by (auto simp: record_invocation_message_def record_injection_def record_summarization_def timeline_ok_unkeyed
      split: prod.splits sum.splits)

lemma attached_outputs [simp]:
  "rows_attached (db\<lparr>td_chunks := cs\<rparr>) = rows_attached db" "rows_attached (db\<lparr>td_terminals := ts\<rparr>) = rows_attached db"
  "ids_generated uid (db\<lparr>td_chunks := cs\<rparr>) = ids_generated uid db"
  "ids_generated uid (db\<lparr>td_terminals := ts\<rparr>) = ids_generated uid db"
  "ids_generated uid (db\<lparr>td_tool_runs := rs\<rparr>) = ids_generated uid db"
  by (simp_all add: rows_attached_def ids_generated_def)

lemma attached_tool_run [simp]:
  "rows_attached (db\<lparr>td_tool_runs := td_tool_runs db @ [t]\<rparr>)
    \<longleftrightarrow> rows_attached db \<and> tr_event t \<in> re_id ` set (td_events db)"
  unfolding rows_attached_def Un_subset_iff by (simp add: conj_ac)

lemma start_tool_execution_ok:
  assumes "start_tool_execution uid now d a db = (db', r)" "timeline_ok uid db" "inj uid"
  shows "timeline_ok uid db'"
proof -
  define d' where "d' = d\<lparr>nv_type := Tool_execution, nv_status := Ev_running, nv_ts := None,
      nv_started := Some (case nv_started d of None \<Rightarrow> now | Some t \<Rightarrow> t), nv_metadata := ensure_json (nv_metadata d)\<rparr>"
  obtain db1 r1 where c: "create_event uid now d' db = (db1, r1)" by (cases "create_event uid now d' db")
  note run = assms(1)[unfolded start_tool_execution_def, folded d'_def, unfolded c prod.case]
  show ?thesis
  proof (cases r1)
    case (Inl e)
    then show ?thesis using run recorded_event_ok[OF c assms(2,3)] by simp
  next
    case (Inr e)
    note ok = create_event_ok[OF c[unfolded Inr] assms(2,3)]
    show ?thesis using run ok Inr by (auto simp: timeline_ok_def keys_unique_def)
  qed
qed

lemma complete_tool_execution_ok:
  assumes "complete_tool_execution now event a db = (db', r)" "timeline_ok uid db"
  shows "timeline_ok uid db'"
proof (rule timeline_ok_cong[OF assms(2)])
qed (use assms(1) in \<open>auto simp: complete_tool_execution_def Let_def split: option.splits\<close>)

lemma append_tool_output_chunk_ok:
  assumes "append_tool_output_chunk up now c db = (db', r)" "timeline_ok uid db"
  shows "timeline_ok uid db'"
  using assms by (auto simp: timeline_ok_def append_tool_output_chunk_def Let_def keys_unique_def split: if_splits)

lemma finalize_tool_output_terminal_ok:
  assumes "finalize_tool_output_terminal up now ts t db = (db', r)" "timeline_ok uid db"
  shows "timeline_ok uid db'"
proof -
  define row where "row = t\<lparr>ot_bytes_out := max 0 (ot_bytes_out t), ot_bytes_err := max 0 (ot_bytes_err t),
      ot_chunks := max 0 (ot_chunks t), ot_dropped := max 0 (ot_dropped t), ot_message := sanitize_tool_output_text (ot_message t),
      ot_ts := (case ts of None \<Rightarrow> now | Some u \<Rightarrow> u)\<rparr>"
  note run = assms(1)[unfolded finalize_tool_output_terminal_def Let_def, folded row_def]
  have row: "db' = db \<or> (ot_event r \<in> ot_event ` set (td_terminals db)
        \<and> db' = db\<lparr>td_terminals := update_rows (\<lambda>x. ot_event x = ot_event r) (\<lambda>x. r) (td_terminals db)\<rparr>)
      \<or> (ot_event r \<notin> ot_event ` set (td_terminals db) \<and> db' = db\<lparr>td_terminals := td_terminals db @ [r]\<rparr>)"
  proof (cases up)
    case True
    then show ?thesis using run by (cases "ot_event row \<in> ot_event ` set (td_terminals db)") (simp_all only: simp_thms if_True if_False prod.inject, blast+)
  qed (use run in simp)
  have m: "map ot_event (update_rows (\<lambda>x. ot_event x = ot_event r) (\<lambda>x. r) (td_terminals db)) = map ot_event (td_terminals db)"
    by (simp add: update_rows_def)
  have "distinct (map ot_event (td_terminals db))" using assms(2) by (simp add: timeline_ok_def keys_unique_def)
  then have k: "distinct (map ot_event (td_terminals db'))" using row
  proof (elim disjE conjE)
    assume e: "db' = db\<lparr>td_terminals := update_rows (\<lambda>x. ot_event x = ot_event r) (\<lambda>x. r) (td_terminals db)\<rparr>"
      and d: "distinct (map ot_event (td_terminals db))"
    have "td_terminals db' = update_rows (\<lambda>x. ot_event x = ot_event r) (\<lambda>x. r) (td_terminals db)" by (simp add: e)
    then show ?thesis using d by (simp only: m)
  qed simp_all
  obtain ts' where "db' = db\<lparr>td_terminals := ts'\<rparr>"
  proof -
    have "db = db\<lparr>td_terminals := td_terminals db\<rparr>" by simp
    then show ?thesis using row that by metis
  qed
  then show ?thesis using assms(2) k by (simp add: timeline_ok_def keys_unique_def)
qed

inductive timeline_step :: "(nat \<Rightarrow> string) \<Rightarrow> timeline_db \<Rightarrow> timeline_db \<Rightarrow> bool" for uid where
  message: "record_invocation_message uid now d m role db = (db', r) \<Longrightarrow> timeline_step uid db db'"
| injection: "record_injection uid now d ms reason db = (db', r) \<Longrightarrow> timeline_step uid db db'"
| summarization: "record_summarization uid now d summary tokens n raw db = (db', r) \<Longrightarrow> timeline_step uid db db'"
| call: "begin_llm_call uid guard le now d a db = (db', r) \<Longrightarrow> timeline_step uid db db'"
| links: "append_llm_call_context_items uid now event items db = db' \<Longrightarrow> event \<in> re_id ` set (td_events db) \<Longrightarrow> timeline_step uid db db'"
| answer: "finish_llm_call now event f db = (db', r2) \<Longrightarrow> timeline_step uid db db'"
| tool: "start_tool_execution uid now d t db = (db', r) \<Longrightarrow> timeline_step uid db db'"
| tool_end: "complete_tool_execution now event c db = (db', r2) \<Longrightarrow> timeline_step uid db db'"
| chunk: "append_tool_output_chunk up now ch db = (db', r3) \<Longrightarrow> timeline_step uid db db'"
| terminal: "finalize_tool_output_terminal up now ts te db = (db', r4) \<Longrightarrow> timeline_step uid db db'"

lemma timeline_step_ok: "timeline_step uid db db' \<Longrightarrow> inj uid \<Longrightarrow> timeline_ok uid db \<Longrightarrow> timeline_ok uid db'"
  by (induction rule: timeline_step.induct)
    (blast intro: records_ok begin_llm_call_ok append_links_ok finish_llm_call_ok start_tool_execution_ok
      complete_tool_execution_ok append_tool_output_chunk_ok finalize_tool_output_terminal_ok)+

definition empty_timeline :: timeline_db where
  "empty_timeline =
     \<lparr>td_next = 0, td_runs = [], td_messages = [], td_events = [], td_event_messages = [], td_injections = [], td_llm_calls = [],
      td_context_links = [], td_tool_calls = [], td_tool_runs = [], td_summaries = [], td_chunks = [], td_terminals = [],
      td_attachments = [], td_store = \<lparr>cs_items = [], cs_next = 0, cs_up = True\<rparr>\<rparr>"

text \<open>
  C14. Whatever is recorded in whatever order, also when operations fail half way: identifiers are unique,
  the rows of calls and tools belong to an event, there is one row per call, tool and output, and the items
  of a call, its tool calls and the chunks of an output are numbered or named without repetition.
\<close>

theorem timeline_stays_consistent:
  assumes "(timeline_step uid)\<^sup>*\<^sup>* empty_timeline db" "inj uid"
  shows "timeline_ok uid db"
  using assms(1)
proof (induction rule: rtranclp_induct)
  case base
  then show ?case by (simp add: empty_timeline_def timeline_defs)
next
  case (step db db')
  then show ?case using timeline_step_ok assms(2) by blast
qed

section \<open>What is recorded is what is read\<close>

lemma set_new_context_ids: "set (new_context_ids cs ids) = set cs \<inter> set ids"
  by (induction cs ids rule: new_context_ids.induct) auto

lemma distinct_new_context_ids: "distinct (new_context_ids cs ids)"
  by (induction cs ids rule: new_context_ids.induct) (auto simp: set_new_context_ids)

lemma input_items_fresh:
  assumes "td_context_links db' = old @ new" "event \<notin> cl_event ` set old" "\<forall>l \<in> set new. cl_event l = event \<and> cl_direction l = Input"
    "sorted (map cl_idx new)"
  shows "map (\<lambda>i. (ii_item i, ii_new i)) (input_items db' event) = map (\<lambda>l. (cl_item l, cl_new l)) new"
proof -
  have o: "filter (\<lambda>l. cl_event l = event \<and> cl_direction l = Input) old = []"
    using assms(2) by (auto simp: filter_empty_conv)
  have n: "filter (\<lambda>l. cl_event l = event \<and> cl_direction l = Input) new = new"
    using assms(3) by (simp add: filter_id_conv)
  have s: "sort_key cl_idx new = new" by (rule sort_key_id_if_sorted[OF assms(4)])
  show ?thesis unfolding input_items_def assms(1) filter_append o n append_Nil s
    by (rule nth_equalityI) (simp_all add: nth_enumerate_eq)
qed

lemma begun_call:
  fixes db :: "'a timeline_db_scheme"
  assumes "begin_llm_call uid guard le now d a db = (db', Inr e)" "timeline_ok uid db" "inj uid"
    "ls_ids a \<noteq> []" "list_all (\<lambda>i. js_trim i \<noteq> []) (ls_ids a)"
  shows "re_started e = Some (case nv_started d of None \<Rightarrow> now | Some t \<Rightarrow> t)"
    "find_row re_id (re_id e) (td_events db') = Some e"
    "\<exists>l. find_row lc_event (re_id e) (td_llm_calls db') = Some l \<and> lc_event l = re_id e \<and> lc_context l = ls_ids a
       \<and> lc_new_count l = card (set (ls_new_ids a) \<inter> set (ls_ids a))"
    "\<forall>c \<in> set (td_tool_calls db'). tk_event c \<noteq> re_id e"
    "map (\<lambda>i. (ii_item i, ii_new i)) (input_items db' (re_id e)) = map (\<lambda>i. (i, i \<in> set (ls_new_ids a))) (ls_ids a)"
proof -
  define t where "t = (case nv_started d of None \<Rightarrow> now | Some t \<Rightarrow> t)"
  define d' where "d' = d\<lparr>nv_type := Llm_call, nv_status := Ev_running, nv_ts := None,
      nv_started := Some t, nv_metadata := ensure_json (nv_metadata d)\<rparr>"
  define fresh where "fresh = new_context_ids (filter (\<lambda>i. i \<noteq> []) (ls_new_ids a)) (ls_ids a)"
  have kept: "filter (\<lambda>i. js_trim i \<noteq> []) (ls_ids a) = ls_ids a" using assms(5) by (simp add: filter_id_conv list_all_iff)
  have ne: "[] \<notin> set (ls_ids a)" using assms(5) by (auto simp: list_all_iff js_trim_def js_trim_end_def)
  have fr: "i \<in> set fresh \<longleftrightarrow> i \<in> set (ls_new_ids a)" if "i \<in> set (ls_ids a)" for i
    using that ne by (auto simp: fresh_def set_new_context_ids)
  have len: "length fresh = card (set (ls_new_ids a) \<inter> set (ls_ids a))"
  proof -
    have "set fresh = set (ls_new_ids a) \<inter> set (ls_ids a)" using ne by (auto simp: fresh_def set_new_context_ids)
    then show ?thesis using distinct_card[OF distinct_new_context_ids] unfolding fresh_def by metis
  qed
  note run = assms(1)[unfolded begin_llm_call_def Let_def, folded t_def, folded d'_def]
  obtain db1 where c: "create_event uid now d' db = (db1, Inr e)"
    using run by (auto simp: d'_def split: prod.splits sum.splits)
  have v: "resolve_context_item_ids guard le (ls_ids a) (ls_items a) db1 = (db1, Inr (ls_ids a))"
    using assms(4) by (simp add: resolve_context_item_ids_def Let_def kept)
  define row where "row = \<lparr>lc_event = re_id e, lc_provider = ls_provider a, lc_model = ls_model a,
       lc_temperature = ls_temperature a, lc_top_p = ls_top_p a, lc_stop_reason = None, lc_context = ls_ids a,
       lc_new_count = length fresh, lc_text = None, lc_raw = JNull, lc_usage = no_usage\<rparr>"
  define db3 where "db3 = db1\<lparr>td_llm_calls := td_llm_calls db1 @ [row]\<rparr>"
  have ap: "append_llm_call_context_items uid now (re_id e)
      (map (\<lambda>i. \<lparr>nl_item = i, nl_direction = Input, nl_new = i \<in> set fresh, nl_created = Some t\<rparr>) (ls_ids a)) db3 = db'"
    using run c v by (simp add: fresh_def[symmetric] row_def[symmetric] db3_def[symmetric])
  have kept': "filter (\<lambda>i. js_trim (nl_item i) \<noteq> [])
      (map (\<lambda>i. \<lparr>nl_item = i, nl_direction = Input, nl_new = i \<in> set fresh, nl_created = Some t\<rparr>) (ls_ids a))
    = map (\<lambda>i. \<lparr>nl_item = i, nl_direction = Input, nl_new = i \<in> set fresh, nl_created = Some t\<rparr>) (ls_ids a)"
    using assms(5) by (simp add: filter_id_conv list_all_iff)
  obtain new where new: "td_context_links db' = td_context_links db3 @ new"
    "db' = db3\<lparr>td_context_links := td_context_links db', td_next := td_next db'\<rparr>"
    "map cl_idx new = [next_link_idx (re_id e) (td_context_links db3)..<next_link_idx (re_id e) (td_context_links db3) + length new]"
    "\<forall>l \<in> set new. cl_event l = re_id e"
    "map (\<lambda>l. (cl_item l, cl_direction l, cl_new l)) new = map (\<lambda>i. (i, Input, i \<in> set fresh)) (ls_ids a)"
    using appended_links[OF ap] unfolding kept' by (auto simp: comp_def)
  have same: "td_events db' = td_events db1" "td_llm_calls db' = td_llm_calls db1 @ [row]" "td_tool_calls db' = td_tool_calls db1"
    by (subst new(2), simp add: db3_def)+
  note ok = create_event_ok[OF c assms(2,3)]
  show "re_started e = Some (case nv_started d of None \<Rightarrow> now | Some t \<Rightarrow> t)"
    using create_event_cases[OF c] by (auto simp: d'_def t_def)
  have "td_events db1 = td_events db @ [e]" using create_event_cases[OF c] by auto
  then have "e \<in> set (td_events db1)" by simp
  moreover have "distinct (map re_id (td_events db1))" using ok(1) by (simp add: timeline_ok_def keys_unique_def)
  ultimately show "find_row re_id (re_id e) (td_events db') = Some e" unfolding same by (intro find_row_distinct)
  have "find_row lc_event (re_id e) (td_llm_calls db1) = None" using ok(3) by (simp add: find_row_None)
  then show "\<exists>l. find_row lc_event (re_id e) (td_llm_calls db') = Some l \<and> lc_event l = re_id e \<and> lc_context l = ls_ids a
       \<and> lc_new_count l = card (set (ls_new_ids a) \<inter> set (ls_ids a))"
    unfolding same by (simp add: row_def len)
  show "\<forall>c \<in> set (td_tool_calls db'). tk_event c \<noteq> re_id e" unfolding same using ok(3) by force
  have "re_id e \<notin> cl_event ` set (td_context_links db3)" using ok(3) by (simp add: db3_def)
  moreover have "cl_direction l = Input" if "l \<in> set new" for l
  proof -
    have "(cl_item l, cl_direction l, cl_new l) \<in> set (map (\<lambda>l. (cl_item l, cl_direction l, cl_new l)) new)"
      unfolding set_map using that by (rule imageI)
    then show ?thesis unfolding new(5) by auto
  qed
  moreover have "sorted (map cl_idx new)" unfolding new(3) by simp
  ultimately have "map (\<lambda>i. (ii_item i, ii_new i)) (input_items db' (re_id e)) = map (\<lambda>l. (cl_item l, cl_new l)) new"
    using input_items_fresh[OF new(1)] new(4) by blast
  also have "\<dots> = map (\<lambda>(i, dir, n). (i, n)) (map (\<lambda>l. (cl_item l, cl_direction l, cl_new l)) new)" by simp
  also have "\<dots> = map (\<lambda>i. (i, i \<in> set (ls_new_ids a))) (ls_ids a)" unfolding new(5) by (simp add: fr)
  finally show "map (\<lambda>i. (ii_item i, ii_new i)) (input_items db' (re_id e)) = map (\<lambda>i. (i, i \<in> set (ls_new_ids a))) (ls_ids a)" .
qed

lemma finished_call:
  fixes db :: "'a timeline_db_scheme"
  assumes "finish_llm_call now event f db = (db', Inr ())" "find_row re_id event (td_events db) = Some e"
    "find_row lc_event event (td_llm_calls db) = Some l" "\<forall>c \<in> set (td_tool_calls db). tk_event c \<noteq> event"
  shows "\<exists>e' l'. find_row re_id event (td_events db') = Some e' \<and> find_row lc_event event (td_llm_calls db') = Some l'
    \<and> re_status e' = lf_status f
    \<and> re_duration e' = duration_since (case lf_ended f of None \<Rightarrow> now | Some t \<Rightarrow> t) (re_started e)
    \<and> lc_event l' = lc_event l \<and> lc_new_count l' = lc_new_count l \<and> lc_text l' = truncate_text (sanitize_inline_text (lf_text f))
    \<and> filter (\<lambda>c. tk_event c = event) (td_tool_calls db') = sanitize_tool_call_records event (lf_calls f)
    \<and> td_context_links db' = td_context_links db \<and> td_store db' = td_store db"
proof -
  let ?calls = "sanitize_tool_call_records event (lf_calls f)"
  have c: "filter (\<lambda>c. tk_event c = event) ?calls = ?calls" by (auto simp: sanitize_tool_call_records_def filter_id_conv)
  have old: "filter (\<lambda>c. tk_event c = event) (td_tool_calls db) = []" "filter (\<lambda>c. tk_event c \<noteq> event) (td_tool_calls db) = td_tool_calls db"
    using assms(4) by (auto simp: filter_empty_conv filter_id_conv)
  show ?thesis
    using assms(1) unfolding finish_llm_call_def Let_def assms(2) option.case
    by (auto simp: assms(2,3) find_row_update old c split: if_splits)
qed

lemma input_items_cong:
  "td_context_links db' = td_context_links db \<Longrightarrow> td_store db' = td_store db \<Longrightarrow> input_items db' event = input_items db event"
  by (simp add: input_items_def)

lemma sorted_call_records: "sort_key tk_idx (sanitize_tool_call_records event calls) = sanitize_tool_call_records event calls"
proof (rule sort_key_id_if_sorted)
  have "map tk_idx (sanitize_tool_call_records event calls) = [0..<length calls]"
    by (rule nth_equalityI) (simp_all add: sanitize_tool_call_records_def nth_enumerate_eq)
  then show "sorted (map tk_idx (sanitize_tool_call_records event calls))" by simp
qed

text \<open>
  C16. A model call that was recorded and finished is read back as it was: its status and duration, which
  is never negative, its input items in order with those marked that were new, as many of them counted as
  there are, and its tool calls in order.
\<close>

theorem recorded_call_is_read:
  fixes db :: "'a timeline_db_scheme"
  assumes "timeline_ok uid db" "inj uid" "ls_ids a \<noteq> []" "list_all (\<lambda>i. js_trim i \<noteq> []) (ls_ids a)"
    and "begin_llm_call uid guard le start d a db = (db1, Inr e)"
    and "finish_llm_call now (re_id e) f db1 = (db2, Inr ())"
  shows "\<exists>v l. get_event_snapshot (re_id e) db2 = Some v \<and> te_llm v = Some l
    \<and> re_status (te_event v) = lf_status f
    \<and> re_duration (te_event v) = Some (max 0 ((case lf_ended f of None \<Rightarrow> now | Some t \<Rightarrow> t)
          - (case nv_started d of None \<Rightarrow> start | Some t \<Rightarrow> t)))
    \<and> map (\<lambda>i. (ii_item i, ii_new i)) (lv_inputs l) = map (\<lambda>i. (i, i \<in> set (ls_new_ids a))) (ls_ids a)
    \<and> lc_new_count (lv_call l) = card (set (ls_new_ids a) \<inter> set (ls_ids a))
    \<and> lv_tool_calls l = sanitize_tool_call_records (re_id e) (lf_calls f)"
proof -
  note b = begun_call[OF assms(5,1,2,3,4)]
  obtain l where l: "find_row lc_event (re_id e) (td_llm_calls db1) = Some l" "lc_event l = re_id e"
      "lc_new_count l = card (set (ls_new_ids a) \<inter> set (ls_ids a))" using b(3) by blast
  obtain e' l' where f: "find_row re_id (re_id e) (td_events db2) = Some e'" "find_row lc_event (re_id e) (td_llm_calls db2) = Some l'"
      "re_status e' = lf_status f"
      "re_duration e' = duration_since (case lf_ended f of None \<Rightarrow> now | Some t \<Rightarrow> t) (re_started e)"
      "lc_event l' = lc_event l" "lc_new_count l' = lc_new_count l"
      "filter (\<lambda>c. tk_event c = re_id e) (td_tool_calls db2) = sanitize_tool_call_records (re_id e) (lf_calls f)"
      "td_context_links db2 = td_context_links db1" "td_store db2 = td_store db1"
    using finished_call[OF assms(6) b(2) l(1) b(4)] by blast
  have i: "re_id e' = re_id e" using find_row_Some[OF f(1)] by simp
  have "input_items db2 (re_id e) = input_items db1 (re_id e)" by (rule input_items_cong[OF f(8,9)])
  then show ?thesis using f l b(1,5) i
    by (simp add: get_event_snapshot_def serialize_event_def serialize_llm_call_def Let_def sorted_call_records duration_since_def)
qed

section \<open>Examples\<close>

definition e_uid :: "nat \<Rightarrow> string" where
  "e_uid n = CHR ''e'' # digits n"

lemma inj_e_uid: "inj e_uid"
  by (simp add: inj_def e_uid_def)

definition sample_call :: llm_start where
  "sample_call = \<lparr>ls_provider = None, ls_model = Some ''gpt'', ls_temperature = None, ls_top_p = None, ls_ids = [''a'', ''b''],
     ls_items = [], ls_new_ids = [''b'']\<rparr>"

definition sample_completion :: llm_completion where
  "sample_completion = \<lparr>lf_status = Ev_success, lf_text = Some ''hi'', lf_stop_reason = None, lf_raw = None,
     lf_calls = [\<lparr>cr_call = ''c1'', cr_name = ''tool'', cr_arguments = None\<rparr>], lf_error_code = None, lf_error_message = None,
     lf_ended = Some 7, lf_metadata = None, lf_usage = None\<rparr>"

definition sample_begun :: "timeline_db \<times> (db_error + run_event)" where
  "sample_begun = begin_llm_call e_uid False (\<lambda>a b. a \<le> b) 5 (event_data ''run'' ''thread'' Llm_call) sample_call empty_timeline"

lemma empty_timeline_ok: "timeline_ok uid empty_timeline"
  by (simp add: empty_timeline_def timeline_defs)

theorem timeline_stays_consistent_witness:
  "td_next (fst sample_begun) = 3 \<and> timeline_ok e_uid (fst sample_begun)"
proof -
  have n: "td_next (fst sample_begun) = 3" by code_simp
  have "timeline_step e_uid empty_timeline (fst sample_begun)"
    by (rule timeline_step.call[of _ _ _ _ _ _ _ _ "snd sample_begun"]) (simp add: sample_begun_def)
  from timeline_stays_consistent[OF r_into_rtranclp[of "timeline_step e_uid", OF this] inj_e_uid] n show ?thesis by (rule conjI[rotated])
qed

lemma succeeded: "\<not> isl (snd p) \<Longrightarrow> (\<And>a x. p = (a, Inr x) \<Longrightarrow> thesis) \<Longrightarrow> thesis"
  by (cases p; cases "snd p") auto

theorem recorded_call_is_read_witness:
  "\<exists>db (e :: run_event) v l. finish_llm_call 9 (re_id e) sample_completion (fst sample_begun) = (db, Inr ())
     \<and> get_event_snapshot (re_id e) db = Some v \<and> te_llm v = Some l \<and> re_duration (te_event v) = Some 2
     \<and> map (\<lambda>i. (ii_item i, ii_new i)) (lv_inputs l) = [(''a'', False), (''b'', True)]"
proof -
  have "\<not> isl (snd sample_begun)" by code_simp
  then obtain db1 e where b: "sample_begun = (db1, Inr e)" by (rule succeeded)
  have "\<not> isl (snd (finish_llm_call 9 (re_id (projr (snd sample_begun))) sample_completion (fst sample_begun)))" by code_simp
  then obtain db2 u where u: "finish_llm_call 9 (re_id e) sample_completion db1 = (db2, Inr u)"
    unfolding b snd_conv fst_conv sum.sel by (rule succeeded)
  have f: "finish_llm_call 9 (re_id e) sample_completion db1 = (db2, Inr ())" using u unfolding unit_eq[of u] .
  have ids: "ls_ids sample_call \<noteq> []" "list_all (\<lambda>i. js_trim i \<noteq> []) (ls_ids sample_call)" by code_simp+
  from recorded_call_is_read[OF empty_timeline_ok inj_e_uid ids b[unfolded sample_begun_def] f]
  obtain v l where v: "get_event_snapshot (re_id e) db2 = Some v" "te_llm v = Some l"
      "re_duration (te_event v) = Some (max 0 ((case lf_ended sample_completion of None \<Rightarrow> 9 | Some t \<Rightarrow> t)
          - (case nv_started (event_data ''run'' ''thread'' Llm_call) of None \<Rightarrow> 5 | Some t \<Rightarrow> t)))"
      "map (\<lambda>i. (ii_item i, ii_new i)) (lv_inputs l) = map (\<lambda>i. (i, i \<in> set (ls_new_ids sample_call))) (ls_ids sample_call)"
    by blast
  have "re_duration (te_event v) = Some 2" using v(3) by (simp add: sample_completion_def event_data_def)
  moreover have "map (\<lambda>i. (ii_item i, ii_new i)) (lv_inputs l) = [(''a'', False), (''b'', True)]"
    unfolding v(4) by (simp add: sample_call_def)
  ultimately show ?thesis using f v(1,2) unfolding b fst_conv
    by (intro exI[of _ db2] exI[of _ e] exI[of _ v] exI[of _ l] conjI)
qed

definition three_events :: timeline_db where
  "three_events = fold (\<lambda>t db. fst (create_event e_uid t (event_data ''run'' ''thread'' Tool_execution) db)) [3, 1, 2] empty_timeline"

lemma map_serialized: "map (re_ts \<circ> te_event) (map (serialize_event db) es) = map re_ts es"
  by (simp add: serialize_event_def comp_def)

theorem timeline_pages_complete_witness:
  "\<exists>pages. follow 4 (list_run_events \<lparr>eq_run = ''run'', eq_types = [], eq_statuses = []\<rparr> (Some 2) Descending three_events) None = Some pages
     \<and> map (re_ts \<circ> te_event) (concat pages) = [3, 2, 1]"
proof -
  have k: "events_keyed three_events" "length (td_events three_events) < 4"
    "map re_ts (event_listing \<lparr>eq_run = ''run'', eq_types = [], eq_statuses = []\<rparr> Descending three_events) = [3, 2, 1]"
    by code_simp+
  from timeline_pages_complete[OF k(1,2), of "\<lparr>eq_run = ''run'', eq_types = [], eq_statuses = []\<rparr>" "Some 2" Descending]
  obtain pages where p: "follow 4 (list_run_events \<lparr>eq_run = ''run'', eq_types = [], eq_statuses = []\<rparr> (Some 2) Descending three_events) None
      = Some pages"
    "concat pages = map (serialize_event three_events)
      (event_listing \<lparr>eq_run = ''run'', eq_types = [], eq_statuses = []\<rparr> Descending three_events)" by blast
  have "map (re_ts \<circ> te_event) (concat pages) = [3, 2, 1]" unfolding p(2) map_serialized k(3) ..
  with p(1) show ?thesis by (intro exI[of _ pages] conjI)
qed

theorem summary_counts_witness:
  "\<exists>s. get_run_summary ''run'' (three_events\<lparr>td_runs := [\<lparr>rn_id = ''run'', rn_thread = ''thread'', rn_state = Run_running,
       rn_created = 0, rn_updated = 0\<rparr>]\<rparr>) = Some s \<and> rs_total s = 3"
proof -
  let ?db = "three_events\<lparr>td_runs := [\<lparr>rn_id = ''run'', rn_thread = ''thread'', rn_state = Run_running, rn_created = 0, rn_updated = 0\<rparr>]\<rparr>"
  have "get_run_summary ''run'' ?db \<noteq> None" by code_simp
  then obtain s where s: "get_run_summary ''run'' ?db = Some s" by blast
  have "rs_total s = length (events_of_run ''run'' ?db)" by (rule summary_counts[OF s, THEN conjunct2, THEN conjunct2, THEN conjunct1])
  moreover have "length (events_of_run ''run'' ?db) = 3" by code_simp
  ultimately have "rs_total s = 3" by (rule trans)
  with s show ?thesis by blast
qed
end
