(* ===== verification/Output_Stream.thy ===== *)
theory Output_Stream
  imports Timeline
begin

text \<open>
  The output of a running command on its way to a page that shows it: the server numbers, stores and
  broadcasts chunks (\<^verbatim>\<open>events/run-events.service.ts\<close>), the page
  (\<^verbatim>\<open>packages/platform-ui/src/hooks/useToolOutputStreaming.ts\<close>) reads a first snapshot, adds chunks
  as they arrive and reads what it missed.  Broadcasts may be lost, repeated and late; requests may fail.
\<close>

section \<open>The page\<close>

record viewer =
  vw_chunks :: "output_chunk list"
  vw_last :: int
  vw_text :: string
  vw_stdout :: string
  vw_stderr :: string
  vw_terminal :: "output_terminal option"
  vw_hydrated :: bool

definition empty_viewer :: viewer where
  "empty_viewer = \<lparr>vw_chunks = [], vw_last = 0, vw_text = [], vw_stdout = [], vw_stderr = [], vw_terminal = None, vw_hydrated = False\<rparr>"

definition push_chunk :: "output_chunk \<Rightarrow> viewer \<Rightarrow> viewer" where
  "push_chunk c v =
     v\<lparr>vw_chunks := vw_chunks v @ [c], vw_last := ck_seq c, vw_text := vw_text v @ ck_data c,
       vw_stdout := (if ck_source c = Stdout then vw_stdout v @ ck_data c else vw_stdout v),
       vw_stderr := (if ck_source c = Stderr then vw_stderr v @ ck_data c else vw_stderr v)\<rparr>"

definition merge_chunk :: "output_chunk \<Rightarrow> viewer \<Rightarrow> viewer" where
  "merge_chunk c v = (if ck_seq c \<le> vw_last v then v else push_chunk c v)"

text \<open>What \<open>fetchSnapshot\<close> does with an answer: a request from a number above 0 adds to what is shown, others replace it.\<close>

definition apply_snapshot :: "int \<Rightarrow> output_chunk list \<Rightarrow> output_terminal option \<Rightarrow> viewer \<Rightarrow> viewer" where
  "apply_snapshot since items terminal v =
     (let base = (if 0 < since then v else empty_viewer);
          shown = fold merge_chunk items base
      in shown\<lparr>vw_terminal := (case terminal of None \<Rightarrow> vw_terminal base | Some t \<Rightarrow> Some t), vw_hydrated := True\<rparr>)"

text \<open>A chunk from the socket; when one is missing, the number from which to catch up.\<close>

definition on_tool_output_chunk :: "output_chunk \<Rightarrow> viewer \<Rightarrow> viewer \<times> int option" where
  "on_tool_output_chunk c v =
     (if ck_seq c \<le> vw_last v then (v, None)
      else if vw_last v + 1 < ck_seq c then (v, Some (vw_last v))
      else ((push_chunk c v)\<lparr>vw_hydrated := True\<rparr>, None))"

definition on_tool_output_terminal :: "output_terminal \<Rightarrow> viewer \<Rightarrow> viewer" where
  "on_tool_output_terminal t v =
     (case vw_terminal v of
        Some u \<Rightarrow> if ot_ts t \<le> ot_ts u then v else v\<lparr>vw_terminal := Some t\<rparr>
      | None \<Rightarrow> v\<lparr>vw_terminal := Some t\<rparr>)"

section \<open>Server, network and page\<close>

text \<open>A request under way: asked from a number, or answered.\<close>

datatype fetch = Asked int | Answered int "output_chunk list" "output_terminal option"

record stream_system =
  ys_db :: timeline_db
  ys_sent :: "output_chunk list"
  ys_ended :: "output_terminal list"
  ys_view :: viewer
  ys_first :: "fetch option"
  ys_more :: "fetch option"

definition request_catchup :: "int option \<Rightarrow> stream_system \<Rightarrow> stream_system" where
  "request_catchup from_seq y =
     (case (from_seq, ys_more y) of (Some n, None) \<Rightarrow> y\<lparr>ys_more := Some (Asked n)\<rparr> | _ \<Rightarrow> y)"

text \<open>The chunk the server stores and broadcasts next; the numbers count from 1.\<close>

definition produce_chunk :: "string \<Rightarrow> bool \<Rightarrow> int \<Rightarrow> new_chunk \<Rightarrow> stream_system \<Rightarrow> stream_system" where
  "produce_chunk event up now c y =
     (let (db, row) = append_tool_output_chunk up now (c\<lparr>nc_event := event, nc_seq := int (length (ys_sent y)) + 1\<rparr>) (ys_db y)
      in y\<lparr>ys_db := db, ys_sent := ys_sent y @ [row]\<rparr>)"

definition finish_stream :: "bool \<Rightarrow> int \<Rightarrow> output_terminal \<Rightarrow> stream_system \<Rightarrow> stream_system" where
  "finish_stream up now t y =
     (let (db, row) = finalize_tool_output_terminal up now None t (ys_db y)
      in y\<lparr>ys_db := db, ys_ended := ys_ended y @ [row]\<rparr>)"

definition answer :: "string \<Rightarrow> string \<Rightarrow> int \<Rightarrow> timeline_db \<Rightarrow> fetch option" where
  "answer run event since db =
     map_option (\<lambda>s. Answered since (sp_items s) (sp_terminal s))
       (get_tool_output_snapshot run event (if 0 < since then Some since else None) None Ascending db)"

definition receive :: "int \<Rightarrow> output_chunk list \<Rightarrow> output_terminal option \<Rightarrow> stream_system \<Rightarrow> stream_system" where
  "receive since items terminal y = y\<lparr>ys_view := apply_snapshot since items terminal (ys_view y)\<rparr>"

text \<open>
  The steps, with two flags: \<open>alone\<close> says that the first snapshot is only received while no other request
  is under way, \<open>stored\<close> that the database takes every chunk.
\<close>

inductive stream_step :: "bool \<Rightarrow> bool \<Rightarrow> string \<Rightarrow> string \<Rightarrow> stream_system \<Rightarrow> stream_system \<Rightarrow> bool"
  for alone stored run event where
  produce: "(stored \<Longrightarrow> up) \<Longrightarrow> stream_step alone stored run event y (produce_chunk event up now c y)"
| finish: "stream_step alone stored run event y (finish_stream up now t y)"
| arrive: "c \<in> set (ys_sent y) \<Longrightarrow> on_tool_output_chunk c (ys_view y) = (v, missing) \<Longrightarrow>
    stream_step alone stored run event y (request_catchup missing (y\<lparr>ys_view := v\<rparr>))"
| arrive_end: "t \<in> set (ys_ended y) \<Longrightarrow>
    stream_step alone stored run event y (y\<lparr>ys_view := on_tool_output_terminal t (ys_view y)\<rparr>)"
| reconnect: "stream_step alone stored run event y (request_catchup (Some (vw_last (ys_view y))) y)"
| answer_first: "ys_first y = Some (Asked n) \<Longrightarrow> answer run event n (ys_db y) = Some a \<Longrightarrow>
    stream_step alone stored run event y (y\<lparr>ys_first := Some a\<rparr>)"
| answer_more: "ys_more y = Some (Asked n) \<Longrightarrow> answer run event n (ys_db y) = Some a \<Longrightarrow>
    stream_step alone stored run event y (y\<lparr>ys_more := Some a\<rparr>)"
| receive_first: "ys_first y = Some (Answered n items t) \<Longrightarrow> (alone \<Longrightarrow> ys_more y = None) \<Longrightarrow>
    stream_step alone stored run event y (receive n items t (y\<lparr>ys_first := None\<rparr>))"
| receive_more: "ys_more y = Some (Answered n items t) \<Longrightarrow>
    stream_step alone stored run event y (receive n items t (y\<lparr>ys_more := None\<rparr>))"
| fail_first: "stream_step alone stored run event y (y\<lparr>ys_first := None\<rparr>)"
| fail_more: "stream_step alone stored run event y (y\<lparr>ys_more := None\<rparr>)"

text \<open>A page is opened on a command that has put out nothing yet.\<close>

definition opened_page :: "string \<Rightarrow> stream_system \<Rightarrow> bool" where
  "opened_page event y \<longleftrightarrow> filter (\<lambda>c. ck_event c = event) (td_chunks (ys_db y)) = [] \<and> ys_sent y = []
     \<and> ys_view y = empty_viewer \<and> ys_first y = Some (Asked 0) \<and> ys_more y = None"

section \<open>The page shows a prefix of the output\<close>

definition numbered :: "string \<Rightarrow> output_chunk list \<Rightarrow> bool" where
  "numbered event cs \<longleftrightarrow> (\<forall>i < length cs. ck_seq (cs ! i) = int i + 1 \<and> ck_event (cs ! i) = event)"

definition showing :: "output_chunk list \<Rightarrow> nat \<Rightarrow> viewer \<Rightarrow> bool" where
  "showing cs n v \<longleftrightarrow> n \<le> length cs \<and> vw_last v = int n \<and> vw_chunks v = take n cs
     \<and> vw_text v = concat (map ck_data (take n cs))
     \<and> vw_stdout v = concat (map ck_data (filter (\<lambda>c. ck_source c = Stdout) (take n cs)))
     \<and> vw_stderr v = concat (map ck_data (filter (\<lambda>c. ck_source c = Stderr) (take n cs)))"

lemma showing_empty: "showing cs 0 empty_viewer"
  by (simp add: showing_def empty_viewer_def)

lemma showing_flags [simp]:
  "showing cs n (v\<lparr>vw_terminal := t\<rparr>) = showing cs n v" "showing cs n (v\<lparr>vw_hydrated := h\<rparr>) = showing cs n v"
  by (simp_all add: showing_def)

lemma showing_push: "showing cs n v \<Longrightarrow> n < length cs \<Longrightarrow> numbered event cs \<Longrightarrow> showing cs (Suc n) (push_chunk (cs ! n) v)"
  by (simp add: showing_def push_chunk_def take_Suc_conv_app_nth numbered_def)

lemma showing_more: "showing cs n v \<Longrightarrow> showing (cs @ ds) n v"
  by (auto simp: showing_def)

text \<open>Merging a run of chunks that starts no later than where the page stands.\<close>

lemma showing_fold:
  assumes "showing cs n v" "k \<le> n" "k + m \<le> length cs" "numbered event cs"
  shows "showing cs (max n (k + m)) (fold merge_chunk (take m (drop k cs)) v)"
  using assms(1,2,3)
proof (induction m arbitrary: k n v)
  case 0
  then show ?case by (simp add: max_def)
next
  case (Suc m)
  have k: "k < length cs" using Suc.prems(3) by simp
  then have d: "take (Suc m) (drop k cs) = cs ! k # take m (drop (Suc k) cs)"
    by (simp add: Cons_nth_drop_Suc[symmetric])
  have q: "ck_seq (cs ! k) = int k + 1" using assms(4) k by (simp add: numbered_def)
  show ?case
  proof (cases "k < n")
    case True
    then have "merge_chunk (cs ! k) v = v" using q Suc.prems(1) by (simp add: merge_chunk_def showing_def)
    with Suc.IH[OF Suc.prems(1), of "Suc k"] True Suc.prems(3) show ?thesis by (simp add: d)
  next
    case False
    then have n: "n = k" using Suc.prems(2) by simp
    then have "merge_chunk (cs ! k) v = push_chunk (cs ! k) v" using q Suc.prems(1) by (simp add: merge_chunk_def showing_def)
    moreover have "showing cs (Suc k) (push_chunk (cs ! k) v)" using showing_push[OF Suc.prems(1) _ assms(4)] k n by simp
    from Suc.IH[OF this, of "Suc k"] have "showing cs (max (Suc k) (Suc k + m)) (fold merge_chunk (take m (drop (Suc k) cs)) (push_chunk (cs ! k) v))"
      using Suc.prems(3) by simp
    ultimately show ?thesis using n by (simp add: d max_def)
  qed
qed

lemma showing_snapshot:
  assumes "showing cs n v" "k \<le> n" "k + m \<le> length cs" "numbered event cs"
  shows "\<exists>n'. showing cs n' (apply_snapshot (int k) (take m (drop k cs)) t v)"
proof (cases "k = 0")
  case True
  then show ?thesis using showing_fold[OF showing_empty, of 0 m cs event] assms(3,4) by (auto simp: apply_snapshot_def Let_def)
next
  case False
  then show ?thesis using showing_fold[OF assms] by (auto simp: apply_snapshot_def Let_def)
qed

text \<open>What a snapshot of a fully stored output holds.\<close>

lemma numbered_sorted: "numbered event cs \<Longrightarrow> sort_key ck_seq (drop k cs) = drop k cs"
proof (rule sort_key_id_if_sorted)
  assume "numbered event cs"
  then have "sorted (map ck_seq cs)" by (auto simp: numbered_def sorted_iff_nth_mono)
  then show "sorted (map ck_seq (drop k cs))" by (simp add: sorted_wrt_drop drop_map[symmetric])
qed

lemma numbered_above:
  assumes "numbered event cs"
  shows "filter (\<lambda>c. int k < ck_seq c) cs = drop k cs"
proof -
  have "filter (\<lambda>c. int k < ck_seq c) (take k cs) = []" "filter (\<lambda>c. int k < ck_seq c) (drop k cs) = drop k cs"
    using assms by (auto simp: numbered_def filter_empty_conv filter_id_conv in_set_conv_nth)
  then show ?thesis by (metis append_Nil append_take_drop_id filter_append)
qed

lemma snapshot_of_stored:
  assumes "numbered event cs" "filter (\<lambda>c. ck_event c = event) (td_chunks db) = cs"
  shows "chunks_since event (if 0 < int k then Some (int k) else None) Ascending n db = take n (drop k cs)"
  using numbered_above[OF assms(1), of k] numbered_sorted[OF assms(1), of k] numbered_sorted[OF assms(1), of 0] assms(2)
  by (cases "k = 0") (simp_all add: chunks_since_def in_order_def Let_def)

section \<open>The invariant\<close>

definition under_way :: "output_chunk list \<Rightarrow> nat \<Rightarrow> fetch option \<Rightarrow> bool" where
  "under_way cs n f \<longleftrightarrow>
     (case f of
        None \<Rightarrow> True
      | Some (Asked s) \<Rightarrow> \<exists>k. s = int k \<and> k \<le> n
      | Some (Answered s items t) \<Rightarrow> \<exists>k m. s = int k \<and> k \<le> n \<and> k + m \<le> length cs \<and> items = take m (drop k cs))"

definition stream_ok :: "string \<Rightarrow> stream_system \<Rightarrow> bool" where
  "stream_ok event y \<longleftrightarrow>
     numbered event (ys_sent y) \<and> filter (\<lambda>c. ck_event c = event) (td_chunks (ys_db y)) = ys_sent y
     \<and> (\<exists>n. showing (ys_sent y) n (ys_view y) \<and> under_way (ys_sent y) n (ys_more y))
     \<and> under_way (ys_sent y) 0 (ys_first y)"

lemma under_way_more: "under_way cs n f \<Longrightarrow> n \<le> n' \<Longrightarrow> under_way (cs @ ds) n' f"
proof (cases f)
  case (Some a)
  assume u: "under_way cs n f" and n: "n \<le> n'"
  show ?thesis
  proof (cases a)
    case (Asked s)
    then show ?thesis using u n Some by (auto simp: under_way_def)
  next
    case (Answered s items t)
    then obtain k m where "s = int k" "k \<le> n" "k + m \<le> length cs" "items = take m (drop k cs)"
      using u Some by (auto simp: under_way_def)
    moreover have "take m (drop k (cs @ ds)) = take m (drop k cs)" using calculation(3) by simp
    ultimately show ?thesis using n Some Answered by (auto simp: under_way_def intro!: exI[of _ k] exI[of _ m])
  qed
qed (simp add: under_way_def)

lemma showing_le: "showing cs n v \<Longrightarrow> n \<le> length cs"
  by (simp add: showing_def)

lemma answer_under_way:
  assumes "numbered event cs" "filter (\<lambda>c. ck_event c = event) (td_chunks db) = cs" "k \<le> n" "n \<le> length cs"
    "answer run event (int k) db = Some a"
  shows "under_way cs n (Some a)"
proof -
  obtain s where "get_tool_output_snapshot run event (if 0 < int k then Some (int k) else None) None Ascending db = Some s"
      and a: "a = Answered (int k) (sp_items s) (sp_terminal s)"
    using assms(5) by (auto simp: answer_def split: if_splits)
  then have "sp_items s = chunks_since event (if 0 < int k then Some (int k) else None) Ascending (snapshot_limit None) db"
    by (auto simp: get_tool_output_snapshot_def Let_def split: option.splits if_splits)
  then have "sp_items s = take (min (snapshot_limit None) (length cs - k)) (drop k cs)"
    unfolding snapshot_of_stored[OF assms(1,2)] by (simp add: min_def)
  then show ?thesis using assms(3,4) a
    by (auto simp: under_way_def intro!: exI[of _ k] exI[of _ "min (snapshot_limit None) (length cs - k)"])
qed

lemma produced_ok:
  assumes "stream_ok event y" "up"
  shows "stream_ok event (produce_chunk event up now c y)"
proof -
  let ?c = "c\<lparr>nc_event := event, nc_seq := int (length (ys_sent y)) + 1\<rparr>"
  let ?row = "chunk_row now ?c"
  have nu: "numbered event (ys_sent y)" and st: "filter (\<lambda>c. ck_event c = event) (td_chunks (ys_db y)) = ys_sent y"
    using assms(1) by (simp_all add: stream_ok_def)
  have row: "ck_event ?row = event" "ck_seq ?row = int (length (ys_sent y)) + 1" by (simp_all add: chunk_row_def)
  have free: "\<not> (ck_event r = event \<and> ck_seq r = int (length (ys_sent y)) + 1)" if "r \<in> set (td_chunks (ys_db y))" for r
  proof
    assume e: "ck_event r = event \<and> ck_seq r = int (length (ys_sent y)) + 1"
    have "r \<in> set (filter (\<lambda>c. ck_event c = event) (td_chunks (ys_db y)))" using that e by simp
    then have "r \<in> set (ys_sent y)" unfolding st .
    then obtain i where i: "i < length (ys_sent y)" "ys_sent y ! i = r" unfolding in_set_conv_nth by blast
    have "ck_seq r = int i + 1" using nu i unfolding numbered_def by blast
    then show False using e i(1) by simp
  qed
  have "(ck_event ?row, ck_seq ?row) \<notin> (\<lambda>r. (ck_event r, ck_seq r)) ` set (td_chunks (ys_db y))"
  proof
    assume "(ck_event ?row, ck_seq ?row) \<in> (\<lambda>r. (ck_event r, ck_seq r)) ` set (td_chunks (ys_db y))"
    then obtain r where "r \<in> set (td_chunks (ys_db y))" "(ck_event ?row, ck_seq ?row) = (ck_event r, ck_seq r)" by (rule imageE)
    then show False using free[of r] unfolding row by simp
  qed
  then have new: "append_tool_output_chunk up now ?c (ys_db y) = (ys_db y\<lparr>td_chunks := td_chunks (ys_db y) @ [?row]\<rparr>, ?row)"
    using assms(2) unfolding append_tool_output_chunk_def Let_def by (simp only: if_False simp_thms)
  have nu': "numbered event (ys_sent y @ [?row])" using nu row by (auto simp: numbered_def nth_append less_Suc_eq)
  obtain n where n: "showing (ys_sent y) n (ys_view y)" "under_way (ys_sent y) n (ys_more y)" "under_way (ys_sent y) 0 (ys_first y)"
    using assms(1) by (auto simp: stream_ok_def)
  show ?thesis
    unfolding produce_chunk_def new stream_ok_def
    using nu' st row(1) showing_more[OF n(1)] under_way_more[OF n(2) order_refl] under_way_more[OF n(3) order_refl] by auto
qed

lemma requested_ok:
  assumes "stream_ok event y" "missing = None \<or> missing = Some (vw_last (ys_view y))"
  shows "stream_ok event (request_catchup missing y)"
proof (cases "missing = None \<or> ys_more y \<noteq> None")
  case True
  then have "request_catchup missing y = y" by (cases missing; cases "ys_more y") (auto simp: request_catchup_def)
  then show ?thesis using assms(1) by simp
next
  case False
  then have "request_catchup missing y = y\<lparr>ys_more := Some (Asked (vw_last (ys_view y)))\<rparr>"
    using assms(2) by (auto simp: request_catchup_def)
  then show ?thesis using assms(1) by (auto simp: stream_ok_def under_way_def showing_def)
qed

lemma arrived:
  assumes "numbered event cs" "showing cs n v" "c \<in> set cs" "on_tool_output_chunk c v = (v', missing)"
  shows "(\<exists>n' \<ge> n. showing cs n' v') \<and> (missing = None \<or> missing = Some (vw_last v'))"
proof -
  obtain i where i: "i < length cs" "c = cs ! i" using assms(3) by (auto simp: in_set_conv_nth)
  then have q: "ck_seq c = int i + 1" using assms(1) by (simp add: numbered_def)
  have l: "vw_last v = int n" using assms(2) by (simp add: showing_def)
  consider "i < n" | "i = n" | "n < i" by linarith
  then show ?thesis
  proof cases
    case 2
    then have "v' = (push_chunk (cs ! n) v)\<lparr>vw_hydrated := True\<rparr>" "missing = None"
      using assms(4) i q l by (auto simp: on_tool_output_chunk_def)
    then show ?thesis using showing_push[OF assms(2) _ assms(1)] i 2 by (auto intro: exI[of _ "Suc n"])
  qed (use assms(2,4) q l in \<open>auto simp: on_tool_output_chunk_def\<close>)
qed

lemma stream_step_ok:
  assumes "stream_step alone stored run event y y'" "alone" "stored" "stream_ok event y"
  shows "stream_ok event y'"
  using assms
proof (induction rule: stream_step.induct)
  case (produce up y now c)
  then show ?case by (intro produced_ok) simp_all
next
  case (finish y up now t)
  have "td_chunks (fst (finalize_tool_output_terminal up now None t (ys_db y))) = td_chunks (ys_db y)"
    by (simp add: finalize_tool_output_terminal_def Let_def)
  then show ?case using finish by (auto simp: finish_stream_def stream_ok_def split: prod.splits)
next
  case (arrive c y v missing)
  obtain n where n: "showing (ys_sent y) n (ys_view y)" "under_way (ys_sent y) n (ys_more y)"
    using arrive.prems(3) by (auto simp: stream_ok_def)
  have nu: "numbered event (ys_sent y)" using arrive.prems(3) by (simp add: stream_ok_def)
  obtain n' where n': "n \<le> n'" "showing (ys_sent y) n' v" "missing = None \<or> missing = Some (vw_last v)"
    using arrived[OF nu n(1) arrive.hyps] by blast
  have "under_way (ys_sent y) n' (ys_more y)" using under_way_more[OF n(2) n'(1), of "[]"] by simp
  then have "stream_ok event (y\<lparr>ys_view := v\<rparr>)" using arrive.prems(3) n'(2) by (auto simp: stream_ok_def)
  then show ?case by (rule requested_ok) (use n'(3) in simp)
next
  case (arrive_end t y)
  have "showing cs n (on_tool_output_terminal t v) = showing cs n v" for cs n v
    by (simp add: on_tool_output_terminal_def split: option.split)
  then show ?case using arrive_end by (simp add: stream_ok_def)
next
  case (reconnect y)
  then show ?case by (intro requested_ok) simp_all
next
  case (answer_first y n a)
  then have "n = 0" by (auto simp: stream_ok_def under_way_def)
  then have "under_way (ys_sent y) 0 (Some a)"
    using answer_under_way[of event "ys_sent y" "ys_db y" 0 0 run a] answer_first by (auto simp: stream_ok_def)
  then show ?case using answer_first by (simp add: stream_ok_def)
next
  case (answer_more y s a)
  obtain n where n: "showing (ys_sent y) n (ys_view y)" "under_way (ys_sent y) n (ys_more y)"
    using answer_more.prems(3) by (auto simp: stream_ok_def)
  obtain k where k: "s = int k" "k \<le> n" using n(2) answer_more.hyps(1) by (auto simp: under_way_def)
  have "under_way (ys_sent y) n (Some a)"
    using answer_under_way[OF _ _ k(2) showing_le[OF n(1)]] answer_more k(1) by (auto simp: stream_ok_def)
  then show ?case using answer_more.prems(3) n(1) by (auto simp: stream_ok_def)
next
  case (receive_first y s items t)
  obtain n where n: "showing (ys_sent y) n (ys_view y)" using receive_first.prems(3) by (auto simp: stream_ok_def)
  have nu: "numbered event (ys_sent y)" using receive_first.prems(3) by (simp add: stream_ok_def)
  obtain m where m: "s = int 0" "m \<le> length (ys_sent y)" "items = take m (drop 0 (ys_sent y))"
    using receive_first.prems(3) receive_first.hyps(1) by (auto simp: stream_ok_def under_way_def)
  obtain n' where "showing (ys_sent y) n' (apply_snapshot s items t (ys_view y))"
    using showing_snapshot[OF n _ _ nu, of 0 m t] m by auto
  then show ?case using receive_first by (auto simp: stream_ok_def receive_def under_way_def)
next
  case (receive_more y s items t)
  obtain n where n: "showing (ys_sent y) n (ys_view y)" "under_way (ys_sent y) n (ys_more y)"
    using receive_more.prems(3) by (auto simp: stream_ok_def)
  have nu: "numbered event (ys_sent y)" using receive_more.prems(3) by (simp add: stream_ok_def)
  obtain k m where m: "s = int k" "k \<le> n" "k + m \<le> length (ys_sent y)" "items = take m (drop k (ys_sent y))"
    using n(2) receive_more.hyps(1) by (auto simp: under_way_def)
  obtain n' where "showing (ys_sent y) n' (apply_snapshot s items t (ys_view y))"
    using showing_snapshot[OF n(1) m(2,3) nu, of t] m by auto
  then show ?case using receive_more.prems by (auto simp: stream_ok_def receive_def under_way_def)
qed (auto simp: stream_ok_def under_way_def)

text \<open>
  C13. As long as the first snapshot is received alone and the database takes every chunk, a page shows
  exactly the first chunks of the output, their text and the texts of the two streams, whatever broadcasts
  are lost, repeated or late, whatever requests fail, and however often the connection breaks.
\<close>

theorem page_shows_prefix:
  assumes "opened_page event y" "(stream_step True True run event)\<^sup>*\<^sup>* y y'"
  shows "\<exists>n. showing (ys_sent y') n (ys_view y')"
proof -
  have "stream_ok event y'" using assms(2)
  proof (induction rule: rtranclp_induct)
    case base
    then show ?case using assms(1) showing_empty[of "[]"]
      by (auto simp: opened_page_def stream_ok_def numbered_def under_way_def)
  next
    case (step y' y'')
    then show ?case using stream_step_ok by blast
  qed
  then show ?thesis by (auto simp: stream_ok_def)
qed

section \<open>Without the assumptions\<close>

definition page_ok :: "string \<Rightarrow> stream_system \<Rightarrow> bool" where
  "page_ok event y \<longleftrightarrow>
     sorted_wrt (<) (map ck_seq (vw_chunks (ys_view y))) \<and> (\<forall>c \<in> set (vw_chunks (ys_view y)). ck_seq c \<le> vw_last (ys_view y))
     \<and> set (vw_chunks (ys_view y)) \<subseteq> set (ys_sent y)
     \<and> set (filter (\<lambda>c. ck_event c = event) (td_chunks (ys_db y))) \<subseteq> set (ys_sent y)
     \<and> (\<forall>f \<in> {ys_first y, ys_more y}. \<forall>n items t. f = Some (Answered n items t) \<longrightarrow> set items \<subseteq> set (ys_sent y))"

definition view_ok :: "output_chunk set \<Rightarrow> viewer \<Rightarrow> bool" where
  "view_ok sent v \<longleftrightarrow> sorted_wrt (<) (map ck_seq (vw_chunks v)) \<and> (\<forall>c \<in> set (vw_chunks v). ck_seq c \<le> vw_last v)
     \<and> set (vw_chunks v) \<subseteq> sent"

lemma view_ok_push: "view_ok sent v \<Longrightarrow> c \<in> sent \<Longrightarrow> vw_last v < ck_seq c \<Longrightarrow> view_ok sent (push_chunk c v)"
  by (fastforce simp: view_ok_def push_chunk_def sorted_wrt_append)

lemma view_ok_fold: "view_ok sent v \<Longrightarrow> set items \<subseteq> sent \<Longrightarrow> view_ok sent (fold merge_chunk items v)"
  by (induction items arbitrary: v) (auto simp: merge_chunk_def view_ok_push)

lemma view_ok_snapshot: "view_ok sent v \<Longrightarrow> set items \<subseteq> sent \<Longrightarrow> view_ok sent (apply_snapshot n items t v)"
  using view_ok_fold[of sent v items] view_ok_fold[of sent empty_viewer items]
  by (simp add: apply_snapshot_def Let_def view_ok_def empty_viewer_def)

lemma view_ok_mono: "view_ok sent v \<Longrightarrow> sent \<subseteq> sent' \<Longrightarrow> view_ok sent' v"
  by (auto simp: view_ok_def)

lemma page_ok_view:
  "page_ok event y \<longleftrightarrow> view_ok (set (ys_sent y)) (ys_view y)
     \<and> set (filter (\<lambda>c. ck_event c = event) (td_chunks (ys_db y))) \<subseteq> set (ys_sent y)
     \<and> (\<forall>f \<in> {ys_first y, ys_more y}. \<forall>n items t. f = Some (Answered n items t) \<longrightarrow> set items \<subseteq> set (ys_sent y))"
  by (auto simp: page_ok_def view_ok_def)

lemma answered_items:
  assumes "answer run event s db = Some (Answered n items t)"
  shows "set items \<subseteq> set (filter (\<lambda>c. ck_event c = event) (td_chunks db))"
proof -
  have "set (chunks_since event q d k db) \<subseteq> set (filter (\<lambda>c. ck_event c = event) (td_chunks db))" for q d k
    by (auto simp: chunks_since_def Let_def dest!: in_set_takeD split: option.splits if_splits)
  then show ?thesis using assms
    by (auto simp: answer_def get_tool_output_snapshot_def Let_def split: option.splits if_splits)
qed

lemma page_ok_fetch:
  assumes "page_ok event y" "\<And>n items t. f = Some (Answered n items t) \<Longrightarrow> set items \<subseteq> set (ys_sent y)"
  shows "page_ok event (y\<lparr>ys_first := f\<rparr>)" "page_ok event (y\<lparr>ys_more := f\<rparr>)"
  using assms(1) by (auto simp: page_ok_def dest!: assms(2))

lemma page_ok_answer:
  assumes "page_ok event y" "answer run event k (ys_db y) = Some a" "Some a = Some (Answered n items t)"
  shows "set items \<subseteq> set (ys_sent y)"
proof -
  have "set items \<subseteq> set (filter (\<lambda>c. ck_event c = event) (td_chunks (ys_db y)))" using answered_items assms(2,3) by blast
  also have "\<dots> \<subseteq> set (ys_sent y)" using assms(1) by (simp only: page_ok_def)
  finally show ?thesis .
qed

lemma page_step_ok:
  assumes "stream_step alone stored run event y y'" "page_ok event y"
  shows "page_ok event y'"
  using assms
proof (induction rule: stream_step.induct)
  case (produce up y now c)
  let ?c = "c\<lparr>nc_event := event, nc_seq := int (length (ys_sent y)) + 1\<rparr>"
  have a: "append_tool_output_chunk up now ?c (ys_db y) = (ys_db y, chunk_row now ?c)
      \<or> append_tool_output_chunk up now ?c (ys_db y)
          = (ys_db y\<lparr>td_chunks := td_chunks (ys_db y) @ [chunk_row now ?c]\<rparr>, chunk_row now ?c)"
    unfolding append_tool_output_chunk_def Let_def by (simp only: split: if_split) blast
  note pre = produce.prems[unfolded page_ok_view]
  have v: "view_ok (insert (chunk_row now ?c) (set (ys_sent y))) (ys_view y)"
    by (rule view_ok_mono[OF conjunct1[OF pre] subset_insertI])
  obtain db where db: "append_tool_output_chunk up now ?c (ys_db y) = (db, chunk_row now ?c)"
      "set (filter (\<lambda>c. ck_event c = event) (td_chunks db))
        \<subseteq> insert (chunk_row now ?c) (set (filter (\<lambda>c. ck_event c = event) (td_chunks (ys_db y))))"
    using a by (elim disjE) auto
  have s: "set (ys_sent (produce_chunk event up now c y)) = insert (chunk_row now ?c) (set (ys_sent y))"
    and p: "ys_view (produce_chunk event up now c y) = ys_view y" "ys_db (produce_chunk event up now c y) = db"
      "ys_first (produce_chunk event up now c y) = ys_first y" "ys_more (produce_chunk event up now c y) = ys_more y"
    by (simp_all add: produce_chunk_def db(1))
  show ?case unfolding page_ok_view s p
  proof (intro conjI)
    show "set (filter (\<lambda>c. ck_event c = event) (td_chunks db)) \<subseteq> insert (chunk_row now ?c) (set (ys_sent y))"
      using db(2) conjunct1[OF conjunct2[OF pre]] by (rule order_trans[OF _ insert_mono])
    show "\<forall>f \<in> {ys_first y, ys_more y}. \<forall>n items t. f = Some (Answered n items t)
        \<longrightarrow> set items \<subseteq> insert (chunk_row now ?c) (set (ys_sent y))"
      using conjunct2[OF conjunct2[OF pre]] by (meson subset_insertI subset_trans)
  qed (rule v)
next
  case (finish y up now t)
  have "td_chunks (fst (finalize_tool_output_terminal up now None t (ys_db y))) = td_chunks (ys_db y)"
    by (simp add: finalize_tool_output_terminal_def Let_def)
  then show ?case using finish by (auto simp: finish_stream_def page_ok_view split: prod.splits)
next
  case (arrive c y v missing)
  have vo: "view_ok (set (ys_sent y)) (ys_view y)" using arrive.prems by (simp only: page_ok_view)
  have "v = ys_view y \<or> (vw_last (ys_view y) < ck_seq c \<and> v = (push_chunk c (ys_view y))\<lparr>vw_hydrated := True\<rparr>)"
    using arrive.hyps(2) by (auto simp: on_tool_output_chunk_def split: if_splits)
  moreover have "view_ok (set (ys_sent y)) ((push_chunk c (ys_view y))\<lparr>vw_hydrated := True\<rparr>)" if "vw_last (ys_view y) < ck_seq c"
    using view_ok_push[OF vo arrive.hyps(1) that] by (simp add: view_ok_def)
  ultimately have "view_ok (set (ys_sent y)) v" using vo by blast
  then have "page_ok event (y\<lparr>ys_view := v\<rparr>)" using arrive.prems by (simp add: page_ok_view)
  then have "page_ok event ((y\<lparr>ys_view := v\<rparr>)\<lparr>ys_more := Some (Asked n)\<rparr>)" for n by (rule page_ok_fetch) simp
  then show ?case using \<open>page_ok event (y\<lparr>ys_view := v\<rparr>)\<close> by (simp add: request_catchup_def split: option.split)
next
  case (arrive_end t y)
  then show ?case by (auto simp: page_ok_def on_tool_output_terminal_def split: option.split)
next
  case (answer_first y n a)
  show ?case by (rule page_ok_fetch) (use answer_first page_ok_answer in blast)+
next
  case (answer_more y n a)
  show ?case by (rule page_ok_fetch) (use answer_more page_ok_answer in blast)+
next
  case (receive_first y n items t)
  then show ?case using view_ok_snapshot by (simp add: page_ok_view receive_def)
next
  case (receive_more y n items t)
  then show ?case using view_ok_snapshot by (simp add: page_ok_view receive_def)
next
  case (reconnect y)
  have "page_ok event (y\<lparr>ys_more := Some (Asked n)\<rparr>)" for n by (rule page_ok_fetch[OF reconnect.prems]) simp
  then show ?case using reconnect by (simp add: request_catchup_def split: option.split)
next
  case (fail_first y)
  show ?case by (rule page_ok_fetch[OF fail_first]) simp
next
  case (fail_more y)
  show ?case by (rule page_ok_fetch[OF fail_more]) simp
qed

text \<open>
  Whatever happens on the way, a page shows chunks of the output only, each at most once and in the
  order of their numbers.
\<close>

theorem page_never_repeats:
  assumes "opened_page event y" "(stream_step alone stored run event)\<^sup>*\<^sup>* y y'"
  shows "sorted_wrt (<) (map ck_seq (vw_chunks (ys_view y'))) \<and> set (vw_chunks (ys_view y')) \<subseteq> set (ys_sent y')"
proof -
  have "page_ok event y'" using assms(2)
  proof (induction rule: rtranclp_induct)
    case base
    then show ?case using assms(1) by (auto simp: opened_page_def page_ok_def empty_viewer_def)
  next
    case (step y' y'')
    then show ?case using page_step_ok by blast
  qed
  then show ?thesis by (simp add: page_ok_def)
qed

text \<open>The steps as a program, to run the system on examples.\<close>

datatype stream_action = Produce string | Arrive nat | Answer_first | Answer_more | Receive_first | Receive_more

definition text_chunk :: "string \<Rightarrow> new_chunk" where
  "text_chunk s = \<lparr>nc_event = [], nc_seq = 0, nc_stream_seq = 1, nc_source = Stdout, nc_data = s, nc_bytes = int (length s), nc_ts = None\<rparr>"

fun act :: "string \<Rightarrow> string \<Rightarrow> stream_action \<Rightarrow> stream_system \<Rightarrow> stream_system option" where
  "act run event (Produce s) y = Some (produce_chunk event True 0 (text_chunk s) y)"
| "act run event (Arrive i) y =
     (if i < length (ys_sent y)
      then (let (v, missing) = on_tool_output_chunk (ys_sent y ! i) (ys_view y) in Some (request_catchup missing (y\<lparr>ys_view := v\<rparr>)))
      else None)"
| "act run event Answer_first y =
     (case ys_first y of Some (Asked n) \<Rightarrow> map_option (\<lambda>a. y\<lparr>ys_first := Some a\<rparr>) (answer run event n (ys_db y)) | _ \<Rightarrow> None)"
| "act run event Answer_more y =
     (case ys_more y of Some (Asked n) \<Rightarrow> map_option (\<lambda>a. y\<lparr>ys_more := Some a\<rparr>) (answer run event n (ys_db y)) | _ \<Rightarrow> None)"
| "act run event Receive_first y =
     (case ys_first y of Some (Answered n items t) \<Rightarrow> Some (receive n items t (y\<lparr>ys_first := None\<rparr>)) | _ \<Rightarrow> None)"
| "act run event Receive_more y =
     (case ys_more y of Some (Answered n items t) \<Rightarrow> Some (receive n items t (y\<lparr>ys_more := None\<rparr>)) | _ \<Rightarrow> None)"

fun acts :: "string \<Rightarrow> string \<Rightarrow> stream_action list \<Rightarrow> stream_system \<Rightarrow> stream_system option" where
  "acts run event [] y = Some y"
| "acts run event (a # as) y = Option.bind (act run event a y) (acts run event as)"

lemma act_step: "act run event a y = Some y' \<Longrightarrow> stream_step False stored run event y y'"
  by (cases a) (auto split: option.splits fetch.splits if_splits prod.splits intro!: stream_step.intros)

lemma act_step_alone:
  "act run event a y = Some y' \<Longrightarrow> a = Receive_first \<Longrightarrow> ys_more y = None \<Longrightarrow> stream_step True stored run event y y'"
  "act run event a y = Some y' \<Longrightarrow> a \<noteq> Receive_first \<Longrightarrow> stream_step True stored run event y y'"
  by (cases a; auto split: option.splits fetch.splits if_splits prod.splits intro!: stream_step.intros)+

lemma acts_steps: "acts run event as y = Some y' \<Longrightarrow> (stream_step False stored run event)\<^sup>*\<^sup>* y y'"
proof (induction as arbitrary: y)
  case (Cons a as)
  then obtain z where "act run event a y = Some z" "acts run event as z = Some y'" by (auto simp: bind_eq_Some_conv)
  then show ?case using Cons.IH act_step by (meson converse_rtranclp_into_rtranclp)
qed simp

lemma acts_steps_alone:
  "acts run event as y = Some y' \<Longrightarrow> Receive_first \<notin> set as \<Longrightarrow> (stream_step True stored run event)\<^sup>*\<^sup>* y y'"
proof (induction as arbitrary: y)
  case (Cons a as)
  then obtain z where "act run event a y = Some z" "acts run event as z = Some y'" by (auto simp: bind_eq_Some_conv)
  moreover have "a \<noteq> Receive_first" using Cons.prems(2) by auto
  ultimately show ?case using Cons act_step_alone(2) by (meson converse_rtranclp_into_rtranclp list.set_intros(2))
qed simp

definition new_page :: stream_system where
  "new_page = \<lparr>ys_db = fst (create_event e_uid 0 (event_data ''run'' ''thread'' Tool_execution) empty_timeline), ys_sent = [],
     ys_ended = [], ys_view = empty_viewer, ys_first = Some (Asked 0), ys_more = None\<rparr>"

lemma new_page_opened: "opened_page ''e0'' new_page"
  by (simp add: opened_page_def new_page_def create_event_def empty_timeline_def event_data_def Let_def)

definition outrun_snapshot :: "stream_action list" where
  "outrun_snapshot = [Produce ''a'', Answer_first, Arrive 0, Produce ''b'', Arrive 1, Produce ''c'', Produce ''d'', Arrive 3,
     Answer_more, Receive_first, Receive_more]"

text \<open>
  The first snapshot may be overtaken by chunks from the socket, and a request to catch up may start before
  it arrives.  It then takes the page back, and the answer of the other request no longer fits: a chunk that
  was shown is gone, and no later request asks for it.
\<close>

theorem outrun_snapshot_loses_chunk:
  "\<exists>y. (stream_step False True ''run'' ''e0'')\<^sup>*\<^sup>* new_page y \<and> vw_text (ys_view y) = ''acd'' \<and> vw_last (ys_view y) = 4
     \<and> concat (map ck_data (ys_sent y)) = ''abcd'' \<and> ys_first y = None \<and> ys_more y = None"
proof -
  have "case acts ''run'' ''e0'' outrun_snapshot new_page of None \<Rightarrow> False
      | Some y \<Rightarrow> vw_text (ys_view y) = ''acd'' \<and> vw_last (ys_view y) = 4 \<and> concat (map ck_data (ys_sent y)) = ''abcd''
          \<and> ys_first y = None \<and> ys_more y = None" by code_simp
  then obtain y where y: "acts ''run'' ''e0'' outrun_snapshot new_page = Some y" "vw_text (ys_view y) = ''acd''"
      "vw_last (ys_view y) = 4" "concat (map ck_data (ys_sent y)) = ''abcd''" "ys_first y = None" "ys_more y = None"
    by (cases "acts ''run'' ''e0'' outrun_snapshot new_page") auto
  from acts_steps[OF y(1)] have "(stream_step False True ''run'' ''e0'')\<^sup>*\<^sup>* new_page y" .
  then show ?thesis using y by (intro exI[of _ y] conjI)
qed


section \<open>Examples\<close>

theorem page_shows_prefix_witness:
  "\<exists>y n. (stream_step True True ''run'' ''e0'')\<^sup>*\<^sup>* new_page y \<and> vw_text (ys_view y) = ''ab'' \<and> showing (ys_sent y) n (ys_view y)"
proof -
  let ?acts = "acts ''run'' ''e0''"
  have "case Option.bind (?acts [Produce ''a'', Answer_first] new_page) (\<lambda>y1. Option.bind (act ''run'' ''e0'' Receive_first y1) (\<lambda>y2.
      map_option (\<lambda>y3. (y1, y2, y3)) (?acts [Produce ''b'', Arrive 1] y2))) of None \<Rightarrow> False
    | Some (y1, y2, y3) \<Rightarrow> ys_more y1 = None \<and> vw_text (ys_view y3) = ''ab''" by code_simp
  then obtain y1 y2 y3 where y: "?acts [Produce ''a'', Answer_first] new_page = Some y1" "act ''run'' ''e0'' Receive_first y1 = Some y2"
      "?acts [Produce ''b'', Arrive 1] y2 = Some y3" "ys_more y1 = None" "vw_text (ys_view y3) = ''ab''"
    by (auto simp: bind_eq_Some_conv simp del: acts.simps act.simps split: option.splits prod.splits)
  have "(stream_step True True ''run'' ''e0'')\<^sup>*\<^sup>* new_page y1" by (rule acts_steps_alone[OF y(1)]) simp
  moreover have "stream_step True True ''run'' ''e0'' y1 y2" by (rule act_step_alone(1)[OF y(2) refl y(4)])
  moreover have "(stream_step True True ''run'' ''e0'')\<^sup>*\<^sup>* y2 y3" by (rule acts_steps_alone[OF y(3)]) simp
  ultimately have r: "(stream_step True True ''run'' ''e0'')\<^sup>*\<^sup>* new_page y3" by (meson rtranclp.rtrancl_into_rtrancl rtranclp_trans)
  from page_shows_prefix[OF new_page_opened r] r y(5) show ?thesis by blast
qed

theorem page_never_repeats_witness:
  "\<exists>y. (stream_step False True ''run'' ''e0'')\<^sup>*\<^sup>* new_page y \<and> length (ys_sent y) = 4 \<and> set (vw_chunks (ys_view y)) \<subseteq> set (ys_sent y)"
proof -
  have "case acts ''run'' ''e0'' outrun_snapshot new_page of None \<Rightarrow> False | Some y \<Rightarrow> length (ys_sent y) = 4" by code_simp
  then obtain y where y: "acts ''run'' ''e0'' outrun_snapshot new_page = Some y" "length (ys_sent y) = 4"
    by (cases "acts ''run'' ''e0'' outrun_snapshot new_page") auto
  from page_never_repeats[OF new_page_opened acts_steps[OF y(1)]] acts_steps[OF y(1)] y(2) show ?thesis by blast
qed

definition ended_page :: "stream_system option" where
  "ended_page = acts ''run'' ''e0'' [Produce ''a'', Produce ''b'', Produce ''c''] new_page"

end
