(* ===== verification/Ingress.thy ===== *)
theory Ingress
  imports Prelude "HOL-Library.Word"
begin

text \<open>
  From the bytes of a command's output to the text that is stored, piece by piece: decoding with detection
  of the encoding (\<^verbatim>\<open>common/ingress/ingressDecode.ts\<close>), the removal of terminal sequences that may be cut
  anywhere (\<open>AnsiSequenceCleaner\<close> in \<^verbatim>\<open>nodes/tools/shell_command/shell_command.tool.ts\<close>) and the removal of
  what the database cannot hold (\<^verbatim>\<open>common/sanitize/ingressText.sanitize.ts\<close>).  Bytes and code units are
  words.  The decoders are \<^verbatim>\<open>iconv-lite\<close>'s, an argument; so is the function that strips a text without
  a cut sequence, as it is for the cleaner.
\<close>

type_synonym byte = "8 word"
type_synonym code_unit = "16 word"

section \<open>Decoding\<close>

datatype encoding = Utf8 | Utf16le | Utf16be

record 'd decoders =
  dc_new :: "encoding \<Rightarrow> 'd"
  dc_write :: "'d \<Rightarrow> byte list \<Rightarrow> 'd \<times> code_unit list"
  dc_end :: "'d \<Rightarrow> code_unit list"

record 'd decode_state =
  ds_encoding :: encoding
  ds_decoder :: 'd
  ds_inspected :: bool
  ds_pending :: "byte list option"

definition utf8_bom :: "byte list" where "utf8_bom = [0xEF, 0xBB, 0xBF]"
definition utf16le_bom :: "byte list" where "utf16le_bom = [0xFF, 0xFE]"
definition utf16be_bom :: "byte list" where "utf16be_bom = [0xFE, 0xFF]"

definition starts_with :: "'a list \<Rightarrow> 'a list \<Rightarrow> bool" where
  "starts_with p xs \<longleftrightarrow> take (length p) xs = p"

text \<open>The zero bytes at even and at odd places of a sample.\<close>

fun count_nulls :: "byte list \<Rightarrow> nat \<times> nat" where
  "count_nulls [] = (0, 0)"
| "count_nulls (b # bs) = (let (even_nulls, odd_nulls) = count_nulls bs in ((if b = 0 then 1 else 0) + odd_nulls, even_nulls))"

definition detect_bomless_utf16 :: "byte list \<Rightarrow> encoding option" where
  "detect_bomless_utf16 buffer =
     (let sample = min (length buffer) 64
      in if sample < 4 then None
         else
           (let (even_nulls, odd_nulls) = count_nulls (take sample buffer);
                threshold = max 1 (sample div 4); noise = sample div 32
            in if threshold \<le> odd_nulls \<and> even_nulls \<le> noise then Some Utf16le
               else if threshold \<le> even_nulls \<and> odd_nulls \<le> noise then Some Utf16be
               else None))"

definition detect_encoding :: "byte list \<Rightarrow> (encoding \<times> nat) option" where
  "detect_encoding buffer =
     (if starts_with utf8_bom buffer then Some (Utf8, 3)
      else if starts_with utf16le_bom buffer then Some (Utf16le, 2)
      else if starts_with utf16be_bom buffer then Some (Utf16be, 2)
      else map_option (\<lambda>e. (e, 0)) (detect_bomless_utf16 buffer))"

definition is_bom_prefix :: "byte list \<Rightarrow> bool" where
  "is_bom_prefix buffer \<longleftrightarrow>
     buffer \<noteq> [] \<and> list_ex (\<lambda>bom. length buffer < length bom \<and> take (length buffer) bom = buffer) [utf8_bom, utf16le_bom, utf16be_bom]"

definition should_buffer :: "byte list \<Rightarrow> (encoding \<times> nat) option \<Rightarrow> bool" where
  "should_buffer buffer detection \<longleftrightarrow>
     detection = None \<and> (length buffer < 2 \<or> is_bom_prefix buffer \<or> (0 \<in> set buffer \<and> length buffer < 4))"

definition initial_decode_state :: "'d decoders \<Rightarrow> 'd decode_state" where
  "initial_decode_state dc = \<lparr>ds_encoding = Utf8, ds_decoder = dc_new dc Utf8, ds_inspected = False, ds_pending = None\<rparr>"

definition write_bytes :: "'d decoders \<Rightarrow> byte list \<Rightarrow> 'd decode_state \<Rightarrow> 'd decode_state \<times> code_unit list" where
  "write_bytes dc bytes st =
     (if bytes = [] then (st, [])
      else (let (d, t) = dc_write dc (ds_decoder st) bytes in (st\<lparr>ds_decoder := d\<rparr>, t)))"

definition decode_ingress_chunk :: "'d decoders \<Rightarrow> 'd decode_state \<Rightarrow> byte list \<Rightarrow> 'd decode_state \<times> code_unit list" where
  "decode_ingress_chunk dc st chunk =
     (if chunk = [] then (st, [])
      else if ds_inspected st then write_bytes dc chunk st
      else
        (let buffer = (case ds_pending st of None \<Rightarrow> chunk | Some p \<Rightarrow> p @ chunk);
             detection = detect_encoding buffer
         in if should_buffer buffer detection then (st\<lparr>ds_pending := Some buffer\<rparr>, [])
            else
              (let st1 = st\<lparr>ds_pending := None, ds_inspected := True\<rparr>
               in case detection of
                    None \<Rightarrow> write_bytes dc buffer st1
                  | Some (e, bom) \<Rightarrow>
                      (let st2 = (if e \<noteq> ds_encoding st1 then st1\<lparr>ds_encoding := e, ds_decoder := dc_new dc e\<rparr> else st1)
                       in write_bytes dc (drop bom buffer) st2))))"

definition flush_ingress_decoder :: "'d decoders \<Rightarrow> 'd decode_state \<Rightarrow> code_unit list" where
  "flush_ingress_decoder dc st =
     (case (ds_inspected st, ds_pending st) of
        (False, Some p) \<Rightarrow>
          (let (st1, t) = write_bytes dc p (st\<lparr>ds_pending := None, ds_inspected := True\<rparr>) in t @ dc_end dc (ds_decoder st1))
      | _ \<Rightarrow> dc_end dc (ds_decoder st))"

fun decode_all :: "'d decoders \<Rightarrow> 'd decode_state \<Rightarrow> byte list list \<Rightarrow> code_unit list" where
  "decode_all dc st [] = flush_ingress_decoder dc st"
| "decode_all dc st (c # cs) = (let (st1, t) = decode_ingress_chunk dc st c in t @ decode_all dc st1 cs)"

text \<open>Decoding a text at once.\<close>

definition decode_whole :: "'d decoders \<Rightarrow> 'd \<Rightarrow> byte list \<Rightarrow> code_unit list" where
  "decode_whole dc d bytes =
     (if bytes = [] then dc_end dc d else (let (d1, t) = dc_write dc d bytes in t @ dc_end dc d1))"

text \<open>What a stream decoder promises: it does not matter how its input is cut.\<close>

definition cuts_freely :: "'d decoders \<Rightarrow> bool" where
  "cuts_freely dc \<longleftrightarrow>
     (\<forall>d a b. dc_write dc d (a @ b) = (let (d1, t) = dc_write dc d a; (d2, u) = dc_write dc d1 b in (d2, t @ u)))"

lemma decode_whole_append:
  assumes "cuts_freely dc" "a \<noteq> []" "dc_write dc d a = (d1, t)"
  shows "decode_whole dc d (a @ b) = t @ decode_whole dc d1 b"
proof (cases "b = []")
  case True
  then show ?thesis using assms(2,3) by (simp add: decode_whole_def)
next
  case False
  have "dc_write dc d (a @ b) = (let (d1, t) = dc_write dc d a; (d2, u) = dc_write dc d1 b in (d2, t @ u))"
    using assms(1) by (simp add: cuts_freely_def)
  then show ?thesis using False assms(2,3) by (auto simp: decode_whole_def split: prod.splits)
qed

text \<open>Once the encoding is settled, the rest is decoded as one text.\<close>

lemma decode_all_inspected:
  assumes "cuts_freely dc" "ds_inspected st"
  shows "decode_all dc st cs = decode_whole dc (ds_decoder st) (concat cs)"
  using assms(2)
proof (induction cs arbitrary: st)
  case Nil
  then show ?case by (simp add: flush_ingress_decoder_def decode_whole_def)
next
  case (Cons c cs)
  show ?case
  proof (cases "c = []")
    case True
    then show ?thesis using Cons by (simp add: decode_ingress_chunk_def)
  next
    case False
    obtain d t where w: "dc_write dc (ds_decoder st) c = (d, t)" by (cases "dc_write dc (ds_decoder st) c")
    have "decode_all dc (st\<lparr>ds_decoder := d\<rparr>) cs = decode_whole dc d (concat cs)"
      using Cons.IH[of "st\<lparr>ds_decoder := d\<rparr>"] Cons.prems by simp
    then show ?thesis using False Cons.prems w decode_whole_append[OF assms(1) False w]
      by (simp add: decode_ingress_chunk_def write_bytes_def)
  qed
qed

lemma write_then_all:
  assumes "cuts_freely dc" "ds_inspected st"
  shows "(case write_bytes dc bytes st of (st1, t) \<Rightarrow> t @ decode_all dc st1 cs) = decode_whole dc (ds_decoder st) (bytes @ concat cs)"
proof (cases "bytes = []")
  case True
  then show ?thesis using decode_all_inspected[OF assms] by (simp add: write_bytes_def)
next
  case False
  obtain d t where w: "dc_write dc (ds_decoder st) bytes = (d, t)" by (cases "dc_write dc (ds_decoder st) bytes")
  have "decode_all dc (st\<lparr>ds_decoder := d\<rparr>) cs = decode_whole dc d (concat cs)"
    using decode_all_inspected[OF assms(1), of "st\<lparr>ds_decoder := d\<rparr>"] assms(2) by simp
  then show ?thesis using False w decode_whole_append[OF assms(1) False w] by (simp add: write_bytes_def)
qed

text \<open>The state before the encoding is settled, with the bytes read so far.\<close>

definition waiting :: "'d decoders \<Rightarrow> byte list \<Rightarrow> 'd decode_state \<Rightarrow> bool" where
  "waiting dc seen st \<longleftrightarrow> st = (initial_decode_state dc)\<lparr>ds_pending := (if seen = [] then None else Some seen)\<rparr>"

lemma waiting_step:
  assumes "waiting dc seen st" "c \<noteq> []"
  shows "should_buffer (seen @ c) (detect_encoding (seen @ c)) \<Longrightarrow>
      (\<exists>st1. decode_ingress_chunk dc st c = (st1, []) \<and> waiting dc (seen @ c) st1)"
    "\<not> should_buffer (seen @ c) (detect_encoding (seen @ c)) \<Longrightarrow> cuts_freely dc \<Longrightarrow>
      (case decode_ingress_chunk dc st c of (st1, t) \<Rightarrow> t @ decode_all dc st1 cs)
        = (case detect_encoding (seen @ c) of
             None \<Rightarrow> decode_whole dc (dc_new dc Utf8) (seen @ c @ concat cs)
           | Some (e, bom) \<Rightarrow> decode_whole dc (dc_new dc e) (drop bom (seen @ c) @ concat cs))"
proof -
  have b: "(case ds_pending st of None \<Rightarrow> c | Some p \<Rightarrow> p @ c) = seen @ c" "ds_inspected st = False"
    "ds_encoding st = Utf8" "ds_decoder st = dc_new dc Utf8"
    using assms(1) by (simp_all add: waiting_def initial_decode_state_def)
  {
    assume "should_buffer (seen @ c) (detect_encoding (seen @ c))"
    then show "\<exists>st1. decode_ingress_chunk dc st c = (st1, []) \<and> waiting dc (seen @ c) st1"
      using b assms by (simp add: decode_ingress_chunk_def Let_def waiting_def)
  next
    assume s: "\<not> should_buffer (seen @ c) (detect_encoding (seen @ c))" and cf: "cuts_freely dc"
    show "(case decode_ingress_chunk dc st c of (st1, t) \<Rightarrow> t @ decode_all dc st1 cs)
        = (case detect_encoding (seen @ c) of
             None \<Rightarrow> decode_whole dc (dc_new dc Utf8) (seen @ c @ concat cs)
           | Some (e, bom) \<Rightarrow> decode_whole dc (dc_new dc e) (drop bom (seen @ c) @ concat cs))"
    proof (cases "detect_encoding (seen @ c)")
      case None
      then show ?thesis using write_then_all[OF cf, of "st\<lparr>ds_pending := None, ds_inspected := True\<rparr>" cs "seen @ c"] s b assms(2)
        by (simp add: decode_ingress_chunk_def)
    next
      case (Some eb)
      obtain e bom where eb: "eb = (e, bom)" by (cases eb)
      let ?st1 = "st\<lparr>ds_pending := None, ds_inspected := True\<rparr>"
      let ?st2 = "if e \<noteq> Utf8 then ?st1\<lparr>ds_encoding := e, ds_decoder := dc_new dc e\<rparr> else ?st1"
      have "ds_decoder ?st2 = dc_new dc e" "ds_inspected ?st2" using b by simp_all
      then show ?thesis using write_then_all[OF cf, of ?st2 cs "drop bom (seen @ c)"] s b assms(2) Some eb
        by (simp add: decode_ingress_chunk_def Let_def)
    qed
  }
qed

lemma starts_with_length: "starts_with p xs \<Longrightarrow> length p \<le> length xs"
  unfolding starts_with_def by (drule arg_cong[of _ _ length]) simp

lemma detect_encoding_length:
  assumes "detect_encoding b = Some (e, n)"
  shows "n \<le> length b"
  using assms starts_with_length[of utf8_bom b] starts_with_length[of utf16le_bom b] starts_with_length[of utf16be_bom b]
  by (auto simp: detect_encoding_def utf8_bom_def utf16le_bom_def utf16be_bom_def split: if_splits)

text \<open>No byte is lost: the first detection that settles the encoding decides how all bytes are read.\<close>

lemma decode_all_waiting:
  assumes "cuts_freely dc" "waiting dc seen st"
  shows "\<exists>e n. decode_all dc st cs = decode_whole dc (dc_new dc e) (drop n (seen @ concat cs))
    \<and> (n = 0 \<or> (\<exists>bytes rest. seen @ concat cs = bytes @ rest \<and> detect_encoding bytes = Some (e, n)))"
  using assms(2)
proof (induction cs arbitrary: seen st)
  case Nil
  then have "decode_all dc st [] = decode_whole dc (dc_new dc Utf8) (drop 0 (seen @ concat []))"
    by (auto simp: waiting_def initial_decode_state_def flush_ingress_decoder_def decode_whole_def write_bytes_def split: prod.splits)
  then show ?case by blast
next
  case (Cons c cs)
  show ?case
  proof (cases "c = []")
    case True
    then have "decode_all dc st (c # cs) = decode_all dc st cs" by (simp add: decode_ingress_chunk_def)
    with Cons.IH[OF Cons.prems] True show ?thesis by simp
  next
    case False
    show ?thesis
    proof (cases "should_buffer (seen @ c) (detect_encoding (seen @ c))")
      case True
      from waiting_step(1)[OF Cons.prems False True] obtain st1 where "decode_ingress_chunk dc st c = (st1, [])" "waiting dc (seen @ c) st1" by blast
      with Cons.IH[of "seen @ c" st1] show ?thesis by simp
    next
      case settled: False
      note w = waiting_step(2)[OF Cons.prems False settled assms(1), of cs]
      show ?thesis
      proof (cases "detect_encoding (seen @ c)")
        case None
        then have "decode_all dc st (c # cs) = decode_whole dc (dc_new dc Utf8) (drop 0 (seen @ concat (c # cs)))" using w by simp
        then show ?thesis by blast
      next
        case (Some eb)
        obtain e n where eb: "eb = (e, n)" by (cases eb)
        have "n \<le> length (seen @ c)" using detect_encoding_length Some eb by blast
        then have "decode_all dc st (c # cs) = decode_whole dc (dc_new dc e) (drop n (seen @ concat (c # cs)))"
          using w Some eb by simp
        moreover have "seen @ concat (c # cs) = (seen @ c) @ concat cs" by simp
        ultimately show ?thesis using Some eb by blast
      qed
    qed
  qed
qed

text \<open>A byte order mark decides, wherever the bytes are cut.\<close>

definition bom_of :: "encoding \<Rightarrow> byte list" where
  "bom_of e = (case e of Utf8 \<Rightarrow> utf8_bom | Utf16le \<Rightarrow> utf16le_bom | Utf16be \<Rightarrow> utf16be_bom)"

lemmas bom_defs = bom_of_def utf8_bom_def utf16le_bom_def utf16be_bom_def

lemma detect_bom: "detect_encoding (bom_of e @ rest) = Some (e, length (bom_of e))"
  by (cases e) (simp_all add: detect_encoding_def starts_with_def bom_defs)

lemma part_of_bom:
  assumes "seen \<noteq> []" "length seen < length (bom_of e)" "seen = take (length seen) (bom_of e)"
  shows "should_buffer seen (detect_encoding seen)"
proof -
  have d: "detect_encoding seen = None"
    using assms by (cases e; cases seen; cases "tl seen")
      (auto simp: bom_defs detect_encoding_def starts_with_def detect_bomless_utf16_def Let_def)
  have "is_bom_prefix seen" using assms by (cases e) (auto simp: is_bom_prefix_def bom_of_def)
  then show ?thesis by (simp add: should_buffer_def d)
qed

lemma decode_all_bom:
  assumes "cuts_freely dc" "waiting dc seen st" "length seen < length (bom_of e)" "seen @ concat cs = bom_of e @ rest"
  shows "decode_all dc st cs = decode_whole dc (dc_new dc e) rest"
  using assms(2,3,4)
proof (induction cs arbitrary: seen st)
  case Nil
  then show ?case by (auto dest: arg_cong[of _ _ length])
next
  case (Cons c cs)
  show ?case
  proof (cases "c = []")
    case True
    then have "decode_all dc st (c # cs) = decode_all dc st cs" by (simp add: decode_ingress_chunk_def)
    with Cons True show ?thesis by simp
  next
    case False
    show ?thesis
    proof (cases "length (seen @ c) < length (bom_of e)")
      case True
      have "seen @ c = take (length (seen @ c)) (bom_of e)"
        using arg_cong[OF Cons.prems(3), of "take (length (seen @ c))"] True by simp
      then have "should_buffer (seen @ c) (detect_encoding (seen @ c))"
        using part_of_bom[OF _ True] False by (metis append_is_Nil_conv)
      from waiting_step(1)[OF Cons.prems(1) False this] obtain st1
        where "decode_ingress_chunk dc st c = (st1, [])" "waiting dc (seen @ c) st1" by blast
      with Cons.IH[of "seen @ c" st1] True Cons.prems(3) show ?thesis by simp
    next
      case long: False
      obtain more where m: "seen @ c = bom_of e @ more"
      proof -
        have "take (length (bom_of e)) (seen @ c) = bom_of e"
          using arg_cong[OF Cons.prems(3), of "take (length (bom_of e))"] long by simp
        then show ?thesis using that append_take_drop_id[of "length (bom_of e)" "seen @ c"] by metis
      qed
      then have d: "detect_encoding (seen @ c) = Some (e, length (bom_of e))" using detect_bom by metis
      then have s: "\<not> should_buffer (seen @ c) (detect_encoding (seen @ c))" by (simp add: should_buffer_def)
      have "bom_of e @ more @ concat cs = bom_of e @ rest" using Cons.prems(3) m by (metis append.assoc concat.simps(2))
      then have "rest = more @ concat cs" by simp
      with waiting_step(2)[OF Cons.prems(1) False s assms(1), of cs] d m show ?thesis by simp
    qed
  qed
qed


text \<open>A decoder that reads each byte as a unit of its own and marks the encoding.\<close>

definition plain_decoders :: "encoding decoders" where
  "plain_decoders = \<lparr>dc_new = (\<lambda>e. e), dc_write = (\<lambda>e bs. (e, map (\<lambda>b. ucast b + (if e = Utf8 then 0 else 0x100)) bs)), dc_end = (\<lambda>e. [])\<rparr>"

lemma plain_cuts_freely: "cuts_freely plain_decoders"
  by (simp add: cuts_freely_def plain_decoders_def)


text \<open>
  Without a byte order mark the cut matters: two bytes without a zero settle the encoding, and the same bytes
  read at once are recognised as UTF-16.
\<close>

theorem detection_depends_on_cut:
  "decode_all plain_decoders (initial_decode_state plain_decoders) [[0x2D, 0x4E], [0x61, 0, 0x62, 0]]
     \<noteq> decode_all plain_decoders (initial_decode_state plain_decoders) [[0x2D, 0x4E, 0x61, 0, 0x62, 0]]"
  by code_simp
end
