(* ===== verification/Ansi_Text.thy ===== *)
theory Ansi_Text
  imports Ingress "HOL-Library.Sublist"
begin

text \<open>
  What a command's text goes through before it is stored: the removal of what the database cannot hold
  (\<^verbatim>\<open>common/sanitize/ingressText.sanitize.ts\<close>), the regular expressions that recognise terminal sequences, and
  the cleaner that copes with sequences cut by a chunk boundary (both in
  \<^verbatim>\<open>nodes/tools/shell_command/shell_command.tool.ts\<close>).
\<close>

section \<open>Sanitizing\<close>

record sanitize_state =
  sz_seen :: bool
  sz_bom :: bool
  sz_prefix :: bool
  sz_nulls :: nat

definition bom_char :: code_unit where "bom_char = 0xFEFF"
definition replacement :: code_unit where "replacement = 0xFFFD"

definition create_sanitize_state :: sanitize_state where
  "create_sanitize_state = \<lparr>sz_seen = False, sz_bom = False, sz_prefix = False, sz_nulls = 0\<rparr>"

definition strip_start :: "code_unit list \<Rightarrow> sanitize_state \<Rightarrow> sanitize_state \<times> code_unit list" where
  "strip_start text st =
     (let (st1, t1) = (if starts_with [bom_char] text then (st\<lparr>sz_bom := True\<rparr>, dropWhile (\<lambda>c. c = bom_char) text) else (st, text))
      in if starts_with [replacement, replacement] t1 then (st1\<lparr>sz_prefix := True\<rparr>, drop 2 t1) else (st1, t1))"

definition sanitize_ingress_chunk :: "code_unit list \<Rightarrow> sanitize_state \<Rightarrow> sanitize_state \<times> code_unit list" where
  "sanitize_ingress_chunk input st =
     (if input = [] then (st, [])
      else
        (let (st1, text) = (if sz_seen st then (st, input) else strip_start input st)
         in if text = [] then (st1, [])
            else
              (let kept = filter (\<lambda>c. c \<noteq> 0) text
               in (st1\<lparr>sz_nulls := sz_nulls st1 + length (filter (\<lambda>c. c = 0) text), sz_seen := sz_seen st1 \<or> kept \<noteq> []\<rparr>, kept))))"

definition sanitize_ingress_text :: "code_unit list \<Rightarrow> code_unit list" where
  "sanitize_ingress_text input = snd (sanitize_ingress_chunk input create_sanitize_state)"

fun sanitize_all :: "sanitize_state \<Rightarrow> code_unit list list \<Rightarrow> sanitize_state \<times> code_unit list" where
  "sanitize_all st [] = (st, [])"
| "sanitize_all st (c # cs) =
     (let (st1, t) = sanitize_ingress_chunk c st; (st2, u) = sanitize_all st1 cs in (st2, t @ u))"

text \<open>The units that may be taken away at the start.\<close>

definition start_noise :: "code_unit set" where "start_noise = {bom_char, replacement, 0}"

lemma starts_with_append: "starts_with p xs \<Longrightarrow> \<exists>ys. xs = p @ ys"
  unfolding starts_with_def by (metis append_take_drop_id)

lemma strip_start_splits:
  assumes "strip_start t st = (st1, u)"
  shows "\<exists>lost. t = lost @ u \<and> set lost \<subseteq> {bom_char, replacement}"
    "sz_seen st1 = sz_seen st" "sz_nulls st1 = sz_nulls st"
proof -
  define sw where "sw = (if starts_with [bom_char] t then (st\<lparr>sz_bom := True\<rparr>, dropWhile (\<lambda>c. c = bom_char) t) else (st, t))"
  obtain sa w where w: "sw = (sa, w)" by (cases sw)
  have r: "strip_start t st = (if starts_with [replacement, replacement] w then (sa\<lparr>sz_prefix := True\<rparr>, drop 2 w) else (sa, w))"
    using w by (simp add: strip_start_def sw_def[symmetric])
  have f: "sz_seen sa = sz_seen st" "sz_nulls sa = sz_nulls st" using w by (auto simp: sw_def split: if_splits)
  obtain l1 where l1: "t = l1 @ w" "set l1 \<subseteq> {bom_char, replacement}"
  proof (cases "starts_with [bom_char] t")
    case True
    then have "w = dropWhile (\<lambda>c. c = bom_char) t" using w by (simp add: sw_def)
    then have "t = takeWhile (\<lambda>c. c = bom_char) t @ w" by simp
    moreover have "set (takeWhile (\<lambda>c. c = bom_char) t) \<subseteq> {bom_char, replacement}" by (auto dest: set_takeWhileD)
    ultimately show ?thesis using that by blast
  next
    case False
    then have "t = [] @ w" using w by (simp add: sw_def)
    then show ?thesis using that[of "[]"] by simp
  qed
  show "\<exists>lost. t = lost @ u \<and> set lost \<subseteq> {bom_char, replacement}"
  proof (cases "starts_with [replacement, replacement] w")
    case True
    then obtain ys where ys: "w = [replacement, replacement] @ ys" by (blast dest: starts_with_append)
    have "u = drop 2 w" using assms r True by simp
    then have "t = (l1 @ [replacement, replacement]) @ u" using l1(1) ys by simp
    moreover have "set (l1 @ [replacement, replacement]) \<subseteq> {bom_char, replacement}" using l1(2) by simp
    ultimately show ?thesis by blast
  next
    case False
    then have "u = w" using assms r by simp
    then show ?thesis using l1 by blast
  qed
  show "sz_seen st1 = sz_seen st" "sz_nulls st1 = sz_nulls st"
    using assms r f by (auto split: if_splits)
qed

lemma sanitize_chunk_splits:
  assumes "sanitize_ingress_chunk c st = (st1, t)"
  shows "\<exists>lost kept. c = lost @ kept \<and> set lost \<subseteq> {bom_char, replacement} \<and> t = filter (\<lambda>u. u \<noteq> 0) kept
      \<and> (sz_seen st \<longrightarrow> lost = [])"
    "sz_nulls st1 = sz_nulls st + length (filter (\<lambda>u. u = 0) c)"
    "sz_seen st1 \<longleftrightarrow> sz_seen st \<or> t \<noteq> []"
proof -
  obtain sa u where su: "(if sz_seen st then (st, c) else strip_start c st) = (sa, u)" by fastforce
  obtain lost where l: "c = lost @ u" "set lost \<subseteq> {bom_char, replacement}" "sz_seen st \<longrightarrow> lost = []"
      "sz_seen sa = sz_seen st" "sz_nulls sa = sz_nulls st"
    using su strip_start_splits[of c st sa u] by (cases "sz_seen st") auto
  have n: "filter (\<lambda>u. u = 0) lost = []" using l(2) by (auto simp: filter_empty_conv bom_char_def replacement_def)
  have t: "t = filter (\<lambda>u. u \<noteq> 0) u" "sz_nulls st1 = sz_nulls st + length (filter (\<lambda>u. u = 0) u)" "sz_seen st1 \<longleftrightarrow> sz_seen st \<or> t \<noteq> []"
  proof -
    have "c = [] \<Longrightarrow> u = []" using l(1) by simp
    then show "t = filter (\<lambda>u. u \<noteq> 0) u" "sz_nulls st1 = sz_nulls st + length (filter (\<lambda>u. u = 0) u)" "sz_seen st1 \<longleftrightarrow> sz_seen st \<or> t \<noteq> []"
      using assms su l(4,5) by (auto simp: sanitize_ingress_chunk_def Let_def split: if_splits)
  qed
  show "\<exists>lost kept. c = lost @ kept \<and> set lost \<subseteq> {bom_char, replacement} \<and> t = filter (\<lambda>u. u \<noteq> 0) kept
      \<and> (sz_seen st \<longrightarrow> lost = [])" using l(1,2,3) t(1) by blast
  show "sz_nulls st1 = sz_nulls st + length (filter (\<lambda>u. u = 0) c)" using t(2) l(1) n by simp
  show "sz_seen st1 \<longleftrightarrow> sz_seen st \<or> t \<noteq> []" by (rule t(3))
qed

lemma sanitize_all_splits:
  assumes "sanitize_all st cs = (st1, t)"
  shows "(\<exists>lost kept. concat cs = lost @ kept \<and> set lost \<subseteq> start_noise \<and> t = filter (\<lambda>u. u \<noteq> 0) kept \<and> (sz_seen st \<longrightarrow> lost = []))
    \<and> sz_nulls st1 = sz_nulls st + length (filter (\<lambda>u. u = 0) (concat cs))"
  using assms
proof (induction cs arbitrary: st st1 t)
  case Nil
  then show ?case by simp
next
  case (Cons c cs)
  obtain sa u where a: "sanitize_ingress_chunk c st = (sa, u)" by fastforce
  obtain sb v where b: "sanitize_all sa cs = (sb, v)" by fastforce
  have tv: "t = u @ v" "st1 = sb" using Cons.prems a b by auto
  obtain l1 k1 where h: "c = l1 @ k1" "set l1 \<subseteq> {bom_char, replacement}" "u = filter (\<lambda>u. u \<noteq> 0) k1" "sz_seen st \<longrightarrow> l1 = []"
    using sanitize_chunk_splits(1)[OF a] by blast
  obtain l2 k2 where r: "concat cs = l2 @ k2" "set l2 \<subseteq> start_noise" "v = filter (\<lambda>u. u \<noteq> 0) k2" "sz_seen sa \<longrightarrow> l2 = []"
    using Cons.IH[OF b] by blast
  have n: "sz_nulls st1 = sz_nulls st + length (filter (\<lambda>u. u = 0) (concat (c # cs)))"
    using Cons.IH[OF b] sanitize_chunk_splits(2)[OF a] tv(2) by simp
  have s: "sz_seen sa \<longleftrightarrow> sz_seen st \<or> u \<noteq> []" by (rule sanitize_chunk_splits(3)[OF a])
  have "\<exists>lost kept. concat (c # cs) = lost @ kept \<and> set lost \<subseteq> start_noise \<and> t = filter (\<lambda>u. u \<noteq> 0) kept \<and> (sz_seen st \<longrightarrow> lost = [])"
  proof (cases "sz_seen sa")
    case True
    then have "concat (c # cs) = l1 @ (k1 @ k2)" "t = filter (\<lambda>u. u \<noteq> 0) (k1 @ k2)" using h(1,3) r(1,3,4) tv(1) by simp_all
    then show ?thesis using h(2,4) by (intro exI[of _ l1] exI[of _ "k1 @ k2"]) (auto simp: start_noise_def)
  next
    case False
    then have f: "u = []" "\<not> sz_seen st" using s by auto
    then have "set k1 \<subseteq> {0}" using h(3) by (auto simp: filter_empty_conv)
    then have "set (l1 @ k1 @ l2) \<subseteq> start_noise" using h(2) r(2) by (auto simp: start_noise_def)
    moreover have "concat (c # cs) = (l1 @ k1 @ l2) @ k2" using h(1) r(1) by simp
    ultimately show ?thesis using f tv(1) r(3) by (intro exI[of _ "l1 @ k1 @ l2"] exI[of _ k2]) simp
  qed
  with n show ?case by blast
qed

lemma sanitized_text_is_clean_parts:
  assumes "sanitize_all create_sanitize_state cs = (st, t)"
  shows "\<exists>lost kept. concat cs = lost @ kept \<and> set lost \<subseteq> start_noise \<and> t = filter (\<lambda>u. u \<noteq> 0) kept \<and> 0 \<notin> set t"
proof -
  obtain lost kept where "concat cs = lost @ kept" "set lost \<subseteq> start_noise" "t = filter (\<lambda>u. u \<noteq> 0) kept"
    using sanitize_all_splits[OF assms] by blast
  then show ?thesis by (intro exI[of _ lost] exI[of _ kept]) simp
qed

text \<open>
  However a text is cut, the sanitizer takes away all NUL characters and counts every one of them, and beyond
  that at most a start that consists of byte order marks and replacement characters; a text that starts with
  anything else is kept as it is.
\<close>

theorem sanitized_text_is_clean:
  assumes "sanitize_all create_sanitize_state cs = (st, t)"
  shows "0 \<notin> set t \<and> sz_nulls st = length (filter (\<lambda>u. u = 0) (concat cs))
    \<and> (\<exists>lost kept. concat cs = lost @ kept \<and> set lost \<subseteq> start_noise \<and> t = filter (\<lambda>u. u \<noteq> 0) kept)
    \<and> (\<forall>u rest. concat cs = u # rest \<and> u \<notin> start_noise \<longrightarrow> t = filter (\<lambda>u. u \<noteq> 0) (concat cs))"
proof -
  obtain lost kept where l: "concat cs = lost @ kept" "set lost \<subseteq> start_noise" "t = filter (\<lambda>u. u \<noteq> 0) kept"
    using sanitize_all_splits[OF assms] by blast
  have "t = filter (\<lambda>u. u \<noteq> 0) (concat cs)" if "concat cs = u # rest" "u \<notin> start_noise" for u rest
  proof -
    have "lost = []" using that l(1,2) by (cases lost) auto
    then show ?thesis using l(1,3) by simp
  qed
  then show ?thesis using l sanitize_all_splits[OF assms] by (auto simp: create_sanitize_state_def)
qed

theorem sanitized_text_is_clean_witness:
  "snd (sanitize_all create_sanitize_state [[0x41, 0], [0xFEFF, 0x42]]) = [0x41, 0xFEFF, 0x42]"
  using sanitized_text_is_clean[of "[[0x41, 0], [0xFEFF, 0x42]]"]
  by (cases "sanitize_all create_sanitize_state [[0x41, 0], [0xFEFF, 0x42]]") (auto simp: start_noise_def bom_char_def replacement_def)

section \<open>Regular expressions\<close>

text \<open>
  JavaScript's matching, with its order of alternatives: the remainders a match may leave, the preferred one
  first.  An iteration that consumes nothing is not tried again.
\<close>

datatype regex = Nothing | Unit "code_unit \<Rightarrow> bool" | Then regex regex | Either regex regex | Many regex

function rests :: "regex \<Rightarrow> code_unit list \<Rightarrow> code_unit list list" where
  "rests Nothing s = [s]"
| "rests (Unit p) s = (case s of [] \<Rightarrow> [] | c # cs \<Rightarrow> if p c then [cs] else [])"
| "rests (Then r q) s = concat (map (rests q) (rests r s))"
| "rests (Either r q) s = rests r s @ rests q s"
| "rests (Many r) s = concat (map (\<lambda>t. if length t < length s then rests (Many r) t else []) (rests r s)) @ [s]"
  by pat_completeness auto
termination by (relation "measures [\<lambda>(r, s). size r, \<lambda>(r, s). length s]") auto

definition optional :: "regex \<Rightarrow> regex" where "optional r = Either r Nothing"

text \<open>At most \<open>n\<close> times, as often as possible.\<close>

fun up_to :: "nat \<Rightarrow> regex \<Rightarrow> regex" where
  "up_to 0 r = Nothing"
| "up_to (Suc n) r = optional (Then r (up_to n r))"

text \<open>Replacing every match by nothing.\<close>

fun remove_all :: "nat \<Rightarrow> regex \<Rightarrow> code_unit list \<Rightarrow> code_unit list" where
  "remove_all skip r [] = []"
| "remove_all (Suc skip) r (c # cs) = remove_all skip r cs"
| "remove_all 0 r (c # cs) =
     (case rests r (c # cs) of
        t # _ \<Rightarrow> if length t \<le> length cs then remove_all (length cs - length t) r cs else c # remove_all 0 r cs
      | [] \<Rightarrow> c # remove_all 0 r cs)"

definition one_of :: "string \<Rightarrow> code_unit \<Rightarrow> bool" where "one_of s c \<longleftrightarrow> c \<in> of_char ` set s"
definition in_range :: "char \<Rightarrow> char \<Rightarrow> code_unit \<Rightarrow> bool" where "in_range a b c \<longleftrightarrow> of_char a \<le> c \<and> c \<le> of_char b"

definition esc :: code_unit where "esc = 0x1B"
definition bel :: code_unit where "bel = 0x07"
definition csi :: code_unit where "csi = 0x9B"

definition digit_unit :: regex where "digit_unit = Unit (in_range CHR ''0'' CHR ''9'')"

definition ansi_regex :: regex where
  "ansi_regex =
     Then (Unit (\<lambda>c. c = esc \<or> c = csi))
       (Then (Many (Unit (one_of ''[]()#;?'')))
          (Then (optional (Then (Then digit_unit (up_to 3 digit_unit)) (Many (Then (Unit (one_of '';'')) (up_to 4 digit_unit)))))
             (Unit (\<lambda>c. in_range CHR ''0'' CHR ''9'' c \<or> in_range CHR ''A'' CHR ''O'' c \<or> one_of ''RZc'' c
                \<or> in_range CHR ''f'' CHR ''n'' c \<or> in_range CHR ''q'' CHR ''u'' c \<or> one_of ''y=><'' c))))"

definition string_end :: regex where "string_end = Then (Unit (\<lambda>c. c = esc)) (Unit (one_of [CHR 0x5C]))"

definition ansi_osc_regex :: regex where
  "ansi_osc_regex =
     Then (Unit (\<lambda>c. c = esc)) (Then (Unit (one_of '']''))
       (Then (Many (Unit (\<lambda>c. c \<noteq> esc \<and> c \<noteq> bel))) (Either (Unit (\<lambda>c. c = bel)) string_end)))"

definition ansi_string_regex :: regex where
  "ansi_string_regex =
     Then (Unit (\<lambda>c. c = esc)) (Then (Unit (one_of ''PX^_'')) (Then (Many (Unit (\<lambda>c. c \<noteq> esc))) string_end))"

definition strip_ansi :: "code_unit list \<Rightarrow> code_unit list" where
  "strip_ansi s = filter (\<lambda>c. c \<noteq> 0) (remove_all 0 ansi_regex (remove_all 0 ansi_string_regex (remove_all 0 ansi_osc_regex s)))"

text \<open>A text without the units that start a sequence is kept.\<close>

lemma remove_all_unmatched:
  assumes "\<And>c cs. c \<in> set s \<Longrightarrow> rests r (c # cs) = []"
  shows "remove_all 0 r s = s"
  using assms by (induction s) auto

lemma remove_all_subseq: "subseq (remove_all k r s) s"
proof (induction k r s rule: remove_all.induct)
  case (2 k r c cs)
  then show ?case by (simp add: list_emb_Cons)
next
  case (3 r c cs)
  then show ?case by (auto split: list.splits if_splits intro: list_emb_Cons)
qed simp

lemma strip_ansi_plain:
  assumes "esc \<notin> set s" "csi \<notin> set s"
  shows "strip_ansi s = filter (\<lambda>c. c \<noteq> 0) s"
proof -
  have a: "rests ansi_osc_regex (c # cs) = []" "rests ansi_string_regex (c # cs) = []" "rests ansi_regex (c # cs) = []" if "c \<in> set s" for c cs
  proof -
    have "c \<noteq> esc" "c \<noteq> csi" using that assms by auto
    then show "rests ansi_osc_regex (c # cs) = []" "rests ansi_string_regex (c # cs) = []" "rests ansi_regex (c # cs) = []"
      by (simp_all add: ansi_osc_regex_def ansi_string_regex_def ansi_regex_def)
  qed
  then show ?thesis using remove_all_unmatched[of s] by (simp add: strip_ansi_def)
qed

lemma strip_ansi_sound: "subseq (strip_ansi s) s" "0 \<notin> set (strip_ansi s)"
proof -
  have "subseq (remove_all 0 ansi_regex (remove_all 0 ansi_string_regex (remove_all 0 ansi_osc_regex s))) s"
    using remove_all_subseq subseq_order.trans by metis
  then show "subseq (strip_ansi s) s" unfolding strip_ansi_def using subseq_filter_left subseq_order.trans by blast
  show "0 \<notin> set (strip_ansi s)" by (simp add: strip_ansi_def)
qed

section \<open>Sequences cut by a chunk boundary\<close>

definition is_final :: "code_unit \<Rightarrow> bool" where "is_final c \<longleftrightarrow> 0x40 \<le> c \<and> c \<le> 0x7E"
definition is_intermediate :: "code_unit \<Rightarrow> bool" where "is_intermediate c \<longleftrightarrow> 0x20 \<le> c \<and> c \<le> 0x2F"

fun string_terminated :: "code_unit list \<Rightarrow> bool" where
  "string_terminated (c # d # cs) \<longleftrightarrow> c = esc \<and> d = 0x5C \<or> string_terminated (d # cs)"
| "string_terminated _ \<longleftrightarrow> False"

definition osc_terminated :: "code_unit list \<Rightarrow> bool" where
  "osc_terminated cs \<longleftrightarrow> bel \<in> set cs \<or> string_terminated cs"

definition is_complete :: "code_unit list \<Rightarrow> bool" where
  "is_complete s =
     (case s of
        a # b # cs \<Rightarrow>
          if b = 0x5B then list_ex is_final cs
          else if b = 0x5D then osc_terminated cs
          else if b = 0x50 \<or> b = 0x5E \<or> b = 0x5F then string_terminated cs
          else if is_final b then True
          else if is_intermediate b then list_ex is_final cs
          else True
      | _ \<Rightarrow> False)"

fun remainder_start :: "code_unit list \<Rightarrow> nat \<Rightarrow> nat \<Rightarrow> nat" where
  "remainder_start s 0 start = start"
| "remainder_start s (Suc i) start =
     (if s ! i \<noteq> esc then remainder_start s i start
      else if \<not> is_complete (drop i s) then remainder_start s i i
      else start)"

definition split_ansi_safe_portion :: "code_unit list \<Rightarrow> code_unit list \<times> code_unit list" where
  "split_ansi_safe_portion s = (let k = remainder_start s (length s) (length s) in (take k s, drop k s))"

text \<open>The cleaner's state is what it holds back.\<close>

definition cleaner_consume ::
  "(code_unit list \<Rightarrow> code_unit list) \<Rightarrow> code_unit list \<Rightarrow> code_unit list \<Rightarrow> code_unit list \<times> code_unit list" where
  "cleaner_consume strip chunk held =
     (if chunk = [] then (held, [])
      else (let (safe, rest) = split_ansi_safe_portion (held @ chunk) in (rest, if safe = [] then [] else strip safe)))"

definition cleaner_flush :: "(code_unit list \<Rightarrow> code_unit list) \<Rightarrow> code_unit list \<Rightarrow> code_unit list" where
  "cleaner_flush strip held = (if held = [] then [] else if is_complete held then strip held else [])"

fun clean_all :: "(code_unit list \<Rightarrow> code_unit list) \<Rightarrow> code_unit list \<Rightarrow> code_unit list list \<Rightarrow> code_unit list" where
  "clean_all strip held [] = cleaner_flush strip held"
| "clean_all strip held (c # cs) = (let (h, t) = cleaner_consume strip c held in t @ clean_all strip h cs)"

definition cut_sequence :: "code_unit list \<Rightarrow> bool" where
  "cut_sequence s \<longleftrightarrow> s = [] \<or> hd s = esc \<and> \<not> is_complete s"

lemma remainder_start_cut:
  assumes "cut_sequence (drop start s)" "start \<le> length s" "i \<le> length s"
  shows "cut_sequence (drop (remainder_start s i start) s) \<and> remainder_start s i start \<le> length s"
  using assms
proof (induction i arbitrary: start)
  case (Suc i)
  have "cut_sequence (drop i s)" if "s ! i = esc" "\<not> is_complete (drop i s)"
    using that Suc.prems(3) by (simp add: cut_sequence_def hd_drop_conv_nth)
  then show ?case using Suc by auto
qed simp

lemma split_safe:
  assumes "split_ansi_safe_portion s = (safe, rest)"
  shows "safe @ rest = s" "cut_sequence rest"
  using assms remainder_start_cut[of "length s" s "length s"]
  by (auto simp: split_ansi_safe_portion_def Let_def cut_sequence_def)

lemma split_plain: "esc \<notin> set s \<Longrightarrow> split_ansi_safe_portion s = (s, [])"
proof -
  assume a: "esc \<notin> set s"
  have "remainder_start s i k = k" if "i \<le> length s" for i k
    using that a by (induction i) (auto simp: in_set_conv_nth)
  then show ?thesis by (simp add: split_ansi_safe_portion_def)
qed

lemma clean_all_pieces:
  assumes "cut_sequence held"
  shows "\<exists>pieces cut. held @ concat cs = concat pieces @ cut \<and> cut_sequence cut \<and> [] \<notin> set pieces
    \<and> clean_all strip held cs = concat (map strip pieces)"
  using assms
proof (induction cs arbitrary: held)
  case Nil
  have "clean_all strip held [] = []" using Nil by (auto simp: cleaner_flush_def cut_sequence_def)
  with Nil show ?case by (intro exI[of _ "[]"] exI[of _ held]) simp
next
  case (Cons c cs)
  show ?case
  proof (cases "c = []")
    case True
    with Cons show ?thesis by (simp add: cleaner_consume_def)
  next
    case False
    obtain safe rest where sr: "split_ansi_safe_portion (held @ c) = (safe, rest)" by fastforce
    note s = split_safe[OF sr]
    obtain pieces cut where p: "rest @ concat cs = concat pieces @ cut" "cut_sequence cut" "[] \<notin> set pieces"
        "clean_all strip rest cs = concat (map strip pieces)"
      using Cons.IH[OF s(2)] by blast
    let ?ps = "(if safe = [] then [] else [safe]) @ pieces"
    have "held @ concat (c # cs) = safe @ rest @ concat cs" using s(1) by (metis append.assoc concat.simps(2))
    also have "\<dots> = concat ?ps @ cut" using p(1) by simp
    finally have a: "held @ concat (c # cs) = concat ?ps @ cut" .
    have b: "clean_all strip held (c # cs) = concat (map strip ?ps)" using False sr p(4) by (simp add: cleaner_consume_def)
    show ?thesis using a b p(2,3) by (intro exI[of _ ?ps] exI[of _ cut]) simp
  qed
qed

lemma clean_all_plain:
  assumes "esc \<notin> set (concat cs)" "csi \<notin> set (concat cs)"
  shows "clean_all strip_ansi [] cs = filter (\<lambda>c. c \<noteq> 0) (concat cs)"
  using assms
proof (induction cs)
  case Nil
  then show ?case by (simp add: cleaner_flush_def)
next
  case (Cons c cs)
  then show ?case using split_plain[of c] strip_ansi_plain[of c] by (simp add: cleaner_consume_def)
qed

text \<open>
  However the text of a command is cut, each piece the cleaner strips ends outside a sequence it could
  recognise as cut, the pieces are the text in its order, and at most an unfinished sequence at the very end is
  left out; a text without such sequences loses nothing but NUL characters.
\<close>

theorem output_is_cleaned_whole:
  "(\<exists>pieces cut. concat cs = concat pieces @ cut \<and> cut_sequence cut \<and> [] \<notin> set pieces
      \<and> clean_all strip_ansi [] cs = concat (map strip_ansi pieces))
    \<and> subseq (clean_all strip_ansi [] cs) (concat cs) \<and> 0 \<notin> set (clean_all strip_ansi [] cs)
    \<and> (esc \<in> set (concat cs) \<or> csi \<in> set (concat cs) \<or> clean_all strip_ansi [] cs = filter (\<lambda>c. c \<noteq> 0) (concat cs))"
proof -
  obtain pieces cut where p: "concat cs = concat pieces @ cut" "cut_sequence cut" "[] \<notin> set pieces"
      "clean_all strip_ansi [] cs = concat (map strip_ansi pieces)"
    using clean_all_pieces[of "[]" cs strip_ansi] by (auto simp: cut_sequence_def)
  have "subseq (concat (map strip_ansi ps)) (concat ps)" for ps
    by (induction ps) (auto intro: list_emb_append_mono strip_ansi_sound)
  then have "subseq (clean_all strip_ansi [] cs) (concat cs)"
    using p(1,4) by (metis subseq_order.trans prefixI prefix_imp_subseq)
  moreover have "0 \<notin> set (clean_all strip_ansi [] cs)" using p(4) strip_ansi_sound(2) by auto
  ultimately show ?thesis using p clean_all_plain[of cs] by blast
qed

text \<open>An unfinished title takes everything that follows it with it.\<close>

definition units :: "string \<Rightarrow> code_unit list" where "units s = map of_char s"

theorem unfinished_title_swallows:
  "clean_all strip_ansi [] [units ''ok'', esc # units '']0;title'', units ''the rest of the output''] = units ''ok''"
  by code_simp

theorem cut_string_is_shown:
  "clean_all strip_ansi [] [esc # units ''Xhidden'', esc # units [CHR 0x5C]] \<noteq> clean_all strip_ansi [] [esc # units ''Xhidden'' @ esc # units [CHR 0x5C]]"
  by code_simp
end
