(* ===== verification/Shell_Tool.thy ===== *)
theory Shell_Tool
  imports Ansi_Text Run_Events
begin

text \<open>
  The shell tool, \<^verbatim>\<open>nodes/tools/shell_command/shell_command.tool.ts\<close>: its configuration, the way of an output from
  bytes to text (a lane per stream), the messages for failures, files for oversized outputs, and \<open>execute\<close>.
  What the container runner replies and what saving a file returns are arguments; the streaming variant is in
  \<open>Shell_Stream\<close>.
\<close>

type_synonym utext = "code_unit list"

section \<open>Configuration\<close>

datatype config_value = Cv_integer int | Cv_number | Cv_text string | Cv_other

definition accept_integer :: "bool \<Rightarrow> int \<Rightarrow> nat option" where
  "accept_integer allow_zero n = (if n < 0 then None else if \<not> allow_zero \<and> n = 0 then None else Some (nat n))"

definition parse_integer :: "(string \<Rightarrow> int option) \<Rightarrow> bool \<Rightarrow> config_value \<Rightarrow> nat option" where
  "parse_integer number_of allow_zero v =
     (case v of
        Cv_integer n \<Rightarrow> accept_integer allow_zero n
      | Cv_text s \<Rightarrow>
          (let t = js_trim s
           in if t = [] then None else (case number_of t of None \<Rightarrow> None | Some n \<Rightarrow> accept_integer allow_zero n))
      | _ \<Rightarrow> None)"

record shell_node_config =
  nc_execution_timeout :: config_value
  nc_idle_timeout :: config_value
  nc_output_limit :: config_value
  nc_coalesce :: config_value
  nc_chunk_size :: config_value
  nc_client_limit :: config_value
  nc_pid1 :: "bool option"

record shell_config =
  sc_timeout :: nat
  sc_idle :: nat
  sc_limit :: nat
  sc_coalesce :: nat
  sc_chunk_size :: nat
  sc_client_limit :: nat
  sc_pid1 :: bool

definition get_resolved_config :: "(string \<Rightarrow> int option) \<Rightarrow> shell_node_config \<Rightarrow> shell_config" where
  "get_resolved_config number_of c =
     (let or_default = (\<lambda>v d. case v of None \<Rightarrow> d | Some n \<Rightarrow> n)
      in \<lparr>sc_timeout = or_default (parse_integer number_of True (nc_execution_timeout c)) (60 * 60 * 1000),
          sc_idle = or_default (parse_integer number_of True (nc_idle_timeout c)) (60 * 1000),
          sc_limit = or_default (parse_integer number_of True (nc_output_limit c)) 50000,
          sc_coalesce = or_default (parse_integer number_of False (nc_coalesce c)) 40,
          sc_chunk_size = or_default (parse_integer number_of False (nc_chunk_size c)) (4 * 1024),
          sc_client_limit = or_default (parse_integer number_of False (nc_client_limit c)) (10 * 1024 * 1024),
          sc_pid1 = (case nc_pid1 c of None \<Rightarrow> True | Some b \<Rightarrow> b)\<rparr>)"

section \<open>A stream's way from bytes to text\<close>

record 'd lane =
  ln_decode :: "'d decode_state"
  ln_held :: utext
  ln_sanitize :: sanitize_state

definition new_lane :: "'d decoders \<Rightarrow> 'd lane" where
  "new_lane dc = \<lparr>ln_decode = initial_decode_state dc, ln_held = [], ln_sanitize = create_sanitize_state\<rparr>"

definition clean_text :: "utext \<Rightarrow> 'd lane \<Rightarrow> 'd lane \<times> utext" where
  "clean_text text l =
     (let (h, cleaned) = cleaner_consume strip_ansi text (ln_held l);
          (z, sanitized) = sanitize_ingress_chunk cleaned (ln_sanitize l)
      in (l\<lparr>ln_held := h, ln_sanitize := z\<rparr>, sanitized))"

definition feed_lane :: "'d decoders \<Rightarrow> byte list \<Rightarrow> 'd lane \<Rightarrow> 'd lane \<times> utext" where
  "feed_lane dc bytes l =
     (let (d, text) = decode_ingress_chunk dc (ln_decode l) bytes in clean_text text (l\<lparr>ln_decode := d\<rparr>))"

definition drain_decoder :: "'d decoders \<Rightarrow> 'd lane \<Rightarrow> 'd lane \<times> utext" where
  "drain_decoder dc l = clean_text (flush_ingress_decoder dc (ln_decode l)) l"

definition drain_cleaner :: "'d lane \<Rightarrow> 'd lane \<times> utext" where
  "drain_cleaner l =
     (let (z, sanitized) = sanitize_ingress_chunk (cleaner_flush strip_ansi (ln_held l)) (ln_sanitize l)
      in (l\<lparr>ln_held := [], ln_sanitize := z\<rparr>, sanitized))"

section \<open>Failures and their messages\<close>

text \<open>Timeouts carry what was captured; another error has a code and a message, anything else is rendered.\<close>

datatype exec_error =
    Exec_timeout nat utext utext
  | Exec_idle_timeout nat utext utext
  | Exec_failed "string option" string
  | Exec_threw string

definition timeout_text :: "string \<Rightarrow> string \<Rightarrow> bool" where
  "timeout_text start m \<longleftrightarrow>
     js_starts_with start m
     \<and> (let r = drop (length start) m; is_digit = (\<lambda>c. c \<in> set ''0123456789'')
        in takeWhile is_digit r \<noteq> [] \<and> js_starts_with ''ms'' (dropWhile is_digit r))"

definition is_exec_timeout_error :: "exec_error \<Rightarrow> bool" where
  "is_exec_timeout_error err =
     (case err of Exec_timeout _ _ _ \<Rightarrow> True | Exec_failed _ m \<Rightarrow> timeout_text ''Exec timed out after '' m | _ \<Rightarrow> False)"

definition is_exec_idle_timeout_error :: "exec_error \<Rightarrow> bool" where
  "is_exec_idle_timeout_error err =
     (case err of Exec_idle_timeout _ _ _ \<Rightarrow> True | Exec_failed _ m \<Rightarrow> timeout_text ''Exec idle timed out after '' m | _ \<Rightarrow> False)"

definition snapshot_exec_error :: "exec_error \<Rightarrow> utext \<times> utext \<times> nat option" where
  "snapshot_exec_error err =
     (case err of
        Exec_timeout ms out er \<Rightarrow> (out, er, Some ms)
      | Exec_idle_timeout ms out er \<Rightarrow> (out, er, Some ms)
      | _ \<Rightarrow> ([], [], None))"

text \<open>The message of an error object, or the rendering of what was thrown.\<close>

definition exec_error_text :: "exec_error \<Rightarrow> string" where
  "exec_error_text err =
     (case err of
        Exec_timeout ms _ _ \<Rightarrow> ''Exec timed out after '' @ digits ms @ ''ms''
      | Exec_idle_timeout ms _ _ \<Rightarrow> ''Exec idle timed out after '' @ digits ms @ ''ms''
      | Exec_failed _ m \<Rightarrow> m
      | Exec_threw s \<Rightarrow> s)"

definition is_connection_interruption :: "exec_error \<Rightarrow> bool" where
  "is_connection_interruption err =
     (let by_text = (\<lambda>m. m \<noteq> [] \<and> (let l = js_lower m
                         in js_includes l ''channel closed'' \<or> js_includes l ''broken pipe'' \<or> js_includes l ''econnreset''))
      in case err of
           Exec_threw _ \<Rightarrow> False
         | Exec_failed (Some code) m \<Rightarrow>
             code \<in> set [''ERR_IPC_CHANNEL_CLOSED'', ''ECONNRESET'', ''EPIPE'', ''ECONNABORTED'', ''ESHUTDOWN''] \<or> by_text m
         | _ \<Rightarrow> by_text (exec_error_text err))"

text \<open>What the database knows about a container whose connection was lost.\<close>

record lost_container =
  lc_docker :: "string option"
  lc_thread :: "string option"

record lost_event =
  le_time :: "string option"
  le_reason :: "string option"
  le_exit :: "int option"
  le_signal :: "string option"
  le_message :: "string option"

datatype interruption_lookup = Lookup_failed | No_record | No_event lost_container | Last_event lost_container lost_event

definition interruption_extras :: "lost_container \<Rightarrow> lost_event \<Rightarrow> string list" where
  "interruption_extras c e =
     (case le_exit e of None \<Rightarrow> [] | Some n \<Rightarrow> [''exitCode='' @ int_digits n])
     @ (case le_signal e of Some (x # xs) \<Rightarrow> [''signal='' @ x # xs] | _ \<Rightarrow> [])
     @ (case lc_docker c of Some (x # xs) \<Rightarrow> [''dockerId='' @ take 12 (x # xs)] | _ \<Rightarrow> [])
     @ (case lc_thread c of Some (x # xs) \<Rightarrow> [''threadId='' @ x # xs] | _ \<Rightarrow> [])"

definition build_interruption_message :: "interruption_lookup \<Rightarrow> string" where
  "build_interruption_message r =
     (case r of
        Lookup_failed \<Rightarrow> ''Shell command interrupted: workspace container connection closed unexpectedly. Failed to read termination details.''
      | No_record \<Rightarrow> ''Shell command interrupted: workspace container connection closed unexpectedly (container record missing).''
      | No_event _ \<Rightarrow> ''Shell command interrupted: workspace container connection closed unexpectedly. No Docker termination event was recorded.''
      | Last_event c e \<Rightarrow>
          (let reason = (case le_reason e of None \<Rightarrow> ''Unknown reason'' | Some s \<Rightarrow> s);
               headline = ''Shell command interrupted: workspace container reported '' @ reason
                 @ (case le_time e of Some (x # xs) \<Rightarrow> '' at '' @ x # xs | _ \<Rightarrow> []);
               extras = interruption_extras c e
           in js_join ''. '' ([headline] @ (if extras = [] then [] else [''Details: '' @ js_join '', '' extras])
                @ (case le_message e of Some (x # xs) \<Rightarrow> [''Docker message: '' @ x # xs] | _ \<Rightarrow> [])) @ ''.''))"

section \<open>Files for oversized outputs\<close>

record 'd shell_env =
  se_dc :: "'d decoders"
  se_save :: "nat \<Rightarrow> string + string"
  se_lookup :: interruption_lookup
  se_up :: "nat \<Rightarrow> bool"

record shell_files =
  sf_calls :: nat
  sf_files :: "(utext \<times> utext) list"

definition no_files :: shell_files where "no_files = \<lparr>sf_calls = 0, sf_files = []\<rparr>"

text \<open>Each attempt gets an identifier of its own, or fails.\<close>

definition save_oversized_output :: "'d shell_env \<Rightarrow> utext \<Rightarrow> shell_files \<Rightarrow> shell_files \<times> (string + utext)" where
  "save_oversized_output env content fs =
     (case se_save env (sf_calls fs) of
        Inl e \<Rightarrow> (fs\<lparr>sf_calls := sf_calls fs + 1\<rparr>, Inl e)
      | Inr uid \<Rightarrow>
          (let path = units (''/tmp/'' @ uid @ ''.txt'')
           in (fs\<lparr>sf_calls := sf_calls fs + 1, sf_files := sf_files fs @ [(path, content)]\<rparr>, Inr path)))"

definition falsy_text :: "utext option \<Rightarrow> bool" where "falsy_text t \<longleftrightarrow> t = None \<or> t = Some []"

definition last_units :: "nat \<Rightarrow> utext \<Rightarrow> utext" where "last_units n s = drop (length s - n) s"

definition output_tail_limit :: nat where "output_tail_limit = 10000"

definition newline_units :: utext where "newline_units = [0x0A]"

definition payload_message :: "int \<Rightarrow> utext \<Rightarrow> utext \<Rightarrow> utext" where
  "payload_message exit_code headline rendered =
     units (''[exit code '' @ int_digits exit_code @ ''] '') @ headline @ newline_units @ units ''---'' @ newline_units @ rendered"

definition rendered_output :: "utext \<Rightarrow> nat \<Rightarrow> nat option \<Rightarrow> utext" where
  "rendered_output out limit tail =
     (if 0 < limit \<and> limit < length out then last_units (min (min limit output_tail_limit) (length out)) out
      else case tail of Some d \<Rightarrow> if 0 < d \<and> d < length out then last_units d out else out | None \<Rightarrow> out)"

definition build_payload ::
  "'d shell_env \<Rightarrow> int \<Rightarrow> utext \<Rightarrow> utext \<Rightarrow> nat \<Rightarrow> utext option \<Rightarrow> utext option \<Rightarrow> nat option \<Rightarrow> shell_files \<Rightarrow>
   shell_files \<times> (string + utext \<times> utext option \<times> utext option)" where
  "build_payload env exit_code headline out limit saved message tail fs =
     (let persist = 0 < limit \<and> limit < length out;
          message1 = (if persist \<and> falsy_text message then Some (units (''Output exceeded '' @ digits limit @ '' characters.'')) else message);
          (fs1, saved1) = (if persist \<and> falsy_text saved
             then (case save_oversized_output env out fs of (fs1, Inl e) \<Rightarrow> (fs1, Inl e) | (fs1, Inr p) \<Rightarrow> (fs1, Inr (Some p)))
             else (fs, Inr saved))
      in case saved1 of
           Inl e \<Rightarrow> (fs1, Inl e)
         | Inr saved2 \<Rightarrow> (fs1, Inr (payload_message exit_code headline (rendered_output out limit tail), saved2, message1)))"

definition format_exit_code_message ::
  "'d shell_env \<Rightarrow> int \<Rightarrow> utext \<Rightarrow> nat \<Rightarrow> utext option \<Rightarrow> utext option \<Rightarrow> shell_files \<Rightarrow>
   shell_files \<times> (string + utext \<times> utext option \<times> utext option)" where
  "format_exit_code_message env exit_code out limit saved message fs =
     build_payload env exit_code (units (''Process exited with code '' @ int_digits exit_code)) out limit saved message None fs"

section \<open>execute\<close>

record 'd exec_state =
  xs_lanes :: "stream_source \<Rightarrow> 'd lane"
  xs_segments :: "(stream_source \<times> utext) list"
  xs_clean :: "stream_source \<Rightarrow> utext"

definition new_exec :: "'d decoders \<Rightarrow> 'd exec_state" where
  "new_exec dc = \<lparr>xs_lanes = (\<lambda>_. new_lane dc), xs_segments = [], xs_clean = (\<lambda>_. [])\<rparr>"

definition push_segment :: "stream_source \<Rightarrow> 'd lane \<times> utext \<Rightarrow> 'd exec_state \<Rightarrow> 'd exec_state" where
  "push_segment src r s =
     (case r of (l, text) \<Rightarrow>
        (let s1 = s\<lparr>xs_lanes := (xs_lanes s)(src := l)\<rparr>
         in if text = [] then s1
            else s1\<lparr>xs_segments := xs_segments s @ [(src, text)], xs_clean := (xs_clean s)(src := xs_clean s src @ text)\<rparr>))"

definition exec_chunk :: "'d decoders \<Rightarrow> stream_source \<times> byte list \<Rightarrow> 'd exec_state \<Rightarrow> 'd exec_state" where
  "exec_chunk dc c s = (case c of (src, bytes) \<Rightarrow> push_segment src (feed_lane dc bytes (xs_lanes s src)) s)"

definition flush_remainder :: "'d decoders \<Rightarrow> stream_source \<Rightarrow> 'd exec_state \<Rightarrow> 'd exec_state" where
  "flush_remainder dc src s =
     (let s1 = push_segment src (drain_decoder dc (xs_lanes s src)) s in push_segment src (drain_cleaner (xs_lanes s1 src)) s1)"

definition flush_decoder_remainder :: "'d decoders \<Rightarrow> 'd exec_state \<Rightarrow> 'd exec_state" where
  "flush_decoder_remainder dc s = flush_remainder dc Stderr (flush_remainder dc Stdout s)"

definition plain_pair :: "utext \<Rightarrow> utext \<Rightarrow> utext" where
  "plain_pair out er = strip_ansi (sanitize_ingress_text out) @ strip_ansi (sanitize_ingress_text er)"

definition combined_output :: "(utext \<times> utext) option \<Rightarrow> (utext \<times> utext) option \<Rightarrow> 'd exec_state \<Rightarrow> utext" where
  "combined_output fallback response s =
     (let combined =
            (if xs_segments s \<noteq> [] then concat (map snd (xs_segments s))
             else if xs_clean s Stdout \<noteq> [] \<or> xs_clean s Stderr \<noteq> [] then xs_clean s Stdout @ xs_clean s Stderr
             else case fallback of Some (out, er) \<Rightarrow> plain_pair out er | None \<Rightarrow> []);
          combined1 =
            (if combined = [] then (case response of Some (out, er) \<Rightarrow> plain_pair out er | None \<Rightarrow> []) else combined)
      in sanitize_ingress_text combined1)"

datatype exec_outcome = Exited utext utext int | Failed exec_error

definition message_of ::
  "shell_files \<times> (string + utext \<times> utext option \<times> utext option) \<Rightarrow> shell_files \<times> (string + utext)" where
  "message_of r = (case r of (fs, Inl e) \<Rightarrow> (fs, Inl e) | (fs, Inr (m, _, _)) \<Rightarrow> (fs, Inr m))"

definition ms_of :: "nat option \<Rightarrow> nat \<Rightarrow> string" where
  "ms_of ms d = digits (case ms of None \<Rightarrow> d | Some n \<Rightarrow> n)"

definition report_failure :: "'d shell_env \<Rightarrow> shell_config \<Rightarrow> 'd exec_state \<Rightarrow> exec_error \<Rightarrow> shell_files \<Rightarrow> shell_files \<times> (string + utext)" where
  "report_failure env cfg s err fs =
     (let payload = (\<lambda>code headline out.
            message_of (build_payload env code headline out (sc_limit cfg) None None (Some output_tail_limit) fs));
          (out, er, ms) = snapshot_exec_error err
      in if is_exec_idle_timeout_error err
         then payload 408 (units (''Exec idle timed out after '' @ ms_of ms (sc_idle cfg) @ ''ms'')) (combined_output (Some (out, er)) None s)
         else if is_exec_timeout_error err
         then payload 408 (units (''Exec timed out after '' @ ms_of ms (sc_timeout cfg) @ ''ms'')) (combined_output (Some (out, er)) None s)
         else if is_connection_interruption err
         then payload 500 (units (build_interruption_message (se_lookup env))) (combined_output None None s)
         else payload 500 (units (if exec_error_text err = [] then ''Shell command failed.'' else exec_error_text err)) (combined_output None None s))"

definition execute ::
  "'d shell_env \<Rightarrow> shell_config \<Rightarrow> (stream_source \<times> byte list) list \<Rightarrow> exec_outcome \<Rightarrow> shell_files \<Rightarrow> shell_files \<times> (string + utext)" where
  "execute env cfg chunks outcome fs =
     (let s = flush_decoder_remainder (se_dc env) (fold (exec_chunk (se_dc env)) chunks (new_exec (se_dc env)))
      in case outcome of
           Failed err \<Rightarrow> report_failure env cfg s err fs
         | Exited out er exit_code \<Rightarrow>
             (let combined = combined_output (Some (out, er)) (Some (out, er)) s
              in if exit_code \<noteq> 0 then message_of (format_exit_code_message env exit_code combined (sc_limit cfg) None None fs)
                 else if 0 < sc_limit cfg \<and> sc_limit cfg < length combined
                 then (case save_oversized_output env combined fs of
                         (fs1, Inl e) \<Rightarrow> (fs1, Inl e)
                       | (fs1, Inr path) \<Rightarrow>
                           (fs1, Inr (units (''Error: output length exceeds '' @ digits (sc_limit cfg) @ '' characters. It was saved on disk: '') @ path)))
                 else (fs, Inr combined)))"
end
