(* ===== verification/Shell_Stream.thy ===== *)
theory Shell_Stream
  imports Shell_Tool
begin

text \<open>
  \<open>executeStreaming\<close> of \<^verbatim>\<open>nodes/tools/shell_command/shell_command.tool.ts\<close>: text is collected per stream, flushed
  when there is enough of it or a timer fires, numbered and stored by a chain of jobs that run one after the
  other, and given up beyond two limits.  A job waits for the database, so output, timers and jobs are
  interleaved: an execution is a list of events.
\<close>

section \<open>State\<close>

datatype cut_reason = Output_limit | Client_buffer

record flush_job =
  fj_source :: stream_source
  fj_text :: utext
  fj_bytes :: nat
  fj_segments :: "(nat \<times> utext) list"

record sent_chunk =
  sk_seq :: nat
  sk_stream_seq :: nat
  sk_source :: stream_source
  sk_data :: utext
  sk_bytes :: nat

record 'd shell_stream =
  ss_lanes :: "stream_source \<Rightarrow> 'd lane"
  ss_text :: "stream_source \<Rightarrow> utext"
  ss_bytes :: "stream_source \<Rightarrow> nat"
  ss_timer :: "stream_source \<Rightarrow> bool"
  ss_total :: "stream_source \<Rightarrow> nat"
  ss_stream_seq :: "stream_source \<Rightarrow> nat"
  ss_order :: nat
  ss_pending :: "stream_source \<Rightarrow> (nat \<times> utext) list"
  ss_ordered :: "(nat \<times> utext) list"
  ss_seq :: nat
  ss_chunks :: nat
  ss_dropped :: nat
  ss_emitted :: nat
  ss_allow :: bool
  ss_truncated :: bool
  ss_reason :: "cut_reason option"
  ss_message :: "utext option"
  ss_cut_source :: "stream_source option"
  ss_cleaned :: "stream_source \<Rightarrow> utext"
  ss_jobs :: "flush_job list"
  ss_busy :: bool
  ss_sent :: "sent_chunk list"

definition new_stream :: "'d decoders \<Rightarrow> 'd shell_stream" where
  "new_stream dc =
     \<lparr>ss_lanes = (\<lambda>_. new_lane dc), ss_text = (\<lambda>_. []), ss_bytes = (\<lambda>_. 0), ss_timer = (\<lambda>_. False), ss_total = (\<lambda>_. 0),
      ss_stream_seq = (\<lambda>_. 0), ss_order = 0, ss_pending = (\<lambda>_. []), ss_ordered = [], ss_seq = 0, ss_chunks = 0,
      ss_dropped = 0, ss_emitted = 0, ss_allow = False, ss_truncated = False, ss_reason = None, ss_message = None,
      ss_cut_source = None, ss_cleaned = (\<lambda>_. []), ss_jobs = [], ss_busy = False, ss_sent = []\<rparr>"

text \<open>\<open>Buffer.byteLength\<close>: a pair of surrogates takes four bytes, a lone one the three of its replacement.\<close>

definition high_surrogate :: "code_unit \<Rightarrow> bool" where "high_surrogate c \<longleftrightarrow> 0xD800 \<le> c \<and> c \<le> 0xDBFF"
definition low_surrogate :: "code_unit \<Rightarrow> bool" where "low_surrogate c \<longleftrightarrow> 0xDC00 \<le> c \<and> c \<le> 0xDFFF"

fun byte_length :: "utext \<Rightarrow> nat" where
  "byte_length [] = 0"
| "byte_length [c] = (if c < 0x80 then 1 else if c < 0x800 then 2 else 3)"
| "byte_length (c # d # cs) =
     (if high_surrogate c \<and> low_surrogate d then 4 + byte_length cs
      else (if c < 0x80 then 1 else if c < 0x800 then 2 else 3) + byte_length (d # cs))"

text \<open>\<open>toFixed(2)\<close> of a number of bytes in megabytes.\<close>

definition megabytes :: "nat \<Rightarrow> string" where
  "megabytes n =
     (let c = (n * 100 + 2 ^ 19) div 2 ^ 20 in digits (c div 100) @ ''.'' @ digits (c div 10 mod 10) @ digits (c mod 10))"

text \<open>The limits in force.\<close>

definition chunk_limit :: "shell_config \<Rightarrow> nat" where "chunk_limit cfg = max 512 (sc_chunk_size cfg)"

section \<open>Collecting and flushing\<close>

definition flush_buffer :: "bool \<Rightarrow> stream_source \<Rightarrow> 'd shell_stream \<Rightarrow> 'd shell_stream" where
  "flush_buffer force src s =
     (if \<not> force \<and> ss_text s src = [] then s
      else
        (let s1 = s\<lparr>ss_timer := (ss_timer s)(src := False), ss_text := (ss_text s)(src := []), ss_bytes := (ss_bytes s)(src := 0)\<rparr>
         in if ss_text s src = [] then s1
            else s1\<lparr>ss_pending := (ss_pending s)(src := []),
                    ss_jobs := ss_jobs s @ [\<lparr>fj_source = src, fj_text = ss_text s src, fj_bytes = ss_bytes s src,
                                             fj_segments = ss_pending s src\<rparr>]\<rparr>))"

definition schedule_flush :: "stream_source \<Rightarrow> 'd shell_stream \<Rightarrow> 'd shell_stream" where
  "schedule_flush src s = s\<lparr>ss_timer := (ss_timer s)(src := True)\<rparr>"

definition check_output_limit :: "shell_config \<Rightarrow> stream_source \<Rightarrow> 'd shell_stream \<Rightarrow> 'd shell_stream" where
  "check_output_limit cfg src s =
     (if \<not> ss_truncated s \<and> 0 < sc_limit cfg \<and> sc_limit cfg < length (ss_cleaned s Stdout) + length (ss_cleaned s Stderr)
      then s\<lparr>ss_truncated := True, ss_reason := Some Output_limit, ss_cut_source := Some src, ss_allow := True\<rparr>
      else s)"

definition collect_text :: "stream_source \<Rightarrow> utext \<Rightarrow> 'd shell_stream \<Rightarrow> 'd shell_stream" where
  "collect_text src text s =
     s\<lparr>ss_cleaned := (ss_cleaned s)(src := ss_cleaned s src @ text),
       ss_total := (ss_total s)(src := ss_total s src + byte_length text),
       ss_text := (ss_text s)(src := ss_text s src @ text),
       ss_bytes := (ss_bytes s)(src := ss_bytes s src + byte_length text),
       ss_order := ss_order s + 1,
       ss_pending := (ss_pending s)(src := ss_pending s src @ [(ss_order s + 1, text)])\<rparr>"

definition handle_decorated_chunk :: "shell_config \<Rightarrow> stream_source \<Rightarrow> 'd lane \<times> utext \<Rightarrow> 'd shell_stream \<Rightarrow> 'd shell_stream" where
  "handle_decorated_chunk cfg src r s =
     (case r of (l, text) \<Rightarrow>
        (let s0 = s\<lparr>ss_lanes := (ss_lanes s)(src := l)\<rparr>
         in if text = [] then s0
            else
              (let s1 = collect_text src text s0
               in check_output_limit cfg src
                    (if chunk_limit cfg \<le> ss_bytes s1 src \<or> chunk_limit cfg \<le> length (ss_text s1 src)
                     then flush_buffer False src s1 else schedule_flush src s1))))"

definition on_output :: "'d shell_env \<Rightarrow> shell_config \<Rightarrow> stream_source \<Rightarrow> byte list \<Rightarrow> 'd shell_stream \<Rightarrow> 'd shell_stream" where
  "on_output env cfg src bytes s =
     (if ss_truncated s \<and> \<not> ss_allow s then s
      else handle_decorated_chunk cfg src (feed_lane (se_dc env) bytes (ss_lanes s src)) s)"

definition on_timer :: "stream_source \<Rightarrow> 'd shell_stream \<Rightarrow> 'd shell_stream" where
  "on_timer src s = (if ss_timer s src then flush_buffer False src s else s)"

section \<open>The chain of jobs\<close>

definition give_up_job :: "'d shell_stream \<Rightarrow> 'd shell_stream" where
  "give_up_job s = s\<lparr>ss_dropped := ss_dropped s + 1\<rparr>"

definition cut_client_buffer :: "shell_config \<Rightarrow> 'd shell_stream \<Rightarrow> 'd shell_stream" where
  "cut_client_buffer cfg s =
     give_up_job (s\<lparr>ss_truncated := True, ss_reason := Some Client_buffer, ss_cut_source := None,
       ss_message := (if falsy_text (ss_message s)
         then Some (units (''Streaming truncated after reaching '' @ megabytes (sc_client_limit cfg) @ '' MB of output.''))
         else ss_message s)\<rparr>)"

definition send_job :: "flush_job \<Rightarrow> 'd shell_stream \<Rightarrow> 'd shell_stream" where
  "send_job j s =
     s\<lparr>ss_seq := ss_seq s + 1,
       ss_stream_seq := (ss_stream_seq s)(fj_source j := ss_stream_seq s (fj_source j) + 1),
       ss_emitted := ss_emitted s + fj_bytes j,
       ss_ordered := ss_ordered s @ fj_segments j,
       ss_busy := True,
       ss_sent := ss_sent s @ [\<lparr>sk_seq = ss_seq s + 1, sk_stream_seq = ss_stream_seq s (fj_source j) + 1,
                                sk_source = fj_source j, sk_data = fj_text j, sk_bytes = fj_bytes j\<rparr>]\<rparr>"

definition emit_job :: "shell_config \<Rightarrow> flush_job \<Rightarrow> 'd shell_stream \<Rightarrow> 'd shell_stream" where
  "emit_job cfg j s =
     (if 0 < sc_client_limit cfg \<and> sc_client_limit cfg < ss_emitted s + fj_bytes j then cut_client_buffer cfg s
      else send_job j s)"

text \<open>The next job starts once the one before it has settled.\<close>

definition start_job :: "shell_config \<Rightarrow> 'd shell_stream \<Rightarrow> 'd shell_stream" where
  "start_job cfg s =
     (if ss_busy s then s
      else case ss_jobs s of
          [] \<Rightarrow> s
        | j # js \<Rightarrow>
            (let s1 = s\<lparr>ss_jobs := js, ss_chunks := ss_chunks s + 1\<rparr>
             in if ss_truncated s1
                then if ss_allow s1 \<and> ss_cut_source s1 = Some (fj_source j) then emit_job cfg j (s1\<lparr>ss_allow := False\<rparr>)
                     else give_up_job s1
                else emit_job cfg j s1))"

text \<open>\<open>se_up\<close> tells whether the database takes the chunk with a number and the chunk is announced.\<close>

definition settle_job :: "'d shell_env \<Rightarrow> 'd shell_stream \<Rightarrow> 'd shell_stream" where
  "settle_job env s =
     (if \<not> ss_busy s then s
      else if se_up env (ss_seq s) then s\<lparr>ss_busy := False\<rparr>
      else s\<lparr>ss_busy := False, ss_dropped := ss_dropped s + 1\<rparr>)"

datatype shell_event = Output_bytes stream_source "byte list" | Timer_fires stream_source | Job_starts | Job_settles

fun shell_event_step :: "'d shell_env \<Rightarrow> shell_config \<Rightarrow> shell_event \<Rightarrow> 'd shell_stream \<Rightarrow> 'd shell_stream" where
  "shell_event_step env cfg (Output_bytes src bytes) s = on_output env cfg src bytes s"
| "shell_event_step env cfg (Timer_fires src) s = on_timer src s"
| "shell_event_step env cfg Job_starts s = start_job cfg s"
| "shell_event_step env cfg Job_settles s = settle_job env s"

definition run_shell :: "'d shell_env \<Rightarrow> shell_config \<Rightarrow> shell_event list \<Rightarrow> 'd shell_stream" where
  "run_shell env cfg evs = fold (shell_event_step env cfg) evs (new_stream (se_dc env))"

text \<open>Waiting for the chain.\<close>

lemma start_job_jobs:
  assumes "\<not> ss_busy s" "ss_jobs s \<noteq> []"
  shows "length (ss_jobs (start_job cfg s)) < length (ss_jobs s)"
  using assms by (cases "ss_jobs s")
    (auto simp: start_job_def emit_job_def send_job_def cut_client_buffer_def give_up_job_def Let_def)

lemma settle_job_jobs [simp]: "ss_jobs (settle_job env s) = ss_jobs s" "ss_busy (settle_job env s) = False"
  by (simp_all add: settle_job_def)

function await_jobs :: "'d shell_env \<Rightarrow> shell_config \<Rightarrow> 'd shell_stream \<Rightarrow> 'd shell_stream" where
  "await_jobs env cfg s =
     (let s1 = settle_job env s in if ss_jobs s1 = [] then s1 else await_jobs env cfg (start_job cfg s1))"
  by pat_completeness auto
termination
  by (relation "measure (\<lambda>(env, cfg, s). length (ss_jobs s))") (auto simp: start_job_jobs[where s = "settle_job env s" for env s, simplified])

declare await_jobs.simps [simp del]

section \<open>The end of the command\<close>

definition drain_lane :: "'d shell_env \<Rightarrow> shell_config \<Rightarrow> stream_source \<Rightarrow> 'd shell_stream \<Rightarrow> 'd shell_stream" where
  "drain_lane env cfg src s =
     (let s1 = handle_decorated_chunk cfg src (drain_decoder (se_dc env) (ss_lanes s src)) s
      in handle_decorated_chunk cfg src (drain_cleaner (ss_lanes s1 src)) s1)"

definition close_stream :: "'d shell_env \<Rightarrow> shell_config \<Rightarrow> 'd shell_stream \<Rightarrow> 'd shell_stream" where
  "close_stream env cfg s =
     await_jobs env cfg (flush_buffer True Stderr (flush_buffer True Stdout
       (drain_lane env cfg Stderr (drain_lane env cfg Stdout s))))"

definition stream_combined :: "'d shell_stream \<Rightarrow> utext" where
  "stream_combined s =
     sanitize_ingress_text
       (if ss_ordered s \<noteq> [] then concat (map snd (sort_key fst (ss_ordered s)))
        else ss_cleaned s Stdout @ ss_cleaned s Stderr)"

text \<open>A command that ran out of time leaves what the error captured.\<close>

definition take_captured :: "string \<Rightarrow> utext \<Rightarrow> utext \<Rightarrow> 'd shell_stream \<Rightarrow> 'd shell_stream" where
  "take_captured message out er s =
     (let texts = (\<lambda>src. strip_ansi (sanitize_ingress_text (case src of Stdout \<Rightarrow> out | Stderr \<Rightarrow> er)))
      in s\<lparr>ss_cleaned := texts, ss_total := (\<lambda>src. byte_length (texts src)), ss_message := Some (units message)\<rparr>)"

definition catch_exec_error :: "shell_config \<Rightarrow> exec_error \<Rightarrow> 'd shell_stream \<Rightarrow> 'd shell_stream \<times> stream_status" where
  "catch_exec_error cfg err s =
     (case err of
        Exec_timeout _ out er \<Rightarrow> (take_captured (''Command timed out after '' @ digits (sc_timeout cfg) @ ''ms.'') out er s, Out_timeout)
      | Exec_idle_timeout _ out er \<Rightarrow>
          (take_captured (''Command produced no output for '' @ digits (sc_idle cfg) @ ''ms.'') out er s, Out_idle_timeout)
      | _ \<Rightarrow> (s, Out_error))"

definition take_response :: "utext \<Rightarrow> utext \<Rightarrow> 'd shell_stream \<Rightarrow> 'd shell_stream" where
  "take_response out er s =
     s\<lparr>ss_cleaned := (\<lambda>src. strip_ansi (sanitize_ingress_text (case src of Stdout \<Rightarrow> out | Stderr \<Rightarrow> er)))\<rparr>"

definition end_of_exec ::
  "'d shell_env \<Rightarrow> shell_config \<Rightarrow> exec_outcome \<Rightarrow> 'd shell_stream \<Rightarrow> 'd shell_stream \<times> stream_status \<times> int option" where
  "end_of_exec env cfg outcome s =
     (case outcome of
        Failed err \<Rightarrow> (case catch_exec_error cfg err s of (s1, status) \<Rightarrow> (close_stream env cfg s1, status, None))
      | Exited out er exit_code \<Rightarrow>
          (let s1 = close_stream env cfg s
           in (take_response out er s1,
               if exit_code \<noteq> 0 then Out_error else if ss_truncated s1 then Out_truncated else Out_success,
               Some exit_code)))"

section \<open>The result\<close>

record shell_closing =
  cl_truncated :: bool
  cl_reason :: "cut_reason option"
  cl_message :: "utext option"
  cl_saved :: "utext option"
  cl_status :: stream_status
  cl_files :: shell_files

fun includes_units :: "utext \<Rightarrow> utext \<Rightarrow> bool" where
  "includes_units [] p \<longleftrightarrow> p = []"
| "includes_units (c # cs) p \<longleftrightarrow> take (length p) (c # cs) = p \<or> includes_units cs p"

definition saved_note :: "utext \<Rightarrow> utext" where
  "saved_note path = units ''Full output saved to '' @ path @ units ''.''"

definition ensure_saved_path :: "utext \<Rightarrow> utext option \<Rightarrow> utext option" where
  "ensure_saved_path path message =
     (if path = [] then message
      else case message of
          Some (c # m) \<Rightarrow> if includes_units (c # m) path then message else Some ((c # m) @ units '' '' @ saved_note path)
        | _ \<Rightarrow> Some (saved_note path))"

definition truncated_after :: "nat \<Rightarrow> utext" where
  "truncated_after limit = units (''Output truncated after '' @ digits limit @ '' characters.'')"

definition build_truncation_message :: "shell_config \<Rightarrow> cut_reason option \<Rightarrow> utext" where
  "build_truncation_message cfg reason =
     (if reason = Some Output_limit \<and> 0 < sc_limit cfg then truncated_after (sc_limit cfg)
      else if reason = Some Client_buffer \<and> 0 < sc_client_limit cfg
        then units (''Output truncated after streaming '' @ megabytes (sc_client_limit cfg) @ '' MB.'')
      else units ''Output truncated.'')"

text \<open>A failure to save is only logged.\<close>

definition try_save :: "'d shell_env \<Rightarrow> utext \<Rightarrow> shell_closing \<Rightarrow> shell_closing" where
  "try_save env out c =
     (case save_oversized_output env out (cl_files c) of
        (fs, Inl e) \<Rightarrow> c\<lparr>cl_files := fs\<rparr>
      | (fs, Inr path) \<Rightarrow> c\<lparr>cl_files := fs, cl_saved := Some path\<rparr>)"

definition cut_oversized :: "'d shell_env \<Rightarrow> shell_config \<Rightarrow> utext \<Rightarrow> shell_closing \<Rightarrow> shell_closing" where
  "cut_oversized env cfg final c =
     (if \<not> cl_truncated c \<and> 0 < sc_limit cfg \<and> sc_limit cfg < length final
      then (let c1 = (if falsy_text (cl_saved c) then try_save env final c else c);
                base = truncated_after (sc_limit cfg)
            in c1\<lparr>cl_truncated := True, cl_reason := Some Output_limit, cl_status := Out_truncated,
                  cl_message := Some (case cl_saved c1 of Some path \<Rightarrow> base @ units '' '' @ saved_note path | None \<Rightarrow> base)\<rparr>)
      else c)"

definition explain_truncation :: "'d shell_env \<Rightarrow> shell_config \<Rightarrow> utext \<Rightarrow> shell_closing \<Rightarrow> shell_closing" where
  "explain_truncation env cfg final c =
     (if cl_truncated c
      then (let c1 = (if final \<noteq> [] \<and> falsy_text (cl_saved c) then try_save env final c else c);
                c2 = (if falsy_text (cl_message c1) then c1\<lparr>cl_message := Some (build_truncation_message cfg (cl_reason c1))\<rparr> else c1)
            in case cl_saved c2 of Some path \<Rightarrow> c2\<lparr>cl_message := ensure_saved_path path (cl_message c2)\<rparr> | None \<Rightarrow> c2)
      else c)"

definition error_headline :: "'d shell_env \<Rightarrow> exec_error \<Rightarrow> int \<times> utext" where
  "error_headline env err =
     (case err of
        Exec_idle_timeout ms _ _ \<Rightarrow> (408, units (''Exec idle timed out after '' @ digits ms @ ''ms''))
      | Exec_timeout ms _ _ \<Rightarrow> (408, units (''Exec timed out after '' @ digits ms @ ''ms''))
      | _ \<Rightarrow>
          (500, units (if is_connection_interruption err then build_interruption_message (se_lookup env)
                       else if exec_error_text err = [] then ''Shell command failed.'' else exec_error_text err)))"

definition report_exec_error ::
  "'d shell_env \<Rightarrow> shell_config \<Rightarrow> utext \<Rightarrow> exec_error \<Rightarrow> shell_closing \<Rightarrow> shell_closing \<times> utext" where
  "report_exec_error env cfg final err c =
     (case error_headline env err of
        (code, headline) \<Rightarrow>
          (let (c1, text) =
             (case build_payload env code headline final (sc_limit cfg) (cl_saved c) (cl_message c) (Some output_tail_limit) (cl_files c) of
                (fs, Inl e) \<Rightarrow> (c\<lparr>cl_files := fs\<rparr>, units (''[exit code '' @ int_digits code @ ''] '') @ headline)
              | (fs, Inr (text, saved, message)) \<Rightarrow>
                  (c\<lparr>cl_files := fs, cl_saved := saved, cl_message := (if falsy_text (cl_message c) then message else cl_message c)\<rparr>, text))
           in (if cl_status c1 = Out_timeout \<or> cl_status c1 = Out_idle_timeout then c1 else c1\<lparr>cl_status := Out_error\<rparr>,
               sanitize_ingress_text text)))"

definition report_exit_code :: "'d shell_env \<Rightarrow> shell_config \<Rightarrow> utext \<Rightarrow> int \<Rightarrow> shell_closing \<Rightarrow> shell_closing \<times> utext" where
  "report_exit_code env cfg final exit_code c =
     (case format_exit_code_message env exit_code final (sc_limit cfg) (cl_saved c) (cl_message c) (cl_files c) of
        (fs, Inl e) \<Rightarrow> (c\<lparr>cl_files := fs\<rparr>, sanitize_ingress_text (units (''[exit code '' @ int_digits exit_code @ '']'')))
      | (fs, Inr (text, saved, message)) \<Rightarrow>
          (let c1 = c\<lparr>cl_files := fs\<rparr>;
               c2 = (case saved of
                       Some (x # path) \<Rightarrow>
                         (if falsy_text (cl_saved c1) then c1\<lparr>cl_saved := saved\<rparr> else c1)
                           \<lparr>cl_message := ensure_saved_path (x # path) (cl_message c1)\<rparr>
                     | _ \<Rightarrow> c1);
               c3 = (if falsy_text (cl_message c2) \<and> \<not> falsy_text message
                     then c2\<lparr>cl_message := (case saved of Some (x # path) \<Rightarrow> ensure_saved_path (x # path) message | _ \<Rightarrow> message)\<rparr>
                     else c2)
           in (c3, sanitize_ingress_text text)))"

record shell_terminal =
  sx_exit :: "int option"
  sx_status :: stream_status
  sx_bytes_out :: nat
  sx_bytes_err :: nat
  sx_chunks :: nat
  sx_dropped :: nat
  sx_saved :: "utext option"
  sx_message :: "utext option"

definition shell_result :: "utext option \<Rightarrow> utext option \<Rightarrow> utext \<Rightarrow> shell_closing \<Rightarrow> utext" where
  "shell_result exec_message exit_message final c =
     (if \<not> falsy_text exec_message then the exec_message
      else if \<not> falsy_text exit_message then the exit_message
      else if cl_status c = Out_truncated
        then (case cl_message c of
                Some m \<Rightarrow> m
              | None \<Rightarrow> units ''Output truncated.'' @ (case cl_saved c of Some (x # path) \<Rightarrow> units '' '' @ saved_note (x # path) | _ \<Rightarrow> []))
      else final)"

definition conclude ::
  "'d shell_env \<Rightarrow> shell_config \<Rightarrow> exec_outcome \<Rightarrow> shell_files \<Rightarrow> 'd shell_stream \<times> stream_status \<times> int option \<Rightarrow>
   shell_closing \<times> shell_terminal \<times> utext" where
  "conclude env cfg outcome fs r =
     (case r of (s, status, exit_code) \<Rightarrow>
        (let final = stream_combined s;
             c0 = \<lparr>cl_truncated = ss_truncated s, cl_reason = ss_reason s, cl_message = ss_message s, cl_saved = None,
                   cl_status = status, cl_files = fs\<rparr>;
             c1 = explain_truncation env cfg final (cut_oversized env cfg final c0);
             (c2, exec_message) = (case outcome of
                Failed err \<Rightarrow> (case report_exec_error env cfg final err c1 of (c, t) \<Rightarrow> (c, Some t))
              | _ \<Rightarrow> (c1, None));
             (c3, exit_message) = (case exit_code of
                Some code \<Rightarrow> (if code \<noteq> 0 then (case report_exit_code env cfg final code c2 of (c, t) \<Rightarrow> (c, Some t)) else (c2, None))
              | None \<Rightarrow> (c2, None))
         in (c3,
             \<lparr>sx_exit = exit_code, sx_status = cl_status c3, sx_bytes_out = ss_total s Stdout, sx_bytes_err = ss_total s Stderr,
              sx_chunks = ss_chunks s, sx_dropped = ss_dropped s, sx_saved = cl_saved c3, sx_message = cl_message c3\<rparr>,
             shell_result exec_message exit_message final c3)))"

definition execute_streaming ::
  "'d shell_env \<Rightarrow> shell_config \<Rightarrow> shell_event list \<Rightarrow> exec_outcome \<Rightarrow> shell_files \<Rightarrow> shell_closing \<times> shell_terminal \<times> utext" where
  "execute_streaming env cfg evs outcome fs = conclude env cfg outcome fs (end_of_exec env cfg outcome (run_shell env cfg evs))"
end
