(* ===== verification/Shell_Lanes.thy ===== *)
theory Shell_Lanes
  imports Shell_Tool
begin

text \<open>
  What the shell tool hears: the texts of one stream depend on the bytes of that stream alone, and are the
  decoded output with nothing taken away but terminal sequences and what cannot be stored.
\<close>

section \<open>One lane\<close>

text \<open>The texts that leave a lane, with those at the end of the command.\<close>

fun lane_all :: "'d decoders \<Rightarrow> 'd lane \<Rightarrow> byte list list \<Rightarrow> utext" where
  "lane_all dc l [] = (let (l1, t) = drain_decoder dc l; (l2, u) = drain_cleaner l1 in t @ u)"
| "lane_all dc l (b # bs) = (let (l1, t) = feed_lane dc b l in t @ lane_all dc l1 bs)"

fun decode_pieces :: "'d decoders \<Rightarrow> 'd decode_state \<Rightarrow> byte list list \<Rightarrow> utext list" where
  "decode_pieces dc d [] = [flush_ingress_decoder dc d]"
| "decode_pieces dc d (b # bs) = (let (d1, t) = decode_ingress_chunk dc d b in t # decode_pieces dc d1 bs)"

fun clean_pieces :: "utext \<Rightarrow> utext list \<Rightarrow> utext list" where
  "clean_pieces h [] = [cleaner_flush strip_ansi h]"
| "clean_pieces h (t # ts) = (let (h1, u) = cleaner_consume strip_ansi t h in u # clean_pieces h1 ts)"

lemma concat_decode_pieces: "concat (decode_pieces dc d bs) = decode_all dc d bs"
  by (induction bs arbitrary: d) (auto split: prod.splits)

lemma concat_clean_pieces: "concat (clean_pieces h ts) = clean_all strip_ansi h ts"
  by (induction ts arbitrary: h) (auto split: prod.splits)

lemma sanitize_all_append:
  "snd (sanitize_all z (a # as)) = snd (sanitize_ingress_chunk a z) @ snd (sanitize_all (fst (sanitize_ingress_chunk a z)) as)"
  by (simp add: case_prod_beta Let_def)

lemma lane_all_stages:
  "lane_all dc l bs = snd (sanitize_all (ln_sanitize l) (clean_pieces (ln_held l) (decode_pieces dc (ln_decode l) bs)))"
proof (induction bs arbitrary: l)
  case Nil
  show ?case
    by (simp add: drain_decoder_def drain_cleaner_def clean_text_def sanitize_all_append case_prod_beta Let_def)
next
  case (Cons b bs)
  show ?case
    by (simp add: Cons feed_lane_def clean_text_def case_prod_beta Let_def)
qed

text \<open>
  C19. The text the shell tool shows of a stream is its decoded output with nothing added, reordered or
  repeated and without NUL characters, however the bytes arrive; an output that starts with an ordinary
  character and has no terminal sequences is shown in full.
\<close>

theorem output_text_is_faithful:
  "subseq (lane_all dc (new_lane dc) bs) (decode_all dc (initial_decode_state dc) bs)
    \<and> 0 \<notin> set (lane_all dc (new_lane dc) bs)
    \<and> (\<forall>u rest. decode_all dc (initial_decode_state dc) bs = u # rest \<and> u \<notin> start_noise
          \<and> esc \<notin> set (u # rest) \<and> csi \<notin> set (u # rest)
        \<longrightarrow> lane_all dc (new_lane dc) bs = filter (\<lambda>c. c \<noteq> 0) (u # rest))"
proof -
  define raw where "raw = decode_all dc (initial_decode_state dc) bs"
  define cleaned where "cleaned = clean_pieces [] (decode_pieces dc (initial_decode_state dc) bs)"
  have c: "concat cleaned = clean_all strip_ansi [] (decode_pieces dc (initial_decode_state dc) bs)"
    by (simp add: cleaned_def concat_clean_pieces)
  have cw: "subseq (concat cleaned) raw" "esc \<in> set raw \<or> csi \<in> set raw \<or> concat cleaned = filter (\<lambda>c. c \<noteq> 0) raw"
    using output_is_cleaned_whole[of "decode_pieces dc (initial_decode_state dc) bs"]
    by (auto simp: c raw_def concat_decode_pieces)
  obtain st t where st: "sanitize_all create_sanitize_state cleaned = (st, t)" by fastforce
  have l: "lane_all dc (new_lane dc) bs = t"
    using lane_all_stages[of dc "new_lane dc" bs] st by (simp add: new_lane_def cleaned_def)
  obtain lost kept where k: "concat cleaned = lost @ kept" "set lost \<subseteq> start_noise" "t = filter (\<lambda>u. u \<noteq> 0) kept" and z: "0 \<notin> set t"
    using sanitized_text_is_clean_parts[OF st] by blast
  have "subseq t kept" using k(3) by (simp add: subseq_filter_left)
  also have "subseq kept (concat cleaned)" unfolding k(1) by (rule list_emb_append2) simp
  also note cw(1)
  finally have "subseq t raw" .
  moreover have "t = filter (\<lambda>c. c \<noteq> 0) (u # rest)"
    if "raw = u # rest" "u \<notin> start_noise" "esc \<notin> set (u # rest)" "csi \<notin> set (u # rest)" for u rest
  proof -
    have cc: "concat cleaned = filter (\<lambda>c. c \<noteq> 0) (u # rest)" using cw(2) that by auto
    have "u \<noteq> 0" using that(2) by (auto simp: start_noise_def)
    then have "lost = []" using k(1,2) cc that(2) by (cases lost) auto
    then have "kept = filter (\<lambda>c. c \<noteq> 0) (u # rest)" using k(1) cc by (simp del: filter.simps)
    then show ?thesis unfolding k(3) by (simp del: filter.simps)
  qed
  ultimately show ?thesis using z by (auto simp: l raw_def)
qed

theorem output_text_is_faithful_witness:
  "lane_all plain_decoders (new_lane plain_decoders) [map of_char ''he'', map of_char ''llo''] = units ''hello''"
proof -
  have d: "decode_all plain_decoders (initial_decode_state plain_decoders) [map of_char ''he'', map of_char ''llo''] = units ''hello''"
    by code_simp
  have "units ''hello'' = 0x68 # units ''ello''" "(0x68 :: code_unit) \<notin> start_noise"
      "esc \<notin> set (0x68 # units ''ello'')" "csi \<notin> set (0x68 # units ''ello'')"
    "filter (\<lambda>c. c \<noteq> 0) (0x68 # units ''ello'') = units ''hello''"
    by (simp_all add: start_noise_def bom_char_def replacement_def) code_simp+
  then show ?thesis using output_text_is_faithful[of plain_decoders "[map of_char ''he'', map of_char ''llo'']"] d by metis
qed

section \<open>Two lanes\<close>

definition texts_of :: "stream_source \<Rightarrow> (stream_source \<times> utext) list \<Rightarrow> utext" where
  "texts_of src segs = concat (map snd (filter (\<lambda>p. fst p = src) segs))"

definition bytes_of :: "stream_source \<Rightarrow> (stream_source \<times> byte list) list \<Rightarrow> byte list list" where
  "bytes_of src chunks = map snd (filter (\<lambda>p. fst p = src) chunks)"

lemma texts_of_simps [simp]:
  "texts_of src [] = []" "texts_of src (segs @ [(src', t)]) = texts_of src segs @ (if src = src' then t else [])"
  by (auto simp: texts_of_def)

lemma push_segment_fields:
  "xs_lanes (push_segment src (l, t) s) = (xs_lanes s)(src := l)"
  "xs_segments (push_segment src (l, t) s) = xs_segments s @ (if t = [] then [] else [(src, t)])"
  "xs_clean (push_segment src (l, t) s) = (xs_clean s)(src := xs_clean s src @ t)"
  by (auto simp: push_segment_def Let_def)

text \<open>What has been heard so far and what the rest of a stream still gives make up all of it.\<close>

lemma heard_then_rest:
  "texts_of src (xs_segments (fold (exec_chunk dc) chunks s)) @ lane_all dc (xs_lanes (fold (exec_chunk dc) chunks s) src) []
     = texts_of src (xs_segments s) @ lane_all dc (xs_lanes s src) (bytes_of src chunks)"
proof (induction chunks arbitrary: s)
  case Nil
  show ?case by (simp add: bytes_of_def)
next
  case (Cons c chunks)
  obtain src' b where c: "c = (src', b)" by (cases c)
  obtain l t where f: "feed_lane dc b (xs_lanes s src') = (l, t)" by fastforce
  show ?case using Cons[of "push_segment src' (l, t) s"] c f
    by (auto simp: exec_chunk_def push_segment_fields bytes_of_def)
qed

lemma flush_remainder_fields:
  assumes "drain_decoder dc (xs_lanes s src) = (l1, t)" "drain_cleaner l1 = (l2, u)"
  shows "xs_lanes (flush_remainder dc src s) = (xs_lanes s)(src := l2)"
    "xs_segments (flush_remainder dc src s) = xs_segments s @ (if t = [] then [] else [(src, t)]) @ (if u = [] then [] else [(src, u)])"
  using assms by (simp_all add: flush_remainder_def Let_def push_segment_fields)

lemma flush_remainder_texts:
  "texts_of src' (xs_segments (flush_remainder dc src s))
     = texts_of src' (xs_segments s) @ (if src' = src then lane_all dc (xs_lanes s src) [] else [])"
  "src' \<noteq> src \<Longrightarrow> xs_lanes (flush_remainder dc src s) src' = xs_lanes s src'"
proof -
  obtain l1 t where a: "drain_decoder dc (xs_lanes s src) = (l1, t)" by fastforce
  obtain l2 u where b: "drain_cleaner l1 = (l2, u)" by fastforce
  show "texts_of src' (xs_segments (flush_remainder dc src s))
     = texts_of src' (xs_segments s) @ (if src' = src then lane_all dc (xs_lanes s src) [] else [])"
    using a b by (auto simp: flush_remainder_fields(2)[OF a b] texts_of_def)
  show "src' \<noteq> src \<Longrightarrow> xs_lanes (flush_remainder dc src s) src' = xs_lanes s src'"
    by (simp add: flush_remainder_fields(1)[OF a b])
qed

definition heard :: "'d decoders \<Rightarrow> (stream_source \<times> byte list) list \<Rightarrow> (stream_source \<times> utext) list" where
  "heard dc chunks = xs_segments (flush_decoder_remainder dc (fold (exec_chunk dc) chunks (new_exec dc)))"

theorem streams_are_independent:
  "texts_of src (heard dc chunks) = lane_all dc (new_lane dc) (bytes_of src chunks)"
proof -
  let ?s = "fold (exec_chunk dc) chunks (new_exec dc)"
  have "texts_of src (heard dc chunks) = texts_of src (xs_segments ?s) @ lane_all dc (xs_lanes ?s src) []"
    by (cases src) (simp_all add: heard_def flush_decoder_remainder_def flush_remainder_texts del: lane_all.simps)
  then show ?thesis using heard_then_rest[of src dc chunks "new_exec dc"] by (simp add: new_exec_def)
qed
end
