(* ===== verification/Shell_Output.thy ===== *)
theory Shell_Output
  imports Shell_Stream Shell_Lanes "HOL-Library.Multiset"
begin

text \<open>
  What \<open>executeStreaming\<close> keeps: an output that is not given up reaches the database, the page and the
  answer in full and in its order, whatever the interleaving of output, timers and jobs, and the answer is the
  one \<open>execute\<close> gives; the numbers of the chunks; what happens beyond the limits.
\<close>

section \<open>Monotonicity and untouched parts\<close>

lemma flush_buffer_keeps [simp]:
  "ss_truncated (flush_buffer f src s) = ss_truncated s" "ss_lanes (flush_buffer f src s) = ss_lanes s"
  "ss_cleaned (flush_buffer f src s) = ss_cleaned s" "ss_sent (flush_buffer f src s) = ss_sent s"
  "ss_order (flush_buffer f src s) = ss_order s" "ss_ordered (flush_buffer f src s) = ss_ordered s"
  "ss_seq (flush_buffer f src s) = ss_seq s" "ss_stream_seq (flush_buffer f src s) = ss_stream_seq s"
  "ss_emitted (flush_buffer f src s) = ss_emitted s" "ss_busy (flush_buffer f src s) = ss_busy s"
  "ss_message (flush_buffer f src s) = ss_message s" "ss_chunks (flush_buffer f src s) = ss_chunks s"
  "ss_dropped (flush_buffer f src s) = ss_dropped s"
  by (simp_all add: flush_buffer_def Let_def)

lemma check_output_limit_keeps [simp]:
  "ss_lanes (check_output_limit cfg src s) = ss_lanes s" "ss_cleaned (check_output_limit cfg src s) = ss_cleaned s"
  "ss_text (check_output_limit cfg src s) = ss_text s" "ss_pending (check_output_limit cfg src s) = ss_pending s"
  "ss_jobs (check_output_limit cfg src s) = ss_jobs s" "ss_sent (check_output_limit cfg src s) = ss_sent s"
  "ss_order (check_output_limit cfg src s) = ss_order s" "ss_ordered (check_output_limit cfg src s) = ss_ordered s"
  "ss_seq (check_output_limit cfg src s) = ss_seq s" "ss_stream_seq (check_output_limit cfg src s) = ss_stream_seq s"
  "ss_emitted (check_output_limit cfg src s) = ss_emitted s" "ss_busy (check_output_limit cfg src s) = ss_busy s"
  "ss_message (check_output_limit cfg src s) = ss_message s" "ss_chunks (check_output_limit cfg src s) = ss_chunks s"
  "ss_dropped (check_output_limit cfg src s) = ss_dropped s"
  by (simp_all add: check_output_limit_def)

lemma check_output_limit_truncates:
  "ss_truncated (check_output_limit cfg src s) \<longleftrightarrow> ss_truncated s
     \<or> 0 < sc_limit cfg \<and> sc_limit cfg < length (ss_cleaned s Stdout) + length (ss_cleaned s Stderr)"
  by (auto simp: check_output_limit_def)

lemma schedule_flush_keeps [simp]:
  "ss_truncated (schedule_flush src s) = ss_truncated s" "ss_lanes (schedule_flush src s) = ss_lanes s"
  "ss_cleaned (schedule_flush src s) = ss_cleaned s" "ss_text (schedule_flush src s) = ss_text s"
  "ss_pending (schedule_flush src s) = ss_pending s" "ss_jobs (schedule_flush src s) = ss_jobs s"
  "ss_sent (schedule_flush src s) = ss_sent s" "ss_order (schedule_flush src s) = ss_order s"
  "ss_ordered (schedule_flush src s) = ss_ordered s" "ss_seq (schedule_flush src s) = ss_seq s"
  "ss_stream_seq (schedule_flush src s) = ss_stream_seq s" "ss_emitted (schedule_flush src s) = ss_emitted s"
  "ss_busy (schedule_flush src s) = ss_busy s" "ss_message (schedule_flush src s) = ss_message s"
  "ss_chunks (schedule_flush src s) = ss_chunks s" "ss_dropped (schedule_flush src s) = ss_dropped s"
  by (simp_all add: schedule_flush_def)

lemma settle_job_keeps [simp]:
  "ss_truncated (settle_job env s) = ss_truncated s" "ss_lanes (settle_job env s) = ss_lanes s"
  "ss_cleaned (settle_job env s) = ss_cleaned s" "ss_text (settle_job env s) = ss_text s"
  "ss_pending (settle_job env s) = ss_pending s" "ss_sent (settle_job env s) = ss_sent s"
  "ss_order (settle_job env s) = ss_order s" "ss_ordered (settle_job env s) = ss_ordered s"
  "ss_seq (settle_job env s) = ss_seq s" "ss_stream_seq (settle_job env s) = ss_stream_seq s"
  "ss_emitted (settle_job env s) = ss_emitted s" "ss_message (settle_job env s) = ss_message s"
  by (simp_all add: settle_job_def)

lemma send_job_keeps [simp]:
  "ss_lanes (send_job j s) = ss_lanes s" "ss_cleaned (send_job j s) = ss_cleaned s" "ss_text (send_job j s) = ss_text s"
  "ss_pending (send_job j s) = ss_pending s" "ss_order (send_job j s) = ss_order s" "ss_truncated (send_job j s) = ss_truncated s"
  "ss_jobs (send_job j s) = ss_jobs s" "ss_chunks (send_job j s) = ss_chunks s" "ss_dropped (send_job j s) = ss_dropped s"
  by (simp_all add: send_job_def)

lemma cut_client_buffer_keeps [simp]:
  "ss_lanes (cut_client_buffer cfg s) = ss_lanes s" "ss_cleaned (cut_client_buffer cfg s) = ss_cleaned s"
  "ss_text (cut_client_buffer cfg s) = ss_text s" "ss_pending (cut_client_buffer cfg s) = ss_pending s"
  "ss_order (cut_client_buffer cfg s) = ss_order s" "ss_truncated (cut_client_buffer cfg s)"
  "ss_jobs (cut_client_buffer cfg s) = ss_jobs s" "ss_chunks (cut_client_buffer cfg s) = ss_chunks s"
  "ss_sent (cut_client_buffer cfg s) = ss_sent s" "ss_seq (cut_client_buffer cfg s) = ss_seq s"
  "ss_stream_seq (cut_client_buffer cfg s) = ss_stream_seq s" "ss_emitted (cut_client_buffer cfg s) = ss_emitted s"
  "ss_busy (cut_client_buffer cfg s) = ss_busy s"
  by (simp_all add: cut_client_buffer_def give_up_job_def)

text \<open>What becomes of the next job.\<close>

lemma start_job_cases:
  assumes "\<not> ss_busy s" "ss_jobs s = j # js"
  obtains (sent) b where "start_job cfg s = send_job j (s\<lparr>ss_jobs := js, ss_chunks := ss_chunks s + 1, ss_allow := b\<rparr>)"
      "ss_truncated s \<or> b = ss_allow s" "sc_client_limit cfg = 0 \<or> ss_emitted s + fj_bytes j \<le> sc_client_limit cfg"
    | (cut) b where "start_job cfg s = cut_client_buffer cfg (s\<lparr>ss_jobs := js, ss_chunks := ss_chunks s + 1, ss_allow := b\<rparr>)"
    | (given_up) "start_job cfg s = give_up_job (s\<lparr>ss_jobs := js, ss_chunks := ss_chunks s + 1\<rparr>)" "ss_truncated s"
proof -
  let ?s1 = "s\<lparr>ss_jobs := js, ss_chunks := ss_chunks s + 1\<rparr>"
  let ?cut = "0 < sc_client_limit cfg \<and> sc_client_limit cfg < ss_emitted s + fj_bytes j"
  have keep: "s\<lparr>ss_jobs := js, ss_chunks := ss_chunks s + 1, ss_allow := ss_allow s\<rparr> = ?s1" by simp
  have e: "emit_job cfg j ?s1 = (if ?cut then cut_client_buffer cfg ?s1 else send_job j ?s1)"
    "emit_job cfg j (?s1\<lparr>ss_allow := False\<rparr>) = (if ?cut then cut_client_buffer cfg (?s1\<lparr>ss_allow := False\<rparr>) else send_job j (?s1\<lparr>ss_allow := False\<rparr>))"
    by (simp_all add: emit_job_def)
  show ?thesis
  proof (cases "ss_truncated s")
    case True
    show ?thesis
    proof (cases "ss_allow s \<and> ss_cut_source s = Some (fj_source j)")
      case allowed: True
      have st: "start_job cfg s = emit_job cfg j (?s1\<lparr>ss_allow := False\<rparr>)"
        using assms True allowed by (simp add: start_job_def Let_def)
      show ?thesis
      proof (cases ?cut)
        case True
        then show ?thesis using cut[of False] st e(2) by simp
      next
        case False
        then show ?thesis using sent[of False] st e(2) \<open>ss_truncated s\<close> by auto
      qed
    next
      case False
      then have "start_job cfg s = give_up_job ?s1" using assms True by (auto simp: start_job_def Let_def)
      then show ?thesis using given_up True by blast
    qed
  next
    case False
    then have st: "start_job cfg s = emit_job cfg j ?s1" using assms by (simp add: start_job_def Let_def)
    show ?thesis
    proof (cases ?cut)
      case True
      then show ?thesis using cut[of "ss_allow s"] st e(1) keep by simp
    next
      case no: False
      then show ?thesis using sent[of "ss_allow s"] st e(1) keep by auto
    qed
  qed
qed

lemma start_job_idle: "ss_busy s \<or> ss_jobs s = [] \<Longrightarrow> start_job cfg s = s"
  by (auto simp: start_job_def)

lemma start_job_keeps [simp]:
  "ss_lanes (start_job cfg s) = ss_lanes s" "ss_cleaned (start_job cfg s) = ss_cleaned s"
  "ss_text (start_job cfg s) = ss_text s" "ss_pending (start_job cfg s) = ss_pending s"
  "ss_order (start_job cfg s) = ss_order s"
proof -
  have "ss_lanes (start_job cfg s) = ss_lanes s \<and> ss_cleaned (start_job cfg s) = ss_cleaned s
    \<and> ss_text (start_job cfg s) = ss_text s \<and> ss_pending (start_job cfg s) = ss_pending s \<and> ss_order (start_job cfg s) = ss_order s"
  proof (cases "ss_busy s \<or> ss_jobs s = []")
    case True
    then show ?thesis by (simp add: start_job_idle)
  next
    case False
    then obtain j js where "\<not> ss_busy s" "ss_jobs s = j # js" by (cases "ss_jobs s") auto
    then show ?thesis by (cases rule: start_job_cases[where cfg = cfg]) (simp_all add: give_up_job_def)
  qed
  then show "ss_lanes (start_job cfg s) = ss_lanes s" "ss_cleaned (start_job cfg s) = ss_cleaned s"
    "ss_text (start_job cfg s) = ss_text s" "ss_pending (start_job cfg s) = ss_pending s"
    "ss_order (start_job cfg s) = ss_order s" by blast+
qed

lemma start_job_truncated: "ss_truncated s \<Longrightarrow> ss_truncated (start_job cfg s)"
proof (cases "ss_busy s \<or> ss_jobs s = []")
  case False
  assume t: "ss_truncated s"
  from False obtain j js where "\<not> ss_busy s" "ss_jobs s = j # js" by (cases "ss_jobs s") auto
  then show ?thesis using t by (cases rule: start_job_cases[where cfg = cfg]) (simp_all add: give_up_job_def)
qed (simp add: start_job_idle)

text \<open>A job that leaves the output whole has sent its chunk.\<close>

lemma start_job_sends:
  assumes "\<not> ss_truncated (start_job cfg s)" "\<not> ss_busy s" "ss_jobs s = j # js"
  shows "start_job cfg s = send_job j (s\<lparr>ss_jobs := js, ss_chunks := ss_chunks s + 1\<rparr>)"
  using assms(2,3) by (cases rule: start_job_cases[where cfg = cfg]) (use assms(1) in \<open>auto simp: give_up_job_def\<close>)

lemma handle_truncated: "ss_truncated s \<Longrightarrow> ss_truncated (handle_decorated_chunk cfg src r s)"
  by (cases r) (simp add: handle_decorated_chunk_def Let_def check_output_limit_truncates collect_text_def)

lemma await_truncated: "ss_truncated s \<Longrightarrow> ss_truncated (await_jobs env cfg s)"
proof (induction env cfg s rule: await_jobs.induct)
  case (1 env cfg s)
  then show ?case by (subst await_jobs.simps) (simp add: Let_def start_job_truncated)
qed

lemma step_truncated: "ss_truncated s \<Longrightarrow> ss_truncated (shell_event_step env cfg ev s)"
  by (cases ev) (simp_all add: on_output_def on_timer_def handle_truncated start_job_truncated)

section \<open>Nothing is lost\<close>

definition number_segments :: "(stream_source \<times> utext) list \<Rightarrow> (nat \<times> utext) list" where
  "number_segments segs = zip [1..<Suc (length segs)] (map snd segs)"

lemma number_segments_snoc:
  "number_segments [] = []" "number_segments (segs @ [(src, t)]) = number_segments segs @ [(length segs + 1, t)]"
proof -
  have "[1..<Suc (length segs + 1)] = [1..<Suc (length segs)] @ [length segs + 1]" by simp
  then show "number_segments (segs @ [(src, t)]) = number_segments segs @ [(length segs + 1, t)]"
    by (simp add: number_segments_def del: upt_Suc)
qed (simp add: number_segments_def)

definition waiting_segments :: "'d shell_stream \<Rightarrow> (nat \<times> utext) multiset" where
  "waiting_segments s =
     mset (concat (map fj_segments (ss_jobs s))) + mset (ss_pending s Stdout) + mset (ss_pending s Stderr)"

definition text_through :: "stream_source \<Rightarrow> 'd shell_stream \<Rightarrow> utext" where
  "text_through src s =
     concat (map sk_data (filter (\<lambda>c. sk_source c = src) (ss_sent s)))
     @ concat (map fj_text (filter (\<lambda>j. fj_source j = src) (ss_jobs s))) @ ss_text s src"

definition buffers_fit :: "'d shell_stream \<Rightarrow> bool" where
  "buffers_fit s \<longleftrightarrow> (\<forall>src. concat (map snd (ss_pending s src)) = ss_text s src \<and> [] \<notin> snd ` set (ss_pending s src))"

definition stream_matches :: "(stream_source \<times> utext) list \<Rightarrow> 'd shell_stream \<Rightarrow> bool" where
  "stream_matches segs s \<longleftrightarrow>
     ss_order s = length segs \<and> mset (ss_ordered s) + waiting_segments s = mset (number_segments segs)
     \<and> (\<forall>src. text_through src s = texts_of src segs) \<and> buffers_fit s"

lemma pending_empty: "buffers_fit s \<Longrightarrow> ss_text s src = [] \<Longrightarrow> ss_pending s src = []"
  unfolding buffers_fit_def by (cases "ss_pending s src") (auto dest: spec[of _ src])

lemma matches_cong:
  assumes "stream_matches segs s" "ss_order t = ss_order s" "ss_ordered t = ss_ordered s" "ss_jobs t = ss_jobs s"
    "ss_pending t = ss_pending s" "ss_text t = ss_text s" "ss_sent t = ss_sent s"
  shows "stream_matches segs t"
  using assms by (simp add: stream_matches_def waiting_segments_def text_through_def buffers_fit_def)

lemma flush_buffer_matches:
  assumes "stream_matches segs s"
  shows "stream_matches segs (flush_buffer f src s)"
proof (cases "ss_text s src = []")
  case True
  then have p: "ss_pending s src = []" using assms pending_empty by (auto simp: stream_matches_def)
  have q: "ss_pending (flush_buffer f src s) = ss_pending s" "ss_jobs (flush_buffer f src s) = ss_jobs s"
    "ss_text (flush_buffer f src s) = ss_text s" using True by (auto simp: flush_buffer_def fun_upd_idem)
  show ?thesis by (rule matches_cong[OF assms]) (simp_all add: q)
next
  case False
  have "waiting_segments (flush_buffer f src s) = waiting_segments s"
    using False by (cases src) (simp_all add: flush_buffer_def waiting_segments_def Let_def)
  moreover have "text_through src' (flush_buffer f src s) = text_through src' s" for src'
    using False by (simp add: flush_buffer_def text_through_def Let_def)
  moreover have "buffers_fit (flush_buffer f src s)"
    using assms False by (auto simp: flush_buffer_def buffers_fit_def stream_matches_def Let_def)
  ultimately show ?thesis using assms by (simp add: stream_matches_def)
qed

lemma collect_text_matches:
  assumes "stream_matches segs s" "t \<noteq> []"
  shows "stream_matches (segs @ [(src, t)]) (collect_text src t s)"
proof -
  have o: "ss_order s = length segs" and m: "mset (ss_ordered s) + waiting_segments s = mset (number_segments segs)"
    using assms(1) by (auto simp: stream_matches_def)
  have "waiting_segments (collect_text src t s) = waiting_segments s + {#(length segs + 1, t)#}"
    by (cases src) (simp_all add: waiting_segments_def collect_text_def o)
  then have "mset (ss_ordered (collect_text src t s)) + waiting_segments (collect_text src t s) = mset (number_segments (segs @ [(src, t)]))"
    using m by (simp add: number_segments_snoc(2) collect_text_def)
  moreover have "text_through src' (collect_text src t s) = texts_of src' (segs @ [(src, t)])" for src'
    using assms(1) by (auto simp: stream_matches_def text_through_def collect_text_def)
  moreover have "buffers_fit (collect_text src t s)"
    using assms by (auto simp: stream_matches_def buffers_fit_def collect_text_def)
  ultimately show ?thesis using o by (simp add: stream_matches_def collect_text_def)
qed

lemma handle_matches:
  assumes "stream_matches segs s"
  shows "stream_matches (segs @ (if t = [] then [] else [(src, t)])) (handle_decorated_chunk cfg src (l, t) s)"
proof -
  let ?s0 = "s\<lparr>ss_lanes := (ss_lanes s)(src := l)\<rparr>"
  have 0: "stream_matches segs ?s0" by (rule matches_cong[OF assms]) simp_all
  show ?thesis
  proof (cases "t = []")
    case True
    then show ?thesis using 0 by (simp add: handle_decorated_chunk_def Let_def)
  next
    case False
    let ?s1 = "collect_text src t ?s0"
    have 1: "stream_matches (segs @ [(src, t)]) ?s1" by (rule collect_text_matches[OF 0 False])
    have 2: "stream_matches (segs @ [(src, t)]) (schedule_flush src ?s1)" by (rule matches_cong[OF 1]) simp_all
    have 3: "stream_matches (segs @ [(src, t)]) (check_output_limit cfg src u)" if "stream_matches (segs @ [(src, t)]) u" for u :: "'a shell_stream"
      by (rule matches_cong[OF that]) simp_all
    show ?thesis using False 3[OF 2] 3[OF flush_buffer_matches[OF 1]] by (simp add: handle_decorated_chunk_def Let_def)
  qed
qed

lemma start_job_matches:
  assumes "stream_matches segs s" "\<not> ss_truncated (start_job cfg s)"
  shows "stream_matches segs (start_job cfg s)"
proof (cases "ss_busy s \<or> ss_jobs s = []")
  case True
  then show ?thesis using assms(1) by (auto simp: start_job_def)
next
  case False
  then obtain j js where j: "ss_jobs s = j # js" by (cases "ss_jobs s") auto
  have e: "start_job cfg s = send_job j (s\<lparr>ss_jobs := js, ss_chunks := ss_chunks s + 1\<rparr>)"
    by (rule start_job_sends[OF assms(2) _ j]) (use False in simp)
  have "mset (ss_ordered (start_job cfg s)) + waiting_segments (start_job cfg s) = mset (ss_ordered s) + waiting_segments s"
    by (simp add: e send_job_def waiting_segments_def j)
  moreover have "text_through src (start_job cfg s) = text_through src s" for src
    by (simp add: e send_job_def text_through_def j)
  moreover have "buffers_fit (start_job cfg s)" using assms(1) by (simp add: stream_matches_def buffers_fit_def)
  ultimately show ?thesis using assms(1) by (simp add: stream_matches_def)
qed

lemma await_matches:
  assumes "stream_matches segs s" "\<not> ss_truncated (await_jobs env cfg s)"
  shows "stream_matches segs (await_jobs env cfg s) \<and> ss_jobs (await_jobs env cfg s) = []
    \<and> ss_text (await_jobs env cfg s) = ss_text s \<and> ss_pending (await_jobs env cfg s) = ss_pending s
    \<and> ss_cleaned (await_jobs env cfg s) = ss_cleaned s \<and> \<not> ss_truncated s"
  using assms
proof (induction env cfg s rule: await_jobs.induct)
  case (1 env cfg s)
  let ?s1 = "settle_job env s"
  have m1: "stream_matches segs ?s1" by (rule matches_cong[OF "1.prems"(1)]) simp_all
  show ?case
  proof (cases "ss_jobs ?s1 = []")
    case True
    then have "await_jobs env cfg s = ?s1" by (subst await_jobs.simps) (simp add: Let_def)
    then show ?thesis using True m1 "1.prems"(2) by simp
  next
    case False
    then have e: "await_jobs env cfg s = await_jobs env cfg (start_job cfg ?s1)"
      by (subst await_jobs.simps) (simp add: Let_def)
    have nt: "\<not> ss_truncated (start_job cfg ?s1)" using "1.prems"(2) await_truncated e by metis
    have "\<not> ss_truncated s" using nt start_job_truncated[of ?s1 cfg] by auto
    then show ?thesis
      using "1.IH"[OF refl False start_job_matches[OF m1 nt]] "1.prems"(2) e by simp
  qed
qed

section \<open>The run as it is heard\<close>

definition outputs :: "shell_event list \<Rightarrow> (stream_source \<times> byte list) list" where
  "outputs evs = concat (map (\<lambda>ev. case ev of Output_bytes src b \<Rightarrow> [(src, b)] | _ \<Rightarrow> []) evs)"

definition in_tune :: "shell_config \<Rightarrow> 'd shell_stream \<Rightarrow> 'd exec_state \<Rightarrow> bool" where
  "in_tune cfg s x \<longleftrightarrow>
     ss_lanes s = xs_lanes x \<and> stream_matches (xs_segments x) s \<and> ss_cleaned s = (\<lambda>src. texts_of src (xs_segments x))
     \<and> (sc_limit cfg = 0 \<or> length (ss_cleaned s Stdout) + length (ss_cleaned s Stderr) \<le> sc_limit cfg)"

lemma handle_lanes: "ss_lanes (handle_decorated_chunk cfg src (l, t) s) = (ss_lanes s)(src := l)"
  by (simp add: handle_decorated_chunk_def Let_def collect_text_def)

lemma handle_cleaned:
  "ss_cleaned (handle_decorated_chunk cfg src (l, t) s) = (ss_cleaned s)(src := ss_cleaned s src @ t)"
  by (auto simp: handle_decorated_chunk_def Let_def collect_text_def)

lemma handle_within_limit:
  assumes "\<not> ss_truncated (handle_decorated_chunk cfg src (l, t) s)"
    "sc_limit cfg = 0 \<or> length (ss_cleaned s Stdout) + length (ss_cleaned s Stderr) \<le> sc_limit cfg"
  shows "sc_limit cfg = 0 \<or> length (ss_cleaned (handle_decorated_chunk cfg src (l, t) s) Stdout)
      + length (ss_cleaned (handle_decorated_chunk cfg src (l, t) s) Stderr) \<le> sc_limit cfg"
proof (cases "t = []")
  case True
  then show ?thesis using assms(2) by (simp add: handle_cleaned)
next
  case False
  then obtain u where "handle_decorated_chunk cfg src (l, t) s = check_output_limit cfg src u"
    by (simp add: handle_decorated_chunk_def Let_def)
  then show ?thesis using assms(1) by (auto simp: check_output_limit_truncates)
qed

lemma handle_in_tune:
  assumes "in_tune cfg s x" "\<not> ss_truncated (handle_decorated_chunk cfg src r s)"
  shows "in_tune cfg (handle_decorated_chunk cfg src r s) (push_segment src r x)"
proof -
  obtain l t where r: "r = (l, t)" by (cases r)
  have a: "ss_lanes s = xs_lanes x" "stream_matches (xs_segments x) s" "ss_cleaned s = (\<lambda>src. texts_of src (xs_segments x))"
      "sc_limit cfg = 0 \<or> length (ss_cleaned s Stdout) + length (ss_cleaned s Stderr) \<le> sc_limit cfg"
    using assms(1) by (auto simp: in_tune_def)
  have "ss_cleaned (handle_decorated_chunk cfg src r s) = (\<lambda>src'. texts_of src' (xs_segments (push_segment src r x)))"
    by (auto simp: r handle_cleaned push_segment_fields a(3) texts_of_def fun_eq_iff)
  moreover have "ss_lanes (handle_decorated_chunk cfg src r s) = xs_lanes (push_segment src r x)"
    by (simp add: r handle_lanes push_segment_fields a(1))
  moreover have "stream_matches (xs_segments (push_segment src r x)) (handle_decorated_chunk cfg src r s)"
    using handle_matches[OF a(2)] by (simp add: r push_segment_fields)
  ultimately show ?thesis using handle_within_limit[OF assms(2)[unfolded r] a(4)] by (simp add: in_tune_def r)
qed

lemma in_tune_cong:
  assumes "in_tune cfg s x" "stream_matches (xs_segments x) t" "ss_lanes t = ss_lanes s" "ss_cleaned t = ss_cleaned s"
  shows "in_tune cfg t x"
  using assms(1) unfolding in_tune_def assms(3,4) by (elim conjE) (intro conjI assms(2); assumption)

lemma in_tune_matches: "in_tune cfg s x \<Longrightarrow> stream_matches (xs_segments x) s"
  by (simp add: in_tune_def)

lemma in_tune_texts:
  assumes "in_tune cfg s x"
  shows "ss_cleaned s = (\<lambda>src. texts_of src (xs_segments x))"
    "sc_limit cfg = 0 \<or> length (ss_cleaned s Stdout) + length (ss_cleaned s Stderr) \<le> sc_limit cfg"
  using assms unfolding in_tune_def by blast+

definition hear :: "'d decoders \<Rightarrow> shell_event \<Rightarrow> 'd exec_state \<Rightarrow> 'd exec_state" where
  "hear dc ev x = (case ev of Output_bytes src b \<Rightarrow> exec_chunk dc (src, b) x | _ \<Rightarrow> x)"

lemma step_in_tune:
  assumes "in_tune cfg s x" "\<not> ss_truncated (shell_event_step env cfg ev s)"
  shows "in_tune cfg (shell_event_step env cfg ev s) (hear (se_dc env) ev x)"
proof (cases ev)
  case (Output_bytes src b)
  have nt: "\<not> ss_truncated s" using assms(2) step_truncated by blast
  have l: "ss_lanes s = xs_lanes x" using assms(1) by (simp add: in_tune_def)
  show ?thesis using handle_in_tune[OF assms(1), of src "feed_lane (se_dc env) b (xs_lanes x src)"] assms(2) nt
    by (simp add: Output_bytes on_output_def hear_def exec_chunk_def l)
next
  case (Timer_fires src)
  have "stream_matches (xs_segments x) (on_timer src s)"
    using in_tune_matches[OF assms(1)] flush_buffer_matches[OF in_tune_matches[OF assms(1)], of False src] by (simp add: on_timer_def)
  then show ?thesis using in_tune_cong[OF assms(1)] by (simp add: Timer_fires hear_def on_timer_def)
next
  case Job_starts
  then show ?thesis using in_tune_cong[OF assms(1) start_job_matches[OF in_tune_matches[OF assms(1)]]] assms(2)
    by (simp add: hear_def)
next
  case Job_settles
  have "stream_matches (xs_segments x) (settle_job env s)"
    by (rule matches_cong[OF in_tune_matches[OF assms(1)]]) simp_all
  then show ?thesis using in_tune_cong[OF assms(1)] by (simp add: Job_settles hear_def)
qed

lemma run_truncated: "ss_truncated s \<Longrightarrow> ss_truncated (fold (shell_event_step env cfg) evs s)"
  by (induction evs arbitrary: s) (simp_all add: step_truncated)

lemma hear_outputs: "fold (hear dc) evs x = fold (exec_chunk dc) (outputs evs) x"
  by (induction evs arbitrary: x) (simp_all add: outputs_def hear_def split: shell_event.splits)

lemma run_in_tune:
  assumes "in_tune cfg s x" "\<not> ss_truncated (fold (shell_event_step env cfg) evs s)"
  shows "in_tune cfg (fold (shell_event_step env cfg) evs s) (fold (hear (se_dc env)) evs x)"
  using assms
proof (induction evs arbitrary: s x)
  case (Cons ev evs)
  have "\<not> ss_truncated (shell_event_step env cfg ev s)" using Cons.prems(2) run_truncated by fastforce
  then show ?case using Cons.IH[OF step_in_tune[OF Cons.prems(1)]] Cons.prems(2) by simp
qed simp

lemma drain_lane_in_tune:
  assumes "in_tune cfg s x" "\<not> ss_truncated (drain_lane env cfg src s)"
  shows "in_tune cfg (drain_lane env cfg src s) (flush_remainder (se_dc env) src x)"
proof -
  have l: "ss_lanes t = xs_lanes y" if "in_tune cfg t y" for t :: "'a shell_stream" and y using that by (simp add: in_tune_def)
  let ?s1 = "handle_decorated_chunk cfg src (drain_decoder (se_dc env) (ss_lanes s src)) s"
  let ?x1 = "push_segment src (drain_decoder (se_dc env) (xs_lanes x src)) x"
  have "\<not> ss_truncated ?s1" using assms(2) handle_truncated[of ?s1 cfg src "drain_cleaner (ss_lanes ?s1 src)"]
    by (auto simp: drain_lane_def Let_def)
  then have t: "in_tune cfg ?s1 ?x1" using handle_in_tune[OF assms(1)] l[OF assms(1)] by simp
  show ?thesis using handle_in_tune[OF t, of src "drain_cleaner (ss_lanes ?s1 src)"] assms(2) l[OF t]
    by (simp add: drain_lane_def flush_remainder_def Let_def)
qed

lemma drain_lane_truncated: "ss_truncated s \<Longrightarrow> ss_truncated (drain_lane env cfg src s)"
  by (simp add: drain_lane_def Let_def handle_truncated)

lemma new_stream_in_tune: "in_tune cfg (new_stream dc) (new_exec dc)"
  by (simp add: in_tune_def new_stream_def new_exec_def stream_matches_def waiting_segments_def text_through_def
      buffers_fit_def number_segments_snoc(1))

lemma flush_forced_text:
  "ss_text (flush_buffer True src s) = (ss_text s)(src := [])"
  by (auto simp: flush_buffer_def Let_def)

lemma closed_stream:
  assumes "s = close_stream env cfg (run_shell env cfg evs)" "\<not> ss_truncated s"
  shows "stream_matches (heard (se_dc env) (outputs evs)) s \<and> ss_jobs s = []
    \<and> (\<forall>src. ss_text s src = [] \<and> ss_pending s src = [])
    \<and> (sc_limit cfg = 0 \<or> length (ss_cleaned s Stdout) + length (ss_cleaned s Stderr) \<le> sc_limit cfg)
    \<and> ss_cleaned s = (\<lambda>src. texts_of src (heard (se_dc env) (outputs evs)))"
proof -
  let ?r = "run_shell env cfg evs"
  let ?d1 = "drain_lane env cfg Stdout ?r" and ?d2 = "drain_lane env cfg Stderr (drain_lane env cfg Stdout ?r)"
  let ?f = "flush_buffer True Stderr (flush_buffer True Stdout ?d2)"
  have s: "s = await_jobs env cfg ?f" using assms(1) by (simp add: close_stream_def)
  have "\<not> ss_truncated ?f" using assms(2) await_truncated s by blast
  then have n2: "\<not> ss_truncated ?d2" by simp
  then have n1: "\<not> ss_truncated ?d1" using drain_lane_truncated by blast
  then have n0: "\<not> ss_truncated ?r" using drain_lane_truncated by blast
  let ?x0 = "fold (exec_chunk (se_dc env)) (outputs evs) (new_exec (se_dc env))"
  have t0: "in_tune cfg ?r ?x0"
    using run_in_tune[OF new_stream_in_tune, of env cfg evs] n0 by (simp add: run_shell_def hear_outputs)
  have t2: "in_tune cfg ?d2 (flush_decoder_remainder (se_dc env) ?x0)"
    unfolding flush_decoder_remainder_def by (intro drain_lane_in_tune n1 n2 t0)
  then have m: "stream_matches (heard (se_dc env) (outputs evs)) ?f"
    unfolding heard_def by (intro flush_buffer_matches in_tune_matches[OF t2])
  have a: "stream_matches (heard (se_dc env) (outputs evs)) s" "ss_jobs s = []" "ss_text s = ss_text ?f"
      "ss_cleaned s = ss_cleaned ?d2"
    using await_matches[OF m] assms(2) s by simp_all
  have t: "ss_text s src = []" for src by (cases src) (simp_all add: a(3) flush_forced_text)
  moreover have "ss_pending s src = []" for src using a(1) t pending_empty by (auto simp: stream_matches_def)
  moreover have b: "ss_cleaned ?d2 = (\<lambda>src. texts_of src (heard (se_dc env) (outputs evs)))"
      "sc_limit cfg = 0 \<or> length (ss_cleaned ?d2 Stdout) + length (ss_cleaned ?d2 Stderr) \<le> sc_limit cfg"
    using in_tune_texts[OF t2] by (simp_all only: heard_def)
  ultimately show ?thesis using a b(2)[unfolded b(1)] by simp
qed

lemma sorted_numbers:
  assumes "mset xs = mset (number_segments segs)"
  shows "sort_key fst xs = number_segments segs"
proof -
  have k: "map fst (number_segments segs) = [1..<Suc (length segs)]" by (simp add: number_segments_def del: upt_Suc)
  have s: "set xs = set (number_segments segs)" using assms by (metis set_mset_mset)
  have d: "distinct (map fst xs)"
  proof -
    have "mset (map fst xs) = mset (map fst (number_segments segs))" using assms by simp
    then show ?thesis using k by (metis distinct_upt mset_eq_imp_distinct_iff)
  qed
  show ?thesis
  proof (rule map_sorted_distinct_set_unique)
    show "inj_on fst (set (sort_key fst xs) \<union> set (number_segments segs))" using d s by (simp add: distinct_map)
    show "sorted (map fst (sort_key fst xs))" by simp
    show "distinct (map fst (sort_key fst xs))"
      using d by (metis mset_eq_imp_distinct_iff mset_map mset_sort)
    show "sorted (map fst (number_segments segs))" "distinct (map fst (number_segments segs))" by (simp_all add: k del: upt_Suc)
    show "set (sort_key fst xs) = set (number_segments segs)" by (simp add: s)
  qed
qed

lemma closed_ordered:
  assumes "s = close_stream env cfg (run_shell env cfg evs)" "\<not> ss_truncated s"
  shows "mset (ss_ordered s) = mset (number_segments (heard (se_dc env) (outputs evs)))"
proof -
  note c = closed_stream[OF assms]
  have "stream_matches (heard (se_dc env) (outputs evs)) s" using c by blast
  then show ?thesis using c by (simp add: stream_matches_def waiting_segments_def)
qed

lemma texts_lengths:
  "length (concat (map snd segs)) = length (texts_of Stdout segs) + length (texts_of Stderr segs)"
proof (induction segs)
  case (Cons p segs)
  then show ?case by (cases "fst p") (simp_all add: texts_of_def)
qed (simp add: texts_of_def)

text \<open>
  C18. If a streamed output is not given up, then whatever the interleaving of output, timers and jobs: the
  chunks sent of each stream make up the text of that stream, and the answer is all text of both streams in
  the order in which it arrived.
\<close>

theorem streamed_output_is_whole:
  assumes "s = close_stream env cfg (run_shell env cfg evs)" "\<not> ss_truncated s"
  shows "concat (map sk_data (filter (\<lambda>c. sk_source c = src) (ss_sent s)))
      = lane_all (se_dc env) (new_lane (se_dc env)) (bytes_of src (outputs evs))
    \<and> stream_combined s = sanitize_ingress_text (concat (map snd (heard (se_dc env) (outputs evs))))
    \<and> (sc_limit cfg = 0 \<or> length (stream_combined s) \<le> sc_limit cfg)"
proof -
  note c = closed_stream[OF assms]
  let ?h = "heard (se_dc env) (outputs evs)"
  have m: "stream_matches ?h s" using c by blast
  have "text_through src s = texts_of src ?h" using m by (simp add: stream_matches_def)
  then have "concat (map sk_data (filter (\<lambda>c. sk_source c = src) (ss_sent s))) = texts_of src ?h"
    using c by (simp add: text_through_def)
  moreover have o: "mset (ss_ordered s) = mset (number_segments ?h)" by (rule closed_ordered[OF assms])
  then have so: "sort_key fst (ss_ordered s) = number_segments ?h" by (rule sorted_numbers)
  have sn: "map snd (number_segments ?h) = map snd ?h" by (simp add: number_segments_def del: upt_Suc)
  have e: "ss_ordered s = [] \<longleftrightarrow> ?h = []"
  proof -
    have "ss_ordered s = [] \<longleftrightarrow> number_segments ?h = []" using o by auto
    then show ?thesis using sn by (metis map_is_Nil_conv)
  qed
  have comb: "stream_combined s = sanitize_ingress_text (concat (map snd ?h))"
  proof (cases "?h = []")
    case True
    then have "ss_cleaned s Stdout = []" "ss_cleaned s Stderr = []" using c by simp_all
    then show ?thesis using True e by (simp add: stream_combined_def)
  next
    case False
    then show ?thesis using e so sn by (simp add: stream_combined_def)
  qed
  moreover have "sc_limit cfg = 0 \<or> length (stream_combined s) \<le> sc_limit cfg"
  proof -
    have sl: "length (sanitize_ingress_text t) \<le> length t" for t
      using sanitize_chunk_splits(1)[of t create_sanitize_state] by (cases "sanitize_ingress_chunk t create_sanitize_state")
        (auto simp: sanitize_ingress_text_def intro: le_trans[OF length_filter_le])
    have "length (concat (map snd ?h)) = length (ss_cleaned s Stdout) + length (ss_cleaned s Stderr)"
      using c by (simp add: texts_lengths)
    moreover have "length (stream_combined s) \<le> length (concat (map snd ?h))"
      using comb sl by simp
    ultimately show ?thesis using c by auto
  qed
  ultimately show ?thesis using comb unfolding streams_are_independent by blast
qed

section \<open>Numbers and limits\<close>

definition chunks_in_order :: "shell_config \<Rightarrow> 'd shell_stream \<Rightarrow> bool" where
  "chunks_in_order cfg s \<longleftrightarrow>
     map sk_seq (ss_sent s) = [1..<Suc (ss_seq s)]
     \<and> (\<forall>src. map sk_stream_seq (filter (\<lambda>c. sk_source c = src) (ss_sent s)) = [1..<Suc (ss_stream_seq s src)])
     \<and> ss_emitted s = sum_list (map sk_bytes (ss_sent s))
     \<and> (sc_client_limit cfg = 0 \<or> ss_emitted s \<le> sc_client_limit cfg)"

lemma in_order_cong:
  assumes "chunks_in_order cfg s" "ss_sent t = ss_sent s" "ss_seq t = ss_seq s" "ss_stream_seq t = ss_stream_seq s"
    "ss_emitted t = ss_emitted s"
  shows "chunks_in_order cfg t"
  using assms(1) unfolding chunks_in_order_def assms(2-5) .

lemma send_job_in_order:
  assumes "chunks_in_order cfg s" "sc_client_limit cfg = 0 \<or> ss_emitted s + fj_bytes j \<le> sc_client_limit cfg"
  shows "chunks_in_order cfg (send_job j s)"
  unfolding chunks_in_order_def
proof (intro conjI allI)
  show "map sk_seq (ss_sent (send_job j s)) = [1..<Suc (ss_seq (send_job j s))]"
    using assms(1) by (simp add: send_job_def chunks_in_order_def)
  show "map sk_stream_seq (filter (\<lambda>c. sk_source c = src) (ss_sent (send_job j s))) = [1..<Suc (ss_stream_seq (send_job j s) src)]" for src
    using assms(1) by (auto simp: send_job_def chunks_in_order_def)
  show "ss_emitted (send_job j s) = sum_list (map sk_bytes (ss_sent (send_job j s)))"
    using assms(1) by (simp add: send_job_def chunks_in_order_def)
  show "sc_client_limit cfg = 0 \<or> ss_emitted (send_job j s) \<le> sc_client_limit cfg"
    using assms(2) by (simp add: send_job_def)
qed

lemma start_job_in_order:
  assumes "chunks_in_order cfg s"
  shows "chunks_in_order cfg (start_job cfg s)"
proof (cases "ss_busy s \<or> ss_jobs s = []")
  case True
  then show ?thesis using assms by (simp add: start_job_idle)
next
  case False
  then obtain j js where j: "\<not> ss_busy s" "ss_jobs s = j # js" by (cases "ss_jobs s") auto
  then show ?thesis
  proof (cases rule: start_job_cases[where cfg = cfg])
    case (sent b)
    let ?s1 = "s\<lparr>ss_jobs := js, ss_chunks := ss_chunks s + 1, ss_allow := b\<rparr>"
    have "chunks_in_order cfg ?s1" by (rule in_order_cong[OF assms]) simp_all
    then show ?thesis using send_job_in_order[of cfg ?s1 j] sent by simp
  next
    case (cut b)
    show ?thesis unfolding cut by (rule in_order_cong[OF assms]) simp_all
  next
    case given_up
    show ?thesis unfolding given_up(1) by (rule in_order_cong[OF assms]) (simp_all add: give_up_job_def)
  qed
qed

lemma handle_in_order:
  assumes "chunks_in_order cfg s"
  shows "chunks_in_order cfg (handle_decorated_chunk cfg src r s)"
  by (rule in_order_cong[OF assms]; cases r) (simp_all add: handle_decorated_chunk_def Let_def collect_text_def)

lemma await_in_order: "chunks_in_order cfg s \<Longrightarrow> chunks_in_order cfg (await_jobs env cfg s)"
proof (induction env cfg s rule: await_jobs.induct)
  case (1 env cfg s)
  have "chunks_in_order cfg (settle_job env s)" by (rule in_order_cong[OF "1.prems"]) simp_all
  then show ?case using "1.IH"[OF refl _ start_job_in_order] by (subst await_jobs.simps) (simp add: Let_def)
qed

lemma step_in_order:
  assumes "chunks_in_order cfg s"
  shows "chunks_in_order cfg (shell_event_step env cfg ev s)"
proof (cases ev)
  case (Timer_fires src)
  then show ?thesis using in_order_cong[OF assms, of "flush_buffer False src s"] assms by (simp add: on_timer_def)
next
  case Job_settles
  then show ?thesis using in_order_cong[OF assms, of "settle_job env s"] by simp
qed (simp_all add: on_output_def handle_in_order start_job_in_order assms)

lemma run_in_order: "chunks_in_order cfg (run_shell env cfg evs)"
proof -
  have "chunks_in_order cfg (fold (shell_event_step env cfg) evs s)" if "chunks_in_order cfg s" for s :: "'a shell_stream"
    using that by (induction evs arbitrary: s) (simp_all add: step_in_order)
  moreover have "chunks_in_order cfg (new_stream (se_dc env))" by (simp add: chunks_in_order_def new_stream_def)
  ultimately show ?thesis by (simp add: run_shell_def)
qed

text \<open>
  C20. The chunks of an output are numbered 1, 2, 3 and so on without a gap, over both streams and within each,
  whatever is given up or not stored in between, and the bytes sent never exceed the client's limit.
\<close>

theorem chunks_are_numbered:
  "chunks_in_order cfg (close_stream env cfg (run_shell env cfg evs))"
proof -
  have d: "chunks_in_order cfg (drain_lane env cfg src s)" if "chunks_in_order cfg s" for src and s :: "'a shell_stream"
    using that by (simp add: drain_lane_def Let_def handle_in_order)
  have f: "chunks_in_order cfg (flush_buffer b src s)" if "chunks_in_order cfg s" for b src and s :: "'a shell_stream"
    by (rule in_order_cong[OF that]) simp_all
  show ?thesis unfolding close_stream_def by (intro await_in_order f d run_in_order)
qed

section \<open>The same answer as \<open>execute\<close>\<close>

lemma sanitize_unmarked: "u \<notin> start_noise \<Longrightarrow> 0 \<notin> set t \<Longrightarrow> sanitize_ingress_text (u # t) = u # t"
  by (auto simp: sanitize_ingress_text_def sanitize_ingress_chunk_def strip_start_def create_sanitize_state_def
      start_noise_def starts_with_def Let_def intro!: filter_True)

lemma sanitized_nul_free: "0 \<notin> set (sanitize_ingress_text t)"
  by (auto simp: sanitize_ingress_text_def sanitize_ingress_chunk_def Let_def split: prod.splits)

definition segments_ok :: "'d exec_state \<Rightarrow> bool" where
  "segments_ok x \<longleftrightarrow> (\<forall>p \<in> set (xs_segments x). snd p \<noteq> []) \<and> xs_clean x = (\<lambda>src. texts_of src (xs_segments x))"

lemma push_segment_ok: "segments_ok x \<Longrightarrow> segments_ok (push_segment src r x)"
  by (cases r) (auto simp: segments_ok_def push_segment_fields texts_of_def fun_eq_iff)

lemma heard_ok: "segments_ok (flush_decoder_remainder dc (fold (exec_chunk dc) chunks (new_exec dc)))"
proof -
  have "segments_ok (fold (exec_chunk dc) chunks x)" if "segments_ok x" for x
    using that by (induction chunks arbitrary: x) (simp_all add: exec_chunk_def case_prod_beta push_segment_ok)
  moreover have "segments_ok (new_exec dc)" by (simp add: segments_ok_def new_exec_def)
  ultimately show ?thesis
    unfolding flush_decoder_remainder_def flush_remainder_def Let_def by (intro push_segment_ok) blast
qed

lemma combined_of_segments:
  assumes "segments_ok x"
  shows "combined_output (Some (out, er)) (Some (out, er)) x
     = sanitize_ingress_text (if xs_segments x = [] then plain_pair out er else concat (map snd (xs_segments x)))"
proof (cases "xs_segments x")
  case Nil
  then show ?thesis using assms by (simp add: combined_output_def segments_ok_def Let_def)
next
  case (Cons p ps)
  then have "snd p \<noteq> []" using assms by (simp add: segments_ok_def)
  then show ?thesis using Cons by (simp add: combined_output_def Let_def)
qed

text \<open>The answer of \<open>executeStreaming\<close> to a command that ended, when nothing was given up.\<close>

lemma combined_when_whole:
  assumes "s = close_stream env cfg (run_shell env cfg evs)" "\<not> ss_truncated s"
  shows "stream_combined (take_response out er s)
     = sanitize_ingress_text (if heard (se_dc env) (outputs evs) = [] then plain_pair out er
                              else concat (map snd (heard (se_dc env) (outputs evs))))"
proof -
  let ?h = "heard (se_dc env) (outputs evs)"
  note c = closed_stream[OF assms]
  have o: "mset (ss_ordered s) = mset (number_segments ?h)" by (rule closed_ordered[OF assms])
  have sn: "map snd (number_segments ?h) = map snd ?h" by (simp add: number_segments_def del: upt_Suc)
  show ?thesis
  proof (cases "?h = []")
    case True
    then have "ss_ordered s = []" using o by (simp add: number_segments_snoc(1))
    then show ?thesis using True by (simp add: stream_combined_def take_response_def plain_pair_def)
  next
    case False
    then have "ss_ordered s \<noteq> []" using o sn by (metis map_is_Nil_conv mset_zero_iff)
    then show ?thesis using False sorted_numbers[OF o] sn by (simp add: stream_combined_def take_response_def)
  qed
qed

lemma payload_within_limit:
  assumes "\<not> (0 < limit \<and> limit < length out)"
  shows "build_payload env code headline out limit saved message tail fs
    = (fs, Inr (payload_message code headline (rendered_output out limit tail), saved, message))"
  using assms by (auto simp: build_payload_def Let_def)

lemma char_unit_zero: "(of_char c :: code_unit) = 0 \<longleftrightarrow> c = CHR 0x00"
proof
  assume "(of_char c :: code_unit) = 0"
  then have "(of_nat (of_char c :: nat) :: code_unit) = 0" by (simp only: of_nat_of_char)
  then have d: "2 ^ 16 dvd (of_char c :: nat)" by (simp add: word_of_nat_eq_0_iff)
  have "(of_char c :: nat) < 2 ^ 16" by (rule less_trans[OF nat_of_char_less_256]) simp
  then have "\<not> (2 ^ 16 \<le> (of_char c :: nat))" by (simp only: not_le)
  then have "(of_char c :: nat) = 0" using d dvd_imp_le by blast
  then have "(of_char c :: nat) = of_char CHR 0x00" by simp
  then show "c = CHR 0x00" by (simp only: of_char_eq_iff)
qed simp

lemma units_nul_free: "0 \<notin> set (units s) \<longleftrightarrow> CHR 0x00 \<notin> set s"
  using char_unit_zero by (induction s) (auto simp: units_def eq_commute[of "0 :: code_unit"] eq_commute[of "CHR 0x00"])

lemma digit_char: "n < (10 :: nat) \<Longrightarrow> char_of (48 + n) \<noteq> CHR 0x00"
proof
  assume n: "n < (10 :: nat)" and e: "char_of (48 + n) = CHR 0x00"
  have "(of_char (char_of (48 + n)) :: nat) = of_char (CHR 0x00)" using e by simp
  then show False using n by simp
qed

lemma digits_nul_free: "CHR 0x00 \<notin> set (digits n)"
proof (induction n rule: digits.induct)
  case (1 n)
  then show ?case using digit_char[of n] digit_char[of "n mod 10"] by (subst digits.simps) auto
qed

lemma try_save_keeps [simp]: "cl_truncated (try_save env out c) = cl_truncated c"
  by (auto simp: try_save_def split: prod.splits sum.splits)

lemma explain_truncation_keeps [simp]: "cl_truncated (explain_truncation env cfg final c) = cl_truncated c"
  by (auto simp: explain_truncation_def Let_def split: option.splits)

lemma cut_oversized_truncated:
  "cl_truncated (cut_oversized env cfg final c) \<longleftrightarrow> cl_truncated c \<or> 0 < sc_limit cfg \<and> sc_limit cfg < length final"
  by (auto simp: cut_oversized_def Let_def)

lemma report_exit_code_keeps [simp]: "cl_truncated (fst (report_exit_code env cfg final code c)) = cl_truncated c"
  by (auto simp: report_exit_code_def Let_def split: prod.splits sum.splits option.splits list.splits)

lemma rendered_output_nul_free: "0 \<notin> set out \<Longrightarrow> 0 \<notin> set (rendered_output out limit tail)"
  by (auto simp: rendered_output_def last_units_def dest: in_set_dropD split: option.splits)

lemma payload_message_sanitized:
  assumes "0 \<notin> set headline" "0 \<notin> set rendered"
  shows "sanitize_ingress_text (payload_message code headline rendered) = payload_message code headline rendered"
proof -
  have i: "CHR 0x00 \<notin> set (int_digits code)" by (simp add: int_digits_def digits_nul_free)
  let ?rest = "units (''exit code '' @ int_digits code @ ''] '') @ headline @ newline_units @ units ''---'' @ newline_units @ rendered"
  have e: "payload_message code headline rendered = 0x5B # ?rest"
    by (simp add: payload_message_def units_def)
  have "0 \<notin> set (units (''exit code '' @ int_digits code @ ''] ''))" using i by (simp add: units_nul_free)
  moreover have "0 \<notin> set (units ''---'')" by (simp add: units_nul_free)
  ultimately have "0 \<notin> set ?rest" using assms by (simp add: newline_units_def)
  moreover have "0x5B \<notin> start_noise" by (simp add: start_noise_def bom_char_def replacement_def)
  ultimately show ?thesis unfolding e by (intro sanitize_unmarked)
qed

lemma exit_payload_sanitized:
  assumes "0 \<notin> set out"
  shows "sanitize_ingress_text (payload_message code (units (''Process exited with code '' @ int_digits code)) (rendered_output out limit tail))
    = payload_message code (units (''Process exited with code '' @ int_digits code)) (rendered_output out limit tail)"
proof -
  have "CHR 0x00 \<notin> set (''Process exited with code '' @ int_digits code)" by (simp add: int_digits_def digits_nul_free)
  then show ?thesis by (intro payload_message_sanitized rendered_output_nul_free assms) (simp only: units_nul_free not_False_eq_True)
qed

lemma report_exit_code_within_limit:
  assumes "\<not> (0 < sc_limit cfg \<and> sc_limit cfg < length out)"
  shows "snd (report_exit_code env cfg out code c)
    = sanitize_ingress_text (payload_message code (units (''Process exited with code '' @ int_digits code)) (rendered_output out (sc_limit cfg) None))"
  unfolding report_exit_code_def format_exit_code_message_def payload_within_limit[OF assms]
  by (simp only: prod.case sum.case Let_def snd_conv)

lemma payload_message_proper: "payload_message code headline rendered \<noteq> []"
  by (simp add: payload_message_def units_def)

text \<open>
  C17. Streaming makes no difference: for a command that ended and whose output was not given up, the answer
  of \<open>executeStreaming\<close> is the one of \<open>execute\<close> on the same bytes, whatever the interleaving, for every exit code.
\<close>

theorem streaming_agrees_with_execute:
  assumes "execute_streaming env cfg evs (Exited out er code) fs = (c, t, answer)" "\<not> cl_truncated c"
  shows "execute env cfg (outputs evs) (Exited out er code) fs = (fs, Inr answer)"
proof -
  define s where "s = close_stream env cfg (run_shell env cfg evs)"
  define r where "r = take_response out er s"
  define final where "final = stream_combined r"
  define status where "status = (if code \<noteq> 0 then Out_error else if ss_truncated s then Out_truncated else Out_success)"
  define c0 where "c0 = \<lparr>cl_truncated = ss_truncated r, cl_reason = ss_reason r, cl_message = ss_message r, cl_saved = None,
                   cl_status = status, cl_files = fs\<rparr>"
  define c1 where "c1 = explain_truncation env cfg final (cut_oversized env cfg final c0)"
  have e: "end_of_exec env cfg (Exited out er code) (run_shell env cfg evs) = (r, status, Some code)"
    by (simp add: end_of_exec_def Let_def r_def s_def status_def)
  have run: "execute_streaming env cfg evs (Exited out er code) fs = conclude env cfg (Exited out er code) fs (r, status, Some code)"
    by (simp add: execute_streaming_def e)
  have res: "c = (if code \<noteq> 0 then fst (report_exit_code env cfg final code c1) else c1)"
    "answer = shell_result None (if code \<noteq> 0 then Some (snd (report_exit_code env cfg final code c1)) else None) final c"
    using assms(1) unfolding run conclude_def
    by (auto simp: Let_def final_def[symmetric] c0_def[symmetric] c1_def[symmetric] case_prod_beta)
  have "\<not> cl_truncated c1" using assms(2) res(1) by (simp split: if_splits)
  then have "\<not> cl_truncated (cut_oversized env cfg final c0)" by (simp add: c1_def)
  then have nt: "\<not> cl_truncated c0" "\<not> (0 < sc_limit cfg \<and> sc_limit cfg < length final)"
    by (simp_all add: cut_oversized_truncated)
  then have c1: "c1 = c0" by (auto simp: c1_def cut_oversized_def explain_truncation_def)
  have ns: "\<not> ss_truncated s" using nt(1) by (simp add: c0_def r_def take_response_def)
  have f: "combined_output (Some (out, er)) (Some (out, er))
      (flush_decoder_remainder (se_dc env) (fold (exec_chunk (se_dc env)) (outputs evs) (new_exec (se_dc env)))) = final"
    using combined_of_segments[OF heard_ok[of "se_dc env" "outputs evs"], of out er] combined_when_whole[OF s_def ns, of out er] by (simp add: final_def r_def heard_def)
  have z: "0 \<notin> set final" by (simp add: final_def stream_combined_def sanitized_nul_free)
  show ?thesis
  proof (cases "code = 0")
    case True
    have "status = Out_success" using True ns by (simp add: status_def)
    then have "answer = final" using res True c1 by (simp add: shell_result_def falsy_text_def c0_def)
    moreover have "execute env cfg (outputs evs) (Exited out er code) fs = (fs, Inr final)"
      using True nt(2) unfolding execute_def Let_def exec_outcome.case f by auto
    ultimately show ?thesis by simp
  next
    case False
    let ?m = "payload_message code (units (''Process exited with code '' @ int_digits code)) (rendered_output final (sc_limit cfg) None)"
    have "snd (report_exit_code env cfg final code c1) = ?m"
      unfolding report_exit_code_within_limit[OF nt(2)] by (rule exit_payload_sanitized[OF z])
    then have "answer = ?m" using res(2) False payload_message_proper by (simp add: shell_result_def falsy_text_def)
    moreover have "execute env cfg (outputs evs) (Exited out er code) fs = (fs, Inr ?m)"
      using False unfolding execute_def Let_def exec_outcome.case f format_exit_code_message_def payload_within_limit[OF nt(2)] message_of_def
      by (simp only: prod.case sum.case if_True not_False_eq_True)
    ultimately show ?thesis by simp
  qed
qed

section \<open>Beyond the limits\<close>

text \<open>The message of a failed command does not say where its output was saved.\<close>

theorem failure_hides_its_file:
  assumes "se_save env (sf_calls fs) = Inr uid" "0 < limit" "limit < length out"
  shows "message_of (build_payload env code headline out limit None None tail fs)
    = (fs\<lparr>sf_calls := sf_calls fs + 1, sf_files := sf_files fs @ [(units (''/tmp/'' @ uid @ ''.txt''), out)]\<rparr>,
       Inr (payload_message code headline (last_units (min limit output_tail_limit) out)))"
proof -
  have "min (min limit output_tail_limit) (length out) = min limit output_tail_limit" using assms(3) by simp
  then show ?thesis using assms
    by (simp add: build_payload_def save_oversized_output_def falsy_text_def message_of_def rendered_output_def Let_def)
qed

definition sample_shell :: "encoding shell_env" where
  "sample_shell = \<lparr>se_dc = plain_decoders, se_save = (\<lambda>_. Inr ''out''), se_lookup = No_record, se_up = (\<lambda>_. True)\<rparr>"

definition sample_limits :: "nat \<Rightarrow> shell_config" where
  "sample_limits n = \<lparr>sc_timeout = 9, sc_idle = 9, sc_limit = n, sc_coalesce = 5, sc_chunk_size = 9,
     sc_client_limit = 0, sc_pid1 = True\<rparr>"

definition ascii :: "string \<Rightarrow> byte list" where "ascii s = map of_char s"

definition long_run :: "shell_event list" where
  "long_run = [Output_bytes Stdout (ascii ''abcd''), Output_bytes Stdout (ascii ''efgh''), Timer_fires Stdout, Job_starts, Job_settles,
     Output_bytes Stdout (ascii ''ijkl'')]"

text \<open>
  Once the limit is passed, output is not even looked at; the file that is said to hold the full output holds
  what was kept before, although the response of the container has all of it.
\<close>

theorem kept_part_is_called_full:
  "case execute_streaming sample_shell (sample_limits 5) long_run (Exited (units ''abcdefghijkl'') [] 0) no_files of
     (c, t, answer) \<Rightarrow>
       answer = units ''Output truncated after 5 characters. Full output saved to /tmp/out.txt.''
       \<and> map snd (sf_files (cl_files c)) = [units ''abcdefgh'']"
  by code_simp

definition short_run :: "shell_event list" where
  "short_run = [Output_bytes Stdout (ascii ''ab''), Output_bytes Stderr (ascii ''xy''), Timer_fires Stderr, Job_starts,
     Output_bytes Stdout (ascii ''de'')]"

theorem streamed_output_is_whole_witness:
  "stream_combined (close_stream sample_shell (sample_limits 100) (run_shell sample_shell (sample_limits 100) short_run)) = units ''abxyde''"
proof -
  let ?s = "close_stream sample_shell (sample_limits 100) (run_shell sample_shell (sample_limits 100) short_run)"
  have n: "\<not> ss_truncated ?s" by code_simp
  have h: "sanitize_ingress_text (concat (map snd (heard (se_dc sample_shell) (outputs short_run)))) = units ''abxyde''" by code_simp
  show ?thesis using streamed_output_is_whole[OF refl n] h by simp
qed

theorem streaming_agrees_with_execute_witness:
  "execute sample_shell (sample_limits 100) (outputs short_run) (Exited [] [] 3) no_files
     = (no_files, Inr (snd (snd (execute_streaming sample_shell (sample_limits 100) short_run (Exited [] [] 3) no_files))))"
proof -
  let ?r = "execute_streaming sample_shell (sample_limits 100) short_run (Exited [] [] 3) no_files"
  have n: "\<not> cl_truncated (fst ?r)" by code_simp
  have r: "?r = (fst ?r, fst (snd ?r), snd (snd ?r))" by simp
  show ?thesis by (rule streaming_agrees_with_execute[OF r n])
qed
end
